(* ===== verification/Prelude.thy ===== *)
theory Prelude
  imports Main "HOL-Library.Word" "HOL-Library.List_Lexorder" "HOL-Library.Char_ord"
    "HOL-Library.Product_Lexorder"
begin

text \<open>
  The vocabulary every component shares: the machine types of the Rust code, its
  \<open>Result\<close> values and the \<open>?\<close> operator, ordered maps as sorted association
  lists, bounded logs, saturating arithmetic, fixed-width big- and little-endian
  integers, and the locales that state the contracts several components have in common.
\<close>

section \<open>Machine types\<close>

type_synonym byte = "8 word"
type_synonym bytes = "byte list"
type_synonym u32 = "32 word"
type_synonym u64 = "64 word"

named_theorems ok_simps \<open>when a checked operation succeeds\<close>
named_theorems map_simps \<open>lookups after updates of ordered maps\<close>
named_theorems inv_rules \<open>operations that keep an invariant\<close>

section \<open>Results and the question-mark operator\<close>

text \<open>
  \<open>require b e\<close> is an early return of \<open>e\<close> unless \<open>b\<close>. A run of statements of the
  form \<open>check(...)?;\<close> is \<open>first_err\<close> of the list of their results: the first error,
  or unit. \<open>and_then\<close> is the \<open>?\<close> operator on a result whose value is used.
\<close>

definition require :: "bool \<Rightarrow> 'e \<Rightarrow> 'e + unit" where
  "require b e = (if b then Inr () else Inl e)"

fun first_err :: "('e + unit) list \<Rightarrow> 'e + unit" where
  "first_err [] = Inr ()"
| "first_err (r # rs) = (case r of Inl e \<Rightarrow> Inl e | Inr _ \<Rightarrow> first_err rs)"

fun and_then :: "'e + 'a \<Rightarrow> ('a \<Rightarrow> 'e + 'b) \<Rightarrow> 'e + 'b" where
  "and_then (Inl e) k = Inl e"
| "and_then (Inr x) k = k x"

fun is_ok :: "'e + 'a \<Rightarrow> bool" where
  "is_ok (Inl e) = False"
| "is_ok (Inr x) = True"

lemma require_ok [ok_simps, simp]: "require b e = Inr u \<longleftrightarrow> b"
  by (cases u) (simp add: require_def)

lemma require_err [simp]: "require b e = Inl e' \<longleftrightarrow> \<not> b \<and> e' = e"
  by (auto simp: require_def)

lemma first_err_ok [ok_simps]: "first_err rs = Inr u \<longleftrightarrow> (\<forall>r \<in> set rs. r = Inr ())"
  by (induction rs) (auto split: sum.splits)

lemma first_err_append:
  "first_err (rs @ ss) = (case first_err rs of Inl e \<Rightarrow> Inl e | Inr _ \<Rightarrow> first_err ss)"
  by (induction rs) (auto split: sum.splits)

lemma first_err_map_require [ok_simps]:
  "first_err (map (\<lambda>x. require (P x) (f x)) xs) = Inr u \<longleftrightarrow> (\<forall>x \<in> set xs. P x)"
  by (auto simp: first_err_ok)

lemma first_err_mem: "first_err rs = Inl e \<Longrightarrow> Inl e \<in> set rs"
  by (induction rs) (auto split: sum.splits)

lemma and_then_ok [ok_simps]: "and_then r k = Inr y \<longleftrightarrow> (\<exists>x. r = Inr x \<and> k x = Inr y)"
  by (cases r) auto

lemma and_then_err: "and_then r k = Inl e \<longleftrightarrow> r = Inl e \<or> (\<exists>x. r = Inr x \<and> k x = Inl e)"
  by (cases r) auto

lemma map_sum_ok [ok_simps]: "map_sum f id r = Inr x \<longleftrightarrow> r = Inr x"
  by (cases r) auto

lemma is_ok_iff [ok_simps]: "is_ok r \<longleftrightarrow> (\<exists>x. r = Inr x)"
  by (cases r) auto

section \<open>Saturating arithmetic\<close>

definition sat_add :: "'a::len word \<Rightarrow> 'a word \<Rightarrow> 'a word" where
  "sat_add a b = (if a + b < a then - 1 else a + b)"

definition sat_sub :: "'a::len word \<Rightarrow> 'a word \<Rightarrow> 'a word" where
  "sat_sub a b = (if a < b then 0 else a - b)"

lemma unat_minus_one_word: "unat (- 1 :: 'a::len word) = 2 ^ LENGTH('a) - 1"
  by (simp add: unsigned_minus_1_eq_mask mask_eq_exp_minus_1)

lemma unat_bound: "unat (w :: 'a::len word) < 2 ^ LENGTH('a)"
  by (rule unsigned_less)

lemma word_add_wrap_iff:
  fixes a b :: "'a::len word"
  shows "a + b < a \<longleftrightarrow> 2 ^ LENGTH('a) \<le> unat a + unat b"
proof -
  have ua: "unat a < 2 ^ LENGTH('a)" and ub: "unat b < 2 ^ LENGTH('a)"
    by (simp_all only: unat_bound)
  have s: "unat (a + b) = (unat a + unat b) mod 2 ^ LENGTH('a)"
    by (simp add: unat_word_ariths)
  show ?thesis
  proof (cases "unat a + unat b < 2 ^ LENGTH('a)")
    case True
    then show ?thesis using s by (simp add: word_less_nat_alt)
  next
    case False
    then have "unat (a + b) = unat a + unat b - 2 ^ LENGTH('a)"
      using s ua ub by (metis add_less_mono add_mult_distrib2 le_mod_geq linorder_not_less
          mod_less less_diff_conv2 mult_2 nat_less_le)
    moreover have "unat a + unat b - 2 ^ LENGTH('a) < unat a"
      using ub False by linarith
    ultimately show ?thesis using False by (simp add: word_less_nat_alt)
  qed
qed

lemma unat_sat_add:
  fixes a b :: "'a::len word"
  shows "unat (sat_add a b) = min (unat a + unat b) (2 ^ LENGTH('a) - 1)"
proof (cases "a + b < a")
  case True
  then have "2 ^ LENGTH('a) \<le> unat a + unat b" by (simp add: word_add_wrap_iff)
  then show ?thesis using True by (simp add: sat_add_def unat_minus_one_word)
next
  case False
  then have "unat a + unat b < 2 ^ LENGTH('a)" by (simp add: word_add_wrap_iff)
  then show ?thesis using False
    by (simp add: sat_add_def unat_word_ariths)
qed

lemma unat_sat_sub:
  fixes a b :: "'a::len word"
  shows "unat (sat_sub a b) = unat a - unat b"
  by (auto simp: sat_sub_def word_less_nat_alt unat_sub word_le_nat_alt)

section \<open>Fixed-width integers as bytes\<close>

fun be_nat :: "nat \<Rightarrow> nat \<Rightarrow> bytes" where
  "be_nat 0 v = []"
| "be_nat (Suc n) v = be_nat n (v div 256) @ [word_of_nat v]"

lemma be_nat_numeral:
  "be_nat (numeral k) v = be_nat (pred_numeral k) (v div 256) @ [word_of_nat v]"
  unfolding numeral_eq_Suc [of k] by (rule be_nat.simps(2))

definition nat_of_be :: "bytes \<Rightarrow> nat" where
  "nat_of_be bs = foldl (\<lambda>a b. a * 256 + unat b) 0 bs"

definition u32_be :: "u32 \<Rightarrow> bytes" where
  "u32_be w = be_nat 4 (unat w)"

definition u64_be :: "u64 \<Rightarrow> bytes" where
  "u64_be w = be_nat 8 (unat w)"

definition u64_le :: "u64 \<Rightarrow> bytes" where
  "u64_le w = rev (u64_be w)"

lemma length_be_nat [simp]: "length (be_nat n v) = n"
  by (induction n arbitrary: v) auto

lemma length_u32_be [simp]: "length (u32_be w) = 4"
  by (simp add: u32_be_def)

lemma length_u64_be [simp]: "length (u64_be w) = 8"
  by (simp add: u64_be_def)

lemma length_u64_le [simp]: "length (u64_le w) = 8"
  by (simp add: u64_le_def)

lemma nat_of_be_be_nat: "nat_of_be (be_nat n v) = v mod 256 ^ n"
proof (induction n arbitrary: v)
  case 0
  then show ?case by (simp add: nat_of_be_def)
next
  case (Suc n)
  have b: "unat (word_of_nat v :: byte) = v mod 256"
    by (simp add: unat_of_nat)
  have "nat_of_be (be_nat (Suc n) v) = nat_of_be (be_nat n (v div 256)) * 256 + v mod 256"
    by (simp add: nat_of_be_def b)
  also have "\<dots> = (v div 256) mod 256 ^ n * 256 + v mod 256" by (simp add: Suc.IH)
  also have "\<dots> = v mod (256 * 256 ^ n)"
    by (simp add: mod_mult2_eq)
  finally show ?case by simp
qed

lemma u32_of_be: "word_of_nat (nat_of_be (u32_be w)) = w"
proof -
  have "unat w < 256 ^ 4" using unat_bound [of w] by simp
  then show ?thesis by (simp add: u32_be_def nat_of_be_be_nat)
qed

lemma u64_of_be: "word_of_nat (nat_of_be (u64_be w)) = w"
proof -
  have "unat w < 256 ^ 8" using unat_bound [of w] by simp
  then show ?thesis by (simp add: u64_be_def nat_of_be_be_nat)
qed

lemma u32_be_inj [simp]: "u32_be a = u32_be b \<longleftrightarrow> a = b"
  using u32_of_be by metis

lemma u64_be_inj [simp]: "u64_be a = u64_be b \<longleftrightarrow> a = b"
  using u64_of_be by metis

lemma u64_le_inj [simp]: "u64_le a = u64_le b \<longleftrightarrow> a = b"
  by (simp add: u64_le_def)

lemma word_of_nat_inj_below:
  "a < 2 ^ LENGTH('a) \<Longrightarrow> b < 2 ^ LENGTH('a) \<Longrightarrow>
   (word_of_nat a :: 'a::len word) = word_of_nat b \<longleftrightarrow> a = b"
  by (metis (mono_tags) mod_less unat_of_nat)

section \<open>Ordered maps\<close>

text \<open>
  A \<open>BTreeMap\<close> is a list of key-value pairs in increasing key order; \<open>bt_insert\<close> and
  \<open>bt_delete\<close> are its operations and \<open>map_of\<close> its lookup. A \<open>BTreeSet\<close> is such a map
  to unit, or the sorted list of its elements. A \<open>HashMap\<close> whose iteration order the
  code does not observe is modelled the same way.
\<close>

fun bt_insert :: "'k::linorder \<Rightarrow> 'v \<Rightarrow> ('k \<times> 'v) list \<Rightarrow> ('k \<times> 'v) list" where
  "bt_insert k v [] = [(k, v)]"
| "bt_insert k v ((k', v') # m) =
     (if k < k' then (k, v) # (k', v') # m
      else if k = k' then (k, v) # m
      else (k', v') # bt_insert k v m)"

definition bt_delete :: "'k \<Rightarrow> ('k \<times> 'v) list \<Rightarrow> ('k \<times> 'v) list" where
  "bt_delete k m = filter (\<lambda>p. fst p \<noteq> k) m"

definition bt_wf :: "('k::linorder \<times> 'v) list \<Rightarrow> bool" where
  "bt_wf m \<longleftrightarrow> sorted_wrt (<) (map fst m)"

lemma map_of_bt_insert [map_simps, simp]: "map_of (bt_insert k v m) = (map_of m)(k \<mapsto> v)"
  by (induction k v m rule: bt_insert.induct) (auto simp: fun_eq_iff)

lemma map_of_bt_delete [map_simps, simp]: "map_of (bt_delete k m) = (map_of m)(k := None)"
  by (induction m) (auto simp: bt_delete_def fun_eq_iff)

lemma dom_map_of_fst: "dom (map_of m) = fst ` set m"
  by (rule dom_map_of_conv_image_fst)

lemma set_bt_insert_fst: "fst ` set (bt_insert k v m) = insert k (fst ` set m)"
  by (induction k v m rule: bt_insert.induct) auto

lemma bt_wf_Nil [simp]: "bt_wf []"
  by (simp add: bt_wf_def)

lemma bt_wf_insert [inv_rules]: "bt_wf m \<Longrightarrow> bt_wf (bt_insert k v m)"
proof (induction k v m rule: bt_insert.induct)
  case (1 k v)
  then show ?case by (simp add: bt_wf_def)
next
  case (2 k v k' v' m)
  then show ?case
    using set_bt_insert_fst [of k v m] by (auto simp: bt_wf_def)
qed

lemma bt_wf_delete [inv_rules]: "bt_wf m \<Longrightarrow> bt_wf (bt_delete k m)"
  by (induction m) (auto simp: bt_wf_def bt_delete_def)

lemma bt_wf_filter [inv_rules]: "bt_wf m \<Longrightarrow> bt_wf (filter P m)"
  by (induction m) (auto simp: bt_wf_def)

lemma bt_wf_distinct: "bt_wf m \<Longrightarrow> distinct (map fst m)"
  unfolding bt_wf_def by (meson strict_sorted_iff)

lemma set_bt_insert_subset: "set (bt_insert k v m) \<subseteq> insert (k, v) (set m)"
  by (induction k v m rule: bt_insert.induct) auto

lemma length_bt_insert:
  "bt_wf m \<Longrightarrow> length (bt_insert k v m) = (if map_of m k = None then Suc (length m) else length m)"
proof (induction k v m rule: bt_insert.induct)
  case (1 k v)
  then show ?case by simp
next
  case (2 k v k' v' m)
  have "map_of m k = None" if "k < k'"
    using that 2(2) by (force simp: bt_wf_def map_of_eq_None_iff)
  moreover have "bt_wf m" using 2(2) by (simp add: bt_wf_def)
  ultimately show ?case using 2(1) by auto
qed

lemma length_bt_delete: "length (bt_delete k m) \<le> length m"
  by (simp add: bt_delete_def)

lemma bt_wf_ext:
  assumes "bt_wf m" "bt_wf n" "map_of m = map_of n"
  shows "m = n"
proof -
  have d: "distinct (map fst m)" "distinct (map fst n)"
    using assms by (auto simp: bt_wf_distinct)
  have s: "set m = set n"
    using assms(3) d by (metis map_of_inject_set)
  have "sorted (map fst m)" "sorted (map fst n)"
    using assms by (auto simp: bt_wf_def strict_sorted_iff)
  then show ?thesis
    using d s by (metis distinct_map inj_on_Un map_sorted_distinct_set_unique sup.idem)
qed

lemma map_of_filter_key: "map_of (filter (\<lambda>p. P (fst p)) m) k = (if P k then map_of m k else None)"
  by (induction m) auto

section \<open>Bounded logs\<close>

text \<open>
  Two shapes of the same bound occur in the code: push, then drain the excess from the
  front; and a loop that removes the first element while the list is too long.
\<close>

definition push_bounded :: "nat \<Rightarrow> 'a list \<Rightarrow> 'a \<Rightarrow> 'a list" where
  "push_bounded mx xs x = (let ys = xs @ [x] in
     if length ys > mx then drop (length ys - mx) ys else ys)"

fun evict_oldest :: "nat \<Rightarrow> 'a list \<Rightarrow> 'a list" where
  "evict_oldest mx xs = (if length xs > mx then evict_oldest mx (tl xs) else xs)"

declare evict_oldest.simps [simp del]

lemma evict_oldest_drop: "evict_oldest mx xs = drop (length xs - mx) xs"
proof (induction mx xs rule: evict_oldest.induct)
  case (1 mx xs)
  show ?case
  proof (cases "length xs > mx")
    case True
    then obtain y ys where xs: "xs = y # ys" by (cases xs) auto
    have "evict_oldest mx xs = drop (length ys - mx) ys"
      using 1 True xs evict_oldest.simps [of mx xs] by simp
    moreover have "length xs - mx = Suc (length ys - mx)" using True xs by simp
    ultimately show ?thesis using xs by simp
  next
    case False
    then show ?thesis by (simp add: evict_oldest.simps [of mx xs])
  qed
qed

lemma length_evict_oldest: "length (evict_oldest mx xs) \<le> mx"
  by (simp add: evict_oldest_drop)

lemma set_evict_oldest: "set (evict_oldest mx xs) \<subseteq> set xs"
  by (simp add: evict_oldest_drop set_drop_subset)

lemma push_bounded_evict: "push_bounded mx xs x = evict_oldest mx (xs @ [x])"
  by (simp add: push_bounded_def evict_oldest_drop Let_def)

lemma length_push_bounded [inv_rules]: "length (push_bounded mx xs x) \<le> mx"
  by (simp add: push_bounded_evict length_evict_oldest)

lemma push_bounded_last: "0 < mx \<Longrightarrow> push_bounded mx xs x \<noteq> [] \<and> last (push_bounded mx xs x) = x"
  by (auto simp: push_bounded_evict evict_oldest_drop)

lemma set_push_bounded: "set (push_bounded mx xs x) \<subseteq> insert x (set xs)"
  using set_evict_oldest [of mx "xs @ [x]"] by (auto simp: push_bounded_evict)

lemma push_bounded_room: "length xs < mx \<Longrightarrow> push_bounded mx xs x = xs @ [x]"
  by (simp add: push_bounded_def)

section \<open>Shared contracts\<close>

subsection \<open>State machines with an invariant\<close>

locale invariant_machine =
  fixes step :: "'s \<Rightarrow> 'e \<Rightarrow> 's"
    and inv :: "'s \<Rightarrow> bool"
  assumes step_inv: "inv s \<Longrightarrow> inv (step s e)"
begin

lemma run_inv: "inv s \<Longrightarrow> inv (foldl step s es)"
  by (induction es arbitrary: s) (auto intro: step_inv)

lemma prefix_inv: "inv s \<Longrightarrow> inv (foldl step s (take n es))"
  by (rule run_inv)

end

subsection \<open>Machines that absorb events they have already seen\<close>

locale dedup_machine = invariant_machine step inv
  for step :: "'s \<Rightarrow> 'e \<Rightarrow> 's" and inv :: "'s \<Rightarrow> bool" +
  fixes key :: "'e \<Rightarrow> 'k"
    and seen :: "'s \<Rightarrow> 'k set"
  assumes seen_mono: "inv s \<Longrightarrow> seen s \<subseteq> seen (step s e)"
    and seen_skip: "inv s \<Longrightarrow> key e \<in> seen s \<Longrightarrow> step s e = s"
begin

lemma run_seen_mono: "inv s \<Longrightarrow> seen s \<subseteq> seen (foldl step s es)"
proof (induction es arbitrary: s)
  case Nil
  then show ?case by simp
next
  case (Cons e es)
  then have "seen (step s e) \<subseteq> seen (foldl step (step s e) es)"
    using step_inv by blast
  then show ?case using seen_mono Cons.prems by fastforce
qed

lemma replay_absorbed:
  "inv s \<Longrightarrow> key e \<in> seen s \<Longrightarrow> step (foldl step s es) e = foldl step s es"
  using run_inv run_seen_mono seen_skip by blast

lemma replay_run_absorbed:
  "inv s \<Longrightarrow> key ` set es \<subseteq> seen s \<Longrightarrow> foldl step s es = s"
  by (induction es) (auto simp: seen_skip)

end

subsection \<open>Refinement of a specification\<close>

text \<open>
  A machine refines a specification when the abstraction of every step from a state with the
  invariant is the step of the specification; then so is the abstraction of every run.
\<close>

locale refinement = invariant_machine step inv
  for step :: "'s \<Rightarrow> 'e \<Rightarrow> 's" and inv :: "'s \<Rightarrow> bool" +
  fixes spec :: "'a \<Rightarrow> 'e \<Rightarrow> 'a"
    and abs :: "'s \<Rightarrow> 'a"
  assumes step_refines: "inv s \<Longrightarrow> abs (step s e) = spec (abs s) e"
begin

lemma run_refines: "inv s \<Longrightarrow> abs (foldl step s es) = foldl spec (abs s) es"
  by (induction es arbitrary: s) (simp_all add: step_inv step_refines)

lemma run_property:
  assumes "inv s" "P (abs s)" "\<And>a e. P a \<Longrightarrow> P (spec a e)"
  shows "P (abs (foldl step s es))"
proof -
  have "P (foldl spec a es)" if "P a" for a
    using that assms(3) by (induction es arbitrary: a) auto
  then show ?thesis using assms(1,2) by (simp add: run_refines)
qed

end

lemma distinct_remdups_adj_sorted: "sorted xs \<Longrightarrow> distinct (remdups_adj xs)"
  by (induction xs rule: remdups_adj.induct) (auto simp: less_le)

end
