(* ===== verification/Canonical.thy ===== *)
theory Canonical
  imports Prelude
begin

text \<open>
  The canonical signing preimages of \<open>hashgram-net/src/canonical.rs\<close>: the bounded
  builder \<open>Buf\<close> (here \<open>cbuf\<close>) with 32-bit length prefixes and a sticky first error, and
  the infallible builder \<open>Fixed\<close> with 64-bit length prefixes, whose state is just the
  bytes written so far. The main facts are that every field encoding is prefix free
  (locale \<open>prefix_free\<close>, interpreted on each kind of field), so that a preimage determines
  the fields it was built from.
\<close>

section \<open>Prefix-free encodings\<close>

text \<open>
  An encoding is prefix free on a domain when what follows an encoded value cannot be
  confused with the value. Sequences of encoded values are then unambiguous.
\<close>

locale prefix_free =
  fixes enc :: "'a \<Rightarrow> bytes"
    and dom :: "'a \<Rightarrow> bool"
  assumes enc_split: "dom x \<Longrightarrow> dom y \<Longrightarrow> enc x @ r = enc y @ s \<Longrightarrow> x = y \<and> r = s"
begin

lemma enc_inj: "dom x \<Longrightarrow> dom y \<Longrightarrow> enc x = enc y \<Longrightarrow> x = y"
  using enc_split [of x y "[]" "[]"] by simp

lemma enc_list_split:
  "length xs = length ys \<Longrightarrow> \<forall>x \<in> set xs. dom x \<Longrightarrow> \<forall>y \<in> set ys. dom y \<Longrightarrow>
   concat (map enc xs) @ r = concat (map enc ys) @ s \<Longrightarrow> xs = ys \<and> r = s"
proof (induction xs ys rule: list_induct2)
  case Nil
  then show ?case by simp
next
  case (Cons x xs y ys)
  then have "x = y \<and> concat (map enc xs) @ r = concat (map enc ys) @ s"
    by (intro enc_split) auto
  with Cons show ?case by simp
qed

end

text \<open>A decoder that returns what it did not consume gives prefix freeness.\<close>

locale prefix_decoder =
  fixes enc :: "'a \<Rightarrow> bytes"
    and dom :: "'a \<Rightarrow> bool"
    and dec :: "bytes \<Rightarrow> ('a \<times> bytes) option"
  assumes dec_enc: "dom x \<Longrightarrow> dec (enc x @ r) = Some (x, r)"

sublocale prefix_decoder \<subseteq> prefix_free enc dom
  by unfold_locales (metis dec_enc option.inject prod.inject)

section \<open>Encodings of fields\<close>

definition str_bytes :: "string \<Rightarrow> bytes" where
  "str_bytes s = map (\<lambda>c. word_of_nat (of_char c)) s"

lemma byte_of_char_inj: "(word_of_nat (of_char c) :: byte) = word_of_nat (of_char d) \<longleftrightarrow> c = d"
proof -
  have "(of_char c :: nat) < 2 ^ LENGTH(8)" "(of_char d :: nat) < 2 ^ LENGTH(8)"
    by simp_all
  then show ?thesis by (simp only: word_of_nat_inj_below of_char_eq_iff)
qed

lemma length_str_bytes [simp]: "length (str_bytes s) = length s"
  by (simp add: str_bytes_def)

lemma str_bytes_inj [simp]: "str_bytes s = str_bytes t \<longleftrightarrow> s = t"
  unfolding str_bytes_def
  by (rule inj_map_eq_map) (simp add: inj_def byte_of_char_inj)

definition frame32 :: "bytes \<Rightarrow> bytes" where
  "frame32 v = u32_be (word_of_nat (length v)) @ v"

definition frame64 :: "bytes \<Rightarrow> bytes" where
  "frame64 v = u64_be (word_of_nat (length v)) @ v"

definition list32 :: "bytes list \<Rightarrow> bytes" where
  "list32 vs = u32_be (word_of_nat (length vs)) @ concat (map frame32 vs)"

definition list64 :: "bytes list \<Rightarrow> bytes" where
  "list64 vs = u64_be (word_of_nat (length vs)) @ concat (map frame64 vs)"

lemma frame32_split:
  assumes "length x < 2 ^ 32" "length y < 2 ^ 32" "frame32 x @ r = frame32 y @ s"
  shows "x = y \<and> r = s"
proof -
  have e: "u32_be (word_of_nat (length x)) = u32_be (word_of_nat (length y)) \<and> x @ r = y @ s"
    using assms(3) by (simp add: frame32_def append_eq_append_conv)
  then have "length x = length y"
    using assms(1,2) word_of_nat_inj_below [where 'a = 32] by simp
  with e show ?thesis by simp
qed

lemma frame64_split:
  assumes "length x < 2 ^ 64" "length y < 2 ^ 64" "frame64 x @ r = frame64 y @ s"
  shows "x = y \<and> r = s"
proof -
  have e: "u64_be (word_of_nat (length x)) = u64_be (word_of_nat (length y)) \<and> x @ r = y @ s"
    using assms(3) by (simp add: frame64_def append_eq_append_conv)
  then have "length x = length y"
    using assms(1,2) word_of_nat_inj_below [where 'a = 64] by simp
  with e show ?thesis by simp
qed

interpretation u32f: prefix_free u32_be "\<lambda>_. True"
  by unfold_locales (simp add: append_eq_append_conv)

interpretation u64f: prefix_free u64_be "\<lambda>_. True"
  by unfold_locales (simp add: append_eq_append_conv)

interpretation f32: prefix_free frame32 "\<lambda>v. length v < 2 ^ 32"
  by unfold_locales (rule frame32_split)

interpretation f64: prefix_free frame64 "\<lambda>v. length v < 2 ^ 64"
  by unfold_locales (rule frame64_split)

lemma list32_split:
  assumes "length xs < 2 ^ 32" "length ys < 2 ^ 32"
    and "\<forall>x \<in> set xs. length x < 2 ^ 32" "\<forall>y \<in> set ys. length y < 2 ^ 32"
    and "list32 xs @ r = list32 ys @ s"
  shows "xs = ys \<and> r = s"
proof -
  have e: "(word_of_nat (length xs) :: u32) = word_of_nat (length ys)
      \<and> concat (map frame32 xs) @ r = concat (map frame32 ys) @ s"
    using assms(5) by (simp add: list32_def append_eq_append_conv)
  then have l: "length xs = length ys"
    using assms(1,2) word_of_nat_inj_below [where 'a = 32] by simp
  from f32.enc_list_split [OF l assms(3,4)] e show ?thesis by blast
qed

lemma list64_split:
  assumes "length xs < 2 ^ 64" "length ys < 2 ^ 64"
    and "\<forall>x \<in> set xs. length x < 2 ^ 64" "\<forall>y \<in> set ys. length y < 2 ^ 64"
    and "list64 xs @ r = list64 ys @ s"
  shows "xs = ys \<and> r = s"
proof -
  have e: "(word_of_nat (length xs) :: u64) = word_of_nat (length ys)
      \<and> concat (map frame64 xs) @ r = concat (map frame64 ys) @ s"
    using assms(5) by (simp add: list64_def append_eq_append_conv)
  then have l: "length xs = length ys"
    using assms(1,2) word_of_nat_inj_below [where 'a = 64] by simp
  from f64.enc_list_split [OF l assms(3,4)] e show ?thesis by blast
qed

interpretation l32: prefix_free list32 "\<lambda>vs. length vs < 2 ^ 32 \<and> (\<forall>v \<in> set vs. length v < 2 ^ 32)"
  by unfold_locales (rule list32_split, auto)

interpretation l64: prefix_free list64 "\<lambda>vs. length vs < 2 ^ 64 \<and> (\<forall>v \<in> set vs. length v < 2 ^ 64)"
  by unfold_locales (rule list64_split, auto)

section \<open>The bounded builder\<close>

definition MAX_FIELD_BYTES :: nat where
  "MAX_FIELD_BYTES = 16 * 2 ^ 20"

datatype canonical_error = FieldTooLong string nat

record cbuf =
  cb_out :: bytes
  cb_err :: "canonical_error option"

definition cb_new :: cbuf where
  "cb_new = \<lparr>cb_out = [], cb_err = None\<rparr>"

definition cb_bytes :: "string \<Rightarrow> bytes \<Rightarrow> cbuf \<Rightarrow> cbuf" where
  "cb_bytes field v b =
     (if cb_err b \<noteq> None then b
      else if length v > MAX_FIELD_BYTES
      then b\<lparr>cb_err := Some (FieldTooLong field (length v))\<rparr>
      else b\<lparr>cb_out := cb_out b @ u32_be (word_of_nat (length v)) @ v\<rparr>)"

definition cb_string :: "string \<Rightarrow> string \<Rightarrow> cbuf \<Rightarrow> cbuf" where
  "cb_string field s b = cb_bytes field (str_bytes s) b"

definition cb_u32 :: "u32 \<Rightarrow> cbuf \<Rightarrow> cbuf" where
  "cb_u32 v b = (if cb_err b = None then b\<lparr>cb_out := cb_out b @ u32_be v\<rparr> else b)"

definition cb_u64 :: "u64 \<Rightarrow> cbuf \<Rightarrow> cbuf" where
  "cb_u64 v b = (if cb_err b = None then b\<lparr>cb_out := cb_out b @ u64_be v\<rparr> else b)"

text \<open>An \<open>i32\<close> or \<open>i64\<close> is reinterpreted in two's complement, as \<open>as u32\<close> does.\<close>

definition cb_enum_value :: "int \<Rightarrow> cbuf \<Rightarrow> cbuf" where
  "cb_enum_value v b = cb_u32 (word_of_int v) b"

definition cb_height :: "int \<Rightarrow> cbuf \<Rightarrow> cbuf" where
  "cb_height v b = cb_u64 (word_of_int v) b"

definition cb_len :: "string \<Rightarrow> nat \<Rightarrow> cbuf \<Rightarrow> cbuf" where
  "cb_len field v b =
     (if cb_err b \<noteq> None then b
      else if v > MAX_FIELD_BYTES then b\<lparr>cb_err := Some (FieldTooLong field v)\<rparr>
      else b\<lparr>cb_out := cb_out b @ u32_be (word_of_nat v)\<rparr>)"

definition cb_bytes_list :: "string \<Rightarrow> bytes list \<Rightarrow> cbuf \<Rightarrow> cbuf" where
  "cb_bytes_list field items b =
     foldl (\<lambda>b v. cb_bytes field v b) (cb_len field (length items) b) items"

definition cb_string_list :: "string \<Rightarrow> string list \<Rightarrow> cbuf \<Rightarrow> cbuf" where
  "cb_string_list field items b = cb_bytes_list field (map str_bytes items) b"

definition cb_finish :: "cbuf \<Rightarrow> canonical_error + bytes" where
  "cb_finish b = (case cb_err b of Some e \<Rightarrow> Inl e | None \<Rightarrow> Inr (cb_out b))"

section \<open>The infallible builder\<close>

definition fx_new :: bytes where
  "fx_new = []"

definition fx_raw :: "bytes \<Rightarrow> bytes \<Rightarrow> bytes" where
  "fx_raw v out = out @ v"

definition fx_bytes :: "bytes \<Rightarrow> bytes \<Rightarrow> bytes" where
  "fx_bytes v out = out @ u64_be (word_of_nat (length v)) @ v"

definition fx_string :: "string \<Rightarrow> bytes \<Rightarrow> bytes" where
  "fx_string s out = fx_bytes (str_bytes s) out"

definition fx_u64 :: "u64 \<Rightarrow> bytes \<Rightarrow> bytes" where
  "fx_u64 v out = out @ u64_be v"

definition fx_count :: "nat \<Rightarrow> bytes \<Rightarrow> bytes" where
  "fx_count v out = fx_u64 (word_of_nat v) out"

definition fx_u32 :: "u32 \<Rightarrow> bytes \<Rightarrow> bytes" where
  "fx_u32 v out = out @ u32_be v"

definition fx_bytes64_slice :: "bytes list \<Rightarrow> bytes \<Rightarrow> bytes" where
  "fx_bytes64_slice items out = foldl (\<lambda>o' v. fx_bytes v o') (fx_count (length items) out) items"

lemma fx_bytes_frame: "fx_bytes v out = out @ frame64 v"
  by (simp add: fx_bytes_def frame64_def)

lemma fx_foldl: "foldl (\<lambda>o' v. fx_bytes v o') out items = out @ concat (map frame64 items)"
  by (induction items arbitrary: out) (simp_all add: fx_bytes_frame)

lemma fx_slice_list: "fx_bytes64_slice items out = out @ list64 items"
  by (simp add: fx_bytes64_slice_def fx_foldl fx_count_def fx_u64_def list64_def)

lemmas fx_simps = fx_new_def fx_raw_def fx_bytes_frame fx_string_def fx_u64_def fx_u32_def
  fx_slice_list fx_count_def

section \<open>What the bounded builder writes\<close>

lemma cb_err_sticky:
  assumes "cb_err b = Some e"
  shows "cb_bytes f v b = b" "cb_string f s b = b" "cb_u32 w b = b" "cb_u64 d b = b"
    "cb_enum_value i b = b" "cb_height i b = b" "cb_len f n b = b"
    "cb_bytes_list f vs b = b" "cb_string_list f ss b = b"
proof -
  have bl: "foldl (\<lambda>b v. cb_bytes f v b) b vs = b" for vs
    using assms by (induction vs) (simp_all add: cb_bytes_def)
  show "cb_bytes f v b = b" "cb_string f s b = b" "cb_u32 w b = b" "cb_u64 d b = b"
    "cb_enum_value i b = b" "cb_height i b = b" "cb_len f n b = b"
    using assms by (simp_all add: cb_bytes_def cb_string_def cb_u32_def cb_u64_def
        cb_enum_value_def cb_height_def cb_len_def)
  then show "cb_bytes_list f vs b = b" "cb_string_list f ss b = b"
    using assms bl by (simp_all add: cb_bytes_list_def cb_string_list_def cb_len_def)
qed

text \<open>A field of a preimage, and the operation of the builder that writes it.\<close>

datatype field = FBytes string bytes | FU32 u32 | FU64 u64 | FList string "bytes list"

fun cb_push :: "cbuf \<Rightarrow> field \<Rightarrow> cbuf" where
  "cb_push b (FBytes f v) = cb_bytes f v b"
| "cb_push b (FU32 w) = cb_u32 w b"
| "cb_push b (FU64 w) = cb_u64 w b"
| "cb_push b (FList f vs) = cb_bytes_list f vs b"

fun field_bytes :: "field \<Rightarrow> bytes" where
  "field_bytes (FBytes f v) = frame32 v"
| "field_bytes (FU32 w) = u32_be w"
| "field_bytes (FU64 w) = u64_be w"
| "field_bytes (FList f vs) = list32 vs"

fun field_ok :: "field \<Rightarrow> bool" where
  "field_ok (FBytes f v) = (length v \<le> MAX_FIELD_BYTES)"
| "field_ok (FU32 w) = True"
| "field_ok (FU64 w) = True"
| "field_ok (FList f vs) =
     (length vs \<le> MAX_FIELD_BYTES \<and> (\<forall>v \<in> set vs. length v \<le> MAX_FIELD_BYTES))"

text \<open>Two fields have the same shape when one format writes both: same kind, same name.\<close>

fun same_shape :: "field \<Rightarrow> field \<Rightarrow> bool" where
  "same_shape (FBytes f v) (FBytes g w) = (f = g)"
| "same_shape (FU32 v) (FU32 w) = True"
| "same_shape (FU64 v) (FU64 w) = True"
| "same_shape (FList f v) (FList g w) = (f = g)"
| "same_shape _ _ = False"

lemma cb_bytes_foldl_ok:
  assumes "cb_err b = None" "\<forall>v \<in> set vs. length v \<le> MAX_FIELD_BYTES"
  shows "foldl (\<lambda>b v. cb_bytes f v b) b vs = b\<lparr>cb_out := cb_out b @ concat (map frame32 vs)\<rparr>"
  using assms by (induction vs arbitrary: b) (auto simp: cb_bytes_def frame32_def)

lemma cb_bytes_foldl_err:
  assumes "cb_err b = None" "\<exists>v \<in> set vs. \<not> length v \<le> MAX_FIELD_BYTES"
  shows "cb_err (foldl (\<lambda>b v. cb_bytes f v b) b vs) \<noteq> None"
  using assms
proof (induction vs arbitrary: b)
  case Nil
  then show ?case by simp
next
  case (Cons v vs)
  show ?case
  proof (cases "length v \<le> MAX_FIELD_BYTES")
    case True
    then show ?thesis using Cons by (auto simp: cb_bytes_def)
  next
    case False
    then obtain b' e where b': "cb_bytes f v b = b'" "cb_err b' = Some e"
      using Cons.prems(1) by (auto simp: cb_bytes_def)
    have "foldl (\<lambda>b v. cb_bytes f v b) b' vs = b'"
      using b'(2) by (induction vs) (simp_all add: cb_bytes_def)
    then show ?thesis using b' by simp
  qed
qed

lemma cb_push_ok:
  "cb_err b = None \<Longrightarrow> field_ok x \<Longrightarrow> cb_push b x = b\<lparr>cb_out := cb_out b @ field_bytes x\<rparr>"
proof (cases x)
  case (FList f vs)
  assume "cb_err b = None" "field_ok x"
  then show ?thesis using FList
    by (simp add: cb_bytes_list_def cb_len_def cb_bytes_foldl_ok list32_def)
qed (simp_all add: cb_bytes_def cb_u32_def cb_u64_def frame32_def)

lemma cb_push_err:
  "cb_err b = None \<Longrightarrow> \<not> field_ok x \<Longrightarrow> cb_err (cb_push b x) \<noteq> None"
proof (cases x)
  case (FList f vs)
  assume b: "cb_err b = None" and x: "\<not> field_ok x"
  show ?thesis
  proof (cases "length vs \<le> MAX_FIELD_BYTES")
    case True
    have "cb_err (cb_push b x) = cb_err (foldl (\<lambda>b v. cb_bytes f v b)
        (b\<lparr>cb_out := cb_out b @ u32_be (word_of_nat (length vs))\<rparr>) vs)"
      using True FList b by (simp add: cb_bytes_list_def cb_len_def)
    also have "\<dots> \<noteq> None"
      using True FList b x by (intro cb_bytes_foldl_err) auto
    finally show ?thesis .
  next
    case False
    then obtain b' e where b': "cb_len f (length vs) b = b'" "cb_err b' = Some e"
      using b by (auto simp: cb_len_def)
    have "foldl (\<lambda>b v. cb_bytes f v b) b' ws = b'" for ws
      using b'(2) by (induction ws) (simp_all add: cb_bytes_def)
    with b' FList show ?thesis by (simp add: cb_bytes_list_def)
  qed
qed (auto simp: cb_bytes_def)

lemma cb_push_sticky: "cb_err b = Some e \<Longrightarrow> cb_push b x = b"
  by (cases x) (simp_all add: cb_err_sticky)

lemma cb_run_sticky: "cb_err b = Some e \<Longrightarrow> foldl cb_push b xs = b"
  by (induction xs) (simp_all add: cb_push_sticky)

lemma cb_run_err: "cb_err b \<noteq> None \<Longrightarrow> cb_finish (foldl cb_push b xs) \<noteq> Inr p"
  using cb_run_sticky by (auto simp: cb_finish_def)

lemma cb_run_ok:
  "cb_err b = None \<Longrightarrow> cb_finish (foldl cb_push b xs) = Inr p \<longleftrightarrow>
     (\<forall>x \<in> set xs. field_ok x) \<and> p = cb_out b @ concat (map field_bytes xs)"
proof (induction xs arbitrary: b)
  case Nil
  then show ?case by (auto simp: cb_finish_def)
next
  case (Cons x xs)
  show ?case
  proof (cases "field_ok x")
    case True
    then show ?thesis using Cons by (auto simp: cb_push_ok)
  next
    case False
    then show ?thesis using Cons.prems cb_push_err cb_run_err by fastforce
  qed
qed

lemma field_split:
  assumes "same_shape x y" "field_ok x" "field_ok y" "field_bytes x @ r = field_bytes y @ s"
  shows "x = y \<and> r = s"
  using assms(1)
proof (cases rule: same_shape.elims(2))
  case (1 f v g w)
  then show ?thesis using assms f32.enc_split [of v w r s] by (auto simp: MAX_FIELD_BYTES_def)
next
  case (2 v w)
  then show ?thesis using assms by (simp add: append_eq_append_conv)
next
  case (3 v w)
  then show ?thesis using assms by (simp add: append_eq_append_conv)
next
  case (4 f v g w)
  then show ?thesis using assms l32.enc_split [of v w r s]
    by (fastforce simp: MAX_FIELD_BYTES_def)
qed

lemma fields_split:
  "list_all2 same_shape xs ys \<Longrightarrow> \<forall>x \<in> set xs. field_ok x \<Longrightarrow> \<forall>y \<in> set ys. field_ok y \<Longrightarrow>
   concat (map field_bytes xs) = concat (map field_bytes ys) \<Longrightarrow> xs = ys"
proof (induction xs ys rule: list_all2_induct)
  case Nil
  then show ?case by simp
next
  case (Cons x xs y ys)
  then have "x = y \<and> concat (map field_bytes xs) = concat (map field_bytes ys)"
    by (intro field_split) auto
  with Cons show ?case by simp
qed

text \<open>
  The framing is unambiguous: if two runs of the builder over the same sequence of
  field kinds both finish and give the same preimage, every field has the same value. A
  signature over one set of fields is therefore never a signature over another.
\<close>

theorem canonical_framing_injective:
  assumes "list_all2 same_shape xs ys"
    and "cb_finish (foldl cb_push cb_new xs) = Inr p"
    and "cb_finish (foldl cb_push cb_new ys) = Inr p"
  shows "xs = ys"
proof -
  have "cb_err cb_new = None" "cb_out cb_new = []" by (simp_all add: cb_new_def)
  then show ?thesis using assms cb_run_ok fields_split by (metis append_Nil)
qed

theorem canonical_framing_injective_witness:
  "cb_finish (foldl cb_push cb_new [FBytes ''id'' [1, 2], FU32 7]) = Inr [0, 0, 0, 2, 1, 2, 0, 0, 0, 7]
   \<and> [FBytes ''id'' [1, 2], FU32 7] = [FBytes ''id'' [1, 2], FU32 7]"
proof -
  have p: "cb_finish (foldl cb_push cb_new [FBytes ''id'' [1, 2], FU32 7])
      = Inr [0, 0, 0, 2, 1, 2, 0, 0, 0, 7]"
    by (simp add: cb_finish_def cb_new_def cb_bytes_def cb_u32_def MAX_FIELD_BYTES_def u32_be_def be_nat_numeral)
  have s: "list_all2 same_shape [FBytes ''id'' [1, 2], FU32 7] [FBytes ''id'' [1, 2], FU32 7]"
    by simp
  from p canonical_framing_injective [OF s p p] show ?thesis by blast
qed

text \<open>
  The builder fails closed: it finishes exactly when every field is within the framing
  bound, and what it then returns is the concatenation of the length-prefixed fields.
\<close>

theorem canonical_finish_iff:
  "cb_finish (foldl cb_push cb_new xs) = Inr p \<longleftrightarrow>
     (\<forall>x \<in> set xs. field_ok x) \<and> p = concat (map field_bytes xs)"
proof -
  have "cb_err cb_new = None" "cb_out cb_new = []" by (simp_all add: cb_new_def)
  then show ?thesis using cb_run_ok by simp
qed

theorem canonical_finish_iff_witness:
  "cb_finish (foldl cb_push cb_new [FU32 7, FBytes ''id'' []]) = Inr (u32_be 7 @ frame32 [])"
  unfolding canonical_finish_iff by simp

end
