(* ===== verification/Wire_Ids.thy ===== *)
theory Wire_Ids
  imports Canonical
begin

text \<open>
  The errors of the application layer (\<open>hashgram-app/src/lib.rs\<close>), its identifiers and field
  checks (\<open>ids.rs\<close>) and the version gate (\<open>version.rs\<close>). A \<open>String\<close> is its UTF-8 bytes, so
  \<open>length\<close> is \<open>str::len\<close>. The text of an error is abbreviated to the field name or the fixed
  part of its message; the numbers the code interpolates are left out. The randomness of the
  operating system is an argument: \<open>None\<close> when it fails, else the stream of bytes it gives.
\<close>

section \<open>Errors\<close>

datatype app_error =
    Unsupported string
  | Invalid string
  | Integrity string
  | Unauthorised string
  | NotFound string
  | NoRandomness
  | CanonicalErr canonical_error
  | Decode string

type_synonym 'a res = "app_error + 'a"

section \<open>Characters and decimal numbers\<close>

definition char_nat :: "char \<Rightarrow> nat" where
  "char_nat c = of_char c"

definition is_ascii_digit :: "char \<Rightarrow> bool" where
  "is_ascii_digit c \<longleftrightarrow> 48 \<le> char_nat c \<and> char_nat c \<le> 57"

definition is_ascii_upper :: "char \<Rightarrow> bool" where
  "is_ascii_upper c \<longleftrightarrow> 65 \<le> char_nat c \<and> char_nat c \<le> 90"

definition is_ascii_lower :: "char \<Rightarrow> bool" where
  "is_ascii_lower c \<longleftrightarrow> 97 \<le> char_nat c \<and> char_nat c \<le> 122"

definition is_ascii_alnum :: "char \<Rightarrow> bool" where
  "is_ascii_alnum c \<longleftrightarrow> is_ascii_digit c \<or> is_ascii_upper c \<or> is_ascii_lower c"

definition lower_char :: "char \<Rightarrow> char" where
  "lower_char c = (if is_ascii_upper c then char_of (char_nat c + 32) else c)"

definition ascii_lowercase :: "string \<Rightarrow> string" where
  "ascii_lowercase s = map lower_char s"

definition eq_ignore_ascii_case :: "string \<Rightarrow> string \<Rightarrow> bool" where
  "eq_ignore_ascii_case s t \<longleftrightarrow> ascii_lowercase s = ascii_lowercase t"

fun dec_string :: "nat \<Rightarrow> string" where
  "dec_string n = (if n < 10 then [char_of (48 + n)]
     else dec_string (n div 10) @ [char_of (48 + n mod 10)])"

declare dec_string.simps [simp del]

lemma length_ascii_lowercase [simp]: "length (ascii_lowercase s) = length s"
  by (simp add: ascii_lowercase_def)

lemma lower_char_idem [simp]: "lower_char (lower_char c) = lower_char c"
  by (auto simp: lower_char_def is_ascii_upper_def char_nat_def)

lemma ascii_lowercase_idem [simp]: "ascii_lowercase (ascii_lowercase s) = ascii_lowercase s"
  by (simp add: ascii_lowercase_def)

lemma eq_ignore_ascii_case_refl [simp]: "eq_ignore_ascii_case s s"
  by (simp add: eq_ignore_ascii_case_def)

lemma eq_ignore_ascii_case_sym: "eq_ignore_ascii_case s t = eq_ignore_ascii_case t s"
  by (auto simp: eq_ignore_ascii_case_def)

lemma dec_string_digits: "c \<in> set (dec_string n) \<Longrightarrow> is_ascii_digit c"
proof (induction n rule: dec_string.induct)
  case (1 n)
  show ?case
  proof (cases "n < 10")
    case True
    then show ?thesis using 1 dec_string.simps [of n]
      by (simp add: is_ascii_digit_def char_nat_def)
  next
    case False
    then show ?thesis using 1 dec_string.simps [of n]
      by (auto simp: is_ascii_digit_def char_nat_def)
  qed
qed

lemma dec_string_not: "\<not> is_ascii_digit c \<Longrightarrow> c \<notin> set (dec_string n)"
  using dec_string_digits by blast

lemma dec_string_nonempty: "dec_string n \<noteq> []"
  by (subst dec_string.simps) simp

lemma dec_string_inj: "dec_string m = dec_string n \<Longrightarrow> m = n"
proof (induction m arbitrary: n rule: dec_string.induct)
  case (1 m)
  show ?case
  proof (cases "m < 10")
    case True
    have "n < 10"
    proof (rule ccontr)
      assume "\<not> n < 10"
      then have "[char_of (48 + m)] = dec_string (n div 10) @ [char_of (48 + n mod 10)]"
        using 1(2) True dec_string.simps [of m] dec_string.simps [of n] by simp
      then show False using dec_string_nonempty [of "n div 10"] by (cases "dec_string (n div 10)") auto
    qed
    then show ?thesis using 1(2) True dec_string.simps [of m] dec_string.simps [of n]
      by (simp add: char_of_eq_iff take_bit_eq_mod)
  next
    case False
    have n: "\<not> n < 10"
    proof
      assume "n < 10"
      then have "dec_string (m div 10) @ [char_of (48 + m mod 10)] = [char_of (48 + n)]"
        using 1(2) False dec_string.simps [of m] dec_string.simps [of n] by simp
      then show False using dec_string_nonempty [of "m div 10"] by (cases "dec_string (m div 10)") auto
    qed
    then have e: "dec_string (m div 10) = dec_string (n div 10)"
        "(char_of (48 + m mod 10) :: char) = char_of (48 + n mod 10)"
      using 1(2) False dec_string.simps [of m] dec_string.simps [of n] by auto
    then have "m div 10 = n div 10" using 1(1) False by blast
    moreover have "m mod 10 = n mod 10" using e(2) by (simp add: char_of_eq_iff take_bit_eq_mod)
    ultimately show ?thesis by (metis div_mult_mod_eq)
  qed
qed

text \<open>Splitting a string at a separator that the first or the last field does not contain.\<close>

lemma last_segment:
  assumes "a @ sep # p = b @ sep # q" "sep \<notin> set p" "sep \<notin> set q"
  shows "a = b \<and> p = q"
proof -
  have "rev p @ sep # rev a = rev q @ sep # rev b"
    using arg_cong [OF assms(1), of rev] by simp
  moreover have "takeWhile (\<lambda>c. c \<noteq> sep) (rev p @ sep # rev a) = rev p"
    "takeWhile (\<lambda>c. c \<noteq> sep) (rev q @ sep # rev b) = rev q"
    using assms(2,3) by (subst takeWhile_append2; auto)+
  ultimately have "p = q" by simp
  with assms(1) show ?thesis by simp
qed

lemma first_segment:
  assumes "p @ sep # a = q @ sep # b" "sep \<notin> set p" "sep \<notin> set q"
  shows "p = q \<and> a = b"
proof -
  have "takeWhile (\<lambda>c. c \<noteq> sep) (p @ sep # a) = p" "takeWhile (\<lambda>c. c \<noteq> sep) (q @ sep # b) = q"
    using assms(2,3) by (subst takeWhile_append2; auto)+
  with assms(1) show ?thesis by simp
qed

section \<open>Identifiers and field checks\<close>

definition ID_LEN :: nat where
  "ID_LEN = 16"

type_synonym os_random = "(nat \<Rightarrow> byte) option"

definition random_bytes :: "os_random \<Rightarrow> nat \<Rightarrow> bytes res" where
  "random_bytes r n = (case r of None \<Rightarrow> Inl NoRandomness | Some f \<Rightarrow> Inr (map f [0..<n]))"

definition random_id :: "os_random \<Rightarrow> bytes res" where
  "random_id r = (case r of None \<Rightarrow> Inl NoRandomness | Some f \<Rightarrow> Inr (map f [0..<ID_LEN]))"

definition require_id :: "string \<Rightarrow> bytes \<Rightarrow> unit res" where
  "require_id what i = (if length i \<noteq> ID_LEN then Inl (Invalid what) else Inr ())"

definition require_id_or_empty :: "string \<Rightarrow> bytes \<Rightarrow> unit res" where
  "require_id_or_empty what i = (if i = [] then Inr () else require_id what i)"

definition require_hash :: "string \<Rightarrow> bytes \<Rightarrow> unit res" where
  "require_hash what h = (if length h \<noteq> 32 then Inl (Invalid what) else Inr ())"

definition require_str_max :: "string \<Rightarrow> string \<Rightarrow> nat \<Rightarrow> unit res" where
  "require_str_max what s mx =
     (if length s > mx then Inl (Invalid what)
      else if CHR 0x00 \<in> set s then Inl (Invalid (what @ '' contains NUL''))
      else Inr ())"

definition require_str :: "string \<Rightarrow> string \<Rightarrow> nat \<Rightarrow> unit res" where
  "require_str what s mx =
     (if s = [] then Inl (Invalid (what @ '' is empty'')) else require_str_max what s mx)"

definition is_address :: "string \<Rightarrow> bool" where
  "is_address s \<longleftrightarrow> 39 \<le> length s \<and> length s \<le> 90 \<and> take 5 s = ''hash1''
     \<and> list_all (\<lambda>c. c \<in> set ''qpzry9x8gf2tvdw0s3jn54khce6mua7l'') (drop 5 s)"

definition require_address :: "string \<Rightarrow> string \<Rightarrow> unit res" where
  "require_address what s = (if is_address s then Inr () else Inl (Invalid what))"

section \<open>Versions\<close>

definition APP_ENVELOPE_VERSION :: u32 where "APP_ENVELOPE_VERSION = 1"
definition APP_ENVELOPE_MAX_READ :: u32 where "APP_ENVELOPE_MAX_READ = 1"
definition MAIL_VERSION :: u32 where "MAIL_VERSION = 1"
definition DRIVE_VERSION :: u32 where "DRIVE_VERSION = 1"
definition CAPABILITY_VERSION :: u32 where "CAPABILITY_VERSION = 1"
definition SPACE_VERSION :: u32 where "SPACE_VERSION = 1"
definition CIRCLE_VERSION :: u32 where "CIRCLE_VERSION = 1"
definition PEOPLE_VERSION :: u32 where "PEOPLE_VERSION = 1"

definition check_version :: "string \<Rightarrow> u32 \<Rightarrow> u32 \<Rightarrow> u32 \<Rightarrow> unit res" where
  "check_version what version min_reader max_read =
     (if version = 0 \<or> version > max_read then Inl (Unsupported what)
      else if min_reader > max_read then Inl (Unsupported what)
      else Inr ())"

definition check_body :: "string \<Rightarrow> u32 \<Rightarrow> u32 \<Rightarrow> unit res" where
  "check_body what version supported =
     (if version \<noteq> supported then Inl (Unsupported what) else Inr ())"

section \<open>When the checks succeed\<close>

lemma random_id_ok: "random_id r = Inr i \<Longrightarrow> length i = ID_LEN"
  by (auto simp: random_id_def split: option.splits)

lemma random_id_nonempty: "random_id r = Inr i \<Longrightarrow> i \<noteq> []"
  by (auto simp: random_id_def ID_LEN_def split: option.splits)

lemma require_id_ok [ok_simps]: "require_id w i = Inr u \<longleftrightarrow> length i = ID_LEN"
  by (simp add: require_id_def)

lemma require_id_or_empty_ok [ok_simps]:
  "require_id_or_empty w i = Inr u \<longleftrightarrow> i = [] \<or> length i = ID_LEN"
  by (simp add: require_id_or_empty_def require_id_ok)

lemma require_hash_ok [ok_simps]: "require_hash w h = Inr u \<longleftrightarrow> length h = 32"
  by (simp add: require_hash_def)

lemma require_str_max_ok [ok_simps]:
  "require_str_max w s mx = Inr u \<longleftrightarrow> length s \<le> mx \<and> CHR 0x00 \<notin> set s"
  by (simp add: require_str_max_def)

lemma require_str_ok [ok_simps]:
  "require_str w s mx = Inr u \<longleftrightarrow> s \<noteq> [] \<and> length s \<le> mx \<and> CHR 0x00 \<notin> set s"
  by (simp add: require_str_def require_str_max_ok)

lemma require_address_ok [ok_simps]: "require_address w s = Inr u \<longleftrightarrow> is_address s"
  by (simp add: require_address_def)

lemma check_body_ok [ok_simps]: "check_body w v k = Inr u \<longleftrightarrow> v = k"
  by (simp add: check_body_def)

lemma check_version_ok [ok_simps]:
  "check_version w v mr mx = Inr u \<longleftrightarrow> v \<noteq> 0 \<and> v \<le> mx \<and> mr \<le> mx"
  by (auto simp: check_version_def)

lemma is_address_nonempty [simp]: "\<not> is_address []"
  by (simp add: is_address_def)

end
