(* ===== verification/Net_Identity.thy ===== *)
theory Net_Identity
  imports Wire_Ids
begin

text \<open>
  Network identity and domain-separated signing: \<open>hashgram-net/src/purpose.rs\<close>,
  \<open>identity.rs\<close>, \<open>handshake.rs\<close> and \<open>hashgram-app/src/signing.rs\<close>. SHA-256, ed25519 and hex
  encoding are third-party code and appear as arguments. The four magic bytes are a 4-tuple.
\<close>

section \<open>Purposes\<close>

datatype signing_purpose = SocialEvent | DeviceCert | ServiceReceipt | StorageChallenge
  | EligibilityAttestation | ContentAttestation | BootstrapRecord | PeerHandshake
  | NodeAnnounce | MailboxFetch | MailboxAck | KeyPackage | BlobUpload

definition ALL_PURPOSES :: "signing_purpose list" where
  "ALL_PURPOSES = [SocialEvent, DeviceCert, ServiceReceipt, StorageChallenge,
     EligibilityAttestation, ContentAttestation, BootstrapRecord, PeerHandshake,
     NodeAnnounce, MailboxFetch, MailboxAck, KeyPackage, BlobUpload]"

fun purpose_str :: "signing_purpose \<Rightarrow> string" where
  "purpose_str SocialEvent = ''social-event''"
| "purpose_str DeviceCert = ''device-cert''"
| "purpose_str ServiceReceipt = ''service-receipt''"
| "purpose_str StorageChallenge = ''storage-challenge''"
| "purpose_str EligibilityAttestation = ''eligibility-attestation''"
| "purpose_str ContentAttestation = ''content-attestation''"
| "purpose_str BootstrapRecord = ''bootstrap-record''"
| "purpose_str PeerHandshake = ''peer-handshake''"
| "purpose_str NodeAnnounce = ''node-announce''"
| "purpose_str MailboxFetch = ''mailbox-fetch''"
| "purpose_str MailboxAck = ''mailbox-ack''"
| "purpose_str KeyPackage = ''key-package''"
| "purpose_str BlobUpload = ''blob-upload''"

text \<open>Parsing finds the purpose with this string; the error carries the string.\<close>

definition parse_purpose :: "string \<Rightarrow> string + signing_purpose" where
  "parse_purpose s = (case find (\<lambda>p. purpose_str p = s) ALL_PURPOSES of
     None \<Rightarrow> Inl s | Some p \<Rightarrow> Inr p)"

section \<open>The identity of a network\<close>

type_synonym magic = "byte \<times> byte \<times> byte \<times> byte"

fun magic_bytes :: "magic \<Rightarrow> bytes" where
  "magic_bytes (a, b, c, d) = [a, b, c, d]"

definition PROTOCOL_MAJOR_VERSION :: u32 where "PROTOCOL_MAJOR_VERSION = 1"
definition GENESIS_HASH_LEN :: nat where "GENESIS_HASH_LEN = 64"

definition NETWORK_MAGIC_MAINNET :: magic where
  "NETWORK_MAGIC_MAINNET = (72, 71, 77, 49)"

definition NETWORK_MAGIC_DEVNET :: magic where
  "NETWORK_MAGIC_DEVNET = (72, 71, 68, 49)"

record network_identity =
  network_name :: string
  network_id :: string
  chain_id :: string
  network_magic :: magic
  protocol_major_version :: u32
  genesis_hash :: string

definition mainnet :: "string \<Rightarrow> network_identity" where
  "mainnet g = \<lparr>network_name = ''Hashgram Mainnet'', network_id = ''hashgram-mainnet'',
     chain_id = ''hashgram-1'', network_magic = NETWORK_MAGIC_MAINNET,
     protocol_major_version = PROTOCOL_MAJOR_VERSION, genesis_hash = ascii_lowercase g\<rparr>"

definition devnet :: "string \<Rightarrow> network_identity" where
  "devnet g = \<lparr>network_name = ''Hashgram Devnet (DEVNET ONLY)'', network_id = ''hashgram-devnet'',
     chain_id = ''hashgram-devnet-1'', network_magic = NETWORK_MAGIC_DEVNET,
     protocol_major_version = PROTOCOL_MAJOR_VERSION, genesis_hash = ascii_lowercase g\<rparr>"

definition is_mainnet :: "network_identity \<Rightarrow> bool" where
  "is_mainnet n \<longleftrightarrow> network_magic n = NETWORK_MAGIC_MAINNET \<and> network_id n = ''hashgram-mainnet''"

definition signing_domain :: "network_identity \<Rightarrow> signing_purpose \<Rightarrow> string" where
  "signing_domain n p = ''hashgram/v'' @ dec_string (unat (protocol_major_version n)) @ ''/''
     @ network_id n @ ''/'' @ purpose_str p"

definition signing_preimage :: "network_identity \<Rightarrow> signing_purpose \<Rightarrow> bytes \<Rightarrow> bytes" where
  "signing_preimage n p payload =
     (let d = str_bytes (signing_domain n p)
      in magic_bytes (network_magic n) @ u64_be (word_of_nat (length d)) @ d
         @ u64_be (word_of_nat (length payload)) @ payload)"

definition signing_digest ::
    "(bytes \<Rightarrow> bytes) \<Rightarrow> network_identity \<Rightarrow> signing_purpose \<Rightarrow> bytes \<Rightarrow> bytes" where
  "signing_digest sha256 n p payload = sha256 (signing_preimage n p payload)"

definition is_well_formed_genesis_hash :: "string \<Rightarrow> bool" where
  "is_well_formed_genesis_hash h \<longleftrightarrow> length h = GENESIS_HASH_LEN
     \<and> list_all (\<lambda>c. is_ascii_digit c \<or> 97 \<le> char_nat c \<and> char_nat c \<le> 102) h"

section \<open>Application signing domains\<close>

datatype app_purpose = SpaceEventPurpose | DriveCapabilityPurpose | StorageLeasePurpose

fun app_purpose_str :: "app_purpose \<Rightarrow> string" where
  "app_purpose_str SpaceEventPurpose = ''space-event''"
| "app_purpose_str DriveCapabilityPurpose = ''drive-capability''"
| "app_purpose_str StorageLeasePurpose = ''storage-lease''"

definition APP_DOMAIN_VERSION :: nat where "APP_DOMAIN_VERSION = 1"

definition app_domain :: "network_identity \<Rightarrow> app_purpose \<Rightarrow> string" where
  "app_domain n p = ''hashgram-app/v'' @ dec_string APP_DOMAIN_VERSION @ ''/''
     @ network_id n @ ''/'' @ app_purpose_str p"

definition app_preimage :: "network_identity \<Rightarrow> app_purpose \<Rightarrow> bytes \<Rightarrow> bytes" where
  "app_preimage n p payload =
     (let d = str_bytes (app_domain n p)
      in magic_bytes (network_magic n) @ u64_be (word_of_nat (length d)) @ d
         @ u64_be (word_of_nat (length payload)) @ payload)"

definition app_digest ::
    "(bytes \<Rightarrow> bytes) \<Rightarrow> network_identity \<Rightarrow> app_purpose \<Rightarrow> bytes \<Rightarrow> bytes" where
  "app_digest sha256 n p payload = sha256 (app_preimage n p payload)"

text \<open>
  \<open>sign_digest\<close> and \<open>verify_ed25519\<close> stand for the ed25519 implementation: the first signs a
  digest with a secret, the second checks a signature of a digest under a public key.
\<close>

definition app_sign ::
    "(bytes \<Rightarrow> bytes) \<Rightarrow> ('k \<Rightarrow> bytes \<Rightarrow> bytes) \<Rightarrow> network_identity \<Rightarrow> app_purpose \<Rightarrow> 'k \<Rightarrow> bytes \<Rightarrow> bytes" where
  "app_sign sha256 sign_digest n p signer payload = sign_digest signer (app_digest sha256 n p payload)"

definition app_verify ::
    "(bytes \<Rightarrow> bytes) \<Rightarrow> (bytes \<Rightarrow> bytes \<Rightarrow> bytes \<Rightarrow> bool) \<Rightarrow> network_identity \<Rightarrow> app_purpose
      \<Rightarrow> bytes \<Rightarrow> bytes \<Rightarrow> bytes \<Rightarrow> bool" where
  "app_verify sha256 verify_ed25519 n p pubkey payload signature =
     verify_ed25519 pubkey (app_digest sha256 n p payload) signature"

section \<open>The handshake\<close>

record handshake =
  hs_network_magic :: magic
  hs_network_id :: string
  hs_chain_id :: string
  hs_genesis_hash :: string
  hs_protocol_major_version :: u32

definition for_identity :: "network_identity \<Rightarrow> handshake" where
  "for_identity n = \<lparr>hs_network_magic = network_magic n, hs_network_id = network_id n,
     hs_chain_id = chain_id n, hs_genesis_hash = genesis_hash n,
     hs_protocol_major_version = protocol_major_version n\<rparr>"

datatype handshake_error =
    MagicMismatch string string
  | ProtocolMismatch u32 u32
  | NetworkIdMismatch string string
  | ChainIdMismatch string string
  | GenesisMismatch string string
  | MalformedGenesisHash string
  | NoLocalGenesis

text \<open>\<open>hex\<close> stands for the hex encoder, used only for unprintable magic.\<close>

definition printable_magic :: "(bytes \<Rightarrow> string) \<Rightarrow> magic \<Rightarrow> string" where
  "printable_magic hex m =
     (if list_all (\<lambda>b. 33 \<le> unat b \<and> unat b \<le> 126) (magic_bytes m)
      then map (\<lambda>b. char_of (unat b)) (magic_bytes m)
      else ''0x'' @ hex (magic_bytes m))"

definition verify_handshake ::
    "(bytes \<Rightarrow> string) \<Rightarrow> network_identity \<Rightarrow> handshake \<Rightarrow> handshake_error + unit" where
  "verify_handshake hex n r =
     (if \<not> is_well_formed_genesis_hash (genesis_hash n) then Inl NoLocalGenesis
      else if hs_network_magic r \<noteq> network_magic n
        then Inl (MagicMismatch (printable_magic hex (network_magic n))
                    (printable_magic hex (hs_network_magic r)))
      else if hs_protocol_major_version r \<noteq> protocol_major_version n
        then Inl (ProtocolMismatch (protocol_major_version n) (hs_protocol_major_version r))
      else if hs_network_id r \<noteq> network_id n
        then Inl (NetworkIdMismatch (network_id n) (hs_network_id r))
      else if hs_chain_id r \<noteq> chain_id n
        then Inl (ChainIdMismatch (chain_id n) (hs_chain_id r))
      else if \<not> is_well_formed_genesis_hash (hs_genesis_hash r)
        then Inl (MalformedGenesisHash (hs_genesis_hash r))
      else if hs_genesis_hash r \<noteq> genesis_hash n
        then Inl (GenesisMismatch (genesis_hash n) (hs_genesis_hash r))
      else Inr ())"

section \<open>Domain separation\<close>

lemma magic_bytes_append [simp]:
  "magic_bytes m @ x = magic_bytes k @ y \<longleftrightarrow> m = k \<and> x = y"
  by (cases m; cases k) auto

lemma magic_bytes_inj [simp]: "magic_bytes m = magic_bytes k \<longleftrightarrow> m = k"
  using magic_bytes_append [of m "[]" k "[]"] by simp

lemma purpose_str_no_slash: "CHR ''/'' \<notin> set (purpose_str p)"
  by (cases p) simp_all

lemma app_purpose_str_no_slash: "CHR ''/'' \<notin> set (app_purpose_str p)"
  by (cases p) simp_all

lemma dec_string_no_slash: "CHR ''/'' \<notin> set (dec_string n)"
  by (rule dec_string_not) (simp add: is_ascii_digit_def char_nat_def)

lemma parse_purpose_str: "parse_purpose (purpose_str p) = Inr p"
  by (cases p) (simp_all add: parse_purpose_def ALL_PURPOSES_def)

lemma purpose_str_inj [simp]: "purpose_str p = purpose_str q \<longleftrightarrow> p = q"
  by (metis parse_purpose_str sum.inject(2))

lemma app_purpose_str_inj [simp]: "app_purpose_str p = app_purpose_str q \<longleftrightarrow> p = q"
  by (cases p; cases q) simp_all

lemma signing_domain_inj:
  assumes "signing_domain n p = signing_domain m q"
  shows "protocol_major_version n = protocol_major_version m \<and> network_id n = network_id m \<and> p = q"
proof -
  let ?h = "\<lambda>k. ''hashgram/v'' @ dec_string (unat (protocol_major_version k)) @ ''/'' @ network_id k"
  have "?h n @ CHR ''/'' # purpose_str p = ?h m @ CHR ''/'' # purpose_str q"
    using assms by (simp add: signing_domain_def)
  from last_segment [OF this purpose_str_no_slash purpose_str_no_slash]
  have h: "?h n = ?h m" and pq: "p = q" by simp_all
  then have "dec_string (unat (protocol_major_version n)) @ CHR ''/'' # network_id n
    = dec_string (unat (protocol_major_version m)) @ CHR ''/'' # network_id m" by simp
  from first_segment [OF this dec_string_no_slash dec_string_no_slash]
  show ?thesis using pq dec_string_inj by (metis word_unat_eq_iff)
qed

lemma app_domain_inj:
  assumes "app_domain n p = app_domain m q"
  shows "network_id n = network_id m \<and> p = q"
proof -
  let ?h = "\<lambda>k. ''hashgram-app/v'' @ dec_string APP_DOMAIN_VERSION @ ''/'' @ network_id k"
  have "?h n @ CHR ''/'' # app_purpose_str p = ?h m @ CHR ''/'' # app_purpose_str q"
    using assms by (simp add: app_domain_def)
  from last_segment [OF this app_purpose_str_no_slash app_purpose_str_no_slash]
  show ?thesis by simp
qed

lemma framed_pair_split:
  assumes "length d < 2 ^ 64" "length e < 2 ^ 64"
    and "magic_bytes m @ u64_be (word_of_nat (length d)) @ d @ u64_be (word_of_nat (length x)) @ x
       = magic_bytes k @ u64_be (word_of_nat (length e)) @ e @ u64_be (word_of_nat (length y)) @ y"
  shows "m = k \<and> d = e \<and> x = y"
proof -
  have "frame64 d @ u64_be (word_of_nat (length x)) @ x
      = frame64 e @ u64_be (word_of_nat (length y)) @ y"
    using assms(3) by (simp add: frame64_def)
  from f64.enc_split [OF assms(1,2) this] assms(3) show ?thesis
    by (auto simp: append_eq_append_conv)
qed

text \<open>
  A signing preimage determines the network magic, the protocol version, the network id,
  the purpose and the payload: a signature made for one network, version or purpose is never
  a signature over the bytes of another. (The only bound is that a domain string is shorter
  than two to the 64 bytes.)
\<close>

theorem signing_preimage_inj:
  assumes "length (signing_domain n p) < 2 ^ 64" "length (signing_domain m q) < 2 ^ 64"
    and "signing_preimage n p x = signing_preimage m q y"
  shows "network_magic n = network_magic m
    \<and> protocol_major_version n = protocol_major_version m
    \<and> network_id n = network_id m \<and> p = q \<and> x = y"
proof -
  have "network_magic n = network_magic m
      \<and> str_bytes (signing_domain n p) = str_bytes (signing_domain m q) \<and> x = y"
    using framed_pair_split [of "str_bytes (signing_domain n p)" "str_bytes (signing_domain m q)"
        "network_magic n" x "network_magic m" y] assms
    by (simp add: signing_preimage_def Let_def)
  then show ?thesis using signing_domain_inj [of n p m q] by simp
qed

theorem signing_preimage_inj_witness:
  "PeerHandshake = PeerHandshake \<and> length (signing_domain (mainnet ''ab'') PeerHandshake) < 2 ^ 64"
proof -
  have d: "length (signing_domain (mainnet ''ab'') PeerHandshake) < 2 ^ 64"
    by (simp add: signing_domain_def mainnet_def PROTOCOL_MAJOR_VERSION_def dec_string.simps)
  show ?thesis
    using d signing_preimage_inj [OF d d refl, of "[1, 2, 3]"] by simp
qed

lemma app_domain_start: "take 9 (app_domain n p) = ''hashgram-''"
  by (simp add: app_domain_def)

lemma signing_domain_start: "take 9 (signing_domain n p) = ''hashgram/''"
  by (simp add: signing_domain_def)

text \<open>
  The application family of domains is disjoint from the protocol family: no
  application preimage, for whatever network, purpose and payload, is a protocol preimage.
\<close>
theorem app_and_protocol_preimages_disjoint:
  assumes "length (app_domain n p) < 2 ^ 64" "length (signing_domain m q) < 2 ^ 64"
  shows "app_preimage n p x \<noteq> signing_preimage m q y"
proof
  assume "app_preimage n p x = signing_preimage m q y"
  then have "str_bytes (app_domain n p) = str_bytes (signing_domain m q)"
    using framed_pair_split [of "str_bytes (app_domain n p)" "str_bytes (signing_domain m q)"
        "network_magic n" x "network_magic m" y] assms
    by (simp add: app_preimage_def signing_preimage_def Let_def)
  then show False using app_domain_start [of n p] signing_domain_start [of m q] by simp
qed

theorem app_and_protocol_preimages_disjoint_witness:
  "app_preimage (mainnet ''ab'') SpaceEventPurpose [1]
     \<noteq> signing_preimage (mainnet ''ab'') SocialEvent [1]"
  by (rule app_and_protocol_preimages_disjoint)
    (simp_all add: signing_domain_def app_domain_def mainnet_def PROTOCOL_MAJOR_VERSION_def
      APP_DOMAIN_VERSION_def dec_string.simps)

lemma app_preimage_inj:
  assumes "length (app_domain n p) < 2 ^ 64" "length (app_domain m q) < 2 ^ 64"
    and "app_preimage n p x = app_preimage m q y"
  shows "network_magic n = network_magic m \<and> network_id n = network_id m \<and> p = q \<and> x = y"
proof -
  have "network_magic n = network_magic m
      \<and> str_bytes (app_domain n p) = str_bytes (app_domain m q) \<and> x = y"
    using framed_pair_split [of "str_bytes (app_domain n p)" "str_bytes (app_domain m q)"
        "network_magic n" x "network_magic m" y] assms
    by (simp add: app_preimage_def Let_def)
  then show ?thesis using app_domain_inj [of n p m q] by simp
qed

text \<open>
  Parsing a purpose accepts exactly the wire strings and inverts printing; every other
  string is refused with itself as the error, never mapped to a default.
\<close>

theorem parse_purpose_roundtrip:
  "parse_purpose (purpose_str p) = Inr p
   \<and> (parse_purpose s = Inr p \<longleftrightarrow> s = purpose_str p)
   \<and> (s \<notin> range purpose_str \<longleftrightarrow> parse_purpose s = Inl s)"
proof -
  have all: "set ALL_PURPOSES = UNIV"
  proof -
    have "q \<in> set ALL_PURPOSES" for q by (cases q) (simp_all add: ALL_PURPOSES_def)
    then show ?thesis by blast
  qed
  have some: "s = purpose_str q" if "parse_purpose s = Inr q" for q
    using that by (auto simp: parse_purpose_def find_Some_iff split: option.splits)
  have none: "parse_purpose s = Inl s" if "s \<notin> range purpose_str"
    using that by (auto simp: parse_purpose_def find_Some_iff split: option.splits)
  have "parse_purpose s = Inr q" if "s = purpose_str q" for q
    using that parse_purpose_str by simp
  then have "s \<notin> range purpose_str" if "parse_purpose s = Inl s"
    using that by (metis (no_types) Inl_Inr_False rangeE)
  with some none parse_purpose_str show ?thesis by metis
qed

section \<open>Handshakes\<close>

text \<open>
  A handshake is accepted exactly when this node has a pinned, well-formed genesis hash
  and the peer agrees on all five parts of the network identity.
\<close>

theorem verify_handshake_iff:
  "verify_handshake hex n r = Inr () \<longleftrightarrow>
     is_well_formed_genesis_hash (genesis_hash n) \<and> r = for_identity n"
  by (cases r) (auto simp: verify_handshake_def for_identity_def)

lemma verify_handshake_sym:
  "verify_handshake hex n (for_identity m) = Inr ()
    \<longleftrightarrow> verify_handshake hex m (for_identity n) = Inr ()"
  by (auto simp: verify_handshake_iff for_identity_def)

text \<open>
  The reason of a rejection is the first part that disagrees: a genesis mismatch is
  reported only when magic, protocol version, network id and chain id all agree and the
  peer's hash is well formed, that is exactly for a fork of the same chain.
\<close>

theorem genesis_mismatch_is_fork:
  "verify_handshake hex n r = Inl (GenesisMismatch a b) \<longleftrightarrow>
     is_well_formed_genesis_hash (genesis_hash n)
     \<and> hs_network_magic r = network_magic n
     \<and> hs_protocol_major_version r = protocol_major_version n
     \<and> hs_network_id r = network_id n \<and> hs_chain_id r = chain_id n
     \<and> is_well_formed_genesis_hash (hs_genesis_hash r)
     \<and> hs_genesis_hash r \<noteq> genesis_hash n
     \<and> a = genesis_hash n \<and> b = hs_genesis_hash r"
  by (auto simp: verify_handshake_def)

lemma mainnet_devnet_reject:
  "verify_handshake hex (mainnet g) (for_identity (devnet h)) \<noteq> Inr ()"
  by (simp add: verify_handshake_iff for_identity_def mainnet_def devnet_def)

end
