(* ===== verification/Peer_Limits.thy ===== *)
theory Peer_Limits
  imports Wire_Ids
begin

text \<open>
  The connection limits of \<open>hashgram-p2p/src/limits.rs\<close> and the two swarm handlers that
  drive them (\<open>on_connected\<close> and \<open>on_closed\<close> of \<open>swarm.rs\<close>, reduced to the connection table
  and the set of refused connections). The contract is that the counters are exactly the
  accepted live connections, so that the limits hold in every reachable state, whatever
  connections the network opens and closes.
\<close>

section \<open>Addresses and subnets\<close>

datatype ip_addr =
    V4 byte byte byte byte
  | V6 "16 word" "16 word" "16 word" "16 word" "16 word" "16 word" "16 word" "16 word"

definition hex_digit :: "nat \<Rightarrow> char" where
  "hex_digit d = char_of (if d < 10 then 48 + d else 87 + d)"

fun hex_string :: "nat \<Rightarrow> string" where
  "hex_string n = (if n < 16 then [hex_digit n] else hex_string (n div 16) @ [hex_digit (n mod 16)])"

declare hex_string.simps [simp del]

fun subnet_key :: "ip_addr \<Rightarrow> string" where
  "subnet_key (V4 a b c d) =
     dec_string (unat a) @ ''.'' @ dec_string (unat b) @ ''.'' @ dec_string (unat c) @ ''.0/24''"
| "subnet_key (V6 a b c d e f g h) =
     hex_string (unat a) @ '':'' @ hex_string (unat b) @ '':'' @ hex_string (unat c) @ '':''
       @ hex_string (unat d) @ ''::/64''"

section \<open>Limits and the connection table\<close>

definition DEFAULT_MAX_PER_SUBNET :: nat where
  "DEFAULT_MAX_PER_SUBNET = 32"

datatype limit_decision =
    Allow
  | TooManyFromPeer nat nat
  | TooManyFromSubnet string nat nat
  | InboundFull nat nat
  | PeerBanned

definition is_allowed :: "limit_decision \<Rightarrow> bool" where
  "is_allowed d \<longleftrightarrow> d = Allow"

record limits =
  max_per_peer :: nat
  max_per_subnet :: nat
  max_inbound :: nat
  max_outbound :: nat
  per_peer :: "(string \<times> nat) list"
  per_subnet :: "(string \<times> nat) list"
  inbound :: nat
  outbound :: nat

definition limits_new :: limits where
  "limits_new = \<lparr>max_per_peer = 2, max_per_subnet = DEFAULT_MAX_PER_SUBNET, max_inbound = 128,
     max_outbound = 32, per_peer = [], per_subnet = [], inbound = 0, outbound = 0\<rparr>"

definition with_limits :: "limits \<Rightarrow> nat \<Rightarrow> nat \<Rightarrow> nat \<Rightarrow> nat \<Rightarrow> limits" where
  "with_limits l p s i u = l\<lparr>max_per_peer := max p 1, max_per_subnet := max s 1,
     max_inbound := max i 1, max_outbound := max u 1\<rparr>"

definition get_count :: "(string \<times> nat) list \<Rightarrow> string \<Rightarrow> nat" where
  "get_count m k = (case map_of m k of None \<Rightarrow> 0 | Some n \<Rightarrow> n)"

definition allow_inbound :: "limits \<Rightarrow> string \<Rightarrow> ip_addr \<Rightarrow> bool \<Rightarrow> limit_decision" where
  "allow_inbound l peer addr banned =
     (if banned then PeerBanned
      else if get_count (per_peer l) peer \<ge> max_per_peer l
        then TooManyFromPeer (get_count (per_peer l) peer) (max_per_peer l)
      else if get_count (per_subnet l) (subnet_key addr) \<ge> max_per_subnet l
        then TooManyFromSubnet (subnet_key addr) (get_count (per_subnet l) (subnet_key addr))
               (max_per_subnet l)
      else if inbound l \<ge> max_inbound l then InboundFull (inbound l) (max_inbound l)
      else Allow)"

definition allow_outbound :: "limits \<Rightarrow> string \<Rightarrow> bool \<Rightarrow> limit_decision" where
  "allow_outbound l peer banned =
     (if banned then PeerBanned
      else if get_count (per_peer l) peer \<ge> max_per_peer l
        then TooManyFromPeer (get_count (per_peer l) peer) (max_per_peer l)
      else if outbound l \<ge> max_outbound l then InboundFull (outbound l) (max_outbound l)
      else Allow)"

definition established :: "limits \<Rightarrow> string \<Rightarrow> ip_addr \<Rightarrow> bool \<Rightarrow> limits" where
  "established l peer addr inb =
     (let l = l\<lparr>per_peer := bt_insert peer (get_count (per_peer l) peer + 1) (per_peer l),
                per_subnet := bt_insert (subnet_key addr)
                  (get_count (per_subnet l) (subnet_key addr) + 1) (per_subnet l)\<rparr>
      in if inb then l\<lparr>inbound := inbound l + 1\<rparr> else l\<lparr>outbound := outbound l + 1\<rparr>)"

text \<open>Decrement, saturating at zero, and drop the entry when it reaches zero.\<close>

definition debit :: "string \<Rightarrow> (string \<times> nat) list \<Rightarrow> (string \<times> nat) list" where
  "debit k m = (case map_of m k of None \<Rightarrow> m
     | Some n \<Rightarrow> (if n - 1 = 0 then bt_delete k m else bt_insert k (n - 1) m))"

definition closed :: "limits \<Rightarrow> string \<Rightarrow> ip_addr \<Rightarrow> bool \<Rightarrow> limits" where
  "closed l peer addr inb =
     (let l = l\<lparr>per_peer := debit peer (per_peer l),
                per_subnet := debit (subnet_key addr) (per_subnet l)\<rparr>
      in if inb then l\<lparr>inbound := inbound l - 1\<rparr> else l\<lparr>outbound := outbound l - 1\<rparr>)"

definition inbound_count :: "limits \<Rightarrow> nat" where "inbound_count l = inbound l"
definition outbound_count :: "limits \<Rightarrow> nat" where "outbound_count l = outbound l"
definition peer_count :: "limits \<Rightarrow> nat" where "peer_count l = length (per_peer l)"
definition subnet_count :: "limits \<Rightarrow> nat" where "subnet_count l = length (per_subnet l)"

section \<open>The swarm's use of the table\<close>

text \<open>
  A connection is its id, the peer, the remote address and whether it is inbound. The
  handlers also keep the ids of refused connections, so that the close of a connection that
  was never credited does not debit one that was.
\<close>

type_synonym conn = "nat \<times> string \<times> ip_addr \<times> bool"

record conn_gate =
  gate_limits :: limits
  gate_refused :: "nat list"

definition on_connected :: "conn \<Rightarrow> bool \<Rightarrow> conn_gate \<Rightarrow> conn_gate" where
  "on_connected c banned g = (case c of (cid, peer, ip, inb) \<Rightarrow>
     (let decision = (if inb then allow_inbound (gate_limits g) peer ip banned
                      else allow_outbound (gate_limits g) peer banned)
      in if \<not> is_allowed decision then g\<lparr>gate_refused := cid # gate_refused g\<rparr>
         else g\<lparr>gate_limits := established (gate_limits g) peer ip inb\<rparr>))"

definition on_closed :: "conn \<Rightarrow> conn_gate \<Rightarrow> conn_gate" where
  "on_closed c g = (case c of (cid, peer, ip, inb) \<Rightarrow>
     (if cid \<in> set (gate_refused g) then g\<lparr>gate_refused := removeAll cid (gate_refused g)\<rparr>
      else g\<lparr>gate_limits := closed (gate_limits g) peer ip inb\<rparr>))"

text \<open>
  The environment opens connections with fresh ids and closes live ones, in any order. The
  second component of a state is the list of live connections, refused ones included until
  their close arrives.
\<close>

inductive gate_step :: "conn_gate \<times> conn list \<Rightarrow> conn_gate \<times> conn list \<Rightarrow> bool" where
  connect: "cid \<notin> fst ` set live \<Longrightarrow>
     gate_step (g, live) (on_connected (cid, peer, ip, inb) banned g, (cid, peer, ip, inb) # live)"
| disconnect: "c \<in> set live \<Longrightarrow> gate_step (g, live) (on_closed c g, remove1 c live)"

inductive gate_reachable :: "limits \<Rightarrow> conn_gate \<times> conn list \<Rightarrow> bool" for l0 where
  gate_init: "gate_reachable l0 (\<lparr>gate_limits = l0, gate_refused = []\<rparr>, [])"
| gate_more: "gate_reachable l0 s \<Longrightarrow> gate_step s t \<Longrightarrow> gate_reachable l0 t"

inductive_cases gate_stepE: "gate_step (g, live) t"

section \<open>Counters count\<close>

definition cnt :: "('a \<Rightarrow> bool) \<Rightarrow> 'a list \<Rightarrow> nat" where
  "cnt P xs = length (filter P xs)"

definition counts :: "(string \<times> nat) list \<Rightarrow> (string \<Rightarrow> nat) \<Rightarrow> bool" where
  "counts m f \<longleftrightarrow> (\<forall>k. map_of m k = (if f k = 0 then None else Some (f k)))"

lemma cnt_Nil [simp]: "cnt P [] = 0"
  by (simp add: cnt_def)

lemma cnt_Cons [simp]: "cnt P (x # xs) = (if P x then 1 else 0) + cnt P xs"
  by (simp add: cnt_def)

lemma cnt_remove1: "x \<in> set xs \<Longrightarrow> cnt P (remove1 x xs) = cnt P xs - (if P x then 1 else 0)"
proof (induction xs)
  case (Cons y ys)
  have "P x \<Longrightarrow> x \<in> set ys \<Longrightarrow> 0 < cnt P ys" by (auto simp: cnt_def filter_empty_conv)
  with Cons show ?case by auto
qed simp

lemma cnt_mono: "(\<And>x. P x \<Longrightarrow> Q x) \<Longrightarrow> cnt P xs \<le> cnt Q xs"
  by (induction xs) auto

lemma counts_get: "counts m f \<Longrightarrow> get_count m k = f k"
  by (simp add: counts_def get_count_def)

lemma counts_credit: "counts m f \<Longrightarrow> counts (bt_insert k (get_count m k + 1) m) (f(k := f k + 1))"
  using counts_get [of m f k] by (simp add: counts_def)

lemma counts_debit: "counts m f \<Longrightarrow> counts (debit k m) (f(k := f k - 1))"
  by (auto simp: counts_def debit_def split: option.splits)

lemma debit_absent: "map_of m k = None \<Longrightarrow> debit k m = m"
  by (simp add: debit_def)

lemma counts_cong: "counts m f \<Longrightarrow> (\<And>k. f k = g k) \<Longrightarrow> counts m g"
  by (simp add: counts_def)

section \<open>Printing a subnet is injective on subnets\<close>

lemma hex_digit_ne_colon: "d < 16 \<Longrightarrow> hex_digit d \<noteq> CHR '':''"
proof -
  assume "d < 16"
  then show ?thesis
    by (auto simp: hex_digit_def char_of_eq_iff take_bit_eq_mod simp flip: char_of_eq_iff
        dest!: arg_cong [where f = "of_char :: char \<Rightarrow> nat"] split: if_splits)
qed

lemma hex_digit_inj: "d < 16 \<Longrightarrow> e < 16 \<Longrightarrow> hex_digit d = hex_digit e \<Longrightarrow> d = e"
  by (auto simp: hex_digit_def char_of_eq_iff take_bit_eq_mod split: if_splits)

lemma hex_string_no_colon: "CHR '':'' \<notin> set (hex_string n)"
proof (induction n rule: hex_string.induct)
  case (1 n)
  then show ?case
    using hex_digit_ne_colon [of n] hex_digit_ne_colon [of "n mod 16"] hex_string.simps [of n]
    by (cases "n < 16") fastforce+
qed

lemma hex_string_nonempty: "hex_string n \<noteq> []"
  by (subst hex_string.simps) simp

lemma hex_string_inj: "hex_string m = hex_string n \<Longrightarrow> m = n"
proof (induction m arbitrary: n rule: hex_string.induct)
  case (1 m)
  have s: "(m < 16) = (n < 16)"
    using 1(2) hex_string.simps [of m] hex_string.simps [of n]
      hex_string_nonempty [of "m div 16"] hex_string_nonempty [of "n div 16"]
    by (auto simp: Cons_eq_append_conv append_eq_Cons_conv split: if_splits)
  show ?case
  proof (cases "m < 16")
    case True
    then show ?thesis using 1(2) s hex_string.simps [of m] hex_string.simps [of n] hex_digit_inj
      by auto
  next
    case False
    then have "hex_string (m div 16) = hex_string (n div 16)" "hex_digit (m mod 16) = hex_digit (n mod 16)"
      using 1(2) s hex_string.simps [of m] hex_string.simps [of n] by auto
    then have "m div 16 = n div 16" "m mod 16 = n mod 16"
      using 1(1) False hex_digit_inj by auto
    then show ?thesis by (metis div_mult_mod_eq)
  qed
qed

lemma dec_string_no_dot: "CHR ''.'' \<notin> set (dec_string n)" "CHR '':'' \<notin> set (dec_string n)"
  by (rule dec_string_not, simp add: is_ascii_digit_def char_nat_def)+

fun same_subnet :: "ip_addr \<Rightarrow> ip_addr \<Rightarrow> bool" where
  "same_subnet (V4 a b c _) (V4 a' b' c' _) = (a = a' \<and> b = b' \<and> c = c')"
| "same_subnet (V6 a b c d _ _ _ _) (V6 a' b' c' d' _ _ _ _) = (a = a' \<and> b = b' \<and> c = c' \<and> d = d')"
| "same_subnet _ _ = False"

lemma unat_dec_inj: "dec_string (unat (a :: 'a::len word)) = dec_string (unat b) \<Longrightarrow> a = b"
  using dec_string_inj by (metis word_unat_eq_iff)

lemma unat_hex_inj: "hex_string (unat (a :: 'a::len word)) = hex_string (unat b) \<Longrightarrow> a = b"
  using hex_string_inj by (metis word_unat_eq_iff)

lemma subnet_key_v4_inj:
  assumes "subnet_key (V4 a b c d) = subnet_key (V4 a' b' c' d')"
  shows "a = a' \<and> b = b' \<and> c = c'"
proof -
  have 1: "dec_string (unat a) = dec_string (unat a') \<and>
    dec_string (unat b) @ CHR ''.'' # dec_string (unat c) @ ''.0/24''
      = dec_string (unat b') @ CHR ''.'' # dec_string (unat c') @ ''.0/24''"
    using assms by (intro first_segment [where sep = "CHR ''.''"]) (simp_all add: dec_string_no_dot)
  then have 2: "dec_string (unat b) = dec_string (unat b') \<and>
    dec_string (unat c) @ ''.0/24'' = dec_string (unat c') @ ''.0/24''"
    by (intro first_segment [where sep = "CHR ''.''"]) (simp_all add: dec_string_no_dot)
  from 1 2 show ?thesis by (auto dest: unat_dec_inj)
qed

lemma subnet_key_v6_inj:
  assumes "subnet_key (V6 a b c d e f g h) = subnet_key (V6 a' b' c' d' e' f' g' h')"
  shows "a = a' \<and> b = b' \<and> c = c' \<and> d = d'"
proof -
  let ?s = "\<lambda>w :: 16 word. hex_string (unat w)"
  have 1: "?s a = ?s a' \<and> ?s b @ CHR '':'' # ?s c @ CHR '':'' # ?s d @ ''::/64''
      = ?s b' @ CHR '':'' # ?s c' @ CHR '':'' # ?s d' @ ''::/64''"
    using assms by (intro first_segment [where sep = "CHR '':''"]) (simp_all add: hex_string_no_colon)
  then have 2: "?s b = ?s b' \<and> ?s c @ CHR '':'' # ?s d @ ''::/64'' = ?s c' @ CHR '':'' # ?s d' @ ''::/64''"
    by (intro first_segment [where sep = "CHR '':''"]) (simp_all add: hex_string_no_colon)
  then have 3: "?s c = ?s c' \<and> ?s d @ ''::/64'' = ?s d' @ ''::/64''"
    by (intro first_segment [where sep = "CHR '':''"]) (simp_all add: hex_string_no_colon)
  from 1 2 3 show ?thesis by (auto dest: unat_hex_inj)
qed

lemma subnet_key_v4_v6: "subnet_key (V4 a b c d) \<noteq> subnet_key (V6 a' b' c' d' e f g h)"
proof
  assume "subnet_key (V4 a b c d) = subnet_key (V6 a' b' c' d' e f g h)"
  then have "CHR '':'' \<in> set (subnet_key (V4 a b c d))" by simp
  then show False using dec_string_no_dot(2) by auto
qed

text \<open>
  Two addresses share a limit exactly when they share a /24 (IPv4) or a /64 (IPv6): the
  printed key neither merges two subnets nor splits one.
\<close>

theorem subnet_key_iff: "subnet_key x = subnet_key y \<longleftrightarrow> same_subnet x y"
proof (cases x; cases y)
  fix a b c d a' b' c' d'
  assume "x = V4 a b c d" "y = V4 a' b' c' d'"
  then show ?thesis using subnet_key_v4_inj [of a b c d a' b' c' d'] by auto
next
  fix a b c d e f g h a' b' c' d' e' f' g' h'
  assume "x = V6 a b c d e f g h" "y = V6 a' b' c' d' e' f' g' h'"
  then show ?thesis using subnet_key_v6_inj [of a b c d e f g h a' b' c' d' e' f' g' h'] by auto
next
  fix a b c d a' b' c' d' e' f' g' h'
  assume "x = V4 a b c d" "y = V6 a' b' c' d' e' f' g' h'"
  then show ?thesis using subnet_key_v4_v6 [of a b c d] by simp
next
  fix a' b' c' d' e' f' g' h' a b c d
  assume "x = V6 a' b' c' d' e' f' g' h'" "y = V4 a b c d"
  then show ?thesis using subnet_key_v4_v6 [of a b c d a' b' c' d' e' f' g' h'] by auto
qed

section \<open>The counters are the accepted connections\<close>

definition peer_of :: "conn \<Rightarrow> string" where "peer_of c = fst (snd c)"
definition ip_of :: "conn \<Rightarrow> ip_addr" where "ip_of c = fst (snd (snd c))"
definition inb_of :: "conn \<Rightarrow> bool" where "inb_of c = snd (snd (snd c))"

definition accepted :: "conn_gate \<Rightarrow> conn list \<Rightarrow> conn list" where
  "accepted g live = filter (\<lambda>c. fst c \<notin> set (gate_refused g)) live"

definition table_of :: "limits \<Rightarrow> conn list \<Rightarrow> bool" where
  "table_of l acc \<longleftrightarrow>
     counts (per_peer l) (\<lambda>p. cnt (\<lambda>c. peer_of c = p) acc)
   \<and> counts (per_subnet l) (\<lambda>k. cnt (\<lambda>c. subnet_key (ip_of c) = k) acc)
   \<and> inbound l = cnt inb_of acc \<and> outbound l = cnt (\<lambda>c. \<not> inb_of c) acc"

definition within_limits :: "limits \<Rightarrow> conn list \<Rightarrow> bool" where
  "within_limits l acc \<longleftrightarrow>
     (\<forall>p. cnt (\<lambda>c. peer_of c = p) acc \<le> max_per_peer l)
   \<and> (\<forall>k. cnt (\<lambda>c. inb_of c \<and> subnet_key (ip_of c) = k) acc \<le> max_per_subnet l)
   \<and> cnt inb_of acc \<le> max_inbound l \<and> cnt (\<lambda>c. \<not> inb_of c) acc \<le> max_outbound l"

definition same_maxima :: "limits \<Rightarrow> limits \<Rightarrow> bool" where
  "same_maxima l k \<longleftrightarrow> max_per_peer l = max_per_peer k \<and> max_per_subnet l = max_per_subnet k
     \<and> max_inbound l = max_inbound k \<and> max_outbound l = max_outbound k"

definition gate_inv :: "limits \<Rightarrow> conn_gate \<times> conn list \<Rightarrow> bool" where
  "gate_inv l0 s \<longleftrightarrow> distinct (map fst (snd s)) \<and> set (gate_refused (fst s)) \<subseteq> fst ` set (snd s)
     \<and> table_of (gate_limits (fst s)) (accepted (fst s) (snd s))
     \<and> within_limits (gate_limits (fst s)) (accepted (fst s) (snd s))
     \<and> same_maxima (gate_limits (fst s)) l0"

lemmas conn_sel = peer_of_def ip_of_def inb_of_def

lemma table_established:
  assumes "table_of l acc"
  shows "table_of (established l (peer_of c) (ip_of c) (inb_of c)) (c # acc)"
proof -
  have p: "counts (per_peer l) (\<lambda>p. cnt (\<lambda>c. peer_of c = p) acc)"
    and s: "counts (per_subnet l) (\<lambda>k. cnt (\<lambda>c. subnet_key (ip_of c) = k) acc)"
    using assms by (simp_all add: table_of_def)
  from counts_credit [OF p, of "peer_of c"] counts_credit [OF s, of "subnet_key (ip_of c)"] assms
  show ?thesis
    by (auto simp: table_of_def established_def Let_def elim!: counts_cong)
qed

lemma table_closed:
  assumes "table_of l acc" "c \<in> set acc"
  shows "table_of (closed l (peer_of c) (ip_of c) (inb_of c)) (remove1 c acc)"
proof -
  have p: "counts (per_peer l) (\<lambda>p. cnt (\<lambda>c. peer_of c = p) acc)"
    and s: "counts (per_subnet l) (\<lambda>k. cnt (\<lambda>c. subnet_key (ip_of c) = k) acc)"
    using assms by (simp_all add: table_of_def)
  from counts_debit [OF p, of "peer_of c"] counts_debit [OF s, of "subnet_key (ip_of c)"] assms
  show ?thesis
    by (auto simp: table_of_def closed_def Let_def cnt_remove1 elim!: counts_cong)
qed

lemma admit_within:
  assumes t: "table_of l acc" and w: "within_limits l acc"
    and d: "is_allowed (if inb_of c then allow_inbound l (peer_of c) (ip_of c) banned
             else allow_outbound l (peer_of c) banned)"
  shows "within_limits (established l (peer_of c) (ip_of c) (inb_of c)) (c # acc)"
proof -
  have p: "get_count (per_peer l) k = cnt (\<lambda>c. peer_of c = k) acc" for k
    using t by (auto simp: table_of_def intro: counts_get)
  have s: "get_count (per_subnet l) k = cnt (\<lambda>c. subnet_key (ip_of c) = k) acc" for k
    using t by (auto simp: table_of_def intro: counts_get)
  have m: "cnt (\<lambda>c. inb_of c \<and> subnet_key (ip_of c) = k) acc \<le> cnt (\<lambda>c. subnet_key (ip_of c) = k) acc" for k
    by (rule cnt_mono) simp
  have room: "cnt (\<lambda>x. peer_of x = peer_of c) acc < max_per_peer l"
    "inb_of c \<Longrightarrow> cnt (\<lambda>x. inb_of x \<and> subnet_key (ip_of x) = subnet_key (ip_of c)) acc < max_per_subnet l"
    "inb_of c \<Longrightarrow> cnt inb_of acc < max_inbound l"
    "\<not> inb_of c \<Longrightarrow> cnt (\<lambda>x. \<not> inb_of x) acc < max_outbound l"
    using d t m [of "subnet_key (ip_of c)"]
    by (auto simp: is_allowed_def allow_inbound_def allow_outbound_def p s table_of_def split: if_splits)
  show ?thesis
    using room w by (auto simp: within_limits_def established_def Let_def Suc_le_eq)
qed

lemma within_remove: "within_limits l acc \<Longrightarrow> c \<in> set acc \<Longrightarrow>
    within_limits (closed l p ip inb) (remove1 c acc)"
proof -
  have le: "cnt P (remove1 c acc) \<le> cnt P acc" if "c \<in> set acc" for P
    using that by (simp add: cnt_remove1)
  assume "within_limits l acc" "c \<in> set acc"
  then show ?thesis using le
    by (auto simp: within_limits_def closed_def Let_def intro: order_trans)
qed

lemma conn_eta: "c = (fst c, peer_of c, ip_of c, inb_of c)"
  by (simp add: conn_sel)

lemma on_connected_eq: "on_connected c banned g =
  (if is_allowed (if inb_of c then allow_inbound (gate_limits g) (peer_of c) (ip_of c) banned
                  else allow_outbound (gate_limits g) (peer_of c) banned)
   then g\<lparr>gate_limits := established (gate_limits g) (peer_of c) (ip_of c) (inb_of c)\<rparr>
   else g\<lparr>gate_refused := fst c # gate_refused g\<rparr>)"
  by (subst conn_eta) (simp add: on_connected_def Let_def del: conn_eta)

lemma on_closed_eq: "on_closed c g =
  (if fst c \<in> set (gate_refused g) then g\<lparr>gate_refused := removeAll (fst c) (gate_refused g)\<rparr>
   else g\<lparr>gate_limits := closed (gate_limits g) (peer_of c) (ip_of c) (inb_of c)\<rparr>)"
  by (cases c) (simp add: on_closed_def conn_sel)

lemma gate_inv_connect:
  assumes inv: "gate_inv l0 (g, live)" and fresh: "fst c \<notin> fst ` set live"
  shows "gate_inv l0 (on_connected c banned g, c # live)"
proof -
  let ?d = "if inb_of c then allow_inbound (gate_limits g) (peer_of c) (ip_of c) banned
            else allow_outbound (gate_limits g) (peer_of c) banned"
  have nr: "fst c \<notin> set (gate_refused g)" using inv fresh by (auto simp: gate_inv_def)
  show ?thesis
  proof (cases "is_allowed ?d")
    case True
    let ?g = "g\<lparr>gate_limits := established (gate_limits g) (peer_of c) (ip_of c) (inb_of c)\<rparr>"
    have acc: "accepted ?g (c # live) = c # accepted g live" using nr by (simp add: accepted_def)
    have sm: "same_maxima (established l p i b) l0 = same_maxima l l0" for l p i b
      by (simp add: same_maxima_def established_def Let_def)
    show ?thesis
      using inv fresh True acc table_established [of "gate_limits g" "accepted g live" c]
        admit_within [of "gate_limits g" "accepted g live" c banned]
      by (auto simp: gate_inv_def on_connected_eq sm)
  next
    case False
    let ?g = "g\<lparr>gate_refused := fst c # gate_refused g\<rparr>"
    have acc: "accepted ?g (c # live) = accepted g live"
      using fresh by (auto simp: accepted_def image_iff intro!: filter_cong)
    show ?thesis using inv fresh False acc by (auto simp: gate_inv_def on_connected_eq)
  qed
qed

lemma gate_inv_disconnect:
  assumes inv: "gate_inv l0 (g, live)" and mem: "c \<in> set live"
  shows "gate_inv l0 (on_closed c g, remove1 c live)"
proof -
  have d: "distinct (map fst live)" using inv by (simp add: gate_inv_def)
  then have dl: "distinct live" by (simp add: distinct_map)
  have uniq: "x = c" if "x \<in> set live" "fst x = fst c" for x
    using that mem d by (auto simp: distinct_map inj_on_def)
  have d': "distinct (map fst (remove1 c live))"
    using d dl by (simp add: distinct_map set_remove1_eq inj_on_diff)
  show ?thesis
  proof (cases "fst c \<in> set (gate_refused g)")
    case True
    let ?g = "g\<lparr>gate_refused := removeAll (fst c) (gate_refused g)\<rparr>"
    have "accepted ?g (remove1 c live) = filter (\<lambda>x. fst x \<notin> set (gate_refused g)) (remove1 c live)"
      using uniq dl by (auto simp: accepted_def set_remove1_eq intro!: filter_cong)
    also have "\<dots> = accepted g live"
      using True by (simp add: accepted_def remove1_filter_not filter_remove1)
    finally have acc: "accepted ?g (remove1 c live) = accepted g live" .
    have "fst ` set (remove1 c live) = fst ` set live - {fst c}"
      using uniq dl mem by (auto simp: set_remove1_eq)
    then show ?thesis using inv True acc d' by (auto simp: gate_inv_def on_closed_eq)
  next
    case False
    let ?g = "g\<lparr>gate_limits := closed (gate_limits g) (peer_of c) (ip_of c) (inb_of c)\<rparr>"
    have acc: "accepted ?g (remove1 c live) = remove1 c (accepted g live)"
      using False by (simp add: accepted_def filter_remove1)
    have m: "c \<in> set (accepted g live)" using mem False by (simp add: accepted_def)
    have "fst ` set (remove1 c live) = fst ` set live - {fst c}"
      using uniq dl mem by (auto simp: set_remove1_eq)
    moreover have sm: "same_maxima (closed l p i b) l0 = same_maxima l l0" for l p i b
      by (simp add: same_maxima_def closed_def Let_def)
    ultimately show ?thesis
      using inv False acc d' table_closed [OF _ m] within_remove [OF _ m]
      by (auto simp: gate_inv_def on_closed_eq)
  qed
qed

lemma gate_step_inv: "gate_step s t \<Longrightarrow> gate_inv l0 s \<Longrightarrow> gate_inv l0 t"
proof (induction rule: gate_step.induct)
  case (connect cid live g peer ip inb banned)
  then show ?case using gate_inv_connect [of l0 g live "(cid, peer, ip, inb)"] by simp
next
  case (disconnect c live g)
  then show ?case by (blast intro: gate_inv_disconnect)
qed

definition empty_table :: "limits \<Rightarrow> bool" where
  "empty_table l \<longleftrightarrow> per_peer l = [] \<and> per_subnet l = [] \<and> inbound l = 0 \<and> outbound l = 0"

lemma gate_inv_init: "empty_table l0 \<Longrightarrow> gate_inv l0 (\<lparr>gate_limits = l0, gate_refused = []\<rparr>, [])"
  by (simp add: gate_inv_def accepted_def table_of_def within_limits_def empty_table_def
      same_maxima_def counts_def)

lemma gate_reachable_inv: "gate_reachable l0 s \<Longrightarrow> empty_table l0 \<Longrightarrow> gate_inv l0 s"
  by (induction rule: gate_reachable.induct) (auto intro: gate_inv_init gate_step_inv)

text \<open>
  C25. In every state the swarm can reach, whatever connections open, are refused and close in
  whatever order, the accepted live connections respect the per-peer, the inbound per-subnet,
  the inbound and the outbound maximum the node was configured with.
\<close>

theorem connection_limits_respected:
  assumes "gate_reachable l0 (g, live)" "empty_table l0"
  shows "cnt (\<lambda>c. peer_of c = p) (accepted g live) \<le> max_per_peer l0
    \<and> cnt (\<lambda>c. inb_of c \<and> subnet_key (ip_of c) = k) (accepted g live) \<le> max_per_subnet l0
    \<and> cnt inb_of (accepted g live) \<le> max_inbound l0
    \<and> cnt (\<lambda>c. \<not> inb_of c) (accepted g live) \<le> max_outbound l0"
  using gate_reachable_inv [OF assms]
  by (auto simp: gate_inv_def within_limits_def same_maxima_def)

text \<open>
  No drift: in every reachable state the counters of the table are exactly the accepted
  live connections, so the close of a refused connection never loosens a limit, and a table
  with no connection has no entry left.
\<close>

theorem connection_table_exact:
  assumes "gate_reachable l0 (g, live)" "empty_table l0"
  shows "get_count (per_peer (gate_limits g)) p = cnt (\<lambda>c. peer_of c = p) (accepted g live)
    \<and> get_count (per_subnet (gate_limits g)) k
        = cnt (\<lambda>c. subnet_key (ip_of c) = k) (accepted g live)
    \<and> inbound_count (gate_limits g) = cnt inb_of (accepted g live)
    \<and> outbound_count (gate_limits g) = cnt (\<lambda>c. \<not> inb_of c) (accepted g live)
    \<and> (live = [] \<longrightarrow> peer_count (gate_limits g) = 0 \<and> subnet_count (gate_limits g) = 0)"
proof -
  have t: "table_of (gate_limits g) (accepted g live)"
    using gate_reachable_inv [OF assms] by (simp add: gate_inv_def)
  have e: "m = []" if "counts m (\<lambda>_. 0)" for m
    using that by (cases m) (auto simp: counts_def split: if_splits dest: spec)
  show ?thesis using t counts_get e
    by (auto simp: table_of_def inbound_count_def outbound_count_def peer_count_def
        subnet_count_def accepted_def)
qed

text \<open>
  Inbound pressure cannot stop this node from dialling: establishing or closing any
  inbound connections of other peers leaves the decision about an outbound dial as it was.
\<close>

fun table_event :: "limits \<Rightarrow> (bool \<times> string \<times> ip_addr) \<Rightarrow> limits" where
  "table_event l (True, peer, ip) = established l peer ip True"
| "table_event l (False, peer, ip) = closed l peer ip True"

theorem inbound_never_blocks_outbound:
  assumes "\<forall>(_, q, _) \<in> set es. q \<noteq> peer"
  shows "allow_outbound (foldl table_event l es) peer banned = allow_outbound l peer banned"
  using assms
proof (induction es arbitrary: l)
  case Nil
  then show ?case by simp
next
  case (Cons e es)
  obtain up q ip where e: "e = (up, q, ip)" by (cases e) auto
  have "q \<noteq> peer" using Cons.prems e by auto
  then have "allow_outbound (table_event l e) peer banned = allow_outbound l peer banned"
    using e by (cases up) (auto simp: allow_outbound_def established_def closed_def Let_def
        get_count_def debit_def split: option.splits)
  with Cons show ?case by simp
qed

section \<open>Witnesses\<close>

abbreviation "wit_ip \<equiv> V4 203 0 113 1"
abbreviation "wit_conn \<equiv> (7 :: nat, ''loop'', wit_ip, True)"

lemma gate_reachable_wit:
  "gate_reachable limits_new
     (on_connected wit_conn False \<lparr>gate_limits = limits_new, gate_refused = []\<rparr>, [wit_conn])"
  by (rule gate_more [OF gate_init], rule connect) simp

lemma empty_table_new: "empty_table limits_new"
  by (simp add: empty_table_def limits_new_def)

theorem connection_limits_respected_witness:
  "cnt inb_of (accepted (on_connected wit_conn False \<lparr>gate_limits = limits_new, gate_refused = []\<rparr>)
     [wit_conn]) \<le> 128"
  using connection_limits_respected [OF gate_reachable_wit empty_table_new]
  by (simp add: limits_new_def)

theorem connection_table_exact_witness:
  "inbound_count (gate_limits (on_connected wit_conn False
     \<lparr>gate_limits = limits_new, gate_refused = []\<rparr>)) = cnt inb_of (accepted
       (on_connected wit_conn False \<lparr>gate_limits = limits_new, gate_refused = []\<rparr>) [wit_conn])"
  using connection_table_exact [OF gate_reachable_wit empty_table_new] by blast

theorem inbound_never_blocks_outbound_witness:
  "allow_outbound (foldl table_event limits_new [(True, ''a'', wit_ip), (False, ''b'', wit_ip)])
     ''peer'' False = Allow"
proof -
  have h: "\<forall>(_, q, _) \<in> set [(True, ''a'', wit_ip), (False, ''b'', wit_ip)]. q \<noteq> ''peer''"
    by simp
  show ?thesis
    using inbound_never_blocks_outbound [OF h, of limits_new False]
    by (simp add: allow_outbound_def limits_new_def get_count_def)
qed

end
