(* ===== verification/Peer_Score.thy ===== *)
theory Peer_Score
  imports Wire_Ids
begin

text \<open>
  Peer scoring, \<open>hashgram-p2p/src/score.rs\<close>. Scores are \<open>i32\<close>; they are modelled by \<open>int\<close>
  and the bounds lemma shows that no intermediate value leaves the 32-bit range. An
  \<open>Instant\<close> is a number of nanoseconds, so the truncation of \<open>as_secs\<close> is visible. The
  board is an ordered map from peer ids to scores.
\<close>

section \<open>Events and one peer\<close>

definition GRAYLIST_THRESHOLD :: int where "GRAYLIST_THRESHOLD = -50"
definition BAN_THRESHOLD :: int where "BAN_THRESHOLD = -100"
definition SCORE_MIN :: int where "SCORE_MIN = -200"
definition SCORE_MAX :: int where "SCORE_MAX = 100"
definition DECAY_PERCENT :: int where "DECAY_PERCENT = 10"
definition DECAY_INTERVAL_SECS :: nat where "DECAY_INTERVAL_SECS = 60"

datatype score_event = HandshakeSucceeded | HandshakeFailed | UsefulMessage | RequestAnswered
  | RequestTimedOut | MalformedFrame | InvalidSignature | RateLimitExceeded
  | DuplicateMessage | FailedToServe | ServedCorruptData

fun event_weight :: "score_event \<Rightarrow> int" where
  "event_weight HandshakeSucceeded = 5"
| "event_weight UsefulMessage = 1"
| "event_weight RequestAnswered = 2"
| "event_weight RequestTimedOut = -2"
| "event_weight DuplicateMessage = -1"
| "event_weight MalformedFrame = -10"
| "event_weight RateLimitExceeded = -15"
| "event_weight FailedToServe = -20"
| "event_weight HandshakeFailed = -30"
| "event_weight InvalidSignature = -50"
| "event_weight ServedCorruptData = -50"

record peer_score =
  ps_score :: int
  ps_last_decay :: nat
  ps_last_seen :: nat
  ps_observations :: u64

definition peer_score_new :: "nat \<Rightarrow> peer_score" where
  "peer_score_new now = \<lparr>ps_score = 0, ps_last_decay = now, ps_last_seen = now, ps_observations = 0\<rparr>"

definition score_banned :: "peer_score \<Rightarrow> bool" where
  "score_banned s \<longleftrightarrow> ps_score s \<le> BAN_THRESHOLD"

definition score_graylisted :: "peer_score \<Rightarrow> bool" where
  "score_graylisted s \<longleftrightarrow> ps_score s \<le> GRAYLIST_THRESHOLD"

definition clamp :: "int \<Rightarrow> int \<Rightarrow> int \<Rightarrow> int" where
  "clamp x lo hi = (if x < lo then lo else if x > hi then hi else x)"

text \<open>\<open>/\<close> on non-negative integers and \<open>div\<close> agree.\<close>

definition decay_once :: "int \<Rightarrow> int" where
  "decay_once s = s - max (\<bar>s\<bar> * DECAY_PERCENT div 100) 1 * sgn s"

fun decay_loop :: "nat \<Rightarrow> int \<Rightarrow> int" where
  "decay_loop 0 s = s"
| "decay_loop (Suc n) s = (if s = 0 then s else decay_loop n (decay_once s))"

definition decay :: "nat \<Rightarrow> peer_score \<Rightarrow> peer_score" where
  "decay now s =
     (let elapsed = now - ps_last_decay s;
          intervals = elapsed div 10 ^ 9 div DECAY_INTERVAL_SECS
      in if intervals = 0 then s
         else s\<lparr>ps_score := decay_loop (min intervals 30) (ps_score s), ps_last_decay := now\<rparr>)"

definition record_event :: "score_event \<Rightarrow> nat \<Rightarrow> peer_score \<Rightarrow> peer_score" where
  "record_event ev now s =
     (let s = decay now s
      in s\<lparr>ps_score := clamp (ps_score s + event_weight ev) SCORE_MIN SCORE_MAX,
           ps_observations := sat_add (ps_observations s) 1,
           ps_last_seen := now\<rparr>)"

section \<open>The scoreboard\<close>

type_synonym scoreboard = "(string \<times> peer_score) list"

definition sb_record :: "string \<Rightarrow> score_event \<Rightarrow> nat \<Rightarrow> scoreboard \<Rightarrow> scoreboard" where
  "sb_record peer ev now b =
     bt_insert peer (record_event ev now
       (case map_of b peer of None \<Rightarrow> peer_score_new now | Some s \<Rightarrow> s)) b"

definition sb_score :: "scoreboard \<Rightarrow> string \<Rightarrow> int" where
  "sb_score b peer = (case map_of b peer of None \<Rightarrow> 0 | Some s \<Rightarrow> ps_score s)"

definition sb_banned :: "scoreboard \<Rightarrow> string \<Rightarrow> bool" where
  "sb_banned b peer = (case map_of b peer of None \<Rightarrow> False | Some s \<Rightarrow> score_banned s)"

definition sb_graylisted :: "scoreboard \<Rightarrow> string \<Rightarrow> bool" where
  "sb_graylisted b peer = (case map_of b peer of None \<Rightarrow> False | Some s \<Rightarrow> score_graylisted s)"

definition sb_decay_all :: "nat \<Rightarrow> scoreboard \<Rightarrow> scoreboard" where
  "sb_decay_all now b = map (\<lambda>(k, s). (k, decay now s)) b"

definition sb_prune :: "nat \<Rightarrow> nat \<Rightarrow> scoreboard \<Rightarrow> scoreboard" where
  "sb_prune now idle_for b =
     filter (\<lambda>(k, s). ps_score s \<noteq> 0 \<or> now - ps_last_seen s < idle_for) (sb_decay_all now b)"

section \<open>Bounds\<close>

definition score_ok :: "peer_score \<Rightarrow> bool" where
  "score_ok s \<longleftrightarrow> SCORE_MIN \<le> ps_score s \<and> ps_score s \<le> SCORE_MAX"

lemmas score_consts = GRAYLIST_THRESHOLD_def BAN_THRESHOLD_def SCORE_MIN_def SCORE_MAX_def
  DECAY_PERCENT_def DECAY_INTERVAL_SECS_def

lemma decay_once_pos: "0 < s \<Longrightarrow> 0 \<le> decay_once s \<and> decay_once s < s"
  by (auto simp: decay_once_def score_consts max_def)

lemma decay_once_neg: "s < 0 \<Longrightarrow> s < decay_once s \<and> decay_once s \<le> 0"
proof -
  assume s: "s < 0"
  have "(- s) * 10 div 100 \<le> - s" using s by auto
  then show ?thesis using s by (auto simp: decay_once_def score_consts max_def)
qed

lemma decay_once_minus: "decay_once (- s) = - decay_once s"
  by (simp add: decay_once_def)

lemma decay_loop_zero [simp]: "decay_loop n 0 = 0"
  by (cases n) simp_all

lemma decay_loop_pos: "0 \<le> s \<Longrightarrow> 0 \<le> decay_loop n s \<and> decay_loop n s \<le> s"
proof (induction n arbitrary: s)
  case (Suc n)
  show ?case
  proof (cases "s = 0")
    case False
    then have "0 \<le> decay_once s" "decay_once s < s" using decay_once_pos [of s] Suc.prems by auto
    with Suc.IH [of "decay_once s"] False show ?thesis by auto
  qed simp
qed simp

lemma decay_loop_minus: "decay_loop n (- s) = - decay_loop n s"
  by (induction n arbitrary: s) (simp_all add: decay_once_minus)

lemma decay_loop_neg: "s \<le> 0 \<Longrightarrow> s \<le> decay_loop n s \<and> decay_loop n s \<le> 0"
  using decay_loop_pos [of "- s" n] by (simp add: decay_loop_minus)

lemma decay_loop_add: "decay_loop (m + n) s = decay_loop n (decay_loop m s)"
  by (induction m arbitrary: s) auto

lemma decay_once_mono: "0 \<le> a \<Longrightarrow> a \<le> b \<Longrightarrow> decay_once a \<le> decay_once b"
proof -
  assume a: "0 \<le> a" "a \<le> b"
  have sg: "sgn x = (if x = 0 then 0 else (1 :: int))" if "0 \<le> x" for x using that by simp
  have q: "b * 10 div 100 \<le> a * 10 div 100 + (b - a)"
  proof -
    have "b * 10 \<le> a * 10 + (b - a) * 100" using a by simp
    then have "b * 10 div 100 \<le> (a * 10 + (b - a) * 100) div 100" by (rule zdiv_mono1) simp
    then show ?thesis by simp
  qed
  show ?thesis
  proof (cases "a = 0")
    case True
    then show ?thesis using a decay_once_pos [of b] by (cases "b = 0") (auto simp: decay_once_def)
  next
    case False
    then show ?thesis using a q
      by (cases "a = b") (auto simp: decay_once_def score_consts max_def)
  qed
qed

lemma decay_loop_mono: "0 \<le> a \<Longrightarrow> a \<le> b \<Longrightarrow> decay_loop n a \<le> decay_loop n b"
proof (induction n arbitrary: a b)
  case (Suc n)
  show ?case
  proof (cases "a = 0")
    case True
    then show ?thesis using decay_loop_pos [of b "Suc n"] Suc.prems by simp
  next
    case False
    then have "0 \<le> decay_once a" "decay_once a \<le> decay_once b"
      using Suc.prems decay_once_pos [of a] decay_once_mono [of a b] by auto
    with Suc.IH [of "decay_once a" "decay_once b"] False Suc.prems show ?thesis by simp
  qed
qed simp

lemma decay_ok [inv_rules]: "score_ok s \<Longrightarrow> score_ok (decay now s)"
proof -
  assume s: "score_ok s"
  have "SCORE_MIN \<le> decay_loop n (ps_score s) \<and> decay_loop n (ps_score s) \<le> SCORE_MAX" for n
    using s decay_loop_pos [of "ps_score s" n] decay_loop_neg [of "ps_score s" n]
    by (cases "0 \<le> ps_score s") (auto simp: score_ok_def score_consts)
  with s show ?thesis by (simp add: score_ok_def decay_def Let_def)
qed

lemma record_ok [inv_rules]: "score_ok (record_event ev now s)"
  by (auto simp: record_event_def score_ok_def clamp_def score_consts Let_def)

definition board_ok :: "scoreboard \<Rightarrow> bool" where
  "board_ok b \<longleftrightarrow> bt_wf b \<and> (\<forall>k s. map_of b k = Some s \<longrightarrow> score_ok s)"

datatype board_event = Record string score_event nat | DecayAll nat | Prune nat nat

fun board_step :: "scoreboard \<Rightarrow> board_event \<Rightarrow> scoreboard" where
  "board_step b (Record p ev now) = sb_record p ev now b"
| "board_step b (DecayAll now) = sb_decay_all now b"
| "board_step b (Prune now idle) = sb_prune now idle b"

lemma map_of_decay_all: "map_of (sb_decay_all now b) k = map_option (decay now) (map_of b k)"
  by (induction b) (auto simp: sb_decay_all_def)

lemma keys_decay_all: "map fst (sb_decay_all now b) = map fst b"
  by (simp add: sb_decay_all_def case_prod_beta comp_def)

lemma map_of_filter_distinct:
  "distinct (map fst m) \<Longrightarrow>
   map_of (filter P m) k = (case map_of m k of None \<Rightarrow> None | Some v \<Rightarrow> if P (k, v) then Some v else None)"
  by (induction m) (auto simp: image_iff map_of_eq_None_iff split: option.splits)

lemma map_of_prune:
  assumes "board_ok b"
  shows "map_of (sb_prune now idle b) k = (case map_of b k of None \<Rightarrow> None | Some s \<Rightarrow>
     (if ps_score (decay now s) \<noteq> 0 \<or> now - ps_last_seen s < idle then Some (decay now s) else None))"
proof -
  have "distinct (map fst (sb_decay_all now b))"
    using assms by (simp add: keys_decay_all board_ok_def bt_wf_distinct)
  moreover have "ps_last_seen (decay now s) = ps_last_seen s" for s
    by (simp add: decay_def Let_def)
  ultimately show ?thesis
    by (simp add: sb_prune_def map_of_filter_distinct map_of_decay_all split: option.splits)
qed

lemma board_step_ok: "board_ok b \<Longrightarrow> board_ok (board_step b e)"
proof (cases e)
  case (Record p ev now)
  assume "board_ok b"
  then show ?thesis using Record
    by (auto simp: board_ok_def sb_record_def bt_wf_insert record_ok split: if_splits)
next
  case (DecayAll now)
  assume "board_ok b"
  then show ?thesis using DecayAll
    by (auto simp: board_ok_def bt_wf_def keys_decay_all map_of_decay_all decay_ok)
next
  case (Prune now idle)
  assume b: "board_ok b"
  have wf: "bt_wf (sb_decay_all now b)"
    using b by (simp add: board_ok_def bt_wf_def keys_decay_all)
  have "bt_wf (sb_prune now idle b)"
    unfolding sb_prune_def using wf by (rule bt_wf_filter)
  moreover have "score_ok s" if m: "map_of (sb_prune now idle b) k = Some s" for k s
  proof -
    obtain s' where "map_of b k = Some s'" "s = decay now s'"
      using m map_of_prune [OF b, of now idle k]
      by (cases "map_of b k") (auto split: if_split_asm)
    then show ?thesis using b decay_ok by (simp add: board_ok_def)
  qed
  ultimately show ?thesis using Prune by (simp add: board_ok_def)
qed

interpretation board: invariant_machine board_step board_ok
  by unfold_locales (rule board_step_ok)

section \<open>What the score guarantees\<close>

text \<open>
  The score of every peer stays within its floor and ceiling over any history of events,
  decays and prunes, whatever the clock does; every intermediate value of the arithmetic
  therefore fits an \<open>i32\<close>.
\<close>

theorem scores_bounded:
  "SCORE_MIN \<le> sb_score (foldl board_step [] es) p \<and> sb_score (foldl board_step [] es) p \<le> SCORE_MAX
   \<and> \<bar>sb_score (foldl board_step [] es) p\<bar> * DECAY_PERCENT < 2 ^ 31
   \<and> \<bar>sb_score (foldl board_step [] es) p + event_weight ev\<bar> < 2 ^ 31"
proof -
  have "board_ok []" by (simp add: board_ok_def)
  then have ok: "board_ok (foldl board_step [] es)" by (rule board.run_inv)
  have "\<bar>event_weight ev\<bar> \<le> 50" by (cases ev) simp_all
  moreover have "SCORE_MIN \<le> sb_score (foldl board_step [] es) p
      \<and> sb_score (foldl board_step [] es) p \<le> SCORE_MAX"
    using ok by (auto simp: board_ok_def sb_score_def score_ok_def score_consts split: option.splits)
  ultimately show ?thesis by (auto simp: score_consts)
qed

text \<open>
  Decay moves a score toward zero and never past it: it keeps the sign, does not grow in
  size, and strictly shrinks a nonzero score once an interval is due.
\<close>

theorem decay_toward_zero:
  "(0 \<le> ps_score s \<longrightarrow> 0 \<le> ps_score (decay now s) \<and> ps_score (decay now s) \<le> ps_score s)
   \<and> (ps_score s \<le> 0 \<longrightarrow> ps_score s \<le> ps_score (decay now s) \<and> ps_score (decay now s) \<le> 0)
   \<and> (ps_score s \<noteq> 0 \<and> ps_last_decay s + 60 * 10 ^ 9 \<le> now
        \<longrightarrow> \<bar>ps_score (decay now s)\<bar> < \<bar>ps_score s\<bar>)"
proof -
  have 1: "\<bar>decay_loop (Suc n) x\<bar> < \<bar>x\<bar>" if "x \<noteq> 0" for n x
  proof (cases "0 < x")
    case True
    then show ?thesis using decay_once_pos [of x] decay_loop_pos [of "decay_once x" n] by auto
  next
    case False
    then have "x < 0" using that by simp
    then show ?thesis using decay_once_neg [of x] decay_loop_neg [of "decay_once x" n] by auto
  qed
  have due: "\<exists>n. min ((now - ps_last_decay s) div 10 ^ 9 div DECAY_INTERVAL_SECS) 30 = Suc n
      \<and> (now - ps_last_decay s) div 10 ^ 9 div DECAY_INTERVAL_SECS \<noteq> 0"
    if "ps_last_decay s + 60 * 10 ^ 9 \<le> now"
  proof -
    have "60 * 10 ^ 9 div (10 ^ 9 * 60) \<le> (now - ps_last_decay s) div (10 ^ 9 * 60)"
      using that by (intro div_le_mono) simp
    then have "1 \<le> (now - ps_last_decay s) div 10 ^ 9 div 60"
      by (simp add: div_mult2_eq)
    then show ?thesis
      by (cases "min ((now - ps_last_decay s) div 10 ^ 9 div DECAY_INTERVAL_SECS) 30")
        (auto simp: score_consts)
  qed
  show ?thesis
    using decay_loop_pos [of "ps_score s"] decay_loop_neg [of "ps_score s"] 1 due
    by (auto simp: decay_def Let_def)
qed

text \<open>
  Credit cannot be banked against abuse: whatever a peer did before, four messages with
  an invalid signature (or four corrupt chunks) within a minute of each other ban it.
\<close>

lemma record_drop:
  assumes "score_ok s" "event_weight ev = -50" "now < ps_last_decay s + 60 * 10 ^ 9"
  shows "ps_score (record_event ev now s) = max (ps_score s - 50) SCORE_MIN
    \<and> ps_last_decay (record_event ev now s) = ps_last_decay s"
proof -
  have "now - ps_last_decay s < 60 * 10 ^ 9" using assms(3) by simp
  then have "(now - ps_last_decay s) div 10 ^ 9 div DECAY_INTERVAL_SECS = 0"
    by (simp add: score_consts less_mult_imp_div_less)
  then have "decay now s = s" by (simp add: decay_def)
  then show ?thesis using assms
    by (auto simp: record_event_def clamp_def score_ok_def score_consts Let_def)
qed

theorem forgery_always_bans:
  assumes ok: "score_ok s" and w: "\<forall>(ev, now) \<in> set es. event_weight ev = -50
      \<and> now < ps_last_decay s + 60 * 10 ^ 9" and n: "4 \<le> length es"
  shows "score_banned (foldl (\<lambda>s (ev, now). record_event ev now s) s es)"
proof -
  have "score_ok s' \<Longrightarrow> ps_last_decay s' = ps_last_decay s \<Longrightarrow>
      \<forall>(ev, now) \<in> set xs. event_weight ev = -50 \<and> now < ps_last_decay s + 60 * 10 ^ 9 \<Longrightarrow>
      ps_score (foldl (\<lambda>s (ev, now). record_event ev now s) s' xs)
        = max (ps_score s' - 50 * int (length xs)) SCORE_MIN" for xs s'
  proof (induction xs arbitrary: s')
    case Nil
    then show ?case by (simp add: score_ok_def)
  next
    case (Cons x xs)
    obtain ev now where x: "x = (ev, now)" by (cases x)
    have d: "ps_score (record_event ev now s') = max (ps_score s' - 50) SCORE_MIN"
        "ps_last_decay (record_event ev now s') = ps_last_decay s"
      using record_drop [of s' ev now] Cons.prems x by auto
    have "ps_score (foldl (\<lambda>s (ev, now). record_event ev now s) (record_event ev now s') xs)
      = max (ps_score (record_event ev now s') - 50 * int (length xs)) SCORE_MIN"
      by (rule Cons.IH) (use d record_ok Cons.prems(3) in auto)
    then show ?case using d(1) x by (simp add: score_consts)
  qed
  from this [OF ok refl w] n ok show ?thesis
    by (auto simp: score_banned_def score_ok_def score_consts)
qed

lemma decay_200_7: "decay_loop 7 200 = 98"
  by (simp add: eval_nat_numeral decay_once_def score_consts)

lemma decay_200_14: "decay_loop 14 200 = 49"
  by (simp add: eval_nat_numeral decay_once_def score_consts)

lemma decay_loop_neg_mono: "a \<le> b \<Longrightarrow> b \<le> 0 \<Longrightarrow> decay_loop n a \<le> decay_loop n b"
  using decay_loop_mono [of "- b" "- a" n] by (simp add: decay_loop_minus)

lemma decay_loop_longer: "s \<le> 0 \<Longrightarrow> m \<le> n \<Longrightarrow> decay_loop m s \<le> decay_loop n s"
  using decay_loop_neg [of "decay_loop m s" "n - m"] decay_loop_neg [of s m]
    decay_loop_add [of m "n - m" s] by simp

lemma decay_recovers:
  assumes "score_ok s" "ps_last_decay s + k * 60 * 10 ^ 9 \<le> now" "1 \<le> k" "k \<le> 30"
  shows "- decay_loop k 200 \<le> ps_score (decay now s)"
proof -
  define n where "n = (now - ps_last_decay s) div 10 ^ 9 div DECAY_INTERVAL_SECS"
  have "k * 60 * 10 ^ 9 div (10 ^ 9 * 60) \<le> (now - ps_last_decay s) div (10 ^ 9 * 60)"
    using assms(2) by (intro div_le_mono) simp
  then have kn: "k \<le> n" by (simp add: n_def score_consts div_mult2_eq)
  then have d: "ps_score (decay now s) = decay_loop (min n 30) (ps_score s)"
    using assms(3) by (simp add: decay_def n_def Let_def)
  show ?thesis
  proof (cases "0 \<le> ps_score s")
    case True
    then show ?thesis using d decay_loop_pos [of "ps_score s" "min n 30"] decay_loop_pos [of 200 k] by simp
  next
    case False
    have "- decay_loop k 200 = decay_loop k (- 200)" by (simp add: decay_loop_minus)
    also have "\<dots> \<le> decay_loop k (ps_score s)"
      using assms(1) False by (intro decay_loop_neg_mono) (auto simp: score_ok_def score_consts)
    also have "\<dots> \<le> decay_loop (min n 30) (ps_score s)"
      using False kn assms(4) by (intro decay_loop_longer) auto
    finally show ?thesis using d by simp
  qed
qed

text \<open>
  No ban is permanent: seven minutes without an event lift every ban, and fourteen lift
  every graylisting, whatever the peer had done.
\<close>
theorem bans_expire:
  assumes "score_ok s"
  shows "(ps_last_decay s + 7 * 60 * 10 ^ 9 \<le> now \<longrightarrow> \<not> score_banned (decay now s))
    \<and> (ps_last_decay s + 14 * 60 * 10 ^ 9 \<le> now \<longrightarrow> \<not> score_graylisted (decay now s))"
  using decay_recovers [OF assms, of 7 now] decay_recovers [OF assms, of 14 now]
  by (auto simp: decay_200_7 decay_200_14 score_banned_def score_graylisted_def score_consts)

text \<open>
  Pruning bounds memory without changing any answer: for every peer the score, the ban
  and the graylisting after a prune are those after the decay alone.
\<close>

theorem prune_loses_nothing:
  assumes "board_ok b"
  shows "sb_score (sb_prune now idle b) p = sb_score (sb_decay_all now b) p
    \<and> sb_banned (sb_prune now idle b) p = sb_banned (sb_decay_all now b) p
    \<and> sb_graylisted (sb_prune now idle b) p = sb_graylisted (sb_decay_all now b) p"
  by (auto simp: sb_score_def sb_banned_def sb_graylisted_def map_of_prune [OF assms]
      map_of_decay_all score_banned_def score_graylisted_def score_consts split: option.splits)

text \<open>
  A remark the code makes is not quite true: thirty intervals, the most one decay applies,
  leave the floor at minus thirteen rather than at zero.
\<close>

lemma thirty_intervals_from_floor: "decay_loop 30 SCORE_MIN = - 13"
  by (simp add: eval_nat_numeral decay_once_def score_consts)

section \<open>Witnesses\<close>

abbreviation "wit_score \<equiv> \<lparr>ps_score = 100, ps_last_decay = 0, ps_last_seen = 0, ps_observations = 9\<rparr>"

theorem decay_toward_zero_witness:
  "\<bar>ps_score (decay (90 * 10 ^ 9) wit_score)\<bar> < \<bar>ps_score wit_score\<bar>"
  using decay_toward_zero [of wit_score "90 * 10 ^ 9"] by (simp add: abs_less_iff)

theorem forgery_always_bans_witness:
  "score_banned (foldl (\<lambda>s (ev, now). record_event ev now s) wit_score
     [(InvalidSignature, 5), (InvalidSignature, 6), (ServedCorruptData, 7), (InvalidSignature, 8)])"
  by (rule forgery_always_bans) (simp_all add: score_ok_def score_consts)

theorem bans_expire_witness:
  "\<not> score_banned (decay (420 * 10 ^ 9)
     \<lparr>ps_score = -200, ps_last_decay = 0, ps_last_seen = 0, ps_observations = 4\<rparr>)"
proof -
  have "score_ok \<lparr>ps_score = -200, ps_last_decay = 0, ps_last_seen = 0, ps_observations = 4\<rparr>"
    by (simp add: score_ok_def score_consts)
  from bans_expire [OF this, of "420 * 10 ^ 9"] show ?thesis by simp
qed

theorem prune_loses_nothing_witness:
  "sb_score (sb_prune (10 ^ 15) 600 [(''p'', wit_score)]) ''p''
     = sb_score (sb_decay_all (10 ^ 15) [(''p'', wit_score)]) ''p''"
proof -
  have "board_ok [(''p'', wit_score)]"
    by (simp add: board_ok_def bt_wf_def score_ok_def score_consts)
  from prune_loses_nothing [OF this] show ?thesis by blast
qed

end
