(* ===== verification/Blob.thy ===== *)
theory Blob
  imports Wire_Ids
begin

text \<open>
  Content identifiers and chunking: \<open>hashgram-proto/src/blob.rs\<close> with the bounds it takes from
  \<open>limits.rs\<close>. BLAKE3 is third-party code: the argument \<open>h\<close> of the definitions that hash.
  Sizes are \<open>u64\<close> words; lengths and offsets in memory are natural numbers.
\<close>

section \<open>Bounds\<close>

definition CHUNK_SIZE :: nat where "CHUNK_SIZE = 1024 * 1024"
definition MAX_BLOB_SIZE :: u64 where "MAX_BLOB_SIZE = 4 * 1024 * 1024 * 1024"
definition MAX_CHUNKS :: nat where "MAX_CHUNKS = unat MAX_BLOB_SIZE div CHUNK_SIZE"

definition div_ceil :: "nat \<Rightarrow> nat \<Rightarrow> nat" where
  "div_ceil a b = (if a mod b = 0 then a div b else a div b + 1)"

text \<open>\<open>slice::chunks\<close>: consecutive pieces of \<open>n\<close> elements, the last possibly shorter.\<close>

function chunks :: "nat \<Rightarrow> 'a list \<Rightarrow> 'a list list" where
  "chunks n xs = (if n = 0 \<or> xs = [] then [] else take n xs # chunks n (drop n xs))"
  by pat_completeness auto
termination
  by (relation "measure (\<lambda>(n, xs). length xs)") auto

declare chunks.simps [simp del]

section \<open>Manifests\<close>

record blob_manifest =
  bm_version :: u32
  bm_size :: u64
  bm_chunk_size :: u32
  bm_chunks :: "bytes list"
  bm_mime :: string
  bm_encrypted :: bool

datatype manifest_error =
    MVersion u32
  | MChunkSize u32
  | MTooLarge nat
  | MChunkCount u64 nat nat
  | MChunkHash nat
  | MEmpty

definition manifest_bytes :: "blob_manifest \<Rightarrow> bytes" where
  "manifest_bytes m =
     fx_u32 (if bm_encrypted m then 1 else 0)
       (fx_string (bm_mime m)
         (fx_bytes64_slice (bm_chunks m)
           (fx_u32 (bm_chunk_size m)
             (fx_u64 (bm_size m) (fx_u32 (bm_version m) fx_new)))))"

definition cid :: "(bytes \<Rightarrow> bytes) \<Rightarrow> blob_manifest \<Rightarrow> bytes" where
  "cid h m = h (manifest_bytes m)"

definition chunk_count :: "u64 \<Rightarrow> nat" where
  "chunk_count bsz = div_ceil (unat bsz) CHUNK_SIZE"

fun check_chunk_hashes :: "nat \<Rightarrow> bytes list \<Rightarrow> manifest_error + unit" where
  "check_chunk_hashes i [] = Inr ()"
| "check_chunk_hashes i (c # cs) =
     (if length c \<noteq> 32 then Inl (MChunkHash i) else check_chunk_hashes (i + 1) cs)"

definition validate_manifest :: "blob_manifest \<Rightarrow> manifest_error + unit" where
  "validate_manifest m =
     (if bm_version m \<noteq> 1 then Inl (MVersion (bm_version m))
      else if unat (bm_chunk_size m) \<noteq> CHUNK_SIZE then Inl (MChunkSize (bm_chunk_size m))
      else if bm_size m = 0 then Inl MEmpty
      else if bm_size m > MAX_BLOB_SIZE then Inl (MTooLarge (unat (bm_size m)))
      else (let expected = chunk_count (bm_size m)
        in if expected > MAX_CHUNKS \<or> length (bm_chunks m) \<noteq> expected
           then Inl (MChunkCount (bm_size m) expected (length (bm_chunks m)))
           else check_chunk_hashes 0 (bm_chunks m)))"

definition manifest_for ::
    "(bytes \<Rightarrow> bytes) \<Rightarrow> bytes \<Rightarrow> string \<Rightarrow> bool \<Rightarrow> manifest_error + blob_manifest" where
  "manifest_for h data mime encrypted =
     (if data = [] then Inl MEmpty
      else if length data > unat MAX_BLOB_SIZE then Inl (MTooLarge (length data))
      else Inr \<lparr>bm_version = 1, bm_size = word_of_nat (length data),
             bm_chunk_size = word_of_nat CHUNK_SIZE,
             bm_chunks = map h (chunks CHUNK_SIZE data), bm_mime = mime,
             bm_encrypted = encrypted\<rparr>)"

text \<open>The half-open byte range of a chunk; \<open>checked_mul\<close> fails on overflow.\<close>

definition chunk_range :: "u64 \<Rightarrow> u32 \<Rightarrow> (nat \<times> nat) option" where
  "chunk_range bsz index =
     (if unat index * CHUNK_SIZE \<ge> 2 ^ 64 then None
      else (let start = unat index * CHUNK_SIZE
        in if start \<ge> unat bsz then None
           else Some (start, min (start + CHUNK_SIZE) (unat bsz))))"

definition chunk_matches :: "(bytes \<Rightarrow> bytes) \<Rightarrow> blob_manifest \<Rightarrow> u32 \<Rightarrow> bytes \<Rightarrow> bool" where
  "chunk_matches h m index data =
     (case chunk_range (bm_size m) index of
        None \<Rightarrow> False
      | Some (a, b) \<Rightarrow> length data = b - a \<and> unat index < length (bm_chunks m)
          \<and> bm_chunks m ! unat index = h data)"

section \<open>Chunks\<close>

lemma CHUNK_SIZE_pos [simp]: "0 < CHUNK_SIZE"
  by (simp add: CHUNK_SIZE_def)

lemma chunks_Nil [simp]: "chunks n [] = []"
  by (simp add: chunks.simps)

lemma chunks_step: "0 < n \<Longrightarrow> xs \<noteq> [] \<Longrightarrow> chunks n xs = take n xs # chunks n (drop n xs)"
  by (subst chunks.simps) simp

lemma concat_chunks: "0 < n \<Longrightarrow> concat (chunks n xs) = xs"
proof (induction n xs rule: chunks.induct)
  case (1 n xs)
  then show ?case by (cases "xs = []") (simp_all add: chunks_step)
qed

lemma div_ceil_step: "0 < b \<Longrightarrow> b < a \<Longrightarrow> div_ceil a b = div_ceil (a - b) b + 1"
  by (simp add: div_ceil_def le_mod_geq le_div_geq)

lemma div_ceil_small: "0 < a \<Longrightarrow> a \<le> b \<Longrightarrow> div_ceil a b = 1"
  by (cases "a = b") (simp_all add: div_ceil_def)

lemma div_ceil_zero [simp]: "div_ceil 0 b = 0"
  by (simp add: div_ceil_def)

lemma div_ceil_bounds: "0 < b \<Longrightarrow> a \<le> div_ceil a b * b \<and> (0 < a \<longrightarrow> (div_ceil a b - 1) * b < a)"
proof -
  assume b: "0 < b"
  have a: "a = a div b * b + a mod b" by simp
  have m: "a mod b < b" using b by simp
  show ?thesis
  proof (cases "a mod b = 0")
    case True
    then have e: "a div b * b = a" using a by simp
    have "(a div b - 1) * b < a" if "0 < a"
    proof -
      have "a div b \<noteq> 0" using that e by (cases "a div b") auto
      then have "(a div b - 1) * b + b = a div b * b" by (cases "a div b") auto
      then show ?thesis using b e by linarith
    qed
    then show ?thesis using True e by (simp add: div_ceil_def)
  next
    case False
    have "a \<le> (a div b + 1) * b" using a m unfolding add_mult_distrib by linarith
    moreover have "a div b * b < a" using a False by linarith
    ultimately show ?thesis using False by (simp add: div_ceil_def)
  qed
qed

lemma div_ceil_unique: "0 < b \<Longrightarrow> (n - 1) * b < a \<Longrightarrow> a \<le> n * b \<Longrightarrow> div_ceil a b = n"
proof -
  assume b: "0 < b" and lo: "(n - 1) * b < a" and hi: "a \<le> n * b"
  let ?d = "div_ceil a b"
  have a: "0 < a" using lo by simp
  have d: "a \<le> ?d * b" "(?d - 1) * b < a" using div_ceil_bounds [OF b, of a] a by auto
  have "(n - 1) * b < ?d * b" "(?d - 1) * b < n * b" using d lo hi by linarith+
  then have "n - 1 < ?d" "?d - 1 < n" by (simp_all only: mult_less_cancel2)
  then show ?thesis by linarith
qed

lemma length_chunks: "0 < n \<Longrightarrow> length (chunks n xs) = div_ceil (length xs) n"
proof (induction n xs rule: chunks.induct)
  case (1 n xs)
  show ?case
  proof (cases "xs = []")
    case False
    then have c: "length (chunks n xs) = Suc (div_ceil (length xs - n) n)"
      using 1 by (simp add: chunks_step)
    show ?thesis
    proof (cases "length xs \<le> n")
      case True
      then show ?thesis using c False by (simp add: div_ceil_small)
    next
      case False
      then show ?thesis using c 1(2) div_ceil_step [of n "length xs"] by simp
    qed
  qed simp
qed

lemma nth_chunks:
  "0 < n \<Longrightarrow> i < length (chunks n xs) \<Longrightarrow> chunks n xs ! i = take n (drop (i * n) xs)"
proof (induction n xs arbitrary: i rule: chunks.induct)
  case (1 n xs)
  then have xs: "xs \<noteq> []" by auto
  show ?case
  proof (cases i)
    case 0
    then show ?thesis using 1 xs by (simp add: chunks_step)
  next
    case (Suc j)
    then show ?thesis using 1 xs by (simp add: chunks_step add.commute)
  qed
qed

text \<open>Cutting a concatenation of full pieces and a last, shorter one gives the pieces back.\<close>

lemma chunks_concat:
  "0 < n \<Longrightarrow> \<forall>x \<in> set (butlast xss). length x = n \<Longrightarrow>
   (xss \<noteq> [] \<longrightarrow> last xss \<noteq> [] \<and> length (last xss) \<le> n) \<Longrightarrow> chunks n (concat xss) = xss"
proof (induction xss)
  case Nil
  then show ?case by simp
next
  case (Cons x xss)
  show ?case
  proof (cases "xss = []")
    case True
    then show ?thesis using Cons.prems by (simp add: chunks_step)
  next
    case False
    then have x: "length x = n" and ne: "x \<noteq> []" using Cons.prems by auto
    have "chunks n (concat xss) = xss" using Cons False by simp
    then show ?thesis using x ne Cons.prems(1) by (simp add: chunks_step)
  qed
qed

section \<open>Properties\<close>

lemma check_chunk_hashes_ok: "check_chunk_hashes i cs = Inr u \<longleftrightarrow> (\<forall>c \<in> set cs. length c = 32)"
  by (induction cs arbitrary: i) auto

lemma chunk_count_bound: "bsz \<le> MAX_BLOB_SIZE \<Longrightarrow> chunk_count bsz \<le> MAX_CHUNKS"
proof -
  assume "bsz \<le> MAX_BLOB_SIZE"
  then have le: "unat bsz \<le> 4096 * CHUNK_SIZE"
    by (simp add: word_le_nat_alt MAX_BLOB_SIZE_def CHUNK_SIZE_def)
  have "chunk_count bsz \<le> 4096"
  proof (rule ccontr)
    assume "\<not> chunk_count bsz \<le> 4096"
    then have "4096 * CHUNK_SIZE \<le> (div_ceil (unat bsz) CHUNK_SIZE - 1) * CHUNK_SIZE"
      by (intro mult_le_mono1) (simp add: chunk_count_def)
    moreover have "0 < unat bsz"
      using \<open>\<not> chunk_count bsz \<le> 4096\<close> by (cases "unat bsz = 0") (auto simp: chunk_count_def)
    ultimately show False using div_ceil_bounds [of CHUNK_SIZE "unat bsz"] le by linarith
  qed
  then show ?thesis by (simp add: MAX_CHUNKS_def MAX_BLOB_SIZE_def CHUNK_SIZE_def)
qed

lemma unat_of_length:
  "length data \<le> unat MAX_BLOB_SIZE \<Longrightarrow> unat (word_of_nat (length data) :: u64) = length data"
  by (simp add: MAX_BLOB_SIZE_def unat_of_nat)

text \<open>
  What the builder produces is valid and describes the data: its manifest passes
  validation, and every chunk of the data matches its entry.
\<close>

theorem manifest_for_valid:
  assumes h: "\<And>x. length (h x) = 32"
    and m: "manifest_for h data mime enc = Inr m"
  shows "validate_manifest m = Inr ()
    \<and> (\<forall>i. i < length (chunks CHUNK_SIZE data) \<longrightarrow>
         chunk_matches h m (word_of_nat i) (chunks CHUNK_SIZE data ! i))"
proof -
  have ne: "data \<noteq> []" and le: "length data \<le> unat MAX_BLOB_SIZE"
    and m_eq: "m = \<lparr>bm_version = 1, bm_size = word_of_nat (length data),
             bm_chunk_size = word_of_nat CHUNK_SIZE,
             bm_chunks = map h (chunks CHUNK_SIZE data), bm_mime = mime, bm_encrypted = enc\<rparr>"
    using m by (auto simp: manifest_for_def split: if_splits)
  let ?cs = "chunks CHUNK_SIZE data"
  have sz: "unat (bm_size m) = length data" using m_eq unat_of_length [OF le] by simp
  then have szm: "bm_size m \<le> MAX_BLOB_SIZE" using le by (simp add: word_le_nat_alt)
  have cc: "chunk_count (bm_size m) = length ?cs"
    using sz by (simp add: chunk_count_def length_chunks)
  have s0: "bm_size m \<noteq> 0" using sz ne by auto
  have cs: "unat (bm_chunk_size m) = CHUNK_SIZE"
    using m_eq by (simp add: CHUNK_SIZE_def)
  have v: "validate_manifest m = Inr ()"
    using s0 szm cs cc chunk_count_bound [OF szm] h m_eq
    by (auto simp: validate_manifest_def check_chunk_hashes_ok Let_def)
  moreover have "chunk_matches h m (word_of_nat i) (?cs ! i)" if i: "i < length ?cs" for i
  proof -
    have i4: "i < 4096" using i cc chunk_count_bound [OF szm]
      by (simp add: MAX_CHUNKS_def MAX_BLOB_SIZE_def CHUNK_SIZE_def)
    then have ui: "unat (word_of_nat i :: u32) = i" by (simp add: unat_of_nat)
    have lt: "i * CHUNK_SIZE < length data"
    proof -
      have "i * CHUNK_SIZE \<le> (div_ceil (length data) CHUNK_SIZE - 1) * CHUNK_SIZE"
        using i by (intro mult_le_mono1) (simp add: length_chunks)
      also have "\<dots> < length data" using div_ceil_bounds [of CHUNK_SIZE "length data"] ne by simp
      finally show ?thesis .
    qed
    have "i * CHUNK_SIZE < 2 ^ 64" using i4 by (simp add: CHUNK_SIZE_def)
    then show ?thesis
      using lt ui i sz m_eq by (auto simp: chunk_matches_def chunk_range_def Let_def nth_chunks min_def)
  qed
  ultimately show ?thesis by blast
qed

text \<open>
  The chunk ranges of a blob partition it: every offset below the size lies in exactly
  one range, the one of its index, and no range reaches past the end or is longer than a
  chunk.
\<close>

theorem chunk_ranges_partition:
  assumes "bsz \<le> MAX_BLOB_SIZE" "off < unat bsz"
  shows "((case chunk_range bsz i of None \<Rightarrow> False | Some (a, b) \<Rightarrow> a \<le> off \<and> off < b)
      \<longleftrightarrow> i = word_of_nat (off div CHUNK_SIZE))
    \<and> (\<forall>a b. chunk_range bsz i = Some (a, b) \<longrightarrow> a < b \<and> b \<le> unat bsz \<and> b - a \<le> CHUNK_SIZE)"
proof -
  have sz: "unat bsz \<le> 4096 * CHUNK_SIZE"
    using assms(1) by (simp add: word_le_nat_alt MAX_BLOB_SIZE_def CHUNK_SIZE_def)
  have "off div CHUNK_SIZE \<le> 4096 * CHUNK_SIZE div CHUNK_SIZE"
    using assms(2) sz by (intro div_le_mono) simp
  then have q: "off div CHUNK_SIZE \<le> 4096" by simp
  then have uq: "unat (word_of_nat (off div CHUNK_SIZE) :: u32) = off div CHUNK_SIZE"
    by (simp add: unat_of_nat)
  have in_range: "(unat i * CHUNK_SIZE \<le> off \<and> off < unat i * CHUNK_SIZE + CHUNK_SIZE)
      \<longleftrightarrow> unat i = off div CHUNK_SIZE"
  proof
    assume "unat i * CHUNK_SIZE \<le> off \<and> off < unat i * CHUNK_SIZE + CHUNK_SIZE"
    then show "unat i = off div CHUNK_SIZE"
      by (metis CHUNK_SIZE_pos add.commute div_nat_eqI mult.commute mult_Suc_right)
  next
    assume "unat i = off div CHUNK_SIZE"
    moreover have "off = off div CHUNK_SIZE * CHUNK_SIZE + off mod CHUNK_SIZE"
        "off mod CHUNK_SIZE < CHUNK_SIZE" by simp_all
    ultimately show "unat i * CHUNK_SIZE \<le> off \<and> off < unat i * CHUNK_SIZE + CHUNK_SIZE"
      by (metis add_le_cancel_left le_add1 nat_add_left_cancel_less)
  qed
  have eq: "unat i = off div CHUNK_SIZE \<longleftrightarrow> i = word_of_nat (off div CHUNK_SIZE)"
    using uq by (metis word_unat_eq_iff)
  have small: "unat i * CHUNK_SIZE < 2 ^ 64" if "unat i * CHUNK_SIZE \<le> off"
    using that assms(2) unat_bound [of bsz] by simp
  have "(case chunk_range bsz i of None \<Rightarrow> False | Some (a, b) \<Rightarrow> a \<le> off \<and> off < b)
      \<longleftrightarrow> i = word_of_nat (off div CHUNK_SIZE)"
    using in_range eq assms(2) small
    by (auto simp: chunk_range_def Let_def split: if_splits)
  moreover have "a < b \<and> b \<le> unat bsz \<and> b - a \<le> CHUNK_SIZE" if "chunk_range bsz i = Some (a, b)" for a b
    using that by (auto simp: chunk_range_def Let_def split: if_splits)
  ultimately show ?thesis by blast
qed

text \<open>
  A manifest is determined by its canonical bytes, so two manifests share a CID only if
  BLAKE3 collides on their bytes.
\<close>

theorem manifest_bytes_inj:
  assumes "length (bm_chunks m) < 2 ^ 64" "\<forall>c \<in> set (bm_chunks m). length c < 2 ^ 64"
    and "length (bm_chunks n) < 2 ^ 64" "\<forall>c \<in> set (bm_chunks n). length c < 2 ^ 64"
    and "length (bm_mime m) < 2 ^ 64" "length (bm_mime n) < 2 ^ 64"
    and "manifest_bytes m = manifest_bytes n"
  shows "m = n"
proof -
  let ?b = "\<lambda>m. u32_be (if bm_encrypted m then 1 else 0)"
  let ?t = "\<lambda>m. frame64 (str_bytes (bm_mime m)) @ ?b m"
  have e: "u32_be (bm_version m) @ u64_be (bm_size m) @ u32_be (bm_chunk_size m)
        @ list64 (bm_chunks m) @ ?t m
      = u32_be (bm_version n) @ u64_be (bm_size n) @ u32_be (bm_chunk_size n)
        @ list64 (bm_chunks n) @ ?t n"
    using assms(7) by (simp add: manifest_bytes_def fx_simps)
  then have 1: "bm_version m = bm_version n" "bm_size m = bm_size n"
      "bm_chunk_size m = bm_chunk_size n"
      "list64 (bm_chunks m) @ ?t m = list64 (bm_chunks n) @ ?t n"
    by (auto dest!: u32f.enc_split [rotated 2] u64f.enc_split [rotated 2])
  have 2: "bm_chunks m = bm_chunks n" "?t m = ?t n"
    using l64.enc_split [OF _ _ 1(4)] assms by auto
  have "str_bytes (bm_mime m) = str_bytes (bm_mime n) \<and> ?b m = ?b n"
    using f64.enc_split [OF _ _ 2(2)] assms(5,6) by simp
  then have "bm_mime m = bm_mime n" "bm_encrypted m = bm_encrypted n"
    by (auto split: if_splits)
  with 1 2 show ?thesis by simp
qed

section \<open>Witnesses\<close>

abbreviation "wit_hash \<equiv> (\<lambda>x :: bytes. replicate 32 (of_nat (length x)))"

theorem manifest_for_valid_witness:
  "\<exists>m. manifest_for wit_hash [1, 2, 3] ''t'' True = Inr m \<and> validate_manifest m = Inr ()"
proof -
  obtain m where m: "manifest_for wit_hash [1, 2, 3] ''t'' True = Inr m"
    by (simp add: manifest_for_def MAX_BLOB_SIZE_def)
  have "length (wit_hash x) = 32" for x by simp
  from manifest_for_valid [OF this m] m show ?thesis by blast
qed

theorem chunk_ranges_partition_witness:
  "(case chunk_range 5 0 of None \<Rightarrow> False | Some (a, b) \<Rightarrow> a \<le> 3 \<and> 3 < b)"
proof -
  have "(5 :: u64) \<le> MAX_BLOB_SIZE" "3 < unat (5 :: u64)"
    by (simp_all add: MAX_BLOB_SIZE_def)
  from chunk_ranges_partition [OF this, of 0] show ?thesis by (simp add: CHUNK_SIZE_def)
qed

theorem manifest_bytes_inj_witness:
  "(\<lparr>bm_version = 1, bm_size = 3, bm_chunk_size = 9, bm_chunks = [[1]], bm_mime = ''t'',
     bm_encrypted = True\<rparr> :: blob_manifest)
   = \<lparr>bm_version = 1, bm_size = 3, bm_chunk_size = 9, bm_chunks = [[1]], bm_mime = ''t'',
     bm_encrypted = True\<rparr>"
  by (rule manifest_bytes_inj) simp_all

end
