(* ===== verification/Drive_Object.thy ===== *)
theory Drive_Object
  imports Blob
begin

text \<open>
  Encrypted Drive objects: the first half of \<open>hashgram-app/src/drive.rs\<close>. A plaintext is cut
  into segments, each sealed under its own nonce with its index and the total size as
  associated data, so that a sealed segment is exactly one blob chunk. XChaCha20-Poly1305 and
  BLAKE3 are third-party code: a record \<open>crypto\<close> of functions that every operation takes.
  A streaming hasher is the bytes fed to it so far.
\<close>

section \<open>Primitives and constants\<close>

record crypto =
  cr_enc :: "bytes \<Rightarrow> bytes \<Rightarrow> bytes \<Rightarrow> bytes \<Rightarrow> bytes option"
  cr_dec :: "bytes \<Rightarrow> bytes \<Rightarrow> bytes \<Rightarrow> bytes \<Rightarrow> bytes option"
  cr_hash :: "bytes \<Rightarrow> bytes"

definition TAG_LEN :: nat where "TAG_LEN = 16"
definition SEGMENT_PLAINTEXT :: nat where "SEGMENT_PLAINTEXT = CHUNK_SIZE - TAG_LEN"
definition AAD_DOMAIN :: bytes where "AAD_DOMAIN = str_bytes ''hashgram-drive-v1''"
definition MAX_OBJECT_PLAINTEXT :: u64 where
  "MAX_OBJECT_PLAINTEXT = 4 * 1024 * 1024 * 1024 - 4096 * 16"

text \<open>The documented behaviour of the AEAD: it is correct on segments, adds a tag, and is tidy
  (what decrypts is the encryption of what it decrypts to, since the tag is recomputed and
  compared). And the length of a BLAKE3 hash.\<close>

definition aead_correct :: "crypto \<Rightarrow> bool" where
  "aead_correct c \<longleftrightarrow> (\<forall>k n a m. length m \<le> SEGMENT_PLAINTEXT \<longrightarrow>
     (\<exists>ct. cr_enc c k n a m = Some ct \<and> length ct = length m + TAG_LEN
       \<and> cr_dec c k n a ct = Some m))"

definition aead_tidy :: "crypto \<Rightarrow> bool" where
  "aead_tidy c \<longleftrightarrow> (\<forall>k n a m ct. cr_dec c k n a ct = Some m \<longrightarrow> cr_enc c k n a m = Some ct)"

definition hash_len :: "crypto \<Rightarrow> bool" where
  "hash_len c \<longleftrightarrow> (\<forall>x. length (cr_hash c x) = 32)"

section \<open>Keys, nonces and associated data\<close>

record drive_key =
  dk_key :: bytes
  dk_base_nonce :: bytes

record object_key =
  ok_key :: bytes
  ok_base_nonce :: bytes

definition object_key_generate :: "os_random \<Rightarrow> os_random \<Rightarrow> object_key res" where
  "object_key_generate r1 r2 =
     and_then (random_bytes r1 32) (\<lambda>k.
     and_then (random_bytes r2 24) (\<lambda>n.
       Inr \<lparr>ok_key = k, ok_base_nonce = n\<rparr>))"

definition object_key_from_pb :: "drive_key \<Rightarrow> object_key res" where
  "object_key_from_pb k =
     (if length (dk_key k) \<noteq> 32 \<or> length (dk_base_nonce k) \<noteq> 24
      then Inl (Invalid ''DriveKey length'')
      else Inr \<lparr>ok_key = dk_key k, ok_base_nonce = dk_base_nonce k\<rparr>)"

definition object_key_to_pb :: "object_key \<Rightarrow> drive_key" where
  "object_key_to_pb k = \<lparr>dk_key = ok_key k, dk_base_nonce = ok_base_nonce k\<rparr>"

definition nonce :: "object_key \<Rightarrow> u64 \<Rightarrow> bytes" where
  "nonce k index = take 16 (ok_base_nonce k)
     @ map2 (\<lambda>a b. xor a b) (drop 16 (ok_base_nonce k)) (u64_le index)"

definition aad :: "u64 \<Rightarrow> u64 \<Rightarrow> bytes" where
  "aad index tot = AAD_DOMAIN @ u64_le index @ u64_le tot"

section \<open>Sizes\<close>

definition div_ceil64 :: "u64 \<Rightarrow> u64 \<Rightarrow> u64" where
  "div_ceil64 a b = (if a mod b > 0 then a div b + 1 else a div b)"

definition segment_count :: "u64 \<Rightarrow> u64" where
  "segment_count n = (if n = 0 then 1 else div_ceil64 n (word_of_nat SEGMENT_PLAINTEXT))"

definition ciphertext_size :: "u64 \<Rightarrow> u64" where
  "ciphertext_size n = n + segment_count n * word_of_nat TAG_LEN"

definition segment_count_for_ciphertext :: "u64 \<Rightarrow> u64" where
  "segment_count_for_ciphertext ct_len = max (div_ceil64 ct_len (word_of_nat CHUNK_SIZE)) 1"

section \<open>The streaming encryptor\<close>

record segment_encryptor =
  se_key :: object_key
  se_total :: u64
  se_next :: u64
  se_count :: u64
  se_hasher :: bytes
  se_consumed :: u64

definition encryptor_new :: "object_key \<Rightarrow> u64 \<Rightarrow> segment_encryptor res" where
  "encryptor_new key total_size =
     (if total_size > MAX_OBJECT_PLAINTEXT then Inl (Invalid ''object too large'')
      else Inr \<lparr>se_key = key, se_total = total_size, se_next = 0,
             se_count = segment_count total_size, se_hasher = [], se_consumed = 0\<rparr>)"

definition encryptor_seal ::
    "crypto \<Rightarrow> bytes \<Rightarrow> segment_encryptor \<Rightarrow> (bytes \<times> segment_encryptor) res" where
  "encryptor_seal c plaintext s =
     (if se_next s \<ge> se_count s then Inl (Invalid ''all segments already sealed'')
      else (let is_last = (se_next s + 1 = se_count s);
             expected = (if is_last then unat (se_total s - se_consumed s) else SEGMENT_PLAINTEXT)
        in if length plaintext \<noteq> expected then Inl (Invalid ''segment size'')
           else (case cr_enc c (ok_key (se_key s)) (nonce (se_key s) (se_next s))
                   (aad (se_next s) (se_total s)) plaintext of
               None \<Rightarrow> Inl (Integrity ''encryption failed'')
             | Some ct \<Rightarrow> Inr (ct, s\<lparr>se_hasher := se_hasher s @ plaintext,
                 se_next := se_next s + 1,
                 se_consumed := se_consumed s + word_of_nat (length plaintext)\<rparr>))))"

definition encryptor_finished :: "segment_encryptor \<Rightarrow> bool" where
  "encryptor_finished s \<longleftrightarrow> se_next s = se_count s"

definition encryptor_hash :: "crypto \<Rightarrow> segment_encryptor \<Rightarrow> bytes" where
  "encryptor_hash c s = cr_hash c (se_hasher s)"

section \<open>The streaming decryptor\<close>

record segment_decryptor =
  sd_key :: object_key
  sd_total :: u64
  sd_next :: u64
  sd_count :: u64
  sd_hasher :: bytes
  sd_produced :: u64

definition decryptor_new :: "object_key \<Rightarrow> u64 \<Rightarrow> segment_decryptor res" where
  "decryptor_new key total_size =
     (if total_size > MAX_OBJECT_PLAINTEXT then Inl (Invalid ''object too large'')
      else Inr \<lparr>sd_key = key, sd_total = total_size, sd_next = 0,
             sd_count = segment_count total_size, sd_hasher = [], sd_produced = 0\<rparr>)"

definition decryptor_open ::
    "crypto \<Rightarrow> bytes \<Rightarrow> segment_decryptor \<Rightarrow> (bytes \<times> segment_decryptor) res" where
  "decryptor_open c ciphertext s =
     (if sd_next s \<ge> sd_count s then Inl (Integrity ''more segments than the object declares'')
      else (case cr_dec c (ok_key (sd_key s)) (nonce (sd_key s) (sd_next s))
              (aad (sd_next s) (sd_total s)) ciphertext of
          None \<Rightarrow> Inl (Integrity ''segment failed to authenticate'')
        | Some pt \<Rightarrow>
            (let is_last = (sd_next s + 1 = sd_count s);
                 expected = (if is_last then unat (sd_total s - sd_produced s)
                             else SEGMENT_PLAINTEXT)
             in if length pt \<noteq> expected then Inl (Integrity ''segment plaintext size'')
                else Inr (pt, s\<lparr>sd_hasher := sd_hasher s @ pt, sd_next := sd_next s + 1,
                       sd_produced := sd_produced s + word_of_nat (length pt)\<rparr>))))"

definition decryptor_finished :: "segment_decryptor \<Rightarrow> bool" where
  "decryptor_finished s \<longleftrightarrow> sd_next s = sd_count s"

definition decryptor_verify :: "crypto \<Rightarrow> bytes \<Rightarrow> segment_decryptor \<Rightarrow> unit res" where
  "decryptor_verify c expected s =
     (if \<not> decryptor_finished s then Inl (Integrity ''object is incomplete'')
      else if cr_hash c (sd_hasher s) \<noteq> expected then Inl (Integrity ''plaintext hash mismatch'')
      else Inr ())"

text \<open>The loops that feed a stream one piece at a time and append what comes out.\<close>

fun seal_segments ::
    "crypto \<Rightarrow> bytes list \<Rightarrow> bytes \<Rightarrow> segment_encryptor \<Rightarrow> (bytes \<times> segment_encryptor) res" where
  "seal_segments c [] out s = Inr (out, s)"
| "seal_segments c (seg # segs) out s =
     and_then (encryptor_seal c seg s) (\<lambda>(ct, s'). seal_segments c segs (out @ ct) s')"

fun open_chunks ::
    "crypto \<Rightarrow> bytes list \<Rightarrow> bytes \<Rightarrow> segment_decryptor \<Rightarrow> (bytes \<times> segment_decryptor) res" where
  "open_chunks c [] out s = Inr (out, s)"
| "open_chunks c (ch # chs) out s =
     and_then (decryptor_open c ch s) (\<lambda>(pt, s'). open_chunks c chs (out @ pt) s')"

section \<open>Whole objects\<close>

record drive_object_ref =
  or_version :: u32
  or_cid :: bytes
  or_key :: "drive_key option"
  or_size :: u64
  or_segment_size :: u32
  or_plaintext_hash :: bytes

definition object_ref ::
    "crypto \<Rightarrow> bytes \<Rightarrow> object_key \<Rightarrow> u64 \<Rightarrow> bytes \<Rightarrow> drive_object_ref res" where
  "object_ref c ciphertext key plaintext_size plaintext_hash =
     (case manifest_for (cr_hash c) ciphertext ''application/octet-stream'' True of
        Inl e \<Rightarrow> Inl (Invalid ''manifest'')
      | Inr m \<Rightarrow> Inr \<lparr>or_version = DRIVE_VERSION, or_cid = cid (cr_hash c) m,
          or_key = Some (object_key_to_pb key), or_size = plaintext_size,
          or_segment_size = word_of_nat SEGMENT_PLAINTEXT,
          or_plaintext_hash = plaintext_hash\<rparr>)"

definition validate_object_ref :: "drive_object_ref \<Rightarrow> unit res" where
  "validate_object_ref r =
     and_then (check_body ''DriveObjectRef'' (or_version r) DRIVE_VERSION) (\<lambda>_.
     and_then (require_hash ''DriveObjectRef.cid'' (or_cid r)) (\<lambda>_.
       case or_key r of
         None \<Rightarrow> Inl (Invalid ''DriveObjectRef.key missing'')
       | Some k \<Rightarrow>
           if length (dk_key k) \<noteq> 32 \<or> length (dk_base_nonce k) \<noteq> 24
           then Inl (Invalid ''DriveObjectRef.key length'')
           else if unat (or_segment_size r) \<noteq> SEGMENT_PLAINTEXT
           then Inl (Unsupported ''segment size'')
           else if or_size r > MAX_OBJECT_PLAINTEXT then Inl (Invalid ''object too large'')
           else require_hash ''DriveObjectRef.plaintext_hash'' (or_plaintext_hash r)))"

definition seal_object_with ::
    "crypto \<Rightarrow> bytes \<Rightarrow> object_key \<Rightarrow> (bytes \<times> drive_object_ref) res" where
  "seal_object_with c plaintext key =
     (let tot = word_of_nat (length plaintext) in
      and_then (encryptor_new key tot) (\<lambda>enc.
      and_then (seal_segments c (if plaintext = [] then [[]] else chunks SEGMENT_PLAINTEXT plaintext)
                  [] enc) (\<lambda>(out, enc').
      and_then (object_ref c out key tot (encryptor_hash c enc')) (\<lambda>r.
        Inr (out, r)))))"

definition seal_object ::
    "crypto \<Rightarrow> os_random \<Rightarrow> os_random \<Rightarrow> bytes \<Rightarrow> (bytes \<times> drive_object_ref) res" where
  "seal_object c r1 r2 plaintext =
     and_then (object_key_generate r1 r2) (\<lambda>key. seal_object_with c plaintext key)"

definition open_object_with_key :: "crypto \<Rightarrow> bytes \<Rightarrow> object_key \<Rightarrow> bytes res" where
  "open_object_with_key c ciphertext key =
     (let ct_len = word_of_nat (length ciphertext) :: u64;
          tags = segment_count_for_ciphertext ct_len * word_of_nat TAG_LEN
      in if ct_len < tags then Inl (Integrity ''ciphertext shorter than its tags'')
         else
           and_then (decryptor_new key (ct_len - tags)) (\<lambda>dec.
           and_then (open_chunks c (chunks CHUNK_SIZE ciphertext) [] dec) (\<lambda>(out, dec').
             if \<not> decryptor_finished dec' then Inl (Integrity ''object is incomplete'')
             else Inr out)))"

definition open_object :: "crypto \<Rightarrow> bytes \<Rightarrow> drive_object_ref \<Rightarrow> bytes res" where
  "open_object c ciphertext r =
     and_then (validate_object_ref r) (\<lambda>_.
     and_then (case or_key r of None \<Rightarrow> Inl (Invalid ''object ref has no key'')
                 | Some k \<Rightarrow> object_key_from_pb k) (\<lambda>key.
       if word_of_nat (length ciphertext) \<noteq> ciphertext_size (or_size r)
       then Inl (Integrity ''ciphertext length does not match the object'')
       else
         and_then (decryptor_new key (or_size r)) (\<lambda>dec.
         and_then (open_chunks c (chunks CHUNK_SIZE ciphertext) [] dec) (\<lambda>(out, dec').
         and_then (decryptor_verify c (or_plaintext_hash r) dec') (\<lambda>_.
           Inr out)))))"

section \<open>Nonces and associated data never repeat\<close>

lemma xor_list_inj:
  "length xs = length b \<Longrightarrow> length ys = length b \<Longrightarrow>
   map2 (\<lambda>a b. xor a b) b xs = map2 (\<lambda>a b. xor a b) b ys \<Longrightarrow> xs = (ys :: bytes)"
proof (induction b arbitrary: xs ys)
  case Nil
  then show ?case by simp
next
  case (Cons a b)
  then obtain x xs' y ys' where e: "xs = x # xs'" "ys = y # ys'"
    by (metis length_Suc_conv)
  have "xor a x = xor a y" using Cons.prems e by simp
  then have "xor (xor a a) x = xor (xor a a) y" by (simp only: xor.assoc)
  then have "x = y" by simp
  then show ?case using Cons e by simp
qed

lemma nonce_inj:
  assumes "length (ok_base_nonce k) = 24" "nonce k i = nonce k j"
  shows "i = j"
  using xor_list_inj [of "u64_le i" "drop 16 (ok_base_nonce k)" "u64_le j"] assms
  by (simp add: nonce_def)

lemma aad_inj: "aad i t = aad j u \<Longrightarrow> i = j \<and> t = u"
  by (simp add: aad_def append_eq_append_conv)

section \<open>Segment arithmetic\<close>

lemma SEG_pos [simp]: "0 < SEGMENT_PLAINTEXT"
  by (simp add: SEGMENT_PLAINTEXT_def CHUNK_SIZE_def TAG_LEN_def)

lemma SEG_chunk: "SEGMENT_PLAINTEXT + TAG_LEN = CHUNK_SIZE"
  by (simp add: SEGMENT_PLAINTEXT_def CHUNK_SIZE_def TAG_LEN_def)

lemma unat_SEG: "unat (word_of_nat SEGMENT_PLAINTEXT :: u64) = SEGMENT_PLAINTEXT"
  by (simp add: SEGMENT_PLAINTEXT_def CHUNK_SIZE_def TAG_LEN_def)

lemma unat_div_ceil64:
  assumes "unat a < 2 ^ 63"
  shows "unat (div_ceil64 a b) = div_ceil (unat a) (unat b)"
proof -
  have "unat a div unat b \<le> unat a" by simp
  then have "unat a div unat b < 2 ^ 63" using assms by (rule le_less_trans)
  then have "unat a div unat b + 1 < 2 ^ 64" by simp
  then have "unat (a div b + 1) = unat a div unat b + 1"
    by (simp add: unat_word_ariths unat_div)
  then show ?thesis
    by (simp add: div_ceil64_def div_ceil_def word_less_nat_alt unat_mod unat_div)
qed

lemma max_plaintext:
  "t \<le> MAX_OBJECT_PLAINTEXT \<longleftrightarrow> unat t \<le> 4096 * SEGMENT_PLAINTEXT"
  by (simp add: MAX_OBJECT_PLAINTEXT_def word_le_nat_alt SEGMENT_PLAINTEXT_def CHUNK_SIZE_def
      TAG_LEN_def)

definition seg_n :: "u64 \<Rightarrow> nat" where
  "seg_n t = unat (segment_count t)"

lemma seg_n_word [simp]: "word_of_nat (seg_n t) = segment_count t"
  by (simp add: seg_n_def)

definition seg_len :: "u64 \<Rightarrow> nat \<Rightarrow> nat" where
  "seg_len t i = min SEGMENT_PLAINTEXT (unat t - i * SEGMENT_PLAINTEXT)"

lemma seg_n_eq:
  assumes "t \<le> MAX_OBJECT_PLAINTEXT"
  shows "seg_n t = (if t = 0 then 1 else div_ceil (unat t) SEGMENT_PLAINTEXT)"
proof -
  have "unat t < 2 ^ 63" using assms
    by (simp add: max_plaintext SEGMENT_PLAINTEXT_def CHUNK_SIZE_def TAG_LEN_def)
  then show ?thesis by (simp add: seg_n_def segment_count_def unat_div_ceil64 unat_SEG)
qed

lemma seg_n_bounds:
  assumes "t \<le> MAX_OBJECT_PLAINTEXT"
  shows "0 < seg_n t" "seg_n t \<le> 4096" "unat t \<le> seg_n t * SEGMENT_PLAINTEXT"
    "(seg_n t - 1) * SEGMENT_PLAINTEXT \<le> unat t"
    "t \<noteq> 0 \<Longrightarrow> (seg_n t - 1) * SEGMENT_PLAINTEXT < unat t"
proof -
  have "0 < seg_n t \<and> unat t \<le> seg_n t * SEGMENT_PLAINTEXT
      \<and> (t \<noteq> 0 \<longrightarrow> (seg_n t - 1) * SEGMENT_PLAINTEXT < unat t)"
  proof (cases "t = 0")
    case True
    then show ?thesis using assms by (simp add: seg_n_eq)
  next
    case False
    then have u: "0 < unat t" by (simp add: unat_gt_0)
    show ?thesis
      using div_ceil_bounds [of SEGMENT_PLAINTEXT "unat t"] u False assms
      by (auto simp: seg_n_eq intro!: Nat.gr0I)
  qed
  then show b: "0 < seg_n t" "unat t \<le> seg_n t * SEGMENT_PLAINTEXT"
    "t \<noteq> 0 \<Longrightarrow> (seg_n t - 1) * SEGMENT_PLAINTEXT < unat t" by blast+
  then show lo: "(seg_n t - 1) * SEGMENT_PLAINTEXT \<le> unat t"
    using assms by (cases "t = 0") (simp_all add: seg_n_eq)
  have "(seg_n t - 1) * SEGMENT_PLAINTEXT \<le> 4096 * SEGMENT_PLAINTEXT"
    using assms le_trans [OF lo] by (simp only: max_plaintext)
  then have le: "seg_n t - 1 \<le> 4096" by (simp only: mult_le_cancel2) simp
  show "seg_n t \<le> 4096"
  proof (rule ccontr)
    assume "\<not> seg_n t \<le> 4096"
    then have e: "seg_n t - 1 = 4096" using le by linarith
    then have "t \<noteq> 0" using assms by (auto simp: seg_n_eq)
    then show False using b(3) e assms by (simp add: max_plaintext)
  qed
qed

text \<open>A list of segments has the sizes the stream expects from index \<open>i\<close> on.\<close>

fun lens_ok :: "u64 \<Rightarrow> nat \<Rightarrow> bytes list \<Rightarrow> bool" where
  "lens_ok t i [] = True"
| "lens_ok t i (s # ss) = (length s = seg_len t i \<and> lens_ok t (Suc i) ss)"

definition sealed :: "crypto \<Rightarrow> object_key \<Rightarrow> u64 \<Rightarrow> nat \<Rightarrow> bytes \<Rightarrow> bytes" where
  "sealed c k t i s = (case cr_enc c (ok_key k) (nonce k (word_of_nat i)) (aad (word_of_nat i) t) s of
     None \<Rightarrow> [] | Some ct \<Rightarrow> ct)"

fun sealed_list :: "crypto \<Rightarrow> object_key \<Rightarrow> u64 \<Rightarrow> nat \<Rightarrow> bytes list \<Rightarrow> bytes list" where
  "sealed_list c k t i [] = []"
| "sealed_list c k t i (s # ss) = sealed c k t i s # sealed_list c k t (Suc i) ss"

text \<open>How far a stream is, and its state, after \<open>i\<close> segments.\<close>

definition pos :: "u64 \<Rightarrow> nat \<Rightarrow> u64" where
  "pos t i = word_of_nat (min (i * SEGMENT_PLAINTEXT) (unat t))"

definition enc_at :: "object_key \<Rightarrow> u64 \<Rightarrow> nat \<Rightarrow> bytes \<Rightarrow> segment_encryptor" where
  "enc_at k t i fed = \<lparr>se_key = k, se_total = t, se_next = word_of_nat i,
     se_count = segment_count t, se_hasher = fed,
     se_consumed = pos t i\<rparr>"

definition dec_at :: "object_key \<Rightarrow> u64 \<Rightarrow> nat \<Rightarrow> bytes \<Rightarrow> segment_decryptor" where
  "dec_at k t i fed = \<lparr>sd_key = k, sd_total = t, sd_next = word_of_nat i,
     sd_count = segment_count t, sd_hasher = fed,
     sd_produced = pos t i\<rparr>"

lemma index_words:
  assumes "t \<le> MAX_OBJECT_PLAINTEXT" "i \<le> seg_n t"
  shows "segment_count t \<le> word_of_nat i \<longleftrightarrow> i = seg_n t"
    "word_of_nat i + 1 = segment_count t \<longleftrightarrow> Suc i = seg_n t"
    "word_of_nat i = segment_count t \<longleftrightarrow> i = seg_n t"
proof -
  have b: "i < 2 ^ 64" "Suc i < 2 ^ 64" using assms seg_n_bounds(2) [OF assms(1)] by simp_all
  have u: "unat (word_of_nat i :: u64) = i" "unat (word_of_nat (Suc i) :: u64) = Suc i"
    using b by (simp_all add: unat_of_nat del: of_nat_Suc)
  show "segment_count t \<le> word_of_nat i \<longleftrightarrow> i = seg_n t"
    using u assms by (auto simp: word_le_nat_alt seg_n_def)
  show "word_of_nat i = segment_count t \<longleftrightarrow> i = seg_n t"
    using u by (auto simp: word_unat_eq_iff seg_n_def)
  show "word_of_nat i + 1 = segment_count t \<longleftrightarrow> Suc i = seg_n t"
    using u(2) by (auto simp: word_unat_eq_iff seg_n_def add.commute)
qed

lemma pos_words:
  assumes "t \<le> MAX_OBJECT_PLAINTEXT" "i < seg_n t"
  shows "Suc i = seg_n t \<Longrightarrow> unat (t - pos t i) = seg_len t i"
    and "Suc i \<noteq> seg_n t \<Longrightarrow> seg_len t i = SEGMENT_PLAINTEXT"
    and "pos t i + word_of_nat (seg_len t i) = pos t (Suc i)"
proof -
  have "i * SEGMENT_PLAINTEXT \<le> (seg_n t - 1) * SEGMENT_PLAINTEXT"
    using assms(2) by (intro mult_le_mono1) simp
  then have le: "i * SEGMENT_PLAINTEXT \<le> unat t" using seg_n_bounds(4) [OF assms(1)] by linarith
  have u: "unat (pos t i) = i * SEGMENT_PLAINTEXT"
    using le unat_bound [of t] by (simp add: pos_def unat_of_nat del: of_nat_mult)
  have d: "unat (t - pos t i) = unat t - i * SEGMENT_PLAINTEXT"
    using u le by (subst unat_sub) (simp_all add: word_le_nat_alt)
  show "unat (t - pos t i) = seg_len t i" if "Suc i = seg_n t"
  proof -
    have "unat t \<le> i * SEGMENT_PLAINTEXT + SEGMENT_PLAINTEXT"
      using seg_n_bounds(3) [OF assms(1)] by (simp flip: that)
    then show ?thesis using le d by (auto simp: seg_len_def min_def)
  qed
  show "seg_len t i = SEGMENT_PLAINTEXT" if "Suc i \<noteq> seg_n t"
  proof -
    have "Suc i * SEGMENT_PLAINTEXT \<le> (seg_n t - 1) * SEGMENT_PLAINTEXT"
      using assms(2) that by (intro mult_le_mono1) simp
    then have "SEGMENT_PLAINTEXT + i * SEGMENT_PLAINTEXT \<le> unat t"
      using seg_n_bounds(4) [OF assms(1)] by simp
    then show ?thesis by (simp add: seg_len_def)
  qed
  have "min (i * SEGMENT_PLAINTEXT) (unat t) + seg_len t i = min (Suc i * SEGMENT_PLAINTEXT) (unat t)"
    using le by (auto simp: seg_len_def min_def)
  then show "pos t i + word_of_nat (seg_len t i) = pos t (Suc i)"
    unfolding pos_def by (metis of_nat_add)
qed

section \<open>The streams segment by segment\<close>

lemma sealed_enc:
  assumes "aead_correct c" "length s = seg_len t i"
  shows "cr_enc c (ok_key k) (nonce k (word_of_nat i)) (aad (word_of_nat i) t) s = Some (sealed c k t i s)"
    and "cr_dec c (ok_key k) (nonce k (word_of_nat i)) (aad (word_of_nat i) t) (sealed c k t i s) = Some s"
    and "length (sealed c k t i s) = length s + TAG_LEN"
proof -
  have "length s \<le> SEGMENT_PLAINTEXT" using assms(2) by (simp add: seg_len_def)
  then obtain ct where ct: "cr_enc c (ok_key k) (nonce k (word_of_nat i)) (aad (word_of_nat i) t) s = Some ct"
    "length ct = length s + TAG_LEN"
    "cr_dec c (ok_key k) (nonce k (word_of_nat i)) (aad (word_of_nat i) t) ct = Some s"
    using assms(1) unfolding aead_correct_def by blast
  then show "cr_enc c (ok_key k) (nonce k (word_of_nat i)) (aad (word_of_nat i) t) s = Some (sealed c k t i s)"
    "cr_dec c (ok_key k) (nonce k (word_of_nat i)) (aad (word_of_nat i) t) (sealed c k t i s) = Some s"
    "length (sealed c k t i s) = length s + TAG_LEN"
    by (simp_all add: sealed_def)
qed

lemma seal_step:
  assumes "aead_correct c" "t \<le> MAX_OBJECT_PLAINTEXT" "i < seg_n t" "length s = seg_len t i"
  shows "encryptor_seal c s (enc_at k t i fed) = Inr (sealed c k t i s, enc_at k t (Suc i) (fed @ s))"
  using sealed_enc(1) [OF assms(1,4), of k] index_words [OF assms(2), of i] assms(3,4)
    pos_words [OF assms(2,3)]
  by (cases "Suc i = seg_n t") (simp_all add: encryptor_seal_def enc_at_def Let_def add.commute)

lemma open_step:
  assumes "aead_correct c" "t \<le> MAX_OBJECT_PLAINTEXT" "i < seg_n t" "length s = seg_len t i"
  shows "decryptor_open c (sealed c k t i s) (dec_at k t i fed) = Inr (s, dec_at k t (Suc i) (fed @ s))"
  using sealed_enc(2) [OF assms(1,4), of k] index_words [OF assms(2), of i] assms(3,4)
    pos_words [OF assms(2,3)]
  by (cases "Suc i = seg_n t") (simp_all add: decryptor_open_def dec_at_def Let_def add.commute)

lemma open_step_inv:
  assumes "aead_tidy c" "t \<le> MAX_OBJECT_PLAINTEXT" "i \<le> seg_n t"
    and "decryptor_open c ch (dec_at k t i fed) = Inr (s, d)"
  shows "i < seg_n t \<and> length s = seg_len t i \<and> ch = sealed c k t i s
    \<and> d = dec_at k t (Suc i) (fed @ s)"
proof -
  have i: "i < seg_n t"
    using assms(3,4) index_words(1) [OF assms(2,3)]
    by (auto simp: decryptor_open_def dec_at_def split: if_splits)
  have dec: "cr_dec c (ok_key k) (nonce k (word_of_nat i)) (aad (word_of_nat i) t) ch = Some s"
    using assms(4) by (auto simp: decryptor_open_def dec_at_def Let_def split: if_splits option.splits)
  then have ch: "ch = sealed c k t i s" using assms(1) by (simp add: aead_tidy_def sealed_def)
  have "length s = seg_len t i"
    using assms(4) dec index_words(2) [OF assms(2,3)] pos_words(1,2) [OF assms(2) i]
    by (auto simp: decryptor_open_def dec_at_def Let_def split: if_splits)
  moreover from this have "d = dec_at k t (Suc i) (fed @ s)"
    using assms(4) dec pos_words(3) [OF assms(2) i]
    by (auto simp: decryptor_open_def dec_at_def Let_def add.commute split: if_splits)
  ultimately show ?thesis using i ch by blast
qed

lemma seal_segments_run:
  assumes "aead_correct c" "t \<le> MAX_OBJECT_PLAINTEXT"
  shows "i + length ss \<le> seg_n t \<Longrightarrow> lens_ok t i ss \<Longrightarrow>
    seal_segments c ss out (enc_at k t i fed)
      = Inr (out @ concat (sealed_list c k t i ss), enc_at k t (i + length ss) (fed @ concat ss))"
  by (induction ss arbitrary: i out fed) (simp_all add: seal_step assms)

lemma open_chunks_run:
  assumes "aead_correct c" "t \<le> MAX_OBJECT_PLAINTEXT"
  shows "i + length ss \<le> seg_n t \<Longrightarrow> lens_ok t i ss \<Longrightarrow>
    open_chunks c (sealed_list c k t i ss) out (dec_at k t i fed)
      = Inr (out @ concat ss, dec_at k t (i + length ss) (fed @ concat ss))"
  by (induction ss arbitrary: i out fed) (simp_all add: open_step assms)

lemma open_chunks_inv:
  assumes "aead_tidy c" "t \<le> MAX_OBJECT_PLAINTEXT"
  shows "i \<le> seg_n t \<Longrightarrow> open_chunks c chs out (dec_at k t i fed) = Inr (out', d) \<Longrightarrow>
    \<exists>ss. lens_ok t i ss \<and> i + length ss \<le> seg_n t \<and> chs = sealed_list c k t i ss
      \<and> out' = out @ concat ss \<and> d = dec_at k t (i + length ss) (fed @ concat ss)"
proof (induction chs arbitrary: i out fed)
  case Nil
  then show ?case by (intro exI [of _ "[]"]) simp
next
  case (Cons ch chs)
  then obtain s d' where s: "decryptor_open c ch (dec_at k t i fed) = Inr (s, d')"
    and rest: "open_chunks c chs (out @ s) d' = Inr (out', d)"
    by (auto simp: and_then_ok)
  have st: "i < seg_n t" "length s = seg_len t i" "ch = sealed c k t i s"
    "d' = dec_at k t (Suc i) (fed @ s)"
    using open_step_inv [OF assms Cons.prems(1) s] by blast+
  then obtain ss where "lens_ok t (Suc i) ss" "Suc i + length ss \<le> seg_n t"
    "chs = sealed_list c k t (Suc i) ss" "out' = (out @ s) @ concat ss"
    "d = dec_at k t (Suc i + length ss) ((fed @ s) @ concat ss)"
    using Cons.IH [of "Suc i" "out @ s" "fed @ s"] rest by auto
  with st show ?case by (intro exI [of _ "s # ss"]) simp
qed

section \<open>A plaintext and its segments\<close>

definition segments :: "bytes \<Rightarrow> bytes list" where
  "segments pt = (if pt = [] then [[]] else chunks SEGMENT_PLAINTEXT pt)"

lemma concat_segments [simp]: "concat (segments pt) = pt"
  by (simp add: segments_def concat_chunks)

lemma lens_ok_nth: "lens_ok t i ss \<longleftrightarrow> (\<forall>j < length ss. length (ss ! j) = seg_len t (i + j))"
proof (induction ss arbitrary: i)
  case Nil
  then show ?case by simp
next
  case (Cons s ss)
  show ?case by (auto simp: Cons less_Suc_eq_0_disj all_conj_distrib)
qed

lemma length_sealed_list [simp]: "length (sealed_list c k t i ss) = length ss"
  by (induction ss arbitrary: i) simp_all

lemma nth_sealed_list: "j < length ss \<Longrightarrow> sealed_list c k t i ss ! j = sealed c k t (i + j) (ss ! j)"
  by (induction ss arbitrary: i j) (auto simp: nth_Cons')

lemma length_concat_lens:
  "lens_ok t i ss \<Longrightarrow> length (concat ss) + min (i * SEGMENT_PLAINTEXT) (unat t)
    = min ((i + length ss) * SEGMENT_PLAINTEXT) (unat t)"
proof (induction ss arbitrary: i)
  case Nil
  then show ?case by simp
next
  case (Cons s ss)
  have "seg_len t i + min (i * SEGMENT_PLAINTEXT) (unat t) = min (Suc i * SEGMENT_PLAINTEXT) (unat t)"
    by (auto simp: seg_len_def min_def)
  then show ?case using Cons.IH [of "Suc i"] Cons.prems by simp
qed

lemma butlast_nth_ball:
  "(\<forall>x \<in> set (butlast xs). P x) \<longleftrightarrow> (\<forall>j < length xs - 1. P (xs ! j))"
  unfolding all_set_conv_all_nth by (simp add: nth_butlast)

definition complete :: "u64 \<Rightarrow> bytes list \<Rightarrow> bool" where
  "complete t ss \<longleftrightarrow> t \<le> MAX_OBJECT_PLAINTEXT \<and> lens_ok t 0 ss \<and> length ss = seg_n t"

lemma seg_mid: "complete t ss \<Longrightarrow> j < length ss - 1 \<Longrightarrow> length (ss ! j) = SEGMENT_PLAINTEXT"
  using pos_words(2) [of t j] by (simp add: lens_ok_nth complete_def)

lemma seg_ne: "complete t ss \<Longrightarrow> ss \<noteq> []"
  using seg_n_bounds(1) [of t] by (auto simp: complete_def)

lemma seg_last:
  assumes "complete t ss"
  shows "length (last ss) \<le> SEGMENT_PLAINTEXT" "t \<noteq> 0 \<Longrightarrow> last ss \<noteq> []"
proof -
  have lt: "length ss - 1 < length ss" using seg_ne [OF assms] by simp
  have "\<forall>j < length ss. length (ss ! j) = seg_len t j"
    using assms by (simp add: lens_ok_nth complete_def)
  from this [rule_format, OF lt] have l: "length (last ss) = seg_len t (length ss - 1)"
    using seg_ne [OF assms] by (simp add: last_conv_nth)
  then show "length (last ss) \<le> SEGMENT_PLAINTEXT" by (simp add: seg_len_def)
  show "last ss \<noteq> []" if "t \<noteq> 0"
  proof -
    have "(length ss - 1) * SEGMENT_PLAINTEXT < unat t"
      using seg_n_bounds(5) [OF _ that] assms by (simp add: complete_def)
    then have "0 < seg_len t (length ss - 1)" by (simp add: seg_len_def)
    then show ?thesis using l by auto
  qed
qed

lemma length_plain: "complete t ss \<Longrightarrow> length (concat ss) = unat t"
  using length_concat_lens [of t 0 ss] seg_n_bounds(3) [of t]
  by (simp add: complete_def min_def split: if_splits)

lemma segments_concat:
  assumes "complete t ss"
  shows "segments (concat ss) = ss"
proof (cases "t = 0")
  case True
  then have "length ss = 1" using assms by (simp add: seg_n_eq complete_def)
  then obtain s where s: "ss = [s]" by (auto simp: length_Suc_conv)
  then have "s = []" using length_plain [OF assms] True by simp
  with s show ?thesis by (simp add: segments_def)
next
  case False
  have "chunks SEGMENT_PLAINTEXT (concat ss) = ss"
    using seg_mid [OF assms] seg_last [OF assms] False
    by (intro chunks_concat) (auto simp: butlast_nth_ball)
  moreover have "length (concat ss) \<noteq> 0"
    using length_plain [OF assms] False by (simp only: unat_eq_0) simp
  then have "concat ss \<noteq> []" by auto
  ultimately show ?thesis by (simp only: segments_def if_False)
qed

lemma length_sealed_nth:
  assumes "complete t ss" "aead_correct c" "j < length ss"
  shows "length (sealed_list c k t 0 ss ! j) = length (ss ! j) + TAG_LEN"
  using assms sealed_enc(3) [OF assms(2), of "ss ! j" t j]
  by (simp add: nth_sealed_list lens_ok_nth complete_def)

lemma chunks_sealed:
  assumes "complete t ss" "aead_correct c"
  shows "chunks CHUNK_SIZE (concat (sealed_list c k t 0 ss)) = sealed_list c k t 0 ss"
proof (rule chunks_concat)
  let ?cs = "sealed_list c k t 0 ss"
  note ne = seg_ne [OF assms(1)]
  show "0 < CHUNK_SIZE" by simp
  show "\<forall>x \<in> set (butlast ?cs). length x = CHUNK_SIZE"
    using length_sealed_nth [OF assms] seg_mid [OF assms(1)]
    by (simp add: butlast_nth_ball SEG_chunk)
  have "length ss - 1 < length ss" using ne by (cases ss) auto
  moreover have "?cs \<noteq> []" using ne by (cases ss) auto
  ultimately have "length (last ?cs) = length (last ss) + TAG_LEN"
    using length_sealed_nth [OF assms] ne by (simp add: last_conv_nth)
  moreover have "length (last ss) + TAG_LEN \<le> CHUNK_SIZE" "0 < TAG_LEN"
    using seg_last(1) [OF assms(1)] SEG_chunk by (simp_all add: TAG_LEN_def)
  ultimately show "?cs \<noteq> [] \<longrightarrow> last ?cs \<noteq> [] \<and> length (last ?cs) \<le> CHUNK_SIZE" by auto
qed

lemma length_concat_add:
  "length xs = length ys \<Longrightarrow> \<forall>j < length xs. length (xs ! j) = length (ys ! j) + n \<Longrightarrow>
   length (concat xs) = length (concat ys) + length ys * n"
proof (induction xs ys rule: list_induct2)
  case Nil
  then show ?case by simp
next
  case (Cons x xs y ys)
  then show ?case by (simp add: All_less_Suc2)
qed

lemma length_sealed:
  assumes "complete t ss" "aead_correct c"
  shows "length (concat (sealed_list c k t 0 ss)) = unat t + seg_n t * TAG_LEN"
  using length_concat_add [of "sealed_list c k t 0 ss" ss TAG_LEN] length_sealed_nth [OF assms]
    length_plain [OF assms(1)] assms(1) by (simp add: complete_def)

lemma complete_segments:
  assumes "length pt \<le> unat MAX_OBJECT_PLAINTEXT"
  shows "complete (word_of_nat (length pt)) (segments pt)"
proof -
  let ?t = "word_of_nat (length pt) :: u64"
  have u: "unat ?t = length pt"
    using assms unat_bound [of MAX_OBJECT_PLAINTEXT] by (simp add: unat_of_nat)
  then have t: "?t \<le> MAX_OBJECT_PLAINTEXT" using assms by (simp add: word_le_nat_alt)
  have z: "?t = 0 \<longleftrightarrow> pt = []" using u by (metis length_0_conv unat_eq_0)
  have n: "length (segments pt) = seg_n ?t"
    using seg_n_eq [OF t] z u by (simp add: segments_def length_chunks)
  have "length (segments pt ! j) = seg_len ?t j" if "j < length (segments pt)" for j
  proof (cases "pt = []")
    case True
    then show ?thesis using that by (simp add: segments_def seg_len_def)
  next
    case False
    then show ?thesis using that u by (simp add: segments_def nth_chunks seg_len_def)
  qed
  then show ?thesis using t n by (simp add: complete_def lens_ok_nth)
qed

section \<open>Sealing and opening whole objects\<close>

lemma encryptor_new_at: "t \<le> MAX_OBJECT_PLAINTEXT \<Longrightarrow> encryptor_new k t = Inr (enc_at k t 0 [])"
  by (simp add: encryptor_new_def enc_at_def pos_def)

lemma decryptor_new_at: "t \<le> MAX_OBJECT_PLAINTEXT \<Longrightarrow> decryptor_new k t = Inr (dec_at k t 0 [])"
  by (simp add: decryptor_new_def dec_at_def pos_def)

lemma decryptor_finished_at:
  "t \<le> MAX_OBJECT_PLAINTEXT \<Longrightarrow> i \<le> seg_n t \<Longrightarrow> decryptor_finished (dec_at k t i fed) \<longleftrightarrow> i = seg_n t"
  using index_words(3) by (simp add: decryptor_finished_def dec_at_def)

definition object_of ::
    "crypto \<Rightarrow> object_key \<Rightarrow> bytes \<Rightarrow> bytes \<Rightarrow> drive_object_ref" where
  "object_of c k pt the_cid = \<lparr>or_version = DRIVE_VERSION, or_cid = the_cid,
     or_key = Some (object_key_to_pb k), or_size = word_of_nat (length pt),
     or_segment_size = word_of_nat SEGMENT_PLAINTEXT, or_plaintext_hash = cr_hash c pt\<rparr>"

definition ciphertext_of :: "crypto \<Rightarrow> object_key \<Rightarrow> bytes \<Rightarrow> bytes" where
  "ciphertext_of c k pt = concat (sealed_list c k (word_of_nat (length pt)) 0 (segments pt))"

lemma length_ciphertext_of:
  assumes "aead_correct c" "length pt \<le> unat MAX_OBJECT_PLAINTEXT"
  shows "length (ciphertext_of c k pt) = length pt + seg_n (word_of_nat (length pt)) * TAG_LEN"
    and "word_of_nat (length (ciphertext_of c k pt)) = ciphertext_size (word_of_nat (length pt))"
    and "0 < length (ciphertext_of c k pt)"
    and "length (ciphertext_of c k pt) \<le> unat MAX_BLOB_SIZE"
proof -
  let ?t = "word_of_nat (length pt) :: u64"
  have c: "complete ?t (segments pt)" by (rule complete_segments [OF assms(2)])
  then have t: "?t \<le> MAX_OBJECT_PLAINTEXT" by (simp add: complete_def)
  have u: "unat ?t = length pt"
    using assms unat_bound [of MAX_OBJECT_PLAINTEXT] by (simp add: unat_of_nat)
  show l: "length (ciphertext_of c k pt) = length pt + seg_n ?t * TAG_LEN"
    using length_sealed [OF c assms(1)] u by (simp add: ciphertext_of_def)
  then show "word_of_nat (length (ciphertext_of c k pt)) = ciphertext_size ?t"
    by (simp add: ciphertext_size_def)
  show "0 < length (ciphertext_of c k pt)"
    using l seg_n_bounds(1) [OF t] by (simp add: TAG_LEN_def)
  have "length pt \<le> 4096 * SEGMENT_PLAINTEXT" using t u by (simp add: max_plaintext)
  moreover have "seg_n ?t * TAG_LEN \<le> 4096 * TAG_LEN"
    using seg_n_bounds(2) [OF t] by (intro mult_le_mono1)
  moreover have "4096 * SEGMENT_PLAINTEXT + 4096 * TAG_LEN = unat MAX_BLOB_SIZE"
    by (simp add: SEGMENT_PLAINTEXT_def TAG_LEN_def CHUNK_SIZE_def MAX_BLOB_SIZE_def)
  ultimately show "length (ciphertext_of c k pt) \<le> unat MAX_BLOB_SIZE" using l by linarith
qed

lemma seal_object_eq:
  assumes "aead_correct c" "length pt \<le> unat MAX_OBJECT_PLAINTEXT"
  obtains m where "manifest_for (cr_hash c) (ciphertext_of c k pt) ''application/octet-stream'' True = Inr m"
    "seal_object_with c pt k = Inr (ciphertext_of c k pt, object_of c k pt (cid (cr_hash c) m))"
proof -
  let ?t = "word_of_nat (length pt) :: u64"
  have c: "complete ?t (segments pt)" by (rule complete_segments [OF assms(2)])
  note len = length_ciphertext_of [OF assms, of k]
  obtain m where m: "manifest_for (cr_hash c) (ciphertext_of c k pt) ''application/octet-stream'' True = Inr m"
    using len(3,4) by (simp add: manifest_for_def)
  have "seal_segments c (segments pt) [] (enc_at k ?t 0 [])
      = Inr (ciphertext_of c k pt, enc_at k ?t (seg_n ?t) pt)"
    using seal_segments_run [OF assms(1), of ?t 0 "segments pt" "[]" k "[]"] c
    by (simp add: complete_def ciphertext_of_def)
  then have "seal_object_with c pt k = Inr (ciphertext_of c k pt, object_of c k pt (cid (cr_hash c) m))"
    using m c encryptor_new_at
    by (simp add: seal_object_with_def Let_def complete_def object_ref_def encryptor_hash_def
        enc_at_def object_of_def flip: segments_def)
  with m show ?thesis by (rule that)
qed

lemma open_run:
  assumes "aead_correct c" "length pt \<le> unat MAX_OBJECT_PLAINTEXT"
  shows "open_chunks c (chunks CHUNK_SIZE (ciphertext_of c k pt)) [] (dec_at k (word_of_nat (length pt)) 0 [])
    = Inr (pt, dec_at k (word_of_nat (length pt)) (seg_n (word_of_nat (length pt))) pt)"
proof -
  let ?t = "word_of_nat (length pt) :: u64"
  have c: "complete ?t (segments pt)" by (rule complete_segments [OF assms(2)])
  have "open_chunks c (sealed_list c k ?t 0 (segments pt)) [] (dec_at k ?t 0 [])
      = Inr (pt, dec_at k ?t (seg_n ?t) pt)"
    using open_chunks_run [OF assms(1), of ?t 0 "segments pt" k "[]" "[]"] c
    by (simp add: complete_def)
  then show ?thesis using chunks_sealed [OF c assms(1)] by (simp add: ciphertext_of_def)
qed

lemma segments_of_ciphertext:
  assumes "aead_correct c" "length pt \<le> unat MAX_OBJECT_PLAINTEXT"
  shows "segment_count_for_ciphertext (word_of_nat (length (ciphertext_of c k pt)))
    = segment_count (word_of_nat (length pt))"
proof -
  let ?ct = "ciphertext_of c k pt" and ?t = "word_of_nat (length pt) :: u64"
  have c: "complete ?t (segments pt)" by (rule complete_segments [OF assms(2)])
  note len = length_ciphertext_of [OF assms, of k]
  have u: "unat (word_of_nat (length ?ct) :: u64) = length ?ct"
    by (rule unat_of_length [OF len(4)])
  have C: "unat (word_of_nat CHUNK_SIZE :: u64) = CHUNK_SIZE" by (simp add: CHUNK_SIZE_def)
  have lt: "length ?ct < 2 ^ 63" using len(4) by (simp add: MAX_BLOB_SIZE_def)
  have cs: "chunks CHUNK_SIZE ?ct = sealed_list c k ?t 0 (segments pt)"
    using chunks_sealed [OF c assms(1)] by (simp add: ciphertext_of_def)
  have "div_ceil (length ?ct) CHUNK_SIZE = seg_n ?t"
    using arg_cong [OF cs, of length] c by (simp add: length_chunks complete_def)
  then have n: "unat (div_ceil64 (word_of_nat (length ?ct)) (word_of_nat CHUNK_SIZE)) = seg_n ?t"
    using u C lt by (simp add: unat_div_ceil64)
  then have e: "div_ceil64 (word_of_nat (length ?ct)) (word_of_nat CHUNK_SIZE) = segment_count ?t"
    by (simp add: seg_n_def word_unat_eq_iff)
  moreover have "1 \<le> segment_count ?t"
    using c seg_n_bounds(1) [of ?t] by (simp add: complete_def seg_n_def word_le_nat_alt)
  ultimately show ?thesis by (simp add: segment_count_for_ciphertext_def max_def)
qed

lemma open_object_sealed:
  assumes "aead_correct c" "hash_len c"
    and "length (ok_key k) = 32" "length (ok_base_nonce k) = 24"
    and "length pt \<le> unat MAX_OBJECT_PLAINTEXT" "length x = 32"
  shows "open_object c (ciphertext_of c k pt) (object_of c k pt x) = Inr pt"
proof -
  let ?t = "word_of_nat (length pt) :: u64" and ?ct = "ciphertext_of c k pt"
  have t: "?t \<le> MAX_OBJECT_PLAINTEXT" using complete_segments [OF assms(5)] by (simp add: complete_def)
  have seg: "unat (word_of_nat SEGMENT_PLAINTEXT :: u32) = SEGMENT_PLAINTEXT"
    by (simp add: SEGMENT_PLAINTEXT_def CHUNK_SIZE_def TAG_LEN_def)
  have h: "length (cr_hash c y) = 32" for y using assms(2) by (simp add: hash_len_def)
  have v: "validate_object_ref (object_of c k pt x) = Inr ()"
    using t seg h assms(3,4,6)
    by (simp add: validate_object_ref_def object_of_def object_key_to_pb_def check_body_def
        require_hash_def)
  have key: "object_key_from_pb (object_key_to_pb k) = Inr k"
    using assms(3,4) by (simp add: object_key_from_pb_def object_key_to_pb_def)
  have fin: "decryptor_finished (dec_at k ?t (seg_n ?t) pt)"
    using decryptor_finished_at [OF t] by simp
  show ?thesis
    using v key length_ciphertext_of(2) [OF assms(1,5), of k] decryptor_new_at [OF t]
      open_run [OF assms(1,5), of k] fin
    by (simp add: open_object_def object_of_def decryptor_verify_def dec_at_def)
qed

section \<open>Properties\<close>

text \<open>
  C26. Sealing then opening a Drive object gives the plaintext back, from the reference and
  from the bare key, and the ciphertext has the announced size; for every plaintext up to the
  object bound.
\<close>

theorem drive_object_roundtrip:
  assumes "aead_correct c" "hash_len c"
    and "length (ok_key k) = 32" "length (ok_base_nonce k) = 24"
    and "length pt \<le> unat MAX_OBJECT_PLAINTEXT"
  shows "\<exists>ct r. seal_object_with c pt k = Inr (ct, r) \<and> open_object c ct r = Inr pt
    \<and> open_object_with_key c ct k = Inr pt
    \<and> word_of_nat (length ct) = ciphertext_size (or_size r) \<and> unat (or_size r) = length pt"
proof -
  let ?t = "word_of_nat (length pt) :: u64" and ?ct = "ciphertext_of c k pt"
  obtain m where seal: "seal_object_with c pt k = Inr (?ct, object_of c k pt (cid (cr_hash c) m))"
    using seal_object_eq [OF assms(1,5)] by blast
  let ?r = "object_of c k pt (cid (cr_hash c) m)"
  note len = length_ciphertext_of [OF assms(1,5), of k]
  have t: "?t \<le> MAX_OBJECT_PLAINTEXT" using complete_segments [OF assms(5)] by (simp add: complete_def)
  have u: "unat ?t = length pt"
    using assms(5) unat_bound [of MAX_OBJECT_PLAINTEXT] by (simp add: unat_of_nat)
  have fin: "decryptor_finished (dec_at k ?t (seg_n ?t) pt)"
    using decryptor_finished_at [OF t] by simp
  have "length (cid (cr_hash c) m) = 32" using assms(2) by (simp add: hash_len_def cid_def)
  then have "open_object c ?ct ?r = Inr pt" by (rule open_object_sealed [OF assms])
  moreover have "open_object_with_key c ?ct k = Inr pt"
  proof -
    let ?tags = "segment_count ?t * word_of_nat TAG_LEN :: u64"
    have ct: "word_of_nat (length ?ct) = ?t + ?tags" using len(2) by (simp add: ciphertext_size_def)
    have "seg_n ?t * TAG_LEN \<le> 4096 * TAG_LEN"
      using seg_n_bounds(2) [OF t] by (intro mult_le_mono1)
    then have "unat ?tags = seg_n ?t * TAG_LEN"
      by (simp add: seg_n_def unat_word_ariths TAG_LEN_def)
    moreover have "unat (word_of_nat (length ?ct) :: u64) = length ?ct"
      by (rule unat_of_length [OF len(4)])
    ultimately have "\<not> word_of_nat (length ?ct) < ?tags"
      using len(1) by (simp add: word_less_nat_alt)
    then show ?thesis
      using segments_of_ciphertext [OF assms(1,5), of k] ct decryptor_new_at [OF t]
        open_run [OF assms(1,5), of k] fin
      by (simp add: open_object_with_key_def Let_def)
  qed
  ultimately show ?thesis using seal len(2) u by (auto simp: object_of_def)
qed

lemma seal_object_bound:
  assumes "seal_object_with c pt k = Inr x" "length pt < 2 ^ 64"
  shows "length pt \<le> unat MAX_OBJECT_PLAINTEXT"
proof -
  have "word_of_nat (length pt) \<le> MAX_OBJECT_PLAINTEXT"
    using assms(1) by (auto simp: seal_object_with_def Let_def and_then_ok encryptor_new_def
        split: if_splits)
  then show ?thesis using assms(2) by (simp add: word_le_nat_alt unat_of_nat)
qed

text \<open>
  Every sealed segment is exactly one blob chunk: chunk \<open>i\<close> of the ciphertext is the
  encryption of segment \<open>i\<close> of the plaintext, under the nonce of \<open>i\<close>, with \<open>i\<close> and the total size
  as associated data; and there are as many chunks as announced segments.
\<close>

theorem segment_is_chunk:
  assumes "aead_correct c" "length pt < 2 ^ 64" "seal_object_with c pt k = Inr (ct, r)"
  shows "length (chunks CHUNK_SIZE ct) = unat (segment_count (or_size r))
    \<and> (\<forall>i < length (chunks CHUNK_SIZE ct).
        cr_enc c (ok_key k) (nonce k (word_of_nat i)) (aad (word_of_nat i) (or_size r))
          (take SEGMENT_PLAINTEXT (drop (i * SEGMENT_PLAINTEXT) pt)) = Some (chunks CHUNK_SIZE ct ! i))"
proof -
  let ?t = "word_of_nat (length pt) :: u64"
  have le: "length pt \<le> unat MAX_OBJECT_PLAINTEXT" by (rule seal_object_bound [OF assms(3,2)])
  have c: "complete ?t (segments pt)" by (rule complete_segments [OF le])
  obtain m where "seal_object_with c pt k = Inr (ciphertext_of c k pt, object_of c k pt (cid (cr_hash c) m))"
    using seal_object_eq [OF assms(1) le] by blast
  then have ct: "chunks CHUNK_SIZE ct = sealed_list c k ?t 0 (segments pt)" and r: "or_size r = ?t"
    using assms(3) chunks_sealed [OF c assms(1)] by (auto simp: ciphertext_of_def object_of_def)
  have n: "length (segments pt) = unat (segment_count ?t)"
    using c by (simp add: complete_def seg_n_def)
  have "segments pt ! i = take SEGMENT_PLAINTEXT (drop (i * SEGMENT_PLAINTEXT) pt)"
    if "i < length (segments pt)" for i
    using that by (cases "pt = []") (simp_all add: segments_def nth_chunks)
  moreover have "length (segments pt ! i) = seg_len ?t i" if "i < length (segments pt)" for i
    using that c by (simp add: complete_def lens_ok_nth)
  ultimately show ?thesis
    using ct r n sealed_enc(1) [OF assms(1)] by (simp add: nth_sealed_list)
qed

text \<open>
  No nonce repeats within an object: the nonces of its segments are pairwise different, and
  so is the associated data.
\<close>

theorem nonces_distinct:
  assumes "length (ok_base_nonce k) = 24"
  shows "distinct (map (\<lambda>i. nonce k (word_of_nat i)) [0..<unat (segment_count n)])
    \<and> distinct (map (\<lambda>i. aad (word_of_nat i) n) [0..<unat (segment_count n)])"
proof -
  have b: "i < 2 ^ 64" if "i < unat (segment_count n)" for i
    using that unat_bound [of "segment_count n"] by simp
  have inj: "i = j" if "i < unat (segment_count n)" "j < unat (segment_count n)"
    "(word_of_nat i :: u64) = word_of_nat j" for i j
    using that b word_of_nat_inj_below [where 'a = 64] by simp
  show ?thesis
    unfolding distinct_map
    by (auto intro!: inj_onI dest!: inj [rotated 2] nonce_inj [OF assms] aad_inj)
qed

lemma object_key_to_pb_inj: "object_key_to_pb k = object_key_to_pb k' \<Longrightarrow> k = k'"
  by (cases k, cases k') (simp add: object_key_to_pb_def)

lemma open_object_only_sealed:
  assumes "aead_correct c" "aead_tidy c" "open_object c ct r = Inr pt"
  shows "\<exists>k. or_key r = Some (object_key_to_pb k) \<and> or_size r = word_of_nat (length pt)
    \<and> unat (or_size r) = length pt \<and> length pt \<le> unat MAX_OBJECT_PLAINTEXT
    \<and> cr_hash c pt = or_plaintext_hash r \<and> ct = ciphertext_of c k pt"
proof -
  let ?t = "or_size r"
  obtain k0 k d where k0: "or_key r = Some k0" "object_key_from_pb k0 = Inr k"
    and v: "validate_object_ref r = Inr ()"
    and dec: "and_then (decryptor_new k ?t) (\<lambda>dec. open_chunks c (chunks CHUNK_SIZE ct) [] dec) = Inr (pt, d)"
    and ver: "decryptor_verify c (or_plaintext_hash r) d = Inr ()"
    using assms(3) by (auto simp: open_object_def and_then_ok split: option.splits if_splits)
  have t: "?t \<le> MAX_OBJECT_PLAINTEXT"
    using v k0 by (auto simp: validate_object_ref_def and_then_ok split: if_splits)
  have run: "open_chunks c (chunks CHUNK_SIZE ct) [] (dec_at k ?t 0 []) = Inr (pt, d)"
    using dec decryptor_new_at [OF t] by simp
  obtain ss where ss: "lens_ok ?t 0 ss" "length ss \<le> seg_n ?t"
    "chunks CHUNK_SIZE ct = sealed_list c k ?t 0 ss" "pt = concat ss"
    "d = dec_at k ?t (length ss) pt"
    using open_chunks_inv [OF assms(2) t _ run] by auto
  have "decryptor_finished d" and h: "cr_hash c pt = or_plaintext_hash r"
    using ver ss(5) by (auto simp: decryptor_verify_def dec_at_def split: if_splits)
  then have c: "complete ?t ss"
    using ss t decryptor_finished_at [OF t ss(2)] by (simp add: complete_def)
  have len: "length pt = unat ?t" using length_plain [OF c] ss(4) by simp
  then have tw: "word_of_nat (length pt) = ?t" by simp
  have le: "length pt \<le> unat MAX_OBJECT_PLAINTEXT" using t len by (simp add: word_le_nat_alt)
  have "ct = concat (chunks CHUNK_SIZE ct)" by (simp add: concat_chunks)
  then have ct: "ct = ciphertext_of c k pt"
    using ss(3,4) segments_concat [OF c] tw by (simp add: ciphertext_of_def)
  have key: "or_key r = Some (object_key_to_pb k)"
    using k0 by (auto simp: object_key_from_pb_def object_key_to_pb_def split: if_splits)
  show ?thesis using key h len tw le ct by auto
qed

text \<open>
  C27. Only sealed objects open. When a ciphertext opens under a reference, the result has the
  size and the hash the reference declares, and the ciphertext is byte for byte what sealing the
  result under the reference's key produces: a provider can neither alter, reorder, drop,
  duplicate nor truncate segments.
\<close>

theorem drive_object_authentic:
  assumes "aead_correct c" "aead_tidy c" "open_object c ct r = Inr pt"
  shows "\<exists>k r'. or_key r = Some (object_key_to_pb k) \<and> seal_object_with c pt k = Inr (ct, r')
    \<and> or_size r' = or_size r \<and> or_plaintext_hash r' = or_plaintext_hash r
    \<and> unat (or_size r) = length pt \<and> cr_hash c pt = or_plaintext_hash r"
proof -
  obtain k where k: "or_key r = Some (object_key_to_pb k)" "or_size r = word_of_nat (length pt)"
    "unat (or_size r) = length pt" "length pt \<le> unat MAX_OBJECT_PLAINTEXT"
    "cr_hash c pt = or_plaintext_hash r" "ct = ciphertext_of c k pt"
    using open_object_only_sealed [OF assms] by blast
  obtain m where "seal_object_with c pt k = Inr (ct, object_of c k pt (cid (cr_hash c) m))"
    using seal_object_eq [OF assms(1) k(4)] k(6) by metis
  then show ?thesis using k by (auto simp: object_of_def)
qed

text \<open>
  A reference pins its content: two different ciphertexts that open under one reference
  open to different plaintexts with the same BLAKE3 hash, so accepting an altered object needs a
  hash collision.
\<close>

theorem altered_object_is_a_collision:
  assumes "aead_correct c" "aead_tidy c"
    and "open_object c ct r = Inr pt" "open_object c ct' r = Inr pt'" "ct \<noteq> ct'"
  shows "pt \<noteq> pt' \<and> cr_hash c pt = cr_hash c pt' \<and> length pt = length pt'"
  using open_object_only_sealed [OF assms(1,2,3)] open_object_only_sealed [OF assms(1,2,4)] assms(5)
    object_key_to_pb_inj by fastforce

section \<open>Witnesses\<close>

text \<open>A transparent cipher: the tag is sixteen zero bytes.\<close>

definition wit_crypto :: crypto where
  "wit_crypto = \<lparr>cr_enc = (\<lambda>k n a m. Some (m @ replicate TAG_LEN 0)),
     cr_dec = (\<lambda>k n a ct. if length ct \<ge> TAG_LEN \<and> drop (length ct - TAG_LEN) ct = replicate TAG_LEN 0
       then Some (take (length ct - TAG_LEN) ct) else None),
     cr_hash = (\<lambda>x. replicate 32 (word_of_nat (length x)))\<rparr>"

definition wit_key :: object_key where
  "wit_key = \<lparr>ok_key = replicate 32 7, ok_base_nonce = replicate 24 9\<rparr>"

lemma wit_crypto_ok: "aead_correct wit_crypto" "aead_tidy wit_crypto" "hash_len wit_crypto"
proof -
  show "aead_correct wit_crypto" by (simp add: aead_correct_def wit_crypto_def)
  show "hash_len wit_crypto" by (simp add: hash_len_def wit_crypto_def)
  have "take n ct @ replicate TAG_LEN 0 = ct" if "drop n ct = replicate TAG_LEN 0" for n and ct :: bytes
    using that append_take_drop_id [of n ct] by simp
  then show "aead_tidy wit_crypto" by (auto simp: aead_tidy_def wit_crypto_def)
qed

theorem drive_object_roundtrip_witness:
  "\<exists>ct r. seal_object_with wit_crypto [1, 2, 3] wit_key = Inr (ct, r)
    \<and> open_object wit_crypto ct r = Inr [1, 2, 3]"
proof -
  have "length ([1, 2, 3] :: bytes) \<le> unat MAX_OBJECT_PLAINTEXT"
    by (simp add: MAX_OBJECT_PLAINTEXT_def)
  then show ?thesis
    using drive_object_roundtrip [OF wit_crypto_ok(1,3), of wit_key "[1, 2, 3]"]
    by (auto simp: wit_key_def)
qed

lemma wit_object:
  obtains r where "seal_object_with wit_crypto [1, 2, 3] wit_key
      = Inr (ciphertext_of wit_crypto wit_key [1, 2, 3], r)"
  by (rule seal_object_eq [OF wit_crypto_ok(1), of "[1, 2, 3]" wit_key])
    (simp_all add: MAX_OBJECT_PLAINTEXT_def)

theorem segment_is_chunk_witness:
  "\<exists>ct r. seal_object_with wit_crypto [1, 2, 3] wit_key = Inr (ct, r)
    \<and> length (chunks CHUNK_SIZE ct) = unat (segment_count (or_size r))"
proof -
  obtain r where "seal_object_with wit_crypto [1, 2, 3] wit_key
      = Inr (ciphertext_of wit_crypto wit_key [1, 2, 3], r)" by (rule wit_object)
  with segment_is_chunk [OF wit_crypto_ok(1) _ this] show ?thesis by auto
qed

theorem nonces_distinct_witness:
  "distinct (map (\<lambda>i. nonce wit_key (word_of_nat i)) [0..<unat (segment_count 0)])"
  using nonces_distinct [of wit_key 0] by (simp add: wit_key_def)

lemma wit_open:
  "length pt < 100 \<Longrightarrow> open_object wit_crypto (ciphertext_of wit_crypto wit_key pt)
     (object_of wit_crypto wit_key pt (replicate 32 0)) = Inr pt"
  by (rule open_object_sealed [OF wit_crypto_ok(1,3)])
    (simp_all add: wit_key_def MAX_OBJECT_PLAINTEXT_def)

theorem drive_object_authentic_witness:
  "\<exists>k r'. seal_object_with wit_crypto [1, 2, 3] k = Inr (ciphertext_of wit_crypto wit_key [1, 2, 3], r')"
  using drive_object_authentic [OF wit_crypto_ok(1,2) wit_open [of "[1, 2, 3]"]] by auto

theorem altered_object_is_a_collision_witness:
  "cr_hash wit_crypto [1, 2, 3] = cr_hash wit_crypto [4, 5, 6]"
proof -
  have r: "object_of wit_crypto wit_key [4, 5, 6] (replicate 32 0)
      = object_of wit_crypto wit_key [1, 2, 3] (replicate 32 0)"
    by (simp add: object_of_def wit_crypto_def)
  have a: "open_object wit_crypto (ciphertext_of wit_crypto wit_key [1, 2, 3])
      (object_of wit_crypto wit_key [1, 2, 3] (replicate 32 0)) = Inr [1, 2, 3]"
    and b: "open_object wit_crypto (ciphertext_of wit_crypto wit_key [4, 5, 6])
      (object_of wit_crypto wit_key [1, 2, 3] (replicate 32 0)) = Inr [4, 5, 6]"
    using wit_open [of "[1, 2, 3]"] wit_open [of "[4, 5, 6]"] r by simp_all
  then have "ciphertext_of wit_crypto wit_key [1, 2, 3] \<noteq> ciphertext_of wit_crypto wit_key [4, 5, 6]"
    by auto
  from altered_object_is_a_collision [OF wit_crypto_ok(1,2) a b this] show ?thesis by simp
qed

end
