(* ===== verification/Drive_Manifest.thy ===== *)
theory Drive_Manifest
  imports Drive_Object
begin

text \<open>
  The Drive tree: \<open>Manifest\<close> of \<open>hashgram-app/src/drive.rs\<close>, a flat list of entries with parent
  pointers, with every operation that changes it and the queries on it. An operation takes the
  readings of the clock it makes, in order, as a function \<open>clk\<close>, and the randomness it draws as
  an argument; it returns the changed manifest, and no error leaves a changed one. Hex encoding
  and Unicode lower-casing are library code: arguments \<open>hex\<close> and \<open>lower\<close>.
\<close>

section \<open>Data\<close>

definition MAX_VERSIONS_PER_ENTRY :: nat where "MAX_VERSIONS_PER_ENTRY = 50"
definition MAX_ENTRIES :: nat where "MAX_ENTRIES = 500000"
definition MAX_NAME :: nat where "MAX_NAME = 255"
definition MAX_MIME :: nat where "MAX_MIME = 128"
definition MAX_ATTR :: nat where "MAX_ATTR = 1024"
definition MAX_ATTRS :: nat where "MAX_ATTRS = 32"
definition MAX_TOMBSTONES :: nat where "MAX_TOMBSTONES = 10000"

definition KIND_FILE :: int where "KIND_FILE = 0"
definition KIND_FOLDER :: int where "KIND_FOLDER = 1"
definition SHARE_SNAPSHOT :: int where "SHARE_SNAPSHOT = 0"
definition SHARE_LIVE :: int where "SHARE_LIVE = 1"

record drive_version =
  dv_no :: u64
  dv_object :: "drive_object_ref option"
  dv_created_at_ms :: u64
  dv_device :: bytes
  dv_note :: string

record drive_entry =
  de_id :: bytes
  de_parent :: bytes
  de_kind :: int
  de_name :: string
  de_mime :: string
  de_size :: u64
  de_created_at_ms :: u64
  de_modified_at_ms :: u64
  de_current :: "drive_object_ref option"
  de_versions :: "drive_version list"
  de_trashed :: bool
  de_trashed_at_ms :: u64
  de_attrs :: "(string \<times> string) list"
  de_starred :: bool

definition entry_default :: drive_entry where
  "entry_default = \<lparr>de_id = [], de_parent = [], de_kind = 0, de_name = [], de_mime = [],
     de_size = 0, de_created_at_ms = 0, de_modified_at_ms = 0, de_current = None,
     de_versions = [], de_trashed = False, de_trashed_at_ms = 0, de_attrs = [],
     de_starred = False\<rparr>"

record drive_share =
  sr_id :: bytes
  sr_entry :: bytes
  sr_grantee :: string
  sr_mode :: int
  sr_permission :: int
  sr_granted_at_ms :: u64
  sr_revoked :: bool
  sr_revoked_at_ms :: u64
  sr_group :: string

record drive_tombstone =
  tb_id :: bytes
  tb_at_ms :: u64

record drive_manifest =
  dm_version :: u32
  dm_drive_id :: bytes
  dm_revision :: u64
  dm_updated_at_ms :: u64
  dm_device :: bytes
  dm_entries :: "drive_entry list"
  dm_shares :: "drive_share list"
  dm_tombstones :: "drive_tombstone list"

record drive_capability =
  dc_version :: u32
  dc_share_id :: bytes
  dc_owner :: string
  dc_entry_id :: bytes
  dc_name :: string
  dc_mime :: string
  dc_size :: u64
  dc_object :: "drive_object_ref option"
  dc_mode :: int
  dc_permission :: int
  dc_version_no :: u64
  dc_granted_at_ms :: u64
  dc_folder :: bool

record blob_ref =
  br_cid :: bytes
  br_key :: bytes
  br_nonce :: bytes
  br_mime :: string
  br_size :: u64
  br_name :: string
  br_kind :: string
  br_width :: u32
  br_height :: u32
  br_duration_ms :: u32
  br_plaintext_hash :: bytes

record drive_folder_manifest =
  fm_version :: u32
  fm_folder_id :: bytes
  fm_name :: string
  fm_revision :: u64
  fm_updated_at_ms :: u64
  fm_entries :: "drive_entry list"

type_synonym clock = "nat \<Rightarrow> u64"

section \<open>Validation\<close>

definition check_opt :: "('a \<Rightarrow> unit res) \<Rightarrow> 'a option \<Rightarrow> unit res" where
  "check_opt f x = (case x of None \<Rightarrow> Inr () | Some y \<Rightarrow> f y)"

definition validate_entry :: "drive_entry \<Rightarrow> unit res" where
  "validate_entry e = first_err (
     [require_id ''entry.id'' (de_id e),
      require_id_or_empty ''entry.parent_id'' (de_parent e),
      require_str ''entry.name'' (de_name e) MAX_NAME,
      require_str_max ''entry.mime'' (de_mime e) MAX_MIME,
      require (length (de_versions e) \<le> MAX_VERSIONS_PER_ENTRY) (Invalid ''too many versions''),
      require (length (de_attrs e) \<le> MAX_ATTRS) (Invalid ''too many attrs''),
      (if de_kind e = KIND_FILE then check_opt validate_object_ref (de_current e)
       else require (de_current e = None \<and> de_versions e = []) (Invalid ''folder with content''))]
     @ map (\<lambda>v. check_opt validate_object_ref (dv_object v)) (de_versions e))"

definition validate_share_record :: "drive_share \<Rightarrow> unit res" where
  "validate_share_record s = first_err
     [require_id ''share.share_id'' (sr_id s),
      require_id ''share.entry_id'' (sr_entry s),
      require_str ''share.grantee'' (sr_grantee s) 128]"

definition has_separator :: "string \<Rightarrow> bool" where
  "has_separator s \<longleftrightarrow> CHR ''/'' \<in> set s \<or> CHR 0x5C \<in> set s"

definition validate_capability :: "drive_capability \<Rightarrow> unit res" where
  "validate_capability c = first_err
     [check_body ''DriveCapability'' (dc_version c) CAPABILITY_VERSION,
      require_id ''capability.share_id'' (dc_share_id c),
      require_address ''capability.owner'' (dc_owner c),
      require_id ''capability.entry_id'' (dc_entry_id c),
      require_str ''capability.name'' (dc_name c) MAX_NAME,
      require (\<not> (has_separator (dc_name c) \<or> dc_name c = ''..''))
        (Invalid ''capability name contains a path separator''),
      require_str_max ''capability.mime'' (dc_mime c) MAX_MIME,
      (case dc_object c of None \<Rightarrow> Inl (Invalid ''capability has no object'')
       | Some r \<Rightarrow> validate_object_ref r)]"

text \<open>Lookup, and the parent of an id: the root's id is empty and so is a missing entry's parent.\<close>

definition find_entry :: "bytes \<Rightarrow> drive_entry list \<Rightarrow> drive_entry option" where
  "find_entry i es = find (\<lambda>e. de_id e = i) es"

definition parent_of :: "drive_entry list \<Rightarrow> bytes \<Rightarrow> bytes" where
  "parent_of es cur = (case find_entry cur es of None \<Rightarrow> [] | Some p \<Rightarrow> de_parent p)"

text \<open>The loop of \<open>check_acyclic\<close> from one entry: it fails when it has climbed more often than
  there are entries.\<close>

function climb_ok :: "drive_entry list \<Rightarrow> nat \<Rightarrow> bytes \<Rightarrow> bool" where
  "climb_ok es seen cur =
     (if cur = [] then True
      else if seen + 1 > length es then False
      else climb_ok es (seen + 1) (parent_of es cur))"
  by pat_completeness auto
termination
  by (relation "measure (\<lambda>(es, seen, cur). length es - seen)") auto

declare climb_ok.simps [simp del]

definition check_acyclic :: "drive_entry list \<Rightarrow> unit res" where
  "check_acyclic es =
     first_err (map (\<lambda>e. require (climb_ok es 0 (de_parent e)) (Invalid ''folder cycle'')) es)"

fun check_entries :: "bytes list \<Rightarrow> drive_entry list \<Rightarrow> unit res" where
  "check_entries ids [] = Inr ()"
| "check_entries ids (e # es) =
     and_then (validate_entry e) (\<lambda>_.
       if de_id e \<in> set ids then Inl (Invalid ''duplicate entry id'')
       else check_entries (de_id e # ids) es)"

definition parent_is_folder :: "drive_entry list \<Rightarrow> drive_entry \<Rightarrow> bool" where
  "parent_is_folder es e \<longleftrightarrow> de_parent e = [] \<or>
     (case find_entry (de_parent e) es of None \<Rightarrow> False | Some p \<Rightarrow> de_kind p = KIND_FOLDER)"

definition manifest_from_pb :: "drive_manifest \<Rightarrow> drive_manifest res" where
  "manifest_from_pb m =
     (let es = dm_entries m in
      and_then (first_err
        [check_body ''DriveManifest'' (dm_version m) DRIVE_VERSION,
         require_id ''drive_id'' (dm_drive_id m),
         require (length es \<le> MAX_ENTRIES) (Invalid ''too many entries''),
         check_entries [] es,
         first_err (map (\<lambda>e. require (parent_is_folder es e)
           (Invalid ''entry has a parent that is not a folder'')) es),
         first_err (map validate_share_record (dm_shares m)),
         require (length (dm_tombstones m) \<le> MAX_TOMBSTONES) (Invalid ''too many tombstones''),
         first_err (map (\<lambda>t. require_id ''tombstone.id'' (tb_id t)) (dm_tombstones m)),
         check_acyclic es])
      (\<lambda>_. Inr m))"

section \<open>Construction, lookup, bookkeeping\<close>

definition manifest_new :: "os_random \<Rightarrow> clock \<Rightarrow> bytes \<Rightarrow> drive_manifest res" where
  "manifest_new rnd clk device =
     and_then (random_id rnd) (\<lambda>i.
       Inr \<lparr>dm_version = DRIVE_VERSION, dm_drive_id = i, dm_revision = 1,
         dm_updated_at_ms = clk 0, dm_device = device, dm_entries = [], dm_shares = [],
         dm_tombstones = []\<rparr>)"

definition bump :: "u64 \<Rightarrow> bytes \<Rightarrow> drive_manifest \<Rightarrow> drive_manifest" where
  "bump now device m = m\<lparr>dm_revision := dm_revision m + 1, dm_updated_at_ms := now,
     dm_device := device\<rparr>"

definition get :: "drive_manifest \<Rightarrow> bytes \<Rightarrow> drive_entry option" where
  "get m i = find_entry i (dm_entries m)"

text \<open>\<open>get_mut\<close> followed by an update of the entry it finds, the first with the id.\<close>

fun update_first :: "('a \<Rightarrow> bool) \<Rightarrow> ('a \<Rightarrow> 'a) \<Rightarrow> 'a list \<Rightarrow> 'a list" where
  "update_first P f [] = []"
| "update_first P f (x # xs) = (if P x then f x # xs else x # update_first P f xs)"

definition update_entry ::
    "bytes \<Rightarrow> (drive_entry \<Rightarrow> drive_entry) \<Rightarrow> drive_manifest \<Rightarrow> drive_manifest" where
  "update_entry i f m = m\<lparr>dm_entries := update_first (\<lambda>e. de_id e = i) f (dm_entries m)\<rparr>"

definition get_or :: "app_error \<Rightarrow> drive_manifest \<Rightarrow> bytes \<Rightarrow> drive_entry res" where
  "get_or err m i = (case get m i of None \<Rightarrow> Inl err | Some e \<Rightarrow> Inr e)"

definition require_folder :: "drive_manifest \<Rightarrow> bytes \<Rightarrow> unit res" where
  "require_folder m i =
     (if i = [] then Inr ()
      else case get m i of
        Some e \<Rightarrow> if de_kind e = KIND_FOLDER \<and> \<not> de_trashed e then Inr ()
                  else Inl (Invalid ''parent is not an active folder'')
      | None \<Rightarrow> Inl (NotFound ''folder''))"

definition name_taken :: "drive_entry list \<Rightarrow> bytes \<Rightarrow> string \<Rightarrow> bytes \<Rightarrow> bool" where
  "name_taken es parent name except \<longleftrightarrow>
     list_ex (\<lambda>e. de_parent e = parent \<and> \<not> de_trashed e \<and> de_id e \<noteq> except
       \<and> eq_ignore_ascii_case (de_name e) name) es"

definition require_free_name :: "drive_manifest \<Rightarrow> bytes \<Rightarrow> string \<Rightarrow> bytes \<Rightarrow> unit res" where
  "require_free_name m parent name except = first_err
     [require_str ''name'' name MAX_NAME,
      require (\<not> (has_separator name \<or> name = ''.'' \<or> name = ''..''))
        (Invalid ''name contains a path separator''),
      require (\<not> name_taken (dm_entries m) parent name except) (Invalid ''an entry already exists here'')]"

end
