(* ===== verification/Drive_Ops.thy ===== *)
theory Drive_Ops
  imports Drive_Manifest
begin

text \<open>
  The operations of \<open>Manifest\<close> in \<open>hashgram-app/src/drive.rs\<close>: creation, update, rename, move,
  copy, trash, restore, permanent deletion, attributes, sharing, and the queries. The loop of
  \<open>mv\<close> that climbs from the new parent has no bound in the code; here it is a partial function,
  so \<open>mv\<close> returns \<open>None\<close> when the loop does not end.
\<close>

section \<open>Creating and updating\<close>

definition mkdir :: "os_random \<Rightarrow> clock \<Rightarrow> bytes \<Rightarrow> string \<Rightarrow> bytes \<Rightarrow> drive_manifest \<Rightarrow>
    (bytes \<times> drive_manifest) res" where
  "mkdir rnd clk parent name device m =
     and_then (require_folder m parent) (\<lambda>_.
     and_then (require_free_name m parent name []) (\<lambda>_.
     if length (dm_entries m) \<ge> MAX_ENTRIES then Inl (Invalid ''drive is full (entry limit)'')
     else and_then (random_id rnd) (\<lambda>i.
       let t = clk 0;
           e = entry_default\<lparr>de_id := i, de_parent := parent, de_kind := KIND_FOLDER,
                 de_name := name, de_created_at_ms := t, de_modified_at_ms := t\<rparr>
       in Inr (i, bump (clk 1) device (m\<lparr>dm_entries := dm_entries m @ [e]\<rparr>)))))"

definition add_file :: "os_random \<Rightarrow> clock \<Rightarrow> bytes \<Rightarrow> string \<Rightarrow> string \<Rightarrow> drive_object_ref \<Rightarrow>
    bytes \<Rightarrow> drive_manifest \<Rightarrow> (bytes \<times> drive_manifest) res" where
  "add_file rnd clk parent name mime obj device m =
     and_then (require_folder m parent) (\<lambda>_.
     and_then (require_free_name m parent name []) (\<lambda>_.
     and_then (require_str_max ''mime'' mime MAX_MIME) (\<lambda>_.
     and_then (validate_object_ref obj) (\<lambda>_.
     if length (dm_entries m) \<ge> MAX_ENTRIES then Inl (Invalid ''drive is full (entry limit)'')
     else and_then (random_id rnd) (\<lambda>i.
       let t = clk 0;
           e = entry_default\<lparr>de_id := i, de_parent := parent, de_kind := KIND_FILE,
                 de_name := name, de_mime := mime, de_size := or_size obj,
                 de_created_at_ms := t, de_modified_at_ms := t, de_current := Some obj\<rparr>
       in Inr (i, bump (clk 1) device (m\<lparr>dm_entries := dm_entries m @ [e]\<rparr>)))))))"

definition last_version_no :: "drive_entry \<Rightarrow> u64" where
  "last_version_no e = (if de_versions e = [] then 0 else dv_no (last (de_versions e)))"

text \<open>What \<open>update_file\<close> does to the entry: the current content becomes the newest version.\<close>

definition push_version :: "bytes \<Rightarrow> string \<Rightarrow> drive_entry \<Rightarrow> drive_entry" where
  "push_version device note e =
     (case de_current e of
        None \<Rightarrow> e
      | Some prev \<Rightarrow> e\<lparr>de_current := None, de_versions :=
          evict_oldest MAX_VERSIONS_PER_ENTRY (de_versions e @
            [\<lparr>dv_no = last_version_no e + 1, dv_object = Some prev,
              dv_created_at_ms = de_modified_at_ms e, dv_device = device, dv_note = note\<rparr>])\<rparr>)"

definition update_file :: "clock \<Rightarrow> bytes \<Rightarrow> drive_object_ref \<Rightarrow> bytes \<Rightarrow> string \<Rightarrow>
    drive_manifest \<Rightarrow> (u64 \<times> drive_manifest) res" where
  "update_file clk i obj device note m =
     and_then (validate_object_ref obj) (\<lambda>_.
     and_then (require_str_max ''note'' note 256) (\<lambda>_.
     and_then (get_or (NotFound ''entry'') m i) (\<lambda>e.
       if de_kind e \<noteq> KIND_FILE then Inl (Invalid ''not a file'')
       else Inr (last_version_no e + 2,
         bump (clk 1) device (update_entry i (\<lambda>e. (push_version device note e)
           \<lparr>de_size := or_size obj, de_current := Some obj, de_modified_at_ms := clk 0\<rparr>) m)))))"

definition version_no :: "drive_manifest \<Rightarrow> bytes \<Rightarrow> u64" where
  "version_no m i = (case get m i of None \<Rightarrow> 0 | Some e \<Rightarrow> last_version_no e + 1)"

definition restore_version :: "clock \<Rightarrow> bytes \<Rightarrow> u64 \<Rightarrow> bytes \<Rightarrow> drive_manifest \<Rightarrow>
    drive_manifest res" where
  "restore_version clk i no device m =
     and_then (get_or (NotFound ''entry'') m i) (\<lambda>e.
     and_then (case find (\<lambda>v. dv_no v = no) (de_versions e) of
                 None \<Rightarrow> Inl (NotFound ''version'')
               | Some v \<Rightarrow> (case dv_object v of None \<Rightarrow> Inl (NotFound ''version'') | Some r \<Rightarrow> Inr r))
       (\<lambda>obj. and_then (update_file clk i obj device (''restored v'' @ dec_string (unat no)) m)
         (\<lambda>(_, m'). Inr m')))"

definition rename :: "clock \<Rightarrow> bytes \<Rightarrow> string \<Rightarrow> bytes \<Rightarrow> drive_manifest \<Rightarrow> drive_manifest res" where
  "rename clk i name device m =
     and_then (get_or (NotFound ''entry'') m i) (\<lambda>e.
     and_then (require_free_name m (de_parent e) name i) (\<lambda>_.
       Inr (bump (clk 1) device (update_entry i
         (\<lambda>e. e\<lparr>de_name := name, de_modified_at_ms := clk 0\<rparr>) m))))"

section \<open>Moving and copying\<close>

text \<open>The loop of \<open>mv\<close>: does climbing from \<open>cur\<close> meet \<open>i\<close> before the root?\<close>

partial_function (option) climbs_to :: "drive_entry list \<Rightarrow> bytes \<Rightarrow> bytes \<Rightarrow> bool option" where
  "climbs_to es i cur =
     (if cur = [] then Some False
      else if cur = i then Some True
      else climbs_to es i (parent_of es cur))"

definition mv :: "clock \<Rightarrow> bytes \<Rightarrow> bytes \<Rightarrow> bytes \<Rightarrow> drive_manifest \<Rightarrow>
    (drive_manifest res) option" where
  "mv clk i new_parent device m =
     (case require_folder m new_parent of
        Inl err \<Rightarrow> Some (Inl err)
      | Inr _ \<Rightarrow>
          (case climbs_to (dm_entries m) i new_parent of
             None \<Rightarrow> None
           | Some True \<Rightarrow> Some (Inl (Invalid ''cannot move a folder into itself''))
           | Some False \<Rightarrow> Some (
               and_then (get_or (NotFound ''entry'') m i) (\<lambda>e.
               and_then (require_free_name m new_parent (de_name e) i) (\<lambda>_.
                 Inr (bump (clk 1) device (update_entry i
                   (\<lambda>e. e\<lparr>de_parent := new_parent, de_modified_at_ms := clk 0\<rparr>) m)))))))"

definition copy_file :: "os_random \<Rightarrow> clock \<Rightarrow> bytes \<Rightarrow> bytes \<Rightarrow> string \<Rightarrow> bytes \<Rightarrow>
    drive_manifest \<Rightarrow> (bytes \<times> drive_manifest) res" where
  "copy_file rnd clk i new_parent name device m =
     and_then (get_or (NotFound ''entry'') m i) (\<lambda>src.
       if de_kind src \<noteq> KIND_FILE then Inl (Invalid ''only files can be copied'')
       else and_then (case de_current src of None \<Rightarrow> Inl (Invalid ''file has no content'')
                        | Some obj \<Rightarrow> Inr obj) (\<lambda>obj.
         and_then (add_file rnd clk new_parent name (de_mime src) obj device m) (\<lambda>(new_id, m').
           Inr (new_id, update_entry new_id (\<lambda>e. e\<lparr>de_attrs := de_attrs src\<rparr>) m'))))"

section \<open>Subtrees, trash and deletion\<close>

text \<open>The loop of \<open>subtree\<close>; the head of the list is the top of the stack.\<close>

function subtree_loop ::
    "drive_entry list \<Rightarrow> bytes list \<Rightarrow> bytes list \<Rightarrow> bytes list" where
  "subtree_loop es stack out =
     (case stack of
        [] \<Rightarrow> out
      | cur # rest \<Rightarrow>
          (let out' = out @ [cur];
               stack' = rev (map de_id (filter (\<lambda>e. de_parent e = cur) es)) @ rest
           in if length out' > MAX_ENTRIES then out' else subtree_loop es stack' out'))"
  by pat_completeness auto
termination
  by (relation "measure (\<lambda>(es, stack, out). MAX_ENTRIES - length out)") auto

declare subtree_loop.simps [simp del]

definition subtree :: "drive_manifest \<Rightarrow> bytes \<Rightarrow> bytes list" where
  "subtree m i = (if get m i = None then [] else subtree_loop (dm_entries m) [i] [])"

definition trash :: "clock \<Rightarrow> bytes \<Rightarrow> bytes \<Rightarrow> drive_manifest \<Rightarrow> drive_manifest res" where
  "trash clk i device m =
     (let ids = subtree m i in
      if ids = [] then Inl (NotFound ''entry'')
      else Inr (bump (clk 1) device
        (foldl (\<lambda>m i. update_entry i (\<lambda>e. e\<lparr>de_trashed := True, de_trashed_at_ms := clk 0\<rparr>) m) m ids)))"

definition restored_name :: "string \<Rightarrow> u64 \<Rightarrow> string" where
  "restored_name name now = name @ '' (restored '' @ dec_string (unat now) @ '')''"

definition parent_active :: "drive_manifest \<Rightarrow> drive_entry \<Rightarrow> bool" where
  "parent_active m e \<longleftrightarrow> de_parent e = [] \<or>
     (case get m (de_parent e) of None \<Rightarrow> False | Some p \<Rightarrow> \<not> de_trashed p)"

definition restore :: "clock \<Rightarrow> bytes \<Rightarrow> bytes \<Rightarrow> drive_manifest \<Rightarrow> drive_manifest res" where
  "restore clk i device m =
     and_then (get_or (NotFound ''entry'') m i) (\<lambda>entry.
       let parent_ok = parent_active m entry;
           m1 = foldl (\<lambda>m i. update_entry i (\<lambda>e. e\<lparr>de_trashed := False, de_trashed_at_ms := 0\<rparr>) m)
                  m (subtree m i);
           m2 = (if parent_ok then m1 else update_entry i (\<lambda>e. e\<lparr>de_parent := []\<rparr>) m1);
           name = (case get m2 i of None \<Rightarrow> [] | Some e \<Rightarrow> de_name e);
           parent = (case get m2 i of None \<Rightarrow> [] | Some e \<Rightarrow> de_parent e)
       in if \<not> is_ok (require_free_name m2 parent name i)
          then Inr (bump (clk 1) device
            (update_entry i (\<lambda>e. e\<lparr>de_name := restored_name name (clk 0)\<rparr>) m2))
          else Inr (bump (clk 0) device m2))"

text \<open>\<open>delete\<close> stamps each share it revokes with a reading of the clock of its own.\<close>

fun revoke_shares :: "clock \<Rightarrow> nat \<Rightarrow> bytes list \<Rightarrow> drive_share list \<Rightarrow> drive_share list \<times> nat" where
  "revoke_shares clk n ids [] = ([], n)"
| "revoke_shares clk n ids (s # ss) =
     (if sr_entry s \<in> set ids \<and> \<not> sr_revoked s
      then (let (ss', n') = revoke_shares clk (n + 1) ids ss
            in (s\<lparr>sr_revoked := True, sr_revoked_at_ms := clk n\<rparr> # ss', n'))
      else (let (ss', n') = revoke_shares clk n ids ss in (s # ss', n')))"

text \<open>A \<open>BTreeSet\<close> of ids is iterated in order, once each.\<close>

definition sorted_ids :: "bytes list \<Rightarrow> bytes list" where
  "sorted_ids ids = map fst (foldl (\<lambda>acc i. bt_insert i () acc) [] ids)"

definition delete :: "clock \<Rightarrow> bytes \<Rightarrow> bytes \<Rightarrow> drive_manifest \<Rightarrow>
    (nat \<times> drive_manifest) res" where
  "delete clk i device m =
     and_then (get_or (NotFound ''entry'') m i) (\<lambda>e.
       if \<not> de_trashed e then Inl (Invalid ''entry must be trashed before it is deleted'')
       else
         (let ids = sorted_ids (subtree m i);
              before = length (dm_entries m);
              es = filter (\<lambda>e. de_id e \<notin> set ids) (dm_entries m);
              ts = evict_oldest MAX_TOMBSTONES
                     (dm_tombstones m @ map (\<lambda>i. \<lparr>tb_id = i, tb_at_ms = clk 0\<rparr>) ids);
              (ss, n) = revoke_shares clk 1 ids (dm_shares m)
          in Inr (before - length es, bump (clk n) device
               (m\<lparr>dm_entries := es, dm_tombstones := ts, dm_shares := ss\<rparr>))))"

text \<open>\<open>clks k\<close> is the clock during the \<open>k\<close>-th deletion.\<close>

definition empty_trash_step ::
    "(nat \<Rightarrow> clock) \<Rightarrow> bytes \<Rightarrow> nat \<times> nat \<times> drive_manifest \<Rightarrow> bytes \<Rightarrow> nat \<times> nat \<times> drive_manifest" where
  "empty_trash_step clks device s r = (case s of (n, k, m) \<Rightarrow>
     if get m r \<noteq> None
     then (case delete (clks k) r device m of
             Inl _ \<Rightarrow> (n, k + 1, m)
           | Inr (d, m') \<Rightarrow> (n + d, k + 1, m'))
     else (n, k + 1, m))"

definition empty_trash :: "(nat \<Rightarrow> clock) \<Rightarrow> bytes \<Rightarrow> drive_manifest \<Rightarrow> nat \<times> drive_manifest" where
  "empty_trash clks device m =
     (let roots = map de_id (filter de_trashed (dm_entries m));
          (n, k, m') = foldl (empty_trash_step clks device) (0, 0, m) roots
      in (n, m'))"

section \<open>Stars and attributes\<close>

definition set_starred :: "clock \<Rightarrow> bytes \<Rightarrow> bool \<Rightarrow> bytes \<Rightarrow> drive_manifest \<Rightarrow>
    drive_manifest res" where
  "set_starred clk i starred device m =
     and_then (get_or (NotFound ''entry'') m i) (\<lambda>_.
       Inr (bump (clk 0) device (update_entry i (\<lambda>e. e\<lparr>de_starred := starred\<rparr>) m)))"

definition set_attr :: "clock \<Rightarrow> bytes \<Rightarrow> string \<Rightarrow> string \<Rightarrow> bytes \<Rightarrow> drive_manifest \<Rightarrow>
    drive_manifest res" where
  "set_attr clk i key val device m =
     and_then (require_str ''attr key'' key 64) (\<lambda>_.
     and_then (require_str_max ''attr value'' val MAX_ATTR) (\<lambda>_.
     and_then (get_or (NotFound ''entry'') m i) (\<lambda>e.
       if length (de_attrs e) \<ge> MAX_ATTRS \<and> map_of (de_attrs e) key = None
       then Inl (Invalid ''too many attributes'')
       else Inr (bump (clk 0) device
         (update_entry i (\<lambda>e. e\<lparr>de_attrs := bt_insert key val (de_attrs e)\<rparr>) m)))))"

section \<open>Queries\<close>

record entry_view =
  ev_id :: string
  ev_parent_id :: string
  ev_kind :: string
  ev_name :: string
  ev_mime :: string
  ev_size :: u64
  ev_created_at_ms :: u64
  ev_modified_at_ms :: u64
  ev_versions :: nat
  ev_trashed :: bool
  ev_starred :: bool
  ev_path :: string

function path_loop :: "drive_manifest \<Rightarrow> nat \<Rightarrow> bytes \<Rightarrow> string list \<Rightarrow> string list" where
  "path_loop m guard cur parts =
     (case get m cur of
        None \<Rightarrow> parts
      | Some e \<Rightarrow>
          (let parts' = parts @ [de_name e]; cur' = de_parent e; guard' = guard + 1
           in if cur' = [] \<or> guard' > 4096 then parts' else path_loop m guard' cur' parts'))"
  by pat_completeness auto
termination
  by (relation "measure (\<lambda>(m, guard, cur, parts). 4096 - guard)") auto

declare path_loop.simps [simp del]

fun join_with :: "string \<Rightarrow> string list \<Rightarrow> string" where
  "join_with sep [] = []"
| "join_with sep [x] = x"
| "join_with sep (x # y # ys) = x @ sep @ join_with sep (y # ys)"

definition path :: "drive_manifest \<Rightarrow> bytes \<Rightarrow> string" where
  "path m i = ''/'' @ join_with ''/'' (rev (path_loop m 0 i []))"

fun split_on :: "char \<Rightarrow> string \<Rightarrow> string list" where
  "split_on c [] = [[]]"
| "split_on c (x # xs) =
     (if x = c then [] # split_on c xs
      else case split_on c xs of [] \<Rightarrow> [[x]] | p # ps \<Rightarrow> (x # p) # ps)"

fun resolve_parts :: "drive_entry list \<Rightarrow> bytes \<Rightarrow> string list \<Rightarrow> bytes option" where
  "resolve_parts es parent [] = Some parent"
| "resolve_parts es parent (p # ps) =
     (case find (\<lambda>e. de_parent e = parent \<and> \<not> de_trashed e \<and> eq_ignore_ascii_case (de_name e) p) es of
        None \<Rightarrow> None
      | Some e \<Rightarrow> resolve_parts es (de_id e) ps)"

definition resolve_path :: "drive_manifest \<Rightarrow> string \<Rightarrow> bytes option" where
  "resolve_path m s =
     (case resolve_parts (dm_entries m) [] (filter (\<lambda>p. p \<noteq> []) (split_on (CHR ''/'') s)) of
        None \<Rightarrow> None
      | Some parent \<Rightarrow> if parent = [] then None else Some parent)"

definition view :: "(bytes \<Rightarrow> string) \<Rightarrow> drive_manifest \<Rightarrow> drive_entry \<Rightarrow> entry_view" where
  "view hex m e = \<lparr>ev_id = hex (de_id e), ev_parent_id = hex (de_parent e),
     ev_kind = (if de_kind e = KIND_FOLDER then ''folder'' else ''file''),
     ev_name = de_name e, ev_mime = de_mime e, ev_size = de_size e,
     ev_created_at_ms = de_created_at_ms e, ev_modified_at_ms = de_modified_at_ms e,
     ev_versions = length (de_versions e) + (if de_current e \<noteq> None then 1 else 0),
     ev_trashed = de_trashed e, ev_starred = de_starred e, ev_path = path m (de_id e)\<rparr>"

definition listed :: "drive_manifest \<Rightarrow> bytes \<Rightarrow> bool \<Rightarrow> drive_entry \<Rightarrow> bool" where
  "listed m parent trashed e \<longleftrightarrow>
     (if trashed
      then de_trashed e \<and> (de_parent e = [] \<or>
        (case get m (de_parent e) of None \<Rightarrow> True | Some p \<Rightarrow> \<not> de_trashed p))
      else de_parent e = parent \<and> \<not> de_trashed e)"

text \<open>\<open>sort_by\<close> is stable, as is \<open>sort_key\<close>.\<close>

definition list_entries :: "(bytes \<Rightarrow> string) \<Rightarrow> (string \<Rightarrow> string) \<Rightarrow> drive_manifest \<Rightarrow> bytes \<Rightarrow>
    bool \<Rightarrow> entry_view list" where
  "list_entries hex lower m parent trashed =
     sort_key (\<lambda>v. (ev_kind v \<noteq> ''folder'', lower (ev_name v)))
       (map (view hex m) (filter (listed m parent trashed) (dm_entries m)))"

definition starred :: "(bytes \<Rightarrow> string) \<Rightarrow> drive_manifest \<Rightarrow> entry_view list" where
  "starred hex m = map (view hex m) (filter (\<lambda>e. de_starred e \<and> \<not> de_trashed e) (dm_entries m))"

fun contains_str :: "string \<Rightarrow> string \<Rightarrow> bool" where
  "contains_str q s = (take (length q) s = q \<or> (case s of [] \<Rightarrow> False | _ # s' \<Rightarrow> contains_str q s'))"

declare contains_str.simps [simp del]

definition search :: "(bytes \<Rightarrow> string) \<Rightarrow> (string \<Rightarrow> string) \<Rightarrow> string \<Rightarrow> nat \<Rightarrow> drive_manifest \<Rightarrow>
    entry_view list" where
  "search hex lower query limit m =
     (let q = lower query in
      map (view hex m) (take limit
        (filter (\<lambda>e. \<not> de_trashed e \<and> contains_str q (lower (de_name e))) (dm_entries m))))"

definition used_bytes :: "drive_manifest \<Rightarrow> u64" where
  "used_bytes m =
     sum_list (map de_size (filter (\<lambda>e. \<not> de_trashed e \<and> de_kind e = KIND_FILE) (dm_entries m)))"

section \<open>Sharing\<close>

definition grant :: "os_random \<Rightarrow> clock \<Rightarrow> bytes \<Rightarrow> string \<Rightarrow> string \<Rightarrow> string \<Rightarrow> int \<Rightarrow> int \<Rightarrow>
    drive_object_ref option \<Rightarrow> bytes \<Rightarrow> drive_manifest \<Rightarrow> (drive_capability \<times> drive_manifest) res" where
  "grant rnd clk entry_id owner grantee group_hex mode permission folder_object device m =
     and_then (require_address ''owner'' owner) (\<lambda>_.
     and_then (require_str ''grantee'' grantee 128) (\<lambda>_.
     and_then (get_or (NotFound ''entry'') m entry_id) (\<lambda>e.
       if de_trashed e then Inl (Invalid ''cannot share a trashed entry'')
       else
         (let is_folder = (de_kind e = KIND_FOLDER) in
          and_then (if is_folder
              then (case folder_object of
                      None \<Rightarrow> Inl (Invalid ''a folder share needs its sealed folder manifest'')
                    | Some r \<Rightarrow> Inr r)
              else (case de_current e of None \<Rightarrow> Inl (Invalid ''file has no content'') | Some r \<Rightarrow> Inr r))
            (\<lambda>obj.
          and_then (random_id rnd) (\<lambda>share_id.
            let cap = \<lparr>dc_version = CAPABILITY_VERSION, dc_share_id = share_id, dc_owner = owner,
                  dc_entry_id = de_id e, dc_name = de_name e, dc_mime = de_mime e,
                  dc_size = de_size e, dc_object = Some obj, dc_mode = mode,
                  dc_permission = permission, dc_version_no = version_no m (de_id e),
                  dc_granted_at_ms = clk 0, dc_folder = is_folder\<rparr>
            in and_then (validate_capability cap) (\<lambda>_.
               Inr (cap, bump (clk 1) device (m\<lparr>dm_shares := dm_shares m @
                 [\<lparr>sr_id = share_id, sr_entry = de_id e, sr_grantee = grantee, sr_mode = mode,
                   sr_permission = permission, sr_granted_at_ms = clk 0, sr_revoked = False,
                   sr_revoked_at_ms = 0, sr_group = group_hex\<rparr>]\<rparr>)))))))))"

definition revoke :: "clock \<Rightarrow> bytes \<Rightarrow> bytes \<Rightarrow> drive_manifest \<Rightarrow>
    (drive_share \<times> drive_manifest) res" where
  "revoke clk share_id device m =
     (case find (\<lambda>s. sr_id s = share_id) (dm_shares m) of
        None \<Rightarrow> Inl (NotFound ''share'')
      | Some s \<Rightarrow>
          if sr_revoked s then Inl (Invalid ''share already revoked'')
          else (let upd = (\<lambda>s. s\<lparr>sr_revoked := True, sr_revoked_at_ms := clk 0\<rparr>)
            in Inr (upd s, bump (clk 1) device
                 (m\<lparr>dm_shares := update_first (\<lambda>s. sr_id s = share_id) upd (dm_shares m)\<rparr>))))"

definition live_shares_of :: "drive_manifest \<Rightarrow> bytes \<Rightarrow> drive_share list" where
  "live_shares_of m i =
     filter (\<lambda>s. sr_entry s = i \<and> \<not> sr_revoked s \<and> sr_mode s = SHARE_LIVE) (dm_shares m)"

definition has_active_shares :: "drive_manifest \<Rightarrow> bytes \<Rightarrow> bool" where
  "has_active_shares m i = list_ex (\<lambda>s. sr_entry s = i \<and> \<not> sr_revoked s) (dm_shares m)"

definition folder_manifest :: "clock \<Rightarrow> drive_manifest \<Rightarrow> bytes \<Rightarrow> drive_folder_manifest res" where
  "folder_manifest clk m folder_id =
     and_then (get_or (NotFound ''folder'') m folder_id) (\<lambda>f.
       if de_kind f \<noteq> KIND_FOLDER then Inl (Invalid ''not a folder'')
       else
         (let ids = subtree m folder_id in
          Inr \<lparr>fm_version = DRIVE_VERSION, fm_folder_id = folder_id, fm_name = de_name f,
            fm_revision = dm_revision m, fm_updated_at_ms = clk 0,
            fm_entries = map (\<lambda>e. e\<lparr>de_parent := (if de_parent e = folder_id then [] else de_parent e),
                de_versions := []\<rparr>)
              (filter (\<lambda>e. de_id e \<in> set ids \<and> de_id e \<noteq> folder_id \<and> \<not> de_trashed e)
                (dm_entries m))\<rparr>))"

end
