(* ===== verification/Drive_Inv.thy ===== *)
theory Drive_Inv
  imports Drive_Ops
begin

text \<open>
  What the operations of the Drive manifest keep and achieve. A manifest is \<open>drive_ok\<close> when
  \<open>from_pb\<close> accepts it, and \<open>trash_closed\<close> when no active entry lies in a trashed folder; the step
  relation \<open>drive_step\<close> has a rule for each operation, and both are invariants of it.
\<close>

section \<open>Reaching the root\<close>

text \<open>\<open>rooted p x\<close>: following \<open>p\<close> from \<open>x\<close> meets the empty id.\<close>

inductive rooted :: "(bytes \<Rightarrow> bytes) \<Rightarrow> bytes \<Rightarrow> bool" for p where
  rooted_Nil: "rooted p []"
| rooted_step: "rooted p (p x) \<Longrightarrow> rooted p x"

lemma rooted_iff: "x \<noteq> [] \<Longrightarrow> rooted p x \<longleftrightarrow> rooted p (p x)"
  by (auto intro: rooted.intros elim: rooted.cases)

lemma rooted_pow: "rooted p x \<longleftrightarrow> (\<exists>n. (p ^^ n) x = [])"
proof
  show "rooted p x \<Longrightarrow> \<exists>n. (p ^^ n) x = []"
  proof (induction rule: rooted.induct)
    case rooted_Nil
    then show ?case by (intro exI [of _ 0]) simp
  next
    case (rooted_step x)
    then obtain n where "(p ^^ n) (p x) = []" by blast
    then show ?case by (intro exI [of _ "Suc n"]) (simp add: funpow_swap1)
  qed
  have "(p ^^ n) x = [] \<Longrightarrow> rooted p x" for n
    by (induction n arbitrary: x) (auto intro: rooted.intros simp: funpow_swap1)
  then show "\<exists>n. (p ^^ n) x = [] \<Longrightarrow> rooted p x" by blast
qed

text \<open>The least number of steps to the root, and that no id repeats on the way.\<close>

definition depth :: "(bytes \<Rightarrow> bytes) \<Rightarrow> bytes \<Rightarrow> nat" where
  "depth p x = (LEAST n. (p ^^ n) x = [])"

lemma depth_root: "rooted p x \<Longrightarrow> (p ^^ depth p x) x = []"
  unfolding depth_def rooted_pow by (rule LeastI_ex)

lemma depth_least: "i < depth p x \<Longrightarrow> (p ^^ i) x \<noteq> []"
  unfolding depth_def by (rule not_less_Least)

lemma depth_zero [simp]: "depth p [] = 0"
  unfolding depth_def by (rule Least_eq_0) simp

lemma depth_Suc:
  assumes "rooted p x" "x \<noteq> []"
  shows "depth p x = Suc (depth p (p x))"
proof -
  obtain n where n: "(p ^^ n) x = []" using assms(1) by (auto simp: rooted_pow)
  have "depth p x = Suc (LEAST m. (p ^^ Suc m) x = [])"
    unfolding depth_def by (rule Least_Suc [of "\<lambda>n. (p ^^ n) x = []", OF n]) (simp add: assms(2))
  then show ?thesis by (simp add: depth_def funpow_swap1)
qed

lemma chain_distinct:
  assumes "rooted p x"
  shows "distinct (map (\<lambda>i. (p ^^ i) x) [0..<depth p x])"
proof -
  let ?d = "depth p x"
  have ne: "(p ^^ i) x \<noteq> (p ^^ j) x" if "i < j" "j < ?d" for i j
  proof
    assume e: "(p ^^ i) x = (p ^^ j) x"
    have i: "?d - (j - i) = (?d - j) + i" and j: "?d = (?d - j) + j" using that by simp_all
    have "(p ^^ (?d - (j - i))) x = (p ^^ (?d - j)) ((p ^^ i) x)"
      unfolding i funpow_add comp_apply ..
    also have "\<dots> = (p ^^ ((?d - j) + j)) x" unfolding e funpow_add comp_apply ..
    also have "\<dots> = (p ^^ ?d) x" using j by simp
    finally have "(p ^^ (?d - (j - i))) x = []" using depth_root [OF assms] by simp
    moreover have "?d - (j - i) < ?d" using that by linarith
    ultimately show False using depth_least by blast
  qed
  show ?thesis
    unfolding distinct_map by (auto intro!: inj_onI) (metis linorder_neqE_nat ne)
qed

section \<open>The tree as maps\<close>

definition pmap :: "drive_entry list \<Rightarrow> bytes \<Rightarrow> bytes option" where
  "pmap es = map_of (map (\<lambda>e. (de_id e, de_parent e)) es)"

definition kmap :: "drive_entry list \<Rightarrow> bytes \<Rightarrow> int option" where
  "kmap es = map_of (map (\<lambda>e. (de_id e, de_kind e)) es)"

definition shape :: "drive_entry list \<Rightarrow> (bytes \<times> bytes \<times> int) list" where
  "shape es = map (\<lambda>e. (de_id e, de_parent e, de_kind e)) es"

lemma pmap_find: "pmap es x = map_option de_parent (find_entry x es)"
  by (induction es) (auto simp: pmap_def find_entry_def)

lemma kmap_find: "kmap es x = map_option de_kind (find_entry x es)"
  by (induction es) (auto simp: kmap_def find_entry_def)

lemma parent_of_pmap: "parent_of es x = (case pmap es x of None \<Rightarrow> [] | Some p \<Rightarrow> p)"
  by (simp add: parent_of_def pmap_find split: option.splits)

lemma parent_is_folder_kmap:
  "parent_is_folder es e \<longleftrightarrow> de_parent e = [] \<or> kmap es (de_parent e) = Some KIND_FOLDER"
  by (auto simp: parent_is_folder_def kmap_find split: option.splits)

lemma find_entry_Some: "find_entry x es = Some e \<Longrightarrow> e \<in> set es \<and> de_id e = x"
  by (auto simp: find_entry_def find_Some_iff)

lemma find_entry_None: "find_entry x es = None \<longleftrightarrow> x \<notin> de_id ` set es"
  by (auto simp: find_entry_def find_None_iff)

lemma find_entry_distinct:
  "distinct (map de_id es) \<Longrightarrow> e \<in> set es \<Longrightarrow> find_entry (de_id e) es = Some e"
  by (induction es) (auto simp: find_entry_def)

lemma find_entry_iff:
  "distinct (map de_id es) \<Longrightarrow> find_entry x es = Some e \<longleftrightarrow> e \<in> set es \<and> de_id e = x"
  using find_entry_Some find_entry_distinct by metis

lemma find_entry_ex:
  assumes "distinct (map de_id es)"
  shows "(\<exists>e \<in> set es. de_id e = x \<and> P e) \<longleftrightarrow>
    (case find_entry x es of None \<Rightarrow> False | Some q \<Rightarrow> P q)"
proof (cases "find_entry x es")
  case None
  then have "x \<notin> de_id ` set es" by (simp only: find_entry_None not_False_eq_True)
  then show ?thesis using None by (metis imageI option.simps(4))
next
  case (Some q)
  then show ?thesis using find_entry_iff [OF assms] by (metis option.simps(5))
qed

lemma parent_is_folder_iff:
  "distinct (map de_id es) \<Longrightarrow> parent_is_folder es e \<longleftrightarrow> de_parent e = []
    \<or> (\<exists>q \<in> set es. de_id q = de_parent e \<and> de_kind q = KIND_FOLDER)"
  by (simp only: find_entry_ex parent_is_folder_def)

text \<open>The structural half of validity: what the ids, parents and kinds must satisfy.\<close>

definition tree_ok :: "drive_entry list \<Rightarrow> bool" where
  "tree_ok es \<longleftrightarrow> distinct (map de_id es) \<and> (\<forall>e \<in> set es. de_id e \<noteq> [])
     \<and> (\<forall>e \<in> set es. parent_is_folder es e)
     \<and> (\<forall>e \<in> set es. rooted (parent_of es) (de_parent e))"

lemma tree_okD:
  assumes "tree_ok es"
  shows "distinct (map de_id es)" "e \<in> set es \<Longrightarrow> de_id e \<noteq> []"
    "e \<in> set es \<Longrightarrow> parent_is_folder es e" "e \<in> set es \<Longrightarrow> rooted (parent_of es) (de_parent e)"
  using assms by (auto simp: tree_ok_def)

lemma shape_maps:
  assumes "shape es = shape es'"
  shows "pmap es = pmap es'" "kmap es = kmap es'" "parent_of es = parent_of es'"
    "map de_id es = map de_id es'"
proof -
  have "map (\<lambda>(i, p, k). (i, p)) (shape es) = map (\<lambda>(i, p, k). (i, p)) (shape es')"
    "map (\<lambda>(i, p, k). (i, k)) (shape es) = map (\<lambda>(i, p, k). (i, k)) (shape es')"
    "map fst (shape es) = map fst (shape es')"
    using assms by simp_all
  then show "pmap es = pmap es'" "kmap es = kmap es'" "map de_id es = map de_id es'"
    by (simp_all add: shape_def pmap_def kmap_def comp_def)
  then show "parent_of es = parent_of es'" by (simp add: fun_eq_iff parent_of_pmap)
qed

lemma tree_ok_shape:
  assumes "shape es = shape es'" "tree_ok es"
  shows "tree_ok es'"
proof -
  note m = shape_maps [OF assms(1)]
  have ex: "\<exists>e0 \<in> set es. de_id e0 = de_id e \<and> de_parent e0 = de_parent e" if "e \<in> set es'" for e
  proof -
    have "(de_id e, de_parent e, de_kind e) \<in> set (shape es)"
      using that assms(1) by (auto simp: shape_def)
    then show ?thesis by (auto simp: shape_def)
  qed
  have "parent_is_folder es' e \<and> de_id e \<noteq> [] \<and> rooted (parent_of es') (de_parent e)"
    if e: "e \<in> set es'" for e
    using ex [OF e] assms(2) m by (auto simp: tree_ok_def parent_is_folder_kmap)
  then show ?thesis using assms(2) m(4) by (simp add: tree_ok_def)
qed

section \<open>Bounded climbing decides rootedness\<close>

lemma climb_ok_rooted: "climb_ok es s x \<Longrightarrow> rooted (parent_of es) x"
proof (induction es s x rule: climb_ok.induct)
  case (1 es seen cur)
  then show ?case
    by (cases "cur = []")
      (auto intro: rooted.intros simp: climb_ok.simps [of es seen cur] split: if_splits)
qed

lemma climb_ok_depth: "rooted (parent_of es) x \<Longrightarrow> s + depth (parent_of es) x \<le> length es \<Longrightarrow> climb_ok es s x"
proof (induction "depth (parent_of es) x" arbitrary: s x)
  case 0
  then have "x = []" using depth_root [of "parent_of es" x] by simp
  then show ?case by (simp add: climb_ok.simps)
next
  case (Suc d)
  then have x: "x \<noteq> []" by auto
  then have "depth (parent_of es) x = Suc (depth (parent_of es) (parent_of es x))"
    "rooted (parent_of es) (parent_of es x)"
    using Suc.prems depth_Suc rooted_iff by blast+
  then show ?case using Suc x by (subst climb_ok.simps) simp
qed

lemma parent_exists:
  assumes "tree_ok es" "parent_of es x \<noteq> []"
  shows "x \<in> de_id ` set es" "parent_of es x \<in> de_id ` set es"
proof -
  obtain e where e: "find_entry x es = Some e" "parent_of es x = de_parent e"
    using assms(2) by (auto simp: parent_of_def split: option.splits)
  then have "e \<in> set es" "de_id e = x" using find_entry_Some by blast+
  then show "x \<in> de_id ` set es" by blast
  have "parent_is_folder es e" using tree_okD(3) [OF assms(1)] \<open>e \<in> set es\<close> by blast
  then obtain q where "find_entry (parent_of es x) es = Some q"
    using e(2) assms(2) by (auto simp: parent_is_folder_def split: option.splits)
  then show "parent_of es x \<in> de_id ` set es" using find_entry_Some by (metis image_eqI)
qed

lemma depth_bound:
  assumes "tree_ok es" "e \<in> set es"
  shows "depth (parent_of es) (de_parent e) \<le> length es"
proof -
  let ?p = "parent_of es" and ?x = "de_parent e"
  let ?d = "depth ?p ?x"
  have r: "rooted ?p ?x" by (rule tree_okD(4) [OF assms])
  have x: "?x = ?p (de_id e)"
    using find_entry_distinct [OF tree_okD(1) [OF assms(1)] assms(2)] by (simp add: parent_of_def)
  have "(?p ^^ i) ?x \<in> de_id ` set es" if "i < ?d" for i
  proof -
    have "(?p ^^ i) ?x = ?p ((?p ^^ i) (de_id e))" by (simp add: x funpow_swap1)
    then show ?thesis using parent_exists(2) [OF assms(1)] depth_least [OF that] by metis
  qed
  then have "set (map (\<lambda>i. (?p ^^ i) ?x) [0..<?d]) \<subseteq> set (map de_id es)" by auto
  then have "card (set (map (\<lambda>i. (?p ^^ i) ?x) [0..<?d])) \<le> card (set (map de_id es))"
    by (intro card_mono) auto
  then show ?thesis
    using distinct_card [OF chain_distinct [OF r]] card_length [of "map de_id es"] by simp
qed

lemma climb_ok_iff_rooted:
  assumes "distinct (map de_id es)" "\<forall>e \<in> set es. de_id e \<noteq> []" "\<forall>e \<in> set es. parent_is_folder es e"
  shows "(\<forall>e \<in> set es. climb_ok es 0 (de_parent e)) \<longleftrightarrow> tree_ok es"
proof
  show "\<forall>e \<in> set es. climb_ok es 0 (de_parent e) \<Longrightarrow> tree_ok es"
    using assms climb_ok_rooted by (auto simp: tree_ok_def)
  show "tree_ok es \<Longrightarrow> \<forall>e \<in> set es. climb_ok es 0 (de_parent e)"
    using climb_ok_depth depth_bound tree_okD(4) by auto
qed

section \<open>Valid manifests\<close>

definition drive_ok :: "drive_manifest \<Rightarrow> bool" where
  "drive_ok m \<longleftrightarrow> manifest_from_pb m = Inr m"

definition entry_ok :: "drive_entry \<Rightarrow> bool" where
  "entry_ok e \<longleftrightarrow> validate_entry e = Inr ()"

definition share_ok :: "drive_share \<Rightarrow> bool" where
  "share_ok s \<longleftrightarrow> length (sr_id s) = ID_LEN \<and> length (sr_entry s) = ID_LEN \<and> sr_grantee s \<noteq> []
     \<and> length (sr_grantee s) \<le> 128 \<and> CHR 0x00 \<notin> set (sr_grantee s)"

lemma check_opt_ok [ok_simps]: "check_opt f x = Inr u \<longleftrightarrow> (\<forall>y. x = Some y \<longrightarrow> f y = Inr ())"
  by (cases x) (auto simp: check_opt_def)

lemma entry_ok_iff: "entry_ok e \<longleftrightarrow> length (de_id e) = ID_LEN
    \<and> (de_parent e = [] \<or> length (de_parent e) = ID_LEN)
    \<and> de_name e \<noteq> [] \<and> length (de_name e) \<le> MAX_NAME \<and> CHR 0x00 \<notin> set (de_name e)
    \<and> length (de_mime e) \<le> MAX_MIME \<and> CHR 0x00 \<notin> set (de_mime e)
    \<and> length (de_versions e) \<le> MAX_VERSIONS_PER_ENTRY \<and> length (de_attrs e) \<le> MAX_ATTRS
    \<and> (if de_kind e = KIND_FILE then \<forall>r. de_current e = Some r \<longrightarrow> validate_object_ref r = Inr ()
       else de_current e = None \<and> de_versions e = [])
    \<and> (\<forall>v \<in> set (de_versions e). \<forall>r. dv_object v = Some r \<longrightarrow> validate_object_ref r = Inr ())"
  by (auto simp: entry_ok_def validate_entry_def ok_simps simp del: first_err.simps)

lemma entry_ok_id: "entry_ok e \<Longrightarrow> de_id e \<noteq> []"
  by (auto simp: entry_ok_iff ID_LEN_def)

lemma check_entries_ok [ok_simps]: "check_entries ids es = Inr u \<longleftrightarrow>
    (\<forall>e \<in> set es. entry_ok e) \<and> distinct (map de_id es) \<and> set ids \<inter> de_id ` set es = {}"
  by (induction es arbitrary: ids) (auto simp: entry_ok_def ok_simps)

lemma validate_share_ok [ok_simps]: "validate_share_record s = Inr u \<longleftrightarrow> share_ok s"
  by (auto simp: validate_share_record_def share_ok_def ok_simps simp del: first_err.simps)

lemma check_acyclic_ok [ok_simps]:
  "check_acyclic es = Inr u \<longleftrightarrow> (\<forall>e \<in> set es. climb_ok es 0 (de_parent e))"
  by (simp add: check_acyclic_def ok_simps)

lemma drive_ok_iff: "drive_ok m \<longleftrightarrow> dm_version m = DRIVE_VERSION \<and> length (dm_drive_id m) = ID_LEN
    \<and> length (dm_entries m) \<le> MAX_ENTRIES \<and> (\<forall>e \<in> set (dm_entries m). entry_ok e)
    \<and> tree_ok (dm_entries m) \<and> (\<forall>s \<in> set (dm_shares m). share_ok s)
    \<and> length (dm_tombstones m) \<le> MAX_TOMBSTONES
    \<and> (\<forall>t \<in> set (dm_tombstones m). length (tb_id t) = ID_LEN)"
proof -
  have "drive_ok m \<longleftrightarrow> dm_version m = DRIVE_VERSION \<and> length (dm_drive_id m) = ID_LEN
    \<and> length (dm_entries m) \<le> MAX_ENTRIES
    \<and> ((\<forall>e \<in> set (dm_entries m). entry_ok e) \<and> distinct (map de_id (dm_entries m)))
    \<and> (\<forall>e \<in> set (dm_entries m). parent_is_folder (dm_entries m) e)
    \<and> (\<forall>s \<in> set (dm_shares m). share_ok s)
    \<and> length (dm_tombstones m) \<le> MAX_TOMBSTONES
    \<and> (\<forall>t \<in> set (dm_tombstones m). length (tb_id t) = ID_LEN)
    \<and> (\<forall>e \<in> set (dm_entries m). climb_ok (dm_entries m) 0 (de_parent e))"
    by (auto simp: drive_ok_def manifest_from_pb_def Let_def ok_simps simp del: first_err.simps)
  moreover have "tree_ok (dm_entries m) \<Longrightarrow> distinct (map de_id (dm_entries m))
      \<and> (\<forall>e \<in> set (dm_entries m). parent_is_folder (dm_entries m) e)"
    by (simp add: tree_ok_def)
  moreover have "\<forall>e \<in> set (dm_entries m). entry_ok e \<Longrightarrow> \<forall>e \<in> set (dm_entries m). de_id e \<noteq> []"
    using entry_ok_id by blast
  ultimately show ?thesis using climb_ok_iff_rooted [of "dm_entries m"] by blast
qed

text \<open>No active entry lies in a trashed folder.\<close>

definition active_ids :: "drive_entry list \<Rightarrow> bytes set" where
  "active_ids es = de_id ` {e \<in> set es. \<not> de_trashed e}"

definition trash_closed :: "drive_entry list \<Rightarrow> bool" where
  "trash_closed es \<longleftrightarrow>
     (\<forall>e \<in> set es. \<not> de_trashed e \<longrightarrow> de_parent e = [] \<or> de_parent e \<in> active_ids es)"

text \<open>A valid entry whose attributes are a proper ordered map.\<close>

definition entry_good :: "drive_entry \<Rightarrow> bool" where
  "entry_good e \<longleftrightarrow> entry_ok e \<and> bt_wf (de_attrs e)"

definition good :: "drive_manifest \<Rightarrow> bool" where
  "good m \<longleftrightarrow> drive_ok m \<and> trash_closed (dm_entries m) \<and> (\<forall>e \<in> set (dm_entries m). entry_good e)"

lemma bump_fields [simp]: "dm_entries (bump n d m) = dm_entries m" "dm_shares (bump n d m) = dm_shares m"
  "dm_tombstones (bump n d m) = dm_tombstones m" "dm_version (bump n d m) = dm_version m"
  "dm_drive_id (bump n d m) = dm_drive_id m" "dm_revision (bump n d m) = dm_revision m + 1"
  by (simp_all add: bump_def)

lemma good_bump [simp]: "good (bump n d m) = good m"
  by (simp add: good_def drive_ok_iff)

lemma goodD:
  assumes "good m"
  shows "tree_ok (dm_entries m)" "e \<in> set (dm_entries m) \<Longrightarrow> entry_good e"
    "trash_closed (dm_entries m)" "length (dm_entries m) \<le> MAX_ENTRIES"
    "distinct (map de_id (dm_entries m))"
  using assms tree_okD(1) by (auto simp: good_def drive_ok_iff)

text \<open>Replacing the entries keeps a manifest good when the new ones are.\<close>

definition entries_good :: "drive_entry list \<Rightarrow> bool" where
  "entries_good es \<longleftrightarrow> length es \<le> MAX_ENTRIES \<and> (\<forall>e \<in> set es. entry_good e) \<and> tree_ok es
     \<and> trash_closed es"

lemma good_entries: "good m \<Longrightarrow> entries_good es \<Longrightarrow> good (m\<lparr>dm_entries := es\<rparr>)"
  by (auto simp: good_def drive_ok_iff entries_good_def entry_good_def)

lemma good_entriesD: "good m \<Longrightarrow> entries_good (dm_entries m)"
  by (auto simp: good_def drive_ok_iff entries_good_def entry_good_def)

section \<open>Descendants\<close>

inductive lies_under :: "(bytes \<Rightarrow> bytes) \<Rightarrow> bytes \<Rightarrow> bytes \<Rightarrow> bool" for p i where
  under_self: "lies_under p i i"
| under_step: "lies_under p i (p x) \<Longrightarrow> x \<noteq> [] \<Longrightarrow> lies_under p i x"

lemma under_Nil: "i \<noteq> [] \<Longrightarrow> \<not> lies_under p i []"
  by (auto elim: lies_under.cases)

lemma under_iff: "x \<noteq> [] \<Longrightarrow> lies_under p i x \<longleftrightarrow> x = i \<or> lies_under p i (p x)"
  by (auto intro: lies_under.intros elim: lies_under.cases)

lemma under_depth: "lies_under p i x \<Longrightarrow> rooted p x \<Longrightarrow> depth p i \<le> depth p x"
proof (induction rule: lies_under.induct)
  case under_self
  then show ?case by simp
next
  case (under_step x)
  then show ?case using depth_Suc [of p x] rooted_iff [of x p] by simp
qed

text \<open>An id is never under its own child.\<close>

lemma no_cycle: "rooted p i \<Longrightarrow> i \<noteq> [] \<Longrightarrow> \<not> lies_under p i (p i)"
  using under_depth [of p i "p i"] depth_Suc [of p i] rooted_iff [of i p] by auto

text \<open>The climbing loop ends from a rooted id, and decides \<open>lies_under\<close>.\<close>

lemma climbs_to_rooted:
  "rooted (parent_of es) x \<Longrightarrow> i \<noteq> [] \<Longrightarrow> climbs_to es i x = Some (lies_under (parent_of es) i x)"
proof (induction rule: rooted.induct)
  case rooted_Nil
  then show ?case by (subst climbs_to.simps) (simp add: under_Nil)
next
  case (rooted_step x)
  show ?case
  proof (cases "x = []")
    case True
    then show ?thesis using rooted_step.prems by (subst climbs_to.simps) (simp add: under_Nil)
  next
    case False
    then show ?thesis using rooted_step by (subst climbs_to.simps) (auto simp: under_iff under_self)
  qed
qed

lemma rooted_entry:
  assumes "tree_ok es" "x = [] \<or> x \<in> de_id ` set es"
  shows "rooted (parent_of es) x"
proof (cases "x = []")
  case True
  then show ?thesis by (simp add: rooted_Nil)
next
  case False
  then obtain e where e: "e \<in> set es" "de_id e = x" using assms by auto
  then have "parent_of es x = de_parent e"
    using find_entry_distinct [OF tree_okD(1) [OF assms(1)]] by (auto simp: parent_of_def)
  then show ?thesis using tree_okD(4) [OF assms(1) e(1)] by (metis rooted_step)
qed

lemma parent_of_entry: "tree_ok es \<Longrightarrow> e \<in> set es \<Longrightarrow> parent_of es (de_id e) = de_parent e"
  using find_entry_distinct [OF tree_okD(1)] by (simp add: parent_of_def)

section \<open>The subtree loop\<close>

definition loop_inv :: "drive_entry list \<Rightarrow> bytes \<Rightarrow> bytes list \<Rightarrow> bytes list \<Rightarrow> bool" where
  "loop_inv es i stack out \<longleftrightarrow> distinct (out @ stack) \<and> set (out @ stack) \<subseteq> de_id ` set es
     \<and> (\<forall>x \<in> set (out @ stack). lies_under (parent_of es) i x \<and> (x = i \<or> parent_of es x \<in> set out))
     \<and> (\<forall>e \<in> set es. de_parent e \<in> set out \<longrightarrow> de_id e \<in> set (out @ stack))"

definition children :: "drive_entry list \<Rightarrow> bytes \<Rightarrow> bytes list" where
  "children es cur = map de_id (filter (\<lambda>e. de_parent e = cur) es)"

lemma loop_inv_step:
  assumes t: "tree_ok es" and inv: "loop_inv es i (cur # rest) out"
  shows "loop_inv es i (rev (children es cur) @ rest) (out @ [cur])"
proof -
  have cur: "cur \<in> de_id ` set es" "cur \<notin> set out" "lies_under (parent_of es) i cur"
    using inv by (auto simp: loop_inv_def)
  have cne: "cur \<noteq> []" using cur(1) tree_okD(2) [OF t] by auto
  have child: "x \<in> de_id ` set es" "parent_of es x = cur" "x \<noteq> []"
    if "x \<in> set (children es cur)" for x
    using that parent_of_entry [OF t] tree_okD(2) [OF t] by (auto simp: children_def)
  have new: "x \<notin> set (out @ cur # rest)" if x: "x \<in> set (children es cur)" for x
  proof
    assume old: "x \<in> set (out @ cur # rest)"
    then have "x = i \<or> parent_of es x \<in> set out" using inv by (auto simp: loop_inv_def)
    then have "x = i" using child(2) [OF x] cur(2) by auto
    then have "lies_under (parent_of es) x (parent_of es x)" using cur(3) child(2) [OF x] by simp
    then show False
      using no_cycle [OF rooted_entry [OF t]] child [OF x] by blast
  qed
  have dc: "distinct (children es cur)"
    using tree_okD(1) [OF t] by (simp add: children_def distinct_map_filter)
  have un: "lies_under (parent_of es) i x" if "x \<in> set (children es cur)" for x
    using child [OF that] cur(3) by (auto intro: under_step)
  let ?st = "rev (children es cur) @ rest" and ?out = "out @ [cur]"
  have set: "set (?out @ ?st) = set (out @ cur # rest) \<union> set (children es cur)" by auto
  have "distinct (?out @ ?st)"
  proof -
    have "distinct (out @ cur # rest)" using inv by (simp add: loop_inv_def)
    then show ?thesis using dc new by auto
  qed
  moreover have "set (?out @ ?st) \<subseteq> de_id ` set es"
    unfolding set using inv child(1) unfolding loop_inv_def by blast
  moreover have "\<forall>x \<in> set (?out @ ?st). lies_under (parent_of es) i x \<and> (x = i \<or> parent_of es x \<in> set ?out)"
  proof
    fix x assume "x \<in> set (?out @ ?st)"
    then consider "x \<in> set (out @ cur # rest)" | "x \<in> set (children es cur)" unfolding set by blast
    then show "lies_under (parent_of es) i x \<and> (x = i \<or> parent_of es x \<in> set ?out)"
    proof cases
      case 1
      then have "lies_under (parent_of es) i x \<and> (x = i \<or> parent_of es x \<in> set out)"
        using inv unfolding loop_inv_def by blast
      then show ?thesis by auto
    next
      case 2
      then show ?thesis using un child(2) by simp
    qed
  qed
  moreover have "\<forall>e \<in> set es. de_parent e \<in> set ?out \<longrightarrow> de_id e \<in> set (?out @ ?st)"
  proof (intro ballI impI)
    fix e assume e: "e \<in> set es" "de_parent e \<in> set ?out"
    then consider "de_parent e \<in> set out" | "de_parent e = cur" by auto
    then show "de_id e \<in> set (?out @ ?st)"
    proof cases
      case 1
      then show ?thesis using inv e(1) unfolding set loop_inv_def by blast
    next
      case 2
      then show ?thesis using e(1) unfolding set by (auto simp: children_def)
    qed
  qed
  ultimately show ?thesis by (simp only: loop_inv_def)
qed

lemma subtree_loop_step:
  "subtree_loop es (cur # rest) out =
     (if length (out @ [cur]) > MAX_ENTRIES then out @ [cur]
      else subtree_loop es (rev (children es cur) @ rest) (out @ [cur]))"
  by (subst subtree_loop.simps) (simp add: children_def Let_def)

lemma subtree_loop_inv:
  assumes "tree_ok es" "length es \<le> MAX_ENTRIES" "loop_inv es i stack out"
  shows "loop_inv es i [] (subtree_loop es stack out) \<and> set out \<union> set stack \<subseteq> set (subtree_loop es stack out)"
  using assms
proof (induction es stack out rule: subtree_loop.induct)
  case (1 es stack out)
  show ?case
  proof (cases stack)
    case Nil
    then show ?thesis using 1 by (simp add: subtree_loop.simps)
  next
    case (Cons cur rest)
    let ?st = "rev (children es cur) @ rest" and ?out = "out @ [cur]"
    have inv: "loop_inv es i ?st ?out" using loop_inv_step 1(2,4) Cons by blast
    have "distinct ?out" "set ?out \<subseteq> set (map de_id es)"
      using 1(4) Cons by (auto simp: loop_inv_def)
    then have "length ?out \<le> length (map de_id es)"
      by (metis card_length card_mono distinct_card finite_set order_trans)
    then have le: "\<not> length ?out > MAX_ENTRIES" using 1(3) by simp
    have "loop_inv es i [] (subtree_loop es ?st ?out) \<and> set ?out \<union> set ?st \<subseteq> set (subtree_loop es ?st ?out)"
      using 1(1) [OF Cons refl refl] le 1(2,3) inv by (simp add: children_def)
    moreover have "subtree_loop es stack out = subtree_loop es ?st ?out"
      using Cons le by (simp add: subtree_loop_step)
    ultimately show ?thesis using Cons by auto
  qed
qed

lemma under_entry: "lies_under (parent_of es) i x \<Longrightarrow> tree_ok es \<Longrightarrow> i \<in> de_id ` set es \<Longrightarrow> x \<in> de_id ` set es"
proof (induction rule: lies_under.induct)
  case under_self
  then show ?case by simp
next
  case (under_step x)
  then obtain e where "e \<in> set es" "de_id e = parent_of es x" by (metis imageE)
  then have "parent_of es x \<noteq> []" using tree_okD(2) [OF under_step.prems(1)] by metis
  then show ?case using parent_exists(1) under_step.prems by blast
qed

text \<open>The loop visits exactly the entries under \<open>i\<close>, each once.\<close>

lemma subtree_set:
  assumes t: "tree_ok (dm_entries m)" and len: "length (dm_entries m) \<le> MAX_ENTRIES"
    and i: "get m i \<noteq> None"
  shows "set (subtree m i) = {x. lies_under (parent_of (dm_entries m)) i x}" "distinct (subtree m i)"
proof -
  let ?es = "dm_entries m"
  let ?R = "subtree_loop ?es [i] []"
  have ie: "i \<in> de_id ` set ?es" using i by (auto simp: get_def find_entry_None)
  then have "loop_inv ?es i [i] []" by (auto simp: loop_inv_def intro: under_self)
  then have inv: "loop_inv ?es i [] ?R" and iR: "i \<in> set ?R"
    using subtree_loop_inv [OF t len, of i "[i]" "[]"] by auto
  have R: "subtree m i = ?R" using i by (auto simp: subtree_def)
  show "distinct (subtree m i)" using inv R by (simp add: loop_inv_def)
  have "x \<in> set ?R" if "lies_under (parent_of ?es) i x" for x
    using that
  proof (induction rule: lies_under.induct)
    case under_self
    then show ?case by (rule iR)
  next
    case (under_step x)
    then have "lies_under (parent_of ?es) i x" by (blast intro: lies_under.under_step)
    then obtain e where e: "e \<in> set ?es" "de_id e = x" using under_entry [OF _ t ie] by blast
    then show ?case using inv under_step.IH parent_of_entry [OF t e(1)] by (auto simp: loop_inv_def)
  qed
  then show "set (subtree m i) = {x. lies_under (parent_of ?es) i x}"
    using inv R by (auto simp: loop_inv_def)
qed

section \<open>Changes to the entries that keep them good\<close>

lemma update_first_map:
  "distinct (map de_id es) \<Longrightarrow>
   update_first (\<lambda>e. de_id e = i) f es = map (\<lambda>e. if de_id e = i then f e else e) es"
proof (induction es)
  case (Cons e es)
  then have "map (\<lambda>e. if de_id e = i then f e else e) es = es" if "de_id e = i"
    using that by (intro map_idI) (auto simp: image_iff)
  then show ?case using Cons by auto
qed simp

lemma entries_update:
  "distinct (map de_id (dm_entries m)) \<Longrightarrow> dm_entries (update_entry i f m)
    = map (\<lambda>e. if de_id e = i then f e else e) (dm_entries m)"
  by (simp add: update_entry_def update_first_map)

lemma update_entry_fields [simp]:
  "dm_version (update_entry i f m) = dm_version m" "dm_drive_id (update_entry i f m) = dm_drive_id m"
  "dm_shares (update_entry i f m) = dm_shares m" "dm_tombstones (update_entry i f m) = dm_tombstones m"
  "dm_revision (update_entry i f m) = dm_revision m"
  by (simp_all add: update_entry_def)

lemma update_entry_eq: "update_entry i f m = m\<lparr>dm_entries := dm_entries (update_entry i f m)\<rparr>"
  by (simp add: update_entry_def)

lemma good_update: "good m \<Longrightarrow> entries_good (dm_entries (update_entry i f m)) \<Longrightarrow> good (update_entry i f m)"
  using good_entries [of m] update_entry_eq [of i f m] by metis

text \<open>A pass that changes neither ids, parents nor kinds.\<close>

definition keeps_shape :: "(drive_entry \<Rightarrow> drive_entry) \<Rightarrow> bool" where
  "keeps_shape f \<longleftrightarrow> (\<forall>e. de_id (f e) = de_id e \<and> de_parent (f e) = de_parent e \<and> de_kind (f e) = de_kind e)"

lemma keeps_shape_if [simp]: "keeps_shape f \<Longrightarrow> keeps_shape (\<lambda>e. if P e then f e else e)"
  by (simp add: keeps_shape_def)

lemma tree_ok_map: "tree_ok es \<Longrightarrow> keeps_shape f \<Longrightarrow> tree_ok (map f es)"
  by (rule tree_ok_shape [of es]) (auto simp: shape_def keeps_shape_def)

lemma active_ids_map:
  "keeps_shape f \<Longrightarrow> active_ids (map f es) = {de_id e | e. e \<in> set es \<and> \<not> de_trashed (f e)}"
proof -
  assume k: "keeps_shape f"
  have "{e \<in> set (map f es). \<not> de_trashed e} = f ` {e \<in> set es. \<not> de_trashed (f e)}" by auto
  then show ?thesis using k by (auto simp: active_ids_def keeps_shape_def image_image)
qed

lemma trash_closed_map:
  assumes "keeps_shape f"
    and "\<And>e. e \<in> set es \<Longrightarrow> \<not> de_trashed (f e) \<Longrightarrow> de_parent e \<noteq> [] \<Longrightarrow>
      \<exists>p \<in> set es. de_id p = de_parent e \<and> \<not> de_trashed (f p)"
  shows "trash_closed (map f es)"
proof -
  have "de_parent e = [] \<or> de_parent e \<in> active_ids (map f es)"
    if "e \<in> set es" "\<not> de_trashed (f e)" for e
    using assms(2) [OF that] unfolding active_ids_map [OF assms(1)] by (metis (mono_tags, lifting) mem_Collect_eq)
  then show ?thesis using assms(1) by (auto simp: trash_closed_def keeps_shape_def)
qed

lemma trash_closedD:
  assumes "trash_closed es" "e \<in> set es" "\<not> de_trashed e" "de_parent e \<noteq> []"
  obtains p where "p \<in> set es" "de_id p = de_parent e" "\<not> de_trashed p"
  using assms by (auto simp: trash_closed_def active_ids_def)

lemma entries_good_map:
  assumes "entries_good es" "keeps_shape f" "\<And>e. e \<in> set es \<Longrightarrow> entry_good (f e)"
    and "trash_closed (map f es)"
  shows "entries_good (map f es)"
  using assms tree_ok_map by (auto simp: entries_good_def)

lemma good_update_plain:
  assumes "good m" "keeps_shape f" "\<And>e. de_trashed (f e) = de_trashed e"
    and "\<And>e. e \<in> set (dm_entries m) \<Longrightarrow> de_id e = i \<Longrightarrow> entry_good e \<Longrightarrow> entry_good (f e)"
  shows "good (update_entry i f m)"
proof (rule good_update [OF assms(1)])
  let ?g = "\<lambda>e. if de_id e = i then f e else e"
  have "trash_closed (map ?g (dm_entries m))"
  proof (rule trash_closed_map)
    show "keeps_shape ?g" using assms(2) by simp
    fix e assume e: "e \<in> set (dm_entries m)" "\<not> de_trashed (?g e)" "de_parent e \<noteq> []"
    then have "\<not> de_trashed e" using assms(3) by (simp split: if_splits)
    then obtain p where "p \<in> set (dm_entries m)" "de_id p = de_parent e" "\<not> de_trashed p"
      using trash_closedD [OF goodD(3) [OF assms(1)] e(1)] e(3) by blast
    then show "\<exists>p \<in> set (dm_entries m). de_id p = de_parent e \<and> \<not> de_trashed (?g p)"
      using assms(3) by (intro bexI [of _ p]) auto
  qed
  then show "entries_good (dm_entries (update_entry i f m))"
    using assms goodD(2,5) [OF assms(1)]
    by (simp add: entries_update entries_good_map good_entriesD)
qed

text \<open>A new entry in an active folder.\<close>

lemma tree_ok_snoc:
  assumes "tree_ok es" "de_id e \<notin> de_id ` set es" "de_id e \<noteq> []"
    and "parent_is_folder es e"
  shows "tree_ok (es @ [e])"
proof -
  let ?p = "parent_of es" and ?q = "parent_of (es @ [e])"
  have find: "find_entry x (es @ [e]) = (if x = de_id e then Some e else find_entry x es)" for x
    using assms(2) by (induction es) (auto simp: find_entry_def)
  then have q: "?q x = (if x = de_id e then de_parent e else ?p x)" for x
    by (simp add: parent_of_def)
  have in_ids: "de_parent x = [] \<or> de_parent x \<in> de_id ` set es" if "parent_is_folder es x" for x
    using that find_entry_None [of "de_parent x" es] by (auto simp: parent_is_folder_def split: option.splits)
  have r: "rooted ?p x \<Longrightarrow> x = [] \<or> x \<in> de_id ` set es \<Longrightarrow> rooted ?q x" for x
  proof (induction rule: rooted.induct)
    case rooted_Nil
    show ?case by (rule rooted.rooted_Nil)
  next
    case (rooted_step x)
    have "?p x = [] \<or> ?p x \<in> de_id ` set es" using parent_exists(2) [OF assms(1)] by blast
    then have "rooted ?q (?p x)" using rooted_step.IH by blast
    show ?case
    proof (cases "x = []")
      case True
      then show ?thesis by (simp only: rooted.rooted_Nil)
    next
      case False
      then have "x \<noteq> de_id e" using rooted_step.prems assms(2) by metis
      then have "?q x = ?p x" using q [of x] by (simp only: if_False)
      with \<open>rooted ?q (?p x)\<close> show ?thesis using rooted.rooted_step [of ?q x] by (simp only:)
    qed
  qed
  have fld: "parent_is_folder (es @ [e]) x" if "parent_is_folder es x" for x
  proof -
    have "distinct (map de_id (es @ [e]))" using assms(2) tree_okD(1) [OF assms(1)] by auto
    then show ?thesis using that tree_okD(1) [OF assms(1)] by (auto simp: parent_is_folder_iff)
  qed
  have "rooted ?q (de_parent x)" if "x \<in> set (es @ [e])" for x
  proof -
    have "parent_is_folder es x" using that assms(4) tree_okD(3) [OF assms(1)] by auto
    then have "de_parent x = [] \<or> de_parent x \<in> de_id ` set es" by (rule in_ids)
    then show ?thesis using r [OF rooted_entry [OF assms(1)]] by (simp only:)
  qed
  moreover have "\<forall>x \<in> set (es @ [e]). parent_is_folder (es @ [e]) x"
    using fld assms(4) tree_okD(3) [OF assms(1)] by simp
  moreover have "distinct (map de_id (es @ [e]))" using assms(2) tree_okD(1) [OF assms(1)] by simp
  moreover have "\<forall>x \<in> set (es @ [e]). de_id x \<noteq> []" using assms(3) tree_okD(2) [OF assms(1)] by simp
  ultimately show ?thesis unfolding tree_ok_def by blast
qed

lemma require_folder_ok:
  assumes "tree_ok (dm_entries m)"
  shows "require_folder m p = Inr u \<longleftrightarrow> p = [] \<or>
    (\<exists>e \<in> set (dm_entries m). de_id e = p \<and> de_kind e = KIND_FOLDER \<and> \<not> de_trashed e)"
  unfolding find_entry_ex [OF tree_okD(1) [OF assms]]
  by (auto simp: require_folder_def get_def split: option.splits)

lemma folder_active:
  "tree_ok (dm_entries m) \<Longrightarrow> require_folder m p = Inr () \<Longrightarrow> p = [] \<or> p \<in> active_ids (dm_entries m)"
  by (auto simp: require_folder_ok active_ids_def)

lemma good_add_entry:
  assumes g: "good m" and e: "entry_good e" "\<not> de_trashed e" "get m (de_id e) = None"
    and f: "require_folder m (de_parent e) = Inr ()" and len: "length (dm_entries m) < MAX_ENTRIES"
  shows "good (m\<lparr>dm_entries := dm_entries m @ [e]\<rparr>)"
proof (rule good_entries [OF g])
  note t = goodD(1) [OF g]
  have "parent_is_folder (dm_entries m) e"
    using f by (auto simp: require_folder_ok [OF t] parent_is_folder_iff [OF tree_okD(1) [OF t]])
  then have "tree_ok (dm_entries m @ [e])"
    using tree_ok_snoc [OF t] e entry_ok_id by (simp add: get_def find_entry_None entry_good_def)
  moreover have "trash_closed (dm_entries m @ [e])"
    using goodD(3) [OF g] folder_active [OF t f] by (auto simp: trash_closed_def active_ids_def)
  ultimately show "entries_good (dm_entries m @ [e])"
    using len e(1) goodD(2) [OF g] by (auto simp: entries_good_def)
qed

text \<open>Moving an entry below a parent that does not lie under it.\<close>

definition reparent :: "bytes \<Rightarrow> bytes \<Rightarrow> drive_entry \<Rightarrow> drive_entry" where
  "reparent i np e = (if de_id e = i then e\<lparr>de_parent := np\<rparr> else e)"

lemma reparent_fields [simp]:
  "de_id (reparent i np e) = de_id e" "de_kind (reparent i np e) = de_kind e"
  "de_trashed (reparent i np e) = de_trashed e"
  "de_parent (reparent i np e) = (if de_id e = i then np else de_parent e)"
  by (simp_all add: reparent_def)

lemma tree_ok_reparent:
  assumes t: "tree_ok es" and i: "i \<in> de_id ` set es"
    and np: "np = [] \<or> kmap es np = Some KIND_FOLDER" "\<not> lies_under (parent_of es) i np"
  shows "tree_ok (map (reparent i np) es)"
proof -
  let ?g = "reparent i np"
  let ?p = "parent_of es" and ?q = "parent_of (map ?g es)"
  have k: "kmap (map ?g es) = kmap es" by (simp add: kmap_def comp_def)
  have ids: "map de_id (map ?g es) = map de_id es" by (simp add: comp_def)
  have find: "find_entry x (map ?g es) = map_option ?g (find_entry x es)" for x
    by (induction es) (auto simp: find_entry_def)
  have q: "?q x = (if x = i then np else ?p x)" for x
  proof (cases "find_entry x es")
    case None
    then have "x \<noteq> i" using i by (auto simp: find_entry_None)
    then show ?thesis using None by (simp add: parent_of_def find)
  next
    case (Some e)
    then have "de_id e = x" using find_entry_Some by blast
    then show ?thesis using Some by (simp add: parent_of_def find)
  qed
  have in0: "i \<noteq> []" using i tree_okD(2) [OF t] by auto
  have np_ids: "np = [] \<or> np \<in> de_id ` set es"
    using np(1) find_entry_None [of np es] by (auto simp: kmap_find)
  have off: "rooted ?p x \<Longrightarrow> \<not> lies_under ?p i x \<Longrightarrow> rooted ?q x" for x
  proof (induction rule: rooted.induct)
    case rooted_Nil
    show ?case by (rule rooted.rooted_Nil)
  next
    case (rooted_step x)
    show ?case
    proof (cases "x = []")
      case True
      then show ?thesis by (simp add: rooted.rooted_Nil)
    next
      case False
      then have x: "x \<noteq> i" "\<not> lies_under ?p i (?p x)" using rooted_step.prems lies_under.intros by blast+
      then have "rooted ?q (?p x)" using rooted_step.IH by blast
      moreover have "?q x = ?p x" using q x(1) by simp
      ultimately show ?thesis using rooted.rooted_step [of ?q x] by (simp only:)
    qed
  qed
  have rnp: "rooted ?q np" using off rooted_entry [OF t np_ids] np(2) by blast
  have all: "rooted ?p x \<Longrightarrow> rooted ?q x" for x
  proof (induction rule: rooted.induct)
    case rooted_Nil
    show ?case by (rule rooted.rooted_Nil)
  next
    case (rooted_step x)
    have "?q x = np \<or> ?q x = ?p x" using q [of x] by (cases "x = i") (simp_all only: if_True if_False simp_thms)
    then have "rooted ?q (?q x)" using rnp rooted_step.IH by (elim disjE) (simp_all only:)
    then show ?case by (rule rooted.rooted_step)
  qed
  have "rooted ?q (de_parent e)" if e: "e \<in> set (map ?g es)" for e
  proof -
    obtain e0 where "e0 \<in> set es" "e = ?g e0" using e by auto
    then have "de_parent e = np \<or> de_parent e = de_parent e0" by simp
    then show ?thesis using all [OF tree_okD(4) [OF t \<open>e0 \<in> set es\<close>]] rnp by metis
  qed
  moreover have "parent_is_folder (map ?g es) e" if e: "e \<in> set (map ?g es)" for e
  proof -
    obtain e0 where "e0 \<in> set es" "e = ?g e0" using e by auto
    then have "de_parent e = np \<or> de_parent e = de_parent e0" by simp
    then show ?thesis using tree_okD(3) [OF t \<open>e0 \<in> set es\<close>] np(1)
      unfolding parent_is_folder_kmap k by metis
  qed
  moreover have "\<forall>e \<in> set (map ?g es). de_id e \<noteq> []" using tree_okD(2) [OF t] by simp
  moreover have "distinct (map de_id (map ?g es))" unfolding ids by (rule tree_okD(1) [OF t])
  ultimately show ?thesis unfolding tree_ok_def by blast
qed

text \<open>Keeping the entries of a set of ids that contains the parents of its members.\<close>

lemma tree_ok_filter:
  assumes t: "tree_ok es"
    and up: "\<And>e. e \<in> set es \<Longrightarrow> de_id e \<in> K \<Longrightarrow> de_parent e = [] \<or> de_parent e \<in> K"
  shows "tree_ok (filter (\<lambda>e. de_id e \<in> K) es)"
proof -
  let ?f = "filter (\<lambda>e. de_id e \<in> K) es"
  let ?p = "parent_of es" and ?q = "parent_of ?f"
  have find: "find_entry x ?f = (if x \<in> K then find_entry x es else None)" for x
    by (induction es) (auto simp: find_entry_def)
  have q: "?q x = (if x \<in> K then ?p x else [])" for x by (simp add: parent_of_def find)
  have all: "rooted ?p x \<Longrightarrow> rooted ?q x" for x
  proof (induction rule: rooted.induct)
    case rooted_Nil
    show ?case by (rule rooted.rooted_Nil)
  next
    case (rooted_step x)
    then show ?case using q [of x] by (metis rooted.intros)
  qed
  have "parent_is_folder ?f e" if "e \<in> set ?f" for e
  proof -
    have "parent_is_folder es e" "de_parent e = [] \<or> de_parent e \<in> K"
      using that up tree_okD(3) [OF t] by auto
    then show ?thesis by (auto simp: parent_is_folder_def find)
  qed
  then show ?thesis using tree_okD [OF t] all by (auto simp: tree_ok_def distinct_map_filter)
qed

end
