(* ===== verification/Drive_Props.thy ===== *)
theory Drive_Props
  imports Drive_Inv
begin

text \<open>
  The properties of the Drive manifest: every operation keeps it valid, permanent deletion only
  ever removes trashed entries, moving terminates and never makes a cycle, an update loses no
  content, and a share stays revoked.
\<close>

section \<open>Operations keep a manifest good\<close>

lemma require_free_name_ok [ok_simps]: "require_free_name m p n x = Inr u \<longleftrightarrow>
    n \<noteq> [] \<and> length n \<le> MAX_NAME \<and> CHR 0x00 \<notin> set n \<and> \<not> has_separator n \<and> n \<noteq> ''.'' \<and> n \<noteq> ''..''
    \<and> \<not> name_taken (dm_entries m) p n x"
  by (auto simp: require_free_name_def ok_simps simp del: first_err.simps)

lemma get_or_ok [ok_simps]: "get_or err m i = Inr e \<longleftrightarrow> get m i = Some e"
  by (auto simp: get_or_def split: option.splits)

lemma get_Some: "get m i = Some e \<Longrightarrow> e \<in> set (dm_entries m) \<and> de_id e = i"
  by (auto simp: get_def find_entry_Some)

lemma get_iff: "good m \<Longrightarrow> get m i = Some e \<longleftrightarrow> e \<in> set (dm_entries m) \<and> de_id e = i"
  using find_entry_iff [OF goodD(5)] by (simp add: get_def)

lemma KIND_neq [simp]: "KIND_FOLDER \<noteq> KIND_FILE" "KIND_FILE \<noteq> KIND_FOLDER"
  by (simp_all add: KIND_FOLDER_def KIND_FILE_def)

lemma folder_parent_ok:
  assumes "good m" "require_folder m p = Inr ()"
  shows "p = [] \<or> length p = ID_LEN"
proof -
  have "p = [] \<or> p \<in> active_ids (dm_entries m)" using folder_active [OF goodD(1)] assms by blast
  then show ?thesis using goodD(2) [OF assms(1)]
    by (auto simp: active_ids_def entry_good_def entry_ok_iff)
qed

lemma good_new_entry:
  assumes "good m" "require_folder m p = Inr ()" "require_free_name m p n [] = Inr ()"
    and "random_id rnd = Inr i" "get m i = None" "length (dm_entries m) < MAX_ENTRIES"
    and "length mime \<le> MAX_MIME" "CHR 0x00 \<notin> set mime"
    and "if k = KIND_FILE then \<forall>r. cur = Some r \<longrightarrow> validate_object_ref r = Inr () else cur = None"
  shows "good (m\<lparr>dm_entries := dm_entries m @ [entry_default\<lparr>de_id := i, de_parent := p, de_kind := k,
      de_name := n, de_mime := mime, de_size := z, de_created_at_ms := t, de_modified_at_ms := t',
      de_current := cur\<rparr>]\<rparr>)"
proof (rule good_add_entry [OF assms(1)])
  let ?e = "entry_default\<lparr>de_id := i, de_parent := p, de_kind := k, de_name := n, de_mime := mime,
    de_size := z, de_created_at_ms := t, de_modified_at_ms := t', de_current := cur\<rparr>"
  show "entry_good ?e"
    using folder_parent_ok [OF assms(1,2)] assms random_id_ok [OF assms(4)]
    by (auto simp: entry_good_def entry_ok_iff entry_default_def ok_simps)
  show "\<not> de_trashed ?e" by (simp add: entry_default_def)
  show "get m (de_id ?e) = None" using assms(5) by simp
  show "require_folder m (de_parent ?e) = Inr ()" using assms(2) by simp
  show "length (dm_entries m) < MAX_ENTRIES" by (rule assms(6))
qed

lemma good_mkdir:
  assumes "good m" "mkdir rnd clk p n d m = Inr (i, m')" "get m i = None"
  shows "good m'"
proof -
  have "good (m\<lparr>dm_entries := dm_entries m @ [entry_default\<lparr>de_id := i, de_parent := p,
      de_kind := KIND_FOLDER, de_name := n, de_mime := [], de_size := 0, de_created_at_ms := clk 0,
      de_modified_at_ms := clk 0, de_current := None\<rparr>]\<rparr>)"
    using assms by (intro good_new_entry [where rnd = rnd]) (auto simp: mkdir_def ok_simps Let_def split: if_splits)
  then show ?thesis
    using assms(2) by (auto simp: mkdir_def and_then_ok Let_def entry_default_def split: if_splits)
qed

lemma good_add_file:
  assumes "good m" "add_file rnd clk p n mime r d m = Inr (i, m')" "get m i = None"
  shows "good m'"
proof -
  have "good (m\<lparr>dm_entries := dm_entries m @ [entry_default\<lparr>de_id := i, de_parent := p,
      de_kind := KIND_FILE, de_name := n, de_mime := mime, de_size := or_size r,
      de_created_at_ms := clk 0, de_modified_at_ms := clk 0, de_current := Some r\<rparr>]\<rparr>)"
    using assms by (intro good_new_entry [where rnd = rnd]) (auto simp: add_file_def ok_simps Let_def split: if_splits)
  then show ?thesis
    using assms(2) by (auto simp: add_file_def and_then_ok Let_def split: if_splits)
qed

lemma push_version_fields [simp]:
  "de_id (push_version d n e) = de_id e" "de_parent (push_version d n e) = de_parent e"
  "de_kind (push_version d n e) = de_kind e" "de_trashed (push_version d n e) = de_trashed e"
  "de_name (push_version d n e) = de_name e" "de_mime (push_version d n e) = de_mime e"
  "de_attrs (push_version d n e) = de_attrs e"
  by (simp_all add: push_version_def split: option.splits)

lemma push_version_ok:
  assumes "entry_ok e" "de_kind e = KIND_FILE"
  shows "length (de_versions (push_version d n e)) \<le> MAX_VERSIONS_PER_ENTRY"
    and "v \<in> set (de_versions (push_version d n e)) \<Longrightarrow> dv_object v = Some r \<Longrightarrow>
      validate_object_ref r = Inr ()"
proof -
  show "length (de_versions (push_version d n e)) \<le> MAX_VERSIONS_PER_ENTRY"
    using assms length_evict_oldest
    by (auto simp: push_version_def entry_ok_iff split: option.splits)
  show "v \<in> set (de_versions (push_version d n e)) \<Longrightarrow> dv_object v = Some r \<Longrightarrow>
      validate_object_ref r = Inr ()"
    using assms set_evict_oldest [of MAX_VERSIONS_PER_ENTRY]
    by (fastforce simp: push_version_def entry_ok_iff split: option.splits)
qed

lemma good_update_file:
  assumes "good m" "update_file clk i r d note m = Inr (n, m')"
  shows "good m'"
proof -
  let ?f = "\<lambda>e. (push_version d note e)\<lparr>de_size := or_size r, de_current := Some r,
    de_modified_at_ms := clk 0\<rparr>"
  obtain e0 where e0: "get m i = Some e0" "de_kind e0 = KIND_FILE" "validate_object_ref r = Inr ()"
    and m': "m' = bump (clk 1) d (update_entry i ?f m)"
    using assms(2) by (auto simp: update_file_def and_then_ok get_or_ok split: if_splits)
  have "entry_good (?f e)" if "e \<in> set (dm_entries m)" "de_id e = i" "entry_good e" for e
  proof -
    have "e = e0" using that(1,2) e0(1) get_iff [OF assms(1)] by (metis option.inject)
    then have k: "de_kind e = KIND_FILE" using e0(2) by simp
    have "entry_ok e" using that(3) by (simp add: entry_good_def)
    note v = push_version_ok [OF this k]
    have "\<forall>v \<in> set (de_versions (push_version d note e)). \<forall>r. dv_object v = Some r
        \<longrightarrow> validate_object_ref r = Inr ()"
      using v(2) by blast
    then show ?thesis using that(3) k e0(3) v(1) by (simp add: entry_good_def entry_ok_iff)
  qed
  then have "good (update_entry i ?f m)"
    using assms(1) by (intro good_update_plain) (auto simp: keeps_shape_def)
  then show ?thesis by (simp add: m')
qed

lemma good_restore_version:
  "good m \<Longrightarrow> restore_version clk i no d m = Inr m' \<Longrightarrow> good m'"
  by (auto simp: restore_version_def and_then_ok dest: good_update_file)

lemma good_rename:
  assumes "good m" "rename clk i n d m = Inr m'"
  shows "good m'"
proof -
  let ?f = "\<lambda>e. e\<lparr>de_name := n, de_modified_at_ms := clk 0\<rparr>"
  have m': "m' = bump (clk 1) d (update_entry i ?f m)"
    and n: "n \<noteq> []" "length n \<le> MAX_NAME" "CHR 0x00 \<notin> set n"
    using assms(2) by (auto simp: rename_def ok_simps)
  have "good (update_entry i ?f m)"
    using n by (intro good_update_plain [OF assms(1)]) (auto simp: keeps_shape_def entry_good_def entry_ok_iff)
  then show ?thesis by (simp add: m')
qed

lemma good_set_starred: "good m \<Longrightarrow> set_starred clk i b d m = Inr m' \<Longrightarrow> good m'"
  by (auto simp: set_starred_def and_then_ok keeps_shape_def entry_good_def entry_ok_iff
      intro!: good_update_plain)

lemma good_set_attr:
  assumes "good m" "set_attr clk i k v d m = Inr m'"
  shows "good m'"
proof -
  let ?f = "\<lambda>e. e\<lparr>de_attrs := bt_insert k v (de_attrs e)\<rparr>"
  obtain e0 where e0: "get m i = Some e0"
    "\<not> (length (de_attrs e0) \<ge> MAX_ATTRS \<and> map_of (de_attrs e0) k = None)"
    and m': "m' = bump (clk 0) d (update_entry i ?f m)"
    using assms(2) by (auto simp: set_attr_def and_then_ok get_or_ok split: if_splits)
  have "entry_good (?f e)" if e: "e \<in> set (dm_entries m)" "de_id e = i" "entry_good e" for e
  proof -
    have "e = e0" using e(1,2) e0(1) get_iff [OF assms(1)] by (metis option.inject)
    then show ?thesis using e(3) e0(2) length_bt_insert [of "de_attrs e" k v]
      by (auto simp: entry_good_def entry_ok_iff bt_wf_insert)
  qed
  then have "good (update_entry i ?f m)"
    by (intro good_update_plain [OF assms(1)]) (auto simp: keeps_shape_def)
  then show ?thesis by (simp add: m')
qed

lemma folder_rooted:
  assumes "good m" "require_folder m p = Inr ()"
  shows "rooted (parent_of (dm_entries m)) p"
  using assms require_folder_ok [OF goodD(1) [OF assms(1)], of p "()"]
  by (intro rooted_entry [OF goodD(1) [OF assms(1)]]) auto

lemma mv_climb:
  "good m \<Longrightarrow> require_folder m p = Inr () \<Longrightarrow> i \<noteq> [] \<Longrightarrow>
   climbs_to (dm_entries m) i p = Some (lies_under (parent_of (dm_entries m)) i p)"
  by (rule climbs_to_rooted [OF folder_rooted])

lemma active_ids_same:
  assumes "\<And>e. de_id (f e) = de_id e" "\<And>e. de_trashed (f e) = de_trashed e"
  shows "active_ids (map f es) = active_ids es"
proof -
  have "{e \<in> set (map f es). \<not> de_trashed e} = f ` {e \<in> set es. \<not> de_trashed e}"
    using assms(2) by auto
  then show ?thesis by (simp add: active_ids_def image_image assms(1))
qed

lemma good_mv:
  assumes g: "good m" and mv: "mv clk i np d m = Some (Inr m')"
  shows "good m'"
proof -
  let ?es = "dm_entries m" and ?t = "clk 0"
  let ?f = "\<lambda>e. e\<lparr>de_parent := np, de_modified_at_ms := ?t\<rparr>"
  note t = goodD(1) [OF g]
  obtain e0 where f: "require_folder m np = Inr ()" and c: "climbs_to ?es i np = Some False"
    and e0: "get m i = Some e0" and m': "m' = bump (clk 1) d (update_entry i ?f m)"
    using mv by (auto simp: mv_def ok_simps split: sum.splits option.splits bool.splits)
  have ie: "i \<in> de_id ` set ?es" "i \<noteq> []" using get_Some [OF e0] tree_okD(2) [OF t] by auto
  have nu: "\<not> lies_under (parent_of ?es) i np" using mv_climb [OF g f ie(2)] c by simp
  have kf: "np = [] \<or> kmap ?es np = Some KIND_FOLDER"
    using f find_entry_distinct [OF tree_okD(1) [OF t]] unfolding require_folder_ok [OF t]
    by (auto simp: kmap_find)
  let ?g = "\<lambda>e. if de_id e = i then ?f e else e"
  have es': "dm_entries (update_entry i ?f m) = map ?g ?es" by (rule entries_update [OF goodD(5) [OF g]])
  have "shape (map (reparent i np) ?es) = shape (map ?g ?es)" by (simp add: shape_def reparent_def)
  then have tree: "tree_ok (map ?g ?es)"
    using tree_ok_shape tree_ok_reparent [OF t ie(1) kf nu] by blast
  have act: "active_ids (map ?g ?es) = active_ids ?es"
    by (rule active_ids_same) simp_all
  have "trash_closed (map ?g ?es)"
    unfolding trash_closed_def act
    using goodD(3) [OF g] folder_active [OF t f] by (auto simp: trash_closed_def)
  moreover have "\<forall>e \<in> set (map ?g ?es). entry_good e"
    using goodD(2) [OF g] folder_parent_ok [OF g f] by (auto simp: entry_good_def entry_ok_iff)
  ultimately have "entries_good (map ?g ?es)"
    using tree goodD(4) [OF g] unfolding entries_good_def by simp
  then have "good (update_entry i ?f m)" by (intro good_update [OF g]) (simp only: es')
  then show ?thesis by (simp add: m')
qed

text \<open>A pass that updates every entry of a list of ids.\<close>

lemma update_entries:
  assumes "\<And>e. de_id (f e) = de_id e" "\<And>e. f (f e) = f e"
  shows "distinct (map de_id (dm_entries m)) \<Longrightarrow>
    foldl (\<lambda>m i. update_entry i f m) m ids
      = m\<lparr>dm_entries := map (\<lambda>e. if de_id e \<in> set ids then f e else e) (dm_entries m)\<rparr>"
proof (induction ids arbitrary: m)
  case Nil
  then show ?case by simp
next
  case (Cons i ids)
  let ?m = "update_entry i f m"
  have es: "dm_entries ?m = map (\<lambda>e. if de_id e = i then f e else e) (dm_entries m)"
    by (rule entries_update [OF Cons.prems])
  have "map de_id (dm_entries ?m) = map de_id (dm_entries m)" unfolding es using assms(1) by simp
  then have "foldl (\<lambda>m i. update_entry i f m) ?m ids
      = ?m\<lparr>dm_entries := map (\<lambda>e. if de_id e \<in> set ids then f e else e) (dm_entries ?m)\<rparr>"
    using Cons.IH [of ?m] Cons.prems by simp
  moreover have "map (\<lambda>e. if de_id e \<in> set ids then f e else e) (dm_entries ?m)
      = map (\<lambda>e. if de_id e \<in> set (i # ids) then f e else e) (dm_entries m)"
    unfolding es using assms by simp
  moreover have "?m\<lparr>dm_entries := x\<rparr> = m\<lparr>dm_entries := x\<rparr>" for x by (simp add: update_entry_def)
  ultimately show ?case by simp
qed

definition set_trash :: "bool \<Rightarrow> u64 \<Rightarrow> bytes list \<Rightarrow> drive_entry \<Rightarrow> drive_entry" where
  "set_trash b t ids e =
     (if de_id e \<in> set ids then e\<lparr>de_trashed := b, de_trashed_at_ms := t\<rparr> else e)"

lemma set_trash_fields [simp]:
  "de_id (set_trash b t ids e) = de_id e" "de_parent (set_trash b t ids e) = de_parent e"
  "de_kind (set_trash b t ids e) = de_kind e" "de_name (set_trash b t ids e) = de_name e"
  "de_trashed (set_trash b t ids e) = (if de_id e \<in> set ids then b else de_trashed e)"
  "entry_good (set_trash b t ids e) = entry_good e"
  by (simp_all add: set_trash_def entry_good_def entry_ok_iff)

lemma set_trash_pass:
  "good m \<Longrightarrow> foldl (\<lambda>m i. update_entry i (\<lambda>e. e\<lparr>de_trashed := b, de_trashed_at_ms := t\<rparr>) m) m ids
    = m\<lparr>dm_entries := map (set_trash b t ids) (dm_entries m)\<rparr>"
  using goodD(5) unfolding set_trash_def [abs_def] by (intro update_entries) simp_all

lemma subtree_under:
  "good m \<Longrightarrow> get m i \<noteq> None \<Longrightarrow> set (subtree m i) = {x. lies_under (parent_of (dm_entries m)) i x}"
  by (rule subtree_set [OF goodD(1) goodD(4)])

lemma under_child:
  assumes "good m" "e \<in> set (dm_entries m)"
  shows "lies_under (parent_of (dm_entries m)) i (de_id e)
    \<longleftrightarrow> de_id e = i \<or> lies_under (parent_of (dm_entries m)) i (de_parent e)"
  using under_iff [of "de_id e"] tree_okD(2) [OF goodD(1) [OF assms(1)] assms(2)]
    parent_of_entry [OF goodD(1) [OF assms(1)] assms(2)] by simp

lemma good_trash:
  assumes g: "good m" and tr: "trash clk i d m = Inr m'"
  shows "good m'"
proof -
  let ?es = "dm_entries m" and ?S = "subtree m i"
  have ne: "?S \<noteq> []" and m': "m' = bump (clk 1) d (m\<lparr>dm_entries := map (set_trash True (clk 0) ?S) ?es\<rparr>)"
    using tr set_trash_pass [OF g, where b = True and t = "clk 0" and ids = ?S] by (auto simp: trash_def Let_def split: if_splits)
  have "get m i \<noteq> None" using ne by (auto simp only: subtree_def split: if_splits)
  note S = subtree_under [OF g this]
  have "trash_closed (map (set_trash True (clk 0) ?S) ?es)"
  proof (rule trash_closed_map)
    show "keeps_shape (set_trash True (clk 0) ?S)" by (simp add: keeps_shape_def)
    fix e assume e: "e \<in> set ?es" "\<not> de_trashed (set_trash True (clk 0) ?S e)" "de_parent e \<noteq> []"
    then have a: "de_id e \<notin> set ?S" "\<not> de_trashed e" by (simp_all split: if_splits)
    obtain p where p: "p \<in> set ?es" "de_id p = de_parent e" "\<not> de_trashed p"
      by (rule trash_closedD [OF goodD(3) [OF g] e(1) a(2) e(3)])
    have "de_id p \<notin> set ?S" using a(1) p(2) under_child [OF g e(1)] by (simp add: S)
    then show "\<exists>p \<in> set ?es. de_id p = de_parent e \<and> \<not> de_trashed (set_trash True (clk 0) ?S p)"
      using p by (intro bexI [of _ p]) simp_all
  qed
  then have "entries_good (map (set_trash True (clk 0) ?S) ?es)"
    using goodD(2) [OF g]
    by (intro entries_good_map [OF good_entriesD [OF g]]) (auto simp: keeps_shape_def)
  then show ?thesis unfolding m' good_bump by (rule good_entries [OF g])
qed

text \<open>Untrashing a subtree, whose root goes to the top when its folder is not active.\<close>

lemma good_untrash:
  assumes g: "good m" and i: "get m i = Some e0"
    and ok: "ok \<longleftrightarrow> parent_active m e0"
  shows "good ((if ok then id else update_entry i (\<lambda>e. e\<lparr>de_parent := []\<rparr>))
    (m\<lparr>dm_entries := map (set_trash False 0 (subtree m i)) (dm_entries m)\<rparr>))"
proof -
  let ?es = "dm_entries m" and ?S = "subtree m i" and ?p = "parent_of (dm_entries m)"
  let ?u = "set_trash False 0 ?S"
  let ?r = "if ok then id else reparent i []"
  note t = goodD(1) [OF g]
  have S: "set ?S = {x. lies_under ?p i x}" using subtree_under [OF g] i by simp
  have iS: "i \<in> set ?S" by (simp add: S lies_under.under_self)
  have ie: "i \<in> de_id ` set ?es" "i \<noteq> []" using get_Some [OF i] tree_okD(2) [OF t] by auto
  have t1: "tree_ok (map ?u ?es)" by (rule tree_ok_map [OF t]) (simp add: keeps_shape_def)
  have "tree_ok (map ?r (map ?u ?es))"
  proof (cases ok)
    case True
    then show ?thesis using t1 by (simp only: if_True list.map_id id_def map_ident)
  next
    case False
    have "i \<in> de_id ` set (map ?u ?es)" using ie(1) by (auto simp: image_image)
    then have "tree_ok (map (reparent i []) (map ?u ?es))"
      using tree_ok_reparent [OF t1] under_Nil [OF ie(2)] by blast
    then show ?thesis using False by simp
  qed
  moreover have "trash_closed (map ?r (map ?u ?es))"
  proof -
    have act: "active_ids (map ?r (map ?u ?es)) = active_ids (map ?u ?es)"
      by (rule active_ids_same) (cases ok, simp_all)+
    have ua: "de_id q \<in> active_ids (map ?u ?es)" if "q \<in> set ?es" "de_id q \<in> set ?S \<or> \<not> de_trashed q" for q
    proof -
      have "\<not> de_trashed (?u q)" using that(2) by auto
      then have "?u q \<in> {e \<in> set (map ?u ?es). \<not> de_trashed e}" using that(1) by simp
      then have "de_id (?u q) \<in> active_ids (map ?u ?es)" unfolding active_ids_def by (rule imageI)
      then show ?thesis by simp
    qed
    have "de_parent (?r (?u e)) = [] \<or> de_parent (?r (?u e)) \<in> active_ids (map ?u ?es)"
      if e: "e \<in> set ?es" "\<not> de_trashed (?u e)" for e
    proof (cases "de_id e = i")
      case True
      then have "e = e0" using e(1) i by (metis get_iff [OF g] option.inject)
      show ?thesis
      proof (cases ok)
        case ok': True
        show ?thesis
        proof (cases "de_parent e0 = []")
          case True
          then show ?thesis using \<open>e = e0\<close> ok' by simp
        next
          case False
          then obtain q where "get m (de_parent e0) = Some q" "\<not> de_trashed q"
            using ok ok' by (auto simp: parent_active_def split: option.splits)
          then have "de_parent e0 \<in> active_ids (map ?u ?es)" using ua [of q] get_Some by auto
          then show ?thesis using \<open>e = e0\<close> ok' by simp
        qed
      next
        case False
        then show ?thesis using True by simp
      qed
    next
      case False
      have par: "de_parent (?r (?u e)) = de_parent e" using False by simp
      have "\<exists>q \<in> set ?es. de_id q = de_parent e \<and> (de_id q \<in> set ?S \<or> \<not> de_trashed q)"
        if pe: "de_parent e \<noteq> []"
      proof (cases "de_id e \<in> set ?S")
        case True
        then have "de_parent e \<in> set ?S" using under_child [OF g e(1), of i] False by (simp add: S)
        moreover obtain q where "q \<in> set ?es" "de_id q = de_parent e"
          using tree_okD(3) [OF t e(1)] pe unfolding parent_is_folder_iff [OF tree_okD(1) [OF t]] by blast
        ultimately show ?thesis by metis
      next
        case out: False
        then have "\<not> de_trashed e" using e(2) by simp
        then obtain q where "q \<in> set ?es" "de_id q = de_parent e" "\<not> de_trashed q"
          by (rule trash_closedD [OF goodD(3) [OF g] e(1) _ pe])
        then show ?thesis by metis
      qed
      then show ?thesis unfolding par using ua by metis
    qed
    note closed = this
    have tr: "de_trashed (?r x) = de_trashed x" for x by (cases ok) simp_all
    show ?thesis unfolding trash_closed_def act
    proof (intro ballI impI)
      fix e' assume e': "e' \<in> set (map ?r (map ?u ?es))" "\<not> de_trashed e'"
      then obtain e where e: "e \<in> set ?es" "e' = ?r (?u e)" unfolding set_map image_image by blast
      then have "\<not> de_trashed (?u e)" using e'(2) tr by (simp only:) simp
      from closed [OF e(1) this] show "de_parent e' = [] \<or> de_parent e' \<in> active_ids (map ?u ?es)"
        by (simp only: e(2))
    qed
  qed
  moreover have "\<forall>e \<in> set (map ?r (map ?u ?es)). entry_good e"
    using goodD(2) [OF g] by (auto simp: reparent_def entry_good_def entry_ok_iff set_trash_def split: if_splits)
  ultimately have "entries_good (map ?r (map ?u ?es))"
    using goodD(4) [OF g] unfolding entries_good_def by simp
  then have "good (m\<lparr>dm_entries := map ?r (map ?u ?es)\<rparr>)" by (rule good_entries [OF g])
  moreover have "m\<lparr>dm_entries := map ?r (map ?u ?es)\<rparr>
      = (if ok then id else update_entry i (\<lambda>e. e\<lparr>de_parent := []\<rparr>)) (m\<lparr>dm_entries := map ?u ?es\<rparr>)"
  proof -
    have "distinct (map de_id (map ?u ?es))" by (rule tree_okD(1) [OF t1])
    then have "update_first (\<lambda>e. de_id e = i) (\<lambda>e. e\<lparr>de_parent := []\<rparr>) (map ?u ?es)
        = map (reparent i []) (map ?u ?es)"
      unfolding reparent_def [abs_def] by (rule update_first_map)
    then show ?thesis by (cases ok) (simp_all add: update_entry_def del: map_map)
  qed
  ultimately show ?thesis by simp
qed

text \<open>\<open>restore\<close> keeps a manifest good unless the name it invents is too long.\<close>

lemma find_entry_map:
  "(\<And>e. de_id (f e) = de_id e) \<Longrightarrow> find_entry x (map f es) = map_option f (find_entry x es)"
  by (induction es) (auto simp: find_entry_def)

lemma get_update:
  assumes "\<And>e. de_id (f e) = de_id e"
  shows "get (update_entry i f m) x = map_option (\<lambda>e. if x = i then f e else e) (get m x)"
proof -
  have "find_entry x (update_first (\<lambda>e. de_id e = i) f es)
      = map_option (\<lambda>e. if x = i then f e else e) (find_entry x es)" for es
    using assms by (induction es) (auto simp: find_entry_def option.map_ident)
  then show ?thesis by (simp add: get_def update_entry_def)
qed

lemma good_restore:
  assumes g: "good m" and r: "restore clk i d m = Inr m'"
    and len: "\<And>e. get m i = Some e \<Longrightarrow> length (restored_name (de_name e) (clk 0)) \<le> MAX_NAME"
  shows "good m'"
proof -
  let ?S = "subtree m i"
  obtain e0 where e0: "get m i = Some e0" using r by (auto simp: restore_def and_then_ok get_or_ok)
  let ?m1 = "m\<lparr>dm_entries := map (set_trash False 0 ?S) (dm_entries m)\<rparr>"
  let ?m2 = "if parent_active m e0 then ?m1 else update_entry i (\<lambda>e. e\<lparr>de_parent := []\<rparr>) ?m1"
  let ?rn = "\<lambda>e. e\<lparr>de_name := restored_name (de_name e0) (clk 0)\<rparr>"
  have g2: "good ?m2" using good_untrash [OF g e0 refl] by (cases "parent_active m e0") simp_all
  have "get ?m1 i = Some (set_trash False 0 ?S e0)"
    using e0 by (simp add: get_def find_entry_map)
  then obtain e2 where e2: "get ?m2 i = Some e2" "de_name e2 = de_name e0"
    by (cases "parent_active m e0") (simp_all add: get_update)
  have m': "m' = bump (clk 1) d (update_entry i ?rn ?m2) \<or> m' = bump (clk 0) d ?m2"
    using r e0 e2 set_trash_pass [OF g, where b = False and t = 0 and ids = ?S]
    by (simp add: restore_def get_or_def Let_def split: if_splits)
  have "good (update_entry i ?rn ?m2)"
  proof (rule good_update_plain [OF g2])
    show "keeps_shape ?rn" by (simp add: keeps_shape_def)
    have "length (restored_name (de_name e0) (clk 0)) \<le> MAX_NAME" by (rule len [OF e0])
    moreover have "CHR 0x00 \<notin> set (restored_name (de_name e0) (clk 0))"
    proof -
      have "CHR 0x00 \<notin> set (de_name e0)"
        using goodD(2) [OF g] get_Some [OF e0] by (auto simp: entry_good_def entry_ok_iff)
      moreover have "CHR 0x00 \<notin> set (dec_string n)" for n
        by (rule dec_string_not) (simp add: is_ascii_digit_def char_nat_def)
      ultimately show ?thesis by (simp add: restored_name_def)
    qed
    ultimately show "entry_good (?rn e)" if "entry_good e" for e
      using that by (simp add: entry_good_def entry_ok_iff restored_name_def)
  qed simp
  then show ?thesis using m' g2 by (elim disjE) (simp_all only: good_bump)
qed

lemma set_sorted_ids [simp]: "set (sorted_ids ids) = set ids"
proof -
  have "fst ` set (foldl (\<lambda>acc i. bt_insert i () acc) acc ids) = fst ` set acc \<union> set ids" for acc
    by (induction ids arbitrary: acc) (auto simp: set_bt_insert_fst)
  then show ?thesis by (simp add: sorted_ids_def)
qed

lemma distinct_sorted_ids [simp]: "distinct (sorted_ids ids)"
proof -
  have "bt_wf acc \<Longrightarrow> bt_wf (foldl (\<lambda>acc i. bt_insert i () acc) acc ids)" for acc
    by (induction ids arbitrary: acc) (auto simp: bt_wf_insert)
  then show ?thesis by (simp add: sorted_ids_def bt_wf_distinct)
qed

definition share_revoked :: "bytes list \<Rightarrow> drive_share \<Rightarrow> drive_share \<Rightarrow> bool" where
  "share_revoked ids s s' \<longleftrightarrow> (\<exists>t. s' = s \<or> s' = s\<lparr>sr_revoked := True, sr_revoked_at_ms := t\<rparr>)
     \<and> (sr_entry s \<in> set ids \<longrightarrow> sr_revoked s')"

lemma revoke_shares_rel:
  "list_all2 (share_revoked ids) ss (fst (revoke_shares clk n ids ss))"
  by (induction clk n ids ss rule: revoke_shares.induct)
    (auto simp: share_revoked_def split: prod.splits)

lemma share_revoked_ok: "share_revoked ids s s' \<Longrightarrow> share_ok s \<Longrightarrow> share_ok s'"
  by (auto simp: share_revoked_def share_ok_def)

lemma list_all2_ball: "list_all2 R xs ys \<Longrightarrow> y \<in> set ys \<Longrightarrow> \<exists>x \<in> set xs. R x y"
  by (metis in_set_conv_nth list_all2_conv_all_nth)

lemma good_lists:
  assumes "good m"
  shows "s \<in> set (dm_shares m) \<Longrightarrow> share_ok s"
    "x \<in> set (dm_tombstones m) \<Longrightarrow> length (tb_id x) = ID_LEN"
  using assms by (simp_all add: good_def drive_ok_iff)

lemma good_replace:
  assumes "good m" "entries_good es" "\<And>s. s \<in> set ss \<Longrightarrow> share_ok s"
    and "\<And>x. x \<in> set ts \<Longrightarrow> length (tb_id x) = ID_LEN" "length ts \<le> MAX_TOMBSTONES"
  shows "good (m\<lparr>dm_entries := es, dm_tombstones := ts, dm_shares := ss\<rparr>)"
  using good_entries [OF assms(1,2)] assms(3-5) by (simp add: good_def drive_ok_iff)

lemma delete_entries:
  assumes "delete clk i d m = Inr (n, m')"
  obtains e ts ss k where "get m i = Some e" "de_trashed e"
    "ts = evict_oldest MAX_TOMBSTONES (dm_tombstones m
       @ map (\<lambda>i. \<lparr>tb_id = i, tb_at_ms = clk 0\<rparr>) (sorted_ids (subtree m i)))"
    "revoke_shares clk 1 (sorted_ids (subtree m i)) (dm_shares m) = (ss, k)"
    "m' = bump (clk k) d (m\<lparr>dm_entries := filter (\<lambda>e. de_id e \<notin> set (subtree m i)) (dm_entries m),
       dm_tombstones := ts, dm_shares := ss\<rparr>)"
    "n = length (dm_entries m) - length (filter (\<lambda>e. de_id e \<notin> set (subtree m i)) (dm_entries m))"
  using assms by (auto simp: delete_def and_then_ok get_or_ok Let_def split: if_splits prod.splits)

lemma good_delete:
  assumes g: "good m" and del: "delete clk i d m = Inr (n, m')"
  shows "good m'"
proof -
  let ?es = "dm_entries m" and ?S = "subtree m i"
  let ?K = "{x. x \<notin> set ?S}"
  let ?fs = "filter (\<lambda>e. de_id e \<notin> set ?S) ?es"
  note t = goodD(1) [OF g]
  obtain e ts ss k where e: "get m i = Some e" "de_trashed e"
    and ts: "ts = evict_oldest MAX_TOMBSTONES (dm_tombstones m
       @ map (\<lambda>i. \<lparr>tb_id = i, tb_at_ms = clk 0\<rparr>) (sorted_ids ?S))"
    and ss: "revoke_shares clk 1 (sorted_ids ?S) (dm_shares m) = (ss, k)"
    and m': "m' = bump (clk k) d (m\<lparr>dm_entries := ?fs, dm_tombstones := ts, dm_shares := ss\<rparr>)"
    by (rule delete_entries [OF del])
  have S: "set ?S = {x. lies_under (parent_of ?es) i x}" using subtree_under [OF g] e by simp
  have up: "de_parent x = [] \<or> de_parent x \<notin> set ?S" if "x \<in> set ?es" "de_id x \<notin> set ?S" for x
    using under_child [OF g that(1), of i] that(2) by (simp add: S)
  have "tree_ok ?fs" using tree_ok_filter [OF t, of ?K] up by simp
  moreover have "trash_closed ?fs"
  proof -
    have "de_parent x = [] \<or> de_parent x \<in> active_ids ?fs"
      if x: "x \<in> set ?es" "de_id x \<notin> set ?S" "\<not> de_trashed x" for x
    proof (cases "de_parent x = []")
      case False
      obtain p where "p \<in> set ?es" "de_id p = de_parent x" "\<not> de_trashed p"
        by (rule trash_closedD [OF goodD(3) [OF g] x(1,3) False])
      then show ?thesis using up [OF x(1,2)] False by (auto simp: active_ids_def image_iff)
    qed simp
    then show ?thesis by (simp add: trash_closed_def)
  qed
  moreover have "length ?fs \<le> MAX_ENTRIES"
    using goodD(4) [OF g] length_filter_le le_trans by blast
  ultimately have fs: "entries_good ?fs" using goodD(2) [OF g] by (simp add: entries_good_def)
  have "length (tb_id x) = ID_LEN" if "x \<in> set ts" for x
  proof -
    have "x \<in> set (dm_tombstones m @ map (\<lambda>i. \<lparr>tb_id = i, tb_at_ms = clk 0\<rparr>) (sorted_ids ?S))"
      using that unfolding ts by (rule subsetD [OF set_evict_oldest])
    then have "x \<in> set (dm_tombstones m) \<or> tb_id x \<in> set ?S" by auto
    moreover have "length y = ID_LEN" if "y \<in> set ?S" for y
    proof -
      have "y \<in> de_id ` set ?es"
        using under_entry [OF _ t] get_Some [OF e(1)] that by (auto simp: S)
      then show ?thesis using goodD(2) [OF g] by (auto simp: entry_good_def entry_ok_iff)
    qed
    ultimately show ?thesis using good_lists(2) [OF g] by blast
  qed
  moreover have "length ts \<le> MAX_TOMBSTONES" by (simp add: ts length_evict_oldest)
  moreover have "share_ok s" if "s \<in> set ss" for s
  proof -
    have rel: "list_all2 (share_revoked (sorted_ids ?S)) (dm_shares m) ss"
      using revoke_shares_rel [of "sorted_ids ?S" "dm_shares m" clk 1] ss by simp
    from list_all2_ball [OF rel that]
    obtain s0 where "s0 \<in> set (dm_shares m)" "share_revoked (sorted_ids ?S) s0 s" by blast
    then show ?thesis using share_revoked_ok good_lists(1) [OF g] by blast
  qed
  ultimately have "good (m\<lparr>dm_entries := ?fs, dm_tombstones := ts, dm_shares := ss\<rparr>)"
    by (intro good_replace [OF g fs]) blast+
  then show ?thesis by (simp add: m')
qed

lemma good_empty_trash:
  assumes "good m"
  shows "good (snd (empty_trash clks d m))"
proof -
  have "good (snd (snd (foldl (empty_trash_step clks d) (n, k, m) rs)))" if "good m" for n k m rs
    using that
  proof (induction rs arbitrary: n k m)
    case (Cons r rs)
    have "good (snd (snd (empty_trash_step clks d (n, k, m) r)))"
      using Cons.prems good_delete by (auto simp: empty_trash_step_def split: sum.splits prod.splits)
    moreover obtain n' k' m2 where "empty_trash_step clks d (n, k, m) r = (n', k', m2)"
      by (cases "empty_trash_step clks d (n, k, m) r") auto
    ultimately show ?case using Cons.IH [of m2 n' k'] by simp
  qed simp
  from this [OF assms, of 0 0 "map de_id (filter de_trashed (dm_entries m))"] show ?thesis
    by (auto simp: empty_trash_def Let_def split: prod.splits)
qed

lemma good_copy_file:
  assumes g: "good m" and c: "copy_file rnd clk i np n d m = Inr (j, m')" and fresh: "get m j = None"
  shows "good m'"
proof -
  obtain src r m1 where src: "get m i = Some src"
    and add: "add_file rnd clk np n (de_mime src) r d m = Inr (j, m1)"
    and m': "m' = update_entry j (\<lambda>e. e\<lparr>de_attrs := de_attrs src\<rparr>) m1"
    using c by (auto simp: copy_file_def and_then_ok get_or_ok split: if_splits option.splits)
  have "entry_good src" using goodD(2) [OF g] get_Some [OF src] by blast
  then have "length (de_attrs src) \<le> MAX_ATTRS" "bt_wf (de_attrs src)"
    by (simp_all add: entry_good_def entry_ok_iff)
  then show ?thesis unfolding m'
    by (intro good_update_plain [OF good_add_file [OF g add fresh]])
      (simp_all add: keeps_shape_def entry_good_def entry_ok_iff)
qed

lemma good_shares:
  assumes "good m" "\<And>s. s \<in> set ss \<Longrightarrow> share_ok s"
  shows "good (m\<lparr>dm_shares := ss\<rparr>)"
  using assms by (simp add: good_def drive_ok_iff)

lemma good_grant:
  assumes g: "good m" and gr: "grant rnd clk i owner who grp mode perm fo d m = Inr (cap, m')"
  shows "good m'"
proof -
  obtain e sid where e: "get m i = Some e" "random_id rnd = Inr sid"
    and who: "require_str ''grantee'' who 128 = Inr ()"
    and m': "m' = bump (clk 1) d (m\<lparr>dm_shares := dm_shares m @
      [\<lparr>sr_id = sid, sr_entry = de_id e, sr_grantee = who, sr_mode = mode, sr_permission = perm,
        sr_granted_at_ms = clk 0, sr_revoked = False, sr_revoked_at_ms = 0, sr_group = grp\<rparr>]\<rparr>)"
    using gr by (auto simp: grant_def and_then_ok get_or_ok Let_def split: if_splits option.splits)
  let ?s = "\<lparr>sr_id = sid, sr_entry = de_id e, sr_grantee = who, sr_mode = mode, sr_permission = perm,
        sr_granted_at_ms = clk 0, sr_revoked = False, sr_revoked_at_ms = 0, sr_group = grp\<rparr>"
  have "share_ok ?s"
    using e who goodD(2) [OF g] get_Some [of m i e] random_id_ok
    by (auto simp: share_ok_def require_str_ok entry_good_def entry_ok_iff)
  then have "good (m\<lparr>dm_shares := dm_shares m @ [?s]\<rparr>)"
    using good_lists(1) [OF g] by (intro good_shares [OF g]) auto
  then show ?thesis by (simp add: m')
qed

lemma set_update_first: "y \<in> set (update_first P f xs) \<Longrightarrow> y \<in> set xs \<or> (\<exists>x \<in> set xs. P x \<and> y = f x)"
  by (induction xs) (auto split: if_splits)

lemma good_revoke:
  assumes g: "good m" and r: "revoke clk sid d m = Inr (s, m')"
  shows "good m'"
proof -
  let ?upd = "\<lambda>s. s\<lparr>sr_revoked := True, sr_revoked_at_ms := clk 0\<rparr>"
  have m': "m' = bump (clk 1) d (m\<lparr>dm_shares := update_first (\<lambda>s. sr_id s = sid) ?upd (dm_shares m)\<rparr>)"
    using r by (auto simp: revoke_def Let_def split: option.splits if_splits)
  have "share_ok x" if "x \<in> set (update_first (\<lambda>s. sr_id s = sid) ?upd (dm_shares m))" for x
    using set_update_first [OF that] good_lists(1) [OF g] by (auto simp: share_ok_def)
  then have "good (m\<lparr>dm_shares := update_first (\<lambda>s. sr_id s = sid) ?upd (dm_shares m)\<rparr>)"
    by (rule good_shares [OF g])
  then show ?thesis by (simp add: m')
qed

section \<open>The Drive as a state machine\<close>

text \<open>One rule for each operation that changes a manifest. A fresh id is one that is not in use,
  and a restored entry's invented name must fit.\<close>

inductive drive_step :: "drive_manifest \<Rightarrow> drive_manifest \<Rightarrow> bool" where
  st_mkdir: "mkdir rnd clk p n d m = Inr (i, m') \<Longrightarrow> get m i = None \<Longrightarrow> drive_step m m'"
| st_add_file: "add_file rnd clk p n mime r d m = Inr (i, m') \<Longrightarrow> get m i = None \<Longrightarrow> drive_step m m'"
| st_update: "update_file clk i r d txt m = Inr (n, m') \<Longrightarrow> drive_step m m'"
| st_restore_version: "restore_version clk i no d m = Inr m' \<Longrightarrow> drive_step m m'"
| st_rename: "rename clk i n d m = Inr m' \<Longrightarrow> drive_step m m'"
| st_mv: "mv clk i np d m = Some (Inr m') \<Longrightarrow> drive_step m m'"
| st_copy: "copy_file rnd clk i np n d m = Inr (j, m') \<Longrightarrow> get m j = None \<Longrightarrow> drive_step m m'"
| st_trash: "trash clk i d m = Inr m' \<Longrightarrow> drive_step m m'"
| st_restore: "restore clk i d m = Inr m' \<Longrightarrow>
    (\<forall>e. get m i = Some e \<longrightarrow> length (restored_name (de_name e) (clk 0)) \<le> MAX_NAME) \<Longrightarrow> drive_step m m'"
| st_delete: "delete clk i d m = Inr (n, m') \<Longrightarrow> drive_step m m'"
| st_empty_trash: "empty_trash clks d m = (n, m') \<Longrightarrow> drive_step m m'"
| st_starred: "set_starred clk i b d m = Inr m' \<Longrightarrow> drive_step m m'"
| st_attr: "set_attr clk i k v d m = Inr m' \<Longrightarrow> drive_step m m'"
| st_grant: "grant rnd clk i owner who grp mode perm fo d m = Inr (cap, m') \<Longrightarrow> drive_step m m'"
| st_revoke: "revoke clk sid d m = Inr (s, m') \<Longrightarrow> drive_step m m'"

lemma drive_step_good: "drive_step m m' \<Longrightarrow> good m \<Longrightarrow> good m'"
proof (induction rule: drive_step.induct)
  case (st_restore clk i d m m')
  then show ?case using good_restore by blast
next
  case (st_empty_trash clks d m n m')
  then show ?case using good_empty_trash [of m clks d] by simp
qed (blast intro: good_mkdir good_add_file good_update_file good_restore_version good_rename good_mv
    good_copy_file good_trash good_delete good_set_starred good_set_attr good_grant good_revoke)+

lemma drive_run_good: "drive_step\<^sup>*\<^sup>* m m' \<Longrightarrow> good m \<Longrightarrow> good m'"
  by (induction rule: rtranclp_induct) (auto intro: drive_step_good)

lemma good_new: "manifest_new rnd clk d = Inr m \<Longrightarrow> good m"
  using random_id_ok [of rnd]
  by (auto simp: manifest_new_def and_then_ok good_def drive_ok_iff tree_ok_def trash_closed_def
      MAX_ENTRIES_def MAX_TOMBSTONES_def)

section \<open>Properties\<close>


lemma under_ids: "lies_under (parent_of es) i x \<Longrightarrow> i \<noteq> [] \<Longrightarrow> tree_ok es \<Longrightarrow> x \<in> de_id ` set es \<Longrightarrow> i \<in> de_id ` set es"
proof (induction rule: lies_under.induct)
  case (under_step x)
  show ?case
  proof (cases "parent_of es x = []")
    case True
    then show ?thesis using under_step.hyps under_Nil [OF under_step.prems(1)] by simp
  next
    case False
    then show ?thesis using under_step parent_exists(2) by blast
  qed
qed

text \<open>
  C33. Moving always terminates on a valid manifest, although its loop has no bound, and it is
  refused as a move into itself exactly when the target is an active folder of the moved subtree.
\<close>

theorem mv_terminates:
  assumes "good m" "i \<noteq> []"
  shows "mv clk i np d m \<noteq> None
    \<and> (mv clk i np d m = Some (Inl (Invalid ''cannot move a folder into itself''))
        \<longleftrightarrow> require_folder m np = Inr () \<and> np \<in> set (subtree m i))"
proof (cases "require_folder m np")
  case (Inl err)
  then have "err \<noteq> Invalid ''cannot move a folder into itself''"
    by (auto simp: require_folder_def split: if_splits option.splits)
  then show ?thesis using Inl by (simp add: mv_def)
next
  case (Inr u)
  then have f: "require_folder m np = Inr ()" by simp
  note c = mv_climb [OF assms(1) f assms(2)]
  have sub: "np \<in> set (subtree m i) \<longleftrightarrow> lies_under (parent_of (dm_entries m)) i np"
  proof (cases "get m i = None")
    case True
    have "np = [] \<or> np \<in> de_id ` set (dm_entries m)"
      using f unfolding require_folder_ok [OF goodD(1) [OF assms(1)]] by blast
    moreover have "i \<notin> de_id ` set (dm_entries m)" using True by (simp add: get_def find_entry_None)
    ultimately show ?thesis
      using True under_ids [OF _ assms(2) goodD(1) [OF assms(1)]] under_Nil [OF assms(2)] by (auto simp: subtree_def)
  qed (simp add: subtree_under [OF assms(1)])
  have "and_then (get_or (NotFound ''entry'') m i) (\<lambda>e.
      and_then (require_free_name m np (de_name e) i) (\<lambda>_.
        Inr (bump (clk 1) d (update_entry i (\<lambda>e. e\<lparr>de_parent := np, de_modified_at_ms := clk 0\<rparr>) m))))
      \<noteq> Inl (Invalid ''cannot move a folder into itself'')"
    by (auto simp: and_then_err get_or_def require_free_name_def require_def require_str_def
        require_str_max_def split: option.splits if_splits)
  then show ?thesis using f c sub by (simp add: mv_def split: bool.splits)
qed


lemma under_iter:
  assumes "p [] = []" "i \<noteq> []"
  shows "lies_under p i x \<longleftrightarrow> (\<exists>n. (p ^^ n) x = i)"
proof
  show "lies_under p i x \<Longrightarrow> \<exists>n. (p ^^ n) x = i"
  proof (induction rule: lies_under.induct)
    case under_self
    then show ?case by (intro exI [of _ 0]) simp
  next
    case (under_step x)
    then obtain n where "(p ^^ n) (p x) = i" by blast
    then show ?case by (intro exI [of _ "Suc n"]) (simp add: funpow_swap1)
  qed
  have "(p ^^ n) x = i \<Longrightarrow> lies_under p i x" for n
  proof (induction n arbitrary: x)
    case 0
    then show ?case by (simp add: lies_under.under_self)
  next
    case (Suc n)
    then have "lies_under p i (p x)" by (simp add: funpow_swap1)
    moreover have "x \<noteq> []" using Suc.prems assms by (induction n arbitrary: x) (auto simp: funpow_swap1)
    ultimately show ?case by (rule lies_under.under_step)
  qed
  then show "\<exists>n. (p ^^ n) x = i \<Longrightarrow> lies_under p i x" by blast
qed

text \<open>
  The subtree of an entry is exact: it lists, each once, the ids from which following parents
  arrives at the entry.
\<close>

theorem subtree_exact:
  assumes "good m" "get m i \<noteq> None"
  shows "distinct (subtree m i)
    \<and> (\<forall>x. x \<in> set (subtree m i) \<longleftrightarrow> (\<exists>n. (parent_of (dm_entries m) ^^ n) x = i))"
proof -
  note t = goodD(1) [OF assms(1)]
  have i: "i \<noteq> []" using assms(2) tree_okD(2) [OF t] by (auto simp: get_def find_entry_None)
  have "parent_of (dm_entries m) [] = []"
    using tree_okD(2) [OF t] find_entry_None [of "[]" "dm_entries m"] by (force simp: parent_of_def)
  from under_iter [of "parent_of (dm_entries m)", OF this i] show ?thesis
    using subtree_under [OF assms] subtree_set(2) [OF t goodD(4) [OF assms(1)] assms(2)] by simp
qed


lemma length_dec_string: "0 < k \<Longrightarrow> n < 10 ^ k \<Longrightarrow> length (dec_string n) \<le> k"
proof (induction n arbitrary: k rule: dec_string.induct)
  case (1 n)
  show ?case
  proof (cases "n < 10")
    case True
    then show ?thesis using 1 by (simp add: dec_string.simps [of n])
  next
    case False
    have "k \<noteq> 1" using 1(3) False by auto
    then have k: "1 < k" using 1(2) by simp
    then have "n div 10 < 10 ^ (k - 1)"
      using 1(3) by (cases k) (simp_all add: less_mult_imp_div_less mult.commute)
    then have "length (dec_string (n div 10)) \<le> k - 1" using 1(1) [OF False, of "k - 1"] k by simp
    then show ?thesis using False k by (simp add: dec_string.simps [of n])
  qed
qed

lemma restored_note_ok: "require_str_max ''note'' (''restored v'' @ dec_string (unat (n :: u64))) 256 = Inr ()"
proof -
  have "unat n < 10 ^ 20" using unat_bound [of n] by simp
  then have "length (dec_string (unat n)) \<le> 20" by (rule length_dec_string [rotated]) simp
  moreover have "CHR 0x00 \<notin> set (dec_string k)" for k
    by (rule dec_string_not) (simp add: is_ascii_digit_def char_nat_def)
  ultimately show ?thesis by (simp add: require_str_max_ok)
qed

lemma evict_keeps_last: "evict_oldest MAX_VERSIONS_PER_ENTRY (vs @ [v])
    = drop (Suc (length vs) - MAX_VERSIONS_PER_ENTRY) vs @ [v]"
  by (simp add: evict_oldest_drop MAX_VERSIONS_PER_ENTRY_def)

lemma update_file_eq:
  assumes "get m i = Some e" "de_kind e = KIND_FILE" "validate_object_ref r = Inr ()"
    and "require_str_max ''note'' txt 256 = Inr ()"
  shows "update_file clk i r d txt m = Inr (last_version_no e + 2,
    bump (clk 1) d (update_entry i (\<lambda>e. (push_version d txt e)
      \<lparr>de_size := or_size r, de_current := Some r, de_modified_at_ms := clk 0\<rparr>) m))"
  using assms by (simp add: update_file_def get_or_def)

lemma get_bump [simp]: "get (bump n d m) x = get m x"
  by (simp add: get_def)

lemma find_snoc: "\<forall>x \<in> set xs. \<not> P x \<Longrightarrow> P v \<Longrightarrow> find P (xs @ [v]) = Some v"
  by (induction xs) auto

lemma update_file_get:
  assumes "get m i = Some e" "de_kind e = KIND_FILE" "validate_object_ref r = Inr ()"
    and "require_str_max ''note'' txt 256 = Inr ()" "de_current e = Some prev"
  obtains m1 e1 where "update_file clk i r d txt m = Inr (last_version_no e + 2, m1)"
    "get m1 i = Some e1" "de_current e1 = Some r" "de_kind e1 = KIND_FILE"
    "de_versions e1 = drop (Suc (length (de_versions e)) - MAX_VERSIONS_PER_ENTRY) (de_versions e)
      @ [\<lparr>dv_no = last_version_no e + 1, dv_object = Some prev,
          dv_created_at_ms = de_modified_at_ms e, dv_device = d, dv_note = txt\<rparr>]"
proof -
  let ?f = "\<lambda>e. (push_version d txt e)\<lparr>de_size := or_size r, de_current := Some r,
    de_modified_at_ms := clk 0\<rparr>"
  have "get (bump (clk 1) d (update_entry i ?f m)) i = Some (?f e)"
    using assms(1) by (simp add: get_update)
  moreover have "de_versions (?f e) = drop (Suc (length (de_versions e)) - MAX_VERSIONS_PER_ENTRY) (de_versions e)
      @ [\<lparr>dv_no = last_version_no e + 1, dv_object = Some prev,
          dv_created_at_ms = de_modified_at_ms e, dv_device = d, dv_note = txt\<rparr>]"
    using assms(5) by (simp add: push_version_def evict_keeps_last)
  moreover have "de_current (?f e) = Some r" "de_kind (?f e) = KIND_FILE" using assms(2) by simp_all
  ultimately show ?thesis using update_file_eq [OF assms(1-4)] that by blast
qed

text \<open>
  An update loses no content: the replaced content becomes the newest version, restoring
  that version makes it current again, and the content it replaces in turn is kept as a version.
\<close>

theorem restore_brings_back:
  assumes g: "good m" and e: "get m i = Some e" "de_current e = Some prev"
    and up: "update_file clk i r d txt m = Inr (n, m1)"
    and uniq: "\<forall>v \<in> set (de_versions e). dv_no v \<noteq> last_version_no e + 1"
  shows "\<exists>m2 e2. restore_version clk2 i (last_version_no e + 1) d2 m1 = Inr m2
    \<and> get m2 i = Some e2 \<and> de_current e2 = Some prev
    \<and> (\<exists>v \<in> set (de_versions e2). dv_object v = Some r)"
proof -
  let ?no = "last_version_no e + 1"
  have k: "de_kind e = KIND_FILE" and r: "validate_object_ref r = Inr ()"
    and nt: "require_str_max ''note'' txt 256 = Inr ()"
    using up e(1) by (auto simp: update_file_def and_then_ok get_or_ok split: if_splits)
  have prev: "validate_object_ref prev = Inr ()"
    using goodD(2) [OF g] get_Some [OF e(1)] e(2) k by (auto simp: entry_good_def entry_ok_iff)
  let ?old = "drop (Suc (length (de_versions e)) - MAX_VERSIONS_PER_ENTRY) (de_versions e)"
  let ?v = "\<lparr>dv_no = ?no, dv_object = Some prev, dv_created_at_ms = de_modified_at_ms e,
    dv_device = d, dv_note = txt\<rparr>"
  obtain e1 where e1: "get m1 i = Some e1" "de_current e1 = Some r" "de_kind e1 = KIND_FILE"
    "de_versions e1 = ?old @ [?v]"
    using update_file_get [OF e(1) k r nt e(2), of clk d] up by (metis Pair_inject sum.inject(2))
  have "\<forall>v \<in> set ?old. dv_no v \<noteq> ?no" using uniq set_drop_subset by fast
  then have "find (\<lambda>v. dv_no v = ?no) (?old @ [?v]) = Some ?v"
    by (intro find_snoc) simp_all
  then have res: "restore_version clk2 i ?no d2 m1 = and_then
      (update_file clk2 i prev d2 (''restored v'' @ dec_string (unat ?no)) m1) (\<lambda>(_, m'). Inr m')"
    using e1(1,4) by (simp add: restore_version_def get_or_def)
  obtain m2 e2 where "update_file clk2 i prev d2 (''restored v'' @ dec_string (unat ?no)) m1
      = Inr (last_version_no e1 + 2, m2)" "get m2 i = Some e2" "de_current e2 = Some prev"
    "\<exists>v \<in> set (de_versions e2). dv_object v = Some r"
    by (rule update_file_get [OF e1(1,3) prev restored_note_ok e1(2), of clk2 d2 ?no]) auto
  then show ?thesis using res by auto
qed

section \<open>Witnesses\<close>

definition wit_folder :: drive_entry where
  "wit_folder = entry_default\<lparr>de_id := replicate 16 2, de_kind := KIND_FOLDER, de_name := ''F''\<rparr>"

definition wit_ref :: drive_object_ref where
  "wit_ref = \<lparr>or_version = 1, or_cid = replicate 32 1, or_key = Some \<lparr>dk_key = replicate 32 1,
     dk_base_nonce = replicate 24 1\<rparr>, or_size = 0, or_segment_size = word_of_nat SEGMENT_PLAINTEXT,
     or_plaintext_hash = replicate 32 1\<rparr>"

definition wit_file :: drive_entry where
  "wit_file = entry_default\<lparr>de_id := replicate 16 3, de_parent := replicate 16 2, de_name := ''a'',
     de_current := Some wit_ref, de_trashed := True\<rparr>"

definition wit_drive :: drive_manifest where
  "wit_drive = \<lparr>dm_version = 1, dm_drive_id = replicate 16 1, dm_revision = 1, dm_updated_at_ms = 0,
     dm_device = [], dm_entries = [wit_folder, wit_file], dm_shares = [], dm_tombstones = []\<rparr>"

lemma wit_ref_ok: "validate_object_ref wit_ref = Inr ()"
  by (simp add: validate_object_ref_def wit_ref_def check_body_def DRIVE_VERSION_def require_hash_def
      SEGMENT_PLAINTEXT_def CHUNK_SIZE_def TAG_LEN_def MAX_OBJECT_PLAINTEXT_def)

lemma wit_drive_good: "good wit_drive"
proof -
  let ?es = "[wit_folder, wit_file]"
  have p: "parent_of ?es (replicate 16 2) = []"
    by (simp add: parent_of_def find_entry_def wit_folder_def entry_default_def)
  have r: "rooted (parent_of ?es) (replicate 16 2)"
    by (rule rooted.rooted_step) (simp only: p rooted.rooted_Nil)
  have "tree_ok ?es"
    using r rooted.rooted_Nil [of "parent_of ?es"]
    by (simp add: tree_ok_def parent_is_folder_def find_entry_def wit_folder_def wit_file_def
        entry_default_def)
  moreover have "entry_good e" if "e \<in> set ?es" for e
    using that wit_ref_ok by (auto simp: entry_good_def entry_ok_iff wit_folder_def wit_file_def
        entry_default_def ID_LEN_def MAX_NAME_def KIND_FILE_def KIND_FOLDER_def)
  moreover have "trash_closed ?es"
    by (simp add: trash_closed_def wit_folder_def wit_file_def entry_default_def)
  ultimately show ?thesis
    by (simp add: good_def drive_ok_iff wit_drive_def DRIVE_VERSION_def ID_LEN_def MAX_ENTRIES_def
        entry_good_def)
qed

lemma wit_get: "get wit_drive (replicate 16 2) = Some wit_folder"
  "get wit_drive (replicate 16 3) = Some wit_file"
  by (simp_all add: get_def find_entry_def wit_drive_def wit_folder_def wit_file_def entry_default_def)

lemma wit_shares: "dm_shares wit_drive = []"
  by (simp add: wit_drive_def)


theorem mv_terminates_witness:
  "mv (\<lambda>_. 7) (replicate 16 2) (replicate 16 2) [1] wit_drive
    = Some (Inl (Invalid ''cannot move a folder into itself''))"
proof -
  have "replicate 16 2 \<in> set (subtree wit_drive (replicate 16 2))"
    using subtree_under [OF wit_drive_good, of "replicate 16 2"] wit_get(1) lies_under.under_self by simp
  moreover have "require_folder wit_drive (replicate 16 2) = Inr ()"
    using wit_get(1) by (simp add: require_folder_def wit_folder_def entry_default_def)
  ultimately show ?thesis
    using mv_terminates [OF wit_drive_good, of "replicate 16 2" "\<lambda>_. 7" "replicate 16 2" "[1]"] by simp
qed

theorem subtree_exact_witness: "distinct (subtree wit_drive (replicate 16 2))"
  using subtree_exact [OF wit_drive_good, of "replicate 16 2"] wit_get(1) by simp


theorem restore_brings_back_witness:
  "\<exists>n m1 m2 e2. update_file (\<lambda>_. 7) (replicate 16 3) wit_ref [1] [] wit_drive = Inr (n, m1)
    \<and> restore_version (\<lambda>_. 9) (replicate 16 3) (last_version_no wit_file + 1) [2] m1 = Inr m2
    \<and> get m2 (replicate 16 3) = Some e2 \<and> de_current e2 = Some wit_ref"
proof -
  have f: "de_kind wit_file = KIND_FILE" "de_current wit_file = Some wit_ref" "de_versions wit_file = []"
    by (simp_all add: wit_file_def entry_default_def KIND_FILE_def)
  have "require_str_max ''note'' [] 256 = Inr ()" by (simp add: require_str_max_ok)
  then obtain n m1 where u: "update_file (\<lambda>_. 7) (replicate 16 3) wit_ref [1] [] wit_drive = Inr (n, m1)"
    using update_file_eq [OF wit_get(2) f(1) wit_ref_ok] by blast
  have "\<forall>v \<in> set (de_versions wit_file). dv_no v \<noteq> last_version_no wit_file + 1" by (simp add: f(3))
  from restore_brings_back [OF wit_drive_good wit_get(2) f(2) u this, of "\<lambda>_. 9" "[2]"] u show ?thesis by blast
qed

end
