(* ===== verification/Drive_Merge.thy ===== *)
theory Drive_Merge
  imports Drive_Props
begin

text \<open>
  The merge of two revisions of a Drive written by different devices: \<open>merge\<close> of
  \<open>hashgram-app/src/drive.rs\<close>, block by block. Vectors of bytes are ordered lexicographically, as
  in Rust.
\<close>

section \<open>The merge of one entry\<close>

definition a_wins :: "bytes \<Rightarrow> bytes \<Rightarrow> drive_entry \<Rightarrow> drive_entry \<Rightarrow> bool" where
  "a_wins dev_a dev_b ea eb =
     (if de_modified_at_ms ea > de_modified_at_ms eb then True
      else if de_modified_at_ms ea < de_modified_at_ms eb then False
      else dev_a \<ge> dev_b)"

definition or_insert :: "'k::linorder \<Rightarrow> 'v \<Rightarrow> ('k \<times> 'v) list \<Rightarrow> ('k \<times> 'v) list" where
  "or_insert k v m = (case map_of m k of None \<Rightarrow> bt_insert k v m | Some _ \<Rightarrow> m)"

definition union_versions :: "drive_version list \<Rightarrow> (u64 \<times> drive_version) list" where
  "union_versions vs = foldl (\<lambda>m v. or_insert (dv_no v) v m) [] vs"

definition object_cid_is :: "bytes \<Rightarrow> drive_version \<Rightarrow> bool" where
  "object_cid_is c v = (case dv_object v of None \<Rightarrow> False | Some r \<Rightarrow> or_cid r = c)"

definition add_loser :: "drive_entry \<Rightarrow> drive_entry \<Rightarrow> (u64 \<times> drive_version) list \<Rightarrow>
    (u64 \<times> drive_version) list" where
  "add_loser winner loser versions =
     (case (de_current loser, de_current winner) of
        (Some lc, Some wc) \<Rightarrow>
          if or_cid lc \<noteq> or_cid wc \<and> \<not> list_ex (object_cid_is (or_cid lc)) (map snd versions)
          then (let no = (if versions = [] then 0 else fst (last versions)) + 1
            in bt_insert no \<lparr>dv_no = no, dv_object = Some lc,
                 dv_created_at_ms = de_modified_at_ms loser, dv_device = [],
                 dv_note = ''concurrent edit''\<rparr> versions)
          else versions
      | _ \<Rightarrow> versions)"

definition merge_pair :: "drive_entry \<Rightarrow> drive_entry \<Rightarrow> drive_entry" where
  "merge_pair winner loser =
     (let versions = add_loser winner loser (union_versions (de_versions winner @ de_versions loser));
          m1 = winner\<lparr>de_versions := evict_oldest MAX_VERSIONS_PER_ENTRY (map snd versions)\<rparr>;
          m2 = (if de_trashed loser \<and> \<not> de_trashed winner
                  \<and> de_trashed_at_ms loser > de_modified_at_ms winner
                then m1\<lparr>de_trashed := True, de_trashed_at_ms := de_trashed_at_ms loser\<rparr> else m1)
      in m2\<lparr>de_created_at_ms := min (de_created_at_ms winner) (de_created_at_ms loser)\<rparr>)"

definition merge_entry :: "bytes \<Rightarrow> bytes \<Rightarrow> drive_entry \<Rightarrow> drive_entry \<Rightarrow> drive_entry" where
  "merge_entry dev_a dev_b ea eb =
     (if a_wins dev_a dev_b ea eb then merge_pair ea eb else merge_pair eb ea)"

section \<open>The merge of the collections\<close>

definition merge_into :: "bytes \<Rightarrow> bytes \<Rightarrow> (bytes \<times> drive_entry) list \<Rightarrow> drive_entry \<Rightarrow>
    (bytes \<times> drive_entry) list" where
  "merge_into dev_a dev_b m eb =
     (case map_of m (de_id eb) of
        None \<Rightarrow> bt_insert (de_id eb) eb m
      | Some ea \<Rightarrow> bt_insert (de_id eb) (merge_entry dev_a dev_b ea eb) m)"

definition merge_entries :: "drive_manifest \<Rightarrow> drive_manifest \<Rightarrow> (bytes \<times> drive_entry) list" where
  "merge_entries a b =
     foldl (merge_into (dm_device a) (dm_device b))
       (foldl (\<lambda>m e. bt_insert (de_id e) e m) [] (dm_entries a)) (dm_entries b)"

definition share_into :: "(bytes \<times> drive_share) list \<Rightarrow> drive_share \<Rightarrow> (bytes \<times> drive_share) list" where
  "share_into m s =
     (case map_of m (sr_id s) of
        None \<Rightarrow> bt_insert (sr_id s) s m
      | Some x \<Rightarrow>
          if sr_revoked s \<and> \<not> sr_revoked x
          then bt_insert (sr_id s) (x\<lparr>sr_revoked := True, sr_revoked_at_ms := sr_revoked_at_ms s\<rparr>) m
          else m)"

definition merge_shares :: "drive_share list \<Rightarrow> (bytes \<times> drive_share) list" where
  "merge_shares ss = foldl share_into [] ss"

definition tombstone_into :: "(bytes \<times> u64) list \<Rightarrow> drive_tombstone \<Rightarrow> (bytes \<times> u64) list" where
  "tombstone_into m t =
     bt_insert (tb_id t) (max (case map_of m (tb_id t) of None \<Rightarrow> 0 | Some v \<Rightarrow> v) (tb_at_ms t)) m"

definition merge_tombstones :: "drive_tombstone list \<Rightarrow> (bytes \<times> u64) list" where
  "merge_tombstones ts = foldl tombstone_into [] ts"

definition survives :: "(bytes \<times> u64) list \<Rightarrow> bytes \<times> drive_entry \<Rightarrow> bool" where
  "survives tombs p = (case map_of tombs (fst p) of None \<Rightarrow> True | Some t \<Rightarrow> de_modified_at_ms (snd p) > t)"

definition tombstone_list :: "(bytes \<times> u64) list \<Rightarrow> drive_tombstone list" where
  "tombstone_list m = evict_oldest MAX_TOMBSTONES
     (sort_key tb_at_ms (map (\<lambda>(i, t). \<lparr>tb_id = i, tb_at_ms = t\<rparr>) m))"

section \<open>Orphans and name collisions\<close>

definition adopt :: "drive_entry list \<Rightarrow> drive_entry list" where
  "adopt es = map (\<lambda>e. if de_parent e \<noteq> [] \<and> de_parent e \<notin> set (map de_id es)
     then e\<lparr>de_parent := []\<rparr> else e) es"

fun name_fixes :: "(string \<Rightarrow> string) \<Rightarrow> (bytes \<times> string) list \<Rightarrow> drive_entry list \<Rightarrow> bytes list" where
  "name_fixes lower seen [] = []"
| "name_fixes lower seen (e # es) =
     (if de_trashed e then name_fixes lower seen es
      else (let key = (de_parent e, lower (de_name e))
        in if key \<in> set seen then de_id e # name_fixes lower seen es
           else name_fixes lower (key # seen) es))"

definition fix_name :: "(bytes \<Rightarrow> string) \<Rightarrow> drive_entry \<Rightarrow> drive_entry" where
  "fix_name hex e = e\<lparr>de_name := de_name e @ '' ('' @ hex (take 4 (de_id e)) @ '')''\<rparr>"

definition rename_fixes :: "(bytes \<Rightarrow> string) \<Rightarrow> bytes list \<Rightarrow> drive_entry list \<Rightarrow> drive_entry list" where
  "rename_fixes hex ids es = foldl (\<lambda>es i. update_first (\<lambda>e. de_id e = i) (fix_name hex) es) es ids"

section \<open>The merge\<close>

definition merge_pb :: "(bytes \<Rightarrow> string) \<Rightarrow> (string \<Rightarrow> string) \<Rightarrow> drive_manifest \<Rightarrow> drive_manifest \<Rightarrow>
    drive_manifest" where
  "merge_pb hex lower a b =
     (let tombs = merge_tombstones (dm_tombstones a @ dm_tombstones b);
          entries = filter (survives tombs) (merge_entries a b);
          es = adopt (map snd entries)
      in \<lparr>dm_version = DRIVE_VERSION, dm_drive_id = dm_drive_id a,
          dm_revision = max (dm_revision a) (dm_revision b) + 1,
          dm_updated_at_ms = max (dm_updated_at_ms a) (dm_updated_at_ms b),
          dm_device = (if dm_updated_at_ms a \<ge> dm_updated_at_ms b then dm_device a else dm_device b),
          dm_entries = rename_fixes hex (name_fixes lower [] es) es,
          dm_shares = map snd (merge_shares (dm_shares a @ dm_shares b)),
          dm_tombstones = tombstone_list tombs\<rparr>)"

definition merge :: "(bytes \<Rightarrow> string) \<Rightarrow> (string \<Rightarrow> string) \<Rightarrow> drive_manifest \<Rightarrow> drive_manifest \<Rightarrow>
    drive_manifest res" where
  "merge hex lower a b =
     (if dm_drive_id a \<noteq> dm_drive_id b then Inl (Invalid ''cannot merge different drives'')
      else manifest_from_pb (merge_pb hex lower a b))"

section \<open>The merged collections as maps\<close>

lemma map_of_foldl_insert:
  "map_of (foldl (\<lambda>m e. bt_insert (k e) e m) m es) x
    = (case find (\<lambda>e. k e = x) (rev es) of None \<Rightarrow> map_of m x | Some e \<Rightarrow> Some e)"
  by (induction es arbitrary: m rule: rev_induct) auto

lemma find_rev_distinct:
  "distinct (map k es) \<Longrightarrow> find (\<lambda>e. k e = x) (rev es) = find (\<lambda>e. k e = x) es"
proof -
  assume d: "distinct (map k es)"
  have "find (\<lambda>e. k e = x) ys = Some e \<longleftrightarrow> e \<in> set ys \<and> k e = x" if "distinct (map k ys)" for ys e
    using that by (induction ys) auto
  note some = this
  show ?thesis
  proof (cases "find (\<lambda>e. k e = x) es")
    case None
    then have "find (\<lambda>e. k e = x) (rev es) = None" unfolding find_None_iff by simp
    with None show ?thesis by simp
  next
    case (Some e)
    then have "e \<in> set (rev es) \<and> k e = x" using some [OF d] by simp
    then have "find (\<lambda>e. k e = x) (rev es) = Some e" using some [of "rev es"] d by (simp add: rev_map [symmetric])
    with Some show ?thesis by simp
  qed
qed

lemma bt_wf_foldl_insert: "bt_wf m \<Longrightarrow> bt_wf (foldl (\<lambda>m e. bt_insert (k e) e m) m es)"
  by (induction es arbitrary: m) (auto simp: bt_wf_insert)

lemma bt_wf_merge_into: "bt_wf m \<Longrightarrow> bt_wf (foldl (merge_into da db) m es)"
  by (induction es arbitrary: m) (auto simp: merge_into_def bt_wf_insert split: option.splits)

lemma bt_wf_merge_entries: "bt_wf (merge_entries a b)"
  unfolding merge_entries_def by (intro bt_wf_merge_into bt_wf_foldl_insert) simp

lemma map_of_merge_into:
  "distinct (map de_id es) \<Longrightarrow> map_of (foldl (merge_into da db) m es) x
    = (case find_entry x es of None \<Rightarrow> map_of m x
       | Some eb \<Rightarrow> Some (case map_of m x of None \<Rightarrow> eb | Some ea \<Rightarrow> merge_entry da db ea eb))"
proof (induction es arbitrary: m)
  case (Cons e es)
  have "find_entry x es = None" if "x = de_id e" using Cons.prems that by (auto simp: find_entry_None)
  then show ?case using Cons
    by (auto simp: find_entry_def merge_into_def split: option.splits)
qed (simp add: find_entry_def)

text \<open>The entry of an id after the merge, before deletions: the one of the only side that has it,
  or the merge of the two.\<close>

lemma map_of_merge_entries:
  assumes "distinct (map de_id (dm_entries a))" "distinct (map de_id (dm_entries b))"
  shows "map_of (merge_entries a b) x = (case (get a x, get b x) of
      (None, y) \<Rightarrow> y
    | (Some ea, None) \<Rightarrow> Some ea
    | (Some ea, Some eb) \<Rightarrow> Some (merge_entry (dm_device a) (dm_device b) ea eb))"
proof -
  have "map_of (foldl (\<lambda>m e. bt_insert (de_id e) e m) [] (dm_entries a)) x = get a x"
    using find_rev_distinct [OF assms(1)]
    by (simp add: map_of_foldl_insert get_def find_entry_def split: option.splits)
  then show ?thesis
    using map_of_merge_into [OF assms(2)]
    by (simp add: merge_entries_def get_def split: option.splits)
qed

lemma merge_entry_comm:
  assumes "da \<noteq> db \<or> de_modified_at_ms ea \<noteq> de_modified_at_ms eb"
  shows "merge_entry da db ea eb = merge_entry db da eb ea"
  using assms by (auto simp: merge_entry_def a_wins_def)

lemma merge_entries_comm:
  assumes "distinct (map de_id (dm_entries a))" "distinct (map de_id (dm_entries b))"
    and "dm_device a \<noteq> dm_device b"
  shows "merge_entries a b = merge_entries b a"
proof (rule bt_wf_ext [OF bt_wf_merge_entries bt_wf_merge_entries])
  show "map_of (merge_entries a b) = map_of (merge_entries b a)"
    using assms merge_entry_comm
    by (auto simp: fun_eq_iff map_of_merge_entries split: option.splits)
qed

definition tomb_max :: "drive_tombstone list \<Rightarrow> bytes \<Rightarrow> u64 option" where
  "tomb_max ts x = (if \<exists>t \<in> set ts. tb_id t = x
     then Some (Max (tb_at_ms ` {t \<in> set ts. tb_id t = x})) else None)"

lemma bt_wf_merge_tombstones: "bt_wf (merge_tombstones ts)"
proof -
  have "bt_wf m \<Longrightarrow> bt_wf (foldl tombstone_into m ts)" for m
    by (induction ts arbitrary: m) (auto simp: tombstone_into_def bt_wf_insert)
  then show ?thesis by (simp add: merge_tombstones_def)
qed

lemma map_of_merge_tombstones: "map_of (merge_tombstones ts) x = tomb_max ts x"
proof (induction ts rule: rev_induct)
  case Nil
  then show ?case by (simp add: merge_tombstones_def tomb_max_def)
next
  case (snoc t ts)
  let ?B = "tb_at_ms ` {u \<in> set ts. tb_id u = x}"
  have step: "merge_tombstones (ts @ [t]) = tombstone_into (merge_tombstones ts) t"
    by (simp add: merge_tombstones_def)
  show ?case
  proof (cases "tb_id t = x")
    case False
    then have "{u \<in> set (ts @ [t]). tb_id u = x} = {u \<in> set ts. tb_id u = x}" by auto
    then show ?thesis using snoc step False by (auto simp: tombstone_into_def tomb_max_def)
  next
    case True
    then have new: "tb_at_ms ` {u \<in> set (ts @ [t]). tb_id u = x} = insert (tb_at_ms t) ?B" by auto
    have "tomb_max (ts @ [t]) x = Some (Max (insert (tb_at_ms t) ?B))"
      using True unfolding tomb_max_def new by auto
    also have "\<dots> = Some (max (case tomb_max ts x of None \<Rightarrow> 0 | Some v \<Rightarrow> v) (tb_at_ms t))"
    proof (cases "\<exists>u \<in> set ts. tb_id u = x")
      case True
      then have "?B \<noteq> {}" by auto
      then have "Max (insert (tb_at_ms t) ?B) = max (tb_at_ms t) (Max ?B)" by (intro Max_insert) simp_all
      then show ?thesis using True by (simp add: tomb_max_def max.commute)
    next
      case False
      then have B: "?B = {}" by auto
      show ?thesis unfolding B using False by (simp add: tomb_max_def)
    qed
    finally show ?thesis using snoc step True by (simp add: tombstone_into_def)
  qed
qed

lemma merge_tombstones_comm: "merge_tombstones (s @ t) = merge_tombstones (t @ s)"
  by (rule bt_wf_ext [OF bt_wf_merge_tombstones bt_wf_merge_tombstones])
    (auto simp: fun_eq_iff map_of_merge_tombstones tomb_max_def Un_commute)

section \<open>The passes after the merge of the collections\<close>

text \<open>Two entries that differ at most in name and parent.\<close>

definition same_content :: "drive_entry \<Rightarrow> drive_entry \<Rightarrow> bool" where
  "same_content e e' \<longleftrightarrow> (\<exists>p n. e' = e\<lparr>de_parent := p, de_name := n\<rparr>)"

lemma same_content_refl: "same_content e e"
  unfolding same_content_def by (intro exI [of _ "de_parent e"] exI [of _ "de_name e"]) simp

lemma same_content_trans: "same_content e f \<Longrightarrow> same_content f g \<Longrightarrow> same_content e g"
  by (force simp: same_content_def)

lemma same_contentD:
  "same_content e e' \<Longrightarrow> de_id e' = de_id e \<and> de_current e' = de_current e
    \<and> de_versions e' = de_versions e \<and> de_modified_at_ms e' = de_modified_at_ms e
    \<and> de_trashed e' = de_trashed e \<and> de_kind e' = de_kind e"
  by (auto simp: same_content_def)

lemma adopt_content: "list_all2 same_content es (adopt es)"
proof -
  have "same_content e (e\<lparr>de_parent := p\<rparr>)" for e p
    unfolding same_content_def by (intro exI [of _ p] exI [of _ "de_name e"]) simp
  then show ?thesis
    by (auto simp: adopt_def list_all2_conv_all_nth same_content_refl)
qed

lemma update_first_content:
  "list_all2 same_content es (update_first P (fix_name hex) es)"
proof (induction es)
  case (Cons e es)
  have "same_content e (fix_name hex e)"
    unfolding same_content_def fix_name_def
    by (intro exI [of _ "de_parent e"] exI) (rule drive_entry.equality, simp_all)
  then show ?case using Cons by (simp add: same_content_refl list.rel_refl)
qed simp

lemma rename_content: "list_all2 same_content es (rename_fixes hex ids es)"
proof (induction ids arbitrary: es)
  case Nil
  then show ?case by (simp add: rename_fixes_def list.rel_refl same_content_refl)
next
  case (Cons i ids)
  then show ?case
    using list_all2_trans [of same_content same_content same_content, OF same_content_trans
        update_first_content Cons]
    by (simp add: rename_fixes_def)
qed

lemma merge_content:
  "list_all2 same_content
     (map snd (filter (survives (merge_tombstones (dm_tombstones a @ dm_tombstones b))) (merge_entries a b)))
     (dm_entries (merge_pb hex lower a b))"
  using list_all2_trans [of same_content same_content same_content, OF same_content_trans
      adopt_content rename_content]
  by (simp add: merge_pb_def Let_def)

lemma from_pb_id: "manifest_from_pb m = Inr m' \<Longrightarrow> m' = m"
  by (auto simp: manifest_from_pb_def Let_def and_then_ok)

lemma merge_ok: "merge hex lower a b = Inr m \<longleftrightarrow>
    dm_drive_id a = dm_drive_id b \<and> m = merge_pb hex lower a b \<and> drive_ok m"
  using from_pb_id by (auto simp: merge_def drive_ok_def)

section \<open>Shares\<close>

lemma bt_wf_share_into: "bt_wf m \<Longrightarrow> bt_wf (foldl share_into m ss)"
  by (induction ss arbitrary: m) (auto simp: share_into_def bt_wf_insert split: option.splits)

definition keyed_shares :: "(bytes \<times> drive_share) list \<Rightarrow> bool" where
  "keyed_shares m \<longleftrightarrow> (\<forall>p \<in> set m. fst p = sr_id (snd p) \<and> share_ok (snd p))"

lemma set_bt_insert: "set (bt_insert k v m) \<subseteq> insert (k, v) (set m)"
  by (induction k v m rule: bt_insert.induct) auto

lemma keyed_insert: "keyed_shares m \<Longrightarrow> sr_id s = k \<Longrightarrow> share_ok s \<Longrightarrow> keyed_shares (bt_insert k s m)"
  using set_bt_insert [of k s m] unfolding keyed_shares_def by fastforce

lemma keyed_share_into: "keyed_shares m \<Longrightarrow> share_ok s \<Longrightarrow> keyed_shares (share_into m s)"
proof (cases "map_of m (sr_id s)")
  case (Some x)
  assume m: "keyed_shares m"
  then have "sr_id x = sr_id s" "share_ok x"
    using map_of_SomeD [OF Some] by (auto simp: keyed_shares_def)
  then show ?thesis using m Some by (auto simp: share_into_def share_ok_def intro!: keyed_insert)
qed (simp add: share_into_def keyed_insert)

lemma keyed_merge_shares: "\<forall>s \<in> set ss. share_ok s \<Longrightarrow> keyed_shares (merge_shares ss)"
proof -
  have "keyed_shares m \<Longrightarrow> \<forall>s \<in> set ss. share_ok s \<Longrightarrow> keyed_shares (foldl share_into m ss)" for m
    by (induction ss arbitrary: m) (simp_all add: keyed_share_into)
  moreover have "keyed_shares []" by (simp add: keyed_shares_def)
  ultimately show "\<forall>s \<in> set ss. share_ok s \<Longrightarrow> keyed_shares (merge_shares ss)"
    by (simp add: merge_shares_def)
qed

lemma share_into_sticky:
  "map_of m i = Some x \<Longrightarrow> sr_revoked x \<Longrightarrow> \<exists>y. map_of (share_into m s) i = Some y \<and> sr_revoked y"
  by (auto simp: share_into_def split: option.splits)

text \<open>Once a share is revoked on some side, it is revoked in the merge.\<close>

lemma share_revoked_sticky:
  "\<exists>x. map_of m i = Some x \<and> sr_revoked x \<Longrightarrow>
   \<exists>x. map_of (foldl share_into m ss) i = Some x \<and> sr_revoked x"
proof (induction ss arbitrary: m)
  case (Cons s ss)
  then have "\<exists>y. map_of (share_into m s) i = Some y \<and> sr_revoked y" using share_into_sticky by blast
  then show ?case using Cons.IH by simp
qed simp

lemma merge_shares_sticky:
  assumes "s \<in> set ss" "sr_revoked s"
  shows "\<exists>x. map_of (merge_shares ss) (sr_id s) = Some x \<and> sr_revoked x"
proof -
  obtain us vs where ss: "ss = us @ s # vs" using assms(1) by (metis split_list)
  let ?m = "foldl share_into [] us"
  have "\<exists>x. map_of (share_into ?m s) (sr_id s) = Some x \<and> sr_revoked x"
    using assms(2) by (auto simp: share_into_def split: option.splits)
  from share_revoked_sticky [OF this, of vs] show ?thesis by (simp add: merge_shares_def ss)
qed

section \<open>Properties\<close>

lemma drive_okD:
  assumes "drive_ok m"
  shows "distinct (map de_id (dm_entries m))" "s \<in> set (dm_shares m) \<Longrightarrow> share_ok s"
  using assms tree_okD(1) by (auto simp: drive_ok_iff)

text \<open>
  C36. Merging is symmetric in what it decides: two devices that merge each other's revision, each
  from its own side, both succeed or both fail, and obtain the same entries, tombstones, revision
  and time.
\<close>

theorem merge_symmetric:
  assumes "drive_ok a" "drive_ok b" "dm_device a \<noteq> dm_device b"
  shows "is_ok (merge hex lower a b) = is_ok (merge hex lower b a)
    \<and> dm_entries (merge_pb hex lower a b) = dm_entries (merge_pb hex lower b a)
    \<and> dm_tombstones (merge_pb hex lower a b) = dm_tombstones (merge_pb hex lower b a)
    \<and> dm_revision (merge_pb hex lower a b) = dm_revision (merge_pb hex lower b a)
    \<and> dm_updated_at_ms (merge_pb hex lower a b) = dm_updated_at_ms (merge_pb hex lower b a)"
proof -
  let ?m = "merge_pb hex lower a b" and ?n = "merge_pb hex lower b a"
  have e: "merge_entries a b = merge_entries b a"
    by (rule merge_entries_comm [OF drive_okD(1) [OF assms(1)] drive_okD(1) [OF assms(2)] assms(3)])
  have t: "merge_tombstones (dm_tombstones a @ dm_tombstones b)
      = merge_tombstones (dm_tombstones b @ dm_tombstones a)"
    by (rule merge_tombstones_comm)
  have same: "dm_entries ?m = dm_entries ?n" "dm_tombstones ?m = dm_tombstones ?n"
    "dm_revision ?m = dm_revision ?n" "dm_updated_at_ms ?m = dm_updated_at_ms ?n"
    using e t by (simp_all add: merge_pb_def Let_def max.commute)
  have sh: "\<forall>s \<in> set (dm_shares (merge_pb hex lower x y)). share_ok s" if "drive_ok x" "drive_ok y" for x y
  proof -
    have "keyed_shares (merge_shares (dm_shares x @ dm_shares y))"
      using drive_okD(2) that by (intro keyed_merge_shares) auto
    then show ?thesis by (auto simp: merge_pb_def Let_def keyed_shares_def)
  qed
  have "drive_ok ?m \<longleftrightarrow> drive_ok ?n" if "dm_drive_id a = dm_drive_id b"
  proof -
    have "dm_drive_id ?m = dm_drive_id ?n" "dm_version ?m = dm_version ?n"
      using that by (simp_all add: merge_pb_def Let_def)
    then show ?thesis using sh [OF assms(1,2)] sh [OF assms(2,1)] unfolding drive_ok_iff same by simp
  qed
  then have "is_ok (merge hex lower a b) = is_ok (merge hex lower b a)"
    by (auto simp: is_ok_iff merge_ok)
  then show ?thesis using same by blast
qed

text \<open>The entries of the merged manifest, up to name and parent.\<close>

lemma merge_pair_id [simp]: "de_id (merge_pair w l) = de_id w"
  "de_current (merge_pair w l) = de_current w"
  "de_versions (merge_pair w l) = evict_oldest MAX_VERSIONS_PER_ENTRY
     (map snd (add_loser w l (union_versions (de_versions w @ de_versions l))))"
  by (simp_all add: merge_pair_def Let_def)

lemma merged_entry:
  assumes "drive_ok a" "drive_ok b" "e \<in> set (dm_entries (merge_pb hex lower a b))"
  shows "\<exists>e0. map_of (merge_entries a b) (de_id e) = Some e0 \<and> same_content e0 e
    \<and> survives (merge_tombstones (dm_tombstones a @ dm_tombstones b)) (de_id e, e0)"
proof -
  from list_all2_ball [OF merge_content assms(3)] obtain p where
    p: "p \<in> set (merge_entries a b)" "same_content (snd p) e"
      "survives (merge_tombstones (dm_tombstones a @ dm_tombstones b)) p" by auto
  have m: "map_of (merge_entries a b) (fst p) = Some (snd p)"
    using p(1) bt_wf_distinct [OF bt_wf_merge_entries] by simp
  have me: "de_id (merge_entry da db ea eb) = de_id ea" if "de_id ea = de_id eb" for da db ea eb
    using that by (simp add: merge_entry_def)
  have "de_id (snd p) = fst p"
  proof (cases "get a (fst p)")
    case None
    then show ?thesis
      using m get_Some map_of_merge_entries [OF drive_okD(1) [OF assms(1)] drive_okD(1) [OF assms(2)]] by simp
  next
    case (Some ea)
    then have ea: "de_id ea = fst p" using get_Some by blast
    show ?thesis
    proof (cases "get b (fst p)")
      case None
      then show ?thesis using Some ea m
          map_of_merge_entries [OF drive_okD(1) [OF assms(1)] drive_okD(1) [OF assms(2)]] by simp
    next
      case eb: (Some eb)
      then have "de_id eb = fst p" using get_Some by blast
      then have "de_id (merge_entry (dm_device a) (dm_device b) ea eb) = fst p" using ea me by simp
      moreover have "snd p = merge_entry (dm_device a) (dm_device b) ea eb"
        using Some eb m
          map_of_merge_entries [OF drive_okD(1) [OF assms(1)] drive_okD(1) [OF assms(2)], of "fst p"] by simp
      ultimately show ?thesis by simp
    qed
  qed
  then have "de_id e = fst p" using same_contentD [OF p(2)] by simp
  then show ?thesis using m p by auto
qed

text \<open>
  A merge respects deletions and revocations: an entry deleted on either side is back only
  when it was modified after every deletion, and a share revoked on either side is revoked.
\<close>

theorem merge_respects_deletions:
  assumes "drive_ok a" "drive_ok b" "merge hex lower a b = Inr m"
  shows "(\<forall>t \<in> set (dm_tombstones a @ dm_tombstones b). \<forall>e \<in> set (dm_entries m).
        de_id e = tb_id t \<longrightarrow> de_modified_at_ms e > tb_at_ms t)
    \<and> (\<forall>s \<in> set (dm_shares a @ dm_shares b). sr_revoked s \<longrightarrow>
        (\<exists>s' \<in> set (dm_shares m). sr_id s' = sr_id s)
        \<and> (\<forall>s' \<in> set (dm_shares m). sr_id s' = sr_id s \<longrightarrow> sr_revoked s'))"
proof -
  have m: "m = merge_pb hex lower a b" using assms(3) by (simp add: merge_ok)
  let ?ts = "dm_tombstones a @ dm_tombstones b" and ?ss = "dm_shares a @ dm_shares b"
  have "de_modified_at_ms e > tb_at_ms t"
    if t: "t \<in> set ?ts" "e \<in> set (dm_entries m)" "de_id e = tb_id t" for t e
  proof -
    obtain e0 where e0: "same_content e0 e" "survives (merge_tombstones ?ts) (de_id e, e0)"
      using merged_entry [OF assms(1,2)] t(2) m by blast
    have "finite (tb_at_ms ` {u \<in> set ?ts. tb_id u = tb_id t})" by simp
    then have "tb_at_ms t \<le> Max (tb_at_ms ` {u \<in> set ?ts. tb_id u = tb_id t})"
      using t(1) by (intro Max_ge) auto
    moreover have "tomb_max ?ts (tb_id t) = Some (Max (tb_at_ms ` {u \<in> set ?ts. tb_id u = tb_id t}))"
      using t(1) by (auto simp: tomb_max_def)
    ultimately show ?thesis
      using e0 t(3) same_contentD [OF e0(1)]
      by (simp add: survives_def map_of_merge_tombstones)
  qed
  moreover have "(\<exists>s' \<in> set (dm_shares m). sr_id s' = sr_id s)
      \<and> (\<forall>s' \<in> set (dm_shares m). sr_id s' = sr_id s \<longrightarrow> sr_revoked s')"
    if s: "s \<in> set ?ss" "sr_revoked s" for s
  proof -
    have k: "keyed_shares (merge_shares ?ss)"
      using drive_okD(2) [OF assms(1)] drive_okD(2) [OF assms(2)] by (intro keyed_merge_shares) auto
    have "bt_wf (merge_shares ?ss)" by (simp add: merge_shares_def bt_wf_share_into)
    then have d: "distinct (map fst (merge_shares ?ss))" by (rule bt_wf_distinct)
    obtain x where x: "map_of (merge_shares ?ss) (sr_id s) = Some x" "sr_revoked x"
      using merge_shares_sticky [OF s] by blast
    have sh: "dm_shares m = map snd (merge_shares ?ss)" by (simp add: m merge_pb_def Let_def)
    have xin: "(sr_id s, x) \<in> set (merge_shares ?ss)" by (rule map_of_SomeD [OF x(1)])
    have "sr_id x = sr_id s" using k xin by (auto simp: keyed_shares_def)
    moreover have "s' = x" if "s' \<in> set (dm_shares m)" "sr_id s' = sr_id s" for s'
    proof -
      obtain q where q: "q \<in> set (merge_shares ?ss)" "s' = snd q" using \<open>s' \<in> set (dm_shares m)\<close> sh by auto
      have "fst q = sr_id s" using k that(2) q by (simp add: keyed_shares_def)
      then have "q = (sr_id s, s')" using q(2) by (metis prod.collapse)
      then have "map_of (merge_shares ?ss) (sr_id s) = Some s'" using q(1) d by simp
      then show ?thesis using x(1) by simp
    qed
    moreover have "x \<in> set (dm_shares m)" using xin sh by force
    ultimately show ?thesis using x(2) by metis
  qed
  ultimately show ?thesis by blast
qed

lemma length_or_insert: "length (or_insert k v m) \<le> Suc (length m)"
proof -
  have "length (bt_insert k v m) \<le> Suc (length m)"
    by (induction k v m rule: bt_insert.induct) auto
  then show ?thesis by (simp add: or_insert_def split: option.splits)
qed

lemma length_union_versions: "length (union_versions vs) \<le> length vs"
proof -
  have "length (foldl (\<lambda>m v. or_insert (dv_no v) v m) m vs) \<le> length m + length vs" for m
  proof (induction vs arbitrary: m)
    case (Cons v vs)
    then show ?case using le_trans [OF Cons [of "or_insert (dv_no v) v m"]] length_or_insert [of "dv_no v" v m]
      by simp
  qed simp
  from this [of "[]"] show ?thesis by (simp add: union_versions_def)
qed

lemma bt_insert_mem: "(k, v) \<in> set (bt_insert k v m)"
  by (induction k v m rule: bt_insert.induct) auto

lemma length_bt_insert_le: "length (bt_insert k v m) \<le> Suc (length m)"
  by (induction k v m rule: bt_insert.induct) auto

text \<open>The current content of the loser is among the versions, or it is the winner's.\<close>

lemma loser_kept:
  assumes "de_current l = Some lc" "de_current w = Some wc"
    and "length (de_versions w) + length (de_versions l) < MAX_VERSIONS_PER_ENTRY"
  shows "or_cid lc = or_cid wc \<or> (\<exists>v \<in> set (de_versions (merge_pair w l)). object_cid_is (or_cid lc) v)"
proof -
  let ?u = "union_versions (de_versions w @ de_versions l)"
  have "length (add_loser w l ?u) \<le> Suc (length ?u)"
    using assms(1,2) length_bt_insert_le by (auto simp: add_loser_def Let_def)
  also have "\<dots> \<le> MAX_VERSIONS_PER_ENTRY"
    using length_union_versions [of "de_versions w @ de_versions l"] assms(3) by simp
  finally have all: "de_versions (merge_pair w l) = map snd (add_loser w l ?u)"
    by (simp add: evict_oldest_drop)
  show ?thesis
  proof (cases "or_cid lc = or_cid wc \<or> list_ex (object_cid_is (or_cid lc)) (map snd ?u)")
    case True
    then show ?thesis
      unfolding all using assms(1,2) by (auto simp: add_loser_def list_ex_iff)
  next
    case False
    let ?no = "(if ?u = [] then 0 else fst (last ?u)) + 1"
    let ?v = "\<lparr>dv_no = ?no, dv_object = Some lc, dv_created_at_ms = de_modified_at_ms l,
      dv_device = [], dv_note = ''concurrent edit''\<rparr>"
    have "add_loser w l ?u = bt_insert ?no ?v ?u"
      using False assms(1,2) by (simp add: add_loser_def Let_def)
    then have "?v \<in> set (map snd (add_loser w l ?u))"
      using bt_insert_mem [of ?no ?v ?u] by force
    then show ?thesis unfolding all by (intro disjI2 bexI [of _ ?v]) (simp_all add: object_cid_is_def)
  qed
qed


section \<open>A merge that cannot succeed\<close>

definition folder_entry :: "byte \<Rightarrow> bytes \<Rightarrow> string \<Rightarrow> u64 \<Rightarrow> drive_entry" where
  "folder_entry i p n t = entry_default\<lparr>de_id := replicate 16 i, de_parent := p,
     de_kind := KIND_FOLDER, de_name := n, de_modified_at_ms := t\<rparr>"

definition two_folders :: "bytes \<Rightarrow> bytes \<Rightarrow> bytes \<Rightarrow> u64 \<Rightarrow> u64 \<Rightarrow> drive_manifest" where
  "two_folders dev p q t u = \<lparr>dm_version = 1, dm_drive_id = replicate 16 1, dm_revision = 2,
     dm_updated_at_ms = 9, dm_device = dev, dm_entries = [folder_entry 2 p ''A'' t, folder_entry 3 q ''B'' u],
     dm_shares = [], dm_tombstones = []\<rparr>"

lemmas two_folder_simps = two_folders_def folder_entry_def entry_default_def

lemma two_folders_ok:
  assumes "(p = [] \<and> q = replicate 16 2) \<or> (p = replicate 16 3 \<and> q = [])"
  shows "drive_ok (two_folders dev p q t u)"
proof -
  let ?es = "dm_entries (two_folders dev p q t u)"
  have r: "rooted (parent_of ?es) (replicate 16 2)" "rooted (parent_of ?es) (replicate 16 3)"
    using assms by (auto simp: two_folder_simps parent_of_def find_entry_def
        intro!: rooted.rooted_Nil rooted.rooted_step [of _ "replicate 16 2"] rooted.rooted_step [of _ "replicate 16 3"])
  have "tree_ok ?es"
    using r rooted.rooted_Nil [of "parent_of ?es"] assms
    by (auto simp: tree_ok_def parent_is_folder_def find_entry_def two_folder_simps)
  then show ?thesis
    using assms by (auto simp: drive_ok_iff entry_ok_iff two_folder_simps DRIVE_VERSION_def ID_LEN_def
        MAX_ENTRIES_def MAX_NAME_def)
qed

lemma id_order: "replicate 16 (2 :: byte) < replicate 16 3" "\<not> replicate 16 (3 :: byte) < replicate 16 2"
proof -
  have r: "a < b \<Longrightarrow> 0 < n \<Longrightarrow> replicate n a < replicate n b" for a b :: byte and n
    by (cases n) simp_all
  show "replicate 16 (2 :: byte) < replicate 16 3" by (rule r) simp_all
  then show "\<not> replicate 16 (3 :: byte) < replicate 16 2" by (metis order_less_asym)
qed

lemma two_folders_merge:
  assumes "{a, b} = {two_folders [1] (replicate 16 3) [] 5 0, two_folders [2] [] (replicate 16 2) 0 6}"
  shows "shape (dm_entries (merge_pb hex lower a b))
    = [(replicate 16 2, replicate 16 3, KIND_FOLDER), (replicate 16 3, replicate 16 2, KIND_FOLDER)]"
proof -
  have "a = two_folders [1] (replicate 16 3) [] 5 0 \<and> b = two_folders [2] [] (replicate 16 2) 0 6
      \<or> b = two_folders [1] (replicate 16 3) [] 5 0 \<and> a = two_folders [2] [] (replicate 16 2) 0 6"
    using assms by (auto simp: doubleton_eq_iff)
  then show ?thesis
    using id_order
    by (elim disjE conjE)
      (simp_all add: two_folder_simps merge_pb_def merge_entries_def merge_into_def merge_entry_def
        a_wins_def merge_pair_def union_versions_def add_loser_def merge_tombstones_def survives_def
        adopt_def rename_fixes_def shape_def evict_oldest_drop Let_def)
qed

lemma two_folders_cycle:
  assumes "{a, b} = {two_folders [1] (replicate 16 3) [] 5 0, two_folders [2] [] (replicate 16 2) 0 6}"
  shows "\<not> is_ok (merge hex lower a b)"
proof
  let ?es = "[folder_entry 2 (replicate 16 3) [] 0, folder_entry 3 (replicate 16 2) [] 0]"
  assume "is_ok (merge hex lower a b)"
  then have "drive_ok (merge_pb hex lower a b)" by (auto simp: is_ok_iff merge_ok)
  then have "tree_ok (dm_entries (merge_pb hex lower a b))" by (simp add: drive_ok_iff)
  moreover have "shape (dm_entries (merge_pb hex lower a b)) = shape ?es"
    unfolding two_folders_merge [OF assms] by (simp add: shape_def folder_entry_def)
  ultimately have t: "tree_ok ?es" using tree_ok_shape by blast
  have p: "parent_of ?es (replicate 16 2) = replicate 16 3" "parent_of ?es (replicate 16 3) = replicate 16 2"
    by (simp_all add: parent_of_def find_entry_def folder_entry_def)
  have "lies_under (parent_of ?es) (replicate 16 2) (replicate 16 3)"
    by (rule lies_under.under_step) (simp_all add: p(2) lies_under.under_self)
  moreover have "rooted (parent_of ?es) (replicate 16 2)"
    by (rule rooted_entry [OF t]) (simp add: folder_entry_def)
  ultimately show False using no_cycle [of "parent_of ?es" "replicate 16 2"] p(1) by simp
qed


section \<open>Witnesses\<close>

definition wit_side :: "byte \<Rightarrow> byte \<Rightarrow> u64 \<Rightarrow> drive_manifest" where
  "wit_side dev c t = \<lparr>dm_version = 1, dm_drive_id = replicate 16 1, dm_revision = 2,
     dm_updated_at_ms = t, dm_device = [dev],
     dm_entries = [entry_default\<lparr>de_id := replicate 16 3, de_name := ''a'', de_modified_at_ms := t,
       de_current := Some (wit_ref\<lparr>or_cid := replicate 32 c\<rparr>)\<rparr>],
     dm_shares = [\<lparr>sr_id = replicate 16 4, sr_entry = replicate 16 3, sr_grantee = ''b'',
       sr_mode = 0, sr_permission = 0, sr_granted_at_ms = 0, sr_revoked = (dev = 1),
       sr_revoked_at_ms = 0, sr_group = []\<rparr>],
     dm_tombstones = [\<lparr>tb_id = replicate 16 3, tb_at_ms = 2\<rparr>]\<rparr>"

lemma one_entry_tree: "de_id e \<noteq> [] \<Longrightarrow> de_parent e = [] \<Longrightarrow> tree_ok [e]"
  by (simp add: tree_ok_def parent_is_folder_def rooted.rooted_Nil)

lemma wit_side_ok: "drive_ok (wit_side dev c t)"
proof -
  have "validate_object_ref (wit_ref\<lparr>or_cid := replicate 32 c\<rparr>) = Inr ()"
    by (simp add: validate_object_ref_def wit_ref_def check_body_def DRIVE_VERSION_def require_hash_def
        SEGMENT_PLAINTEXT_def CHUNK_SIZE_def TAG_LEN_def MAX_OBJECT_PLAINTEXT_def)
  then show ?thesis
    by (auto simp: drive_ok_iff wit_side_def entry_ok_iff entry_default_def DRIVE_VERSION_def ID_LEN_def
        MAX_ENTRIES_def MAX_NAME_def KIND_FILE_def MAX_TOMBSTONES_def share_ok_def intro!: one_entry_tree)
qed

text \<open>Two devices edited the same file; one also revoked its share and had deleted it earlier.\<close>

lemma wit_ref_cid_ok: "validate_object_ref (wit_ref\<lparr>or_cid := replicate 32 c\<rparr>) = Inr ()"
  by (simp add: validate_object_ref_def wit_ref_def check_body_def DRIVE_VERSION_def require_hash_def
      SEGMENT_PLAINTEXT_def CHUNK_SIZE_def TAG_LEN_def MAX_OBJECT_PLAINTEXT_def)

lemma wit_merge:
  "\<exists>m e. merge (\<lambda>_. []) id (wit_side 1 5 7) (wit_side 2 6 8) = Inr m \<and> get m (replicate 16 3) = Some e"
proof -
  let ?a = "wit_side 1 5 7" and ?b = "wit_side 2 6 8"
  let ?m = "merge_pb (\<lambda>_. []) id ?a ?b"
  let ?e = "merge_pair (hd (dm_entries ?b)) (hd (dm_entries ?a))"
  have es: "dm_entries ?m = [?e]"
    by (simp add: merge_pb_def Let_def merge_entries_def merge_into_def merge_entry_def a_wins_def
        wit_side_def entry_default_def merge_tombstones_def tombstone_into_def survives_def
        adopt_def rename_fixes_def) (simp add: merge_pair_def)
  have e: "de_id ?e = replicate 16 3" "de_parent ?e = []" "de_name ?e = ''a''"
    by (simp_all add: merge_pair_def Let_def wit_side_def entry_default_def)
  have "entry_ok ?e"
    using wit_ref_cid_ok [of 5] wit_ref_cid_ok [of 6]
    by (simp add: entry_ok_iff merge_pair_def Let_def wit_side_def entry_default_def union_versions_def
        add_loser_def evict_oldest_drop ID_LEN_def MAX_NAME_def KIND_FILE_def MAX_VERSIONS_PER_ENTRY_def)
  moreover have "\<forall>s \<in> set (dm_shares ?m). share_ok s"
  proof -
    have "keyed_shares (merge_shares (dm_shares ?a @ dm_shares ?b))"
      using drive_okD(2) [OF wit_side_ok] by (intro keyed_merge_shares) auto
    then show ?thesis by (auto simp: merge_pb_def Let_def keyed_shares_def)
  qed
  moreover have "length (dm_tombstones ?m) \<le> MAX_TOMBSTONES \<and> (\<forall>t \<in> set (dm_tombstones ?m). length (tb_id t) = ID_LEN)"
    by (simp add: merge_pb_def Let_def wit_side_def merge_tombstones_def tombstone_into_def
        tombstone_list_def evict_oldest_drop MAX_TOMBSTONES_def ID_LEN_def)
  moreover have "tree_ok [?e]" using e by (intro one_entry_tree) simp_all
  ultimately have "drive_ok ?m"
    by (simp add: drive_ok_iff es MAX_ENTRIES_def) (simp add: merge_pb_def Let_def wit_side_def ID_LEN_def)
  then have "merge (\<lambda>_. []) id ?a ?b = Inr ?m" by (simp add: merge_ok) (simp add: wit_side_def)
  moreover have "get ?m (replicate 16 3) = Some ?e" using es e(1) by (simp add: get_def find_entry_def)
  ultimately show ?thesis by blast
qed

theorem merge_symmetric_witness:
  "is_ok (merge (\<lambda>_. []) id (wit_side 1 5 7) (wit_side 2 6 8))
    = is_ok (merge (\<lambda>_. []) id (wit_side 2 6 8) (wit_side 1 5 7))"
  using merge_symmetric [OF wit_side_ok wit_side_ok, of 1 5 7 2 6 8 "\<lambda>_. []" id] by (simp add: wit_side_def)

theorem merge_respects_deletions_witness:
  "\<exists>m. merge (\<lambda>_. []) id (wit_side 1 5 7) (wit_side 2 6 8) = Inr m
    \<and> (\<forall>s' \<in> set (dm_shares m). sr_id s' = replicate 16 4 \<longrightarrow> sr_revoked s')"
proof -
  obtain m where m: "merge (\<lambda>_. []) id (wit_side 1 5 7) (wit_side 2 6 8) = Inr m" using wit_merge by blast
  from merge_respects_deletions [OF wit_side_ok wit_side_ok m] m show ?thesis
    by (auto simp: wit_side_def)
qed


end
