(* ===== verification/Space.thy ===== *)
theory Space
  imports Drive_Manifest Net_Identity
begin

text \<open>
  Spaces: \<open>hashgram-app/src/space.rs\<close>, a signed event log that every member replays into one
  role table. Library code is a record of functions: hex, the protobuf encoding of an event body,
  SHA-256 and the ed25519 check; the network identity is carried with them. \<open>apply_event\<close>
  returns the answer together with the state, since a pending event changes the state although it
  is answered with an error.
\<close>

section \<open>Roles\<close>

datatype space_role = RoleNone | RoleGuest | RoleMember | RoleAdmin | RoleOwner

fun rank :: "space_role \<Rightarrow> nat" where
  "rank RoleNone = 0"
| "rank RoleGuest = 1"
| "rank RoleMember = 2"
| "rank RoleAdmin = 3"
| "rank RoleOwner = 4"

lemma rank_inj [simp]: "rank r = rank s \<longleftrightarrow> r = s"
  by (cases r; cases s) simp_all

instantiation space_role :: linorder
begin

definition less_eq_space_role :: "space_role \<Rightarrow> space_role \<Rightarrow> bool" where
  "less_eq_space_role r s \<longleftrightarrow> rank r \<le> rank s"

definition less_space_role :: "space_role \<Rightarrow> space_role \<Rightarrow> bool" where
  "less_space_role r s \<longleftrightarrow> rank r < rank s"

instance
  by standard (auto simp: less_eq_space_role_def less_space_role_def)

end

lemmas role_order = less_eq_space_role_def less_space_role_def

text \<open>\<open>SpaceRole::try_from\<close> with the default \<open>None\<close>, and the cast back.\<close>

definition role :: "int \<Rightarrow> space_role" where
  "role r = (if r = 1 then RoleGuest else if r = 2 then RoleMember else if r = 3 then RoleAdmin
     else if r = 4 then RoleOwner else RoleNone)"

definition role_int :: "space_role \<Rightarrow> int" where
  "role_int r = int (rank r)"

lemma role_role_int [simp]: "role (role_int r) = r"
  by (cases r) (simp_all add: role_def role_int_def)

section \<open>Events\<close>

definition MAX_MEMBERS :: nat where "MAX_MEMBERS = 10000"
definition SPACE_MAX_NAME :: nat where "SPACE_MAX_NAME = 128"
definition SPACE_MAX_TEXT :: nat where "SPACE_MAX_TEXT = 64 * 1024"
definition MAX_PENDING :: nat where "MAX_PENDING = 4096"
definition MAX_CONTENT :: nat where "MAX_CONTENT = 50000"

datatype space_body =
    BCreate string string string
  | BInfo string string "blob_ref option"
  | BMemberAdd string int
  | BMemberRemove string string
  | BRoleChange string int
  | BAnnouncement string string "drive_capability list"
  | BDriveShare "drive_capability option" string
  | BDriveUnshare bytes
  | BPost string "blob_ref list" "drive_capability list"
  | BComment bytes string

record space_event =
  sv_version :: u32
  sv_space_id :: bytes
  sv_event_id :: bytes
  sv_actor :: string
  sv_device :: bytes
  sv_sequence :: u64
  sv_parent :: bytes
  sv_at_ms :: u64
  sv_body :: "space_body option"
  sv_signature :: bytes

record space_lib =
  sx_net :: network_identity
  sx_hex :: "bytes \<Rightarrow> string"
  sx_encode :: "space_body \<Rightarrow> bytes"
  sx_sha256 :: "bytes \<Rightarrow> bytes"
  sx_ed25519 :: "bytes \<Rightarrow> bytes \<Rightarrow> bytes \<Rightarrow> bool"

fun body_tag :: "space_body option \<Rightarrow> u32" where
  "body_tag None = 0"
| "body_tag (Some (BCreate _ _ _)) = 10"
| "body_tag (Some (BInfo _ _ _)) = 11"
| "body_tag (Some (BMemberAdd _ _)) = 12"
| "body_tag (Some (BMemberRemove _ _)) = 13"
| "body_tag (Some (BRoleChange _ _)) = 14"
| "body_tag (Some (BAnnouncement _ _ _)) = 15"
| "body_tag (Some (BDriveShare _ _)) = 16"
| "body_tag (Some (BDriveUnshare _)) = 17"
| "body_tag (Some (BPost _ _ _)) = 18"
| "body_tag (Some (BComment _ _)) = 19"

definition body_bytes :: "space_lib \<Rightarrow> space_event \<Rightarrow> bytes" where
  "body_bytes x e = (case sv_body e of None \<Rightarrow> [] | Some b \<Rightarrow> sx_encode x b)"

definition space_payload :: "space_lib \<Rightarrow> space_event \<Rightarrow> bytes res" where
  "space_payload x e =
     (case cb_finish
        (cb_bytes ''body'' (body_bytes x e)
        (cb_u32 (body_tag (sv_body e))
        (cb_u64 (sv_at_ms e)
        (cb_bytes ''parent_id'' (sv_parent e)
        (cb_u64 (sv_sequence e)
        (cb_bytes ''device_pubkey'' (sv_device e)
        (cb_string ''actor'' (sv_actor e)
        (cb_bytes ''event_id'' (sv_event_id e)
        (cb_bytes ''space_id'' (sv_space_id e)
        (cb_u32 (sv_version e) cb_new)))))))))) of
        Inl err \<Rightarrow> Inl (CanonicalErr err)
      | Inr b \<Rightarrow> Inr b)"

text \<open>A signer is its public key and its function from digests to signatures.\<close>

definition space_sign ::
    "space_lib \<Rightarrow> bytes \<times> (bytes \<Rightarrow> bytes) \<Rightarrow> space_event \<Rightarrow> space_event res" where
  "space_sign x signer e =
     (let e' = e\<lparr>sv_device := fst signer\<rparr> in
      and_then (space_payload x e') (\<lambda>payload.
        Inr (e'\<lparr>sv_signature := app_sign (sx_sha256 x) (\<lambda>_. snd signer) (sx_net x)
               SpaceEventPurpose () payload\<rparr>)))"

definition validate_body :: "space_event \<Rightarrow> unit res" where
  "validate_body e =
     (case sv_body e of
        Some (BCreate name descr owner) \<Rightarrow> first_err
          [require_str ''name'' name SPACE_MAX_NAME,
           require_str_max ''description'' descr SPACE_MAX_TEXT,
           require_address ''owner'' owner,
           require (sv_space_id e = sv_event_id e) (Invalid ''Create must have space_id == event_id'')]
      | Some (BInfo name descr _) \<Rightarrow> first_err
          [require_str_max ''name'' name SPACE_MAX_NAME,
           require_str_max ''description'' descr SPACE_MAX_TEXT]
      | Some (BMemberAdd addr r) \<Rightarrow> first_err
          [require_address ''address'' addr,
           require (role r \<noteq> RoleNone \<and> role r \<noteq> RoleOwner)
             (Invalid ''MemberAdd role must be Guest, Member or Admin'')]
      | Some (BMemberRemove addr reason) \<Rightarrow> first_err
          [require_address ''address'' addr, require_str_max ''reason'' reason 512]
      | Some (BRoleChange addr r) \<Rightarrow> first_err
          [require_address ''address'' addr,
           require (role r \<noteq> RoleNone) (Invalid ''RoleChange to None; use MemberRemove'')]
      | Some (BAnnouncement title txt atts) \<Rightarrow> first_err
          ([require_str ''title'' title SPACE_MAX_NAME, require_str_max ''text'' txt SPACE_MAX_TEXT]
           @ map validate_capability atts)
      | Some (BDriveShare cap path) \<Rightarrow>
          (case cap of None \<Rightarrow> Inl (Invalid ''capability missing'')
           | Some c \<Rightarrow> first_err [validate_capability c, require_str_max ''path'' path 1024])
      | Some (BDriveUnshare i) \<Rightarrow> require_id ''share_id'' i
      | Some (BPost txt media refs) \<Rightarrow> first_err
          ([require_str_max ''text'' txt SPACE_MAX_TEXT,
            require (\<not> (txt = [] \<and> media = [] \<and> refs = [])) (Invalid ''empty post'')]
           @ map validate_capability refs)
      | Some (BComment i txt) \<Rightarrow> first_err
          [require_id ''post_id'' i, require_str ''text'' txt SPACE_MAX_TEXT]
      | None \<Rightarrow> Inl (Unsupported ''unknown space event body''))"

definition validate_space_event :: "space_event \<Rightarrow> unit res" where
  "validate_space_event e = first_err
     [check_body ''SpaceEvent'' (sv_version e) SPACE_VERSION,
      require_id ''space_id'' (sv_space_id e),
      require_id ''event_id'' (sv_event_id e),
      require_address ''actor'' (sv_actor e),
      require (length (sv_device e) = 32) (Invalid ''device_pubkey length''),
      require_id_or_empty ''parent_id'' (sv_parent e),
      require (length (sv_signature e) = 64) (Invalid ''signature length''),
      validate_body e]"

definition space_verify :: "space_lib \<Rightarrow> space_event \<Rightarrow> unit res" where
  "space_verify x e =
     and_then (validate_space_event e) (\<lambda>_.
     and_then (space_payload x e) (\<lambda>payload.
       if app_verify (sx_sha256 x) (sx_ed25519 x) (sx_net x) SpaceEventPurpose (sv_device e) payload
            (sv_signature e)
       then Inr () else Inl (Unauthorised ''space event signature'')))"

definition build_event :: "os_random \<Rightarrow> u64 \<Rightarrow> bytes \<Rightarrow> string \<Rightarrow> u64 \<Rightarrow> bytes \<Rightarrow> space_body \<Rightarrow>
    space_event res" where
  "build_event rnd now space_id actor sequence parent_id body =
     and_then (case body of BCreate _ _ _ \<Rightarrow> Inr space_id | _ \<Rightarrow> random_id rnd) (\<lambda>event_id.
       Inr \<lparr>sv_version = SPACE_VERSION, sv_space_id = space_id, sv_event_id = event_id,
         sv_actor = actor, sv_device = [], sv_sequence = sequence, sv_parent = parent_id,
         sv_at_ms = now, sv_body = Some body, sv_signature = []\<rparr>)"

section \<open>State\<close>

record space_member =
  mb_address :: string
  mb_role :: int
  mb_since_ms :: u64

record space_content =
  ct_id :: string
  ct_kind :: string
  ct_actor :: string
  ct_at_ms :: u64
  ct_title :: string
  ct_text :: string
  ct_post_id :: string
  ct_drive_refs :: "drive_capability list"
  ct_media :: "blob_ref list"

record shared_entry =
  sh_capability :: drive_capability
  sh_path :: string
  sh_by :: string
  sh_at_ms :: u64

datatype rejected =
    RInvalid app_error
  | RForbidden string space_role string
  | RSequence string u64 u64
  | RDuplicate
  | RPending string
  | RWrongSpace

record space_state =
  ss_space_id :: string
  ss_name :: string
  ss_description :: string
  ss_avatar :: "blob_ref option"
  ss_members :: "(string \<times> space_member) list"
  ss_content :: "space_content list"
  ss_drive :: "(string \<times> shared_entry) list"
  ss_sequences :: "(string \<times> u64) list"
  ss_applied :: "(string \<times> unit) list"
  ss_head :: string
  ss_created_at_ms :: u64
  ss_pending :: "space_event list"

definition space_new :: "space_lib \<Rightarrow> bytes \<Rightarrow> space_state" where
  "space_new x space_id = \<lparr>ss_space_id = sx_hex x space_id, ss_name = [], ss_description = [],
     ss_avatar = None, ss_members = [], ss_content = [], ss_drive = [], ss_sequences = [],
     ss_applied = [], ss_head = [], ss_created_at_ms = 0, ss_pending = []\<rparr>"

definition role_of :: "space_state \<Rightarrow> string \<Rightarrow> space_role" where
  "role_of st a = (case map_of (ss_members st) a of None \<Rightarrow> RoleNone | Some m \<Rightarrow> role (mb_role m))"

definition space_exists :: "space_state \<Rightarrow> bool" where
  "space_exists st \<longleftrightarrow> ss_created_at_ms st > 0"

definition next_sequence :: "space_state \<Rightarrow> string \<Rightarrow> u64" where
  "next_sequence st a = (case map_of (ss_sequences st) a of None \<Rightarrow> 1 | Some s \<Rightarrow> s + 1)"

text \<open>\<open>hex::decode(head).unwrap_or_default()\<close>, with the decoder as an argument.\<close>

definition head_id :: "(string \<Rightarrow> bytes option) \<Rightarrow> space_state \<Rightarrow> bytes" where
  "head_id unhex st = (case unhex (ss_head st) of None \<Rightarrow> [] | Some b \<Rightarrow> b)"

definition push_content :: "space_content \<Rightarrow> space_state \<Rightarrow> space_state" where
  "push_content c st = st\<lparr>ss_content := push_bounded MAX_CONTENT (ss_content st) c\<rparr>"

definition set_role :: "string \<Rightarrow> int \<Rightarrow> space_state \<Rightarrow> space_state" where
  "set_role a r st = (case map_of (ss_members st) a of
     None \<Rightarrow> st
   | Some m \<Rightarrow> st\<lparr>ss_members := bt_insert a (m\<lparr>mb_role := r\<rparr>) (ss_members st)\<rparr>)"

definition cap_default :: drive_capability where
  "cap_default = \<lparr>dc_version = 0, dc_share_id = [], dc_owner = [], dc_entry_id = [], dc_name = [],
     dc_mime = [], dc_size = 0, dc_object = None, dc_mode = 0, dc_permission = 0, dc_version_no = 0,
     dc_granted_at_ms = 0, dc_folder = False\<rparr>"

section \<open>Applying an event\<close>

text \<open>The match on the body of \<open>apply_verified\<close>; the guard before it on a Space that does not
  exist applies to every body but \<open>Create\<close>.\<close>

definition apply_body :: "space_lib \<Rightarrow> space_event \<Rightarrow> space_state \<Rightarrow> rejected + space_state" where
  "apply_body x e st =
     (let actor = sv_actor e; ar = role_of st actor; forbid = (\<lambda>act. Inl (RForbidden actor ar act));
          id_hex = sx_hex x (sv_event_id e)
      in case sv_body e of
        Some (BCreate name descr owner) \<Rightarrow>
          if space_exists st then forbid ''create an existing space''
          else if owner \<noteq> actor then forbid ''create a space owned by someone else''
          else Inr (st\<lparr>ss_name := name, ss_description := descr, ss_created_at_ms := sv_at_ms e,
            ss_members := bt_insert actor \<lparr>mb_address = actor, mb_role = role_int RoleOwner,
              mb_since_ms = sv_at_ms e\<rparr> (ss_members st)\<rparr>)
      | None \<Rightarrow> if \<not> space_exists st then Inl (RPending ''space not created yet'')
                else Inl (RInvalid (Unsupported ''body''))
      | Some b \<Rightarrow> if \<not> space_exists st then Inl (RPending ''space not created yet'') else (case b of
        BInfo name descr avatar \<Rightarrow>
          if ar < RoleAdmin then forbid ''update space info''
          else Inr (st\<lparr>ss_name := (if name \<noteq> [] then name else ss_name st), ss_description := descr,
            ss_avatar := (if avatar \<noteq> None then avatar else ss_avatar st)\<rparr>)
      | BMemberAdd addr r \<Rightarrow>
          if ar < RoleAdmin then forbid ''add members''
          else if role r > ar \<or> (role r = RoleAdmin \<and> ar \<noteq> RoleOwner)
          then forbid ''add a member above own rank / add admins''
          else if map_of (ss_members st) addr \<noteq> None then forbid ''add an existing member''
          else if length (ss_members st) \<ge> MAX_MEMBERS then Inl (RInvalid (Invalid ''space is full''))
          else Inr (st\<lparr>ss_members := bt_insert addr \<lparr>mb_address = addr, mb_role = r,
            mb_since_ms = sv_at_ms e\<rparr> (ss_members st)\<rparr>)
      | BMemberRemove addr reason \<Rightarrow>
          (let target = role_of st addr in
           if target = RoleNone then Inl (RPending ''remove of an unknown member'')
           else if \<not> (addr = actor \<and> ar \<noteq> RoleOwner) \<and> (ar < RoleAdmin \<or> target \<ge> ar)
           then forbid ''remove this member''
           else Inr (st\<lparr>ss_members := bt_delete addr (ss_members st)\<rparr>))
      | BRoleChange addr r \<Rightarrow>
          (let target = role_of st addr in
           if target = RoleNone then Inl (RPending ''role change of an unknown member'')
           else
             (let new_role = role r;
                  allowed = (case ar of RoleOwner \<Rightarrow> True
                    | RoleAdmin \<Rightarrow> target < RoleAdmin \<and> new_role \<le> RoleMember
                    | _ \<Rightarrow> False)
              in if \<not> allowed \<or> addr = actor \<and> ar \<noteq> RoleOwner then forbid ''change this role''
                 else Inr (set_role addr r
                   (if new_role = RoleOwner then set_role actor (role_int RoleAdmin) st else st))))
      | BAnnouncement title txt atts \<Rightarrow>
          if ar < RoleAdmin then forbid ''announce''
          else Inr (push_content \<lparr>ct_id = id_hex, ct_kind = ''announcement'', ct_actor = actor,
            ct_at_ms = sv_at_ms e, ct_title = title, ct_text = txt, ct_post_id = [],
            ct_drive_refs = atts, ct_media = []\<rparr> st)
      | BDriveShare capo path \<Rightarrow>
          if ar < RoleMember then forbid ''share to the space drive''
          else (let cap = (case capo of None \<Rightarrow> cap_default | Some c \<Rightarrow> c)
            in Inr (st\<lparr>ss_drive := bt_insert (sx_hex x (dc_share_id cap))
                 \<lparr>sh_capability = cap, sh_path = path, sh_by = actor, sh_at_ms = sv_at_ms e\<rparr>
                 (ss_drive st)\<rparr>))
      | BDriveUnshare i \<Rightarrow>
          (case map_of (ss_drive st) (sx_hex x i) of
             None \<Rightarrow> Inl (RPending ''unshare of an unknown share'')
           | Some entry \<Rightarrow>
               if sh_by entry \<noteq> actor \<and> ar < RoleAdmin then forbid ''unshare someone else's file''
               else Inr (st\<lparr>ss_drive := bt_delete (sx_hex x i) (ss_drive st)\<rparr>))
      | BPost txt media refs \<Rightarrow>
          if ar < RoleMember then forbid ''post''
          else Inr (push_content \<lparr>ct_id = id_hex, ct_kind = ''post'', ct_actor = actor,
            ct_at_ms = sv_at_ms e, ct_title = [], ct_text = txt, ct_post_id = [],
            ct_drive_refs = refs, ct_media = media\<rparr> st)
      | BComment i txt \<Rightarrow>
          if ar < RoleMember then forbid ''comment''
          else if \<not> list_ex (\<lambda>c. ct_id c = sx_hex x i \<and> ct_kind c \<noteq> ''comment'') (ss_content st)
          then Inl (RPending ''comment on an unknown post'')
          else Inr (push_content \<lparr>ct_id = id_hex, ct_kind = ''comment'', ct_actor = actor,
            ct_at_ms = sv_at_ms e, ct_title = [], ct_text = txt, ct_post_id = sx_hex x i,
            ct_drive_refs = [], ct_media = []\<rparr> st)
      | BCreate _ _ _ \<Rightarrow> Inl RDuplicate))"

definition is_create :: "space_event \<Rightarrow> bool" where
  "is_create e = (case sv_body e of Some (BCreate _ _ _) \<Rightarrow> True | _ \<Rightarrow> False)"

definition apply_verified :: "space_lib \<Rightarrow> space_event \<Rightarrow> space_state \<Rightarrow> rejected + space_state" where
  "apply_verified x e st =
     (let id_hex = sx_hex x (sv_event_id e);
          last_seq = (case map_of (ss_sequences st) (sv_actor e) of None \<Rightarrow> 0 | Some s \<Rightarrow> s)
      in if map_of (ss_applied st) id_hex \<noteq> None then Inl RDuplicate
         else if sv_sequence e \<le> last_seq then Inl (RSequence (sv_actor e) (sv_sequence e) last_seq)
         else if sv_sequence e > last_seq + 1 \<and> \<not> is_create e
         then Inl (RPending ''earlier events from this actor not seen yet'')
         else and_then (apply_body x e st) (\<lambda>st'.
           Inr (st'\<lparr>ss_sequences := bt_insert (sv_actor e) (sv_sequence e) (ss_sequences st'),
             ss_applied := bt_insert id_hex () (ss_applied st'), ss_head := id_hex\<rparr>)))"

section \<open>Pending events\<close>

fun retry_pass :: "space_lib \<Rightarrow> space_event list \<Rightarrow> bool \<Rightarrow> space_state \<Rightarrow> bool \<times> space_state" where
  "retry_pass x [] progress st = (progress, st)"
| "retry_pass x (e # es) progress st =
     (case apply_verified x e st of
        Inr st' \<Rightarrow> retry_pass x es True st'
      | Inl (RPending _) \<Rightarrow> retry_pass x es progress (st\<lparr>ss_pending := ss_pending st @ [e]\<rparr>)
      | Inl _ \<Rightarrow> retry_pass x es progress st)"

definition pending_key :: "space_event \<Rightarrow> u64 \<times> u64 \<times> bytes" where
  "pending_key e = (sv_at_ms e, sv_sequence e, sv_event_id e)"

lemma apply_body_pending: "apply_body x e st = Inr st' \<Longrightarrow> ss_pending st' = ss_pending st"
  by (auto simp: apply_body_def Let_def push_content_def set_role_def
      split: option.splits space_body.splits if_splits)

lemma apply_verified_pending: "apply_verified x e st = Inr st' \<Longrightarrow> ss_pending st' = ss_pending st"
  using apply_body_pending
  by (auto simp: apply_verified_def Let_def and_then_ok split: if_splits)

text \<open>A pass that makes progress leaves fewer events pending than it looked at.\<close>

lemma retry_pass_length:
  "retry_pass x es p st = (p', st') \<Longrightarrow> length (ss_pending st') \<le> length (ss_pending st) + length es
    \<and> (p' \<longrightarrow> p \<or> length (ss_pending st') < length (ss_pending st) + length es)"
proof (induction es arbitrary: p st p' st')
  case Nil
  then show ?case by simp
next
  case (Cons e es)
  show ?case
  proof (cases "apply_verified x e st")
    case (Inr st1)
    then have "retry_pass x es True st1 = (p', st')" using Cons.prems by simp
    then show ?thesis using Cons.IH [of True st1 p' st'] apply_verified_pending [OF Inr] by simp
  next
    case (Inl r)
    show ?thesis
    proof (cases "\<exists>s. r = RPending s")
      case True
      then have "retry_pass x es p (st\<lparr>ss_pending := ss_pending st @ [e]\<rparr>) = (p', st')"
        using Cons.prems Inl by auto
      from Cons.IH [OF this] show ?thesis by simp
    next
      case False
      then have "retry_pass x es p st = (p', st')"
        using Cons.prems Inl by (cases r) auto
      from Cons.IH [OF this] show ?thesis by simp
    qed
  qed
qed

lemma retry_pass_progress:
  "(True, st') = retry_pass x (sort_key pending_key (ss_pending st)) False (st\<lparr>ss_pending := []\<rparr>)
    \<Longrightarrow> length (ss_pending st') < length (ss_pending st)"
  using retry_pass_length [of x "sort_key pending_key (ss_pending st)" False
      "st\<lparr>ss_pending := []\<rparr>" True st'] by simp

function retry_pending :: "space_lib \<Rightarrow> space_state \<Rightarrow> space_state" where
  "retry_pending x st =
     (case retry_pass x (sort_key pending_key (ss_pending st)) False (st\<lparr>ss_pending := []\<rparr>) of
        (progress, st') \<Rightarrow> if progress then retry_pending x st' else st')"
  by pat_completeness auto
termination
  by (relation "measure (\<lambda>(x, st). length (ss_pending st))") (auto dest: retry_pass_progress)

declare retry_pending.simps [simp del]

definition apply_event ::
    "space_lib \<Rightarrow> space_event \<Rightarrow> string \<Rightarrow> space_state \<Rightarrow> (rejected + unit) \<times> space_state" where
  "apply_event x e mls_sender st =
     (if sx_hex x (sv_space_id e) \<noteq> ss_space_id st then (Inl RWrongSpace, st)
      else case space_verify x e of
        Inl err \<Rightarrow> (Inl (RInvalid err), st)
      | Inr _ \<Rightarrow>
          if sv_actor e \<noteq> mls_sender
          then (Inl (RForbidden (sv_actor e) RoleNone ''act as another address''), st)
          else (case apply_verified x e st of
              Inr st' \<Rightarrow> (Inr (), retry_pending x st')
            | Inl (RPending s) \<Rightarrow> (Inl (RPending s),
                if length (ss_pending st) < MAX_PENDING
                then st\<lparr>ss_pending := ss_pending st @ [e]\<rparr> else st)
            | Inl r \<Rightarrow> (Inl r, st)))"

section \<open>Queries\<close>

definition members_sorted :: "space_state \<Rightarrow> space_member list" where
  "members_sorted st = sort_key (\<lambda>m. (4 - rank (role (mb_role m)), mb_address m)) (map snd (ss_members st))"

definition content_page :: "space_state \<Rightarrow> u64 \<Rightarrow> nat \<Rightarrow> space_content list" where
  "content_page st before_ms limit =
     take limit (filter (\<lambda>c. before_ms = 0 \<or> ct_at_ms c < before_ms) (rev (ss_content st)))"

end
