(* ===== verification/Space_Props.thy ===== *)
theory Space_Props
  imports Space
begin

text \<open>
  What holds of a Space: the invariant of its replayed state, who may change a role, what a
  signature commits to, and that the pending set never holds an applicable event.
\<close>

section \<open>The shape of a successful application\<close>

lemmas apply_body_cases = apply_body_def Let_def push_content_def set_role_def

text \<open>Applying an event does not look at the pending set.\<close>

lemma role_of_pending [simp]: "role_of (st\<lparr>ss_pending := p\<rparr>) a = role_of st a"
  by (simp add: role_of_def)

lemma space_exists_pending [simp]: "space_exists (st\<lparr>ss_pending := p\<rparr>) = space_exists st"
  by (simp add: space_exists_def)

lemma set_role_pending [simp]:
  "set_role a r (st\<lparr>ss_pending := p\<rparr>) = (set_role a r st)\<lparr>ss_pending := p\<rparr>"
  by (simp add: set_role_def split: option.splits)

lemma push_content_pending [simp]:
  "push_content c (st\<lparr>ss_pending := p\<rparr>) = (push_content c st)\<lparr>ss_pending := p\<rparr>"
  by (simp add: push_content_def)

lemma apply_body_pending_upd:
  "apply_body x e (st\<lparr>ss_pending := p\<rparr>)
    = map_sum id (\<lambda>s. s\<lparr>ss_pending := p\<rparr>) (apply_body x e st)"
proof (cases "sv_body e")
  case (Some b)
  then show ?thesis
    by (cases b) (simp_all add: apply_body_def Let_def split: option.splits)
qed (simp add: apply_body_def Let_def)

lemma apply_verified_pending_upd:
  "apply_verified x e (st\<lparr>ss_pending := p\<rparr>)
    = map_sum id (\<lambda>s. s\<lparr>ss_pending := p\<rparr>) (apply_verified x e st)"
  by (cases "apply_body x e st") (simp_all add: apply_verified_def Let_def apply_body_pending_upd)

lemma apply_verified_ok:
  "apply_verified x e st = Inr st' \<longleftrightarrow>
     map_of (ss_applied st) (sx_hex x (sv_event_id e)) = None
     \<and> sv_sequence e > (case map_of (ss_sequences st) (sv_actor e) of None \<Rightarrow> 0 | Some s \<Rightarrow> s)
     \<and> (is_create e \<or> sv_sequence e \<le>
          (case map_of (ss_sequences st) (sv_actor e) of None \<Rightarrow> 0 | Some s \<Rightarrow> s) + 1)
     \<and> (\<exists>st1. apply_body x e st = Inr st1 \<and>
          st' = st1\<lparr>ss_sequences := bt_insert (sv_actor e) (sv_sequence e) (ss_sequences st1),
                   ss_applied := bt_insert (sx_hex x (sv_event_id e)) () (ss_applied st1),
                   ss_head := sx_hex x (sv_event_id e)\<rparr>)"
  by (auto simp: apply_verified_def Let_def and_then_ok not_le simp del: not_None_eq)

text \<open>What an application leaves alone.\<close>

lemma apply_body_frame:
  "apply_body x e st = Inr st' \<Longrightarrow> ss_space_id st' = ss_space_id st \<and> ss_applied st' = ss_applied st
    \<and> ss_sequences st' = ss_sequences st \<and> ss_pending st' = ss_pending st"
  by (auto simp: apply_body_cases split: option.splits space_body.splits if_splits)

lemma apply_verified_frame:
  assumes "apply_verified x e st = Inr st'"
  shows "ss_space_id st' = ss_space_id st" "ss_pending st' = ss_pending st"
    and "ss_applied st' = bt_insert (sx_hex x (sv_event_id e)) () (ss_applied st)"
    and "ss_sequences st' = bt_insert (sv_actor e) (sv_sequence e) (ss_sequences st)"
  using assms by (auto simp: apply_verified_ok dest: apply_body_frame)

lemma role_of_apply:
  assumes "apply_verified x e st = Inr st'"
  obtains st1 where "apply_body x e st = Inr st1" "\<And>a. role_of st' a = role_of st1 a"
    "ss_members st' = ss_members st1" "ss_content st' = ss_content st1" "ss_drive st' = ss_drive st1"
  using assms by (auto simp: apply_verified_ok role_of_def)

section \<open>Who may change a role\<close>

definition may_change :: "space_state \<Rightarrow> space_event \<Rightarrow> string \<Rightarrow> space_role \<Rightarrow> bool" where
  "may_change st e a r \<longleftrightarrow>
     (a = sv_actor e \<and> r = RoleNone)
     \<or> role_of st (sv_actor e) = RoleOwner
     \<or> (role_of st (sv_actor e) = RoleAdmin \<and> role_of st a < RoleAdmin \<and> r \<le> RoleMember)"

lemma role_of_insert:
  "role_of (st\<lparr>ss_members := bt_insert a m (ss_members st)\<rparr>) b
    = (if b = a then role (mb_role m) else role_of st b)"
  by (simp add: role_of_def)

lemma role_of_delete:
  "role_of (st\<lparr>ss_members := bt_delete a (ss_members st)\<rparr>) b
    = (if b = a then RoleNone else role_of st b)"
  by (simp add: role_of_def)

lemma role_of_set_role:
  "role_of (set_role a r st) b
    = (if b = a \<and> map_of (ss_members st) a \<noteq> None then role r else role_of st b)"
  by (auto simp: set_role_def role_of_def split: option.splits)

lemma role_of_absent [simp]: "map_of (ss_members st) a = None \<Longrightarrow> role_of st a = RoleNone"
  by (simp add: role_of_def)

lemma role_below_admin: "r < RoleAdmin \<longleftrightarrow> r \<noteq> RoleAdmin \<and> r \<noteq> RoleOwner"
  by (cases r) (simp_all add: role_order)

lemma role_upto_member: "r \<le> RoleMember \<longleftrightarrow> r \<noteq> RoleAdmin \<and> r \<noteq> RoleOwner"
  by (cases r) (simp_all add: role_order)

lemma no_role_above_owner [simp]: "\<not> RoleOwner < r"
  by (cases r) (simp_all add: role_order)

lemma role_above_admin: "RoleAdmin < r \<longleftrightarrow> r = RoleOwner"
  by (cases r) (simp_all add: role_order)

lemmas role_tables = role_of_insert role_of_delete role_of_set_role role_below_admin
  role_upto_member role_above_admin

lemma apply_body_roles:
  assumes ok: "apply_body x e st = Inr st'" and nc: "\<not> is_create e"
    and ch: "role_of st' a \<noteq> role_of st a"
  shows "may_change st e a (role_of st' a)"
proof -
  obtain b where b: "sv_body e = Some b"
    using ok by (cases "sv_body e") (auto simp: apply_body_def Let_def split: if_splits)
  show ?thesis
  proof (cases b)
    case (BMemberAdd addr r)
    then show ?thesis using ok ch b
      by (auto simp: apply_body_def Let_def may_change_def role_tables split: if_splits)
  next
    case (BMemberRemove addr s)
    then show ?thesis using ok ch b
      by (auto simp: apply_body_def Let_def may_change_def role_tables not_le split: if_splits)
  next
    case (BRoleChange addr r)
    then show ?thesis using ok ch b
      by (cases "role_of st (sv_actor e)")
        (auto simp: apply_body_def Let_def may_change_def role_tables split: if_splits)
  qed (use ok nc ch b in \<open>auto simp: apply_body_def Let_def is_create_def push_content_def role_of_def
      split: if_splits option.splits\<close>)
qed

section \<open>What retrying preserves\<close>

text \<open>Whatever every application keeps, retrying keeps; the pending set only shrinks.\<close>

lemma retry_pass_preserves:
  assumes step: "\<And>e s s'. e \<in> E \<Longrightarrow> Q s \<Longrightarrow> apply_verified x e s = Inr s' \<Longrightarrow> Q s'"
    and Qp: "\<And>s p. Q s \<Longrightarrow> Q (s\<lparr>ss_pending := p\<rparr>)"
  shows "Q st \<Longrightarrow> set es \<subseteq> E \<Longrightarrow> retry_pass x es p st = (p', st') \<Longrightarrow> Q st'
    \<and> set (ss_pending st') \<subseteq> set (ss_pending st) \<union> set es"
proof (induction es arbitrary: p st)
  case Nil
  then show ?case by simp
next
  case (Cons e es)
  show ?case
  proof (cases "apply_verified x e st")
    case (Inr st1)
    then show ?thesis
      using Cons.IH [of st1 True] Cons.prems step [of e st st1] apply_verified_frame(2) [OF Inr] by auto
  next
    case (Inl r)
    show ?thesis
    proof (cases "\<exists>s. r = RPending s")
      case True
      then show ?thesis
        using Cons.IH [of "st\<lparr>ss_pending := ss_pending st @ [e]\<rparr>" p] Cons.prems Inl Qp [of st] by auto
    next
      case False
      then have "retry_pass x es p st = (p', st')" using Cons.prems Inl by (cases r) auto
      then show ?thesis using Cons.IH [of st p] Cons.prems by auto
    qed
  qed
qed

lemma retry_pending_preserves:
  assumes step: "\<And>e s s'. e \<in> E \<Longrightarrow> Q s \<Longrightarrow> apply_verified x e s = Inr s' \<Longrightarrow> Q s'"
    and Qp: "\<And>s p. Q s \<Longrightarrow> Q (s\<lparr>ss_pending := p\<rparr>)"
  shows "Q st \<Longrightarrow> set (ss_pending st) \<subseteq> E \<Longrightarrow> Q (retry_pending x st)
    \<and> set (ss_pending (retry_pending x st)) \<subseteq> set (ss_pending st)
    \<and> length (ss_pending (retry_pending x st)) \<le> length (ss_pending st)"
proof (induction "length (ss_pending st)" arbitrary: st rule: less_induct)
  case (less st)
  obtain p' st' where r: "retry_pass x (sort_key pending_key (ss_pending st)) False
      (st\<lparr>ss_pending := []\<rparr>) = (p', st')"
    by (cases "retry_pass x (sort_key pending_key (ss_pending st)) False (st\<lparr>ss_pending := []\<rparr>)")
  have "Q st' \<and> set (ss_pending st') \<subseteq>
      set (ss_pending (st\<lparr>ss_pending := []\<rparr>)) \<union> set (sort_key pending_key (ss_pending st))"
    by (rule retry_pass_preserves [where E = E and Q = Q, OF step Qp _ _ r])
      (use less.prems Qp in auto)
  then have 2: "Q st'" "set (ss_pending st') \<subseteq> set (ss_pending st)" by auto
  have 3: "length (ss_pending st') \<le> length (ss_pending st)" using retry_pass_length [OF r] by simp
  show ?case
  proof (cases p')
    case True
    then have "retry_pending x st = retry_pending x st'"
      using r by (simp add: retry_pending.simps [of x st])
    moreover have "Q (retry_pending x st') \<and> set (ss_pending (retry_pending x st')) \<subseteq> set (ss_pending st')
        \<and> length (ss_pending (retry_pending x st')) \<le> length (ss_pending st')"
      using less.hyps [of st'] less.prems 2 True r
        retry_pass_progress [of st' x st] by auto
    ultimately show ?thesis using 2 3 by auto
  next
    case False
    then show ?thesis using r 2 3 by (simp add: retry_pending.simps [of x st])
  qed
qed

section \<open>The invariant\<close>

definition member_ok :: "string \<times> space_member \<Rightarrow> bool" where
  "member_ok p \<longleftrightarrow> mb_address (snd p) = fst p \<and> role (mb_role (snd p)) \<noteq> RoleNone"

definition space_core :: "space_state \<Rightarrow> bool" where
  "space_core st \<longleftrightarrow>
     bt_wf (ss_members st) \<and> (\<forall>p \<in> set (ss_members st). member_ok p)
     \<and> (\<forall>a b. role_of st a = RoleOwner \<longrightarrow> role_of st b = RoleOwner \<longrightarrow> a = b)
     \<and> length (ss_members st) \<le> MAX_MEMBERS \<and> length (ss_content st) \<le> MAX_CONTENT
     \<and> (ss_members st \<noteq> [] \<longrightarrow> map_of (ss_applied st) (ss_space_id st) \<noteq> None)"

definition event_for :: "space_lib \<Rightarrow> space_state \<Rightarrow> space_event \<Rightarrow> bool" where
  "event_for x st e \<longleftrightarrow> space_verify x e = Inr () \<and> sx_hex x (sv_space_id e) = ss_space_id st"

definition space_inv :: "space_lib \<Rightarrow> space_state \<Rightarrow> bool" where
  "space_inv x st \<longleftrightarrow> space_core st \<and> length (ss_pending st) \<le> MAX_PENDING
     \<and> (\<forall>e \<in> set (ss_pending st). event_for x st e)"

lemma space_core_pending: "space_core st \<Longrightarrow> space_core (st\<lparr>ss_pending := p\<rparr>)"
  by (simp add: space_core_def)

lemma space_core_parts:
  assumes "bt_wf (ss_members st)" "\<forall>p \<in> set (ss_members st). member_ok p"
    and "\<And>a b. role_of st a = RoleOwner \<Longrightarrow> role_of st b = RoleOwner \<Longrightarrow> a = b"
    and "length (ss_members st) \<le> MAX_MEMBERS" "length (ss_content st) \<le> MAX_CONTENT"
    and "ss_members st \<noteq> [] \<Longrightarrow> map_of (ss_applied st) (ss_space_id st) \<noteq> None"
  shows "space_core st"
  using assms by (auto simp: space_core_def)

lemma role_of_member: "map_of (ss_members st) a = Some m \<Longrightarrow> role_of st a = role (mb_role m)"
  by (simp add: role_of_def)

lemma role_of_present: "role_of st a \<noteq> RoleNone \<Longrightarrow> \<exists>m. map_of (ss_members st) a = Some m"
  by (cases "map_of (ss_members st) a") auto

text \<open>The members after each body, as a function of the members before.\<close>

definition set_member_role :: "string \<Rightarrow> int \<Rightarrow> (string \<times> space_member) list \<Rightarrow>
    (string \<times> space_member) list" where
  "set_member_role a r ms =
     (case map_of ms a of None \<Rightarrow> ms | Some m \<Rightarrow> bt_insert a (m\<lparr>mb_role := r\<rparr>) ms)"

lemma set_role_members: "ss_members (set_role a r st) = set_member_role a r (ss_members st)"
  by (simp add: set_role_def set_member_role_def split: option.splits)

lemma set_member_role_ok:
  assumes "bt_wf ms" "\<forall>p \<in> set ms. member_ok p" "role r \<noteq> RoleNone"
  shows "bt_wf (set_member_role a r ms)" "\<forall>p \<in> set (set_member_role a r ms). member_ok p"
    and "length (set_member_role a r ms) = length ms"
proof -
  show "bt_wf (set_member_role a r ms)"
    using assms by (simp add: set_member_role_def bt_wf_insert split: option.splits)
  show "\<forall>p \<in> set (set_member_role a r ms). member_ok p"
  proof (cases "map_of ms a")
    case (Some m)
    then have "mb_address m = a" using assms(2) by (auto simp: member_ok_def dest!: map_of_SomeD)
    then show ?thesis
      using Some assms set_bt_insert_subset [of a "m\<lparr>mb_role := r\<rparr>" ms]
      by (auto simp: set_member_role_def member_ok_def)
  qed (use assms in \<open>simp add: set_member_role_def\<close>)
  show "length (set_member_role a r ms) = length ms"
    using assms by (simp add: set_member_role_def length_bt_insert split: option.splits)
qed

text \<open>The role tables an accepted event can leave behind.\<close>

lemma apply_body_single_owner:
  assumes inv: "space_core st" and ok: "apply_body x e st = Inr st'" and v: "validate_body e = Inr ()"
    and cr: "is_create e \<Longrightarrow> ss_members st = []"
    and o: "role_of st' a = RoleOwner" "role_of st' b = RoleOwner"
  shows "a = b"
proof -
  have one: "\<And>a b. role_of st a = RoleOwner \<Longrightarrow> role_of st b = RoleOwner \<Longrightarrow> a = b"
    using inv by (simp add: space_core_def)
  obtain bd where bd: "sv_body e = Some bd" using v by (cases "sv_body e") (auto simp: validate_body_def)
  show ?thesis
  proof (cases bd)
    case (BCreate n d ow)
    then have "ss_members st = []" using cr bd by (simp add: is_create_def)
    then show ?thesis using ok o bd BCreate
      by (auto simp: apply_body_def Let_def role_of_def split: if_splits)
  next
    case (BMemberAdd addr r)
    then have "role r \<noteq> RoleOwner" using v bd by (simp add: validate_body_def ok_simps del: first_err.simps)
    then show ?thesis using ok o bd BMemberAdd one
      by (auto simp: apply_body_def Let_def role_of_insert split: if_splits)
  next
    case (BMemberRemove addr s)
    then show ?thesis using ok o bd one
      by (auto simp: apply_body_def Let_def role_of_delete split: if_splits)
  next
    case (BRoleChange addr r)
    show ?thesis
    proof (cases "role r = RoleOwner")
      case True
      then have ow: "role_of st (sv_actor e) = RoleOwner"
        using ok bd BRoleChange
        by (cases "role_of st (sv_actor e)") (auto simp: apply_body_def Let_def role_tables split: if_splits)
      have st': "st' = set_role addr r (set_role (sv_actor e) (role_int RoleAdmin) st)"
        using ok bd BRoleChange True by (simp add: apply_body_def Let_def split: if_splits)
      have "c = addr" if "role_of st' c = RoleOwner" for c
      proof (rule ccontr)
        assume "c \<noteq> addr"
        then have "role_of (set_role (sv_actor e) (role_int RoleAdmin) st) c = RoleOwner"
          using that st' by (simp add: role_of_set_role)
        then show False using one [of c "sv_actor e"] ow role_of_present [of st "sv_actor e"]
          by (auto simp: role_of_set_role split: if_splits)
      qed
      then show ?thesis using o by blast
    next
      case False
      then have "st' = set_role addr r st"
        using ok bd BRoleChange by (simp add: apply_body_def Let_def split: if_splits)
      then show ?thesis using o one False by (auto simp: role_of_set_role split: if_splits)
    qed
  qed (use ok o bd one in \<open>auto simp: apply_body_def Let_def push_content_def role_of_def
      split: if_splits option.splits\<close>)
qed

lemma apply_body_members:
  assumes inv: "space_core st" and ok: "apply_body x e st = Inr st'" and v: "validate_body e = Inr ()"
    and cr: "is_create e \<Longrightarrow> ss_members st = []"
  shows "bt_wf (ss_members st') \<and> (\<forall>p \<in> set (ss_members st'). member_ok p)
    \<and> length (ss_members st') \<le> MAX_MEMBERS"
proof -
  have w: "bt_wf (ss_members st)" "\<forall>p \<in> set (ss_members st). member_ok p"
    "length (ss_members st) \<le> MAX_MEMBERS"
    using inv by (simp_all add: space_core_def)
  obtain bd where bd: "sv_body e = Some bd" using v by (cases "sv_body e") (auto simp: validate_body_def)
  show ?thesis
  proof (cases bd)
    case (BCreate n d ow)
    then have "ss_members st = []" using cr bd by (simp add: is_create_def)
    then show ?thesis using ok bd BCreate
      by (auto simp: apply_body_def Let_def bt_wf_def member_ok_def MAX_MEMBERS_def split: if_splits)
  next
    case (BMemberAdd addr r)
    then have r: "role r \<noteq> RoleNone" using v bd by (simp add: validate_body_def ok_simps del: first_err.simps)
    define m where "m = \<lparr>mb_address = addr, mb_role = r, mb_since_ms = sv_at_ms e\<rparr>"
    have st': "ss_members st' = bt_insert addr m (ss_members st)" "length (ss_members st) < MAX_MEMBERS"
      using ok bd BMemberAdd by (auto simp: apply_body_def Let_def m_def split: if_splits)
    have "member_ok (addr, m)" using r by (simp add: member_ok_def m_def)
    then show ?thesis
      using st' w set_bt_insert_subset [of addr m "ss_members st"] w(1)
      by (auto simp: bt_wf_insert length_bt_insert split: if_splits)
  next
    case (BMemberRemove addr s)
    then have "ss_members st' = bt_delete addr (ss_members st)"
      using ok bd by (auto simp: apply_body_def Let_def split: if_splits)
    then show ?thesis using w length_bt_delete [of addr "ss_members st"]
      by (auto simp: bt_wf_delete) (auto simp: bt_delete_def)
  next
    case (BRoleChange addr r)
    then have r: "role r \<noteq> RoleNone" using v bd by (simp add: validate_body_def ok_simps del: first_err.simps)
    have a: "role (role_int RoleAdmin) \<noteq> RoleNone" by simp
    have "ss_members st' = set_member_role addr r (ss_members st) \<or> ss_members st'
        = set_member_role addr r (set_member_role (sv_actor e) (role_int RoleAdmin) (ss_members st))"
      using ok bd BRoleChange by (auto simp: apply_body_def Let_def set_role_members split: if_splits)
    then show ?thesis
      using set_member_role_ok [OF w(1,2) r] set_member_role_ok [OF w(1,2) a]
        set_member_role_ok [OF set_member_role_ok(1,2) [OF w(1,2) a] r] w by metis
  qed (use ok bd w in \<open>auto simp: apply_body_def Let_def push_content_def
      split: if_splits option.splits\<close>)
qed

lemma apply_body_content:
  "length (ss_content st) \<le> MAX_CONTENT \<Longrightarrow> apply_body x e st = Inr st' \<Longrightarrow>
    length (ss_content st') \<le> MAX_CONTENT"
  by (auto simp: apply_body_cases length_push_bounded
      split: option.splits space_body.splits if_splits)

lemma event_for_body: "event_for x st e \<Longrightarrow> validate_body e = Inr ()"
  by (simp add: event_for_def space_verify_def and_then_ok validate_space_event_def ok_simps
      del: first_err.simps)

lemma create_ids: "is_create e \<Longrightarrow> validate_body e = Inr () \<Longrightarrow> sv_space_id e = sv_event_id e"
  by (auto simp: is_create_def validate_body_def ok_simps simp del: first_err.simps
      split: option.splits space_body.splits)

lemma create_is_first:
  assumes "space_core st" "event_for x st e" "apply_verified x e st = Inr st'" "is_create e"
  shows "ss_members st = []"
proof (rule ccontr)
  assume "ss_members st \<noteq> []"
  moreover have "sv_space_id e = sv_event_id e"
    using assms create_ids event_for_body by blast
  ultimately show False using assms by (simp add: space_core_def event_for_def apply_verified_ok)
qed

lemma apply_verified_core:
  assumes inv: "space_core st" and ev: "event_for x st e" and ok: "apply_verified x e st = Inr st'"
  shows "space_core st'"
proof -
  have v: "validate_body e = Inr ()" using ev by (rule event_for_body)
  have cr: "ss_members st = []" if "is_create e" using create_is_first [OF inv ev ok that] .
  obtain st1 where b: "apply_body x e st = Inr st1" and r: "\<And>a. role_of st' a = role_of st1 a"
    and m: "ss_members st' = ss_members st1" and c: "ss_content st' = ss_content st1"
    using ok by (auto elim: role_of_apply)
  show ?thesis
  proof (rule space_core_parts)
    show "a = b" if "role_of st' a = RoleOwner" "role_of st' b = RoleOwner" for a b
      using apply_body_single_owner [OF inv b v cr] that r by auto
    show "length (ss_content st') \<le> MAX_CONTENT"
      using apply_body_content [OF _ b] c inv by (simp add: space_core_def)
    show "map_of (ss_applied st') (ss_space_id st') \<noteq> None" if "ss_members st' \<noteq> []"
    proof (cases "is_create e")
      case True
      then have "sv_space_id e = sv_event_id e" using v by (rule create_ids)
      then show ?thesis using apply_verified_frame [OF ok] ev by (simp add: event_for_def)
    next
      case False
      have "ss_members st \<noteq> []"
      proof
        assume no: "ss_members st = []"
        then have "\<And>a. role_of st a = RoleNone" by simp
        then show False using no b m that False
          by (cases "sv_body e") (auto simp: apply_body_cases is_create_def role_order
              split: space_body.splits if_splits option.splits)
      qed
      then show ?thesis using apply_verified_frame [OF ok] inv by (auto simp: space_core_def)
    qed
  qed (use apply_body_members [OF inv b v cr] m in auto)
qed

definition space_at :: "space_lib \<Rightarrow> string \<Rightarrow> space_state \<Rightarrow> bool" where
  "space_at x sid st \<longleftrightarrow> space_core st \<and> ss_space_id st = sid"

lemma retry_pending_inv:
  assumes "space_core st" "\<forall>e \<in> set (ss_pending st). event_for x st e"
  shows "space_core (retry_pending x st)" "ss_space_id (retry_pending x st) = ss_space_id st"
    and "set (ss_pending (retry_pending x st)) \<subseteq> set (ss_pending st)"
    and "length (ss_pending (retry_pending x st)) \<le> length (ss_pending st)"
proof -
  have "space_at x (ss_space_id st) (retry_pending x st)
    \<and> set (ss_pending (retry_pending x st)) \<subseteq> set (ss_pending st)
    \<and> length (ss_pending (retry_pending x st)) \<le> length (ss_pending st)"
  proof (rule retry_pending_preserves [where E = "{e. event_for x st e}"])
    fix e s s' assume "e \<in> {e. event_for x st e}" "space_at x (ss_space_id st) s"
      "apply_verified x e s = Inr s'"
    then show "space_at x (ss_space_id st) s'"
      using apply_verified_core [of s x e s'] apply_verified_frame(1) [of x e s s']
      by (simp add: space_at_def event_for_def)
  qed (use assms in \<open>auto simp: space_at_def space_core_pending\<close>)
  then show "space_core (retry_pending x st)" "ss_space_id (retry_pending x st) = ss_space_id st"
    "set (ss_pending (retry_pending x st)) \<subseteq> set (ss_pending st)"
    "length (ss_pending (retry_pending x st)) \<le> length (ss_pending st)"
    by (simp_all add: space_at_def)
qed

section \<open>Runs\<close>

text \<open>The events a member receives, each with the address MLS names as its sender.\<close>

definition space_step :: "space_lib \<Rightarrow> space_state \<Rightarrow> space_event \<times> string \<Rightarrow> space_state" where
  "space_step x st es = snd (apply_event x (fst es) (snd es) st)"

definition space_run :: "space_lib \<Rightarrow> space_state \<Rightarrow> (space_event \<times> string) list \<Rightarrow> space_state" where
  "space_run x st evs = foldl (space_step x) st evs"

text \<open>The three ways an event changes the state.\<close>

lemma apply_event_cases:
  obtains (same) "space_step x st (e, s) = st"
  | (wait) r where "space_step x st (e, s) = st\<lparr>ss_pending := ss_pending st @ [e]\<rparr>"
      "length (ss_pending st) < MAX_PENDING" "event_for x st e" "sv_actor e = s"
      "apply_verified x e st = Inl (RPending r)"
  | (accept) st1 where "apply_verified x e st = Inr st1" "event_for x st e" "sv_actor e = s"
      "space_step x st (e, s) = retry_pending x st1" "fst (apply_event x e s st) = Inr ()"
proof -
  let ?r = "case apply_verified x e st of
              Inr st' \<Rightarrow> (Inr (), retry_pending x st')
            | Inl (RPending s) \<Rightarrow> (Inl (RPending s),
                if length (ss_pending st) < MAX_PENDING
                then st\<lparr>ss_pending := ss_pending st @ [e]\<rparr> else st)
            | Inl r \<Rightarrow> (Inl r, st)"
  have "space_step x st (e, s) = st \<or> event_for x st e \<and> sv_actor e = s \<and> apply_event x e s st = ?r"
  proof (cases "event_for x st e \<and> sv_actor e = s")
    case True
    then have "apply_event x e s st = ?r" by (simp only: apply_event_def event_for_def) simp
    then show ?thesis using True by blast
  next
    case False
    then show ?thesis
      by (cases "space_verify x e") (auto simp: space_step_def apply_event_def event_for_def)
  qed
  then consider "space_step x st (e, s) = st"
    | "event_for x st e \<and> sv_actor e = s \<and> apply_event x e s st = ?r" by blast
  then show ?thesis
  proof cases
    case 1
    then show ?thesis by (rule same)
  next
    case 2
    show ?thesis
    proof (cases "apply_verified x e st")
      case (Inr st1)
      then show ?thesis using 2 accept by (simp add: space_step_def)
    next
      case (Inl r)
      show ?thesis
      proof (cases "\<exists>q. r = RPending q \<and> length (ss_pending st) < MAX_PENDING")
        case True
        then show ?thesis using 2 Inl wait by (auto simp: space_step_def)
      next
        case False
        then show ?thesis using 2 Inl same by (cases r) (auto simp: space_step_def)
      qed
    qed
  qed
qed

lemma space_step_inv:
  assumes "space_inv x st"
  shows "space_inv x (space_step x st es)"
proof (cases es)
  case (Pair e s)
  show ?thesis
  proof (cases rule: apply_event_cases [of x st e s])
    case same
    then show ?thesis using assms Pair by simp
  next
    case wait
    then show ?thesis using assms Pair by (auto simp: space_inv_def event_for_def space_core_pending)
  next
    case (accept st1)
    have c: "space_core st1"
      using apply_verified_core [OF _ accept(2,1)] assms by (simp add: space_inv_def)
    have p: "\<forall>e \<in> set (ss_pending st1). event_for x st1 e" "length (ss_pending st1) \<le> MAX_PENDING"
      using assms apply_verified_frame [OF accept(1)] by (auto simp: space_inv_def event_for_def)
    show ?thesis
      using retry_pending_inv [OF c p(1)] p accept(4) Pair by (auto simp: space_inv_def event_for_def)
  qed
qed

lemma applied_mono_verified:
  "apply_verified x e s = Inr s' \<Longrightarrow> dom (map_of (ss_applied s)) \<subseteq> dom (map_of (ss_applied s'))"
  using apply_verified_frame(3) [of x e s s'] by auto

lemma applied_mono_retry:
  "dom (map_of (ss_applied st)) \<subseteq> dom (map_of (ss_applied (retry_pending x st)))"
  using retry_pending_preserves [where E = UNIV and x = x and st = st
      and Q = "\<lambda>s. dom (map_of (ss_applied st)) \<subseteq> dom (map_of (ss_applied s))"]
    applied_mono_verified by (metis (no_types, lifting) order_refl order_trans subset_UNIV
      space_state.select_convs(9) space_state.update_convs(12) space_state.surjective)

lemma applied_mono_step:
  "dom (map_of (ss_applied st)) \<subseteq> dom (map_of (ss_applied (space_step x st es)))"
proof (cases es)
  case (Pair e s)
  show ?thesis
  proof (cases rule: apply_event_cases [of x st e s])
    case (accept st1)
    then show ?thesis
      using Pair applied_mono_verified [OF accept(1)] applied_mono_retry [of st1 x] by auto
  qed (use Pair in auto)
qed

lemma applied_absorbs:
  assumes "map_of (ss_applied st) (sx_hex x (sv_event_id (fst es))) \<noteq> None"
  shows "space_step x st es = st"
proof -
  have "apply_verified x (fst es) st = Inl RDuplicate"
    using assms by (simp add: apply_verified_def Let_def)
  then show ?thesis by (simp add: space_step_def apply_event_def split: sum.splits)
qed

interpretation event_log: dedup_machine "space_step x" "space_inv x"
    "\<lambda>es. sx_hex x (sv_event_id (fst es))" "\<lambda>st. dom (map_of (ss_applied st))" for x
  by unfold_locales (simp_all add: space_step_inv applied_mono_step applied_absorbs domIff)

lemma space_new_inv: "space_inv x (space_new x sid)"
  by (simp add: space_inv_def space_core_def space_new_def)

lemma space_run_inv: "space_inv x (space_run x (space_new x sid) evs)"
  unfolding space_run_def by (rule event_log.run_inv [OF space_new_inv])

section \<open>What a signature commits to\<close>

definition space_fields :: "space_lib \<Rightarrow> space_event \<Rightarrow> field list" where
  "space_fields x e =
     [FU32 (sv_version e), FBytes ''space_id'' (sv_space_id e), FBytes ''event_id'' (sv_event_id e),
      FBytes ''actor'' (str_bytes (sv_actor e)), FBytes ''device_pubkey'' (sv_device e),
      FU64 (sv_sequence e), FBytes ''parent_id'' (sv_parent e), FU64 (sv_at_ms e),
      FU32 (body_tag (sv_body e)), FBytes ''body'' (body_bytes x e)]"

lemma space_payload_fields:
  "space_payload x e = Inr p \<longleftrightarrow> cb_finish (foldl cb_push cb_new (space_fields x e)) = Inr p"
  by (cases "cb_finish (foldl cb_push cb_new (space_fields x e))")
    (simp_all add: space_payload_def cb_string_def space_fields_def)

text \<open>A protobuf encoding determines the message it encodes, given its type; \<open>S\<close> is the set of
  bodies considered.\<close>

definition encode_injective :: "space_lib \<Rightarrow> space_body set \<Rightarrow> bool" where
  "encode_injective x S \<longleftrightarrow> (\<forall>b \<in> S. \<forall>b' \<in> S. body_tag (Some b) = body_tag (Some b') \<longrightarrow>
     sx_encode x b = sx_encode x b' \<longrightarrow> b = b')"

lemma body_tag_None [simp]: "body_tag b = 0 \<longleftrightarrow> b = None" "0 = body_tag b \<longleftrightarrow> b = None"
  by (cases b rule: body_tag.cases; simp)+

lemma space_payload_inj:
  assumes "encode_injective x S" "set_option (sv_body e) \<subseteq> S" "set_option (sv_body e') \<subseteq> S"
    and "space_payload x e = Inr p" "space_payload x e' = Inr p"
  shows "e' = e\<lparr>sv_signature := sv_signature e'\<rparr>"
proof -
  have nw: "cb_err cb_new = None" "cb_out cb_new = []" by (simp_all add: cb_new_def)
  have sh: "list_all2 same_shape (space_fields x e) (space_fields x e')" by (simp add: space_fields_def)
  have "space_fields x e = space_fields x e'"
    using fields_split [OF sh] assms(4,5) cb_run_ok [OF nw(1)] nw(2) unfolding space_payload_fields
    by (metis append_Nil)
  then have eq: "sv_version e = sv_version e'" "sv_space_id e = sv_space_id e'"
    "sv_event_id e = sv_event_id e'" "sv_actor e = sv_actor e'" "sv_device e = sv_device e'"
    "sv_sequence e = sv_sequence e'" "sv_parent e = sv_parent e'" "sv_at_ms e = sv_at_ms e'"
    "body_tag (sv_body e) = body_tag (sv_body e')" "body_bytes x e = body_bytes x e'"
    by (simp_all add: space_fields_def)
  have "sv_body e = sv_body e'"
  proof (cases "sv_body e")
    case None
    then show ?thesis using eq by simp
  next
    case (Some b)
    then obtain b' where "sv_body e' = Some b'" using eq by (cases "sv_body e'") auto
    then show ?thesis using Some eq assms(1-3) by (simp add: encode_injective_def body_bytes_def)
  qed
  then show ?thesis using eq by simp
qed

section \<open>The pending set at rest\<close>

fun waits :: "space_lib \<Rightarrow> space_state \<Rightarrow> space_event \<Rightarrow> bool" where
  "waits x st e = (case apply_verified x e st of Inl (RPending _) \<Rightarrow> True | _ \<Rightarrow> False)"

lemma waits_pending [simp]: "waits x (st\<lparr>ss_pending := p\<rparr>) = waits x st"
  by (rule ext) (simp add: apply_verified_pending_upd split: sum.splits)

declare waits.simps [simp del]

lemma retry_pass_keeps_progress: "fst (retry_pass x es True st)"
  by (induction es arbitrary: st) (auto split: sum.splits rejected.splits)

lemma retry_pass_still:
  "retry_pass x es p st = (False, st') \<Longrightarrow>
     st' = st\<lparr>ss_pending := ss_pending st @ filter (waits x st) es\<rparr>"
proof (induction es arbitrary: p st)
  case Nil
  then show ?case by simp
next
  case (Cons e es)
  show ?case
  proof (cases "apply_verified x e st")
    case (Inr st1)
    then show ?thesis using Cons.prems retry_pass_keeps_progress [of x es st1] by simp
  next
    case (Inl r)
    show ?thesis
    proof (cases "\<exists>s. r = RPending s")
      case True
      then have "retry_pass x es p (st\<lparr>ss_pending := ss_pending st @ [e]\<rparr>) = (False, st')"
        using Cons.prems Inl by auto
      moreover have "waits x st e" using True Inl by (auto simp: waits.simps)
      ultimately show ?thesis
        using Cons.IH [of p "st\<lparr>ss_pending := ss_pending st @ [e]\<rparr>"] by simp
    next
      case False
      then have "retry_pass x es p st = (False, st')" using Cons.prems Inl by (cases r) auto
      moreover have "\<not> waits x st e" using False Inl by (simp add: waits.simps split: rejected.splits)
      ultimately show ?thesis using Cons.IH [of p st] by simp
    qed
  qed
qed

lemma retry_pending_waits: "list_all (waits x (retry_pending x st)) (ss_pending (retry_pending x st))"
proof (induction "length (ss_pending st)" arbitrary: st rule: less_induct)
  case (less st)
  obtain p' st' where r: "retry_pass x (sort_key pending_key (ss_pending st)) False
      (st\<lparr>ss_pending := []\<rparr>) = (p', st')"
    by (cases "retry_pass x (sort_key pending_key (ss_pending st)) False (st\<lparr>ss_pending := []\<rparr>)")
  show ?case
  proof (cases p')
    case True
    then have "retry_pending x st = retry_pending x st'"
      using r by (simp add: retry_pending.simps [of x st])
    then show ?thesis using less.hyps [of st'] True r retry_pass_progress [of st' x st] by simp
  next
    case False
    then have "retry_pending x st = st'" using r by (simp add: retry_pending.simps [of x st])
    moreover have "retry_pass x (sort_key pending_key (ss_pending st)) False (st\<lparr>ss_pending := []\<rparr>)
        = (False, st')" using r False by simp
    from retry_pass_still [OF this]
    have "ss_pending st' = filter (waits x st) (sort_key pending_key (ss_pending st))"
      and "waits x st' = waits x st" by simp_all
    ultimately show ?thesis by (simp add: list_all_iff)
  qed
qed

lemma space_step_waits:
  assumes "list_all (waits x st) (ss_pending st)"
  shows "list_all (waits x (space_step x st es)) (ss_pending (space_step x st es))"
proof (cases es)
  case (Pair e s)
  show ?thesis
  proof (cases rule: apply_event_cases [of x st e s])
    case (accept st1)
    then show ?thesis using Pair retry_pending_waits by simp
  next
    case (wait r)
    then show ?thesis using Pair assms by (simp add: waits.simps [of x st e])
  qed (use assms Pair in simp)
qed

interpretation pending_rest: invariant_machine "space_step x"
    "\<lambda>st. list_all (waits x st) (ss_pending st)" for x
  by unfold_locales (rule space_step_waits)

section \<open>The owner under the events of others\<close>

text \<open>Member \<open>a\<close> owns the Space and wrote none of the pending events.\<close>

definition owned_by :: "space_lib \<Rightarrow> string \<Rightarrow> space_state \<Rightarrow> bool" where
  "owned_by x a st \<longleftrightarrow> space_inv x st \<and> role_of st a = RoleOwner
     \<and> (\<forall>e \<in> set (ss_pending st). sv_actor e \<noteq> a)"

lemma other_keeps_owner:
  assumes inv: "space_core st" and o: "role_of st a = RoleOwner" and na: "sv_actor e \<noteq> a"
    and ev: "event_for x st e" and ok: "apply_verified x e st = Inr st'"
  shows "role_of st' a = RoleOwner"
proof (rule ccontr)
  assume ne: "role_of st' a \<noteq> RoleOwner"
  obtain st1 where b: "apply_body x e st = Inr st1" and r: "\<And>a. role_of st' a = role_of st1 a"
    using ok by (auto elim: role_of_apply)
  have "ss_members st \<noteq> []" using o by auto
  then have "\<not> is_create e" using create_is_first [OF inv ev ok] by blast
  then have "may_change st e a (role_of st1 a)"
    using apply_body_roles [OF b] ne o r by simp
  then have "role_of st (sv_actor e) = RoleOwner"
    using na o by (auto simp: may_change_def role_below_admin)
  then show False using inv o na by (simp add: space_core_def)
qed

definition owns :: "space_lib \<Rightarrow> string \<Rightarrow> string \<Rightarrow> space_state \<Rightarrow> bool" where
  "owns x sid a st \<longleftrightarrow> space_at x sid st \<and> role_of st a = RoleOwner"

lemma other_step_owned:
  assumes own: "owned_by x a st" and na: "snd es \<noteq> a"
  shows "owned_by x a (space_step x st es)"
proof (cases es)
  case (Pair e s)
  show ?thesis
  proof (cases rule: apply_event_cases [of x st e s])
    case same
    then show ?thesis using own Pair by simp
  next
    case wait
    have "space_inv x (space_step x st es)" using own space_step_inv by (simp add: owned_by_def)
    then show ?thesis using own na Pair wait(1,4) by (simp add: owned_by_def)
  next
    case (accept st1)
    have o: "role_of st1 a = RoleOwner"
      using other_keeps_owner [OF _ _ _ accept(2,1)] own na Pair accept(3)
      by (simp add: owned_by_def space_inv_def)
    have inv: "space_core st1" "\<forall>e \<in> set (ss_pending st1). event_for x st1 e \<and> sv_actor e \<noteq> a"
      using own apply_verified_core [OF _ accept(2,1)] apply_verified_frame [OF accept(1)]
      by (auto simp: owned_by_def space_inv_def event_for_def)
    have "owns x (ss_space_id st1) a (retry_pending x st1)
      \<and> set (ss_pending (retry_pending x st1)) \<subseteq> set (ss_pending st1)
      \<and> length (ss_pending (retry_pending x st1)) \<le> length (ss_pending st1)"
    proof (rule retry_pending_preserves [where E = "{e. event_for x st1 e \<and> sv_actor e \<noteq> a}"])
      fix e s s' assume e: "e \<in> {e. event_for x st1 e \<and> sv_actor e \<noteq> a}"
        and s: "owns x (ss_space_id st1) a s" and ok: "apply_verified x e s = Inr s'"
      then have "event_for x s e" by (simp add: owns_def space_at_def event_for_def)
      then show "owns x (ss_space_id st1) a s'"
        using e s ok other_keeps_owner [of s a e x s'] apply_verified_core [of s x e s']
          apply_verified_frame(1) [OF ok] by (simp add: owns_def space_at_def)
    qed (use o inv in \<open>auto simp: owns_def space_at_def space_core_pending\<close>)
    moreover have "space_inv x (space_step x st es)" using own space_step_inv by (simp add: owned_by_def)
    ultimately show ?thesis using inv(2) Pair accept(4) by (auto simp: owned_by_def owns_def)
  qed
qed

lemma accepted_is_applied:
  assumes "fst (apply_event x e s st) = Inr ()"
  shows "sx_hex x (sv_event_id e) \<in> dom (map_of (ss_applied (space_step x st (e, s))))"
proof -
  obtain st1 where "apply_verified x e st = Inr st1" "space_step x st (e, s) = retry_pending x st1"
    using assms by (auto simp: apply_event_def space_step_def split: if_splits sum.splits rejected.splits)
  then show ?thesis
    using apply_verified_frame(3) [of x e st st1] applied_mono_retry [of st1 x] by auto
qed

section \<open>The properties\<close>

lemma length_all_equal:
  assumes "distinct xs" "\<And>a b. a \<in> set xs \<Longrightarrow> b \<in> set xs \<Longrightarrow> a = b"
  shows "length xs \<le> 1"
proof (rule ccontr)
  assume "\<not> length xs \<le> 1"
  then have l: "0 < length xs" "1 < length xs" by linarith+
  then have "xs ! 0 = xs ! 1" by (intro assms(2)) simp_all
  then show False using assms(1) l nth_eq_iff_index_eq [of xs 0 1] by simp
qed

text \<open>
  C1. Whatever events a member receives, in whatever order and from whomever: the Space has
  at most one owner, every row of the role table is for its own address and gives it a role, no
  address has two rows, the bounds on members, content and pending events hold, and every
  pending event is for this Space, well formed and signed.
\<close>

theorem space_always_sound:
  "let st = space_run x (space_new x sid) evs in
     length (filter (\<lambda>p. role (mb_role (snd p)) = RoleOwner) (ss_members st)) \<le> 1
     \<and> list_all member_ok (ss_members st) \<and> distinct (map fst (ss_members st))
     \<and> length (ss_members st) \<le> MAX_MEMBERS \<and> length (ss_content st) \<le> MAX_CONTENT
     \<and> length (ss_pending st) \<le> MAX_PENDING \<and> list_all (event_for x st) (ss_pending st)"
proof -
  define st where "st = space_run x (space_new x sid) evs"
  have inv: "space_inv x st" unfolding st_def by (rule space_run_inv)
  then have d: "distinct (map fst (ss_members st))"
    by (simp add: space_inv_def space_core_def bt_wf_distinct)
  let ?os = "filter (\<lambda>p. role (mb_role (snd p)) = RoleOwner) (ss_members st)"
  have "role_of st (fst p) = RoleOwner" if "p \<in> set ?os" for p
    using that map_of_is_SomeI [OF d, of "fst p" "snd p"] by (simp add: role_of_def)
  then have "a = b" if "a \<in> set (map fst ?os)" "b \<in> set (map fst ?os)" for a b
    using that inv by (auto simp: space_inv_def space_core_def)
  moreover have "distinct (map fst ?os)" using d by (rule distinct_map_filter)
  ultimately have "length (map fst ?os) \<le> 1"
    by (intro length_all_equal)
  then show ?thesis
    using inv d unfolding st_def [symmetric]
    by (simp add: space_inv_def space_core_def list_all_iff Let_def)
qed


text \<open>
  C2. Nobody takes a Space from its owner: while none of the events that arrive, and none of
  those pending, is the owner's own, the owner stays the owner, whatever the others send.
\<close>

theorem ownership_cannot_be_taken:
  assumes "space_inv x st" "role_of st a = RoleOwner"
    and "\<forall>e \<in> set (ss_pending st). sv_actor e \<noteq> a"
    and "\<forall>es \<in> set evs. snd es \<noteq> a"
  shows "role_of (space_run x st evs) a = RoleOwner"
proof -
  have "owned_by x a (foldl (space_step x) s evs)" if "owned_by x a s" "\<forall>es \<in> set evs. snd es \<noteq> a" for s
    using that by (induction evs arbitrary: s) (simp_all add: other_step_owned)
  then show ?thesis using assms by (simp add: owned_by_def space_run_def)
qed

text \<open>
  C3. No privilege escalation: when an accepted event other than the creation changes the role
  of a member, then its actor is the owner, or an administrator moving someone below
  administrator to at most member, or the member is leaving.
\<close>

theorem role_changes_authorised:
  assumes "apply_verified x e st = Inr st'" "\<not> is_create e" "role_of st' a \<noteq> role_of st a"
  shows "(a = sv_actor e \<and> role_of st' a = RoleNone)
     \<or> role_of st (sv_actor e) = RoleOwner
     \<or> (role_of st (sv_actor e) = RoleAdmin \<and> role_of st a < RoleAdmin \<and> role_of st' a \<le> RoleMember)"
proof -
  obtain st1 where "apply_body x e st = Inr st1" "\<And>a. role_of st' a = role_of st1 a"
    using assms(1) by (auto elim: role_of_apply)
  then show ?thesis using apply_body_roles [of x e st st1 a] assms(2,3) by (simp add: may_change_def)
qed

text \<open>
  A signature commits to the whole event: two events that verify with the same payload
  differ at most in the signature, so an accepted event cannot be altered in any field or
  moved to another Space, actor, sequence number or kind of body.
\<close>

theorem space_signature_binds:
  assumes "encode_injective x S" "set_option (sv_body e) \<subseteq> S" "set_option (sv_body e') \<subseteq> S"
    and "space_payload x e = Inr p" "space_payload x e' = Inr p"
  shows "e' = e\<lparr>sv_signature := sv_signature e'\<rparr>"
  using assms by (rule space_payload_inj)

text \<open>
  No event waits in vain: in every state a member can reach, every pending event is one
  that the current state cannot apply yet.
\<close>

theorem no_applicable_event_waits:
  "let st = space_run x (space_new x sid) evs in
     list_all (\<lambda>e. case apply_verified x e st of Inl (RPending why) \<Rightarrow> True | _ \<Rightarrow> False) (ss_pending st)"
proof -
  have "list_all (waits x (space_new x sid)) (ss_pending (space_new x sid))"
    by (simp add: space_new_def)
  from pending_rest.run_inv [OF this] show ?thesis
    by (simp add: Let_def space_run_def waits.simps list_all_iff)
qed

text \<open>
  Replays are absorbed: once an event was accepted, any event with its id changes nothing,
  however many events came between and whoever sends it again.
\<close>

theorem space_replay_absorbed:
  assumes "space_inv x st" "fst (apply_event x e s st) = Inr ()"
    and "sv_event_id e' = sv_event_id e"
  shows "space_step x (space_run x st ((e, s) # later)) (e', s') = space_run x st ((e, s) # later)"
proof -
  have "sx_hex x (sv_event_id e) \<in> dom (map_of (ss_applied (space_step x st (e, s))))"
    using assms(2) by (rule accepted_is_applied)
  then have "space_step x (foldl (space_step x) (space_step x st (e, s)) later) (e', s')
      = foldl (space_step x) (space_step x st (e, s)) later"
    using event_log.replay_absorbed [OF space_step_inv [OF assms(1)], where e = "(e', s')"] assms(3)
    by simp
  then show ?thesis by (simp add: space_run_def)
qed

section \<open>A concrete Space\<close>

text \<open>
  A library that prints bytes as characters, frames the fields of the two bodies used here,
  hashes to a constant and accepts every signature; an owner and a guest.
\<close>

definition wit_lib :: space_lib where
  "wit_lib = \<lparr>sx_net = devnet ''dev'', sx_hex = map (\<lambda>b. char_of (unat b)),
     sx_encode = (\<lambda>b. case b of BDriveUnshare i \<Rightarrow> i | _ \<Rightarrow> []),
     sx_sha256 = (\<lambda>b. replicate 32 0), sx_ed25519 = (\<lambda>k d s. True)\<rparr>"

definition wit_owner :: string where
  "wit_owner = ''hash1'' @ replicate 34 (CHR ''q'')"

definition wit_guest :: string where
  "wit_guest = ''hash1'' @ replicate 34 (CHR ''p'')"

definition wit_event :: "string \<Rightarrow> byte \<Rightarrow> u64 \<Rightarrow> space_body \<Rightarrow> space_event" where
  "wit_event a i n b = \<lparr>sv_version = 1, sv_space_id = replicate 16 7, sv_event_id = replicate 16 i,
     sv_actor = a, sv_device = replicate 32 1, sv_sequence = n, sv_parent = [], sv_at_ms = 5,
     sv_body = Some b, sv_signature = replicate 64 2\<rparr>"

definition wit_create :: space_event where
  "wit_create = wit_event wit_owner 7 1 (BCreate ''Team'' [] wit_owner)"

definition wit_add :: space_event where
  "wit_add = wit_event wit_owner 8 2 (BMemberAdd wit_guest 1)"

definition wit_space :: space_state where
  "wit_space = (space_new wit_lib (replicate 16 7))
     \<lparr>ss_name := ''Team'', ss_created_at_ms := 5,
      ss_members := [(wit_owner, \<lparr>mb_address = wit_owner, mb_role = 4, mb_since_ms = 5\<rparr>)],
      ss_sequences := [(wit_owner, 1)], ss_applied := [(replicate 16 (char_of (7 :: nat)), ())],
      ss_head := replicate 16 (char_of (7 :: nat))\<rparr>"

lemma wit_address [simp]: "is_address wit_owner" "is_address wit_guest"
  by (simp_all add: is_address_def wit_owner_def wit_guest_def numeral_eq_Suc)

lemma wit_ne [simp]: "wit_owner \<noteq> wit_guest" "wit_guest \<noteq> wit_owner"
  by (simp_all add: wit_owner_def wit_guest_def numeral_eq_Suc)

lemma wit_lengths [simp]: "length wit_owner = 39" "length wit_guest = 39"
  by (simp_all add: wit_owner_def wit_guest_def)

lemma wit_verify_create: "space_verify wit_lib wit_create = Inr ()"
  by (simp add: space_verify_def and_then_ok validate_space_event_def ok_simps wit_create_def wit_event_def
      check_body_ok SPACE_VERSION_def validate_body_def SPACE_MAX_NAME_def SPACE_MAX_TEXT_def
      require_id_def require_str_def require_str_max_def require_id_or_empty_def ID_LEN_def
      space_payload_def cb_finish_def cb_bytes_def cb_u32_def cb_u64_def cb_string_def cb_new_def
      MAX_FIELD_BYTES_def body_bytes_def wit_lib_def app_verify_def del: first_err.simps)

lemma wit_chars [simp]: "char_of (8 :: nat) \<noteq> char_of (7 :: nat)"
  by code_simp

lemma wit_id: "sx_hex wit_lib (replicate 16 7) = replicate 16 (char_of (7 :: nat))"
  by (simp add: wit_lib_def)

lemma wit_apply_create:
  "apply_verified wit_lib wit_create (space_new wit_lib (replicate 16 7)) = Inr wit_space"
  by (simp add: apply_verified_def apply_body_def space_exists_def wit_create_def wit_event_def
      space_new_def Let_def wit_id wit_space_def role_int_def is_create_def)

lemma wit_new_inv: "space_inv wit_lib (space_new wit_lib (replicate 16 7))"
  by (rule space_new_inv)

lemma wit_event_for: "event_for wit_lib (space_new wit_lib (replicate 16 7)) wit_create"
  using wit_verify_create by (simp add: event_for_def space_new_def wit_create_def wit_event_def)

lemma wit_space_inv: "space_inv wit_lib wit_space"
  using apply_verified_core [OF _ wit_event_for wit_apply_create] wit_new_inv
  by (simp add: space_inv_def) (simp add: wit_space_def space_new_def)

lemma wit_owner_role: "role_of wit_space wit_owner = RoleOwner"
  by (simp add: role_of_def wit_space_def role_def)

lemma wit_apply_add: "\<exists>st. apply_verified wit_lib wit_add wit_space = Inr st \<and> role_of st wit_guest = RoleGuest"
  by (simp add: apply_verified_def apply_body_def space_exists_def wit_add_def wit_event_def
      Let_def wit_owner_role role_order MAX_MEMBERS_def role_of_insert)
    (simp add: wit_space_def wit_lib_def space_new_def role_def role_of_def word_le_nat_alt)

theorem ownership_cannot_be_taken_witness:
  "role_of (space_run wit_lib wit_space [(wit_add, wit_guest)]) wit_owner = RoleOwner"
  by (rule ownership_cannot_be_taken [OF wit_space_inv wit_owner_role])
    (simp_all add: wit_space_def space_new_def)

theorem role_changes_authorised_witness:
  "role_of wit_space wit_owner = RoleOwner \<or> role_of wit_space wit_owner = RoleAdmin \<or> wit_guest = wit_owner"
proof -
  obtain st where st: "apply_verified wit_lib wit_add wit_space = Inr st" "role_of st wit_guest = RoleGuest"
    using wit_apply_add by blast
  have ac: "sv_actor wit_add = wit_owner" by (simp add: wit_add_def wit_event_def)
  have "role_of wit_space wit_guest = RoleNone" by (simp add: role_of_def wit_space_def)
  then have "role_of st wit_guest \<noteq> role_of wit_space wit_guest" using st(2) by simp
  moreover have "\<not> is_create wit_add" by (simp add: is_create_def wit_add_def wit_event_def)
  ultimately show ?thesis using role_changes_authorised [OF st(1), of wit_guest]
    unfolding ac by blast
qed

lemma wit_encode_injective: "encode_injective wit_lib {BDriveUnshare i | i. True}"
  by (auto simp: encode_injective_def wit_lib_def)

lemma wit_payload_ok: "\<exists>p. space_payload wit_lib (wit_event a i n (BDriveUnshare [1])) = Inr p"
  if "length a \<le> 64"
  using that
  by (simp add: wit_event_def space_payload_def cb_finish_def cb_bytes_def cb_u32_def cb_u64_def
      cb_string_def cb_new_def MAX_FIELD_BYTES_def body_bytes_def wit_lib_def)

theorem space_signature_binds_witness:
  "space_payload wit_lib (wit_event wit_owner 9 3 (BDriveUnshare [1]))
     \<noteq> space_payload wit_lib (wit_event wit_guest 9 3 (BDriveUnshare [1]))"
proof
  assume eq: "space_payload wit_lib (wit_event wit_owner 9 3 (BDriveUnshare [1]))
     = space_payload wit_lib (wit_event wit_guest 9 3 (BDriveUnshare [1]))"
  obtain p where p: "space_payload wit_lib (wit_event wit_owner 9 3 (BDriveUnshare [1])) = Inr p"
    using wit_payload_ok [of wit_owner] by auto
  have "wit_event wit_guest 9 3 (BDriveUnshare [1]) = (wit_event wit_owner 9 3 (BDriveUnshare [1]))
      \<lparr>sv_signature := sv_signature (wit_event wit_guest 9 3 (BDriveUnshare [1]))\<rparr>"
    by (rule space_signature_binds [OF wit_encode_injective _ _ p])
      (use p eq in \<open>simp_all add: wit_event_def\<close>)
  then show False by (simp add: wit_event_def)
qed

theorem space_replay_absorbed_witness:
  "space_step wit_lib (space_run wit_lib (space_new wit_lib (replicate 16 7)) [(wit_create, wit_owner)])
     (wit_create, wit_guest)
   = space_run wit_lib (space_new wit_lib (replicate 16 7)) [(wit_create, wit_owner)]"
proof -
  have "fst (apply_event wit_lib wit_create wit_owner (space_new wit_lib (replicate 16 7))) = Inr ()"
    using wit_event_for wit_apply_create
    by (simp add: apply_event_def event_for_def) (simp add: wit_create_def wit_event_def)
  from space_replay_absorbed [OF wit_new_inv this refl, where later = "[]" and s' = wit_guest]
  show ?thesis .
qed

end
