(* ===== verification/Frame.thy ===== *)
theory Frame
  imports Blob
begin

text \<open>
  Length-prefixed messages: \<open>hashgram-proto/src/frame.rs\<close> and the stream codec of
  \<open>hashgram-p2p/src/codec.rs\<close>. Protobuf is third-party code: \<open>enc\<close> gives the bytes of a
  message, \<open>dec\<close> decodes a body or fails with a text. A stream is the list of the bytes it will
  still deliver.
\<close>

section \<open>Frames in memory\<close>

datatype frame_error =
    FTooLarge nat nat
  | FTruncated nat nat
  | FDecode string
  | FTrailing nat

definition encode_frame :: "('m \<Rightarrow> bytes) \<Rightarrow> 'm \<Rightarrow> nat \<Rightarrow> frame_error + bytes" where
  "encode_frame enc msg mx =
     (let len = length (enc msg) in
      if len > mx then Inl (FTooLarge len mx) else Inr (u32_be (word_of_nat len) @ enc msg))"

definition read_prefix :: "bytes \<Rightarrow> nat \<Rightarrow> frame_error + nat" where
  "read_prefix prefix mx =
     (let len = unat (word_of_nat (nat_of_be prefix) :: u32) in
      if len > mx then Inl (FTooLarge len mx) else Inr len)"

definition decode_body :: "(bytes \<Rightarrow> string + 'm) \<Rightarrow> bytes \<Rightarrow> frame_error + 'm" where
  "decode_body dec body = (case dec body of Inl e \<Rightarrow> Inl (FDecode e) | Inr m \<Rightarrow> Inr m)"

definition decode_frame :: "(bytes \<Rightarrow> string + 'm) \<Rightarrow> bytes \<Rightarrow> nat \<Rightarrow> frame_error + 'm" where
  "decode_frame dec buf mx =
     (if length buf < 4 then Inl (FTruncated 4 (length buf))
      else let rest = drop 4 buf in
        and_then (read_prefix (take 4 buf) mx) (\<lambda>len.
          if length rest < len then Inl (FTruncated len (length rest))
          else if drop len rest \<noteq> [] then Inl (FTrailing (length (drop len rest)))
          else decode_body dec (take len rest)))"

definition decode_bounded :: "(bytes \<Rightarrow> string + 'm) \<Rightarrow> bytes \<Rightarrow> nat \<Rightarrow> frame_error + 'm" where
  "decode_bounded dec body mx =
     (if length body > mx then Inl (FTooLarge (length body) mx) else decode_body dec body)"

section \<open>Frames on a stream\<close>

definition MAX_RPC_FRAME :: nat where "MAX_RPC_FRAME = CHUNK_SIZE + 64 * 1024"

datatype io_error = UnexpectedEof | InvalidData frame_error | InvalidInput nat nat

definition read_exact :: "nat \<Rightarrow> bytes \<Rightarrow> io_error + bytes \<times> bytes" where
  "read_exact n io = (if length io < n then Inl UnexpectedEof else Inr (take n io, drop n io))"

text \<open>
  \<open>read_message\<close> up to the decoding of the body, and the whole of it; the second component is
  the stream that is left.
\<close>

definition read_body :: "bytes \<Rightarrow> io_error + bytes \<times> bytes" where
  "read_body io =
     and_then (read_exact 4 io) (\<lambda>(prefix, io).
     and_then (case read_prefix prefix MAX_RPC_FRAME of
                 Inl e \<Rightarrow> Inl (InvalidData e) | Inr len \<Rightarrow> Inr len) (\<lambda>len.
       read_exact len io))"

definition read_message :: "(bytes \<Rightarrow> string + 'm) \<Rightarrow> bytes \<Rightarrow> io_error + 'm \<times> bytes" where
  "read_message dec io =
     and_then (read_body io) (\<lambda>(body, io).
       case dec body of Inl e \<Rightarrow> Inl (InvalidData (FDecode e)) | Inr m \<Rightarrow> Inr (m, io))"

definition write_message :: "('m \<Rightarrow> bytes) \<Rightarrow> 'm \<Rightarrow> io_error + bytes" where
  "write_message enc msg =
     (let len = length (enc msg) in
      if len > MAX_RPC_FRAME then Inl (InvalidInput len MAX_RPC_FRAME)
      else Inr (u32_be (word_of_nat len) @ enc msg))"

section \<open>The wire format is prefix decodable\<close>

lemma unat_of_prefix: "n < 2 ^ 32 \<Longrightarrow>
    unat (word_of_nat (nat_of_be (u32_be (word_of_nat n))) :: u32) = n"
  by (simp add: u32_of_be unat_of_nat)

lemma read_prefix_written: "n < 2 ^ 32 \<Longrightarrow>
    read_prefix (u32_be (word_of_nat n)) mx = (if n > mx then Inl (FTooLarge n mx) else Inr n)"
  by (simp add: read_prefix_def unat_of_prefix)

lemma MAX_RPC_FRAME_small: "MAX_RPC_FRAME < 2 ^ 32"
  by (simp add: MAX_RPC_FRAME_def CHUNK_SIZE_def)

definition read_body_opt :: "bytes \<Rightarrow> (bytes \<times> bytes) option" where
  "read_body_opt io = (case read_body io of Inl e \<Rightarrow> None | Inr r \<Rightarrow> Some r)"

lemma read_body_written:
  assumes "length body \<le> MAX_RPC_FRAME"
  shows "read_body (frame32 body @ rest) = Inr (body, rest)"
proof -
  have "length body < 2 ^ 32" using assms MAX_RPC_FRAME_small by linarith
  then show ?thesis
    using assms by (simp add: read_body_def read_exact_def frame32_def read_prefix_written)
qed

interpretation rpc_wire: prefix_decoder frame32 "\<lambda>v. length v \<le> MAX_RPC_FRAME" read_body_opt
  by unfold_locales (simp add: read_body_opt_def read_body_written)

lemma nat_of_be_snoc: "nat_of_be (bs @ [b]) = nat_of_be bs * 256 + unat b"
  by (simp add: nat_of_be_def)

lemma nat_of_be_bound: "nat_of_be bs < 256 ^ length bs"
proof (induction bs rule: rev_induct)
  case Nil
  then show ?case by (simp add: nat_of_be_def)
next
  case (snoc b bs)
  have "unat b < 256" using unat_bound [of b] by simp
  then show ?case using snoc by (simp add: nat_of_be_snoc)
qed

lemma be_nat_of_be: "be_nat (length bs) (nat_of_be bs) = bs"
proof (induction bs rule: rev_induct)
  case Nil
  then show ?case by simp
next
  case (snoc b bs)
  have b: "unat b < 256" using unat_bound [of b] by simp
  then have "(nat_of_be bs * 256 + unat b) div 256 = nat_of_be bs" by simp
  moreover have "word_of_nat (nat_of_be bs * 256 + unat b) = b"
  proof -
    have z: "(256 :: byte) = 0" by simp
    show ?thesis by (simp only: of_nat_add of_nat_mult of_nat_numeral z mult_zero_right add_0_left)
        (rule word_nat_cases [of b], simp)
  qed
  ultimately show ?case using snoc by (simp add: nat_of_be_snoc)
qed

lemma u32_be_of_bytes:
  assumes "length bs = 4"
  shows "u32_be (word_of_nat (nat_of_be bs)) = bs"
proof -
  have "nat_of_be bs < 2 ^ 32" using nat_of_be_bound [of bs] assms by simp
  then have "unat (word_of_nat (nat_of_be bs) :: u32) = nat_of_be bs"
    by (simp add: unat_of_nat)
  then show ?thesis using be_nat_of_be [of bs] assms by (simp add: u32_be_def)
qed

section \<open>What a reader accepts\<close>

text \<open>
  A frame decodes exactly when it is the length prefix of its body followed by that body and
  nothing else, the body is within the bound and protobuf decodes it.
\<close>

theorem decode_frame_iff:
  "decode_frame dec buf mx = Inr m \<longleftrightarrow>
     (\<exists>body. buf = u32_be (word_of_nat (length body)) @ body \<and> length body \<le> mx
        \<and> length body < 2 ^ 32 \<and> dec body = Inr m)"
proof
  assume ok: "decode_frame dec buf mx = Inr m"
  define body where "body = drop 4 buf"
  define n where "n = unat (word_of_nat (nat_of_be (take 4 buf)) :: u32)"
  have l: "length (take 4 buf) = 4" and n: "n \<le> mx" "n = length body" and d: "dec body = Inr m"
    using ok by (auto simp: decode_frame_def Let_def and_then_ok read_prefix_def decode_body_def n_def
        body_def split: if_splits sum.splits)
  have "n < 2 ^ 32" using unat_bound [of "word_of_nat (nat_of_be (take 4 buf)) :: u32"] by (simp add: n_def)
  moreover have "u32_be (word_of_nat n) = take 4 buf"
    using u32_be_of_bytes [OF l] by (simp add: n_def)
  ultimately show "\<exists>body. buf = u32_be (word_of_nat (length body)) @ body \<and> length body \<le> mx
        \<and> length body < 2 ^ 32 \<and> dec body = Inr m"
    using n d by (intro exI [of _ body]) (simp add: body_def)
next
  assume "\<exists>body. buf = u32_be (word_of_nat (length body)) @ body \<and> length body \<le> mx
        \<and> length body < 2 ^ 32 \<and> dec body = Inr m"
  then show "decode_frame dec buf mx = Inr m"
    by (auto simp: decode_frame_def Let_def read_prefix_written decode_body_def)
qed

text \<open>
  C40. Every message a peer writes is read back by the other side, followed by whatever comes
  after it on the stream.
\<close>

theorem rpc_codec_roundtrip:
  assumes "\<And>m. dec (enc m) = Inr m" and "write_message enc msg = Inr out"
  shows "read_message dec (out @ rest) = Inr (msg, rest)"
proof -
  have "length (enc msg) \<le> MAX_RPC_FRAME" "out = frame32 (enc msg)"
    using assms(2) by (auto simp: write_message_def Let_def frame32_def split: if_splits)
  then show ?thesis using assms(1) by (simp add: read_message_def read_body_written)
qed

theorem rpc_codec_roundtrip_witness:
  "read_message Inr ([0, 0, 0, 2, 5, 6] @ [9]) = (Inr ([5, 6], [9]) :: io_error + bytes \<times> bytes)"
  by (rule rpc_codec_roundtrip [where enc = id])
    (simp_all add: write_message_def MAX_RPC_FRAME_def CHUNK_SIZE_def u32_be_def be_nat_numeral)

text \<open>A frame announcing more than the bound is refused after its four prefix bytes, whatever follows.\<close>

lemma oversized_refused_early:
  assumes "length prefix = 4" "unat (word_of_nat (nat_of_be prefix) :: u32) > MAX_RPC_FRAME"
  shows "read_message dec (prefix @ rest) = Inl (InvalidData (FTooLarge
    (unat (word_of_nat (nat_of_be prefix) :: u32)) MAX_RPC_FRAME))"
  using assms by (simp add: read_message_def read_body_def read_exact_def read_prefix_def Let_def)

end
