(* ===== verification/Merkle.thy ===== *)
theory Merkle
  imports Blob
begin

text \<open>
  The storage-challenge tree: \<open>hashgram-proto/src/merkle.rs\<close>. SHA-256 is the argument
  \<open>h\<close>; a \<open>[u8; 32]\<close> is a list of bytes, and the properties say where its length matters.
  Indices and leaf counts are the values of the code's \<open>u32\<close> and \<open>usize\<close>, whose arithmetic here
  only halves.
\<close>

section \<open>The tree\<close>

definition leaf_hash :: "(bytes \<Rightarrow> bytes) \<Rightarrow> bytes \<Rightarrow> bytes" where
  "leaf_hash h chunk = h ([0] @ chunk)"

definition node_hash :: "(bytes \<Rightarrow> bytes) \<Rightarrow> bytes \<Rightarrow> bytes \<Rightarrow> bytes" where
  "node_hash h left right = h ([1] @ left @ right)"

fun next_level :: "(bytes \<Rightarrow> bytes) \<Rightarrow> bytes list \<Rightarrow> bytes list" where
  "next_level h [] = []"
| "next_level h [left] = [node_hash h left left]"
| "next_level h (left # right # level) = node_hash h left right # next_level h level"

lemma length_next_level: "length (next_level h level) = div_ceil (length level) 2"
  by (induction h level rule: next_level.induct) (auto simp: div_ceil_def)

lemma div_ceil_2: "div_ceil n 2 = (n + 1) div 2"
  by (cases "even n") (auto simp: div_ceil_def elim!: evenE oddE)

lemma div_ceil_less: "1 < n \<Longrightarrow> div_ceil n 2 < n"
  by (simp add: div_ceil_2)

lemma next_level_shorter: "Suc 0 < length level \<Longrightarrow> length (next_level h level) < length level"
  by (simp add: length_next_level div_ceil_less)

lemma next_level_nonempty: "level \<noteq> [] \<Longrightarrow> next_level h level \<noteq> []"
  by (cases "(h, level)" rule: next_level.cases) auto

text \<open>The loop of \<open>root_from_leaves\<close>.\<close>

function climb_levels :: "(bytes \<Rightarrow> bytes) \<Rightarrow> bytes list \<Rightarrow> bytes" where
  "climb_levels h level =
     (if length level > 1 then climb_levels h (next_level h level)
      else (case level of [] \<Rightarrow> replicate 32 0 | x # _ \<Rightarrow> x))"
  by pat_completeness auto
termination
  by (relation "measure (\<lambda>(h, level). length level)") (auto dest: next_level_shorter)

declare climb_levels.simps [simp del]

definition root_from_leaves :: "(bytes \<Rightarrow> bytes) \<Rightarrow> bytes list \<Rightarrow> bytes" where
  "root_from_leaves h leaves = (if leaves = [] then h [] else climb_levels h leaves)"

definition merkle_root :: "(bytes \<Rightarrow> bytes) \<Rightarrow> bytes list \<Rightarrow> bytes" where
  "merkle_root h cs = root_from_leaves h (map (leaf_hash h) cs)"

text \<open>The loop of \<open>proof_from_leaves\<close>: the sibling at each level, the node itself when it has none.\<close>

definition sibling :: "bytes list \<Rightarrow> nat \<Rightarrow> nat" where
  "sibling level idx = (let s = xor idx 1 in if s \<ge> length level then idx else s)"

definition get_or_zero :: "bytes list \<Rightarrow> nat \<Rightarrow> bytes" where
  "get_or_zero level i = (if i < length level then level ! i else replicate 32 0)"

function sibling_path :: "(bytes \<Rightarrow> bytes) \<Rightarrow> bytes list \<Rightarrow> nat \<Rightarrow> bytes list" where
  "sibling_path h level idx =
     (if length level > 1
      then get_or_zero level (sibling level idx) # sibling_path h (next_level h level) (idx div 2)
      else [])"
  by pat_completeness auto
termination
  by (relation "measure (\<lambda>(h, level, idx). length level)") (auto dest: next_level_shorter)

declare sibling_path.simps [simp del]

definition proof_from_leaves :: "(bytes \<Rightarrow> bytes) \<Rightarrow> bytes list \<Rightarrow> nat \<Rightarrow> bytes list option" where
  "proof_from_leaves h leaves index =
     (if index \<ge> length leaves then None else Some (sibling_path h leaves index))"

section \<open>Verifying a path\<close>

function tree_depth :: "nat \<Rightarrow> nat" where
  "tree_depth n = (if n > 1 then tree_depth (div_ceil n 2) + 1 else 0)"
  by pat_completeness auto
termination
  by (relation "measure id") (auto simp: div_ceil_less)

declare tree_depth.simps [simp del]

fun fold_path :: "(bytes \<Rightarrow> bytes) \<Rightarrow> bytes \<Rightarrow> nat \<Rightarrow> bytes list \<Rightarrow> bytes" where
  "fold_path h acc idx [] = acc"
| "fold_path h acc idx (sib # path) =
     fold_path h (if idx mod 2 = 0 then node_hash h acc sib else node_hash h sib acc) (idx div 2) path"

text \<open>\<open>path.len() as u32\<close> truncates.\<close>

definition verify_path ::
    "(bytes \<Rightarrow> bytes) \<Rightarrow> bytes \<Rightarrow> bytes \<Rightarrow> bytes list \<Rightarrow> u32 \<Rightarrow> u32 \<Rightarrow> bool" where
  "verify_path h rt leaf path index leaf_count =
     (if leaf_count = 0 \<or> index \<ge> leaf_count then False
      else if (word_of_nat (length path) :: u32) \<noteq> word_of_nat (tree_depth (unat leaf_count)) then False
      else fold_path h leaf (unat index) path = rt)"

definition challenge_response_bytes :: "u64 \<Rightarrow> bytes \<Rightarrow> bytes list \<Rightarrow> bytes" where
  "challenge_response_bytes challenge_id chunk_hash path =
     fx_bytes64_slice path (fx_bytes chunk_hash (fx_u64 challenge_id fx_new))"

section \<open>Paths and roots\<close>

lemma sibling_cases:
  assumes "i < length level"
  shows "sibling level i = (if even i then if Suc i < length level then Suc i else i else i - 1)"
  using assms by (auto simp: sibling_def Let_def xor_Suc_0_eq)

lemma next_level_nth:
  "i < length level \<Longrightarrow> next_level h level ! (i div 2) =
     (if even i then node_hash h (level ! i) (level ! sibling level i)
      else node_hash h (level ! sibling level i) (level ! i))"
proof (induction h level arbitrary: i rule: next_level.induct)
  case (1 h)
  then show ?case by simp
next
  case (2 h left)
  then show ?case by (simp add: sibling_cases)
next
  case (3 h left right level)
  consider "i = 0" | "i = 1" | j where "i = j + 2" by (metis add_2_eq_Suc' not0_implies_Suc One_nat_def)
  then show ?case
  proof cases
    case 3
    then have "j < length level" using "3.prems" by simp
    from "3.IH" [OF this] this 3 show ?thesis by (cases j) (auto simp: sibling_cases)
  qed (simp_all add: sibling_cases)
qed

lemma sibling_in: "i < length level \<Longrightarrow> sibling level i < length level"
  by (auto simp: sibling_cases)

lemma half_in: "i < length level \<Longrightarrow> i div 2 < length (next_level h level)"
  by (simp add: length_next_level div_ceil_2)

lemma path_length: "length (sibling_path h level i) = tree_depth (length level)"
proof (induction h level i rule: sibling_path.induct)
  case (1 h level i)
  then show ?case
    by (simp add: sibling_path.simps [of h level] tree_depth.simps [of "length level"] length_next_level)
qed

lemma fold_sibling_path:
  "i < length level \<Longrightarrow> fold_path h (level ! i) i (sibling_path h level i) = climb_levels h level"
proof (induction h level i rule: sibling_path.induct)
  case (1 h level i)
  show ?case
  proof (cases "length level > 1")
    case True
    have "fold_path h (next_level h level ! (i div 2)) (i div 2) (sibling_path h (next_level h level) (i div 2))
        = climb_levels h (next_level h level)"
      using 1(1) [OF True half_in [OF 1(2)]] .
    then show ?thesis
      using True 1(2) next_level_nth [OF 1(2), of h] sibling_in [OF 1(2)]
      by (simp add: sibling_path.simps [of h level] climb_levels.simps [of h level] get_or_zero_def
          even_iff_mod_2_eq_zero)
  next
    case False
    then obtain x where "level = [x]" "i = 0" using 1(2) by (cases level) auto
    then show ?thesis by (simp add: sibling_path.simps climb_levels.simps)
  qed
qed

section \<open>What was hashed\<close>

text \<open>
  Every input of the hash function in the construction of a tree and in the check of a path.
  That no two of these inputs collide is what a path's soundness rests on.
\<close>

fun level_inputs :: "bytes list \<Rightarrow> bytes list" where
  "level_inputs [] = []"
| "level_inputs [left] = [[1] @ left @ left]"
| "level_inputs (left # right # level) = ([1] @ left @ right) # level_inputs level"

function tree_inputs :: "(bytes \<Rightarrow> bytes) \<Rightarrow> bytes list \<Rightarrow> bytes list" where
  "tree_inputs h level =
     (if length level > 1 then level_inputs level @ tree_inputs h (next_level h level) else [])"
  by pat_completeness auto
termination
  by (relation "measure (\<lambda>(h, level). length level)") (auto dest: next_level_shorter)

declare tree_inputs.simps [simp del]

fun path_inputs :: "(bytes \<Rightarrow> bytes) \<Rightarrow> bytes \<Rightarrow> nat \<Rightarrow> bytes list \<Rightarrow> bytes list" where
  "path_inputs h acc idx [] = []"
| "path_inputs h acc idx (sib # path) =
     (if idx mod 2 = 0
      then ([1] @ acc @ sib) # path_inputs h (node_hash h acc sib) (idx div 2) path
      else ([1] @ sib @ acc) # path_inputs h (node_hash h sib acc) (idx div 2) path)"

lemma next_level_inputs: "next_level h level = map h (level_inputs level)"
  by (induction level rule: level_inputs.induct) (simp_all add: node_hash_def)

lemma level_inputs_nth:
  "i < length level \<Longrightarrow> level_inputs level ! (i div 2) =
     (if even i then [1] @ level ! i @ level ! sibling level i
      else [1] @ level ! sibling level i @ level ! i)"
proof (induction level arbitrary: i rule: level_inputs.induct)
  case 1
  then show ?case by simp
next
  case (2 left)
  then show ?case by (simp add: sibling_cases)
next
  case (3 left right level)
  consider "i = 0" | "i = 1" | j where "i = j + 2" by (metis add_2_eq_Suc' not0_implies_Suc One_nat_def)
  then show ?case
  proof cases
    case 3
    then have "j < length level" using "3.prems" by simp
    from "3.IH" [OF this] this 3 show ?thesis by (cases j) (auto simp: sibling_cases)
  qed (simp_all add: sibling_cases)
qed

lemma length_level_inputs: "length (level_inputs level) = div_ceil (length level) 2"
  using length_next_level [of "\<lambda>x. x" level] by (simp add: next_level_inputs)

lemma tree_depth_Suc: "1 < n \<Longrightarrow> tree_depth n = Suc (tree_depth (div_ceil n 2))"
  by (simp add: tree_depth.simps [of n])

lemma tree_depth_0: "\<not> 1 < n \<Longrightarrow> tree_depth n = 0"
  by (simp add: tree_depth.simps [of n])

lemma fold_path_sound:
  assumes "\<And>v. length (h v) = 32"
  shows "i < length level \<Longrightarrow> \<forall>v \<in> set level. length v = 32 \<Longrightarrow> length leaf = 32 \<Longrightarrow>
     \<forall>v \<in> set path. length v = 32 \<Longrightarrow> length path = tree_depth (length level) \<Longrightarrow>
     fold_path h leaf i path = climb_levels h level \<Longrightarrow>
     inj_on h (set (tree_inputs h level) \<union> set (path_inputs h leaf i path)) \<Longrightarrow> leaf = level ! i"
proof (induction "length level" arbitrary: level leaf i path rule: less_induct)
  case less
  show ?case
  proof (cases "length level > 1")
    case True
    then obtain sib path' where path: "path = sib # path'"
      using less.prems(5) by (cases path) (auto simp: tree_depth_Suc)
    define inp where "inp = (if i mod 2 = 0 then [1] @ leaf @ sib else [1] @ sib @ leaf)"
    have pin: "path_inputs h leaf i path = inp # path_inputs h (h inp) (i div 2) path'"
      by (simp add: path inp_def node_hash_def)
    have tin: "tree_inputs h level = level_inputs level @ tree_inputs h (next_level h level)"
      using True by (simp add: tree_inputs.simps [of h level])
    have half: "i div 2 < length (level_inputs level)"
      using half_in [OF less.prems(1), of h] by (simp add: next_level_inputs)
    have "h inp = next_level h level ! (i div 2)"
    proof (rule less.hyps)
      show "length (next_level h level) < length level" using True by (simp add: next_level_shorter)
      show "i div 2 < length (next_level h level)" using less.prems(1) by (rule half_in)
      show "\<forall>v \<in> set (next_level h level). length v = 32" by (auto simp: next_level_inputs assms)
      show "length (h inp) = 32" by (rule assms)
      show "\<forall>v \<in> set path'. length v = 32" using less.prems(4) path by simp
      show "length path' = tree_depth (length (next_level h level))"
        using less.prems(5) path True by (simp add: tree_depth_Suc length_next_level)
      show "fold_path h (h inp) (i div 2) path' = climb_levels h (next_level h level)"
        using less.prems(6) path True
        by (simp add: climb_levels.simps [of h level] inp_def node_hash_def split: if_splits)
      show "inj_on h (set (tree_inputs h (next_level h level)) \<union> set (path_inputs h (h inp) (i div 2) path'))"
        using less.prems(7) by (rule inj_on_subset) (auto simp: pin tin)
    qed
    then have "h inp = h (level_inputs level ! (i div 2))"
      using half by (simp add: next_level_inputs)
    moreover have "level_inputs level ! (i div 2) \<in> set (tree_inputs h level)"
      using half by (simp add: tin)
    moreover have "inp \<in> set (path_inputs h leaf i path)" by (simp add: pin)
    ultimately have "inp = level_inputs level ! (i div 2)"
      using less.prems(7) by (auto dest: inj_onD)
    moreover have "length (level ! i) = 32" "length (level ! sibling level i) = 32" "length sib = 32"
      using less.prems(1,2,4) sibling_in [OF less.prems(1)] path by auto
    ultimately show ?thesis
      using level_inputs_nth [OF less.prems(1)] less.prems(3)
      by (auto simp: inp_def even_iff_mod_2_eq_zero split: if_splits)
  next
    case False
    then obtain x where "level = [x]" "i = 0" using less.prems(1) by (cases level) auto
    then show ?thesis using less.prems(5,6) by (simp add: tree_depth_0 climb_levels.simps)
  qed
qed

section \<open>The properties\<close>

text \<open>
  A provider that holds the blob can always answer a challenge: for every leaf of a tree the
  path produced is accepted against the root, whatever the shape of the tree.
\<close>

theorem merkle_paths_verify:
  assumes "i < length leaves" "length leaves < 2 ^ 32"
  shows "\<exists>path. proof_from_leaves h leaves i = Some path
    \<and> verify_path h (root_from_leaves h leaves) (leaves ! i) path (word_of_nat i) (word_of_nat (length leaves))"
proof -
  have u: "unat (word_of_nat i :: u32) = i" "unat (word_of_nat (length leaves) :: u32) = length leaves"
    using assms by (simp_all add: unat_of_nat)
  have "leaves \<noteq> []" using assms(1) by auto
  then show ?thesis
    using assms u fold_sibling_path [OF assms(1), of h]
    by (auto simp: proof_from_leaves_def verify_path_def root_from_leaves_def path_length
        word_le_nat_alt unat_eq_0 [symmetric])
qed

text \<open>
  C39. A path that verifies is a proof of possession: when the root is that of the blob's chunks and
  no two of the inputs hashed for the root and for the path collide, the chunk whose leaf hash
  was accepted for an index is the chunk at that index.
\<close>

theorem merkle_paths_sound:
  assumes "\<And>v. length (h v) = 32"
    and "length cs < 2 ^ 32" "length path < 2 ^ 32" "\<forall>v \<in> set path. length v = 32"
    and "verify_path h (merkle_root h cs) (leaf_hash h c) path index (word_of_nat (length cs))"
    and "inj_on h (set (tree_inputs h (map (leaf_hash h) cs)) \<union> set (path_inputs h (leaf_hash h c) (unat index) path)
           \<union> (\<lambda>c. 0 # c) ` insert c (set cs))"
  shows "unat index < length cs \<and> cs ! unat index = c"
proof -
  have u: "unat (word_of_nat (length cs) :: u32) = length cs"
    using assms(2) by (simp add: unat_of_nat)
  have v: "index < (word_of_nat (length cs) :: u32)"
    "(word_of_nat (length path) :: u32) = word_of_nat (tree_depth (length cs))"
    "fold_path h (leaf_hash h c) (unat index) path = merkle_root h cs"
    using assms(5) u by (auto simp: verify_path_def split: if_splits)
  have i: "unat index < length cs" using v(1) u by (simp add: word_less_nat_alt)
  have "tree_depth n \<le> n" for n
  proof (induction n rule: less_induct)
    case (less n)
    show ?case
    proof (cases "1 < n")
      case True
      then show ?thesis
        using div_ceil_less [OF True] less [of "div_ceil n 2"] by (simp add: tree_depth_Suc)
    qed (simp add: tree_depth_0)
  qed
  from this [of "length cs"] have d: "length path = tree_depth (length cs)"
    using v(2) assms(2,3) by (simp add: word_of_nat_inj_below)
  have ne: "cs \<noteq> []" using i by auto
  have "leaf_hash h c = map (leaf_hash h) cs ! unat index"
  proof (rule fold_path_sound [where path = path])
    show "length (h v) = 32" for v by (rule assms(1))
    show "unat index < length (map (leaf_hash h) cs)" using i by simp
    show "\<forall>v \<in> set (map (leaf_hash h) cs). length v = 32" "length (leaf_hash h c) = 32"
      using assms(1) by (auto simp: leaf_hash_def)
    show "\<forall>v \<in> set path. length v = 32" by (rule assms(4))
    show "length path = tree_depth (length (map (leaf_hash h) cs))" using d by simp
    show "fold_path h (leaf_hash h c) (unat index) path = climb_levels h (map (leaf_hash h) cs)"
      using v(3) ne by (simp add: merkle_root_def root_from_leaves_def)
    show "inj_on h (set (tree_inputs h (map (leaf_hash h) cs))
        \<union> set (path_inputs h (leaf_hash h c) (unat index) path))"
      using assms(6) by (rule inj_on_subset) blast
  qed
  then have e: "h (0 # c) = h (0 # cs ! unat index)" using i by (simp add: leaf_hash_def)
  have m: "cs ! unat index \<in> insert c (set cs)" using i by simp
  have "0 # c = 0 # cs ! unat index"
    by (rule inj_onD [OF assms(6) e]) (use m in blast)+
  then show ?thesis using i by simp
qed

text \<open>The bytes signed for an answer determine the challenge, the chunk hash and the path.\<close>

lemma challenge_response_inj:
  assumes "length c < 2 ^ 64" "length c' < 2 ^ 64" "length p < 2 ^ 64" "length p' < 2 ^ 64"
    and "\<forall>v \<in> set p. length v < 2 ^ 64" "\<forall>v \<in> set p'. length v < 2 ^ 64"
    and "challenge_response_bytes i c p = challenge_response_bytes i' c' p'"
  shows "i = i' \<and> c = c' \<and> p = p'"
proof -
  have eq: "u64_be i @ frame64 c @ list64 p @ [] = u64_be i' @ frame64 c' @ list64 p' @ []"
    using assms(7) by (simp add: challenge_response_bytes_def fx_simps)
  have 1: "i = i'" "frame64 c @ list64 p @ [] = frame64 c' @ list64 p' @ []"
    using eq by simp_all
  then have 2: "c = c'" "list64 p @ [] = list64 p' @ []"
    using frame64_split [OF assms(1,2) 1(2)] by simp_all
  then show ?thesis using 1 list64_split [of p p' "[]" "[]"] assms by simp
qed

section \<open>A tree of two chunks\<close>

text \<open>A function of the right output length that keeps the inputs of this tree apart.\<close>

definition wit_digest :: "bytes \<Rightarrow> bytes" where
  "wit_digest v = take 32 (v @ replicate 32 0)"

lemma wit_leaves: "wit_digest [0, 1] = 0 # 1 # replicate 30 0" "wit_digest [0, 2] = 0 # 2 # replicate 30 0"
  by (simp_all add: wit_digest_def numeral_eq_Suc)

lemma wit_node: "wit_digest (1 # wit_digest [0, 1] @ wit_digest [0, 2]) = 1 # 0 # 1 # replicate 29 0"
  by (simp add: wit_leaves) (simp add: wit_digest_def numeral_eq_Suc)

theorem merkle_paths_verify_witness:
  "\<exists>path. proof_from_leaves wit_digest [[1], [2], [3]] 2 = Some path
    \<and> verify_path wit_digest (root_from_leaves wit_digest [[1], [2], [3]]) ([[1], [2], [3]] ! 2) path
        (word_of_nat 2) (word_of_nat (length [[1 :: byte], [2], [3]]))"
  by (rule merkle_paths_verify) simp_all

theorem merkle_paths_sound_witness: "unat (0 :: u32) < length [[1 :: byte], [2]] \<and> [[1 :: byte], [2]] ! unat (0 :: u32) = [1]"
proof (rule merkle_paths_sound [where h = wit_digest and path = "[wit_digest [0, 2]]"])
  show "length (wit_digest v) = 32" for v by (simp add: wit_digest_def)
  show "verify_path wit_digest (merkle_root wit_digest [[1], [2]]) (leaf_hash wit_digest [1]) [wit_digest [0, 2]] 0
      (word_of_nat (length [[1 :: byte], [2]]))"
    by (simp add: verify_path_def tree_depth.simps div_ceil_2 merkle_root_def root_from_leaves_def
        climb_levels.simps leaf_hash_def)
  show "inj_on wit_digest (set (tree_inputs wit_digest (map (leaf_hash wit_digest) [[1], [2]]))
      \<union> set (path_inputs wit_digest (leaf_hash wit_digest [1]) (unat (0 :: u32)) [wit_digest [0, 2]])
      \<union> (\<lambda>c. 0 # c) ` insert [1] (set [[1], [2]]))"
    by (simp add: tree_inputs.simps leaf_hash_def inj_on_def wit_node) (simp add: wit_leaves)
qed (simp_all add: wit_digest_def)

end
