(* ===== verification/Circle.thy ===== *)
theory Circle
  imports Drive_Manifest
begin

text \<open>
  Circles: \<open>hashgram-app/src/circle.rs\<close>, the timeline that every member projects from the
  events of one group, with reactions and poll votes folded into the items. \<open>hex\<close> is the hex
  encoder. Iterating and mutating the first item with an id is \<open>update_first\<close>.
\<close>

section \<open>Events\<close>

definition CIRCLE_MAX_TEXT :: nat where "CIRCLE_MAX_TEXT = 64 * 1024"
definition MAX_MEDIA :: nat where "MAX_MEDIA = 20"
definition MAX_POLL_OPTIONS :: nat where "MAX_POLL_OPTIONS = 12"
definition MAX_TIMELINE :: nat where "MAX_TIMELINE = 50000"

record circle_info =
  ci_name :: string
  ci_description :: string
  ci_avatar :: "blob_ref option"
  ci_history_visible :: bool

record poll =
  pl_question :: string
  pl_options :: "string list"
  pl_multiple_choice :: bool
  pl_closes_at_ms :: u64

datatype circle_body =
    CInfo circle_info
  | CPost string "blob_ref list" "drive_capability list" "poll option"
  | CComment bytes bytes string
  | CReaction bytes string
  | CVote bytes "u32 list"
  | CDelete bytes

record circle_event =
  ce_version :: u32
  ce_event_id :: bytes
  ce_at_ms :: u64
  ce_body :: "circle_body option"

definition validate_poll :: "poll \<Rightarrow> unit res" where
  "validate_poll p = first_err
     ([require_str ''poll.question'' (pl_question p) 512,
       require (\<not> (length (pl_options p) < 2 \<or> length (pl_options p) > MAX_POLL_OPTIONS))
         (Invalid ''poll needs 2..=12 options'')]
      @ map (\<lambda>opt. require_str ''poll option'' opt 128) (pl_options p))"

definition validate_circle_body :: "circle_event \<Rightarrow> unit res" where
  "validate_circle_body e = (case ce_body e of
     Some (CInfo i) \<Rightarrow> first_err
       [require_str_max ''name'' (ci_name i) 128,
        require_str_max ''description'' (ci_description i) 4096]
   | Some (CPost txt media refs pl) \<Rightarrow> first_err
       ([require_str_max ''text'' txt CIRCLE_MAX_TEXT,
         require (\<not> length media > MAX_MEDIA) (Invalid ''too many media'')]
        @ map validate_capability refs
        @ [case pl of None \<Rightarrow> Inr () | Some p \<Rightarrow> validate_poll p,
           require (\<not> (txt = [] \<and> media = [] \<and> refs = [] \<and> pl = None)) (Invalid ''empty post'')])
   | Some (CComment post reply txt) \<Rightarrow> first_err
       [require_id ''post_id'' post, require_id_or_empty ''reply_to'' reply,
        require_str ''text'' txt CIRCLE_MAX_TEXT]
   | Some (CReaction target r) \<Rightarrow> first_err
       [require_id ''target_id'' target, require_str_max ''reaction'' r 32]
   | Some (CVote post opts) \<Rightarrow> first_err
       [require_id ''post_id'' post,
        require (\<not> length opts > MAX_POLL_OPTIONS) (Invalid ''too many votes'')]
   | Some (CDelete target) \<Rightarrow> require_id ''target_id'' target
   | None \<Rightarrow> Inl (Unsupported ''unknown circle event body''))"

definition validate_circle_event :: "circle_event \<Rightarrow> unit res" where
  "validate_circle_event e = first_err
     [check_body ''CircleEvent'' (ce_version e) CIRCLE_VERSION,
      require_id ''event_id'' (ce_event_id e),
      validate_circle_body e]"

definition build_circle_event :: "os_random \<Rightarrow> u64 \<Rightarrow> circle_body \<Rightarrow> circle_event res" where
  "build_circle_event rnd now body =
     and_then (random_id rnd) (\<lambda>i.
       let e = \<lparr>ce_version = CIRCLE_VERSION, ce_event_id = i, ce_at_ms = now, ce_body = Some body\<rparr>
       in and_then (validate_circle_event e) (\<lambda>_. Inr e))"

section \<open>The timeline\<close>

record item =
  it_id :: string
  it_kind :: string
  it_author :: string
  it_at_ms :: u64
  it_text :: string
  it_post_id :: string
  it_reply_to :: string
  it_media :: "blob_ref list"
  it_drive_refs :: "drive_capability list"
  it_poll :: "poll option"
  it_reactions :: "(string \<times> u32) list"
  it_votes :: "(u32 \<times> u32) list"
  it_deleted :: bool

record timeline =
  tl_info :: circle_info
  tl_items :: "item list"
  tl_reactions :: "((string \<times> string) \<times> string) list"
  tl_votes :: "((string \<times> string) \<times> u32 list) list"
  tl_seen :: "(string \<times> unit) list"

definition timeline_default :: timeline where
  "timeline_default = \<lparr>tl_info = \<lparr>ci_name = [], ci_description = [], ci_avatar = None,
     ci_history_visible = False\<rparr>, tl_items = [], tl_reactions = [], tl_votes = [], tl_seen = []\<rparr>"

definition push_item :: "item \<Rightarrow> timeline \<Rightarrow> timeline" where
  "push_item i t = t\<lparr>tl_items := push_bounded MAX_TIMELINE (tl_items t) i\<rparr>"

text \<open>Counters of an item: \<open>*entry(k).or_insert(0) += 1\<close>, and the two ways of taking one away.\<close>

definition count_of :: "('k \<times> u32) list \<Rightarrow> 'k \<Rightarrow> u32" where
  "count_of m k = (case map_of m k of None \<Rightarrow> 0 | Some n \<Rightarrow> n)"

definition incr :: "'k::linorder \<Rightarrow> ('k \<times> u32) list \<Rightarrow> ('k \<times> u32) list" where
  "incr k m = bt_insert k (count_of m k + 1) m"

definition decr_remove :: "'k::linorder \<Rightarrow> ('k \<times> u32) list \<Rightarrow> ('k \<times> u32) list" where
  "decr_remove k m = (case map_of m k of
     None \<Rightarrow> m
   | Some n \<Rightarrow> (let n' = sat_sub n 1 in if n' = 0 then bt_delete k m else bt_insert k n' m))"

definition decr :: "'k::linorder \<Rightarrow> ('k \<times> u32) list \<Rightarrow> ('k \<times> u32) list" where
  "decr k m = (case map_of m k of None \<Rightarrow> m | Some n \<Rightarrow> bt_insert k (sat_sub n 1) m)"

definition has_item :: "string \<Rightarrow> item list \<Rightarrow> bool" where
  "has_item target items = list_ex (\<lambda>i. it_id i = target) items"

definition on_item :: "string \<Rightarrow> (item \<Rightarrow> item) \<Rightarrow> item list \<Rightarrow> item list" where
  "on_item target f items = update_first (\<lambda>i. it_id i = target) f items"

definition apply_reaction :: "string \<Rightarrow> string \<Rightarrow> string \<Rightarrow> timeline \<Rightarrow> timeline" where
  "apply_reaction author target r t =
     (let key = (target, author);
          t1 = (case map_of (tl_reactions t) key of
                  None \<Rightarrow> t
                | Some prev \<Rightarrow> t\<lparr>tl_items := on_item target
                      (\<lambda>i. i\<lparr>it_reactions := decr_remove prev (it_reactions i)\<rparr>) (tl_items t),
                    tl_reactions := bt_delete key (tl_reactions t)\<rparr>)
      in if r \<noteq> [] \<and> has_item target (tl_items t1)
         then t1\<lparr>tl_items := on_item target (\<lambda>i. i\<lparr>it_reactions := incr r (it_reactions i)\<rparr>) (tl_items t1),
                 tl_reactions := bt_insert key r (tl_reactions t1)\<rparr>
         else t1)"

text \<open>The options of a vote that count: in range, sorted, without repetition, one unless the
  poll is multiple choice. \<open>dedup\<close> drops consecutive repetitions.\<close>

definition chosen_options :: "poll \<Rightarrow> u32 list \<Rightarrow> u32 list" where
  "chosen_options p opts =
     (let n = (word_of_nat (length (pl_options p)) :: u32);
          chosen = remdups_adj (sort (filter (\<lambda>opt. opt < n) opts))
      in if pl_multiple_choice p then chosen else take 1 chosen)"

definition on_post :: "string \<Rightarrow> (item \<Rightarrow> item) \<Rightarrow> item list \<Rightarrow> item list" where
  "on_post post f items = update_first (\<lambda>i. it_id i = post \<and> it_kind i = ''post'') f items"

definition apply_vote :: "string \<Rightarrow> u64 \<Rightarrow> string \<Rightarrow> u32 list \<Rightarrow> timeline \<Rightarrow> timeline" where
  "apply_vote author at_ms post opts t =
     (case find (\<lambda>i. it_id i = post \<and> it_kind i = ''post'') (tl_items t) of
        None \<Rightarrow> t
      | Some i \<Rightarrow> (case it_poll i of
          None \<Rightarrow> t
        | Some p \<Rightarrow>
            if pl_closes_at_ms p \<noteq> 0 \<and> at_ms > pl_closes_at_ms p then t
            else
              (let key = (post, author);
                   prev = (case map_of (tl_votes t) key of None \<Rightarrow> [] | Some os \<Rightarrow> os);
                   chosen = chosen_options p opts
               in t\<lparr>tl_items := on_post post (\<lambda>i. i\<lparr>it_votes := fold incr chosen (fold decr prev (it_votes i))\<rparr>)
                      (tl_items t),
                    tl_votes := bt_insert key chosen (bt_delete key (tl_votes t))\<rparr>)))"

definition apply_delete :: "string \<Rightarrow> string \<Rightarrow> timeline \<Rightarrow> timeline" where
  "apply_delete author target t = t\<lparr>tl_items := on_item target
     (\<lambda>i. if it_author i = author
          then i\<lparr>it_deleted := True, it_text := [], it_media := [], it_drive_refs := []\<rparr> else i)
     (tl_items t)\<rparr>"

definition apply_circle_body ::
    "(bytes \<Rightarrow> string) \<Rightarrow> string \<Rightarrow> string \<Rightarrow> circle_event \<Rightarrow> timeline \<Rightarrow> timeline" where
  "apply_circle_body hex author i e t = (case ce_body e of
     Some (CInfo info) \<Rightarrow> t\<lparr>tl_info := info\<rparr>
   | Some (CPost txt media refs pl) \<Rightarrow> push_item \<lparr>it_id = i, it_kind = ''post'', it_author = author,
       it_at_ms = ce_at_ms e, it_text = txt, it_post_id = [], it_reply_to = [], it_media = media,
       it_drive_refs = refs, it_poll = pl, it_reactions = [], it_votes = [], it_deleted = False\<rparr> t
   | Some (CComment post reply txt) \<Rightarrow> push_item \<lparr>it_id = i, it_kind = ''comment'', it_author = author,
       it_at_ms = ce_at_ms e, it_text = txt, it_post_id = hex post, it_reply_to = hex reply,
       it_media = [], it_drive_refs = [], it_poll = None, it_reactions = [], it_votes = [],
       it_deleted = False\<rparr> t
   | Some (CReaction target r) \<Rightarrow> apply_reaction author (hex target) r t
   | Some (CVote post opts) \<Rightarrow> apply_vote author (ce_at_ms e) (hex post) opts t
   | Some (CDelete target) \<Rightarrow> apply_delete author (hex target) t
   | None \<Rightarrow> t)"

definition apply_circle ::
    "(bytes \<Rightarrow> string) \<Rightarrow> string \<Rightarrow> circle_event \<Rightarrow> timeline \<Rightarrow> unit res \<times> timeline" where
  "apply_circle hex author e t =
     (case validate_circle_event e of
        Inl err \<Rightarrow> (Inl err, t)
      | Inr _ \<Rightarrow>
          (let i = hex (ce_event_id e) in
           if map_of (tl_seen t) i \<noteq> None then (Inr (), t)
           else (Inr (), apply_circle_body hex author i e (t\<lparr>tl_seen := bt_insert i () (tl_seen t)\<rparr>))))"

section \<open>Queries\<close>

definition circle_posts :: "u64 \<Rightarrow> nat \<Rightarrow> timeline \<Rightarrow> item list" where
  "circle_posts before_ms limit t = take limit (rev (sort_key (\<lambda>i. (it_at_ms i, it_id i))
     (rev (filter (\<lambda>i. it_kind i = ''post'' \<and> (before_ms = 0 \<or> it_at_ms i < before_ms)) (tl_items t)))))"

definition circle_comments :: "string \<Rightarrow> timeline \<Rightarrow> item list" where
  "circle_comments post t = sort_key (\<lambda>i. (it_at_ms i, it_id i))
     (filter (\<lambda>i. it_kind i = ''comment'' \<and> it_post_id i = post) (tl_items t))"

end
