(* ===== verification/Circle_Props.thy ===== *)
theory Circle_Props
  imports Circle
begin

text \<open>
  What holds of a Circle's timeline: the counters shown on every item are exactly the ledgers of
  who reacted and who voted, replays are absorbed, and only the author can delete.
\<close>

section \<open>Counters\<close>

lemma count_of_Nil [simp]: "count_of [] k = 0"
  by (simp add: count_of_def)

lemma count_of_incr: "count_of (incr k m) j = (if j = k then count_of m k + 1 else count_of m j)"
  by (simp add: count_of_def incr_def)

lemma sat_sub_zero [simp]: "sat_sub 0 (1 :: 'a::len word) = 0"
  by (simp add: sat_sub_def)

lemma count_of_decr: "count_of (decr k m) j = (if j = k then sat_sub (count_of m k) 1 else count_of m j)"
  by (simp add: count_of_def decr_def split: option.splits)

lemma count_of_decr_remove:
  "count_of (decr_remove k m) j = (if j = k then sat_sub (count_of m k) 1 else count_of m j)"
  by (simp add: count_of_def decr_remove_def Let_def split: option.splits)

lemma count_of_fold_incr:
  "distinct ks \<Longrightarrow> count_of (fold incr ks m) j = (if j \<in> set ks then count_of m j + 1 else count_of m j)"
  by (induction ks arbitrary: m) (auto simp: count_of_incr)

lemma count_of_fold_decr:
  "distinct ks \<Longrightarrow> count_of (fold decr ks m) j =
     (if j \<in> set ks then sat_sub (count_of m j) 1 else count_of m j)"
  by (induction ks arbitrary: m) (auto simp: count_of_decr)

text \<open>A counter tallies a ledger that gives each author a set of choices.\<close>

definition tally :: "('k \<times> u32) list \<Rightarrow> (string \<Rightarrow> 'k set) \<Rightarrow> bool" where
  "tally c S \<longleftrightarrow> (\<forall>k. unat (count_of c k) = card {a. k \<in> S a})"

lemma tally_cong: "(\<And>k. count_of c k = count_of d k) \<Longrightarrow> tally c S = tally d S"
  by (simp add: tally_def)

lemma tally_empty: "tally [] (\<lambda>a. {})"
  by (simp add: tally_def)

lemma tally_drop:
  assumes "tally c S" "finite {b. S b \<noteq> {}}"
    and "\<And>k. count_of d k = (if k \<in> S a then sat_sub (count_of c k) 1 else count_of c k)"
  shows "tally d (S(a := {}))"
proof -
  have "card {b. k \<in> (S(a := {})) b} = unat (count_of d k)" for k
  proof -
    have fin: "finite {b. k \<in> S b}" using assms(2) by (rule rev_finite_subset) auto
    have "{b. k \<in> (S(a := {})) b} = {b. k \<in> S b} - {a}" by auto
    then show ?thesis
      using assms(1) fin by (simp add: tally_def assms(3) unat_sat_sub card_Diff_singleton_if)
  qed
  then show ?thesis by (simp add: tally_def)
qed

lemma tally_add:
  assumes "tally c S" "finite {b. S b \<noteq> {}}" "S a = {}" "card {b. S b \<noteq> {}} + 1 < 2 ^ 32"
    and "\<And>k. count_of d k = (if k \<in> A then count_of c k + 1 else count_of c k)"
  shows "tally d (S(a := A))"
proof -
  have "card {b. k \<in> (S(a := A)) b} = unat (count_of d k)" for k
  proof (cases "k \<in> A")
    case True
    have sub: "{b. k \<in> S b} \<subseteq> {b. S b \<noteq> {}}" by auto
    have fin: "finite {b. k \<in> S b}" using assms(2) sub by (rule rev_finite_subset)
    have le: "card {b. k \<in> S b} + 1 < 2 ^ 32" using card_mono [OF assms(2) sub] assms(4) by linarith
    have "{b. k \<in> (S(a := A)) b} = insert a {b. k \<in> S b}" using True by auto
    moreover have "a \<notin> {b. k \<in> S b}" using assms(3) by simp
    ultimately have "card {b. k \<in> (S(a := A)) b} = card {b. k \<in> S b} + 1" using fin by simp
    moreover have "unat (count_of c k + 1) = unat (count_of c k) + 1"
      using le assms(1) by (simp add: tally_def unat_word_ariths)
    ultimately show ?thesis using True assms(1) by (simp add: tally_def assms(5))
  next
    case False
    then have "{b. k \<in> (S(a := A)) b} = {b. k \<in> S b}" using assms(3) by auto
    then show ?thesis using False assms(1) by (simp add: tally_def assms(5))
  qed
  then show ?thesis by (simp add: tally_def)
qed

section \<open>Updating the first item with an id\<close>

lemma update_first_distinct:
  assumes "distinct (map key xs)" "\<And>x. P x \<Longrightarrow> key x = k"
  shows "update_first P f xs = map (\<lambda>x. if P x then f x else x) xs"
  using assms(1)
proof (induction xs)
  case (Cons x xs)
  have "map (\<lambda>y. if P y then f y else y) xs = xs" if "P x"
  proof (rule map_idI)
    fix y assume "y \<in> set xs"
    then have "key y \<noteq> key x" using Cons.prems by (auto simp: image_iff)
    then show "(if P y then f y else y) = y" using assms(2) that by auto
  qed
  then show ?case using Cons by auto
qed simp

section \<open>The ledgers\<close>

definition reacts :: "timeline \<Rightarrow> string \<Rightarrow> string \<Rightarrow> string set" where
  "reacts t target a = (case map_of (tl_reactions t) (target, a) of None \<Rightarrow> {} | Some r \<Rightarrow> {r})"

definition ballots :: "timeline \<Rightarrow> string \<Rightarrow> string \<Rightarrow> u32 set" where
  "ballots t post a = (case map_of (tl_votes t) (post, a) of None \<Rightarrow> {} | Some os \<Rightarrow> set os)"

definition tallied :: "timeline \<Rightarrow> item \<Rightarrow> bool" where
  "tallied t i \<longleftrightarrow> tally (it_reactions i) (reacts t (it_id i)) \<and> tally (it_votes i) (ballots t (it_id i))"

lemma support_bound:
  assumes "bt_wf (m :: ((string \<times> string) \<times> 'v) list)"
  shows "finite {a. map_of m (k, a) \<noteq> None} \<and> card {a. map_of m (k, a) \<noteq> None} \<le> length m"
proof -
  have "{a. map_of m (k, a) \<noteq> None} \<subseteq> snd ` fst ` set m"
  proof
    fix a assume "a \<in> {a. map_of m (k, a) \<noteq> None}"
    then have "(k, a) \<in> fst ` set m" by (simp add: map_of_eq_None_iff)
    then show "a \<in> snd ` fst ` set m" by (metis image_eqI snd_conv)
  qed
  moreover have "finite (snd ` fst ` set m)" by simp
  moreover have "card (snd ` fst ` set m) \<le> length m"
    by (metis card_image_le card_length finite_imageI finite_set image_image order_trans)
  ultimately show ?thesis by (meson card_mono finite_subset order_trans)
qed

lemma reacts_support:
  assumes "bt_wf (tl_reactions t)"
  shows "finite {a. reacts t k a \<noteq> {}}" "card {a. reacts t k a \<noteq> {}} \<le> length (tl_reactions t)"
proof -
  have "{a. reacts t k a \<noteq> {}} = {a. map_of (tl_reactions t) (k, a) \<noteq> None}"
    by (auto simp: reacts_def split: option.splits)
  then show "finite {a. reacts t k a \<noteq> {}}" "card {a. reacts t k a \<noteq> {}} \<le> length (tl_reactions t)"
    using support_bound [OF assms] by auto
qed

lemma ballots_support:
  assumes "bt_wf (tl_votes t)"
  shows "finite {a. ballots t k a \<noteq> {}}" "card {a. ballots t k a \<noteq> {}} \<le> length (tl_votes t)"
proof -
  have sub: "{a. ballots t k a \<noteq> {}} \<subseteq> {a. map_of (tl_votes t) (k, a) \<noteq> None}"
    by (auto simp: ballots_def split: option.splits)
  show "finite {a. ballots t k a \<noteq> {}}" using support_bound [OF assms] sub finite_subset by blast
  show "card {a. ballots t k a \<noteq> {}} \<le> length (tl_votes t)"
    using support_bound [OF assms] sub by (meson card_mono order_trans)
qed

definition circle_ok :: "timeline \<Rightarrow> bool" where
  "circle_ok t \<longleftrightarrow>
     distinct (map it_id (tl_items t)) \<and> (\<forall>i \<in> set (tl_items t). map_of (tl_seen t) (it_id i) \<noteq> None)
     \<and> (\<forall>k a. map_of (tl_reactions t) (k, a) \<noteq> None \<longrightarrow> map_of (tl_seen t) k \<noteq> None)
     \<and> (\<forall>k a. map_of (tl_votes t) (k, a) \<noteq> None \<longrightarrow> map_of (tl_seen t) k \<noteq> None)
     \<and> (\<forall>k os. map_of (tl_votes t) k = Some os \<longrightarrow> distinct os)
     \<and> bt_wf (tl_reactions t) \<and> bt_wf (tl_votes t) \<and> bt_wf (tl_seen t)
     \<and> length (tl_reactions t) \<le> length (tl_seen t) \<and> length (tl_votes t) \<le> length (tl_seen t)
     \<and> length (tl_items t) \<le> MAX_TIMELINE"

definition circle_inv :: "timeline \<Rightarrow> bool" where
  "circle_inv t \<longleftrightarrow> circle_ok t \<and>
     (length (tl_seen t) < 2 ^ 32 \<longrightarrow> (\<forall>i \<in> set (tl_items t). tallied t i))"

text \<open>Items kept their id when only their counters or contents changed.\<close>

lemma map_keep_ids:
  "(\<And>i. it_id (f i) = it_id i) \<Longrightarrow> map it_id (map (\<lambda>i. if P i then f i else i) items) = map it_id items"
  by (induction items) auto

lemma on_item_map:
  "distinct (map it_id items) \<Longrightarrow>
    on_item target f items = map (\<lambda>i. if it_id i = target then f i else i) items"
  unfolding on_item_def by (rule update_first_distinct [where key = it_id and k = target])

lemma on_post_map:
  "distinct (map it_id items) \<Longrightarrow> on_post post f items
    = map (\<lambda>i. if it_id i = post \<and> it_kind i = ''post'' then f i else i) items"
  unfolding on_post_def by (rule update_first_distinct [where key = it_id and k = post]) auto

section \<open>One event\<close>

lemma circle_okD:
  assumes "circle_ok t"
  shows "distinct (map it_id (tl_items t))"
    and "\<And>i. i \<in> set (tl_items t) \<Longrightarrow> map_of (tl_seen t) (it_id i) \<noteq> None"
    and "\<And>k a. map_of (tl_reactions t) (k, a) \<noteq> None \<Longrightarrow> map_of (tl_seen t) k \<noteq> None"
    and "\<And>k a. map_of (tl_votes t) (k, a) \<noteq> None \<Longrightarrow> map_of (tl_seen t) k \<noteq> None"
    and "\<And>k os. map_of (tl_votes t) k = Some os \<Longrightarrow> distinct os"
    and "bt_wf (tl_reactions t)" "bt_wf (tl_votes t)" "bt_wf (tl_seen t)"
    and "length (tl_reactions t) \<le> length (tl_seen t)" "length (tl_votes t) \<le> length (tl_seen t)"
    and "length (tl_items t) \<le> MAX_TIMELINE"
  using assms unfolding circle_ok_def by blast+

text \<open>Changed items with the same ids, and changed ledgers over ids already seen.\<close>

lemma circle_ok_update:
  assumes ok: "circle_ok t" and ids: "map it_id items = map it_id (tl_items t)"
    and "bt_wf rs" "bt_wf vs" "length rs \<le> length (tl_seen t)" "length vs \<le> length (tl_seen t)"
    and "\<And>k a. map_of rs (k, a) \<noteq> None \<Longrightarrow> map_of (tl_seen t) k \<noteq> None"
    and "\<And>k a. map_of vs (k, a) \<noteq> None \<Longrightarrow> map_of (tl_seen t) k \<noteq> None"
    and "\<And>k os. map_of vs k = Some os \<Longrightarrow> distinct os"
  shows "circle_ok (t\<lparr>tl_items := items, tl_reactions := rs, tl_votes := vs\<rparr>)"
proof -
  have "length items = length (tl_items t)" using ids by (metis length_map)
  moreover have "map_of (tl_seen t) (it_id i) \<noteq> None" if "i \<in> set items" for i
  proof -
    have "it_id i \<in> set (map it_id (tl_items t))" using that ids [symmetric] by simp
    then show ?thesis using circle_okD(2) [OF ok] by auto
  qed
  ultimately show ?thesis
    using assms(3-) circle_okD(1,8,11) [OF ok] ids unfolding circle_ok_def by simp
qed

lemma mem_has_item: "has_item k items \<longleftrightarrow> (\<exists>i \<in> set items. it_id i = k)"
  by (simp add: has_item_def list_ex_iff)

lemma tallied_other:
  assumes "tallied t i" "it_reactions j = it_reactions i" "it_votes j = it_votes i" "it_id j = it_id i"
    and "reacts t' (it_id i) = reacts t (it_id i)" "ballots t' (it_id i) = ballots t (it_id i)"
  shows "tallied t' j"
  using assms by (simp add: tallied_def)

definition retract :: "string \<Rightarrow> string \<Rightarrow> timeline \<Rightarrow> timeline" where
  "retract author target t = (case map_of (tl_reactions t) (target, author) of
     None \<Rightarrow> t
   | Some prev \<Rightarrow> t\<lparr>tl_items := on_item target
         (\<lambda>i. i\<lparr>it_reactions := decr_remove prev (it_reactions i)\<rparr>) (tl_items t),
       tl_reactions := bt_delete (target, author) (tl_reactions t)\<rparr>)"

lemma apply_reaction_retract:
  "apply_reaction author target r t =
     (let t1 = retract author target t in
      if r \<noteq> [] \<and> has_item target (tl_items t1)
      then t1\<lparr>tl_items := on_item target (\<lambda>i. i\<lparr>it_reactions := incr r (it_reactions i)\<rparr>) (tl_items t1),
              tl_reactions := bt_insert (target, author) r (tl_reactions t1)\<rparr>
      else t1)"
  by (simp add: apply_reaction_def retract_def Let_def)

lemma reacts_retract:
  "reacts (retract author target t) k = (if k = target then (reacts t k)(author := {}) else reacts t k)"
  by (rule ext) (simp add: reacts_def retract_def split: option.splits)

lemma ballots_retract [simp]: "ballots (retract author target t) = ballots t"
  by (rule ext)+ (simp add: ballots_def retract_def split: option.splits)

lemma retract_ok:
  assumes ok: "circle_ok t"
  shows "circle_ok (retract author target t)" "tl_seen (retract author target t) = tl_seen t"
    and "length (tl_reactions (retract author target t)) \<le> length (tl_reactions t)"
    and "tl_votes (retract author target t) = tl_votes t"
    and "\<forall>i \<in> set (tl_items t). tallied t i \<Longrightarrow>
           \<forall>i \<in> set (tl_items (retract author target t)). tallied (retract author target t) i"
proof -
  note d = circle_okD [OF ok]
  show "tl_seen (retract author target t) = tl_seen t" "tl_votes (retract author target t) = tl_votes t"
    "length (tl_reactions (retract author target t)) \<le> length (tl_reactions t)"
    using length_bt_delete [of "(target, author)" "tl_reactions t"]
    by (simp_all add: retract_def split: option.splits)
  show "circle_ok (retract author target t)"
  proof (cases "map_of (tl_reactions t) (target, author)")
    case (Some prev)
    have "circle_ok (t\<lparr>tl_items := on_item target (\<lambda>i. i\<lparr>it_reactions := decr_remove prev (it_reactions i)\<rparr>)
        (tl_items t), tl_reactions := bt_delete (target, author) (tl_reactions t), tl_votes := tl_votes t\<rparr>)"
      by (rule circle_ok_update [OF ok])
        (use d length_bt_delete [of "(target, author)" "tl_reactions t"] in
          \<open>auto simp: on_item_map map_keep_ids bt_wf_delete split: if_splits\<close>)
    then show ?thesis using Some by (simp add: retract_def)
  qed (use ok in \<open>simp add: retract_def\<close>)
  assume tal: "\<forall>i \<in> set (tl_items t). tallied t i"
  show "\<forall>i \<in> set (tl_items (retract author target t)). tallied (retract author target t) i"
  proof (cases "map_of (tl_reactions t) (target, author)")
    case (Some prev)
    show ?thesis
    proof
      fix j assume "j \<in> set (tl_items (retract author target t))"
      then obtain i where i: "i \<in> set (tl_items t)"
        "j = (if it_id i = target then i\<lparr>it_reactions := decr_remove prev (it_reactions i)\<rparr> else i)"
        using Some d(1) by (auto simp: retract_def on_item_map)
      have ti: "tallied t i" using tal i by blast
      show "tallied (retract author target t) j"
      proof (cases "it_id i = target")
        case True
        have "tally (decr_remove prev (it_reactions i)) ((reacts t target)(author := {}))"
          using ti True Some reacts_support(1) [OF d(6)]
          by (intro tally_drop [where c = "it_reactions i"])
            (auto simp: tallied_def count_of_decr_remove reacts_def)
        then show ?thesis using ti i True by (simp add: tallied_def reacts_retract)
      next
        case False
        then show ?thesis using i by (intro tallied_other [OF ti]) (simp_all add: reacts_retract)
      qed
    qed
  qed (use tal in \<open>simp add: retract_def\<close>)
qed

lemma apply_reaction_ok:
  assumes ok: "circle_ok t" and room: "length (tl_reactions t) < length (tl_seen t)"
  shows "circle_ok (apply_reaction author target r t)" "tl_seen (apply_reaction author target r t) = tl_seen t"
    and "length (tl_seen t) < 2 ^ 32 \<Longrightarrow> \<forall>i \<in> set (tl_items t). tallied t i \<Longrightarrow>
           \<forall>i \<in> set (tl_items (apply_reaction author target r t)). tallied (apply_reaction author target r t) i"
proof -
  define t1 where "t1 = retract author target t"
  note r1 = retract_ok [OF ok, of author target, folded t1_def]
  note d = circle_okD [OF r1(1)]
  define t2 where "t2 = t1\<lparr>tl_items := on_item target (\<lambda>i. i\<lparr>it_reactions := incr r (it_reactions i)\<rparr>)
      (tl_items t1), tl_reactions := bt_insert (target, author) r (tl_reactions t1)\<rparr>"
  have eq: "apply_reaction author target r t = (if r \<noteq> [] \<and> has_item target (tl_items t1) then t2 else t1)"
    by (simp add: apply_reaction_retract Let_def t1_def t2_def)
  show "tl_seen (apply_reaction author target r t) = tl_seen t" using r1(2) by (simp add: eq t2_def)
  have len: "length (bt_insert (target, author) r (tl_reactions t1)) \<le> length (tl_seen t1)"
    using length_bt_insert [OF d(6), of "(target, author)" r] r1(2,3) room by simp
  have ok2: "circle_ok t2" if "has_item target (tl_items t1)"
  proof -
    have "map_of (tl_seen t1) target \<noteq> None" using that d(2) by (auto simp: mem_has_item)
    then have "circle_ok (t1\<lparr>tl_items := on_item target (\<lambda>i. i\<lparr>it_reactions := incr r (it_reactions i)\<rparr>)
      (tl_items t1), tl_reactions := bt_insert (target, author) r (tl_reactions t1), tl_votes := tl_votes t1\<rparr>)"
      by (intro circle_ok_update [OF r1(1)])
        (use d len in \<open>auto simp: on_item_map map_keep_ids bt_wf_insert split: if_splits\<close>)
    then show ?thesis by (simp add: t2_def)
  qed
  show "circle_ok (apply_reaction author target r t)" using eq ok2 r1(1) by simp
  assume small: "length (tl_seen t) < 2 ^ 32" and tal: "\<forall>i \<in> set (tl_items t). tallied t i"
  note tal1 = r1(5) [OF tal]
  have "tallied t2 j" if m: "j \<in> set (tl_items t2)" for j
  proof -
    obtain i where i: "i \<in> set (tl_items t1)"
      "j = (if it_id i = target then i\<lparr>it_reactions := incr r (it_reactions i)\<rparr> else i)"
      using m d(1) by (auto simp: t2_def on_item_map)
    have ti: "tallied t1 i" using tal1 i by blast
    have re: "reacts t2 k = (if k = target then (reacts t1 k)(author := {r}) else reacts t1 k)" for k
      by (rule ext) (simp add: reacts_def t2_def)
    have ba: "ballots t2 = ballots t1" by (rule ext)+ (simp add: ballots_def t2_def)
    show ?thesis
    proof (cases "it_id i = target")
      case True
      have "card {b. reacts t1 target b \<noteq> {}} + 1 < 2 ^ 32"
        using reacts_support(2) [OF d(6), of target] r1(2,3) room small by linarith
      moreover have "reacts t1 target author = {}" by (simp add: t1_def reacts_retract)
      ultimately have "tally (incr r (it_reactions i)) ((reacts t1 target)(author := {r}))"
        using ti True reacts_support(1) [OF d(6)]
        by (intro tally_add [where c = "it_reactions i"]) (auto simp: tallied_def count_of_incr)
      then show ?thesis using ti i True by (simp add: tallied_def re ba)
    next
      case False
      then show ?thesis using i by (intro tallied_other [OF ti]) (simp_all add: re ba)
    qed
  qed
  then show "\<forall>i \<in> set (tl_items (apply_reaction author target r t)). tallied (apply_reaction author target r t) i"
    using eq tal1 by simp
qed

lemma distinct_chosen: "distinct (chosen_options p os)"
  using distinct_remdups_adj_sorted [of "sort (filter (\<lambda>opt. opt < word_of_nat (length (pl_options p))) os)"]
  by (simp add: chosen_options_def Let_def distinct_take)

lemma apply_vote_ok:
  assumes ok: "circle_ok t" and room: "length (tl_votes t) < length (tl_seen t)"
  shows "circle_ok (apply_vote author at post os t)" "tl_seen (apply_vote author at post os t) = tl_seen t"
    and "length (tl_seen t) < 2 ^ 32 \<Longrightarrow> \<forall>i \<in> set (tl_items t). tallied t i \<Longrightarrow>
           \<forall>i \<in> set (tl_items (apply_vote author at post os t)). tallied (apply_vote author at post os t) i"
proof -
  let ?P = "\<lambda>i. it_id i = post \<and> it_kind i = ''post''"
  note d = circle_okD [OF ok]
  have main: "circle_ok t2 \<and> tl_seen t2 = tl_seen t \<and> (length (tl_seen t) < 2 ^ 32 \<longrightarrow>
      (\<forall>i \<in> set (tl_items t). tallied t i) \<longrightarrow> (\<forall>i \<in> set (tl_items t2). tallied t2 i))"
    if f: "find ?P (tl_items t) = Some i0"
      and t2: "t2 = t\<lparr>tl_items := on_post post (\<lambda>i. i\<lparr>it_votes := fold incr chosen (fold decr prev (it_votes i))\<rparr>)
          (tl_items t), tl_votes := bt_insert (post, author) chosen (bt_delete (post, author) (tl_votes t))\<rparr>"
      and prev: "prev = (case map_of (tl_votes t) (post, author) of None \<Rightarrow> [] | Some os \<Rightarrow> os)"
      and chosen: "distinct chosen" for i0 t2 prev chosen
  proof -
    have i0: "i0 \<in> set (tl_items t)" "?P i0" using f by (auto simp: find_Some_iff)
    have dp: "distinct prev" using d(5) prev by (auto split: option.splits)
    have items: "tl_items t2 = map (\<lambda>i. if ?P i then i\<lparr>it_votes := fold incr chosen (fold decr prev (it_votes i))\<rparr>
        else i) (tl_items t)" using d(1) by (simp add: t2 on_post_map)
    have post_seen: "map_of (tl_seen t) post \<noteq> None" using i0 d(2) by auto
    have wfd: "bt_wf (bt_delete (post, author) (tl_votes t))" using d(7) by (rule bt_wf_delete)
    have len: "length (bt_insert (post, author) chosen (bt_delete (post, author) (tl_votes t))) \<le> length (tl_seen t)"
      using length_bt_insert [OF wfd, of "(post, author)" chosen]
        length_bt_delete [of "(post, author)" "tl_votes t"] room by simp
    have "circle_ok (t\<lparr>tl_items := tl_items t2, tl_reactions := tl_reactions t,
        tl_votes := bt_insert (post, author) chosen (bt_delete (post, author) (tl_votes t))\<rparr>)"
      by (rule circle_ok_update [OF ok])
        (use d len post_seen chosen wfd in \<open>auto simp: items map_keep_ids bt_wf_insert split: if_splits\<close>)
    moreover have "tallied t2 j" if small: "length (tl_seen t) < 2 ^ 32"
        and tal: "\<forall>i \<in> set (tl_items t). tallied t i" and j: "j \<in> set (tl_items t2)" for j
    proof -
      obtain i where i: "i \<in> set (tl_items t)"
        "j = (if ?P i then i\<lparr>it_votes := fold incr chosen (fold decr prev (it_votes i))\<rparr> else i)"
        using j by (auto simp: items)
      have ti: "tallied t i" using tal i by blast
      have re: "reacts t2 = reacts t" by (rule ext)+ (simp add: reacts_def t2)
      have ba: "ballots t2 k = (if k = post then (ballots t k)(author := set chosen) else ballots t k)" for k
        by (rule ext) (simp add: ballots_def t2)
      have bp: "ballots t post author = set prev" by (simp add: ballots_def prev split: option.splits)
      show ?thesis
      proof (cases "it_id i = post")
        case True
        have "i = i0" using True i i0 d(1) by (auto simp: distinct_map dest: inj_onD)
        then have P: "?P i" using i0 by simp
        let ?S = "(ballots t post)(author := {})"
        have "tally (fold decr prev (it_votes i)) ?S"
          using ti True ballots_support(1) [OF d(7)] bp dp
          by (intro tally_drop [where c = "it_votes i"]) (auto simp: tallied_def count_of_fold_decr)
        moreover have sub: "{b. ?S b \<noteq> {}} \<subseteq> {b. ballots t post b \<noteq> {}}" by auto
        moreover have "finite {b. ?S b \<noteq> {}}" using ballots_support(1) [OF d(7)] sub finite_subset by blast
        moreover have "card {b. ?S b \<noteq> {}} + 1 < 2 ^ 32"
          using card_mono [OF ballots_support(1) [OF d(7)] sub] ballots_support(2) [OF d(7), of post] room small
          by linarith
        ultimately have "tally (fold incr chosen (fold decr prev (it_votes i))) (?S(author := set chosen))"
          by (intro tally_add [where c = "fold decr prev (it_votes i)" and S = ?S])
            (simp_all only: fun_upd_same count_of_fold_incr [OF chosen])
        then show ?thesis using ti i P by (simp add: tallied_def re ba)
      next
        case False
        then show ?thesis using i by (intro tallied_other [OF ti]) (simp_all add: re ba)
      qed
    qed
    ultimately show ?thesis by (simp add: t2 items)
  qed
  have "circle_ok (apply_vote author at post os t) \<and> tl_seen (apply_vote author at post os t) = tl_seen t
     \<and> (length (tl_seen t) < 2 ^ 32 \<longrightarrow> (\<forall>i \<in> set (tl_items t). tallied t i) \<longrightarrow>
      (\<forall>i \<in> set (tl_items (apply_vote author at post os t)). tallied (apply_vote author at post os t) i))"
  proof (cases "find ?P (tl_items t)")
    case (Some i0)
    note f = Some
    show ?thesis
    proof (cases "it_poll i0")
      case (Some p)
      show ?thesis
      proof (cases "pl_closes_at_ms p \<noteq> 0 \<and> at > pl_closes_at_ms p")
        case False
        show ?thesis
          by (rule main [OF f _ refl distinct_chosen [of p os]])
            (use f Some False in \<open>auto simp: apply_vote_def Let_def\<close>)
      qed (use f Some ok in \<open>simp add: apply_vote_def\<close>)
    qed (use f ok in \<open>simp add: apply_vote_def\<close>)
  qed (use ok in \<open>simp add: apply_vote_def\<close>)
  then show "circle_ok (apply_vote author at post os t)" "tl_seen (apply_vote author at post os t) = tl_seen t"
    "length (tl_seen t) < 2 ^ 32 \<Longrightarrow> \<forall>i \<in> set (tl_items t). tallied t i \<Longrightarrow>
      \<forall>i \<in> set (tl_items (apply_vote author at post os t)). tallied (apply_vote author at post os t) i"
    by blast+
qed

lemma push_item_ok:
  assumes ok: "circle_ok t" and seen: "map_of (tl_seen t) (it_id i) \<noteq> None"
    and new: "it_id i \<notin> it_id ` set (tl_items t)"
    and fresh: "\<And>a. map_of (tl_reactions t) (it_id i, a) = None" "\<And>a. map_of (tl_votes t) (it_id i, a) = None"
    and zero: "it_reactions i = []" "it_votes i = []"
  shows "circle_ok (push_item i t)" "tl_seen (push_item i t) = tl_seen t"
    and "\<forall>i \<in> set (tl_items t). tallied t i \<Longrightarrow>
           \<forall>j \<in> set (tl_items (push_item i t)). tallied (push_item i t) j"
proof -
  note d = circle_okD [OF ok]
  have items: "tl_items (push_item i t) = drop (Suc (length (tl_items t)) - MAX_TIMELINE) (tl_items t @ [i])"
    by (simp add: push_item_def push_bounded_evict evict_oldest_drop)
  have sub: "set (tl_items (push_item i t)) \<subseteq> insert i (set (tl_items t))"
    using set_push_bounded [of MAX_TIMELINE "tl_items t" i] by (simp add: push_item_def)
  have "distinct (map it_id (tl_items t @ [i]))" using d(1) new by auto
  then have "distinct (map it_id (tl_items (push_item i t)))"
    unfolding items drop_map [symmetric] by (rule distinct_drop)
  moreover have "length (tl_items (push_item i t)) \<le> MAX_TIMELINE"
    by (simp add: push_item_def length_push_bounded)
  ultimately show "circle_ok (push_item i t)"
    using ok seen sub unfolding circle_ok_def by (auto simp: push_item_def)
  show "tl_seen (push_item i t) = tl_seen t" by (simp add: push_item_def)
  have le: "reacts (push_item i t) = reacts t" "ballots (push_item i t) = ballots t"
    by (rule ext, rule ext, simp add: reacts_def ballots_def push_item_def)+
  have "reacts t (it_id i) = (\<lambda>a. {})" "ballots t (it_id i) = (\<lambda>a. {})"
    using fresh by (auto simp: reacts_def ballots_def fun_eq_iff)
  then have ti: "tallied (push_item i t) i" by (simp add: tallied_def le zero tally_empty)
  assume "\<forall>i \<in> set (tl_items t). tallied t i"
  then show "\<forall>j \<in> set (tl_items (push_item i t)). tallied (push_item i t) j"
    using sub ti by (auto simp: tallied_def le)
qed

lemma apply_delete_ok:
  assumes ok: "circle_ok t"
  shows "circle_ok (apply_delete author target t)" "tl_seen (apply_delete author target t) = tl_seen t"
    and "\<forall>i \<in> set (tl_items t). tallied t i \<Longrightarrow>
           \<forall>j \<in> set (tl_items (apply_delete author target t)). tallied (apply_delete author target t) j"
proof -
  let ?f = "\<lambda>i. if it_author i = author
          then i\<lparr>it_deleted := True, it_text := [], it_media := [], it_drive_refs := []\<rparr> else i"
  note d = circle_okD [OF ok]
  have items: "tl_items (apply_delete author target t) = map (\<lambda>i. if it_id i = target then ?f i else i) (tl_items t)"
    using d(1) by (simp add: apply_delete_def on_item_map)
  have ids: "map it_id (tl_items (apply_delete author target t)) = map it_id (tl_items t)"
    unfolding items by (rule map_keep_ids) simp
  have "circle_ok (t\<lparr>tl_items := tl_items (apply_delete author target t), tl_reactions := tl_reactions t,
      tl_votes := tl_votes t\<rparr>)"
    using d ids by (intro circle_ok_update [OF ok]) auto
  then show "circle_ok (apply_delete author target t)" by (simp add: apply_delete_def)
  show "tl_seen (apply_delete author target t) = tl_seen t" by (simp add: apply_delete_def)
  have le: "reacts (apply_delete author target t) = reacts t" "ballots (apply_delete author target t) = ballots t"
    by (rule ext, rule ext, simp add: reacts_def ballots_def apply_delete_def)+
  assume "\<forall>i \<in> set (tl_items t). tallied t i"
  then show "\<forall>j \<in> set (tl_items (apply_delete author target t)). tallied (apply_delete author target t) j"
    by (auto simp: items tallied_def le)
qed

section \<open>Runs\<close>

definition circle_step :: "(bytes \<Rightarrow> string) \<Rightarrow> timeline \<Rightarrow> string \<times> circle_event \<Rightarrow> timeline" where
  "circle_step hex t ae = snd (apply_circle hex (fst ae) (snd ae) t)"

definition circle_run :: "(bytes \<Rightarrow> string) \<Rightarrow> timeline \<Rightarrow> (string \<times> circle_event) list \<Rightarrow> timeline" where
  "circle_run hex t evs = foldl (circle_step hex) t evs"

text \<open>An event is refused, was seen, or is marked seen and then takes effect.\<close>

lemma circle_step_cases:
  obtains (same) "circle_step hex t (a, e) = t"
  | (new) "map_of (tl_seen t) (hex (ce_event_id e)) = None" "validate_circle_event e = Inr ()"
      "circle_step hex t (a, e) = apply_circle_body hex a (hex (ce_event_id e)) e
         (t\<lparr>tl_seen := bt_insert (hex (ce_event_id e)) () (tl_seen t)\<rparr>)"
  by (cases "validate_circle_event e"; cases "map_of (tl_seen t) (hex (ce_event_id e))")
    (auto simp: circle_step_def apply_circle_def Let_def)

lemma mark_seen_ok:
  assumes "circle_inv t" "map_of (tl_seen t) i = None"
  defines "t0 \<equiv> t\<lparr>tl_seen := bt_insert i () (tl_seen t)\<rparr>"
  shows "circle_ok t0" "length (tl_reactions t0) < length (tl_seen t0)" "length (tl_votes t0) < length (tl_seen t0)"
    and "length (tl_seen t0) < 2 ^ 32 \<Longrightarrow> \<forall>j \<in> set (tl_items t0). tallied t0 j"
    and "i \<notin> it_id ` set (tl_items t0)"
    and "map_of (tl_reactions t0) (i, a) = None" "map_of (tl_votes t0) (i, a) = None"
proof -
  have ok: "circle_ok t" using assms(1) by (simp add: circle_inv_def)
  note d = circle_okD [OF ok]
  have l: "length (bt_insert i () (tl_seen t)) = Suc (length (tl_seen t))"
    using length_bt_insert [OF d(8), of i "()"] assms(2) by simp
  show "circle_ok t0"
    using d(1,2,5-11) d(3,4) l unfolding circle_ok_def t0_def
    by (simp add: bt_wf_insert) blast
  show "length (tl_reactions t0) < length (tl_seen t0)" "length (tl_votes t0) < length (tl_seen t0)"
    using d(9,10) l by (simp_all add: t0_def)
  have le: "reacts t0 = reacts t" "ballots t0 = ballots t"
    by (rule ext, rule ext, simp add: reacts_def ballots_def t0_def)+
  show "\<forall>j \<in> set (tl_items t0). tallied t0 j" if "length (tl_seen t0) < 2 ^ 32"
    using assms(1) that l unfolding circle_inv_def tallied_def le by (simp add: t0_def)
  show "i \<notin> it_id ` set (tl_items t0)" using d(2) assms(2) by (auto simp: t0_def)
  show "map_of (tl_reactions t0) (i, a) = None" "map_of (tl_votes t0) (i, a) = None"
    using d(3,4) [of i a] assms(2) by (auto simp: t0_def simp del: not_None_eq)
qed

lemma ledgers_info: "reacts (t\<lparr>tl_info := x\<rparr>) = reacts t" "ballots (t\<lparr>tl_info := x\<rparr>) = ballots t"
  by (rule ext, rule ext, simp add: reacts_def ballots_def)+

lemma circle_step_inv:
  assumes inv: "circle_inv t"
  shows "circle_inv (circle_step hex t ae)"
proof (cases ae)
  case (Pair a e)
  show ?thesis
  proof (cases rule: circle_step_cases [of hex t a e])
    case same
    then show ?thesis using inv Pair by simp
  next
    case new
    define i where "i = hex (ce_event_id e)"
    define t0 where "t0 = t\<lparr>tl_seen := bt_insert i () (tl_seen t)\<rparr>"
    note m = mark_seen_ok [OF inv new(1), folded i_def, folded t0_def]
    have pushed: "circle_inv (push_item x t0)" if "it_id x = i" "it_reactions x = []" "it_votes x = []" for x
      using push_item_ok [of t0 x] that m by (simp add: circle_inv_def) (simp add: t0_def)
    have "circle_inv (apply_circle_body hex a i e t0)"
    proof (cases "ce_body e")
      case None
      then show ?thesis using m by (simp add: apply_circle_body_def circle_inv_def)
    next
      case (Some b)
      show ?thesis
      proof (cases b)
        case (CInfo info)
        have "circle_ok (t0\<lparr>tl_info := info\<rparr>)" using m(1) by (simp add: circle_ok_def)
        moreover have "tallied (t0\<lparr>tl_info := info\<rparr>) j = tallied t0 j" for j
          by (simp add: tallied_def ledgers_info)
        ultimately show ?thesis using m(4) Some CInfo by (simp add: apply_circle_body_def circle_inv_def)
      next
        case (CPost body media refs pl)
        then show ?thesis using Some pushed by (simp add: apply_circle_body_def)
      next
        case (CComment post reply body)
        then show ?thesis using Some pushed by (simp add: apply_circle_body_def)
      next
        case (CReaction target r)
        then show ?thesis using m Some apply_reaction_ok [OF m(1,2)]
          by (simp add: apply_circle_body_def circle_inv_def)
      next
        case (CVote post os)
        then show ?thesis using m Some apply_vote_ok [OF m(1,3)]
          by (simp add: apply_circle_body_def circle_inv_def)
      next
        case (CDelete target)
        then show ?thesis using m Some apply_delete_ok [OF m(1)]
          by (simp add: apply_circle_body_def circle_inv_def)
      qed
    qed
    then show ?thesis using new Pair by (simp add: i_def t0_def)
  qed
qed

lemma seen_mono_body: "tl_seen (apply_circle_body hex a i e t) = tl_seen t"
  by (cases "ce_body e")
    (auto simp: apply_circle_body_def push_item_def apply_reaction_def apply_vote_def apply_delete_def Let_def
      split: circle_body.splits option.splits)

lemma circle_step_seen:
  "dom (map_of (tl_seen t)) \<subseteq> dom (map_of (tl_seen (circle_step hex t ae)))"
  by (cases ae) (auto simp: circle_step_def apply_circle_def Let_def seen_mono_body split: sum.splits)

lemma circle_step_skip:
  "hex (ce_event_id (snd ae)) \<in> dom (map_of (tl_seen t)) \<Longrightarrow> circle_step hex t ae = t"
  by (cases ae) (auto simp: circle_step_def apply_circle_def Let_def split: sum.splits)

interpretation circle_log: dedup_machine "circle_step hex" circle_inv
    "\<lambda>ae. hex (ce_event_id (snd ae))" "\<lambda>t. dom (map_of (tl_seen t))" for hex
  by unfold_locales (simp_all add: circle_step_inv circle_step_seen circle_step_skip)

lemma circle_default_inv: "circle_inv timeline_default"
  by (simp add: circle_inv_def circle_ok_def timeline_default_def)

lemma circle_run_inv: "circle_inv (circle_run hex timeline_default evs)"
  unfolding circle_run_def by (rule circle_log.run_inv [OF circle_default_inv])

lemma length_insert_le: "bt_wf m \<Longrightarrow> length (bt_insert k v m) \<le> Suc (length m)"
  by (simp add: length_bt_insert)

lemma circle_run_seen:
  assumes "circle_inv t"
  shows "length (tl_seen (circle_run hex t evs)) \<le> length (tl_seen t) + length evs"
  using assms
proof (induction evs arbitrary: t)
  case Nil
  then show ?case by (simp add: circle_run_def)
next
  case (Cons ae evs)
  have "length (tl_seen (circle_step hex t ae)) \<le> Suc (length (tl_seen t))"
  proof (cases ae)
    case (Pair a e)
    have "bt_wf (tl_seen t)" using Cons.prems by (simp add: circle_inv_def circle_ok_def)
    then show ?thesis
      using Pair by (cases rule: circle_step_cases [of hex t a e])
        (simp_all add: seen_mono_body length_insert_le)
  qed
  then show ?case
    using Cons.IH [OF circle_step_inv [OF Cons.prems, of hex ae]] by (simp add: circle_run_def)
qed

section \<open>The properties\<close>

text \<open>
  C31. The tallies shown are exact: after fewer than \<open>2^32\<close> events, every item counts for each
  reaction exactly the authors whose current reaction to it that is, and for each option of its
  poll exactly the authors whose current ballot has it; ids are unique and the timeline bounded.
\<close>

theorem circle_tallies_exact:
  fixes hex :: "bytes \<Rightarrow> string"
  assumes "length evs < 2 ^ 32"
  defines "t \<equiv> circle_run hex timeline_default evs"
  shows "distinct (map it_id (tl_items t)) \<and> length (tl_items t) \<le> MAX_TIMELINE
    \<and> (\<forall>i \<in> set (tl_items t).
         (\<forall>r. unat (count_of (it_reactions i) r) = card {a. map_of (tl_reactions t) (it_id i, a) = Some r})
       \<and> (\<forall>n. unat (count_of (it_votes i) n)
              = card {a. \<exists>os. map_of (tl_votes t) (it_id i, a) = Some os \<and> n \<in> set os}))"
proof -
  have inv: "circle_inv t" unfolding t_def by (rule circle_run_inv)
  have "length (tl_seen t) < 2 ^ 32"
    using circle_run_seen [OF circle_default_inv, of hex evs] assms(1)
    by (simp add: t_def timeline_default_def)
  then have "\<forall>i \<in> set (tl_items t). tallied t i" using inv by (simp add: circle_inv_def)
  moreover have "{a. r \<in> reacts t k a} = {a. map_of (tl_reactions t) (k, a) = Some r}" for r k
    by (auto simp: reacts_def split: option.splits)
  moreover have "{a. n \<in> ballots t k a} = {a. \<exists>os. map_of (tl_votes t) (k, a) = Some os \<and> n \<in> set os}" for n k
    by (auto simp: ballots_def split: option.splits)
  ultimately show ?thesis
    using inv by (simp add: circle_inv_def circle_ok_def tallied_def tally_def)
qed

text \<open>
  Deliveries are idempotent: once an event was processed, delivering an event with its id
  again, from any store and after any further events, changes nothing.
\<close>

theorem circle_replay_absorbed:
  assumes "circle_inv t" "validate_circle_event e = Inr ()" "ce_event_id e' = ce_event_id e"
  shows "circle_step hex (circle_run hex t ((a, e) # later)) (a', e') = circle_run hex t ((a, e) # later)"
proof -
  have "hex (ce_event_id e) \<in> dom (map_of (tl_seen (circle_step hex t (a, e))))"
    using assms(2) by (auto simp: circle_step_def apply_circle_def Let_def seen_mono_body)
  then show ?thesis
    using circle_log.replay_absorbed [OF circle_step_inv [OF assms(1)], where e = "(a', e')" and hex = hex]
      assms(3) by (simp add: circle_run_def)
qed

text \<open>Two items that differ at most in what others may change.\<close>

definition untouched :: "item \<Rightarrow> item \<Rightarrow> bool" where
  "untouched i j \<longleftrightarrow> j = i\<lparr>it_reactions := it_reactions j, it_votes := it_votes j\<rparr>"

lemma untouched_refl [simp]: "untouched i i"
  by (simp add: untouched_def)

lemma untouched_counters [simp]:
  "untouched i (i\<lparr>it_reactions := r\<rparr>)" "untouched i (i\<lparr>it_votes := v\<rparr>)"
  by (simp_all add: untouched_def)

lemma untouched_trans: "untouched i j \<Longrightarrow> untouched j k \<Longrightarrow> untouched i k"
  by (cases i; cases j; cases k) (simp add: untouched_def)

definition kept :: "item list \<Rightarrow> item \<Rightarrow> bool" where
  "kept items j \<longleftrightarrow> (\<exists>i \<in> set items. untouched i j)"

lemma kept_self: "j \<in> set items \<Longrightarrow> kept items j"
  unfolding kept_def by (rule bexI [of _ j]) simp_all

lemma kept_map: "(\<And>i. untouched i (f i)) \<Longrightarrow> j \<in> set (map (\<lambda>i. if P i then f i else i) items) \<Longrightarrow> kept items j"
  by (auto simp: kept_self) (auto simp: kept_def)

lemma kept_on_item:
  assumes "distinct (map it_id items)" "\<And>i. untouched i (f i)" "j \<in> set (on_item k f items)"
  shows "kept items j"
  using kept_map [of f j "\<lambda>i. it_id i = k" items, OF assms(2)] assms(3) by (simp add: on_item_map [OF assms(1)])

lemma kept_on_post:
  assumes "distinct (map it_id items)" "\<And>i. untouched i (f i)" "j \<in> set (on_post k f items)"
  shows "kept items j"
  using kept_map [of f j "\<lambda>i. it_id i = k \<and> it_kind i = ''post''" items, OF assms(2)] assms(3)
  by (simp add: on_post_map [OF assms(1)])

lemma retract_content:
  assumes ok: "circle_ok t" and j: "j \<in> set (tl_items (retract a k t))"
  shows "kept (tl_items t) j"
proof (cases "map_of (tl_reactions t) (k, a)")
  case None
  then show ?thesis using j by (simp add: retract_def kept_self)
next
  case (Some prev)
  then show ?thesis
    using j kept_on_item [OF circle_okD(1) [OF ok], of "\<lambda>i. i\<lparr>it_reactions := decr_remove prev (it_reactions i)\<rparr>" j k]
    by (simp add: retract_def)
qed

lemma reaction_content:
  assumes ok: "circle_ok t" and j: "j \<in> set (tl_items (apply_reaction a k r t))"
  shows "kept (tl_items t) j"
proof -
  have "kept (tl_items (retract a k t)) j"
  proof (cases "r \<noteq> [] \<and> has_item k (tl_items (retract a k t))")
    case True
    then show ?thesis
      using j kept_on_item [OF circle_okD(1) [OF retract_ok(1) [OF ok]],
          of "\<lambda>i. i\<lparr>it_reactions := incr r (it_reactions i)\<rparr>" j k]
      by (simp add: apply_reaction_retract Let_def)
  next
    case False
    then show ?thesis using j by (auto simp: apply_reaction_retract Let_def kept_self split: if_splits)
  qed
  then show ?thesis
    using retract_content [OF ok] untouched_trans unfolding kept_def by blast
qed

lemma vote_content:
  assumes ok: "circle_ok t" and j: "j \<in> set (tl_items (apply_vote a at k os t))"
  shows "kept (tl_items t) j"
proof (cases "tl_items (apply_vote a at k os t) = tl_items t")
  case True
  then show ?thesis using j by (simp add: kept_self)
next
  case False
  then obtain g where "tl_items (apply_vote a at k os t)
      = on_post k (\<lambda>i. i\<lparr>it_votes := g i\<rparr>) (tl_items t)"
    by (auto simp: apply_vote_def Let_def split: option.splits if_splits)
  then show ?thesis using j kept_on_post [OF circle_okD(1) [OF ok], of "\<lambda>i. i\<lparr>it_votes := g i\<rparr>" j k] by simp
qed

text \<open>
  Content belongs to its author: after any event, every item of the timeline is the event's
  own new item with the sender as author, or an item from before whose author, text, media, poll
  and files are untouched, or one that its own author just deleted.
\<close>

theorem circle_content_owned:
  assumes "circle_inv t" "j \<in> set (tl_items (circle_step hex t (a, e)))"
  shows "(it_author j = a \<and> it_id j = hex (ce_event_id e) \<and> it_id j \<notin> it_id ` set (tl_items t))
     \<or> kept (tl_items t) j
     \<or> (\<exists>i \<in> set (tl_items t). it_author i = a \<and> it_id j = it_id i \<and> it_author j = a
          \<and> it_deleted j \<and> it_text j = [] \<and> it_media j = [] \<and> it_drive_refs j = [])"
proof (cases rule: circle_step_cases [of hex t a e])
  case same
  then show ?thesis using assms(2) by (simp add: kept_self)
next
  case new
  define i where "i = hex (ce_event_id e)"
  define t0 where "t0 = t\<lparr>tl_seen := bt_insert i () (tl_seen t)\<rparr>"
  note m = mark_seen_ok [OF assms(1) new(1), folded i_def, folded t0_def]
  have t0: "tl_items t0 = tl_items t" by (simp add: t0_def)
  have j: "j \<in> set (tl_items (apply_circle_body hex a i e t0))"
    using assms(2) new(3) by (simp add: i_def t0_def)
  have pushed: "j = x \<or> j \<in> set (tl_items t)" if "j \<in> set (tl_items (push_item x t0))" for x
    using that set_push_bounded [of MAX_TIMELINE "tl_items t0" x] by (auto simp: push_item_def t0)
  have ni: "i \<notin> it_id ` set (tl_items t)" using m(5) t0 by simp
  show ?thesis
  proof (cases "ce_body e")
    case None
    then show ?thesis using j t0 by (simp add: apply_circle_body_def kept_self)
  next
    case (Some b)
    show ?thesis
    proof (cases b)
      case (CInfo info)
      then show ?thesis using Some j t0 by (simp add: apply_circle_body_def kept_self)
    next
      case (CPost body media refs pl)
      then show ?thesis using Some j ni by (auto simp: apply_circle_body_def i_def kept_self dest!: pushed)
    next
      case (CComment post reply body)
      then show ?thesis using Some j ni by (auto simp: apply_circle_body_def i_def kept_self dest!: pushed)
    next
      case (CReaction target r)
      then show ?thesis using Some j t0 reaction_content [OF m(1)] by (simp add: apply_circle_body_def)
    next
      case (CVote post os)
      then show ?thesis using Some j t0 vote_content [OF m(1)] by (simp add: apply_circle_body_def)
    next
      case (CDelete target)
      then show ?thesis using Some j t0 circle_okD(1) [OF m(1)]
        by (auto simp: apply_circle_body_def apply_delete_def on_item_map kept_self split: if_splits)
    qed
  qed
qed

section \<open>A concrete Circle\<close>

definition wit_post :: circle_event where
  "wit_post = \<lparr>ce_version = 1, ce_event_id = replicate 16 1, ce_at_ms = 5,
     ce_body = Some (CPost ''hi'' [] [] None)\<rparr>"

definition wit_hex :: "bytes \<Rightarrow> string" where
  "wit_hex = map (\<lambda>b. char_of (unat b))"

lemma wit_post_valid: "validate_circle_event wit_post = Inr ()"
  by (simp add: wit_post_def validate_circle_event_def validate_circle_body_def ok_simps CIRCLE_VERSION_def
      ID_LEN_def CIRCLE_MAX_TEXT_def MAX_MEDIA_def del: first_err.simps)

theorem circle_tallies_exact_witness:
  "distinct (map it_id (tl_items (circle_run wit_hex timeline_default [(''a'', wit_post)])))"
  using circle_tallies_exact [of "[(''a'', wit_post)]" wit_hex] by simp

theorem circle_replay_absorbed_witness:
  "circle_step wit_hex (circle_run wit_hex timeline_default [(''a'', wit_post), (''b'', wit_post)]) (''c'', wit_post)
    = circle_run wit_hex timeline_default [(''a'', wit_post), (''b'', wit_post)]"
  by (rule circle_replay_absorbed [OF circle_default_inv wit_post_valid refl])

theorem circle_content_owned_witness:
  "\<exists>j. j \<in> set (tl_items (circle_step wit_hex timeline_default (''a'', wit_post))) \<and> it_author j = ''a''"
proof -
  have "tl_items (circle_step wit_hex timeline_default (''a'', wit_post)) \<noteq> []"
    using wit_post_valid
    by (simp add: circle_step_def apply_circle_def Let_def timeline_default_def)
      (simp add: wit_post_def apply_circle_body_def push_item_def push_bounded_def MAX_TIMELINE_def)
  then obtain j where j: "j \<in> set (tl_items (circle_step wit_hex timeline_default (''a'', wit_post)))"
    by (meson last_in_set)
  from circle_content_owned [OF circle_default_inv j] j show ?thesis
    by (auto simp: timeline_default_def kept_def)
qed

end
