(* ===== verification/Rust_Str.thy ===== *)
theory Rust_Str
  imports Wire_Ids
begin

text \<open>
  The string functions of the standard library that several components use, on UTF-8 bytes:
  trimming and splitting at Unicode white space, splitting at a character, prefixes, and numbers
  in hexadecimal. White space is the code points with the property \<open>White_Space\<close>, as their
  UTF-8 sequences; a sequence never occurs inside another character of a valid string.
\<close>

section \<open>White space\<close>

definition white_space :: "string list" where
  "white_space = [[CHR 0x09], [CHR 0x0A], [CHR 0x0B], [CHR 0x0C], [CHR 0x0D], [CHR 0x20],
     [CHR 0xC2, CHR 0x85], [CHR 0xC2, CHR 0xA0], [CHR 0xE1, CHR 0x9A, CHR 0x80],
     [CHR 0xE2, CHR 0x80, CHR 0xA8], [CHR 0xE2, CHR 0x80, CHR 0xA9],
     [CHR 0xE2, CHR 0x80, CHR 0xAF], [CHR 0xE2, CHR 0x81, CHR 0x9F], [CHR 0xE3, CHR 0x80, CHR 0x80],
     [CHR 0xE2, CHR 0x80, CHR 0x80], [CHR 0xE2, CHR 0x80, CHR 0x81], [CHR 0xE2, CHR 0x80, CHR 0x82],
     [CHR 0xE2, CHR 0x80, CHR 0x83], [CHR 0xE2, CHR 0x80, CHR 0x84], [CHR 0xE2, CHR 0x80, CHR 0x85],
     [CHR 0xE2, CHR 0x80, CHR 0x86], [CHR 0xE2, CHR 0x80, CHR 0x87], [CHR 0xE2, CHR 0x80, CHR 0x88],
     [CHR 0xE2, CHR 0x80, CHR 0x89], [CHR 0xE2, CHR 0x80, CHR 0x8A]]"

definition strip_any :: "string list \<Rightarrow> string \<Rightarrow> string option" where
  "strip_any ps s = map_option (\<lambda>p. drop (length p) s)
     (find (\<lambda>p. p \<noteq> [] \<and> take (length p) s = p) ps)"

lemma strip_any_shorter: "strip_any ps s = Some r \<Longrightarrow> length r < length s"
  by (cases s) (auto simp: strip_any_def find_Some_iff)

function strip_all :: "string list \<Rightarrow> string \<Rightarrow> string" where
  "strip_all ps s = (case strip_any ps s of None \<Rightarrow> s | Some r \<Rightarrow> strip_all ps r)"
  by auto
termination
  by (relation "measure (\<lambda>(ps, s). length s)") (auto simp: strip_any_shorter)

declare strip_all.simps [simp del]

definition trim_start :: "string \<Rightarrow> string" where
  "trim_start s = strip_all white_space s"

definition trim_end :: "string \<Rightarrow> string" where
  "trim_end s = rev (strip_all (map rev white_space) (rev s))"

definition trim :: "string \<Rightarrow> string" where
  "trim s = trim_end (trim_start s)"

text \<open>\<open>split_whitespace\<close>: the maximal runs between white space, empty ones left out. \<open>acc\<close> is
  the run being read, backwards.\<close>

function split_white :: "string \<Rightarrow> string \<Rightarrow> string list" where
  "split_white acc s =
     (case strip_any white_space s of
        Some r \<Rightarrow> (if acc = [] then split_white [] r else rev acc # split_white [] r)
      | None \<Rightarrow> (case s of [] \<Rightarrow> (if acc = [] then [] else [rev acc])
                 | c # r \<Rightarrow> split_white (c # acc) r))"
  by auto
termination
  by (relation "measure (\<lambda>(acc, s). length s)") (auto simp: strip_any_shorter)

declare split_white.simps [simp del]

definition split_whitespace :: "string \<Rightarrow> string list" where
  "split_whitespace s = split_white [] s"

fun join_with :: "string \<Rightarrow> string list \<Rightarrow> string" where
  "join_with sep [] = []"
| "join_with sep [x] = x"
| "join_with sep (x # y # xs) = x @ sep @ join_with sep (y # xs)"

section \<open>Prefixes and separators\<close>

definition starts_with :: "string \<Rightarrow> string \<Rightarrow> bool" where
  "starts_with p s \<longleftrightarrow> take (length p) s = p"

definition ends_with :: "string \<Rightarrow> string \<Rightarrow> bool" where
  "ends_with p s \<longleftrightarrow> starts_with (rev p) (rev s)"

definition strip_prefix :: "string \<Rightarrow> string \<Rightarrow> string option" where
  "strip_prefix p s = (if starts_with p s then Some (drop (length p) s) else None)"

definition split_once :: "char \<Rightarrow> string \<Rightarrow> (string \<times> string) option" where
  "split_once c s = (if c \<in> set s
     then Some (takeWhile (\<lambda>x. x \<noteq> c) s, tl (dropWhile (\<lambda>x. x \<noteq> c) s)) else None)"

definition rsplit_once :: "char \<Rightarrow> string \<Rightarrow> (string \<times> string) option" where
  "rsplit_once c s =
     (case split_once c (rev s) of None \<Rightarrow> None | Some (b, a) \<Rightarrow> Some (rev a, rev b))"

lemma starts_with_append [simp]: "starts_with p (p @ s)"
  by (simp add: starts_with_def)

lemma starts_with_iff: "starts_with p s \<longleftrightarrow> (\<exists>r. s = p @ r)"
  by (metis append_eq_conv_conj append_take_drop_id starts_with_def)

lemma ends_with_iff: "ends_with p s \<longleftrightarrow> (\<exists>r. s = r @ p)"
  unfolding ends_with_def starts_with_iff by (metis rev_append rev_rev_ident)

lemma strip_prefix_append [simp]: "strip_prefix p (p @ s) = Some s"
  by (simp add: strip_prefix_def)

lemma strip_prefix_Some: "strip_prefix p s = Some r \<longleftrightarrow> s = p @ r"
  by (auto simp: strip_prefix_def starts_with_iff)

lemma while_append:
  assumes "c \<notin> set a"
  shows "takeWhile (\<lambda>x. x \<noteq> c) (a @ c # b) = a" "dropWhile (\<lambda>x. x \<noteq> c) (a @ c # b) = c # b"
  using assms by (induction a) auto

lemma split_once_Some:
  "split_once c s = Some (a, b) \<longleftrightarrow> s = a @ c # b \<and> c \<notin> set a"
proof
  assume h: "split_once c s = Some (a, b)"
  then have c: "c \<in> set s" by (simp add: split_once_def split: if_splits)
  then obtain p q where s: "s = p @ c # q" "c \<notin> set p" by (meson split_list_first)
  have "takeWhile (\<lambda>x. x \<noteq> c) s = p" "dropWhile (\<lambda>x. x \<noteq> c) s = c # q"
    using while_append [OF s(2)] s(1) by simp_all
  then show "s = a @ c # b \<and> c \<notin> set a" using h c s by (simp add: split_once_def)
next
  assume s: "s = a @ c # b \<and> c \<notin> set a"
  then have "takeWhile (\<lambda>x. x \<noteq> c) s = a" "dropWhile (\<lambda>x. x \<noteq> c) s = c # b"
    using while_append [of c a b] by simp_all
  then show "split_once c s = Some (a, b)" using s by (simp add: split_once_def)
qed

lemma split_once_None: "split_once c s = None \<longleftrightarrow> c \<notin> set s"
  by (simp add: split_once_def)

lemma rsplit_once_Some:
  "rsplit_once c s = Some (a, b) \<longleftrightarrow> s = a @ c # b \<and> c \<notin> set b"
proof -
  have "rsplit_once c s = Some (a, b) \<longleftrightarrow> split_once c (rev s) = Some (rev b, rev a)"
    by (cases "split_once c (rev s)") (auto simp: rsplit_once_def rev_swap)
  also have "\<dots> \<longleftrightarrow> rev s = rev b @ c # rev a \<and> c \<notin> set b"
    by (simp add: split_once_Some)
  also have "\<dots> \<longleftrightarrow> s = a @ c # b \<and> c \<notin> set b"
    by (metis append.assoc append_Cons append_Nil rev.simps(2) rev_append rev_rev_ident)
  finally show ?thesis .
qed

lemma rsplit_once_None: "rsplit_once c s = None \<longleftrightarrow> c \<notin> set s"
  using split_once_None [of c "rev s"]
  by (cases "split_once c (rev s)") (auto simp: rsplit_once_def)

section \<open>Trimming\<close>

definition blank_start :: "string \<Rightarrow> bool" where
  "blank_start s \<longleftrightarrow> strip_any white_space s \<noteq> None"

lemma strip_any_None: "strip_any ps s = None \<longleftrightarrow> (\<forall>p \<in> set ps. p \<noteq> [] \<longrightarrow> \<not> starts_with p s)"
  by (auto simp: strip_any_def find_None_iff starts_with_def)

lemma strip_all_stuck: "strip_any ps s = None \<Longrightarrow> strip_all ps s = s"
  by (subst strip_all.simps) simp

lemma strip_all_None: "strip_any ps (strip_all ps s) = None"
proof (induction ps s rule: strip_all.induct)
  case (1 ps s)
  then show ?case
    by (subst strip_all.simps) (auto split: option.splits)
qed

lemma strip_all_idem [simp]: "strip_all ps (strip_all ps s) = strip_all ps s"
  by (rule strip_all_stuck) (rule strip_all_None)

lemma strip_all_suffix: "\<exists>p. s = p @ strip_all ps s"
proof (induction ps s rule: strip_all.induct)
  case (1 ps s)
  show ?case
  proof (cases "strip_any ps s")
    case None
    then show ?thesis by (simp add: strip_all_stuck)
  next
    case (Some r)
    then obtain q where "r = q @ strip_all ps r" using 1 by blast
    moreover obtain k where "r = drop k s" using Some by (auto simp: strip_any_def)
    moreover have "strip_all ps s = strip_all ps r" using Some by (subst strip_all.simps) simp
    ultimately show ?thesis by (metis append.assoc append_take_drop_id)
  qed
qed

text \<open>A byte that starts no white space and ends none stops trimming on either side.\<close>

definition solid :: "char \<Rightarrow> bool" where
  "solid c \<longleftrightarrow> (\<forall>p \<in> set white_space. c \<notin> set p)"

lemma white_space_nonempty: "p \<in> set white_space \<Longrightarrow> p \<noteq> []"
  by (auto simp: white_space_def)

lemma solid_head: "solid c \<Longrightarrow> trim_start (c # s) = c # s"
proof -
  assume c: "solid c"
  have "\<not> starts_with p (c # s)" if p: "p \<in> set white_space" for p
  proof
    assume "starts_with p (c # s)"
    then have "c \<in> set p" using white_space_nonempty [OF p] by (cases p) (auto simp: starts_with_def)
    then show False using c p by (auto simp: solid_def)
  qed
  then show ?thesis by (simp add: trim_start_def strip_all_stuck strip_any_None)
qed

lemma solid_last: "solid c \<Longrightarrow> trim_end (s @ [c]) = s @ [c]"
proof -
  assume c: "solid c"
  have "\<not> starts_with p (c # rev s)" if p: "p \<in> set (map rev white_space)" for p
  proof
    assume h: "starts_with p (c # rev s)"
    obtain q where q: "q \<in> set white_space" "p = rev q" using p by auto
    then have "p \<noteq> []" using white_space_nonempty by auto
    then have "c \<in> set p" using h by (cases p) (auto simp: starts_with_def)
    then have "c \<in> set q" using q by simp
    then show False using c q by (auto simp: solid_def)
  qed
  then show ?thesis by (simp add: trim_end_def strip_all_stuck strip_any_None del: set_map)
qed

lemma trim_solid: "\<forall>c \<in> set s. solid c \<Longrightarrow> trim s = s"
proof (cases s rule: rev_cases)
  case Nil
  then show ?thesis
    by (simp add: trim_def trim_start_def trim_end_def strip_all_stuck strip_any_None
        starts_with_def)
next
  case (snoc t d)
  assume a: "\<forall>c \<in> set s. solid c"
  obtain c r where s: "s = c # r" using snoc by (cases t) auto
  then have "trim_start s = s" using a by (simp add: solid_head)
  then show ?thesis using snoc a by (simp add: trim_def solid_last)
qed

lemma solid_ascii: "32 < char_nat c \<Longrightarrow> char_nat c < 128 \<Longrightarrow> solid c"
  unfolding solid_def white_space_def
  by (auto simp: char_nat_def)

section \<open>Hexadecimal numbers\<close>

definition hex_val :: "char \<Rightarrow> nat option" where
  "hex_val c = (let n = char_nat c in
     if is_ascii_digit c then Some (n - 48)
     else if 97 \<le> n \<and> n \<le> 102 then Some (n - 87)
     else if 65 \<le> n \<and> n \<le> 70 then Some (n - 55)
     else None)"

definition hex_char :: "nat \<Rightarrow> char" where
  "hex_char d = char_of (if d < 10 then 48 + d else 87 + d)"

fun hex_digits :: "nat \<Rightarrow> nat \<Rightarrow> string" where
  "hex_digits 0 v = []"
| "hex_digits (Suc n) v = hex_digits n (v div 16) @ [hex_char (v mod 16)]"

fun hex_nat :: "nat \<Rightarrow> string \<Rightarrow> nat option" where
  "hex_nat a [] = Some a"
| "hex_nat a (c # s) = (case hex_val c of None \<Rightarrow> None | Some d \<Rightarrow> hex_nat (a * 16 + d) s)"

text \<open>\<open>u64::from_str_radix(s, 16)\<close>: an optional plus sign, then digits of either case; an error
  when there is no digit, a character is no digit, or the number exceeds the type.\<close>

definition parse_hex_u64 :: "string \<Rightarrow> u64 option" where
  "parse_hex_u64 s = (let t = (if take 1 s = ''+'' then drop 1 s else s) in
     if t = [] then None
     else case hex_nat 0 t of None \<Rightarrow> None
       | Some v \<Rightarrow> if v < 2 ^ 64 then Some (word_of_nat v) else None)"

text \<open>The format \<open>{:016x}\<close>.\<close>

definition hex16 :: "u64 \<Rightarrow> string" where
  "hex16 w = hex_digits 16 (unat w)"

lemma hex_val_char: "d < 16 \<Longrightarrow> hex_val (hex_char d) = Some d"
  by (auto simp: hex_val_def hex_char_def Let_def is_ascii_digit_def char_nat_def)

lemma hex_nat_append:
  "hex_nat a (s @ t) = (case hex_nat a s of None \<Rightarrow> None | Some v \<Rightarrow> hex_nat v t)"
  by (induction s arbitrary: a) (auto split: option.splits)

lemma hex_nat_digits: "hex_nat 0 (hex_digits n v) = Some (v mod 16 ^ n)"
proof (induction n arbitrary: v)
  case 0
  then show ?case by simp
next
  case (Suc n)
  have "(v div 16) mod 16 ^ n * 16 + v mod 16 = v mod (16 * 16 ^ n)"
    by (simp add: mod_mult2_eq)
  then show ?case by (simp add: hex_nat_append Suc.IH hex_val_char)
qed

lemma length_hex_digits [simp]: "length (hex_digits n v) = n"
  by (induction n arbitrary: v) auto

lemma hex_char_digit: "d < 16 \<Longrightarrow> hex_char d \<noteq> CHR ''+''"
  using hex_val_char [of d] by (auto simp: hex_val_def is_ascii_digit_def char_nat_def)

lemma set_hex_digits: "c \<in> set (hex_digits n v) \<Longrightarrow> \<exists>d < 16. c = hex_char d"
proof (induction n arbitrary: v)
  case (Suc n)
  have "v mod 16 < 16" by simp
  then have "\<exists>d < 16. hex_char (v mod 16) = hex_char d" by blast
  then show ?case using Suc by auto
qed simp

lemma parse_hex16: "parse_hex_u64 (hex16 w) = Some w"
proof -
  have "unat w < 16 ^ 16" using unat_bound [of w] by simp
  then have v: "hex_nat 0 (hex16 w) = Some (unat w)" by (simp add: hex16_def hex_nat_digits)
  have ne: "hex16 w \<noteq> []" by (metis hex16_def length_hex_digits list.size(3) zero_neq_numeral)
  then have "hd (hex16 w) \<noteq> CHR ''+''"
    using set_hex_digits hex_char_digit by (metis hex16_def hd_in_set)
  then have "take 1 (hex16 w) \<noteq> ''+''" using ne by (cases "hex16 w") auto
  then show ?thesis using ne v unat_bound [of w] by (simp add: parse_hex_u64_def Let_def)
qed

end
