(* ===== verification/Mail.thy ===== *)
theory Mail
  imports Rust_Str Drive_Manifest
begin

text \<open>
  HashMail: \<open>hashgram-app/src/mail.rs\<close>. Address forms, the validation of messages, the expansion
  of a draft into the copies that are sent, reply recipients, and subjects. The argument
  \<open>lower\<close> is \<open>str::to_lowercase\<close>, the Unicode table of the standard library.
\<close>

section \<open>Bounds\<close>

definition MAIL_DOMAIN :: string where "MAIL_DOMAIN = ''hashgram.io''"
definition MAX_RECIPIENTS :: nat where "MAX_RECIPIENTS = 100"
definition MAX_SUBJECT :: nat where "MAX_SUBJECT = 998"
definition MAX_BODY_TEXT :: nat where "MAX_BODY_TEXT = 1024 * 1024"
definition MAX_BODY_HTML :: nat where "MAX_BODY_HTML = 1024 * 1024"
definition MAX_ATTACHMENTS :: nat where "MAX_ATTACHMENTS = 64"
definition MAX_INLINE_ATTACHMENT :: nat where "MAX_INLINE_ATTACHMENT = 64 * 1024"
definition MAX_REFERENCES :: nat where "MAX_REFERENCES = 64"
definition MAX_LABELS :: nat where "MAX_LABELS = 32"
definition MAIL_MAX_NAME :: nat where "MAIL_MAX_NAME = 128"
definition MAX_FILENAME :: nat where "MAX_FILENAME = 255"
definition MAIL_MAX_MIME :: nat where "MAIL_MAX_MIME = 128"
definition MAX_HEADER :: nat where "MAX_HEADER = 998"

section \<open>Messages\<close>

record mail_address =
  ma_address :: string
  ma_username :: string
  ma_display_name :: string

datatype attachment_source =
    InlineData bytes
  | BlobSource blob_ref
  | DriveSource drive_capability

record mail_attachment =
  at_name :: string
  at_mime :: string
  at_size :: u64
  at_plaintext_hash :: bytes
  at_content_id :: string
  at_source :: "attachment_source option"

record external_meta =
  ex_gateway :: string
  ex_from_header :: string
  ex_message_id_header :: string
  ex_auth_results :: "string list"
  ex_spam_score :: u32

record mail_message =
  mm_version :: u32
  mm_message_id :: bytes
  mm_thread_id :: bytes
  mm_from :: "mail_address option"
  mm_to :: "mail_address list"
  mm_cc :: "mail_address list"
  mm_bcc_copy :: bool
  mm_created_at_ms :: u64
  mm_subject :: string
  mm_in_reply_to :: bytes
  mm_references :: "bytes list"
  mm_body_text :: string
  mm_body_html :: string
  mm_attachments :: "mail_attachment list"
  mm_expire_after_secs :: u32
  mm_origin :: int
  mm_external :: "external_meta option"
  mm_request_read_receipt :: bool
  mm_importance :: int
  mm_labels :: "string list"

definition ORIGIN_NATIVE :: int where "ORIGIN_NATIVE = 0"
definition ORIGIN_EXTERNAL_GATEWAY :: int where "ORIGIN_EXTERNAL_GATEWAY = 1"

section \<open>Address forms\<close>

datatype address_form =
    Address string
  | Username string
  | External string

definition username_char :: "char \<Rightarrow> bool" where
  "username_char c \<longleftrightarrow> is_ascii_alnum c \<or> c = CHR ''-'' \<or> c = CHR ''_'' \<or> c = CHR ''.''"

definition parse_username :: "(string \<Rightarrow> string) \<Rightarrow> string \<Rightarrow> string res" where
  "parse_username lower name =
     (let n = lower (trim name) in
      if length n < 2 \<or> length n > 32 then Inl (Invalid ''username length out of range'')
      else if \<not> list_all username_char n then Inl (Invalid ''username has invalid characters'')
      else Inr n)"

definition as_username :: "string res \<Rightarrow> address_form res" where
  "as_username r = and_then r (\<lambda>n. Inr (Username n))"

definition parse_address :: "(string \<Rightarrow> string) \<Rightarrow> string \<Rightarrow> address_form res" where
  "parse_address lower input =
     (let s = trim input in
      if s = [] then Inl (Invalid ''empty address'')
      else if is_address s then Inr (Address s)
      else case strip_prefix ''@'' s of
        Some name \<Rightarrow> as_username (parse_username lower name)
      | None \<Rightarrow>
        (case rsplit_once (CHR ''@'') s of
           Some (local, domain) \<Rightarrow>
             if eq_ignore_ascii_case domain MAIL_DOMAIN
             then as_username (parse_username lower local)
             else if local = [] \<or> domain = [] \<or> CHR ''.'' \<notin> set domain \<or> length s > 254
             then Inl (Invalid ''not a mail address'')
             else Inr (External (ascii_lowercase s))
         | None \<Rightarrow> as_username (parse_username lower s)))"

definition mail_address_for :: "string \<Rightarrow> string" where
  "mail_address_for username = username @ ''@'' @ MAIL_DOMAIN"

section \<open>Validation\<close>

definition validate_mail_address :: "string \<Rightarrow> mail_address \<Rightarrow> unit res" where
  "validate_mail_address what a = first_err
     [require_address (what @ ''.address'') (ma_address a),
      require_str_max (what @ ''.username'') (ma_username a) MAIL_MAX_NAME,
      require_str_max (what @ ''.display_name'') (ma_display_name a) MAIL_MAX_NAME]"

definition validate_source :: "mail_attachment \<Rightarrow> unit res" where
  "validate_source a =
     (case at_source a of
        Some (InlineData d) \<Rightarrow> first_err
          [require (length d \<le> MAX_INLINE_ATTACHMENT) (Invalid ''inline data too large''),
           require (at_size a = word_of_nat (length d)) (Invalid ''size does not match inline data'')]
      | Some (BlobSource b) \<Rightarrow> first_err
          [require_hash ''blob.cid'' (br_cid b),
           require (length (br_key b) = 32 \<and> length (br_nonce b) = 24)
             (Invalid ''blob key/nonce length'')]
      | Some (DriveSource c) \<Rightarrow> validate_capability c
      | None \<Rightarrow> Inl (Invalid ''attachment has no source''))"

definition validate_attachment :: "mail_attachment \<Rightarrow> unit res" where
  "validate_attachment a = first_err
     [require_str ''attachment.name'' (at_name a) MAX_FILENAME,
      require (\<not> (CHR ''/'' \<in> set (at_name a) \<or> CHR 0x5C \<in> set (at_name a)
          \<or> at_name a = ''.'' \<or> at_name a = ''..''))
        (Invalid ''attachment.name contains a path separator''),
      require_str_max ''attachment.mime'' (at_mime a) MAIL_MAX_MIME,
      require_str_max ''attachment.content_id'' (at_content_id a) MAIL_MAX_NAME,
      (if at_plaintext_hash a \<noteq> []
       then require_hash ''attachment.plaintext_hash'' (at_plaintext_hash a) else Inr ()),
      validate_source a]"

definition validate_external :: "external_meta \<Rightarrow> unit res" where
  "validate_external e = first_err (
     [require_address ''external.gateway'' (ex_gateway e),
      require_str_max ''external.from_header'' (ex_from_header e) MAX_HEADER,
      require_str_max ''external.message_id_header'' (ex_message_id_header e) MAX_HEADER,
      require (length (ex_auth_results e) \<le> 16) (Invalid ''too many auth_results'')]
     @ map (\<lambda>r. require_str ''auth_result'' r 128) (ex_auth_results e)
     @ [require (ex_spam_score e \<le> 1000) (Invalid ''spam_score out of range'')])"

definition validate_mail :: "mail_message \<Rightarrow> unit res" where
  "validate_mail m = first_err (
     [check_body ''MailMessage'' (mm_version m) MAIL_VERSION,
      require_id ''message_id'' (mm_message_id m),
      require_id ''thread_id'' (mm_thread_id m),
      (case mm_from m of None \<Rightarrow> Inl (Invalid ''from is missing'')
       | Some f \<Rightarrow> validate_mail_address ''from'' f),
      require (length (mm_to m) + length (mm_cc m) \<le> MAX_RECIPIENTS) (Invalid ''too many recipients''),
      require (\<not> (mm_to m = [] \<and> mm_cc m = [])) (Invalid ''no recipients'')]
     @ map (validate_mail_address ''to'') (mm_to m)
     @ map (validate_mail_address ''cc'') (mm_cc m)
     @ [require_str_max ''subject'' (mm_subject m) MAX_SUBJECT,
        require (CHR 0x0A \<notin> set (mm_subject m) \<and> CHR 0x0D \<notin> set (mm_subject m))
          (Invalid ''subject contains a line break''),
        require_id_or_empty ''in_reply_to'' (mm_in_reply_to m),
        require (length (mm_references m) \<le> MAX_REFERENCES) (Invalid ''too many references'')]
     @ map (require_id ''references'') (mm_references m)
     @ [require (length (mm_body_text m) \<le> MAX_BODY_TEXT) (Invalid ''body_text too large''),
        require (length (mm_body_html m) \<le> MAX_BODY_HTML) (Invalid ''body_html too large''),
        require (length (mm_attachments m) \<le> MAX_ATTACHMENTS) (Invalid ''too many attachments'')]
     @ map validate_attachment (mm_attachments m)
     @ [require (length (mm_labels m) \<le> MAX_LABELS) (Invalid ''too many labels'')]
     @ map (\<lambda>l. require_str ''label'' l 64) (mm_labels m)
     @ [if mm_origin m = ORIGIN_EXTERNAL_GATEWAY
        then (case mm_external m of
                None \<Rightarrow> Inl (Invalid ''external origin without external meta'')
              | Some e \<Rightarrow> validate_external e)
        else require (mm_external m = None) (Invalid ''external meta on a native message'')])"

section \<open>Drafts\<close>

record reply_target =
  rt_message_id :: bytes
  rt_thread_id :: bytes
  rt_references :: "bytes list"

record draft =
  dr_from :: mail_address
  dr_to :: "mail_address list"
  dr_cc :: "mail_address list"
  dr_bcc :: "mail_address list"
  dr_subject :: string
  dr_body_text :: string
  dr_body_html :: string
  dr_attachments :: "mail_attachment list"
  dr_in_reply_to :: "reply_target option"
  dr_expire_after_secs :: u32
  dr_request_read_receipt :: bool
  dr_importance :: int
  dr_labels :: "string list"

record outgoing =
  og_main :: "mail_message option"
  og_bcc_copies :: "(mail_address \<times> mail_message) list"

text \<open>The loop that removes the second reference while there are too many.\<close>

function trim_references :: "bytes list \<Rightarrow> bytes list" where
  "trim_references refs =
     (if length refs > MAX_REFERENCES then trim_references (take 1 refs @ drop 2 refs) else refs)"
  by auto
termination
  by (relation "measure length") (auto simp: MAX_REFERENCES_def)

declare trim_references.simps [simp del]

definition thread_fields :: "bytes \<Rightarrow> draft \<Rightarrow> (bytes \<times> bytes \<times> bytes list) res" where
  "thread_fields message_id d =
     (case dr_in_reply_to d of
        Some t \<Rightarrow>
          and_then (require_id ''reply thread_id'' (rt_thread_id t)) (\<lambda>_.
          and_then (require_id ''reply message_id'' (rt_message_id t)) (\<lambda>_.
          Inr (rt_thread_id t, rt_message_id t,
               trim_references (rt_references t @ [rt_message_id t]))))
      | None \<Rightarrow> Inr (message_id, [], []))"

definition base_message :: "clock \<Rightarrow> bytes \<Rightarrow> bytes \<times> bytes \<times> bytes list \<Rightarrow> draft \<Rightarrow> mail_message" where
  "base_message clk message_id th d =
     \<lparr>mm_version = MAIL_VERSION, mm_message_id = message_id, mm_thread_id = fst th,
      mm_from = Some (dr_from d), mm_to = dr_to d, mm_cc = dr_cc d, mm_bcc_copy = False,
      mm_created_at_ms = clk 0, mm_subject = dr_subject d, mm_in_reply_to = fst (snd th),
      mm_references = snd (snd th), mm_body_text = dr_body_text d, mm_body_html = dr_body_html d,
      mm_attachments = dr_attachments d, mm_expire_after_secs = dr_expire_after_secs d,
      mm_origin = ORIGIN_NATIVE, mm_external = None,
      mm_request_read_receipt = dr_request_read_receipt d, mm_importance = dr_importance d,
      mm_labels = dr_labels d\<rparr>"

text \<open>The copy for one hidden recipient: without a visible recipient the sender stands in.\<close>

definition bcc_copy_of :: "draft \<Rightarrow> mail_message \<Rightarrow> mail_message" where
  "bcc_copy_of d base =
     (if mm_to base = [] \<and> mm_cc base = []
      then base\<lparr>mm_to := [dr_from d], mm_bcc_copy := True\<rparr> else base\<lparr>mm_bcc_copy := True\<rparr>)"

fun bcc_copies :: "draft \<Rightarrow> mail_message \<Rightarrow> mail_address list \<Rightarrow>
    (mail_address \<times> mail_message) list res" where
  "bcc_copies d base [] = Inr []"
| "bcc_copies d base (r # rs) =
     and_then (validate_mail (bcc_copy_of d base)) (\<lambda>_.
     and_then (bcc_copies d base rs) (\<lambda>cs. Inr ((r, bcc_copy_of d base) # cs)))"

definition build_all :: "os_random \<Rightarrow> clock \<Rightarrow> draft \<Rightarrow> outgoing res" where
  "build_all rnd clk d =
     (if dr_to d = [] \<and> dr_cc d = [] \<and> dr_bcc d = [] then Inl (Invalid ''no recipients'')
      else if length (dr_to d) + length (dr_cc d) + length (dr_bcc d) > MAX_RECIPIENTS
      then Inl (Invalid ''too many recipients'')
      else
        and_then (random_id rnd) (\<lambda>message_id.
        and_then (thread_fields message_id d) (\<lambda>th.
        let base = base_message clk message_id th d in
        and_then (if dr_to d = [] \<and> dr_cc d = [] then Inr None
                  else and_then (validate_mail base) (\<lambda>_. Inr (Some base))) (\<lambda>main.
        and_then (bcc_copies d base (dr_bcc d)) (\<lambda>cs.
        Inr \<lparr>og_main = main, og_bcc_copies = cs\<rparr>)))))"

section \<open>Replies\<close>

record reply_recipients =
  rr_to :: "mail_address list"
  rr_cc :: "mail_address list"

definition opt_list :: "'a option \<Rightarrow> 'a list" where
  "opt_list x = (case x of None \<Rightarrow> [] | Some y \<Rightarrow> [y])"

definition reply_to_sender :: "mail_message \<Rightarrow> reply_recipients" where
  "reply_to_sender m = \<lparr>rr_to = opt_list (mm_from m), rr_cc = []\<rparr>"

definition addressed :: "string \<Rightarrow> mail_address list \<Rightarrow> bool" where
  "addressed a xs \<longleftrightarrow> list_ex (\<lambda>x. ma_address x = a) xs"

definition push_recipient ::
    "string \<Rightarrow> mail_address list \<Rightarrow> mail_address list \<Rightarrow> mail_address \<Rightarrow> mail_address list" where
  "push_recipient me others acc a =
     (if ma_address a \<noteq> me \<and> \<not> addressed (ma_address a) others \<and> \<not> addressed (ma_address a) acc
      then acc @ [a] else acc)"

definition reply_all_recipients :: "mail_message \<Rightarrow> string \<Rightarrow> reply_recipients" where
  "reply_all_recipients m me =
     (if mm_bcc_copy m then reply_to_sender m
      else let tos = foldl (push_recipient me []) (opt_list (mm_from m)) (mm_to m)
           in \<lparr>rr_to = tos, rr_cc = foldl (push_recipient me tos) [] (mm_cc m)\<rparr>)"

definition participant_set :: "mail_message \<Rightarrow> string list" where
  "participant_set m = remdups_adj (sort (map ma_address (opt_list (mm_from m) @ mm_to m @ mm_cc m)))"

section \<open>Subjects and forwarding\<close>

definition subject_prefixes :: "string list" where
  "subject_prefixes = [''re:'', ''fwd:'', ''fw:'', ''aw:'', ''wg:'']"

definition strip_reply_prefix :: "string \<Rightarrow> string option" where
  "strip_reply_prefix s = (let l = ascii_lowercase s in
     map_option (\<lambda>p. trim_start (drop (length p) s)) (find (\<lambda>p. starts_with p l) subject_prefixes))"

function strip_subject :: "string \<Rightarrow> string" where
  "strip_subject s = (case strip_reply_prefix s of
       Some rest \<Rightarrow> if length rest < length s then strip_subject rest else s
     | None \<Rightarrow> s)"
  by auto
termination
  by (relation "measure length") auto

declare strip_subject.simps [simp del]

definition normalised_subject :: "(string \<Rightarrow> string) \<Rightarrow> string \<Rightarrow> string" where
  "normalised_subject lower subject =
     lower (join_with '' '' (split_whitespace (strip_subject (trim subject))))"

definition draft_default :: draft where
  "draft_default = \<lparr>dr_from = \<lparr>ma_address = [], ma_username = [], ma_display_name = []\<rparr>,
     dr_to = [], dr_cc = [], dr_bcc = [], dr_subject = [], dr_body_text = [], dr_body_html = [],
     dr_attachments = [], dr_in_reply_to = None, dr_expire_after_secs = 0,
     dr_request_read_receipt = False, dr_importance = 0, dr_labels = []\<rparr>"

definition newline :: string where "newline = [CHR 0x0A]"

definition forward_quote :: "mail_message \<Rightarrow> string" where
  "forward_quote m =
     newline @ newline @ ''---------- Forwarded message ----------'' @ newline @ ''From: ''
     @ (case mm_from m of None \<Rightarrow> []
        | Some a \<Rightarrow> if ma_username a = [] then ma_address a else mail_address_for (ma_username a))
     @ newline @ ''Date: '' @ dec_string (unat (mm_created_at_ms m))
     @ newline @ ''Subject: '' @ mm_subject m @ newline @ newline @ mm_body_text m"

definition forward_draft :: "(string \<Rightarrow> string) \<Rightarrow> mail_address \<Rightarrow> mail_message \<Rightarrow> draft" where
  "forward_draft lower from m =
     draft_default\<lparr>dr_from := from,
       dr_subject := (if normalised_subject lower (mm_subject m) = lower (mm_subject m)
                      then ''Fwd: '' @ mm_subject m else mm_subject m),
       dr_body_text := forward_quote m,
       dr_attachments := mm_attachments m\<rparr>"

text \<open>The reply target the SDK makes of the message that is answered
  (\<open>hashgram-sdk/src/mail.rs\<close>, \<open>reply_draft\<close>).\<close>

definition reply_target_of :: "mail_message \<Rightarrow> reply_target" where
  "reply_target_of m = \<lparr>rt_message_id = mm_message_id m, rt_thread_id = mm_thread_id m,
     rt_references = mm_references m\<rparr>"

definition reply_draft :: "(string \<Rightarrow> string) \<Rightarrow> string \<Rightarrow> bool \<Rightarrow> mail_message \<Rightarrow> draft" where
  "reply_draft lower me all m =
     (let r = (if all then reply_all_recipients m me else reply_to_sender m) in
      draft_default\<lparr>dr_to := rr_to r, dr_cc := rr_cc r,
        dr_subject := (if normalised_subject lower (mm_subject m) = lower (mm_subject m)
                       then ''Re: '' @ mm_subject m else mm_subject m),
        dr_in_reply_to := Some (reply_target_of m)\<rparr>)"

end
