(* ===== verification/Mail_Props.thy ===== *)
theory Mail_Props
  imports Mail
begin

text \<open>
  What HashMail promises: copies of a draft are valid and tell nobody of the hidden recipients;
  replies stay in their thread, go to exactly the right people and can always be sent; and the
  spellings of a username name the same user.
\<close>

section \<open>When validation succeeds\<close>

definition address_ok :: "mail_address \<Rightarrow> bool" where
  "address_ok a \<longleftrightarrow> validate_mail_address [] a = Inr ()"

lemma validate_mail_address_iff [ok_simps]:
  "validate_mail_address w a = Inr u \<longleftrightarrow> address_ok a"
  by (auto simp: address_ok_def validate_mail_address_def ok_simps simp del: first_err.simps)

text \<open>Everything \<open>validate_mail\<close> checks of the parts that replies and copies share or change.\<close>

definition body_ok :: "mail_message \<Rightarrow> bool" where
  "body_ok m \<longleftrightarrow> length (mm_body_text m) \<le> MAX_BODY_TEXT \<and> length (mm_body_html m) \<le> MAX_BODY_HTML
     \<and> length (mm_attachments m) \<le> MAX_ATTACHMENTS
     \<and> (\<forall>a \<in> set (mm_attachments m). validate_attachment a = Inr ())
     \<and> length (mm_labels m) \<le> MAX_LABELS \<and> (\<forall>l \<in> set (mm_labels m). require_str ''label'' l 64 = Inr ())"

definition subject_ok :: "string \<Rightarrow> bool" where
  "subject_ok s \<longleftrightarrow> length s \<le> MAX_SUBJECT \<and> CHR 0x00 \<notin> set s \<and> CHR 0x0A \<notin> set s \<and> CHR 0x0D \<notin> set s"

definition origin_ok :: "mail_message \<Rightarrow> bool" where
  "origin_ok m \<longleftrightarrow> (if mm_origin m = ORIGIN_EXTERNAL_GATEWAY
     then \<exists>e. mm_external m = Some e \<and> validate_external e = Inr () else mm_external m = None)"

lemma validate_mail_iff:
  "validate_mail m = Inr () \<longleftrightarrow>
     mm_version m = MAIL_VERSION \<and> length (mm_message_id m) = ID_LEN \<and> length (mm_thread_id m) = ID_LEN
     \<and> (\<exists>f. mm_from m = Some f \<and> address_ok f)
     \<and> length (mm_to m) + length (mm_cc m) \<le> MAX_RECIPIENTS \<and> (mm_to m \<noteq> [] \<or> mm_cc m \<noteq> [])
     \<and> (\<forall>a \<in> set (mm_to m) \<union> set (mm_cc m). address_ok a) \<and> subject_ok (mm_subject m)
     \<and> (mm_in_reply_to m = [] \<or> length (mm_in_reply_to m) = ID_LEN)
     \<and> length (mm_references m) \<le> MAX_REFERENCES \<and> (\<forall>r \<in> set (mm_references m). length r = ID_LEN)
     \<and> body_ok m \<and> origin_ok m"
proof -
  have f: "(case mm_from m of None \<Rightarrow> Inl (Invalid ''from is missing'')
      | Some f \<Rightarrow> validate_mail_address ''from'' f) = Inr () \<longleftrightarrow> (\<exists>f. mm_from m = Some f \<and> address_ok f)"
    by (cases "mm_from m") (auto simp: ok_simps)
  have o: "(if mm_origin m = ORIGIN_EXTERNAL_GATEWAY
      then (case mm_external m of
              None \<Rightarrow> Inl (Invalid ''external origin without external meta'')
            | Some e \<Rightarrow> validate_external e)
      else require (mm_external m = None) (Invalid ''external meta on a native message'')) = Inr ()
      \<longleftrightarrow> origin_ok m"
    by (cases "mm_external m") (auto simp: origin_ok_def)
  show ?thesis
    unfolding validate_mail_def first_err_ok set_append set_map list.set ball_Un ball_simps
      ball_empty f o body_ok_def subject_ok_def ok_simps require_ok
    by blast
qed

section \<open>References\<close>

text \<open>What is kept of a list of ancestors: all of them, or the root and the most recent ones.\<close>

definition window :: "bytes list \<Rightarrow> bytes list" where
  "window xs = (if length xs \<le> MAX_REFERENCES then xs
     else hd xs # drop (length xs - (MAX_REFERENCES - 1)) xs)"

lemma trim_references_window: "trim_references refs = window refs"
proof (induction refs rule: trim_references.induct)
  case (1 refs)
  show ?case
  proof (cases "length refs > MAX_REFERENCES")
    case False
    then show ?thesis by (subst trim_references.simps) (simp add: window_def)
  next
    case True
    obtain a b xs where r: "refs = a # b # xs"
      using True by (cases refs; cases "tl refs") (auto simp: MAX_REFERENCES_def)
    have "trim_references refs = window (a # xs)"
      using 1 True r by (subst trim_references.simps) simp
    also have "\<dots> = window refs"
    proof (cases "length xs = 63")
      case True
      then show ?thesis using r by (simp add: window_def MAX_REFERENCES_def)
    next
      case False
      then have "length xs \<ge> 64" using \<open>length refs > MAX_REFERENCES\<close> r
        by (simp add: MAX_REFERENCES_def)
      then have "Suc (length xs) - 63 = Suc (length xs - 63)" "Suc (Suc (length xs)) - 63 = Suc (Suc (length xs - 63))"
        by auto
      then show ?thesis using \<open>length xs \<ge> 64\<close> r by (simp add: window_def MAX_REFERENCES_def)
    qed
    finally show ?thesis .
  qed
qed

lemma window_snoc: "window (window xs @ [x]) = window (xs @ [x])"
proof (cases "length xs \<le> MAX_REFERENCES")
  case True
  then show ?thesis by (simp add: window_def)
next
  case False
  then have l: "length (window xs) = 64" "xs \<noteq> []"
    by (auto simp: window_def MAX_REFERENCES_def)
  obtain a b ys where xs: "xs = a # b # ys" using False
    by (cases xs; cases "tl xs") (auto simp: MAX_REFERENCES_def)
  have d: "length ys \<ge> 63" using False xs by (simp add: MAX_REFERENCES_def)
  then have "Suc (Suc (length ys)) - 63 = Suc (Suc (length ys - 63))" by auto
  then have w: "window xs = a # drop (length ys - 63) ys"
    using False xs by (simp add: window_def MAX_REFERENCES_def)
  have "Suc (Suc (Suc (length ys))) - 63 = Suc (Suc (Suc (length ys - 63)))" using d by auto
  then have e: "window (xs @ [x]) = a # drop (Suc (length ys - 63)) (ys @ [x])"
    using d xs by (simp add: window_def MAX_REFERENCES_def)
  have "window (window xs @ [x]) = a # drop 1 (drop (length ys - 63) ys @ [x])"
    using w d by (simp add: window_def MAX_REFERENCES_def)
  also have "\<dots> = a # drop (Suc (length ys - 63)) (ys @ [x])"
    using d by (cases "drop (length ys - 63) ys") (auto simp: drop_Suc tl_drop[symmetric])
  finally show ?thesis using e by simp
qed

lemma length_window: "length (window xs) \<le> MAX_REFERENCES"
  by (auto simp: window_def MAX_REFERENCES_def)

lemma set_window: "set (window xs) \<subseteq> set xs"
  by (cases xs) (auto simp: window_def dest: in_set_dropD)

section \<open>Copies\<close>

definition copies_of :: "outgoing \<Rightarrow> mail_message list" where
  "copies_of out = opt_list (og_main out) @ map snd (og_bcc_copies out)"

lemma bcc_copies_ok [ok_simps]:
  "bcc_copies d base rs = Inr cs \<longleftrightarrow> cs = map (\<lambda>r. (r, bcc_copy_of d base)) rs
     \<and> (rs = [] \<or> validate_mail (bcc_copy_of d base) = Inr ())"
  by (induction rs arbitrary: cs) (auto simp: and_then_ok)

text \<open>The message every copy is made from.\<close>

definition draft_base :: "os_random \<Rightarrow> clock \<Rightarrow> draft \<Rightarrow> mail_message \<Rightarrow> bool" where
  "draft_base rnd clk d b \<longleftrightarrow> (\<exists>i th. random_id rnd = Inr i \<and> thread_fields i d = Inr th
     \<and> b = base_message clk i th d)"

lemma out_eq: "out = \<lparr>og_main = x, og_bcc_copies = y\<rparr> \<longleftrightarrow> og_main out = x \<and> og_bcc_copies out = y"
  by (cases out) auto

lemma expand_ok:
  "and_then (if dr_to d = [] \<and> dr_cc d = [] then Inr None
             else and_then (validate_mail b) (\<lambda>_. Inr (Some b))) (\<lambda>main.
   and_then (bcc_copies d b (dr_bcc d)) (\<lambda>cs.
   Inr \<lparr>og_main = main, og_bcc_copies = cs\<rparr>)) = Inr out \<longleftrightarrow>
     og_main out = (if dr_to d = [] \<and> dr_cc d = [] then None else Some b)
     \<and> og_bcc_copies out = map (\<lambda>r. (r, bcc_copy_of d b)) (dr_bcc d)
     \<and> (\<forall>m \<in> set (copies_of out). validate_mail m = Inr ())"
proof -
  have c: "(\<forall>m \<in> set (map (\<lambda>x. snd (x, bcc_copy_of d b)) rs). validate_mail m = Inr ())
    \<longleftrightarrow> rs = [] \<or> validate_mail (bcc_copy_of d b) = Inr ()" for rs :: "mail_address list"
    by (cases rs) auto
  show ?thesis
    by (cases "dr_to d = [] \<and> dr_cc d = []")
      (auto simp: and_then_ok bcc_copies_ok out_eq copies_of_def opt_list_def c[simplified])
qed

lemma build_all_ok:
  "build_all rnd clk d = Inr out \<longleftrightarrow>
     \<not> (dr_to d = [] \<and> dr_cc d = [] \<and> dr_bcc d = [])
     \<and> length (dr_to d) + length (dr_cc d) + length (dr_bcc d) \<le> MAX_RECIPIENTS
     \<and> (\<exists>b. draft_base rnd clk d b
          \<and> og_main out = (if dr_to d = [] \<and> dr_cc d = [] then None else Some b)
          \<and> og_bcc_copies out = map (\<lambda>r. (r, bcc_copy_of d b)) (dr_bcc d)
          \<and> (\<forall>m \<in> set (copies_of out). validate_mail m = Inr ()))"
proof (cases "(dr_to d = [] \<and> dr_cc d = [] \<and> dr_bcc d = [])
    \<or> length (dr_to d) + length (dr_cc d) + length (dr_bcc d) > MAX_RECIPIENTS")
  case True
  then show ?thesis by (auto simp: build_all_def)
next
  case False
  then have n1: "\<not> (dr_to d = [] \<and> dr_cc d = [] \<and> dr_bcc d = [])"
    and n2: "\<not> length (dr_to d) + length (dr_cc d) + length (dr_bcc d) > MAX_RECIPIENTS"
    by auto
  show ?thesis
    unfolding build_all_def Let_def if_not_P [OF n1] if_not_P [OF n2]
      and_then_ok [where r = "random_id rnd"] and_then_ok [where r = "thread_fields i d" for i]
      expand_ok draft_base_def
    using n1 n2 by (auto simp only: not_less simp_thms)
qed

lemma base_fields:
  assumes "draft_base rnd clk d b"
  shows "mm_from b = Some (dr_from d)" "mm_to b = dr_to d" "mm_cc b = dr_cc d" "\<not> mm_bcc_copy b"
    "mm_origin b = ORIGIN_NATIVE" "mm_external b = None"
  using assms by (auto simp: draft_base_def base_message_def)

lemma copy_fields:
  "mm_from (bcc_copy_of d b) = mm_from b" "mm_message_id (bcc_copy_of d b) = mm_message_id b"
  "mm_thread_id (bcc_copy_of d b) = mm_thread_id b" "mm_references (bcc_copy_of d b) = mm_references b"
  "mm_origin (bcc_copy_of d b) = mm_origin b" "mm_bcc_copy (bcc_copy_of d b)"
  "set (mm_to (bcc_copy_of d b)) \<subseteq> insert (dr_from d) (set (mm_to b))"
  "mm_cc (bcc_copy_of d b) = mm_cc b" "mm_in_reply_to (bcc_copy_of d b) = mm_in_reply_to b"
  by (auto simp: bcc_copy_of_def)

lemma copies_from_base:
  assumes "build_all rnd clk d = Inr out"
  obtains b where "draft_base rnd clk d b"
    "\<And>m. m \<in> set (copies_of out) \<Longrightarrow> m = b \<or> m = bcc_copy_of d b"
proof -
  obtain b where b: "draft_base rnd clk d b"
    "og_main out = (if dr_to d = [] \<and> dr_cc d = [] then None else Some b)"
    "og_bcc_copies out = map (\<lambda>r. (r, bcc_copy_of d b)) (dr_bcc d)"
    using assms by (auto simp only: build_all_ok)
  have "m = b \<or> m = bcc_copy_of d b" if "m \<in> set (copies_of out)" for m
    using that b(2,3) by (auto simp: copies_of_def opt_list_def split: if_splits)
  then show thesis using b(1) that by blast
qed

text \<open>
  C29. Whatever a draft expands to is valid and carries one message identity; the copies match the
  hidden recipients one for one; no copy names a recipient the draft does not show; and a hidden
  recipient who replies to all reaches the sender only.
\<close>
theorem drafts_expand_safely:
  assumes "build_all rnd clk d = Inr out"
  shows "map fst (og_bcc_copies out) = dr_bcc d
    \<and> (og_main out = None \<longleftrightarrow> dr_to d = [] \<and> dr_cc d = [])
    \<and> (\<exists>i. \<forall>m \<in> set (copies_of out). validate_mail m = Inr () \<and> mm_message_id m = i
           \<and> mm_from m = Some (dr_from d)
           \<and> set (mm_to m @ mm_cc m) \<subseteq> insert (dr_from d) (set (dr_to d @ dr_cc d)))
    \<and> (\<forall>c \<in> snd ` set (og_bcc_copies out). mm_bcc_copy c
           \<and> reply_all_recipients c me = \<lparr>rr_to = [dr_from d], rr_cc = []\<rparr>)"
proof -
  obtain b where b: "draft_base rnd clk d b"
    and m: "og_main out = (if dr_to d = [] \<and> dr_cc d = [] then None else Some b)"
    and c: "og_bcc_copies out = map (\<lambda>r. (r, bcc_copy_of d b)) (dr_bcc d)"
    and v: "\<forall>m \<in> set (copies_of out). validate_mail m = Inr ()"
    using assms by (auto simp only: build_all_ok)
  note f = base_fields [OF b] copy_fields [of d b]
  have 1: "map fst (og_bcc_copies out) = dr_bcc d" by (simp add: c comp_def)
  have 2: "og_main out = None \<longleftrightarrow> dr_to d = [] \<and> dr_cc d = []" by (simp add: m)
  have 3: "\<forall>m \<in> set (copies_of out). validate_mail m = Inr () \<and> mm_message_id m = mm_message_id b
           \<and> mm_from m = Some (dr_from d)
           \<and> set (mm_to m @ mm_cc m) \<subseteq> insert (dr_from d) (set (dr_to d @ dr_cc d))"
    using v f by (auto simp: copies_of_def opt_list_def m c)
  have 4: "\<forall>c \<in> snd ` set (og_bcc_copies out). mm_bcc_copy c
           \<and> reply_all_recipients c me = \<lparr>rr_to = [dr_from d], rr_cc = []\<rparr>"
    using f by (auto simp: c reply_all_recipients_def reply_to_sender_def opt_list_def)
  show ?thesis using 1 2 3 4 by blast
qed

section \<open>Threads\<close>

text \<open>A thread: a message that answers none, then each message a copy of a draft that answers
  the one before.\<close>

inductive reply_thread :: "mail_message list \<Rightarrow> bool" where
  first_mail: "build_all rnd clk d = Inr out \<Longrightarrow> m \<in> set (copies_of out) \<Longrightarrow> dr_in_reply_to d = None
    \<Longrightarrow> reply_thread [m]"
| answer_mail: "reply_thread ms \<Longrightarrow> build_all rnd clk d = Inr out \<Longrightarrow> m \<in> set (copies_of out)
    \<Longrightarrow> dr_in_reply_to d = Some (reply_target_of (last ms)) \<Longrightarrow> reply_thread (ms @ [m])"

lemma copy_thread:
  assumes "build_all rnd clk d = Inr out" "m \<in> set (copies_of out)"
  shows "dr_in_reply_to d = None \<Longrightarrow> mm_thread_id m = mm_message_id m \<and> mm_references m = []"
    and "dr_in_reply_to d = Some t \<Longrightarrow> mm_thread_id m = rt_thread_id t
      \<and> mm_in_reply_to m = rt_message_id t
      \<and> mm_references m = window (rt_references t @ [rt_message_id t])"
proof -
  obtain b where b: "draft_base rnd clk d b" "m = b \<or> m = bcc_copy_of d b"
    using copies_from_base [OF assms(1)] assms(2) by metis
  show "dr_in_reply_to d = None \<Longrightarrow> mm_thread_id m = mm_message_id m \<and> mm_references m = []"
    "dr_in_reply_to d = Some t \<Longrightarrow> mm_thread_id m = rt_thread_id t
      \<and> mm_in_reply_to m = rt_message_id t
      \<and> mm_references m = window (rt_references t @ [rt_message_id t])"
    using b by (auto simp: draft_base_def thread_fields_def base_message_def copy_fields
        and_then_ok ok_simps trim_references_window)
qed

text \<open>
  C30. Along any chain of replies, of whatever length, every message carries the identity of the
  opening message as its thread, and its references are the messages before it: all of them up
  to the bound, then the root and the most recent ones.
\<close>
theorem threads_keep_their_root:
  assumes "reply_thread ms" "k < length ms"
  shows "mm_thread_id (ms ! k) = mm_message_id (hd ms)
    \<and> mm_references (ms ! k) = window (map mm_message_id (take k ms))"
proof -
  have "ms \<noteq> [] \<and> (\<forall>k < length ms. mm_thread_id (ms ! k) = mm_message_id (hd ms)
    \<and> mm_references (ms ! k) = window (map mm_message_id (take k ms)))"
    using assms(1)
  proof induction
    case (first_mail rnd clk d out m)
    then show ?case using copy_thread(1) [OF first_mail(1,2)] by (auto simp: window_def)
  next
    case (answer_mail ms rnd clk d out m)
    then have ne: "ms \<noteq> []" using answer_mail.IH by simp
    let ?n = "length ms - 1"
    have l: "last ms = ms ! ?n" "?n < length ms" using ne by (auto simp: last_conv_nth)
    have m: "mm_thread_id m = mm_thread_id (last ms)"
      "mm_references m = window (mm_references (last ms) @ [mm_message_id (last ms)])"
      using copy_thread(2) [OF answer_mail(2,3,4)] by (auto simp: reply_target_of_def)
    have "map mm_message_id (take ?n ms) @ [mm_message_id (last ms)] = map mm_message_id ms"
      using ne by (metis append_butlast_last_id butlast_conv_take list.simps(8,9) map_append)
    then have "mm_references m = window (map mm_message_id ms)"
      using m(2) answer_mail.IH l window_snoc [of "map mm_message_id (take ?n ms)"]
      by simp
    moreover have "mm_thread_id m = mm_message_id (hd ms)" using m(1) answer_mail.IH l by simp
    ultimately show ?case using answer_mail.IH ne by (auto simp: nth_append less_Suc_eq)
  qed
  then show ?thesis using assms(2) by blast
qed

section \<open>Reply recipients\<close>

lemma addressed_iff: "addressed a xs \<longleftrightarrow> a \<in> ma_address ` set xs"
  by (auto simp: addressed_def list_ex_iff)

lemma push_all_addresses:
  "ma_address ` set (foldl (push_recipient me os) acc xs) =
     ma_address ` set acc \<union> (ma_address ` set xs - {me} - ma_address ` set os)"
  by (induction xs arbitrary: acc) (auto simp: push_recipient_def addressed_iff)

lemma push_all_distinct:
  "distinct (map ma_address acc) \<Longrightarrow> distinct (map ma_address (foldl (push_recipient me os) acc xs))"
  by (induction xs arbitrary: acc) (auto simp: push_recipient_def addressed_iff)

lemma push_all_subset: "set (foldl (push_recipient me os) acc xs) \<subseteq> set acc \<union> set xs"
proof (induction xs arbitrary: acc)
  case (Cons x xs)
  show ?case using Cons [of "push_recipient me os acc x"]
    by (auto simp: push_recipient_def split: if_splits)
qed simp

lemma push_all_disjoint:
  "ma_address ` set os \<inter> ma_address ` set (foldl (push_recipient me os) [] xs) = {}"
  unfolding push_all_addresses by auto

lemma push_all_length:
  "length (foldl (push_recipient me os) acc xs)
     \<le> length acc + length (filter (\<lambda>a. ma_address a \<noteq> me) xs)"
proof (induction xs arbitrary: acc)
  case (Cons x xs)
  have "length (push_recipient me os acc x) \<le> length acc + (if ma_address x \<noteq> me then 1 else 0)"
    by (simp add: push_recipient_def)
  then show ?case using Cons [of "push_recipient me os acc x"] by (auto split: if_splits)
qed simp

definition sender_list :: "mail_message \<Rightarrow> string set" where
  "sender_list m = ma_address ` set (opt_list (mm_from m))"

text \<open>
  A reply to all goes to the sender and to every visible recipient but the user, each once;
  a reply to a hidden copy goes to the sender alone.
\<close>
theorem reply_all_exact:
  "ma_address ` set (rr_to (reply_all_recipients m me) @ rr_cc (reply_all_recipients m me))
     = (if mm_bcc_copy m then sender_list m
        else sender_list m \<union> (ma_address ` set (mm_to m @ mm_cc m) - {me}))
   \<and> distinct (map ma_address (rr_to (reply_all_recipients m me) @ rr_cc (reply_all_recipients m me)))"
proof -
  have d: "distinct (map ma_address (opt_list (mm_from m)))"
    by (simp add: opt_list_def split: option.splits)
  show ?thesis
  proof (cases "mm_bcc_copy m")
    case True
    then show ?thesis using d by (simp add: reply_all_recipients_def reply_to_sender_def sender_list_def)
  next
    case False
    let ?to = "foldl (push_recipient me []) (opt_list (mm_from m)) (mm_to m)"
    let ?cc = "foldl (push_recipient me ?to) [] (mm_cc m)"
    have r: "reply_all_recipients m me = \<lparr>rr_to = ?to, rr_cc = ?cc\<rparr>"
      using False by (simp add: reply_all_recipients_def Let_def)
    have "ma_address ` set (?to @ ?cc) = sender_list m \<union> (ma_address ` set (mm_to m @ mm_cc m) - {me})"
      unfolding set_append image_Un push_all_addresses sender_list_def by auto
    moreover have "distinct (map ma_address (?to @ ?cc))"
    proof -
      have "distinct (map ma_address ?to)" by (rule push_all_distinct [OF d])
      moreover have "distinct (map ma_address ?cc)" by (rule push_all_distinct) simp
      moreover have "ma_address ` set ?to \<inter> ma_address ` set ?cc = {}"
        by (rule push_all_disjoint)
      ultimately show ?thesis by (simp add: image_Un)
    qed
    ultimately show ?thesis using False unfolding r by simp
  qed
qed

section \<open>Replies can be sent\<close>

lemma reply_recipients_bound:
  assumes "validate_mail m = Inr ()" "mm_bcc_copy m \<or> addressed me (mm_to m @ mm_cc m)"
  shows "length (rr_to (reply_all_recipients m me)) + length (rr_cc (reply_all_recipients m me))
    \<le> MAX_RECIPIENTS"
proof (cases "mm_bcc_copy m")
  case True
  then show ?thesis
    by (simp add: reply_all_recipients_def reply_to_sender_def opt_list_def MAX_RECIPIENTS_def
        split: option.splits)
next
  case False
  let ?keep = "\<lambda>xs. length (filter (\<lambda>a. ma_address a \<noteq> me) xs)"
  obtain a where "a \<in> set (mm_to m @ mm_cc m)" "ma_address a = me"
    using assms(2) False by (auto simp: addressed_iff)
  then have "?keep (mm_to m @ mm_cc m) < length (mm_to m @ mm_cc m)"
    using length_filter_less [of a "mm_to m @ mm_cc m" "\<lambda>a. ma_address a \<noteq> me"] by blast
  moreover have "length (opt_list (mm_from m)) \<le> 1" by (simp add: opt_list_def split: option.splits)
  moreover have "length (mm_to m @ mm_cc m) \<le> MAX_RECIPIENTS"
    using assms(1) by (simp add: validate_mail_iff)
  moreover have "length (rr_to (reply_all_recipients m me)) + length (rr_cc (reply_all_recipients m me))
      \<le> length (opt_list (mm_from m)) + ?keep (mm_to m @ mm_cc m)"
    using False push_all_length [of me "[]" "opt_list (mm_from m)" "mm_to m"]
      push_all_length [of me "foldl (push_recipient me []) (opt_list (mm_from m)) (mm_to m)" "[]" "mm_cc m"]
    by (simp add: reply_all_recipients_def Let_def)
  ultimately show ?thesis by simp
qed

lemma reply_recipients_valid:
  assumes "validate_mail m = Inr ()"
    "a \<in> set (rr_to (reply_all_recipients m me)) \<union> set (rr_cc (reply_all_recipients m me))"
  shows "address_ok a"
proof -
  have f: "\<forall>x \<in> set (opt_list (mm_from m)) \<union> set (mm_to m) \<union> set (mm_cc m). address_ok x"
    using assms(1) by (auto simp: validate_mail_iff opt_list_def)
  show ?thesis
    using assms(2) f push_all_subset [of me "[]" "opt_list (mm_from m)" "mm_to m"]
      push_all_subset [of me "foldl (push_recipient me []) (opt_list (mm_from m)) (mm_to m)" "[]" "mm_cc m"]
    by (auto simp: reply_all_recipients_def reply_to_sender_def Let_def split: if_splits)
qed

lemma reply_to_nonempty:
  "validate_mail m = Inr () \<Longrightarrow> rr_to (reply_all_recipients m me) \<noteq> []"
  using reply_all_exact [of m me] push_all_addresses [of me "[]" "opt_list (mm_from m)" "mm_to m"]
  by (auto simp: validate_mail_iff reply_all_recipients_def reply_to_sender_def Let_def opt_list_def)

lemma reply_subject_ok:
  "subject_ok s \<Longrightarrow> length s + 4 \<le> MAX_SUBJECT \<Longrightarrow> subject_ok (if P then ''Re: '' @ s else s)"
  by (auto simp: subject_ok_def)

text \<open>
  A reply, to the sender or to all, to any valid message that reached the user can be sent:
  with any valid sender and any body within the bound it expands to one message to the visible
  recipients, as long as the subject leaves room for the prefix.
\<close>
theorem replies_can_be_sent:
  assumes "validate_mail m = Inr ()" "mm_bcc_copy m \<or> addressed me (mm_to m @ mm_cc m)"
    and "length (mm_subject m) + 4 \<le> MAX_SUBJECT" "address_ok from"
    and "length body \<le> MAX_BODY_TEXT"
  shows "\<exists>out b. build_all (Some rnd) clk
           (reply_draft lower me all m\<lparr>dr_from := from, dr_body_text := body\<rparr>) = Inr out
         \<and> og_main out = Some b \<and> og_bcc_copies out = [] \<and> mm_thread_id b = mm_thread_id m
         \<and> mm_in_reply_to b = mm_message_id m"
proof -
  let ?r = "if all then reply_all_recipients m me else reply_to_sender m"
  let ?d = "reply_draft lower me all m\<lparr>dr_from := from, dr_body_text := body\<rparr>"
  note v = assms(1) [unfolded validate_mail_iff]
  have len: "length (rr_to ?r) + length (rr_cc ?r) \<le> MAX_RECIPIENTS"
    using reply_recipients_bound [OF assms(1,2)]
    by (simp add: reply_to_sender_def opt_list_def MAX_RECIPIENTS_def split: option.splits)
  have ne: "rr_to ?r \<noteq> []"
    using reply_to_nonempty [OF assms(1)] v by (auto simp: reply_to_sender_def opt_list_def)
  have ad: "\<forall>a \<in> set (rr_to ?r) \<union> set (rr_cc ?r). address_ok a"
    using reply_recipients_valid [OF assms(1)] v by (auto simp: reply_to_sender_def opt_list_def)
  define i where "i = map rnd [0..<ID_LEN]"
  define b where "b = base_message clk i (mm_thread_id m, mm_message_id m,
      window (mm_references m @ [mm_message_id m])) ?d"
  have base: "draft_base (Some rnd) clk ?d b"
    using v by (auto simp: draft_base_def random_id_def thread_fields_def reply_draft_def Let_def
        reply_target_of_def b_def i_def ok_simps trim_references_window)
  have refs: "\<forall>r \<in> set (window (mm_references m @ [mm_message_id m])). length r = ID_LEN"
    using v set_window [of "mm_references m @ [mm_message_id m]"] by auto
  have fields: "dr_to ?d = rr_to ?r" "dr_cc ?d = rr_cc ?r" "dr_bcc ?d = []"
    "dr_subject ?d = (if normalised_subject lower (mm_subject m) = lower (mm_subject m)
       then ''Re: '' @ mm_subject m else mm_subject m)"
    "dr_from ?d = from" "dr_body_text ?d = body" "dr_body_html ?d = []" "dr_attachments ?d = []"
    "dr_labels ?d = []"
    by (simp_all add: reply_draft_def draft_default_def Let_def)
  have bf: "mm_version b = MAIL_VERSION" "mm_message_id b = i" "mm_thread_id b = mm_thread_id m"
    "mm_from b = Some from" "mm_to b = rr_to ?r" "mm_cc b = rr_cc ?r" "mm_subject b = dr_subject ?d"
    "mm_in_reply_to b = mm_message_id m" "mm_references b = window (mm_references m @ [mm_message_id m])"
    "mm_body_text b = body" "mm_body_html b = []" "mm_attachments b = []" "mm_labels b = []"
    "mm_origin b = ORIGIN_NATIVE" "mm_external b = None"
    unfolding b_def base_message_def by (simp_all only: fields mail_message.simps fst_conv snd_conv)
  have "validate_mail b = Inr ()"
    unfolding validate_mail_iff body_ok_def origin_ok_def bf fields
    using v assms(4,5) len ne ad refs length_window
      reply_subject_ok [of "mm_subject m", OF _ assms(3)]
    by (simp add: i_def ORIGIN_NATIVE_def ORIGIN_EXTERNAL_GATEWAY_def)
  then have "build_all (Some rnd) clk ?d = Inr \<lparr>og_main = Some b, og_bcc_copies = []\<rparr>"
    unfolding build_all_ok fields using base len ne by (auto simp: copies_of_def opt_list_def)
  then show ?thesis using bf(3,8) by auto
qed

section \<open>Address forms\<close>

definition valid_username :: "string \<Rightarrow> bool" where
  "valid_username u \<longleftrightarrow> list_all username_char u \<and> 2 \<le> length u \<and> length u \<le> 32"

lemma username_char_solid: "username_char c \<Longrightarrow> solid c \<and> c \<noteq> CHR ''@''"
  by (auto simp: username_char_def is_ascii_alnum_def is_ascii_digit_def is_ascii_upper_def
      is_ascii_lower_def char_nat_def intro!: solid_ascii)

lemma valid_username_chars: "valid_username u \<Longrightarrow> c \<in> set u \<Longrightarrow> solid c \<and> c \<noteq> CHR ''@''"
  using username_char_solid by (auto simp: valid_username_def list_all_iff)

lemma parse_username_ok: "parse_username lower s = Inr u \<longleftrightarrow> u = lower (trim s) \<and> valid_username u"
  by (auto simp: parse_username_def valid_username_def Let_def)

lemma as_username_ok: "as_username r = Inr f \<longleftrightarrow> (\<exists>u. r = Inr u \<and> f = Username u)"
  by (auto simp: as_username_def and_then_ok)

lemma parse_username_valid:
  "valid_username u \<Longrightarrow> lower u = u \<Longrightarrow> as_username (parse_username lower u) = Inr (Username u)"
  using trim_solid [of u] valid_username_chars [of u]
  by (simp add: as_username_ok parse_username_ok)

lemma no_at_in_address: "is_address s \<Longrightarrow> CHR ''@'' \<notin> set s"
proof
  assume a: "is_address s" and "CHR ''@'' \<in> set s"
  then have "CHR ''@'' \<in> set (take 5 s) \<or> CHR ''@'' \<in> set (drop 5 s)"
    by (metis UnE append_take_drop_id set_append)
  moreover have "CHR ''@'' \<notin> set (take 5 s)" using a by (simp add: is_address_def)
  moreover have "CHR ''@'' \<notin> set (drop 5 s)"
  proof
    assume "CHR ''@'' \<in> set (drop 5 s)"
    then have "CHR ''@'' \<in> set ''qpzry9x8gf2tvdw0s3jn54khce6mua7l''"
      using a unfolding is_address_def list_all_iff by blast
    then show False by simp
  qed
  ultimately show False by blast
qed

lemma lower_at: "lower_char c = CHR ''@'' \<longleftrightarrow> c = CHR ''@''"
proof (cases "is_ascii_upper c")
  case True
  then have n: "65 \<le> char_nat c" "char_nat c \<le> 90" by (simp_all add: is_ascii_upper_def)
  then have "char_nat (lower_char c) = char_nat c + 32"
    using True by (simp add: lower_char_def char_nat_def)
  then have "lower_char c \<noteq> CHR ''@''" using n by (auto simp: char_nat_def)
  moreover have "c \<noteq> CHR ''@''" using n by (auto simp: char_nat_def)
  ultimately show ?thesis by simp
next
  case False
  then show ?thesis by (simp add: lower_char_def)
qed

lemma lower_home: "ascii_lowercase MAIL_DOMAIN = MAIL_DOMAIN" "CHR ''@'' \<notin> set MAIL_DOMAIN"
  by code_simp+

lemma domain_solid: "c \<in> set (''@'' @ MAIL_DOMAIN) \<Longrightarrow> solid c"
  by (rule solid_ascii) (auto simp: MAIL_DOMAIN_def char_nat_def)

text \<open>
  The name alone, the name with a leading at sign, and the mail address of the name are
  spellings of one user: all parse to that username.
\<close>
theorem username_spellings_agree:
  assumes "valid_username u" "lower u = u"
  shows "parse_address lower u = Inr (Username u)"
    and "parse_address lower (''@'' @ u) = Inr (Username u)"
    and "parse_address lower (mail_address_for u) = Inr (Username u)"
proof -
  note c = valid_username_chars [OF assms(1)] and n = parse_username_valid [where lower = lower and u = u, OF assms]
  have u: "u \<noteq> []" "length u \<le> 32" using assms(1) by (auto simp: valid_username_def)
  have at: "CHR ''@'' \<notin> set u" using c by blast
  have t: "trim s = s" if "set s \<subseteq> set u \<union> set (''@'' @ MAIL_DOMAIN)" for s
    using c domain_solid that by (intro trim_solid) blast
  have "strip_prefix ''@'' u = None" "rsplit_once (CHR ''@'') u = None"
    using at by (auto simp: strip_prefix_def starts_with_iff rsplit_once_None)
  moreover have "\<not> is_address u" using u by (simp add: is_address_def)
  moreover have "trim u = u" by (rule t) auto
  ultimately show "parse_address lower u = Inr (Username u)"
    using u n by (simp add: parse_address_def Let_def)
  have "trim (''@'' @ u) = ''@'' @ u" by (rule t) auto
  moreover have "\<not> is_address (''@'' @ u)" using no_at_in_address by fastforce
  ultimately show "parse_address lower (''@'' @ u) = Inr (Username u)"
    using n strip_prefix_append [of "''@''" u] by (simp add: parse_address_def Let_def)
  have "trim (mail_address_for u) = mail_address_for u"
    by (rule t) (auto simp: mail_address_for_def)
  moreover have "\<not> is_address (mail_address_for u)"
    using no_at_in_address by (fastforce simp: mail_address_for_def)
  moreover have "strip_prefix ''@'' (mail_address_for u) = None"
    using u at by (cases u) (auto simp: mail_address_for_def strip_prefix_def starts_with_def)
  moreover have "rsplit_once (CHR ''@'') (mail_address_for u) = Some (u, MAIL_DOMAIN)"
    by (auto simp: rsplit_once_Some mail_address_for_def MAIL_DOMAIN_def)
  ultimately show "parse_address lower (mail_address_for u) = Inr (Username u)"
    using u n by (simp add: parse_address_def Let_def lower_home mail_address_for_def)
qed

lemma external_not_home:
  assumes "rsplit_once (CHR ''@'') s = Some (l, d)" "\<not> eq_ignore_ascii_case d MAIL_DOMAIN"
  shows "\<not> ends_with (''@'' @ MAIL_DOMAIN) (ascii_lowercase s)"
proof
  assume "ends_with (''@'' @ MAIL_DOMAIN) (ascii_lowercase s)"
  then obtain r where r: "ascii_lowercase s = r @ CHR ''@'' # MAIL_DOMAIN"
    by (auto simp: ends_with_iff)
  have s: "s = l @ CHR ''@'' # d" "CHR ''@'' \<notin> set d" using assms(1) by (auto simp: rsplit_once_Some)
  have at: "lower_char (CHR ''@'') = CHR ''@''" using lower_at by blast
  have "ascii_lowercase s = ascii_lowercase l @ CHR ''@'' # ascii_lowercase d"
    using s(1) at by (simp add: ascii_lowercase_def)
  then have e: "ascii_lowercase l @ CHR ''@'' # ascii_lowercase d = r @ CHR ''@'' # MAIL_DOMAIN"
    using r by (rule subst)
  have "CHR ''@'' \<notin> lower_char ` set d"
  proof
    assume "CHR ''@'' \<in> lower_char ` set d"
    then obtain c where "c \<in> set d" "lower_char c = CHR ''@''" by auto
    then show False using s(2) lower_at by simp
  qed
  then have "CHR ''@'' \<notin> set (ascii_lowercase d)" by (simp add: ascii_lowercase_def)
  then have "ascii_lowercase d = MAIL_DOMAIN" using last_segment [OF e] lower_home(2) by blast
  then show False using assms(2) by (simp add: eq_ignore_ascii_case_def lower_home)
qed

text \<open>
  Parsing sorts every designator into exactly the class it may be used as: an account address
  is well formed, a username is within its bounds, and an external address is never one of the
  home domain, so no bridged recipient can pass for a Hashgram user.
\<close>
theorem parsed_forms_sound:
  "case parse_address lower s of
     Inr (Address a) \<Rightarrow> is_address a \<and> a = trim s
   | Inr (Username u) \<Rightarrow> valid_username u \<and> \<not> is_address (trim s)
   | Inr (External e) \<Rightarrow> \<not> ends_with (''@'' @ MAIL_DOMAIN) e \<and> \<not> is_address e
       \<and> CHR ''@'' \<in> set e \<and> length e \<le> 254
   | Inl e \<Rightarrow> e = Invalid ''empty address'' \<or> e = Invalid ''not a mail address''
       \<or> e = Invalid ''username length out of range'' \<or> e = Invalid ''username has invalid characters''"
proof -
  have un: "case as_username (parse_username lower x) of Inr f \<Rightarrow> (\<exists>u. f = Username u \<and> valid_username u)
      | Inl e \<Rightarrow> e = Invalid ''username length out of range'' \<or> e = Invalid ''username has invalid characters''" for x
    by (simp add: as_username_def parse_username_def valid_username_def Let_def)
  have ext: "CHR ''@'' \<in> set (ascii_lowercase x)" if r: "rsplit_once (CHR ''@'') x = Some p" for x p
  proof -
    obtain a b where "x = a @ CHR ''@'' # b" using r by (cases p) (auto simp: rsplit_once_Some)
    moreover have "lower_char (CHR ''@'') = CHR ''@''" using lower_at by blast
    ultimately show ?thesis by (simp add: ascii_lowercase_def)
  qed
  show ?thesis
  proof (cases "strip_prefix ''@'' (trim s)")
    case (Some name)
    then show ?thesis using un [of name] by (auto simp: parse_address_def Let_def split: sum.splits)
  next
    case None
    note np = None
    show ?thesis
    proof (cases "rsplit_once (CHR ''@'') (trim s)")
      case None
      then show ?thesis using np un [of "trim s"]
        by (auto simp: parse_address_def Let_def split: sum.splits)
    next
      case (Some p)
      then show ?thesis
        using np un [of "fst p"] ext [OF Some] external_not_home [of "trim s" "fst p" "snd p"]
          no_at_in_address [of "ascii_lowercase (trim s)"]
        by (cases p) (auto simp: parse_address_def Let_def split: sum.splits)
    qed
  qed
qed

section \<open>Subjects\<close>

lemma trim_fixed:
  assumes "trim s = s"
  shows "trim_start s = s" "trim_end s = s"
proof -
  obtain p where p: "s = p @ trim_start s" unfolding trim_start_def using strip_all_suffix by metis
  obtain q where q: "rev (trim_start s) = q @ rev (trim_end (trim_start s))"
    unfolding trim_end_def rev_rev_ident using strip_all_suffix by metis
  have l: "length s = length p + length (trim_start s)" using arg_cong [OF p, of length] by simp
  have "length (trim_start s) = length q + length s"
    using arg_cong [OF q, of length] assms by (simp add: trim_def)
  then have "p = []" using l by simp
  then show "trim_start s = s" using p by simp
  then show "trim_end s = s" using assms by (simp add: trim_def)
qed

lemma multi_byte_no_space: "p \<in> set white_space \<Longrightarrow> CHR '' '' \<in> set p \<Longrightarrow> p = '' ''"
  by (auto simp: white_space_def)

text \<open>A prefix that ends in a space before a text that trimming leaves alone.\<close>

lemma trim_prefixed:
  assumes "trim s = s" "s \<noteq> []" "solid c"
  shows "trim (c # p @ '' '' @ s) = c # p @ '' '' @ s"
proof -
  have "trim_end (c # p @ '' '' @ s) = c # p @ '' '' @ s"
  proof -
    have n: "strip_any (map rev white_space) (rev s) = None"
      using trim_fixed(2) [OF assms(1)] strip_all_None [of "map rev white_space" "rev s"]
      by (simp add: trim_end_def rev_swap)
    have "\<not> starts_with w (rev s @ '' '' @ rev (c # p))" if w: "w \<in> set (map rev white_space)" for w
    proof
      assume h: "starts_with w (rev s @ '' '' @ rev (c # p))"
      obtain q where q: "q \<in> set white_space" "w = rev q" using w by auto
      have nw: "\<not> starts_with w (rev s)" "w \<noteq> []"
        using n w q white_space_nonempty by (auto simp: strip_any_None)
      obtain r where r: "rev s @ '' '' @ rev (c # p) = w @ r" using h by (auto simp: starts_with_iff)
      have "length (rev s) < length w"
      proof (rule ccontr)
        assume "\<not> length (rev s) < length w"
        then have "take (length w) (rev s) = w"
          using arg_cong [OF r, of "take (length w)"] by simp
        then show False using nw by (simp add: starts_with_def)
      qed
      then have "w ! length s = CHR '' ''" "length s < length w"
        using arg_cong [OF r, of "\<lambda>l. l ! length s"] by (auto simp: nth_append)
      then have "CHR '' '' \<in> set q" using q by (metis nth_mem set_rev)
      then have "length w = 1" using multi_byte_no_space [OF q(1)] q by simp
      then show False using \<open>length s < length w\<close> assms(2) by (cases s) auto
    qed
    then show ?thesis
      by (simp add: trim_end_def strip_all_stuck strip_any_None del: set_map)
  qed
  then show ?thesis using solid_head [OF assms(3)] by (simp add: trim_def)
qed

lemma strip_subject_prefixed:
  assumes "trim_start s = s" "length pre = length p"
    "find (\<lambda>q. starts_with q (ascii_lowercase (p @ '' '' @ s))) subject_prefixes = Some pre"
  shows "strip_subject (p @ '' '' @ s) = strip_subject s"
proof -
  have "trim_start ('' '' @ s) = s"
  proof -
    have "strip_any white_space ('' '' @ s) = Some s"
      by (simp add: strip_any_def white_space_def)
    then show ?thesis
      using assms(1) unfolding trim_start_def by (subst strip_all.simps) (simp del: append_Cons)
  qed
  then have "strip_reply_prefix (p @ '' '' @ s) = Some s"
    using assms(2,3) by (simp add: strip_reply_prefix_def Let_def)
  then show ?thesis by (subst strip_subject.simps) simp
qed

lemma solid_reply: "solid (CHR ''R'')" "solid (CHR ''F'')"
  by (rule solid_ascii; simp add: char_nat_def)+

lemma prefix_search:
  "find (\<lambda>q. starts_with q (ascii_lowercase (''Re:'' @ x))) subject_prefixes = Some ''re:''"
  "find (\<lambda>q. starts_with q (ascii_lowercase (''Fwd:'' @ x))) subject_prefixes = Some ''fwd:''"
proof -
  have l: "ascii_lowercase ''Re:'' = ''re:''" "ascii_lowercase ''Fwd:'' = ''fwd:''" by code_simp+
  have a: "ascii_lowercase (u @ v) = ascii_lowercase u @ ascii_lowercase v" for u v
    by (simp add: ascii_lowercase_def)
  show "find (\<lambda>q. starts_with q (ascii_lowercase (''Re:'' @ x))) subject_prefixes = Some ''re:''"
    "find (\<lambda>q. starts_with q (ascii_lowercase (''Fwd:'' @ x))) subject_prefixes = Some ''fwd:''"
    unfolding a l by (simp_all add: subject_prefixes_def starts_with_def)
qed

lemma normalised_prefixed:
  assumes "trim s = s" "c # p = ''Re:'' \<or> c # p = ''Fwd:''"
  shows "normalised_subject lower (c # p @ '' '' @ s) = normalised_subject lower s"
proof (cases "s = []")
  case True
  have e: "strip_subject (trim ''Re: '') = []" "strip_subject (trim ''Fwd: '') = []"
    by code_simp+
  have "strip_subject (trim []) = []" by code_simp
  then show ?thesis using assms(2) True e by (auto simp: normalised_subject_def)
next
  case False
  have t: "trim (c # p @ '' '' @ s) = c # p @ '' '' @ s"
    using assms solid_reply False by (intro trim_prefixed) auto
  have "strip_subject ((c # p) @ '' '' @ s) = strip_subject s"
  proof -
    have "strip_subject (''Re:'' @ '' '' @ s) = strip_subject s"
      "strip_subject (''Fwd:'' @ '' '' @ s) = strip_subject s"
      using strip_subject_prefixed [OF trim_fixed(1) [OF assms(1)] _ prefix_search(1)]
        strip_subject_prefixed [OF trim_fixed(1) [OF assms(1)] _ prefix_search(2)]
      by simp_all
    then show ?thesis using assms(2) by (elim disjE) (simp_all only:)
  qed
  then show ?thesis using t assms(1) by (simp add: normalised_subject_def)
qed

text \<open>
  Replying to or forwarding a message never starts a new group of subjects: the subject of
  the draft normalises to what the subject of the original normalises to.
\<close>
theorem subjects_stay_grouped:
  assumes "trim (mm_subject m) = mm_subject m"
  shows "normalised_subject lower (dr_subject (reply_draft lower me all m))
           = normalised_subject lower (mm_subject m)"
    and "normalised_subject lower (dr_subject (forward_draft lower from m))
           = normalised_subject lower (mm_subject m)"
  using normalised_prefixed [OF assms, of "CHR ''R''" "''e:''" lower]
    normalised_prefixed [OF assms, of "CHR ''F''" "''wd:''" lower]
  by (auto simp: reply_draft_def forward_draft_def Let_def)

section \<open>The properties at concrete inputs\<close>

definition wit_mailbox :: "char \<Rightarrow> mail_address" where
  "wit_mailbox c = \<lparr>ma_address = ''hash1'' @ replicate 34 c, ma_username = [], ma_display_name = []\<rparr>"

definition wit_draft :: draft where
  "wit_draft = draft_default\<lparr>dr_from := wit_mailbox (CHR ''q''), dr_to := [wit_mailbox (CHR ''p'')],
     dr_bcc := [wit_mailbox (CHR ''z'')], dr_subject := ''Hello''\<rparr>"

definition wit_mail :: "mail_message" where
  "wit_mail = base_message (\<lambda>_. 0) (replicate 16 7) (replicate 16 7, [], []) wit_draft"

lemma wit_mailbox_ok:
  "address_ok (wit_mailbox (CHR ''q''))" "address_ok (wit_mailbox (CHR ''p''))"
  unfolding address_ok_def by code_simp+

lemmas wit_mail_simps = wit_mail_def base_message_def wit_draft_def draft_default_def ID_LEN_def
  MAX_RECIPIENTS_def MAX_REFERENCES_def MAX_BODY_TEXT_def MAX_BODY_HTML_def MAX_ATTACHMENTS_def
  MAX_LABELS_def MAX_SUBJECT_def ORIGIN_NATIVE_def ORIGIN_EXTERNAL_GATEWAY_def
  body_ok_def origin_ok_def subject_ok_def

lemma wit_mail_ok: "validate_mail wit_mail = Inr ()"
  unfolding validate_mail_iff by (simp add: wit_mail_simps wit_mailbox_ok)

lemma wit_copy_ok: "validate_mail (bcc_copy_of wit_draft wit_mail) = Inr ()"
  unfolding validate_mail_iff bcc_copy_of_def by (simp add: wit_mail_simps wit_mailbox_ok)

lemma wit_built:
  "build_all (Some (\<lambda>_. 7)) (\<lambda>_. 0) wit_draft
     = Inr \<lparr>og_main = Some wit_mail, og_bcc_copies = [(wit_mailbox (CHR ''z''), bcc_copy_of wit_draft wit_mail)]\<rparr>"
proof -
  have "map (\<lambda>_. 7) [0..<16] = replicate 16 (7 :: byte)"
    by (simp add: map_replicate_const)
  then have "draft_base (Some (\<lambda>_. 7)) (\<lambda>_. 0) wit_draft wit_mail"
    unfolding draft_base_def wit_mail_def
    by (simp add: random_id_def ID_LEN_def thread_fields_def wit_draft_def draft_default_def)
  then show ?thesis
    unfolding build_all_ok using wit_mail_ok wit_copy_ok
    by (auto simp: copies_of_def opt_list_def wit_draft_def draft_default_def MAX_RECIPIENTS_def)
qed

theorem drafts_expand_safely_witness:
  "\<exists>out. build_all (Some (\<lambda>_. 7)) (\<lambda>_. 0) wit_draft = Inr out \<and> map fst (og_bcc_copies out) = dr_bcc wit_draft"
  using drafts_expand_safely [OF wit_built] wit_built by blast

lemma wit_thread: "reply_thread [wit_mail]"
  by (rule first_mail [OF wit_built]) (simp_all add: copies_of_def opt_list_def wit_draft_def draft_default_def)

theorem threads_keep_their_root_witness:
  "mm_thread_id ([wit_mail] ! 0) = mm_message_id wit_mail"
  using threads_keep_their_root [OF wit_thread, of 0] by simp

theorem replies_can_be_sent_witness:
  "\<exists>out b. build_all (Some (\<lambda>_. 9)) (\<lambda>_. 5)
     (reply_draft (\<lambda>s. s) (ma_address (wit_mailbox (CHR ''p''))) True wit_mail
        \<lparr>dr_from := wit_mailbox (CHR ''p''), dr_body_text := ''Hi''\<rparr>) = Inr out \<and> og_main out = Some b"
proof -
  have "addressed (ma_address (wit_mailbox (CHR ''p''))) (mm_to wit_mail @ mm_cc wit_mail)"
    "length (mm_subject wit_mail) + 4 \<le> MAX_SUBJECT" "length ''Hi'' \<le> MAX_BODY_TEXT"
    by (simp_all add: wit_mail_simps addressed_def)
  then show ?thesis
    using replies_can_be_sent [OF wit_mail_ok disjI2 _ wit_mailbox_ok(2),
        of _ "''Hi''" "\<lambda>_. 9" "\<lambda>_. 5" "\<lambda>s. s" True] by blast
qed

theorem username_spellings_agree_witness:
  "parse_address (\<lambda>s. s) (mail_address_for ''alice'') = Inr (Username ''alice'')"
  by (rule username_spellings_agree(3)) (code_simp, simp)

theorem subjects_stay_grouped_witness:
  "normalised_subject (\<lambda>s. s) (dr_subject (reply_draft (\<lambda>s. s) [] True wit_mail))
     = normalised_subject (\<lambda>s. s) (mm_subject wit_mail)"
  by (rule subjects_stay_grouped(1)) code_simp

end
