(* ===== verification/People.thy ===== *)
theory People
  imports Drive_Manifest "HOL-Library.Multiset"
begin

text \<open>
  The contact book: \<open>hashgram-app/src/people.rs\<close>. A record carries its flags as strings in the
  order they were set. An operation may read the clock several times: \<open>clk k\<close> is its \<open>k\<close>-th
  reading. The second half refines the records to one set of flags per address.
\<close>

section \<open>Flags, requests and cards\<close>

definition FRIEND :: string where "FRIEND = ''friend''"
definition PENDING_OUT :: string where "PENDING_OUT = ''pending_out''"
definition PENDING_IN :: string where "PENDING_IN = ''pending_in''"
definition BLOCKED :: string where "BLOCKED = ''blocked''"
definition MUTED :: string where "MUTED = ''muted''"
definition TRUSTED :: string where "TRUSTED = ''trusted''"
definition FOLLOWING :: string where "FOLLOWING = ''following''"
definition MAX_REQUEST_MESSAGE :: nat where "MAX_REQUEST_MESSAGE = 1024"

lemmas flag_defs = FRIEND_def PENDING_OUT_def PENDING_IN_def BLOCKED_def MUTED_def TRUSTED_def FOLLOWING_def

record contact_request =
  cq_version :: u32
  cq_display_name :: string
  cq_username :: string
  cq_message :: string
  cq_at_ms :: u64

record profile_card =
  pc_version :: u32
  pc_display_name :: string
  pc_bio :: string
  pc_avatar :: "blob_ref option"
  pc_wallet_address :: string
  pc_at_ms :: u64

definition validate_request :: "contact_request \<Rightarrow> unit res" where
  "validate_request r = first_err
     [check_body ''ContactRequest'' (cq_version r) PEOPLE_VERSION,
      require_str_max ''display_name'' (cq_display_name r) 128,
      require_str_max ''username'' (cq_username r) 64,
      require_str_max ''message'' (cq_message r) MAX_REQUEST_MESSAGE]"

definition validate_card :: "profile_card \<Rightarrow> unit res" where
  "validate_card c = first_err
     [check_body ''ProfileCard'' (pc_version c) PEOPLE_VERSION,
      require_str_max ''display_name'' (pc_display_name c) 128,
      require_str_max ''bio'' (pc_bio c) 4096,
      if pc_wallet_address c \<noteq> [] then require_address ''wallet_address'' (pc_wallet_address c)
      else Inr ()]"

section \<open>The book\<close>

record contact =
  cn_address :: string
  cn_username :: string
  cn_display_name :: string
  cn_states :: "string list"
  cn_updated_at_ms :: u64

type_synonym contacts = "(string \<times> contact) list"

definition contact_default :: "string \<Rightarrow> contact" where
  "contact_default a = \<lparr>cn_address = a, cn_username = [], cn_display_name = [], cn_states = [],
     cn_updated_at_ms = 0\<rparr>"

text \<open>\<open>entry\<close> returns a mutable reference: here the record, which the caller puts back.\<close>

definition contact_entry :: "contacts \<Rightarrow> string \<Rightarrow> contact res" where
  "contact_entry c a = and_then (require_address ''address'' a) (\<lambda>_.
     Inr (case map_of c a of None \<Rightarrow> contact_default a | Some r \<Rightarrow> r))"

definition set_flag :: "string \<Rightarrow> bool \<Rightarrow> u64 \<Rightarrow> contact \<Rightarrow> contact" where
  "set_flag flag on now r =
     r\<lparr>cn_states := filter (\<lambda>s. s \<noteq> flag) (cn_states r) @ (if on then [flag] else []),
       cn_updated_at_ms := now\<rparr>"

definition has_flag :: "contacts \<Rightarrow> string \<Rightarrow> string \<Rightarrow> bool" where
  "has_flag c a flag = (case map_of c a of None \<Rightarrow> False | Some r \<Rightarrow> flag \<in> set (cn_states r))"

definition on_entry :: "contacts \<Rightarrow> string \<Rightarrow> (contact \<Rightarrow> contact) \<Rightarrow> contacts res" where
  "on_entry c a f = and_then (contact_entry c a) (\<lambda>r. Inr (bt_insert a (f r) c))"

definition request_sent :: "clock \<Rightarrow> string \<Rightarrow> contacts \<Rightarrow> contacts res" where
  "request_sent clk a c =
     (if has_flag c a BLOCKED then Inl (Invalid ''unblock first'')
      else if has_flag c a FRIEND then Inl (Invalid ''already a contact'')
      else on_entry c a (set_flag PENDING_OUT True (clk 0)))"

definition request_received ::
    "clock \<Rightarrow> string \<Rightarrow> string \<Rightarrow> string \<Rightarrow> contacts \<Rightarrow> (bool \<times> contacts) res" where
  "request_received clk a username display_name c =
     (if has_flag c a BLOCKED then Inr (False, c)
      else if has_flag c a FRIEND then Inr (True, c)
      else
        and_then (on_entry c a (\<lambda>r.
          (let r = (if username \<noteq> [] then r\<lparr>cn_username := username\<rparr> else r);
               r = (if display_name \<noteq> [] then r\<lparr>cn_display_name := display_name\<rparr> else r)
           in if has_flag c a PENDING_OUT
              then set_flag FRIEND True (clk 1) (set_flag PENDING_OUT False (clk 0) r)
              else set_flag PENDING_IN True (clk 0) r)))
          (\<lambda>c'. Inr (True, c')))"

definition accept_contact :: "clock \<Rightarrow> string \<Rightarrow> contacts \<Rightarrow> contacts res" where
  "accept_contact clk a c =
     (if \<not> has_flag c a PENDING_IN then Inl (Invalid ''no pending request'')
      else on_entry c a (\<lambda>r. set_flag FRIEND True (clk 1) (set_flag PENDING_IN False (clk 0) r)))"

definition reject_contact :: "clock \<Rightarrow> string \<Rightarrow> contacts \<Rightarrow> contacts res" where
  "reject_contact clk a c = on_entry c a (set_flag PENDING_IN False (clk 0))"

definition response_received :: "clock \<Rightarrow> string \<Rightarrow> bool \<Rightarrow> contacts \<Rightarrow> contacts res" where
  "response_received clk a accepted c = on_entry c a (\<lambda>r.
     (let r = set_flag PENDING_OUT False (clk 0) r in
      if accepted then set_flag FRIEND True (clk 1) r else r))"

definition remove_contact :: "clock \<Rightarrow> string \<Rightarrow> contacts \<Rightarrow> contacts res" where
  "remove_contact clk a c = on_entry c a (\<lambda>r.
     set_flag PENDING_OUT False (clk 3) (set_flag PENDING_IN False (clk 2)
       (set_flag TRUSTED False (clk 1) (set_flag FRIEND False (clk 0) r))))"

definition block_contact :: "clock \<Rightarrow> string \<Rightarrow> contacts \<Rightarrow> contacts res" where
  "block_contact clk a c = on_entry c a (\<lambda>r.
     set_flag BLOCKED True (clk 4) (set_flag PENDING_OUT False (clk 3) (set_flag PENDING_IN False (clk 2)
       (set_flag TRUSTED False (clk 1) (set_flag FRIEND False (clk 0) r)))))"

definition unblock_contact :: "clock \<Rightarrow> string \<Rightarrow> contacts \<Rightarrow> contacts res" where
  "unblock_contact clk a c = on_entry c a (set_flag BLOCKED False (clk 0))"

definition set_muted :: "clock \<Rightarrow> string \<Rightarrow> bool \<Rightarrow> contacts \<Rightarrow> contacts res" where
  "set_muted clk a on c = on_entry c a (set_flag MUTED on (clk 0))"

definition set_trusted :: "clock \<Rightarrow> string \<Rightarrow> bool \<Rightarrow> contacts \<Rightarrow> contacts res" where
  "set_trusted clk a on c =
     (if on \<and> \<not> has_flag c a FRIEND then Inl (Invalid ''only a contact can be trusted'')
      else on_entry c a (set_flag TRUSTED on (clk 0)))"

definition set_following :: "clock \<Rightarrow> string \<Rightarrow> bool \<Rightarrow> contacts \<Rightarrow> contacts res" where
  "set_following clk a on c = on_entry c a (set_flag FOLLOWING on (clk 0))"

definition set_names :: "clock \<Rightarrow> string \<Rightarrow> string \<Rightarrow> string \<Rightarrow> contacts \<Rightarrow> contacts res" where
  "set_names clk a username display_name c = on_entry c a (\<lambda>r.
     r\<lparr>cn_username := username, cn_display_name := display_name, cn_updated_at_ms := clk 0\<rparr>)"

definition with_flag :: "string \<Rightarrow> contacts \<Rightarrow> contact list" where
  "with_flag flag c = filter (\<lambda>r. flag \<in> set (cn_states r)) (map snd c)"

record contacts_snapshot =
  sn_contacts :: "contact list"
  sn_at_ms :: u64

definition contacts_snapshot_of :: "clock \<Rightarrow> contacts \<Rightarrow> contacts_snapshot" where
  "contacts_snapshot_of clk c = \<lparr>sn_contacts = map snd c, sn_at_ms = clk 0\<rparr>"

definition merge_contact :: "contact \<Rightarrow> contacts \<Rightarrow> contacts" where
  "merge_contact r c =
     (if \<not> is_address (cn_address r) then c
      else if (case map_of c (cn_address r) of None \<Rightarrow> True | Some old \<Rightarrow> cn_updated_at_ms r > cn_updated_at_ms old)
      then bt_insert (cn_address r) r c else c)"

definition merge_snapshot :: "contacts_snapshot \<Rightarrow> contacts \<Rightarrow> contacts" where
  "merge_snapshot s c = foldl (\<lambda>c r. merge_contact r c) c (sn_contacts s)"

section \<open>One set of flags per address\<close>

text \<open>
  The specification: an address is related to the user by a set of flags. \<open>spec_op\<close> is what
  each event does to the set of its address; it is undefined when the book refuses the event.
\<close>

datatype contact_op =
    OpRequestSent | OpRequestReceived string string | OpAccept | OpReject | OpResponse bool
  | OpRemove | OpBlock | OpUnblock | OpMute bool | OpTrust bool | OpFollow bool | OpNames string string

definition flags_of :: "contacts \<Rightarrow> string \<Rightarrow> string set" where
  "flags_of c a = (case map_of c a of None \<Rightarrow> {} | Some r \<Rightarrow> set (cn_states r))"

definition put_if :: "bool \<Rightarrow> string \<Rightarrow> string set \<Rightarrow> string set" where
  "put_if on f S = (if on then insert f S else S - {f})"

fun spec_op :: "contact_op \<Rightarrow> string set \<Rightarrow> string set option" where
  "spec_op OpRequestSent S =
     (if BLOCKED \<in> S \<or> FRIEND \<in> S then None else Some (insert PENDING_OUT S))"
| "spec_op (OpRequestReceived u d) S =
     (if BLOCKED \<in> S \<or> FRIEND \<in> S then Some S
      else if PENDING_OUT \<in> S then Some (insert FRIEND (S - {PENDING_OUT}))
      else Some (insert PENDING_IN S))"
| "spec_op OpAccept S = (if PENDING_IN \<in> S then Some (insert FRIEND (S - {PENDING_IN})) else None)"
| "spec_op OpReject S = Some (S - {PENDING_IN})"
| "spec_op (OpResponse accepted) S =
     Some (if accepted then insert FRIEND (S - {PENDING_OUT}) else S - {PENDING_OUT})"
| "spec_op OpRemove S = Some (S - {FRIEND, TRUSTED, PENDING_IN, PENDING_OUT})"
| "spec_op OpBlock S = Some (insert BLOCKED (S - {FRIEND, TRUSTED, PENDING_IN, PENDING_OUT}))"
| "spec_op OpUnblock S = Some (S - {BLOCKED})"
| "spec_op (OpMute on) S = Some (put_if on MUTED S)"
| "spec_op (OpTrust on) S = (if on \<and> FRIEND \<notin> S then None else Some (put_if on TRUSTED S))"
| "spec_op (OpFollow on) S = Some (put_if on FOLLOWING S)"
| "spec_op (OpNames u d) S = Some S"

fun run_op :: "clock \<Rightarrow> string \<Rightarrow> contact_op \<Rightarrow> contacts \<Rightarrow> contacts res" where
  "run_op clk a OpRequestSent c = request_sent clk a c"
| "run_op clk a (OpRequestReceived u d) c = map_sum id snd (request_received clk a u d c)"
| "run_op clk a OpAccept c = accept_contact clk a c"
| "run_op clk a OpReject c = reject_contact clk a c"
| "run_op clk a (OpResponse accepted) c = response_received clk a accepted c"
| "run_op clk a OpRemove c = remove_contact clk a c"
| "run_op clk a OpBlock c = block_contact clk a c"
| "run_op clk a OpUnblock c = unblock_contact clk a c"
| "run_op clk a (OpMute on) c = set_muted clk a on c"
| "run_op clk a (OpTrust on) c = set_trusted clk a on c"
| "run_op clk a (OpFollow on) c = set_following clk a on c"
| "run_op clk a (OpNames u d) c = set_names clk a u d c"

lemma flag_ne [simp]:
  "FRIEND \<noteq> PENDING_OUT" "PENDING_OUT \<noteq> FRIEND" "FRIEND \<noteq> PENDING_IN" "PENDING_IN \<noteq> FRIEND"
  "FRIEND \<noteq> BLOCKED" "BLOCKED \<noteq> FRIEND" "FRIEND \<noteq> TRUSTED" "TRUSTED \<noteq> FRIEND"
  "FRIEND \<noteq> MUTED" "MUTED \<noteq> FRIEND" "FRIEND \<noteq> FOLLOWING" "FOLLOWING \<noteq> FRIEND"
  "BLOCKED \<noteq> PENDING_OUT" "PENDING_OUT \<noteq> BLOCKED" "BLOCKED \<noteq> PENDING_IN" "PENDING_IN \<noteq> BLOCKED"
  "BLOCKED \<noteq> TRUSTED" "TRUSTED \<noteq> BLOCKED" "BLOCKED \<noteq> MUTED" "MUTED \<noteq> BLOCKED"
  "BLOCKED \<noteq> FOLLOWING" "FOLLOWING \<noteq> BLOCKED" "TRUSTED \<noteq> PENDING_OUT" "PENDING_OUT \<noteq> TRUSTED"
  "TRUSTED \<noteq> PENDING_IN" "PENDING_IN \<noteq> TRUSTED" "TRUSTED \<noteq> MUTED" "MUTED \<noteq> TRUSTED"
  "TRUSTED \<noteq> FOLLOWING" "FOLLOWING \<noteq> TRUSTED" "PENDING_IN \<noteq> PENDING_OUT" "PENDING_OUT \<noteq> PENDING_IN"
  by (simp_all add: flag_defs)

lemma has_flag_iff: "has_flag c a f \<longleftrightarrow> f \<in> flags_of c a"
  by (simp add: has_flag_def flags_of_def split: option.splits)

lemma set_flag_states [simp]:
  "set (cn_states (set_flag f on now r)) = put_if on f (set (cn_states r))"
  by (auto simp: set_flag_def put_if_def)

lemma entry_states:
  "contact_entry c a = Inr r \<longleftrightarrow> is_address a \<and> r = (case map_of c a of None \<Rightarrow> contact_default a | Some r \<Rightarrow> r)"
  by (auto simp: contact_entry_def and_then_ok require_address_ok)

lemma on_entry_flags:
  assumes "\<And>r. set (cn_states (f r)) = g (set (cn_states r))" "is_address a"
  shows "\<exists>c'. on_entry c a f = Inr c' \<and> flags_of c' = (flags_of c)(a := g (flags_of c a))"
proof -
  define r where "r = (case map_of c a of None \<Rightarrow> contact_default a | Some r \<Rightarrow> r)"
  have "contact_entry c a = Inr r" using assms(2) by (simp add: entry_states r_def)
  then have "on_entry c a f = Inr (bt_insert a (f r) c)" by (simp add: on_entry_def)
  moreover have "set (cn_states r) = flags_of c a"
    by (simp add: r_def flags_of_def contact_default_def split: option.splits)
  then have "flags_of (bt_insert a (f r) c) = (flags_of c)(a := g (flags_of c a))"
    by (auto simp: flags_of_def assms(1) fun_eq_iff)
  ultimately show ?thesis by blast
qed

lemma insert_put_if [simp]: "put_if True f S = insert f S" "put_if False f S = S - {f}"
  by (simp_all add: put_if_def)

lemma run_op_refines:
  assumes "is_address a"
  shows "case spec_op op (flags_of c a) of
      None \<Rightarrow> \<exists>err. run_op clk a op c = Inl err
    | Some S \<Rightarrow> \<exists>c'. run_op clk a op c = Inr c' \<and> flags_of c' = (flags_of c)(a := S)"
proof (cases op)
  case OpRequestSent
  then show ?thesis
    using on_entry_flags [OF _ assms, of "set_flag PENDING_OUT True (clk 0)" "insert PENDING_OUT" c]
    by (simp add: request_sent_def has_flag_iff)
next
  case (OpRequestReceived u d)
  let ?name = "\<lambda>r. let r = (if u \<noteq> [] then r\<lparr>cn_username := u\<rparr> else r)
      in if d \<noteq> [] then r\<lparr>cn_display_name := d\<rparr> else r"
  have n: "set (cn_states (?name r)) = set (cn_states r)" for r by (simp add: Let_def)
  obtain c1 where c1: "on_entry c a (\<lambda>r. set_flag FRIEND True (clk 1) (set_flag PENDING_OUT False (clk 0) (?name r)))
      = Inr c1" "flags_of c1 = (flags_of c)(a := insert FRIEND (flags_of c a - {PENDING_OUT}))"
    using on_entry_flags [OF _ assms, of "\<lambda>r. set_flag FRIEND True (clk 1) (set_flag PENDING_OUT False (clk 0) (?name r))"
        "\<lambda>S. insert FRIEND (S - {PENDING_OUT})" c] n by auto
  obtain c2 where c2: "on_entry c a (\<lambda>r. set_flag PENDING_IN True (clk 0) (?name r)) = Inr c2"
      "flags_of c2 = (flags_of c)(a := insert PENDING_IN (flags_of c a))"
    using on_entry_flags [OF _ assms, of "\<lambda>r. set_flag PENDING_IN True (clk 0) (?name r)" "insert PENDING_IN" c] n by auto
  show ?thesis
    using OpRequestReceived c1 c2 by (simp add: request_received_def has_flag_iff Let_def)
next
  case OpAccept
  then show ?thesis
    using on_entry_flags [OF _ assms, of "\<lambda>r. set_flag FRIEND True (clk 1) (set_flag PENDING_IN False (clk 0) r)"
        "\<lambda>S. insert FRIEND (S - {PENDING_IN})" c]
    by (simp add: accept_contact_def has_flag_iff)
next
  case OpReject
  then show ?thesis
    using on_entry_flags [OF _ assms, of "set_flag PENDING_IN False (clk 0)" "\<lambda>S. S - {PENDING_IN}" c]
    by (simp add: reject_contact_def)
next
  case (OpResponse accepted)
  then show ?thesis
    using on_entry_flags [OF _ assms, of "\<lambda>r. let r = set_flag PENDING_OUT False (clk 0) r in
        if accepted then set_flag FRIEND True (clk 1) r else r"
        "\<lambda>S. if accepted then insert FRIEND (S - {PENDING_OUT}) else S - {PENDING_OUT}" c]
    by (simp add: response_received_def Let_def)
next
  case OpRemove
  have "S - {FRIEND} - {TRUSTED} - {PENDING_IN} - {PENDING_OUT} = S - {FRIEND, TRUSTED, PENDING_IN, PENDING_OUT}"
    for S by auto
  then show ?thesis
    using OpRemove on_entry_flags [OF _ assms, of "\<lambda>r. set_flag PENDING_OUT False (clk 3) (set_flag PENDING_IN False (clk 2)
       (set_flag TRUSTED False (clk 1) (set_flag FRIEND False (clk 0) r)))"
        "\<lambda>S. S - {FRIEND, TRUSTED, PENDING_IN, PENDING_OUT}" c]
    by (simp add: remove_contact_def)
next
  case OpBlock
  have "S - {FRIEND} - {TRUSTED} - {PENDING_IN} - {PENDING_OUT} = S - {FRIEND, TRUSTED, PENDING_IN, PENDING_OUT}"
    for S by auto
  then show ?thesis
    using OpBlock on_entry_flags [OF _ assms, of "\<lambda>r. set_flag BLOCKED True (clk 4) (set_flag PENDING_OUT False (clk 3)
       (set_flag PENDING_IN False (clk 2) (set_flag TRUSTED False (clk 1) (set_flag FRIEND False (clk 0) r))))"
        "\<lambda>S. insert BLOCKED (S - {FRIEND, TRUSTED, PENDING_IN, PENDING_OUT})" c]
    by (simp add: block_contact_def)
next
  case OpUnblock
  then show ?thesis
    using on_entry_flags [OF _ assms, of "set_flag BLOCKED False (clk 0)" "\<lambda>S. S - {BLOCKED}" c]
    by (simp add: unblock_contact_def)
next
  case (OpMute on)
  then show ?thesis
    using on_entry_flags [OF _ assms, of "set_flag MUTED on (clk 0)" "put_if on MUTED" c]
    by (simp add: set_muted_def)
next
  case (OpTrust on)
  then show ?thesis
    using on_entry_flags [OF _ assms, of "set_flag TRUSTED on (clk 0)" "put_if on TRUSTED" c]
    by (simp add: set_trusted_def has_flag_iff)
next
  case (OpFollow on)
  then show ?thesis
    using on_entry_flags [OF _ assms, of "set_flag FOLLOWING on (clk 0)" "put_if on FOLLOWING" c]
    by (simp add: set_following_def)
next
  case (OpNames u d)
  then show ?thesis
    using on_entry_flags [OF _ assms, of "\<lambda>r. r\<lparr>cn_username := u, cn_display_name := d, cn_updated_at_ms := clk 0\<rparr>"
        "\<lambda>S. S" c]
    by (simp add: set_names_def)
qed

section \<open>Runs\<close>

text \<open>An event names an address; an event that is refused leaves the book as it is.\<close>

type_synonym contact_event = "clock \<times> string \<times> contact_op"

definition contact_step :: "contacts \<Rightarrow> contact_event \<Rightarrow> contacts" where
  "contact_step c ev = (case ev of (clk, a, op) \<Rightarrow>
     case run_op clk a op c of Inl _ \<Rightarrow> c | Inr c' \<Rightarrow> c')"

definition relation_step :: "(string \<Rightarrow> string set) \<Rightarrow> contact_event \<Rightarrow> string \<Rightarrow> string set" where
  "relation_step m ev = (case ev of (clk, a, op) \<Rightarrow>
     if is_address a then (case spec_op op (m a) of None \<Rightarrow> m | Some S \<Rightarrow> m(a := S)) else m)"

text \<open>Every record sits under its own valid address, and has no flag twice.\<close>

definition contacts_ok :: "contacts \<Rightarrow> bool" where
  "contacts_ok c \<longleftrightarrow> bt_wf c \<and> (\<forall>a r. map_of c a = Some r \<longrightarrow>
     is_address a \<and> cn_address r = a \<and> distinct (cn_states r))"

lemma on_entry_ok:
  assumes "contacts_ok c" "on_entry c a f = Inr c'"
    and "\<And>r. cn_address (f r) = cn_address r" "\<And>r. distinct (cn_states r) \<Longrightarrow> distinct (cn_states (f r))"
  shows "contacts_ok c'"
proof -
  obtain r where r: "is_address a" "r = (case map_of c a of None \<Rightarrow> contact_default a | Some r \<Rightarrow> r)"
    "c' = bt_insert a (f r) c"
    using assms(2) by (auto simp: on_entry_def and_then_ok entry_states)
  then have "cn_address r = a \<and> distinct (cn_states r)"
    using assms(1) by (auto simp: contacts_ok_def contact_default_def split: option.splits)
  then show ?thesis
    using r assms(1,3,4) by (auto simp: contacts_ok_def bt_wf_insert)
qed

lemma set_flag_distinct [simp]: "distinct (cn_states r) \<Longrightarrow> distinct (cn_states (set_flag f on now r))"
  by (auto simp: set_flag_def)

lemma set_flag_address [simp]: "cn_address (set_flag f on now r) = cn_address r"
  by (simp add: set_flag_def)

lemmas contact_op_defs = request_sent_def accept_contact_def reject_contact_def response_received_def
  remove_contact_def block_contact_def unblock_contact_def set_muted_def set_trusted_def
  set_following_def set_names_def

lemma contact_step_ok:
  assumes ok: "contacts_ok c"
  shows "contacts_ok (contact_step c ev)"
proof (cases ev)
  case (fields clk a op)
  have "contacts_ok c'" if r: "run_op clk a op c = Inr c'" for c'
  proof (cases op)
    case (OpRequestReceived u d)
    then consider "c' = c" | f where "on_entry c a f = Inr c'"
        "\<And>r. cn_address (f r) = cn_address r" "\<And>r. distinct (cn_states r) \<Longrightarrow> distinct (cn_states (f r))"
      using r that by (auto simp: request_received_def and_then_ok Let_def map_sum_def
          split: if_splits sum.splits)
    then show ?thesis using ok on_entry_ok [OF ok] by cases blast+
  qed (use r in \<open>auto simp: contact_op_defs Let_def split: if_splits intro!: on_entry_ok [OF ok]\<close>)
  then show ?thesis using ok fields by (auto simp: contact_step_def split: sum.splits)
qed

lemma on_entry_no_address: "\<not> is_address a \<Longrightarrow> \<exists>err. on_entry c a f = Inl err"
  by (simp add: on_entry_def contact_entry_def require_address_def)

lemma run_op_no_address:
  assumes "\<not> is_address a" "run_op clk a op c = Inr c'"
  shows "c' = c"
proof (cases op)
  case (OpRequestReceived u d)
  then show ?thesis using assms(2)
    by (auto simp: request_received_def on_entry_def contact_entry_def require_address_def assms(1)
        split: if_splits)
qed (use assms in \<open>auto simp: contact_op_defs on_entry_def contact_entry_def require_address_def
    split: if_splits\<close>)

lemma contact_step_refines: "flags_of (contact_step c ev) = relation_step (flags_of c) ev"
proof (cases ev)
  case (fields clk a op)
  show ?thesis
  proof (cases "is_address a")
    case True
    then show ?thesis
      using run_op_refines [OF True, where op = op and c = c and clk = clk] fields
      by (auto simp: contact_step_def relation_step_def split: option.splits)
  next
    case False
    then show ?thesis
      using run_op_no_address [OF False, where clk = clk and op = op and c = c] fields
      by (auto simp: contact_step_def relation_step_def split: sum.splits)
  qed
qed

interpretation book: refinement contact_step contacts_ok relation_step flags_of
  by unfold_locales (simp_all add: contact_step_ok contact_step_refines)

lemma contacts_ok_Nil [simp]: "contacts_ok []"
  by (simp add: contacts_ok_def)

lemma flags_of_Nil [simp]: "flags_of [] = (\<lambda>_. {})"
  by (simp add: flags_of_def fun_eq_iff)

lemma spec_op_trusted:
  "spec_op op S = Some T \<Longrightarrow> TRUSTED \<in> S \<longrightarrow> FRIEND \<in> S \<Longrightarrow> TRUSTED \<in> T \<longrightarrow> FRIEND \<in> T"
  by (cases op) (auto simp: put_if_def split: if_splits)

definition trust_ok :: "(string \<Rightarrow> string set) \<Rightarrow> bool" where
  "trust_ok m \<longleftrightarrow> (\<forall>a. TRUSTED \<in> m a \<longrightarrow> FRIEND \<in> m a)"

lemma relation_step_trust:
  assumes "trust_ok m"
  shows "trust_ok (relation_step m ev)"
proof (cases ev)
  case (fields clk a op)
  show ?thesis
  proof (cases "is_address a")
    case True
    show ?thesis
    proof (cases "spec_op op (m a)")
      case None
      then show ?thesis using assms fields True by (simp add: relation_step_def)
    next
      case (Some S)
      have "TRUSTED \<in> S \<longrightarrow> FRIEND \<in> S"
        using spec_op_trusted [OF Some] assms by (simp add: trust_ok_def)
      then show ?thesis using assms fields True Some by (simp add: relation_step_def trust_ok_def)
    qed
  qed (use assms fields in \<open>simp add: relation_step_def\<close>)
qed

section \<open>Merging snapshots\<close>

definition newer_wins :: "contact \<Rightarrow> (string \<Rightarrow> contact option) \<Rightarrow> string \<Rightarrow> contact option" where
  "newer_wins r m =
     (if is_address (cn_address r) \<and> (case m (cn_address r) of None \<Rightarrow> True
          | Some old \<Rightarrow> cn_updated_at_ms r > cn_updated_at_ms old)
      then m(cn_address r \<mapsto> r) else m)"

lemma map_of_merge_contact: "map_of (merge_contact r c) = newer_wins r (map_of c)"
  by (auto simp: merge_contact_def newer_wins_def)

lemma bt_wf_merge_contact: "bt_wf c \<Longrightarrow> bt_wf (merge_contact r c)"
  by (simp add: merge_contact_def bt_wf_insert)

lemma merge_contacts_fold:
  "map_of (foldl (\<lambda>c r. merge_contact r c) c rs) = fold newer_wins rs (map_of c)"
  by (induction rs arbitrary: c) (simp_all add: map_of_merge_contact)

lemma bt_wf_merge_contacts: "bt_wf c \<Longrightarrow> bt_wf (foldl (\<lambda>c r. merge_contact r c) c rs)"
  by (induction rs arbitrary: c) (simp_all add: bt_wf_merge_contact)

text \<open>No two versions of a record carry the same time.\<close>

definition tie_free :: "contact list \<Rightarrow> bool" where
  "tie_free rs \<longleftrightarrow> (\<forall>r \<in> set rs. \<forall>s \<in> set rs.
     cn_address r = cn_address s \<longrightarrow> cn_updated_at_ms r = cn_updated_at_ms s \<longrightarrow> r = s)"

lemma newer_wins_commute:
  assumes "cn_address r = cn_address s \<longrightarrow> cn_updated_at_ms r = cn_updated_at_ms s \<longrightarrow> r = s"
  shows "newer_wins r (newer_wins s m) = newer_wins s (newer_wins r m)"
proof (cases "cn_address r = cn_address s")
  case True
  show ?thesis
  proof (cases "cn_updated_at_ms r = cn_updated_at_ms s")
    case True
    with \<open>cn_address r = cn_address s\<close> have "r = s" using assms by blast
    then show ?thesis by simp
  next
    case False
    then have o: "cn_updated_at_ms r < cn_updated_at_ms s \<or> cn_updated_at_ms s < cn_updated_at_ms r" by auto
    show ?thesis
      using True o by (cases "m (cn_address s)") (auto simp: newer_wins_def)
  qed
next
  case False
  then show ?thesis by (auto simp: newer_wins_def fun_upd_twist split: option.splits)
qed

lemma newer_wins_perm:
  assumes "tie_free rs" "mset ss = mset rs"
  shows "fold newer_wins rs = fold newer_wins ss"
proof (rule fold_multiset_equiv)
  fix r s assume "r \<in> set rs" "s \<in> set rs"
  then show "newer_wins r \<circ> newer_wins s = newer_wins s \<circ> newer_wins r"
    using assms(1) newer_wins_commute [of r s] by (simp add: tie_free_def fun_eq_iff)
qed (use assms(2) in simp)

section \<open>The properties\<close>


text \<open>
  How a stranger becomes a contact: exactly by the user accepting a request that is pending,
  by a request from someone the user has asked and not blocked, or by an accepting response;
  the last needs no request of the user's, and works even for a blocked address.
\<close>

theorem contact_added_iff:
  assumes "is_address a" "FRIEND \<notin> flags_of c a"
  shows "FRIEND \<in> flags_of (contact_step c (clk, a, op)) a \<longleftrightarrow>
     op = OpAccept \<and> PENDING_IN \<in> flags_of c a
     \<or> (\<exists>u d. op = OpRequestReceived u d \<and> PENDING_OUT \<in> flags_of c a \<and> BLOCKED \<notin> flags_of c a)
     \<or> op = OpResponse True"
  using assms
  by (cases op) (auto simp: contact_step_refines relation_step_def put_if_def split: option.splits)

text \<open>
  A block lasts until it is lifted: whatever requests, responses and local actions follow,
  short of unblocking, a blocked address stays blocked.
\<close>

theorem block_is_sticky:
  assumes "contacts_ok c" "BLOCKED \<in> flags_of c a" "\<forall>clk. (clk, a, OpUnblock) \<notin> set evs"
  shows "BLOCKED \<in> flags_of (foldl contact_step c evs) a"
proof -
  have "BLOCKED \<in> foldl relation_step m evs a" if "BLOCKED \<in> m a" for m
    using that assms(3)
  proof (induction evs arbitrary: m)
    case (Cons ev evs)
    have "BLOCKED \<in> relation_step m ev a"
    proof (cases ev)
      case (fields clk b op)
      then have "b = a \<Longrightarrow> op \<noteq> OpUnblock" using Cons.prems(2) by auto
      then show ?thesis using fields Cons.prems(1)
        by (cases op) (auto simp: relation_step_def put_if_def split: option.splits if_splits)
    qed
    then show ?case using Cons by simp
  qed simp
  then show ?thesis using book.run_refines [OF assms(1)] assms(2) by simp
qed

text \<open>
  The user's devices converge: when no two versions of a record carry the same time, the
  order in which snapshots arrive, and how their records are interleaved, makes no difference.
\<close>

theorem snapshots_converge:
  assumes "bt_wf c" "tie_free (sn_contacts s @ sn_contacts t)"
  shows "merge_snapshot t (merge_snapshot s c) = merge_snapshot s (merge_snapshot t c)"
proof (rule bt_wf_ext)
  show "bt_wf (merge_snapshot t (merge_snapshot s c))" "bt_wf (merge_snapshot s (merge_snapshot t c))"
    using assms(1) by (simp_all add: merge_snapshot_def bt_wf_merge_contacts)
  have "fold newer_wins (sn_contacts s @ sn_contacts t) = fold newer_wins (sn_contacts t @ sn_contacts s)"
    by (rule newer_wins_perm [OF assms(2)]) simp
  then have "fold newer_wins (sn_contacts s @ sn_contacts t) (map_of c)
      = fold newer_wins (sn_contacts t @ sn_contacts s) (map_of c)" by simp
  then show "map_of (merge_snapshot t (merge_snapshot s c)) = map_of (merge_snapshot s (merge_snapshot t c))"
    by (simp add: merge_snapshot_def merge_contacts_fold)
qed

section \<open>Concrete books\<close>

definition wit_contact :: string where
  "wit_contact = ''hash1'' @ replicate 34 (CHR ''q'')"

lemma wit_contact_address: "is_address wit_contact"
  by (simp add: is_address_def wit_contact_def numeral_eq_Suc)

theorem contact_added_iff_witness:
  "FRIEND \<in> flags_of (contact_step [] ((\<lambda>_. 7), wit_contact, OpResponse True)) wit_contact"
  by (subst contact_added_iff [OF wit_contact_address]) simp_all

definition wit_book :: contacts where
  "wit_book = [(wit_contact, (contact_default wit_contact)\<lparr>cn_states := [BLOCKED]\<rparr>)]"

lemma wit_book_ok: "contacts_ok wit_book"
  by (simp add: contacts_ok_def wit_book_def bt_wf_def wit_contact_address contact_default_def)

theorem block_is_sticky_witness:
  "BLOCKED \<in> flags_of (foldl contact_step wit_book [((\<lambda>_. 7), wit_contact, OpResponse True)]) wit_contact"
  by (rule block_is_sticky [OF wit_book_ok]) (simp_all add: flags_of_def wit_book_def)

theorem snapshots_converge_witness:
  "merge_snapshot \<lparr>sn_contacts = [(contact_default wit_contact)\<lparr>cn_updated_at_ms := 2\<rparr>], sn_at_ms = 1\<rparr>
     (merge_snapshot \<lparr>sn_contacts = [contact_default wit_contact], sn_at_ms = 1\<rparr> [])
   = merge_snapshot \<lparr>sn_contacts = [contact_default wit_contact], sn_at_ms = 1\<rparr>
     (merge_snapshot \<lparr>sn_contacts = [(contact_default wit_contact)\<lparr>cn_updated_at_ms := 2\<rparr>], sn_at_ms = 1\<rparr> [])"
  by (rule snapshots_converge) (simp_all add: tie_free_def contact_default_def)

end
