(* ===== verification/Spam.thy ===== *)
theory Spam
  imports Mail People
begin

text \<open>
  The local spam policy of HashMail: \<open>hashgram-app/src/spam.rs\<close>, and \<open>sender_facts\<close> of
  \<open>people.rs\<close>, which feeds it. Postage stamps, the sliding window of first contacts, the trust
  score and the decision where an arriving message is filed. BLAKE3 is the argument \<open>blake3\<close>.
\<close>

section \<open>Postage\<close>

definition POSTAGE_LABEL_PREFIX :: string where "POSTAGE_LABEL_PREFIX = ''postage:''"
definition POSTAGE_BITS :: nat where "POSTAGE_BITS = 20"
definition POSTAGE_MAX_ITERS :: u64 where "POSTAGE_MAX_ITERS = 2 ^ 24"
definition POSTAGE_DOMAIN :: bytes where "POSTAGE_DOMAIN = str_bytes ''hashgram-mail-postage-v1''"

definition u32_le :: "u32 \<Rightarrow> bytes" where
  "u32_le w = rev (u32_be w)"

definition postage_preimage :: "string \<Rightarrow> bytes \<Rightarrow> u64 \<Rightarrow> bytes" where
  "postage_preimage recipient message_id stamp =
     POSTAGE_DOMAIN @ u32_le (word_of_nat (length recipient)) @ str_bytes recipient
       @ u32_le (word_of_nat (length message_id)) @ message_id @ u64_le stamp"

definition postage_digest :: "(bytes \<Rightarrow> bytes) \<Rightarrow> string \<Rightarrow> bytes \<Rightarrow> u64 \<Rightarrow> bytes" where
  "postage_digest blake3 recipient message_id stamp =
     blake3 (postage_preimage recipient message_id stamp)"

text \<open>\<open>leading_zeros\<close> of one byte: how many of its bits, highest first, are clear before a set one.\<close>

definition byte_leading_zeros :: "byte \<Rightarrow> nat" where
  "byte_leading_zeros b = length (takeWhile (\<lambda>k. \<not> bit b k) (rev [0..<8]))"

fun leading_zero_bits :: "bytes \<Rightarrow> nat" where
  "leading_zero_bits [] = 0"
| "leading_zero_bits (b # bs) = (if b = 0 then 8 + leading_zero_bits bs else byte_leading_zeros b)"

text \<open>The loop over the nonces; the budget is the number of attempts left.\<close>

fun mint_loop :: "(u64 \<Rightarrow> bool) \<Rightarrow> nat \<Rightarrow> u64 \<Rightarrow> u64 option" where
  "mint_loop good 0 stamp = None"
| "mint_loop good (Suc n) stamp = (if good stamp then Some stamp else mint_loop good n (stamp + 1))"

text \<open>\<open>nanos\<close> is the time since the epoch in nanoseconds, \<open>None\<close> when the clock is before it.\<close>

definition start_nonce :: "(bytes \<Rightarrow> bytes) \<Rightarrow> 128 word option \<Rightarrow> bytes \<Rightarrow> u64" where
  "start_nonce blake3 nanos message_id =
     word_of_nat (nat_of_be (rev (take 8 (blake3 (message_id
       @ (case nanos of None \<Rightarrow> replicate 16 0 | Some n \<Rightarrow> rev (be_nat 16 (unat n))))))))"

definition mint_postage ::
    "(bytes \<Rightarrow> bytes) \<Rightarrow> 128 word option \<Rightarrow> string \<Rightarrow> bytes \<Rightarrow> nat \<Rightarrow> u64 \<Rightarrow> string option" where
  "mint_postage blake3 nanos recipient message_id bits max_iters =
     map_option (\<lambda>stamp. POSTAGE_LABEL_PREFIX @ hex16 stamp)
       (mint_loop (\<lambda>stamp. leading_zero_bits (postage_digest blake3 recipient message_id stamp) \<ge> bits)
          (unat max_iters) (start_nonce blake3 nanos message_id))"

definition stamp_nonces :: "mail_message \<Rightarrow> u64 list" where
  "stamp_nonces m = List.map_filter parse_hex_u64
     (List.map_filter (strip_prefix POSTAGE_LABEL_PREFIX) (mm_labels m))"

definition postage_bits :: "(bytes \<Rightarrow> bytes) \<Rightarrow> mail_message \<Rightarrow> string \<Rightarrow> nat" where
  "postage_bits blake3 m recipient =
     foldr max (map (\<lambda>stamp. leading_zero_bits (postage_digest blake3 recipient (mm_message_id m) stamp))
       (stamp_nonces m)) 0"

section \<open>Facts and the rate window\<close>

datatype disposition = Inbox | Requests | Spam | Drop

record sender_facts =
  sf_is_contact :: bool
  sf_is_trusted :: bool
  sf_is_blocked :: bool
  sf_is_muted :: bool
  sf_previously_written_to :: bool
  sf_has_username :: bool
  sf_username_age_days :: "u32 option"
  sf_prior_messages :: u32
  sf_postage_bits :: nat

definition facts_default :: sender_facts where
  "facts_default = \<lparr>sf_is_contact = False, sf_is_trusted = False, sf_is_blocked = False,
     sf_is_muted = False, sf_previously_written_to = False, sf_has_username = False,
     sf_username_age_days = None, sf_prior_messages = 0, sf_postage_bits = 0\<rparr>"

definition sender_facts_of :: "contacts \<Rightarrow> string \<Rightarrow> sender_facts" where
  "sender_facts_of c a = facts_default
     \<lparr>sf_is_contact := has_flag c a FRIEND, sf_is_trusted := has_flag c a TRUSTED,
      sf_is_blocked := has_flag c a BLOCKED, sf_is_muted := has_flag c a MUTED,
      sf_has_username := (case map_of c a of None \<Rightarrow> False | Some r \<Rightarrow> cn_username r \<noteq> [])\<rparr>"

definition MAX_UNKNOWN_PER_HOUR :: nat where "MAX_UNKNOWN_PER_HOUR = 30"
definition MAX_PER_SENDER_PER_HOUR :: nat where "MAX_PER_SENDER_PER_HOUR = 5"
definition REQUESTS_THRESHOLD :: int where "REQUESTS_THRESHOLD = - 20"

type_synonym rate_window = "(string \<times> u64) list"

definition in_hour :: "u64 \<Rightarrow> string \<times> u64 \<Rightarrow> bool" where
  "in_hour now p \<longleftrightarrow> sat_sub now (snd p) < 3600"

definition record_arrival :: "string \<Rightarrow> u64 \<Rightarrow> rate_window \<Rightarrow> (bool \<times> bool) \<times> rate_window" where
  "record_arrival sender now w =
     (let a = push_bounded 4096 (filter (in_hour now) w) (sender, now) in
      ((\<not> length (remdups (map fst a)) \<le> MAX_UNKNOWN_PER_HOUR,
        \<not> length (filter (\<lambda>p. fst p = sender) a) \<le> MAX_PER_SENDER_PER_HOUR), a))"

section \<open>The trust score\<close>

definition auth_points :: "string \<Rightarrow> int" where
  "auth_points result =
     (let r = ascii_lowercase result in
      if r = ''dkim=pass'' \<or> r = ''spf=pass'' then 8
      else if r = ''dmarc=pass'' then 10
      else if ends_with ''=fail'' r then - 20 else 0)"

definition username_points :: "sender_facts \<Rightarrow> int" where
  "username_points f =
     (if sf_has_username f
      then 15 + (case sf_username_age_days f of
          Some d \<Rightarrow> if d \<ge> 180 then 15 else if d \<ge> 30 then 8 else 2
        | None \<Rightarrow> 0)
      else - 10)"

definition postage_points :: "sender_facts \<Rightarrow> int" where
  "postage_points f =
     (if sf_postage_bits f \<ge> POSTAGE_BITS then 30
      else if sf_postage_bits f \<ge> POSTAGE_BITS - 4 then 12 else 0)"

definition shape_points :: "mail_message \<Rightarrow> int" where
  "shape_points m =
     (let recipients = length (mm_to m) + length (mm_cc m) in
      (if recipients > 20 \<and> mm_in_reply_to m = [] then - 25
       else if recipients > 5 \<and> mm_in_reply_to m = [] then - 8 else 0)
      + (if mm_in_reply_to m \<noteq> [] then 10 else 0)
      + (if mm_subject m = [] \<and> length (mm_body_text m) < 20 then - 5 else 0))"

definition gateway_points :: "mail_message \<Rightarrow> int" where
  "gateway_points m =
     (if mm_origin m = ORIGIN_EXTERNAL_GATEWAY
      then - 15 + (case mm_external m of
          Some e \<Rightarrow> sum_list (map auth_points (ex_auth_results e))
            + (if ex_spam_score e > 700 then - 40 else if ex_spam_score e > 400 then - 15 else 0)
        | None \<Rightarrow> 0)
      else 0)"

definition trust_score :: "sender_facts \<Rightarrow> mail_message \<Rightarrow> int" where
  "trust_score f m = max (- 100) (min 100
     ((if sf_previously_written_to f then 40 else 0) + username_points f
      + int (min (unat (sf_prior_messages f)) 10) * 3 + postage_points f + shape_points m
      + gateway_points m))"

section \<open>Where a message goes\<close>

definition mail_sender :: "mail_message \<Rightarrow> string" where
  "mail_sender m = (case mm_from m of None \<Rightarrow> [] | Some a \<Rightarrow> ma_address a)"

definition dispose ::
    "sender_facts \<Rightarrow> mail_message \<Rightarrow> u64 \<Rightarrow> rate_window \<Rightarrow> disposition \<times> rate_window" where
  "dispose f m now w =
     (if sf_is_blocked f then (Drop, w)
      else if sf_is_trusted f \<or> sf_is_contact f then (Inbox, w)
      else if sf_previously_written_to f \<and> \<not> sf_is_muted f then (Inbox, w)
      else
        let ((network_exceeded, sender_exceeded), w') = record_arrival (mail_sender m) now w;
            score = trust_score f m
        in if sender_exceeded then (Spam, w')
           else if network_exceeded \<and> score < 30 then (Spam, w')
           else if score \<ge> REQUESTS_THRESHOLD then (Requests, w')
           else (Spam, w'))"

section \<open>The policy\<close>

text \<open>Mail that needs no decision: blocked, or from somebody the user knows.\<close>

definition known_sender :: "sender_facts \<Rightarrow> bool" where
  "known_sender f \<longleftrightarrow> sf_is_trusted f \<or> sf_is_contact f
     \<or> (sf_previously_written_to f \<and> \<not> sf_is_muted f)"

lemma dispose_blocked: "sf_is_blocked f \<Longrightarrow> dispose f m now w = (Drop, w)"
  by (simp add: dispose_def)

lemma dispose_known: "\<not> sf_is_blocked f \<Longrightarrow> known_sender f \<Longrightarrow> dispose f m now w = (Inbox, w)"
  by (auto simp: dispose_def known_sender_def)

lemma dispose_unknown:
  assumes "\<not> sf_is_blocked f" "\<not> known_sender f"
  shows "dispose f m now w =
    (if snd (fst (record_arrival (mail_sender m) now w)) then Spam
     else if fst (fst (record_arrival (mail_sender m) now w)) \<and> trust_score f m < 30 then Spam
     else if trust_score f m \<ge> REQUESTS_THRESHOLD then Requests else Spam,
     snd (record_arrival (mail_sender m) now w))"
  using assms
  by (cases "record_arrival (mail_sender m) now w"; cases "fst (record_arrival (mail_sender m) now w)")
    (simp add: dispose_def known_sender_def Let_def)

text \<open>
  Only the user's own decisions open the inbox: a message is dropped exactly when its sender
  is blocked, and is filed to the inbox exactly when the sender is not blocked and is a contact,
  is trusted, or was written to and is not muted; nothing in the message can change that. Only
  the other messages are counted in the rate window.
\<close>
theorem inbox_needs_a_decision:
  "(fst (dispose f m now w) = Drop \<longleftrightarrow> sf_is_blocked f)
   \<and> (fst (dispose f m now w) = Inbox \<longleftrightarrow> \<not> sf_is_blocked f \<and> known_sender f)
   \<and> snd (dispose f m now w) = (if sf_is_blocked f \<or> known_sender f then w
        else snd (record_arrival (mail_sender m) now w))"
  by (cases "sf_is_blocked f"; cases "known_sender f")
    (simp_all add: dispose_blocked dispose_known dispose_unknown)

text \<open>
  The policy and the contact book compose: after an address was blocked, and whatever it and
  others send and the user does short of unblocking it, its mail is dropped whatever it carries,
  and leaves no trace in the rate window.
\<close>
theorem blocked_mail_dropped:
  assumes "contacts_ok c" "BLOCKED \<in> flags_of c a" "\<forall>clk. (clk, a, OpUnblock) \<notin> set evs"
  shows "dispose ((sender_facts_of (foldl contact_step c evs) a)
           \<lparr>sf_previously_written_to := p, sf_has_username := u, sf_prior_messages := n,
            sf_postage_bits := b\<rparr>) m now w = (Drop, w)"
  using block_is_sticky [OF assms]
  by (intro dispose_blocked) (simp add: sender_facts_of_def has_flag_iff)

section \<open>Rates\<close>

lemma length_record_arrival: "length (snd (record_arrival s now w)) \<le> Suc (length w)"
proof -
  have "length (push_bounded 4096 (filter (in_hour now) w) (s, now)) \<le> Suc (length (filter (in_hour now) w))"
    by (simp add: push_bounded_evict evict_oldest_drop)
  also have "\<dots> \<le> Suc (length w)" by simp
  finally show ?thesis by (simp add: record_arrival_def Let_def)
qed

definition within :: "u64 \<Rightarrow> u64 \<Rightarrow> bool" where
  "within t0 t \<longleftrightarrow> t0 \<le> t \<and> unat t < unat t0 + 3600"

definition recent_from :: "u64 \<Rightarrow> string \<Rightarrow> rate_window \<Rightarrow> nat" where
  "recent_from t0 a w = length (filter (\<lambda>p. fst p = a \<and> within t0 (snd p)) w)"

lemma within_in_hour: "within t0 now \<Longrightarrow> within t0 t \<Longrightarrow> in_hour now (s, t)"
proof -
  assume "within t0 now" "within t0 t"
  then have "unat now - unat t < 3600" by (auto simp: within_def word_le_nat_alt)
  then have "unat (sat_sub now t) < 3600" by (simp add: unat_sat_sub)
  then show ?thesis by (simp add: in_hour_def word_less_nat_alt)
qed

lemma recent_record:
  assumes "length w < 4096" "within t0 now"
  shows "recent_from t0 a (snd (record_arrival s now w)) = recent_from t0 a w + (if s = a then 1 else 0)"
proof -
  have "length (filter (in_hour now) w) < 4096"
    using assms(1) length_filter_le [of "in_hour now" w] by linarith
  then have r: "snd (record_arrival s now w) = filter (in_hour now) w @ [(s, now)]"
    by (simp add: record_arrival_def Let_def push_bounded_room)
  have "filter (\<lambda>p. fst p = a \<and> within t0 (snd p)) (filter (in_hour now) w)
      = filter (\<lambda>p. fst p = a \<and> within t0 (snd p)) w"
    using within_in_hour [OF assms(2)] by (auto simp: filter_filter intro!: filter_cong)
  then show ?thesis using assms(2) by (simp add: r recent_from_def)
qed

lemma recent_le: "recent_from t0 a w \<le> length (filter (\<lambda>p. fst p = a) w)"
  unfolding recent_from_def by (induction w) auto

lemma request_within_rate:
  assumes "fst (dispose f m now w) = Requests"
  shows "\<not> sf_is_blocked f" "\<not> known_sender f"
    "length (filter (\<lambda>p. fst p = mail_sender m) (snd (dispose f m now w))) \<le> MAX_PER_SENDER_PER_HOUR"
proof -
  show u: "\<not> sf_is_blocked f" "\<not> known_sender f"
    using assms dispose_blocked dispose_known by fastforce+
  have "\<not> snd (fst (record_arrival (mail_sender m) now w))"
    using assms dispose_unknown [OF u, of m now w] by (auto split: if_splits)
  then show "length (filter (\<lambda>p. fst p = mail_sender m) (snd (dispose f m now w))) \<le> MAX_PER_SENDER_PER_HOUR"
    using dispose_unknown [OF u, of m now w] by (simp add: record_arrival_def Let_def)
qed

text \<open>Arrivals in order: what the policy decided of each.\<close>

type_synonym arrival = "sender_facts \<times> mail_message \<times> u64"

fun dispose_all :: "rate_window \<Rightarrow> arrival list \<Rightarrow> (arrival \<times> disposition) list" where
  "dispose_all w [] = []"
| "dispose_all w ((f, m, now) # es) =
     ((f, m, now), fst (dispose f m now w)) # dispose_all (snd (dispose f m now w)) es"

definition requests_from :: "string \<Rightarrow> (arrival \<times> disposition) list \<Rightarrow> nat" where
  "requests_from a ds = length (filter (\<lambda>((f, m, now), d). mail_sender m = a \<and> d = Requests) ds)"

lemma rate_run:
  assumes "\<forall>e \<in> set es. within t0 (snd (snd e))" "length w + length es \<le> 4096"
  shows "requests_from a (dispose_all w es) \<le> MAX_PER_SENDER_PER_HOUR - recent_from t0 a w"
  using assms
proof (induction es arbitrary: w)
  case Nil
  then show ?case by (simp add: requests_from_def)
next
  case (Cons e es)
  obtain f m now where e: "e = (f, m, now)" by (cases e)
  let ?w = "snd (dispose f m now w)"
  have t: "within t0 now" and l: "length w < 4096" using Cons.prems e by auto
  have rec: "?w = (if sf_is_blocked f \<or> known_sender f then w
      else snd (record_arrival (mail_sender m) now w))"
    by (cases "sf_is_blocked f"; cases "known_sender f")
      (simp_all add: dispose_blocked dispose_known dispose_unknown)
  have "length ?w \<le> Suc (length w)"
    using rec length_record_arrival [of "mail_sender m" now w] by auto
  then have IH: "requests_from a (dispose_all ?w es) \<le> MAX_PER_SENDER_PER_HOUR - recent_from t0 a ?w"
    using Cons by simp
  have more: "recent_from t0 a w \<le> recent_from t0 a ?w"
    using rec recent_record [OF l t, of a "mail_sender m"] by simp
  show ?case
  proof (cases "mail_sender m = a \<and> fst (dispose f m now w) = Requests")
    case True
    then have "\<not> sf_is_blocked f" "\<not> known_sender f"
      and c: "length (filter (\<lambda>p. fst p = a) ?w) \<le> MAX_PER_SENDER_PER_HOUR"
      using request_within_rate by blast+
    then have "recent_from t0 a ?w = Suc (recent_from t0 a w)"
      using rec recent_record [OF l t, of a "mail_sender m"] True by simp
    moreover have "recent_from t0 a ?w \<le> MAX_PER_SENDER_PER_HOUR"
      using c recent_le order_trans by blast
    ultimately show ?thesis using IH True e by (simp add: requests_from_def)
  next
    case False
    then show ?thesis using IH more e by (auto simp: requests_from_def)
  qed
qed


section \<open>Stamps\<close>

lemma mint_loop_Some: "mint_loop good n k = Some v \<Longrightarrow> good v"
  by (induction good n k rule: mint_loop.induct) (auto split: if_splits)

lemma mint_loop_None: "mint_loop good n k = None \<longleftrightarrow> (\<forall>i < n. \<not> good (k + word_of_nat i))"
proof (induction good n k rule: mint_loop.induct)
  case (1 good k)
  then show ?case by simp
next
  case (2 good n k)
  have "(\<forall>i < Suc n. \<not> good (k + word_of_nat i)) \<longleftrightarrow>
      \<not> good k \<and> (\<forall>i < n. \<not> good (k + 1 + word_of_nat i))"
    by (simp add: All_less_Suc2 add.assoc del: All_less_Suc)
  then show ?case using 2 by simp
qed

lemma foldr_max_ge: "x \<in> set xs \<Longrightarrow> x \<le> foldr max xs (0 :: nat)"
  by (induction xs) auto

lemma stamp_read:
  "POSTAGE_LABEL_PREFIX @ hex16 v \<in> set (mm_labels m) \<Longrightarrow> v \<in> set (stamp_nonces m)"
  unfolding stamp_nonces_def
  by (force simp: List.map_filter_def parse_hex16 strip_prefix_append image_iff)

text \<open>
  A minted stamp counts: any message with that identity that carries the label shows its
  recipient at least the bits it was minted for. Minting fails only when every nonce within the
  budget falls short.
\<close>
theorem minted_postage_counts:
  "case mint_postage blake3 nanos recipient i bits max_iters of
     Some label \<Rightarrow> \<forall>m. label \<in> set (mm_labels m) \<and> mm_message_id m = i
       \<longrightarrow> bits \<le> postage_bits blake3 m recipient
   | None \<Rightarrow> \<forall>k < unat max_iters. leading_zero_bits (postage_digest blake3 recipient i
       (start_nonce blake3 nanos i + word_of_nat k)) < bits"
proof (cases "mint_loop (\<lambda>n. bits \<le> leading_zero_bits (postage_digest blake3 recipient i n))
    (unat max_iters) (start_nonce blake3 nanos i)")
  case None
  then have n: "mint_postage blake3 nanos recipient i bits max_iters = None"
    by (simp add: mint_postage_def)
  show ?thesis using None unfolding n option.case mint_loop_None not_le .
next
  case (Some v)
  have g: "bits \<le> leading_zero_bits (postage_digest blake3 recipient i v)"
    using mint_loop_Some [OF Some] .
  have "bits \<le> postage_bits blake3 m recipient"
    if "POSTAGE_LABEL_PREFIX @ hex16 v \<in> set (mm_labels m)" "mm_message_id m = i" for m
  proof -
    have "leading_zero_bits (postage_digest blake3 recipient i v) \<le> postage_bits blake3 m recipient"
      unfolding postage_bits_def using stamp_read [OF that(1)] that(2) by (intro foldr_max_ge) auto
    then show ?thesis using g by simp
  qed
  then show ?thesis using Some by (auto simp: mint_postage_def)
qed

lemma length_u32_le [simp]: "length (u32_le w) = 4"
  by (simp add: u32_le_def)

lemma u32_le_inj [simp]: "u32_le a = u32_le b \<longleftrightarrow> a = b"
  by (simp add: u32_le_def)

text \<open>
  A stamp is bound to its recipient and message: two stamps are the hash of the same bytes
  only when recipient, message identity and nonce are the same, so the work for one recipient
  buys nothing with another.
\<close>
theorem postage_bound_to_recipient:
  assumes "length r < 2 ^ 32" "length r' < 2 ^ 32" "length i < 2 ^ 32" "length i' < 2 ^ 32"
  shows "postage_preimage r i n = postage_preimage r' i' n' \<longleftrightarrow> r = r' \<and> i = i' \<and> n = n'"
proof
  assume h: "postage_preimage r i n = postage_preimage r' i' n'"
  have "(word_of_nat (length r) :: u32) = word_of_nat (length r')"
    "str_bytes r @ u32_le (word_of_nat (length i)) @ i @ u64_le n
     = str_bytes r' @ u32_le (word_of_nat (length i')) @ i' @ u64_le n'"
    using h by (simp_all add: postage_preimage_def)
  then have l: "length r = length r'" and h2: "str_bytes r = str_bytes r'"
    "u32_le (word_of_nat (length i)) @ i @ u64_le n = u32_le (word_of_nat (length i')) @ i' @ u64_le n'"
    using assms word_of_nat_inj_below [where 'a = 32, of "length r" "length r'"] by auto
  then have "(word_of_nat (length i) :: u32) = word_of_nat (length i')" "i @ u64_le n = i' @ u64_le n'"
    by simp_all
  then have "length i = length i'"
    using assms word_of_nat_inj_below [where 'a = 32, of "length i" "length i'"] by auto
  then show "r = r' \<and> i = i' \<and> n = n'"
    using h2(1) \<open>i @ u64_le n = i' @ u64_le n'\<close> by simp
qed simp

section \<open>Native mail from strangers\<close>

lemma native_score:
  assumes "mm_origin m \<noteq> ORIGIN_EXTERNAL_GATEWAY"
    "length (mm_to m) + length (mm_cc m) \<le> 5 \<or> mm_in_reply_to m \<noteq> []"
  shows "REQUESTS_THRESHOLD \<le> trust_score f m"
proof -
  have "- 10 \<le> username_points f" by (auto simp: username_points_def split: option.splits)
  moreover have "- 5 \<le> shape_points m" using assms(2) by (auto simp: shape_points_def Let_def)
  moreover have "0 \<le> postage_points f" by (simp add: postage_points_def)
  moreover have "gateway_points m = 0" using assms(1) by (simp add: gateway_points_def)
  ultimately show ?thesis by (simp add: trust_score_def REQUESTS_THRESHOLD_def)
qed

text \<open>
  A native message that is an answer or has at most five recipients is judged as spam for its
  rate only: within the rates it always reaches the user, whoever sent it.
\<close>
theorem native_mail_reaches_user:
  assumes "mm_origin m \<noteq> ORIGIN_EXTERNAL_GATEWAY"
    "length (mm_to m) + length (mm_cc m) \<le> 5 \<or> mm_in_reply_to m \<noteq> []"
    "fst (record_arrival (mail_sender m) now w) = (False, False)" "\<not> sf_is_blocked f"
  shows "fst (dispose f m now w) = (if known_sender f then Inbox else Requests)"
  using assms native_score [OF assms(1,2), of f]
  by (auto simp: dispose_known dispose_unknown)

text \<open>Bridged mail without any verdict, good or bad, falls below the threshold when the sender is
  a stranger without a username: the penalties for both add up.\<close>

lemma unverified_bridged_mail_is_spam:
  assumes "mm_origin m = ORIGIN_EXTERNAL_GATEWAY" "mm_external m = Some e" "ex_auth_results e = []"
    "ex_spam_score e = 0" "mm_in_reply_to m = []"
  shows "trust_score facts_default m < REQUESTS_THRESHOLD"
  using assms
  by (simp add: trust_score_def gateway_points_def username_points_def postage_points_def
      shape_points_def facts_default_def REQUESTS_THRESHOLD_def POSTAGE_BITS_def Let_def)

section \<open>The properties at concrete inputs\<close>

definition wit_stranger_mail :: mail_message where
  "wit_stranger_mail = base_message (\<lambda>_. 0) (replicate 16 7) (replicate 16 7, [], [])
     (draft_default\<lparr>dr_from := \<lparr>ma_address = wit_contact, ma_username = [], ma_display_name = []\<rparr>,
        dr_subject := ''Hello''\<rparr>)"

theorem blocked_mail_dropped_witness:
  "dispose ((sender_facts_of (foldl contact_step wit_book [((\<lambda>_. 7), wit_contact, OpResponse True)]) wit_contact)
     \<lparr>sf_previously_written_to := True, sf_has_username := True, sf_prior_messages := 9,
      sf_postage_bits := 30\<rparr>) wit_stranger_mail 0 [] = (Drop, [])"
  by (rule blocked_mail_dropped [OF wit_book_ok]) (simp_all add: flags_of_def wit_book_def)


theorem postage_bound_to_recipient_witness:
  "postage_preimage ''hash1q'' [1] 5 \<noteq> postage_preimage ''hash1p'' [1] 5"
  by (subst postage_bound_to_recipient) simp_all

theorem native_mail_reaches_user_witness:
  "fst (dispose facts_default wit_stranger_mail 100 []) = Requests"
proof -
  have r: "fst (record_arrival (mail_sender wit_stranger_mail) 100 []) = (False, False)"
    by (simp add: record_arrival_def Let_def push_bounded_def MAX_UNKNOWN_PER_HOUR_def
        MAX_PER_SENDER_PER_HOUR_def)
  have s: "mm_origin wit_stranger_mail \<noteq> ORIGIN_EXTERNAL_GATEWAY"
    "length (mm_to wit_stranger_mail) + length (mm_cc wit_stranger_mail) \<le> 5 \<or> mm_in_reply_to wit_stranger_mail \<noteq> []"
    "\<not> sf_is_blocked facts_default" "\<not> known_sender facts_default"
    by (simp_all add: wit_stranger_mail_def base_message_def draft_default_def ORIGIN_NATIVE_def
        ORIGIN_EXTERNAL_GATEWAY_def facts_default_def known_sender_def)
  show ?thesis using native_mail_reaches_user [OF s(1,2) r s(3)] s(4) by simp
qed

end
