(* ===== verification/Proto_Validate.thy ===== *)
theory Proto_Validate
  imports Rust_Str Blob
begin

text \<open>
  The wire objects of the peer-to-peer protocol and their structural validation:
  \<open>hashgram-proto/src/limits.rs\<close> and \<open>validate.rs\<close>. An integer field of an enumeration is
  the \<open>i32\<close> that arrived. The decoders of the typed payloads of social events are arguments.
\<close>

section \<open>Limits\<close>

definition MAX_ENVELOPE_CIPHERTEXT :: nat where "MAX_ENVELOPE_CIPHERTEXT = 256 * 1024"
definition MAX_ENVELOPE_RETENTION_SECS :: u64 where "MAX_ENVELOPE_RETENTION_SECS = 30 * 24 * 3600"
definition MAX_KEY_PACKAGE :: nat where "MAX_KEY_PACKAGE = 8 * 1024"
definition MAX_EVENT_PAYLOAD :: nat where "MAX_EVENT_PAYLOAD = 32 * 1024"
definition MAX_EVENT_MEDIA :: nat where "MAX_EVENT_MEDIA = 20"
definition MAX_TEXT_BYTES :: nat where "MAX_TEXT_BYTES = 10000"
definition MAX_TAG_BYTES :: nat where "MAX_TAG_BYTES = 64"
definition MAX_TAGS :: nat where "MAX_TAGS = 30"
definition MAX_STORY_SECS :: u64 where "MAX_STORY_SECS = 48 * 3600"
definition MAX_FUTURE_SKEW_SECS :: u64 where "MAX_FUTURE_SKEW_SECS = 300"
definition MAX_REQUEST_AGE_SECS :: u64 where "MAX_REQUEST_AGE_SECS = 300"
definition MAX_ANNOUNCE_ADDRS :: nat where "MAX_ANNOUNCE_ADDRS = 16"
definition MAX_ANNOUNCE_TTL_SECS :: u64 where "MAX_ANNOUNCE_TTL_SECS = 24 * 3600"
definition MAX_MULTIADDR_BYTES :: nat where "MAX_MULTIADDR_BYTES = 256"
definition MAX_MAILBOX_PAGE :: u32 where "MAX_MAILBOX_PAGE = 100"
definition TURN_SENTINEL_LIMIT :: u32 where "TURN_SENTINEL_LIMIT = - 1"
definition HASH_LEN :: nat where "HASH_LEN = 32"
definition SIG_LEN :: nat where "SIG_LEN = 64"
definition WIRE_VERSION :: u32 where "WIRE_VERSION = 1"

section \<open>Wire objects\<close>

record media_reference =
  mf_cid :: bytes
  mf_mime :: string
  mf_size :: u64
  mf_kind :: string
  mf_width :: u32
  mf_height :: u32
  mf_duration_ms :: u32
  mf_thumbnail_cid :: bytes
  mf_content_hash :: bytes

record social_event =
  so_network_id :: string
  so_version :: u32
  so_id :: bytes
  so_type :: string
  so_author :: string
  so_device_pubkey :: bytes
  so_timestamp :: u64
  so_sequence :: u64
  so_previous_event :: bytes
  so_payload :: bytes
  so_media :: "media_reference list"
  so_signature :: bytes

record profile_update =
  pu_display_name :: string
  pu_bio :: string
  pu_avatar_cid :: bytes
  pu_banner_cid :: bytes
  pu_website :: string
  pu_attributes :: "(string \<times> string) list"

record post_create =
  pk_text :: string
  pk_hashtags :: "string list"
  pk_mentions :: "string list"
  pk_channel :: bytes
  pk_reply_to :: bytes
  pk_sensitive :: bool
  pk_language :: string

record post_edit =
  pe_post :: bytes
  pe_text :: string
  pe_hashtags :: "string list"

record comment_create =
  cm_post :: bytes
  cm_text :: string
  cm_parent_comment :: bytes

record reaction =
  rx_target :: bytes
  rx_reaction :: string

record repost =
  rp_post :: bytes
  rp_comment :: string

record channel_create =
  cc_name :: string
  cc_description :: string
  cc_avatar_cid :: bytes
  cc_open_posting :: bool

record reel_create =
  re_caption :: string
  re_hashtags :: "string list"
  re_mentions :: "string list"
  re_video_index :: u32
  re_audio_credit :: string
  re_sensitive :: bool
  re_min_age :: u32
  re_language :: string
  re_allow_comments :: bool
  re_allow_remix :: bool

record story_create =
  st_caption :: string
  st_expires_at :: u64
  st_sensitive :: bool

text \<open>The decoders of the payload types; a message of one field decodes to that field.\<close>

record payload_decoders =
  pd_profile :: "bytes \<Rightarrow> string + profile_update"
  pd_follow :: "bytes \<Rightarrow> string + string"
  pd_unfollow :: "bytes \<Rightarrow> string + string"
  pd_post :: "bytes \<Rightarrow> string + post_create"
  pd_edit :: "bytes \<Rightarrow> string + post_edit"
  pd_delete :: "bytes \<Rightarrow> string + bytes"
  pd_comment :: "bytes \<Rightarrow> string + comment_create"
  pd_reaction :: "bytes \<Rightarrow> string + reaction"
  pd_repost :: "bytes \<Rightarrow> string + repost"
  pd_channel :: "bytes \<Rightarrow> string + channel_create"
  pd_reel :: "bytes \<Rightarrow> string + reel_create"
  pd_story :: "bytes \<Rightarrow> string + story_create"

record p2p_envelope =
  en_network_id :: string
  en_version :: u32
  en_id :: bytes
  en_mailbox :: bytes
  en_kind :: int
  en_ciphertext :: bytes
  en_created_at :: u64
  en_expires_at :: u64

record mailbox_fetch =
  fe_mailbox :: bytes
  fe_device_pubkey :: bytes
  fe_cursor :: bytes
  fe_limit :: u32
  fe_timestamp :: u64
  fe_signature :: bytes

record mailbox_ack =
  ak_mailbox :: bytes
  ak_device_pubkey :: bytes
  ak_envelope_ids :: "bytes list"
  ak_timestamp :: u64
  ak_signature :: bytes

record key_package_publish =
  kp_network_id :: string
  kp_device_pubkey :: bytes
  kp_key_package :: bytes
  kp_created_at :: u64
  kp_expires_at :: u64
  kp_signature :: bytes
  kp_last_resort :: bool

record turn_info =
  ti_uris :: "string list"
  ti_realm :: string
  ti_issues_credentials :: bool

record sfu_info =
  si_url :: string
  si_kind :: string

record node_announce =
  na_network_id :: string
  na_version :: u32
  na_node_pubkey :: bytes
  na_roles :: "string list"
  na_addrs :: "string list"
  na_operator_address :: string
  na_declared_storage_bytes :: u64
  na_timestamp :: u64
  na_expires_at :: u64
  na_turn :: "turn_info option"
  na_sfu :: "sfu_info option"
  na_signature :: bytes

record bootstrap_record =
  br_network_id :: string
  br_addrs :: "string list"
  br_issued_at :: u64
  br_expires_at :: u64
  br_signer_pubkey :: bytes
  br_signature :: bytes

record content_attestation =
  ca_network_id :: string
  ca_version :: u32
  ca_cid :: bytes
  ca_event_id :: bytes
  ca_content_hash :: bytes
  ca_verdict :: int
  ca_policy :: string
  ca_reason_code :: string
  ca_timestamp :: u64
  ca_attestor_pubkey :: bytes
  ca_signature :: bytes

record blob_put_manifest =
  bp_cid :: bytes
  bp_manifest :: "blob_manifest option"
  bp_uploader_pubkey :: bytes
  bp_timestamp :: u64
  bp_signature :: bytes

section \<open>Errors and field checks\<close>

datatype validation_error =
    VTooLarge string nat nat
  | VWrongLength string nat nat
  | VMissing string
  | VFutureTimestamp u64 u64
  | VStale u64 u64
  | VUnknownEventType string
  | VVersion string u32
  | VPayload string string
  | VRule string
  | VAddress string
  | VExpiry u64 u64 u64

type_synonym 'a vres = "validation_error + 'a"

definition v_bound :: "string \<Rightarrow> nat \<Rightarrow> nat \<Rightarrow> unit vres" where
  "v_bound field actual mx = (if actual > mx then Inl (VTooLarge field actual mx) else Inr ())"

definition v_exact :: "string \<Rightarrow> nat \<Rightarrow> nat \<Rightarrow> unit vres" where
  "v_exact field actual expected =
     (if actual \<noteq> expected then Inl (VWrongLength field actual expected) else Inr ())"

definition not_future :: "u64 \<Rightarrow> u64 \<Rightarrow> unit vres" where
  "not_future ts now =
     (if ts > sat_add now MAX_FUTURE_SKEW_SECS then Inl (VFutureTimestamp ts now) else Inr ())"

definition fresh :: "u64 \<Rightarrow> u64 \<Rightarrow> unit vres" where
  "fresh ts now = and_then (not_future ts now) (\<lambda>_.
     if sat_add ts MAX_REQUEST_AGE_SECS < now then Inl (VStale ts now) else Inr ())"

definition v_address :: "string \<Rightarrow> string \<Rightarrow> unit vres" where
  "v_address field s =
     (if starts_with ''hash1'' s \<and> 38 \<le> length s \<and> length s \<le> 90
         \<and> list_all (\<lambda>c. is_ascii_lower c \<or> is_ascii_digit c) s
      then Inr () else Inl (VAddress field))"

definition v_text :: "string \<Rightarrow> string \<Rightarrow> unit vres" where
  "v_text field s = v_bound field (length s) MAX_TEXT_BYTES"

definition v_tags :: "string \<Rightarrow> string list \<Rightarrow> unit vres" where
  "v_tags field items = first_err (v_bound field (length items) MAX_TAGS
     # concat (map (\<lambda>t. [v_bound field (length t) MAX_TAG_BYTES, require (t \<noteq> []) (VMissing field)]) items))"

definition v_opt_hash :: "string \<Rightarrow> bytes \<Rightarrow> unit vres" where
  "v_opt_hash field b = (if b = [] then Inr () else v_exact field (length b) HASH_LEN)"

definition v_hash :: "string \<Rightarrow> bytes \<Rightarrow> unit vres" where
  "v_hash field b = v_exact field (length b) HASH_LEN"

definition v_decode :: "string \<Rightarrow> string + 'm \<Rightarrow> ('m \<Rightarrow> unit vres) \<Rightarrow> unit vres" where
  "v_decode name r k = (case r of Inl e \<Rightarrow> Inl (VPayload name e) | Inr m \<Rightarrow> k m)"

section \<open>Social events\<close>

definition EVENT_TYPES :: "string list" where
  "EVENT_TYPES = [''PROFILE_UPDATE'', ''FOLLOW'', ''UNFOLLOW'', ''POST_CREATE'', ''POST_EDIT'',
     ''POST_DELETE'', ''COMMENT_CREATE'', ''REACTION'', ''REPOST'', ''CHANNEL_CREATE'',
     ''REEL_CREATE'', ''STORY_CREATE'']"

definition event_payload :: "payload_decoders \<Rightarrow> social_event \<Rightarrow> unit vres" where
  "event_payload d ev = (let p = so_payload ev; ty = so_type ev in
     if ty = ''PROFILE_UPDATE'' then v_decode ''ProfileUpdate'' (pd_profile d p) (\<lambda>v. first_err (
         [v_bound ''display_name'' (length (pu_display_name v)) 128,
          v_text ''bio'' (pu_bio v),
          v_opt_hash ''avatar_cid'' (pu_avatar_cid v),
          v_opt_hash ''banner_cid'' (pu_banner_cid v),
          v_bound ''website'' (length (pu_website v)) 256,
          v_bound ''attributes'' (length (pu_attributes v)) 32]
         @ concat (map (\<lambda>(k, x). [v_bound ''attribute key'' (length k) 64,
                                   v_bound ''attribute value'' (length x) 512]) (pu_attributes v))))
     else if ty = ''FOLLOW'' then v_decode ''Follow'' (pd_follow d p) (\<lambda>target. first_err
         [v_address ''target'' target,
          require (target \<noteq> so_author ev) (VRule ''cannot follow yourself'')])
     else if ty = ''UNFOLLOW'' then v_decode ''Unfollow'' (pd_unfollow d p) (v_address ''target'')
     else if ty = ''POST_CREATE'' then v_decode ''PostCreate'' (pd_post d p) (\<lambda>v. first_err
         [v_text ''text'' (pk_text v),
          v_tags ''hashtags'' (pk_hashtags v),
          v_tags ''mentions'' (pk_mentions v),
          v_opt_hash ''channel'' (pk_channel v),
          v_opt_hash ''reply_to'' (pk_reply_to v),
          v_bound ''language'' (length (pk_language v)) 16,
          require (\<not> (pk_text v = [] \<and> so_media ev = [])) (VRule ''a post needs text or media'')])
     else if ty = ''POST_EDIT'' then v_decode ''PostEdit'' (pd_edit d p) (\<lambda>v. first_err
         [v_hash ''post'' (pe_post v), v_text ''text'' (pe_text v), v_tags ''hashtags'' (pe_hashtags v)])
     else if ty = ''POST_DELETE'' then v_decode ''PostDelete'' (pd_delete d p) (v_hash ''post'')
     else if ty = ''COMMENT_CREATE'' then v_decode ''CommentCreate'' (pd_comment d p) (\<lambda>v. first_err
         [v_hash ''post'' (cm_post v),
          v_text ''text'' (cm_text v),
          v_opt_hash ''parent_comment'' (cm_parent_comment v),
          require (cm_text v \<noteq> []) (VMissing ''text'')])
     else if ty = ''REACTION'' then v_decode ''Reaction'' (pd_reaction d p) (\<lambda>v. first_err
         [v_hash ''target'' (rx_target v), v_bound ''reaction'' (length (rx_reaction v)) MAX_TAG_BYTES])
     else if ty = ''REPOST'' then v_decode ''Repost'' (pd_repost d p) (\<lambda>v. first_err
         [v_hash ''post'' (rp_post v), v_text ''comment'' (rp_comment v)])
     else if ty = ''CHANNEL_CREATE'' then v_decode ''ChannelCreate'' (pd_channel d p) (\<lambda>v. first_err
         [v_bound ''name'' (length (cc_name v)) 128,
          require (cc_name v \<noteq> []) (VMissing ''name''),
          v_text ''description'' (cc_description v),
          v_opt_hash ''avatar_cid'' (cc_avatar_cid v)])
     else if ty = ''REEL_CREATE'' then v_decode ''ReelCreate'' (pd_reel d p) (\<lambda>v. first_err
         [v_text ''caption'' (re_caption v),
          v_tags ''hashtags'' (re_hashtags v),
          v_tags ''mentions'' (re_mentions v),
          v_bound ''audio_credit'' (length (re_audio_credit v)) 256,
          v_bound ''language'' (length (re_language v)) 16,
          if \<not> unat (re_video_index v) < length (so_media ev)
          then Inl (VRule ''reel video_index does not name a media entry'')
          else require (mf_kind (so_media ev ! unat (re_video_index v)) = ''video'')
                 (VRule ''reel video must be a video media entry'')])
     else if ty = ''STORY_CREATE'' then v_decode ''StoryCreate'' (pd_story d p) (\<lambda>v. first_err
         [v_text ''caption'' (st_caption v),
          require (so_media ev \<noteq> []) (VRule ''a story needs media''),
          require (\<not> (st_expires_at v \<le> so_timestamp ev
              \<or> st_expires_at v > sat_add (so_timestamp ev) MAX_STORY_SECS))
            (VExpiry (so_timestamp ev) (st_expires_at v) MAX_STORY_SECS)])
     else Inl (VUnknownEventType ty))"

definition v_media :: "media_reference \<Rightarrow> unit vres" where
  "v_media m = first_err
     [v_hash ''media.cid'' (mf_cid m),
      v_bound ''media.mime'' (length (mf_mime m)) 128,
      v_bound ''media.kind'' (length (mf_kind m)) 16,
      v_opt_hash ''media.thumbnail_cid'' (mf_thumbnail_cid m),
      v_opt_hash ''media.content_hash'' (mf_content_hash m),
      require (mf_size m \<le> MAX_BLOB_SIZE)
        (VTooLarge ''media.size'' (unat (mf_size m)) (unat MAX_BLOB_SIZE))]"

definition validate_social_event :: "payload_decoders \<Rightarrow> social_event \<Rightarrow> u64 \<Rightarrow> unit vres" where
  "validate_social_event d ev now = first_err (
     [require (so_version ev = WIRE_VERSION) (VVersion ''event'' (so_version ev)),
      require (so_network_id ev \<noteq> []) (VMissing ''network_id''),
      v_hash ''id'' (so_id ev),
      v_address ''author'' (so_author ev),
      v_hash ''device_pubkey'' (so_device_pubkey ev),
      v_exact ''signature'' (length (so_signature ev)) SIG_LEN,
      not_future (so_timestamp ev) now,
      require (\<not> (so_sequence ev = 0 \<and> so_previous_event ev \<noteq> []))
        (VRule ''sequence 0 must have no previous event''),
      if so_sequence ev > 0 then v_hash ''previous_event'' (so_previous_event ev) else Inr (),
      v_bound ''payload'' (length (so_payload ev)) MAX_EVENT_PAYLOAD,
      v_bound ''media'' (length (so_media ev)) MAX_EVENT_MEDIA]
     @ map v_media (so_media ev)
     @ [require (so_type ev \<in> set EVENT_TYPES) (VUnknownEventType (so_type ev)),
        event_payload d ev])"

section \<open>Envelopes and mailboxes\<close>

definition validate_envelope :: "p2p_envelope \<Rightarrow> u64 \<Rightarrow> u64 vres" where
  "validate_envelope env now = and_then (first_err
     [require (en_version env = WIRE_VERSION) (VVersion ''envelope'' (en_version env)),
      require (en_network_id env \<noteq> []) (VMissing ''network_id''),
      v_hash ''id'' (en_id env),
      v_hash ''mailbox'' (en_mailbox env),
      require (\<not> (en_kind env = 0 \<or> en_kind env \<notin> {0, 1, 2, 3})) (VMissing ''kind''),
      require (en_ciphertext env \<noteq> []) (VMissing ''ciphertext''),
      v_bound ''ciphertext'' (length (en_ciphertext env)) MAX_ENVELOPE_CIPHERTEXT,
      not_future (en_created_at env) now,
      require (\<not> en_expires_at env \<le> now)
        (VExpiry (en_created_at env) (en_expires_at env) MAX_ENVELOPE_RETENTION_SECS)])
     (\<lambda>_. Inr (min (en_expires_at env) (sat_add now MAX_ENVELOPE_RETENTION_SECS)))"

definition validate_mailbox_fetch :: "mailbox_fetch \<Rightarrow> u64 \<Rightarrow> u32 vres" where
  "validate_mailbox_fetch f now = and_then (first_err
     [v_hash ''mailbox'' (fe_mailbox f),
      v_hash ''device_pubkey'' (fe_device_pubkey f),
      v_exact ''signature'' (length (fe_signature f)) SIG_LEN,
      v_bound ''cursor'' (length (fe_cursor f)) 64,
      fresh (fe_timestamp f) now,
      require (fe_limit f \<noteq> TURN_SENTINEL_LIMIT)
        (VRule ''limit is the TURN credential sentinel, not a page size'')])
     (\<lambda>_. Inr (if fe_limit f = 0 then MAX_MAILBOX_PAGE else min (fe_limit f) MAX_MAILBOX_PAGE))"

definition validate_turn_credential_fetch :: "mailbox_fetch \<Rightarrow> u64 \<Rightarrow> unit vres" where
  "validate_turn_credential_fetch f now = first_err
     [v_hash ''mailbox'' (fe_mailbox f),
      v_hash ''device_pubkey'' (fe_device_pubkey f),
      v_exact ''signature'' (length (fe_signature f)) SIG_LEN,
      require (fe_cursor f = []) (VRule ''a TURN credential request carries no cursor''),
      require (fe_limit f = TURN_SENTINEL_LIMIT)
        (VRule ''a TURN credential request must carry the sentinel limit''),
      fresh (fe_timestamp f) now]"

definition validate_mailbox_ack :: "mailbox_ack \<Rightarrow> u64 \<Rightarrow> unit vres" where
  "validate_mailbox_ack a now = first_err (
     [v_hash ''mailbox'' (ak_mailbox a),
      v_hash ''device_pubkey'' (ak_device_pubkey a),
      v_exact ''signature'' (length (ak_signature a)) SIG_LEN,
      v_bound ''envelope_ids'' (length (ak_envelope_ids a)) (unat MAX_MAILBOX_PAGE)]
     @ map (v_hash ''envelope_id'') (ak_envelope_ids a)
     @ [fresh (ak_timestamp a) now])"

definition validate_key_package :: "key_package_publish \<Rightarrow> u64 \<Rightarrow> unit vres" where
  "validate_key_package k now = first_err
     [v_hash ''device_pubkey'' (kp_device_pubkey k),
      v_exact ''signature'' (length (kp_signature k)) SIG_LEN,
      require (kp_key_package k \<noteq> []) (VMissing ''key_package''),
      v_bound ''key_package'' (length (kp_key_package k)) MAX_KEY_PACKAGE,
      not_future (kp_created_at k) now,
      require (\<not> kp_expires_at k \<le> now)
        (VExpiry (kp_created_at k) (kp_expires_at k) MAX_ENVELOPE_RETENTION_SECS)]"

section \<open>Announcements, attestations and uploads\<close>

definition validate_node_announce :: "node_announce \<Rightarrow> u64 \<Rightarrow> unit vres" where
  "validate_node_announce a now = first_err (
     [require (na_version a = WIRE_VERSION) (VVersion ''announce'' (na_version a)),
      require (na_node_pubkey a \<noteq> []) (VMissing ''node_pubkey''),
      v_bound ''node_pubkey'' (length (na_node_pubkey a)) 64,
      v_exact ''signature'' (length (na_signature a)) SIG_LEN,
      v_bound ''roles'' (length (na_roles a)) 16]
     @ map (\<lambda>r. v_bound ''role'' (length r) 16) (na_roles a)
     @ [v_bound ''addrs'' (length (na_addrs a)) MAX_ANNOUNCE_ADDRS]
     @ map (\<lambda>x. v_bound ''addr'' (length x) MAX_MULTIADDR_BYTES) (na_addrs a)
     @ [if na_operator_address a \<noteq> [] then v_address ''operator_address'' (na_operator_address a) else Inr (),
        not_future (na_timestamp a) now,
        require (\<not> (na_expires_at a \<le> now
            \<or> na_expires_at a > sat_add (na_timestamp a) MAX_ANNOUNCE_TTL_SECS))
          (VExpiry (na_timestamp a) (na_expires_at a) MAX_ANNOUNCE_TTL_SECS)]
     @ (case na_turn a of None \<Rightarrow> [] | Some t \<Rightarrow>
          v_bound ''turn.uris'' (length (ti_uris t)) 8
          # map (\<lambda>u. v_bound ''turn.uri'' (length u) 256) (ti_uris t)
          @ [v_bound ''turn.realm'' (length (ti_realm t)) 128])
     @ (case na_sfu a of None \<Rightarrow> [] | Some s \<Rightarrow>
          [v_bound ''sfu.url'' (length (si_url s)) 256, v_bound ''sfu.kind'' (length (si_kind s)) 32]))"

definition validate_bootstrap_record :: "bootstrap_record \<Rightarrow> u64 \<Rightarrow> unit vres" where
  "validate_bootstrap_record r now = first_err (
     [require (br_addrs r \<noteq> []) (VMissing ''addrs''),
      v_bound ''addrs'' (length (br_addrs r)) MAX_ANNOUNCE_ADDRS]
     @ map (\<lambda>x. v_bound ''addr'' (length x) MAX_MULTIADDR_BYTES) (br_addrs r)
     @ [v_hash ''signer_pubkey'' (br_signer_pubkey r),
        v_exact ''signature'' (length (br_signature r)) SIG_LEN,
        not_future (br_issued_at r) now,
        require (\<not> br_expires_at r \<le> now) (VExpiry (br_issued_at r) (br_expires_at r) (- 1))])"

definition reason_char :: "char \<Rightarrow> bool" where
  "reason_char c \<longleftrightarrow> is_ascii_alnum c \<or> c = CHR ''-'' \<or> c = CHR ''_'' \<or> c = CHR ''.''"

definition validate_attestation :: "content_attestation \<Rightarrow> u64 \<Rightarrow> unit vres" where
  "validate_attestation a now = first_err
     [require (ca_version a = WIRE_VERSION) (VVersion ''attestation'' (ca_version a)),
      require (length (filter (\<lambda>b. b \<noteq> []) [ca_cid a, ca_event_id a, ca_content_hash a]) = 1)
        (VRule ''exactly one of cid, event_id, content_hash must be set''),
      v_opt_hash ''cid'' (ca_cid a),
      v_opt_hash ''event_id'' (ca_event_id a),
      v_opt_hash ''content_hash'' (ca_content_hash a),
      require (\<not> (ca_verdict a = 0 \<or> ca_verdict a \<notin> {0, 1, 2, 3, 4, 5})) (VMissing ''verdict''),
      v_bound ''policy'' (length (ca_policy a)) 64,
      v_bound ''reason_code'' (length (ca_reason_code a)) 64,
      require (list_all reason_char (ca_reason_code a))
        (VRule ''reason_code must be a machine code, not free text''),
      v_hash ''attestor_pubkey'' (ca_attestor_pubkey a),
      v_exact ''signature'' (length (ca_signature a)) SIG_LEN,
      not_future (ca_timestamp a) now]"

definition validate_blob_put_manifest :: "blob_put_manifest \<Rightarrow> u64 \<Rightarrow> unit vres" where
  "validate_blob_put_manifest p now = first_err
     [v_hash ''cid'' (bp_cid p),
      v_hash ''uploader_pubkey'' (bp_uploader_pubkey p),
      v_exact ''signature'' (length (bp_signature p)) SIG_LEN,
      require (bp_manifest p \<noteq> None) (VMissing ''manifest''),
      fresh (bp_timestamp p) now]"

section \<open>When the checks succeed\<close>

lemma v_bound_ok [ok_simps]: "v_bound f n mx = Inr u \<longleftrightarrow> n \<le> mx"
  by (auto simp: v_bound_def)

lemma v_exact_ok [ok_simps]: "v_exact f n k = Inr u \<longleftrightarrow> n = k"
  by (auto simp: v_exact_def)

lemma v_hash_ok [ok_simps]: "v_hash f b = Inr u \<longleftrightarrow> length b = HASH_LEN"
  by (simp add: v_hash_def v_exact_ok)

lemma not_future_ok [ok_simps]: "not_future ts now = Inr u \<longleftrightarrow> ts \<le> sat_add now MAX_FUTURE_SKEW_SECS"
  by (auto simp: not_future_def)

lemma unat_sat_le:
  "a \<le> sat_add b c \<longleftrightarrow> unat a \<le> unat b + unat c" for a b c :: u64
  using unat_bound [of a] by (simp add: word_le_nat_alt unat_sat_add)

text \<open>Freshness is the window around the local clock, also at the ends of the 64-bit range.\<close>

lemma fresh_iff:
  "fresh ts now = Inr () \<longleftrightarrow> unat ts \<le> unat now + 300 \<and> unat now \<le> unat ts + 300"
proof -
  have "\<not> sat_add ts MAX_REQUEST_AGE_SECS < now \<longleftrightarrow> unat now \<le> unat ts + 300"
    using unat_sat_le [of now ts MAX_REQUEST_AGE_SECS] by (simp add: not_less MAX_REQUEST_AGE_SECS_def)
  moreover have "ts \<le> sat_add now MAX_FUTURE_SKEW_SECS \<longleftrightarrow> unat ts \<le> unat now + 300"
    using unat_sat_le by (simp add: MAX_FUTURE_SKEW_SECS_def)
  ultimately show ?thesis by (auto simp: fresh_def and_then_ok not_future_ok)
qed

lemma envelope_expiry:
  assumes "validate_envelope env now = Inr e"
  shows "now < e" "e \<le> en_expires_at env" "unat e \<le> unat now + unat MAX_ENVELOPE_RETENTION_SECS"
    "length (en_id env) = HASH_LEN" "length (en_mailbox env) = HASH_LEN"
    "unat (en_created_at env) \<le> unat now + 300"
proof -
  have a: "now < en_expires_at env" "e = min (en_expires_at env) (sat_add now MAX_ENVELOPE_RETENTION_SECS)"
    "length (en_id env) = HASH_LEN" "length (en_mailbox env) = HASH_LEN"
    "en_created_at env \<le> sat_add now MAX_FUTURE_SKEW_SECS"
    using assms by (auto simp: validate_envelope_def and_then_ok ok_simps simp del: first_err.simps)
  show "e \<le> en_expires_at env" "length (en_id env) = HASH_LEN" "length (en_mailbox env) = HASH_LEN"
    using a by (auto simp: min_def)
  show "unat (en_created_at env) \<le> unat now + 300"
    using a(5) unat_sat_le by (simp add: MAX_FUTURE_SKEW_SECS_def)
  have "e \<le> sat_add now MAX_ENVELOPE_RETENTION_SECS" using a(2) by simp
  then show "unat e \<le> unat now + unat MAX_ENVELOPE_RETENTION_SECS" using unat_sat_le by blast
  have "unat now < unat (sat_add now MAX_ENVELOPE_RETENTION_SECS)"
    using a(1) unat_bound [of "en_expires_at env"]
    by (simp add: unat_sat_add word_less_nat_alt MAX_ENVELOPE_RETENTION_SECS_def)
  then show "now < e" using a(1,2) by (auto simp: min_def word_less_nat_alt)
qed

end
