(* ===== verification/App_Envelope.thy ===== *)
theory App_Envelope
  imports Mail Space Circle People Proto_Validate
begin

text \<open>
  The application envelope: \<open>hashgram-app/src/envelope.rs\<close>. The bodies are the messages of the
  other components; the chat payloads this build does not interpret are one abstract value. The
  protobuf encoding of a \<open>ChatMessage\<close> is a pair of arguments.
\<close>

definition MAX_APP_MESSAGE_BYTES :: nat where
  "MAX_APP_MESSAGE_BYTES = 256 * 1024"

definition CHAT_KIND_APP :: int where "CHAT_KIND_APP = 11"

section \<open>Bodies\<close>

record mail_receipt =
  mr_version :: u32
  mr_message_id :: bytes
  mr_kind :: int
  mr_at_ms :: u64

record drive_share_msg =
  ds_capability :: "drive_capability option"
  ds_note :: string

record drive_share_update =
  du_version :: u32
  du_share_id :: bytes
  du_object :: "drive_object_ref option"
  du_version_no :: u64
  du_name :: string
  du_size :: u64
  du_at_ms :: u64

record drive_share_revoke =
  rv_version :: u32
  rv_share_id :: bytes
  rv_at_ms :: u64

record contact_response =
  cs_version :: u32
  cs_accepted :: bool
  cs_at_ms :: u64

record drive_keyring =
  kr_drive_id :: bytes
  kr_manifest_key :: "drive_key option"
  kr_manifest_cid :: bytes
  kr_revision :: u64

record mail_state_hint =
  mh_read :: "bytes list"
  mh_unread :: "bytes list"
  mh_archived :: "bytes list"
  mh_trashed :: "bytes list"
  mh_starred :: "bytes list"
  mh_unstarred :: "bytes list"
  mh_deleted :: "bytes list"
  mh_at_ms :: u64

datatype device_sync_body =
    SyncDriveKeyring drive_keyring
  | SyncMailState mail_state_hint
  | SyncContacts contacts_snapshot

record device_sync =
  sy_version :: u32
  sy_body :: "device_sync_body option"

datatype app_body =
    BodyMail mail_message
  | BodyMailReceipt mail_receipt
  | BodyDriveShare drive_share_msg
  | BodyDriveShareUpdate drive_share_update
  | BodyDriveShareRevoke drive_share_revoke
  | BodyContactRequest contact_request
  | BodyContactResponse contact_response
  | BodyProfileCard profile_card
  | BodyCircleEvent circle_event
  | BodySpaceEvent space_event
  | BodyDeviceSync device_sync

record app_message =
  ap_version :: u32
  ap_min_reader_version :: u32
  ap_id :: bytes
  ap_sent_at_ms :: u64
  ap_body :: "app_body option"

text \<open>Of a chat message the fields the envelope uses; \<open>ch_line\<close> stands for the fields of the
  chat lines, which it sets to their defaults and does not read.\<close>

record 'l chat_message =
  ch_version :: u32
  ch_kind :: int
  ch_id :: bytes
  ch_timestamp_ms :: u64
  ch_line :: 'l
  ch_app :: "app_message option"

section \<open>Building and opening\<close>

definition wrap :: "os_random \<Rightarrow> clock \<Rightarrow> app_body \<Rightarrow> app_message res" where
  "wrap rnd clk body = and_then (random_id rnd) (\<lambda>i.
     Inr \<lparr>ap_version = APP_ENVELOPE_VERSION, ap_min_reader_version = 0, ap_id = i,
          ap_sent_at_ms = clk 0, ap_body = Some body\<rparr>)"

definition to_chat :: "'l \<Rightarrow> app_message \<Rightarrow> 'l chat_message" where
  "to_chat default_line app =
     \<lparr>ch_version = WIRE_VERSION, ch_kind = CHAT_KIND_APP, ch_id = ap_id app,
      ch_timestamp_ms = ap_sent_at_ms app, ch_line = default_line, ch_app = Some app\<rparr>"

definition encode_for_mls ::
    "('l chat_message \<Rightarrow> bytes) \<Rightarrow> 'l \<Rightarrow> app_message \<Rightarrow> bytes res" where
  "encode_for_mls enc default_line app =
     (let bs = enc (to_chat default_line app) in
      if length bs > MAX_APP_MESSAGE_BYTES then Inl (Invalid ''application message too large'')
      else Inr bs)"

datatype 'l opened =
    OpenedChat "'l chat_message"
  | OpenedApp app_message

definition open_message ::
    "(bytes \<Rightarrow> string + 'l chat_message) \<Rightarrow> bytes \<Rightarrow> 'l opened res" where
  "open_message dec plaintext =
     (if length plaintext > MAX_APP_MESSAGE_BYTES
      then Inl (Invalid ''application message too large'')
      else case dec plaintext of
        Inl e \<Rightarrow> Inl (Decode e)
      | Inr msg \<Rightarrow>
          if ch_kind msg \<noteq> CHAT_KIND_APP then Inr (OpenedChat msg)
          else case ch_app msg of
            None \<Rightarrow> Inl (Unsupported ''CHAT_KIND_APP without an app payload'')
          | Some app \<Rightarrow>
              (let v = (if ap_version app = 0 then 1 else ap_version app) in
               and_then (check_version ''AppMessage'' v (ap_min_reader_version app) APP_ENVELOPE_MAX_READ) (\<lambda>_.
               and_then (require_id ''AppMessage.id'' (ap_id app)) (\<lambda>_.
               if ap_body app = None
               then Inl (Unsupported ''application message body type is not known to this build'')
               else Inr (OpenedApp app)))))"

definition kind_name :: "app_message \<Rightarrow> string" where
  "kind_name app = (case ap_body app of
      Some (BodyMail _) \<Rightarrow> ''mail''
    | Some (BodyMailReceipt _) \<Rightarrow> ''mail_receipt''
    | Some (BodyDriveShare _) \<Rightarrow> ''drive_share''
    | Some (BodyDriveShareUpdate _) \<Rightarrow> ''drive_share_update''
    | Some (BodyDriveShareRevoke _) \<Rightarrow> ''drive_share_revoke''
    | Some (BodyContactRequest _) \<Rightarrow> ''contact_request''
    | Some (BodyContactResponse _) \<Rightarrow> ''contact_response''
    | Some (BodyProfileCard _) \<Rightarrow> ''profile_card''
    | Some (BodyCircleEvent _) \<Rightarrow> ''circle_event''
    | Some (BodySpaceEvent _) \<Rightarrow> ''space_event''
    | Some (BodyDeviceSync _) \<Rightarrow> ''device_sync''
    | None \<Rightarrow> ''unknown'')"

section \<open>The gate\<close>

text \<open>
  Readers only see what they can render: opening gives an application message exactly when the
  plaintext is within the bound and decodes to an application message with a known body, a
  well-formed identity, and versions this build reads.
\<close>
theorem open_gate_iff:
  "open_message dec p = Inr (OpenedApp app) \<longleftrightarrow>
     length p \<le> MAX_APP_MESSAGE_BYTES
     \<and> (\<exists>msg. dec p = Inr msg \<and> ch_kind msg = CHAT_KIND_APP \<and> ch_app msg = Some app)
     \<and> ap_version app \<le> APP_ENVELOPE_MAX_READ \<and> ap_min_reader_version app \<le> APP_ENVELOPE_MAX_READ
     \<and> length (ap_id app) = ID_LEN \<and> ap_body app \<noteq> None"
proof -
  have v: "(if v = 0 then 1 else v) \<noteq> 0 \<and> (if v = 0 then 1 else v) \<le> APP_ENVELOPE_MAX_READ
      \<longleftrightarrow> v \<le> APP_ENVELOPE_MAX_READ" for v
    by (simp add: APP_ENVELOPE_MAX_READ_def)
  have c: "open_message dec p = Inr (OpenedApp app) \<longleftrightarrow>
      length p \<le> MAX_APP_MESSAGE_BYTES
      \<and> (\<exists>msg. dec p = Inr msg \<and> ch_kind msg = CHAT_KIND_APP \<and> ch_app msg = Some app)
      \<and> ((if ap_version app = 0 then 1 else ap_version app) \<noteq> 0
         \<and> (if ap_version app = 0 then 1 else ap_version app) \<le> APP_ENVELOPE_MAX_READ)
      \<and> ap_min_reader_version app \<le> APP_ENVELOPE_MAX_READ
      \<and> length (ap_id app) = ID_LEN \<and> ap_body app \<noteq> None"
    unfolding open_message_def Let_def
    by (cases "dec p") (auto simp: and_then_ok check_version_ok require_id_ok not_less
        split: option.splits if_splits)
  show ?thesis unfolding c v by blast
qed

text \<open>
  What one build wraps, another opens: whatever body is sent in an envelope that fits, the
  reader gets that message back, when the protobuf codec reads back what it wrote.
\<close>
theorem envelope_roundtrip:
  assumes "dec (enc (to_chat l app)) = Inr (to_chat l app)" "wrap rnd clk body = Inr app"
    and "length (enc (to_chat l app)) \<le> MAX_APP_MESSAGE_BYTES"
  shows "\<exists>p. encode_for_mls enc l app = Inr p \<and> open_message dec p = Inr (OpenedApp app)
    \<and> ap_body app = Some body"
proof -
  have "length (ap_id app) = ID_LEN" "ap_body app = Some body" "ap_version app = APP_ENVELOPE_VERSION"
    "ap_min_reader_version app = 0"
    using assms(2) random_id_ok by (auto simp: wrap_def and_then_ok)
  then have "open_message dec (enc (to_chat l app)) = Inr (OpenedApp app)"
    unfolding open_message_def
    using assms(1,3)
    by (simp add: to_chat_def check_version_def require_id_def APP_ENVELOPE_VERSION_def
        APP_ENVELOPE_MAX_READ_def)
  then show ?thesis using assms(3) \<open>ap_body app = Some body\<close> by (simp add: encode_for_mls_def)
qed

theorem envelope_roundtrip_witness:
  "\<exists>app p. encode_for_mls (\<lambda>_. [1]) () app = Inr p
     \<and> open_message (\<lambda>_. Inr (to_chat () app)) p = Inr (OpenedApp app)
     \<and> ap_body app = Some (BodyContactResponse \<lparr>cs_version = 1, cs_accepted = True, cs_at_ms = 5\<rparr>)"
proof -
  let ?b = "BodyContactResponse \<lparr>cs_version = 1, cs_accepted = True, cs_at_ms = 5\<rparr>"
  obtain app where w: "wrap (Some (\<lambda>_. 7)) (\<lambda>_. 3) ?b = Inr app"
    by (simp add: wrap_def random_id_def)
  show ?thesis
    using envelope_roundtrip [where enc = "\<lambda>_. [1]" and dec = "\<lambda>_. Inr (to_chat () app)", OF refl w]
    by (auto simp: MAX_APP_MESSAGE_BYTES_def)
qed

end
