(* ===== verification/Proto_Signing.thy ===== *)
theory Proto_Signing
  imports Proto_Validate Net_Identity
begin

text \<open>
  Keys and the signing preimages of every signed wire object: \<open>hashgram-proto/src/keys.rs\<close> and
  \<open>signing.rs\<close>. The hash functions, ed25519 and the decoder of the libp2p key envelope are the
  fields of \<open>sig_lib\<close>; what the code relies on is the named predicate \<open>ed25519_correct\<close>.
\<close>

section \<open>Keys\<close>

record sig_lib =
  sl_sha256 :: "bytes \<Rightarrow> bytes"
  sl_blake3 :: "bytes \<Rightarrow> bytes"
  sl_point :: "bytes \<Rightarrow> bool"
  sl_verify :: "bytes \<Rightarrow> bytes \<Rightarrow> bytes \<Rightarrow> bool"
  sl_public :: "bytes \<Rightarrow> bytes"
  sl_sign :: "bytes \<Rightarrow> bytes \<Rightarrow> bytes"
  sl_libp2p :: "bytes \<Rightarrow> (int \<times> bytes) option"

datatype key_error =
    InvalidPublicKey nat
  | InvalidSignatureLength nat
  | BadSignature
  | UnsupportedLibp2pKeyType int
  | MalformedLibp2pKey
  | KeyNoRandomness

text \<open>A signer is its secret; generating one draws it from the operating system.\<close>

definition signer_generate :: "os_random \<Rightarrow> key_error + bytes" where
  "signer_generate r = map_sum (\<lambda>_. KeyNoRandomness) id (random_bytes r 32)"

definition public_key :: "sig_lib \<Rightarrow> bytes \<Rightarrow> bytes" where
  "public_key l secret = sl_public l secret"

definition sign_digest :: "sig_lib \<Rightarrow> bytes \<Rightarrow> bytes \<Rightarrow> bytes" where
  "sign_digest l secret digest = sl_sign l secret digest"

definition verify_ed25519 :: "sig_lib \<Rightarrow> bytes \<Rightarrow> bytes \<Rightarrow> bytes \<Rightarrow> key_error + unit" where
  "verify_ed25519 l pubkey digest signature =
     (if length pubkey \<noteq> 32 \<or> \<not> sl_point l pubkey then Inl (InvalidPublicKey (length pubkey))
      else if length signature \<noteq> SIG_LEN then Inl (InvalidSignatureLength (length signature))
      else if \<not> sl_verify l pubkey digest signature then Inl BadSignature
      else Inr ())"

definition ed25519_from_libp2p :: "sig_lib \<Rightarrow> bytes \<Rightarrow> key_error + bytes" where
  "ed25519_from_libp2p l env =
     (case sl_libp2p l env of
        None \<Rightarrow> Inl MalformedLibp2pKey
      | Some (ty, data) \<Rightarrow>
          if ty \<noteq> 1 then Inl (UnsupportedLibp2pKeyType ty)
          else if length data \<noteq> 32 then Inl (InvalidPublicKey (length data))
          else Inr data)"

definition ed25519_to_libp2p :: "bytes \<Rightarrow> bytes" where
  "ed25519_to_libp2p raw = [0x08, 0x01, 0x12, 0x20] @ raw"

section \<open>Payloads\<close>

datatype verify_error =
    VerifyCanonical canonical_error
  | VerifyKey key_error
  | VerifyWrongNetwork string string
  | VerifyIdMismatch

definition check_network :: "network_identity \<Rightarrow> string \<Rightarrow> verify_error + unit" where
  "check_network n found =
     (if found \<noteq> network_id n then Inl (VerifyWrongNetwork (network_id n) found) else Inr ())"

text \<open>A payload is a run of the canonical builder; a string is written as its bytes, an
  enumeration and a block height in two's complement.\<close>

abbreviation FString :: "string \<Rightarrow> string \<Rightarrow> field" where
  "FString f s \<equiv> FBytes f (str_bytes s)"

abbreviation FStrings :: "string \<Rightarrow> string list \<Rightarrow> field" where
  "FStrings f ss \<equiv> FList f (map str_bytes ss)"

definition canonical_bytes :: "field list \<Rightarrow> canonical_error + bytes" where
  "canonical_bytes fs = cb_finish (foldl cb_push cb_new fs)"

definition social_event_head :: "social_event \<Rightarrow> field list" where
  "social_event_head ev =
     [FString ''network_id'' (so_network_id ev), FU32 (so_version ev), FString ''type'' (so_type ev),
      FString ''author'' (so_author ev), FBytes ''device_pubkey'' (so_device_pubkey ev),
      FU64 (so_timestamp ev), FU64 (so_sequence ev), FBytes ''previous_event'' (so_previous_event ev),
      FBytes ''payload'' (so_payload ev)]"

definition media_fields :: "media_reference \<Rightarrow> field list" where
  "media_fields m =
     [FBytes ''media.cid'' (mf_cid m), FString ''media.mime'' (mf_mime m), FU64 (mf_size m),
      FString ''media.kind'' (mf_kind m), FU32 (mf_width m), FU32 (mf_height m),
      FU32 (mf_duration_ms m), FBytes ''media.thumbnail_cid'' (mf_thumbnail_cid m),
      FBytes ''media.content_hash'' (mf_content_hash m)]"

definition social_event_payload :: "social_event \<Rightarrow> canonical_error + bytes" where
  "social_event_payload ev = cb_finish
     (foldl (\<lambda>b m. foldl cb_push b (media_fields m))
       (cb_len ''media'' (length (so_media ev)) (foldl cb_push cb_new (social_event_head ev)))
       (so_media ev))"

definition mailbox_fetch_fields :: "mailbox_fetch \<Rightarrow> field list" where
  "mailbox_fetch_fields f =
     [FBytes ''mailbox'' (fe_mailbox f), FBytes ''device_pubkey'' (fe_device_pubkey f),
      FBytes ''cursor'' (fe_cursor f), FU32 (fe_limit f), FU64 (fe_timestamp f)]"

definition mailbox_ack_fields :: "mailbox_ack \<Rightarrow> field list" where
  "mailbox_ack_fields a =
     [FBytes ''mailbox'' (ak_mailbox a), FBytes ''device_pubkey'' (ak_device_pubkey a),
      FList ''envelope_ids'' (ak_envelope_ids a), FU64 (ak_timestamp a)]"

definition key_package_fields :: "key_package_publish \<Rightarrow> field list" where
  "key_package_fields k =
     [FString ''network_id'' (kp_network_id k), FBytes ''device_pubkey'' (kp_device_pubkey k),
      FBytes ''key_package'' (kp_key_package k), FU64 (kp_created_at k), FU64 (kp_expires_at k),
      FU32 (if kp_last_resort k then 1 else 0)]"

definition blob_upload_fields :: "blob_put_manifest \<Rightarrow> field list" where
  "blob_upload_fields p =
     [FBytes ''cid'' (bp_cid p), FBytes ''uploader_pubkey'' (bp_uploader_pubkey p), FU64 (bp_timestamp p)]"

record service_receipt =
  sr_provider :: string
  sr_role :: int
  sr_client_pubkey :: bytes
  sr_client_key_type :: int
  sr_epoch :: u64
  sr_nonce :: u64
  sr_units :: u64
  sr_expiry_height :: int
  sr_client_signature :: bytes

definition receipt_fields :: "service_receipt \<Rightarrow> field list" where
  "receipt_fields r =
     [FString ''provider'' (sr_provider r), FU32 (word_of_int (sr_role r)),
      FBytes ''client_pubkey'' (sr_client_pubkey r), FU32 (word_of_int (sr_client_key_type r)),
      FU64 (sr_epoch r), FU64 (sr_nonce r), FU64 (sr_units r), FU64 (word_of_int (sr_expiry_height r))]"

definition KEY_TYPE_ED25519 :: int where "KEY_TYPE_ED25519 = 2"
definition ROLE_RELAY :: int where "ROLE_RELAY = 2"
definition ROLE_CALL :: int where "ROLE_CALL = 3"
definition ROLE_MEDIA :: int where "ROLE_MEDIA = 4"

definition node_announce_fields :: "node_announce \<Rightarrow> field list" where
  "node_announce_fields a =
     (let turn = (case na_turn a of None \<Rightarrow> \<lparr>ti_uris = [], ti_realm = [], ti_issues_credentials = False\<rparr> | Some t \<Rightarrow> t);
          sfu = (case na_sfu a of None \<Rightarrow> \<lparr>si_url = [], si_kind = []\<rparr> | Some s \<Rightarrow> s)
      in [FString ''network_id'' (na_network_id a), FU32 (na_version a),
          FBytes ''node_pubkey'' (na_node_pubkey a), FStrings ''roles'' (na_roles a),
          FStrings ''addrs'' (na_addrs a), FString ''operator_address'' (na_operator_address a),
          FU64 (na_declared_storage_bytes a), FU64 (na_timestamp a), FU64 (na_expires_at a),
          FStrings ''turn.uris'' (ti_uris turn), FString ''turn.realm'' (ti_realm turn),
          FU32 (if ti_issues_credentials turn then 1 else 0),
          FString ''sfu.url'' (si_url sfu), FString ''sfu.kind'' (si_kind sfu)])"

definition bootstrap_fields :: "bootstrap_record \<Rightarrow> field list" where
  "bootstrap_fields r =
     [FString ''network_id'' (br_network_id r), FStrings ''addrs'' (br_addrs r), FU64 (br_issued_at r),
      FU64 (br_expires_at r), FBytes ''signer_pubkey'' (br_signer_pubkey r)]"

definition attestation_fields :: "content_attestation \<Rightarrow> field list" where
  "attestation_fields a =
     [FString ''network_id'' (ca_network_id a), FU32 (ca_version a), FBytes ''cid'' (ca_cid a),
      FBytes ''event_id'' (ca_event_id a), FBytes ''content_hash'' (ca_content_hash a),
      FU32 (word_of_int (ca_verdict a)), FString ''policy'' (ca_policy a),
      FString ''reason_code'' (ca_reason_code a), FU64 (ca_timestamp a),
      FBytes ''attestor_pubkey'' (ca_attestor_pubkey a)]"

definition envelope_id :: "sig_lib \<Rightarrow> p2p_envelope \<Rightarrow> bytes" where
  "envelope_id l env = sl_blake3 l
     (fx_u64 (en_expires_at env) (fx_u64 (en_created_at env) (fx_bytes (en_ciphertext env)
       (fx_u32 (word_of_int (en_kind env)) (fx_bytes (en_mailbox env)
         (fx_u32 (en_version env) (fx_string (en_network_id env) fx_new)))))))"

definition mailbox_for :: "sig_lib \<Rightarrow> bytes \<Rightarrow> bytes" where
  "mailbox_for l device_pubkey = sl_blake3 l device_pubkey"

section \<open>Signing\<close>

text \<open>The step all signing functions share: the digest of the payload under the purpose, signed.\<close>

definition sign_payload :: "sig_lib \<Rightarrow> network_identity \<Rightarrow> signing_purpose \<Rightarrow> bytes \<Rightarrow>
    canonical_error + bytes \<Rightarrow> canonical_error + bytes" where
  "sign_payload l n p secret payload =
     and_then payload (\<lambda>bs. Inr (sign_digest l secret (signing_digest (sl_sha256 l) n p bs)))"

definition verify_payload :: "sig_lib \<Rightarrow> network_identity \<Rightarrow> signing_purpose \<Rightarrow> bytes \<Rightarrow>
    canonical_error + bytes \<Rightarrow> bytes \<Rightarrow> verify_error + unit" where
  "verify_payload l n p pubkey payload signature =
     and_then (map_sum VerifyCanonical id payload) (\<lambda>bs.
       map_sum VerifyKey id (verify_ed25519 l pubkey (signing_digest (sl_sha256 l) n p bs) signature))"

definition social_event_id :: "sig_lib \<Rightarrow> network_identity \<Rightarrow> social_event \<Rightarrow> canonical_error + bytes" where
  "social_event_id l n ev = and_then (social_event_payload ev) (\<lambda>bs.
     Inr (sl_blake3 l (signing_preimage n SocialEvent bs)))"

definition sign_social_event ::
    "sig_lib \<Rightarrow> network_identity \<Rightarrow> bytes \<Rightarrow> social_event \<Rightarrow> canonical_error + social_event" where
  "sign_social_event l n secret ev0 =
     (let ev = ev0\<lparr>so_device_pubkey := public_key l secret, so_signature := []\<rparr> in
      and_then (social_event_payload ev) (\<lambda>bs.
      Inr (ev\<lparr>so_id := sl_blake3 l (signing_preimage n SocialEvent bs),
              so_signature := sign_digest l secret (signing_digest (sl_sha256 l) n SocialEvent bs)\<rparr>)))"

definition verify_social_event :: "sig_lib \<Rightarrow> network_identity \<Rightarrow> social_event \<Rightarrow> verify_error + unit" where
  "verify_social_event l n ev =
     and_then (check_network n (so_network_id ev)) (\<lambda>_.
     and_then (map_sum VerifyCanonical id (social_event_payload ev)) (\<lambda>bs.
     if sl_blake3 l (signing_preimage n SocialEvent bs) \<noteq> so_id ev then Inl VerifyIdMismatch
     else map_sum VerifyKey id (verify_ed25519 l (so_device_pubkey ev)
            (signing_digest (sl_sha256 l) n SocialEvent bs) (so_signature ev))))"

definition sign_mailbox_fetch ::
    "sig_lib \<Rightarrow> network_identity \<Rightarrow> bytes \<Rightarrow> mailbox_fetch \<Rightarrow> canonical_error + mailbox_fetch" where
  "sign_mailbox_fetch l n secret f0 =
     (let f = f0\<lparr>fe_mailbox := mailbox_for l (public_key l secret), fe_device_pubkey := public_key l secret\<rparr> in
      and_then (sign_payload l n MailboxFetch secret (canonical_bytes (mailbox_fetch_fields f))) (\<lambda>s.
      Inr (f\<lparr>fe_signature := s\<rparr>)))"

definition verify_mailbox_fetch :: "sig_lib \<Rightarrow> network_identity \<Rightarrow> mailbox_fetch \<Rightarrow> verify_error + unit" where
  "verify_mailbox_fetch l n f =
     (if mailbox_for l (fe_device_pubkey f) \<noteq> fe_mailbox f then Inl VerifyIdMismatch
      else verify_payload l n MailboxFetch (fe_device_pubkey f)
             (canonical_bytes (mailbox_fetch_fields f)) (fe_signature f))"

definition sign_mailbox_ack ::
    "sig_lib \<Rightarrow> network_identity \<Rightarrow> bytes \<Rightarrow> mailbox_ack \<Rightarrow> canonical_error + mailbox_ack" where
  "sign_mailbox_ack l n secret a0 =
     (let a = a0\<lparr>ak_mailbox := mailbox_for l (public_key l secret), ak_device_pubkey := public_key l secret\<rparr> in
      and_then (sign_payload l n MailboxAck secret (canonical_bytes (mailbox_ack_fields a))) (\<lambda>s.
      Inr (a\<lparr>ak_signature := s\<rparr>)))"

definition verify_mailbox_ack :: "sig_lib \<Rightarrow> network_identity \<Rightarrow> mailbox_ack \<Rightarrow> verify_error + unit" where
  "verify_mailbox_ack l n a =
     (if mailbox_for l (ak_device_pubkey a) \<noteq> ak_mailbox a then Inl VerifyIdMismatch
      else verify_payload l n MailboxAck (ak_device_pubkey a)
             (canonical_bytes (mailbox_ack_fields a)) (ak_signature a))"

definition sign_key_package ::
    "sig_lib \<Rightarrow> network_identity \<Rightarrow> bytes \<Rightarrow> key_package_publish \<Rightarrow> canonical_error + key_package_publish" where
  "sign_key_package l n secret k0 =
     (let k = k0\<lparr>kp_network_id := network_id n, kp_device_pubkey := public_key l secret\<rparr> in
      and_then (sign_payload l n KeyPackage secret (canonical_bytes (key_package_fields k))) (\<lambda>s.
      Inr (k\<lparr>kp_signature := s\<rparr>)))"

definition verify_key_package :: "sig_lib \<Rightarrow> network_identity \<Rightarrow> key_package_publish \<Rightarrow> verify_error + unit" where
  "verify_key_package l n k = and_then (check_network n (kp_network_id k)) (\<lambda>_.
     verify_payload l n KeyPackage (kp_device_pubkey k) (canonical_bytes (key_package_fields k)) (kp_signature k))"

definition sign_blob_upload ::
    "sig_lib \<Rightarrow> network_identity \<Rightarrow> bytes \<Rightarrow> blob_put_manifest \<Rightarrow> canonical_error + blob_put_manifest" where
  "sign_blob_upload l n secret p0 =
     (let p = p0\<lparr>bp_uploader_pubkey := public_key l secret\<rparr> in
      and_then (sign_payload l n BlobUpload secret (canonical_bytes (blob_upload_fields p))) (\<lambda>s.
      Inr (p\<lparr>bp_signature := s\<rparr>)))"

definition verify_blob_upload :: "sig_lib \<Rightarrow> network_identity \<Rightarrow> blob_put_manifest \<Rightarrow> verify_error + unit" where
  "verify_blob_upload l n p =
     verify_payload l n BlobUpload (bp_uploader_pubkey p) (canonical_bytes (blob_upload_fields p)) (bp_signature p)"

definition sign_receipt ::
    "sig_lib \<Rightarrow> network_identity \<Rightarrow> bytes \<Rightarrow> service_receipt \<Rightarrow> canonical_error + service_receipt" where
  "sign_receipt l n secret r0 =
     (let r = r0\<lparr>sr_client_pubkey := public_key l secret, sr_client_key_type := KEY_TYPE_ED25519\<rparr> in
      and_then (sign_payload l n ServiceReceipt secret (canonical_bytes (receipt_fields r))) (\<lambda>s.
      Inr (r\<lparr>sr_client_signature := s\<rparr>)))"

definition verify_receipt :: "sig_lib \<Rightarrow> network_identity \<Rightarrow> service_receipt \<Rightarrow> verify_error + unit" where
  "verify_receipt l n r =
     (if sr_client_key_type r \<noteq> KEY_TYPE_ED25519
      then Inl (VerifyKey (UnsupportedLibp2pKeyType (sr_client_key_type r)))
      else verify_payload l n ServiceReceipt (sr_client_pubkey r) (canonical_bytes (receipt_fields r))
             (sr_client_signature r))"

definition sign_node_announce ::
    "sig_lib \<Rightarrow> network_identity \<Rightarrow> bytes \<Rightarrow> node_announce \<Rightarrow> canonical_error + node_announce" where
  "sign_node_announce l n secret a0 =
     (let a = a0\<lparr>na_network_id := network_id n, na_node_pubkey := ed25519_to_libp2p (public_key l secret)\<rparr> in
      and_then (sign_payload l n NodeAnnounce secret (canonical_bytes (node_announce_fields a))) (\<lambda>s.
      Inr (a\<lparr>na_signature := s\<rparr>)))"

definition verify_node_announce :: "sig_lib \<Rightarrow> network_identity \<Rightarrow> node_announce \<Rightarrow> verify_error + bytes" where
  "verify_node_announce l n a = and_then (check_network n (na_network_id a)) (\<lambda>_.
     and_then (map_sum VerifyKey id (ed25519_from_libp2p l (na_node_pubkey a))) (\<lambda>raw.
     and_then (verify_payload l n NodeAnnounce raw (canonical_bytes (node_announce_fields a)) (na_signature a)) (\<lambda>_.
     Inr raw)))"

definition sign_bootstrap_record ::
    "sig_lib \<Rightarrow> network_identity \<Rightarrow> bytes \<Rightarrow> bootstrap_record \<Rightarrow> canonical_error + bootstrap_record" where
  "sign_bootstrap_record l n secret r0 =
     (let r = r0\<lparr>br_network_id := network_id n, br_signer_pubkey := public_key l secret\<rparr> in
      and_then (sign_payload l n BootstrapRecord secret (canonical_bytes (bootstrap_fields r))) (\<lambda>s.
      Inr (r\<lparr>br_signature := s\<rparr>)))"

definition verify_bootstrap_record ::
    "sig_lib \<Rightarrow> network_identity \<Rightarrow> bootstrap_record \<Rightarrow> bytes list \<Rightarrow> verify_error + unit" where
  "verify_bootstrap_record l n r trusted = and_then (check_network n (br_network_id r)) (\<lambda>_.
     if length (br_signer_pubkey r) \<noteq> 32 then Inl (VerifyKey (InvalidPublicKey (length (br_signer_pubkey r))))
     else if br_signer_pubkey r \<notin> set trusted then Inl (VerifyKey BadSignature)
     else verify_payload l n BootstrapRecord (br_signer_pubkey r) (canonical_bytes (bootstrap_fields r))
            (br_signature r))"

definition sign_attestation ::
    "sig_lib \<Rightarrow> network_identity \<Rightarrow> bytes \<Rightarrow> content_attestation \<Rightarrow> canonical_error + content_attestation" where
  "sign_attestation l n secret a0 =
     (let a = a0\<lparr>ca_network_id := network_id n, ca_attestor_pubkey := public_key l secret\<rparr> in
      and_then (sign_payload l n ContentAttestation secret (canonical_bytes (attestation_fields a))) (\<lambda>s.
      Inr (a\<lparr>ca_signature := s\<rparr>)))"

definition verify_attestation :: "sig_lib \<Rightarrow> network_identity \<Rightarrow> content_attestation \<Rightarrow> verify_error + unit" where
  "verify_attestation l n a = and_then (check_network n (ca_network_id a)) (\<lambda>_.
     verify_payload l n ContentAttestation (ca_attestor_pubkey a) (canonical_bytes (attestation_fields a))
       (ca_signature a))"

section \<open>What is signed verifies\<close>

text \<open>What the code relies on of ed25519: a signature made with a secret verifies under its public
  key, and keys and signatures have their fixed lengths.\<close>

definition ed25519_correct :: "sig_lib \<Rightarrow> bytes \<Rightarrow> bool" where
  "ed25519_correct l secret \<longleftrightarrow> length (sl_public l secret) = 32 \<and> sl_point l (sl_public l secret)
     \<and> (\<forall>d. length (sl_sign l secret d) = SIG_LEN \<and> sl_verify l (sl_public l secret) d (sl_sign l secret d))"

lemma verify_signed:
  "ed25519_correct l s \<Longrightarrow> verify_ed25519 l (public_key l s) d (sign_digest l s d) = Inr ()"
  by (simp add: ed25519_correct_def verify_ed25519_def public_key_def sign_digest_def)

lemma payload_signed:
  "ed25519_correct l s \<Longrightarrow> sign_payload l n p s payload = Inr sig
    \<Longrightarrow> verify_payload l n p (public_key l s) payload sig = Inr ()"
  by (auto simp: sign_payload_def verify_payload_def and_then_ok verify_signed)

lemma fields_unsigned [simp]:
  "mailbox_fetch_fields (f\<lparr>fe_signature := x\<rparr>) = mailbox_fetch_fields f"
  "mailbox_ack_fields (a\<lparr>ak_signature := x\<rparr>) = mailbox_ack_fields a"
  "key_package_fields (k\<lparr>kp_signature := x\<rparr>) = key_package_fields k"
  "blob_upload_fields (p\<lparr>bp_signature := x\<rparr>) = blob_upload_fields p"
  "receipt_fields (r\<lparr>sr_client_signature := x\<rparr>) = receipt_fields r"
  "node_announce_fields (na\<lparr>na_signature := x\<rparr>) = node_announce_fields na"
  "bootstrap_fields (br\<lparr>br_signature := x\<rparr>) = bootstrap_fields br"
  "attestation_fields (ca\<lparr>ca_signature := x\<rparr>) = attestation_fields ca"
  "social_event_payload (ev\<lparr>so_id := i, so_signature := x\<rparr>) = social_event_payload ev"
  by (simp_all add: mailbox_fetch_fields_def mailbox_ack_fields_def key_package_fields_def
      blob_upload_fields_def receipt_fields_def node_announce_fields_def bootstrap_fields_def
      attestation_fields_def social_event_payload_def social_event_head_def)

lemma signed_event_verifies:
  assumes "ed25519_correct l s" "so_network_id ev = network_id n" "sign_social_event l n s ev = Inr ev'"
  shows "verify_social_event l n ev' = Inr ()"
proof -
  let ?e = "ev\<lparr>so_device_pubkey := public_key l s, so_signature := []\<rparr>"
  obtain bs where bs: "social_event_payload ?e = Inr bs"
    and e': "ev' = ?e\<lparr>so_id := sl_blake3 l (signing_preimage n SocialEvent bs),
      so_signature := sign_digest l s (signing_digest (sl_sha256 l) n SocialEvent bs)\<rparr>"
    using assms(3) by (auto simp: sign_social_event_def Let_def and_then_ok)
  have "social_event_payload ev' = Inr bs" unfolding e' fields_unsigned by (rule bs)
  then show ?thesis
    using assms(2) verify_signed [OF assms(1)]
    by (simp add: verify_social_event_def e' check_network_def)
qed


section \<open>What a signature commits to\<close>

lemma canonical_bytes_ok:
  "canonical_bytes fs = Inr p \<longleftrightarrow> (\<forall>x \<in> set fs. field_ok x) \<and> p = concat (map field_bytes fs)"
  unfolding canonical_bytes_def by (rule canonical_finish_iff)

lemma canonical_bytes_inj:
  "canonical_bytes fs = Inr p \<Longrightarrow> canonical_bytes gs = Inr p \<Longrightarrow> list_all2 same_shape fs gs \<Longrightarrow> fs = gs"
  unfolding canonical_bytes_ok by (rule fields_split) auto

lemma media_run:
  "foldl (\<lambda>b m. foldl cb_push b (media_fields m)) b ms = foldl cb_push b (concat (map media_fields ms))"
  by (induction ms arbitrary: b) simp_all

lemma cb_finish_err: "cb_err b \<noteq> None \<Longrightarrow> cb_finish b \<noteq> Inr p"
  by (auto simp: cb_finish_def)

lemma event_payload_ok:
  "social_event_payload ev = Inr p \<longleftrightarrow>
     (\<forall>x \<in> set (social_event_head ev) \<union> set (concat (map media_fields (so_media ev))). field_ok x)
     \<and> length (so_media ev) \<le> MAX_FIELD_BYTES
     \<and> p = concat (map field_bytes (social_event_head ev)) @ u32_be (word_of_nat (length (so_media ev)))
           @ concat (map field_bytes (concat (map media_fields (so_media ev))))"
proof (cases "\<forall>x \<in> set (social_event_head ev). field_ok x")
  case False
  then have "cb_finish (foldl cb_push cb_new (social_event_head ev)) \<noteq> Inr q" for q
    using canonical_finish_iff by blast
  then obtain e where e: "cb_err (foldl cb_push cb_new (social_event_head ev)) = Some e"
    by (cases "cb_err (foldl cb_push cb_new (social_event_head ev))") (auto simp: cb_finish_def)
  then have "social_event_payload ev = Inl e"
    unfolding social_event_payload_def media_run
    by (simp add: cb_err_sticky(7) [OF e] cb_run_sticky [OF e] cb_finish_def)
  then show ?thesis using False by auto
next
  case True
  let ?b = "foldl cb_push cb_new (social_event_head ev)"
  have "cb_finish ?b = Inr (concat (map field_bytes (social_event_head ev)))"
    using True canonical_finish_iff by blast
  then have b: "cb_err ?b = None" "cb_out ?b = concat (map field_bytes (social_event_head ev))"
    by (auto simp: cb_finish_def split: option.splits)
  show ?thesis
  proof (cases "length (so_media ev) \<le> MAX_FIELD_BYTES")
    case True
    let ?c = "cb_len ''media'' (length (so_media ev)) ?b"
    have c: "cb_err ?c = None" "cb_out ?c = cb_out ?b @ u32_be (word_of_nat (length (so_media ev)))"
      using True b by (simp_all add: cb_len_def)
    show ?thesis
      unfolding social_event_payload_def media_run cb_run_ok [OF c(1)] c(2) b(2)
      using True \<open>\<forall>x \<in> set (social_event_head ev). field_ok x\<close> by auto
  next
    case False
    let ?c = "cb_len ''media'' (length (so_media ev)) ?b"
    obtain e where e: "cb_err ?c = Some e" using False b by (simp add: cb_len_def)
    then have "social_event_payload ev = Inl e"
      unfolding social_event_payload_def media_run
      by (simp add: cb_run_sticky [OF e] cb_finish_def)
    then show ?thesis using False by auto
  qed
qed

lemma head_shape: "list_all2 same_shape (social_event_head e) (social_event_head e')"
  by (simp add: social_event_head_def)

lemma media_shape:
  "length ms = length ns \<Longrightarrow> list_all2 same_shape (concat (map media_fields ms)) (concat (map media_fields ns))"
  by (induction ms ns rule: list_induct2) (simp_all add: media_fields_def)

lemma media_fields_inj: "media_fields m = media_fields m' \<Longrightarrow> m = m'"
  by (cases m; cases m') (simp add: media_fields_def)

lemma media_lists_inj:
  "length ms = length ns \<Longrightarrow> concat (map media_fields ms) = concat (map media_fields ns) \<Longrightarrow> ms = ns"
proof (induction ms ns rule: list_induct2)
  case (Cons m ms n ns)
  have "length (media_fields m) = length (media_fields n)" by (simp add: media_fields_def)
  then have "media_fields m = media_fields n" "concat (map media_fields ms) = concat (map media_fields ns)"
    using Cons.prems by simp_all
  then show ?case using Cons.IH media_fields_inj by blast
qed simp

lemma fields_prefix_split:
  "list_all2 same_shape xs ys \<Longrightarrow> \<forall>x \<in> set xs. field_ok x \<Longrightarrow> \<forall>y \<in> set ys. field_ok y \<Longrightarrow>
   concat (map field_bytes xs) @ r = concat (map field_bytes ys) @ s \<Longrightarrow> xs = ys \<and> r = s"
proof (induction xs ys rule: list_all2_induct)
  case Nil
  then show ?case by simp
next
  case (Cons x xs y ys)
  then have "x = y \<and> concat (map field_bytes xs) @ r = concat (map field_bytes ys) @ s"
    by (intro field_split) auto
  with Cons show ?case by simp
qed

text \<open>The payload of a social event determines everything but its identity and signature.\<close>

lemma social_event_commits:
  assumes "social_event_payload e = Inr p" "social_event_payload e' = Inr p"
  shows "e\<lparr>so_id := [], so_signature := []\<rparr> = e'\<lparr>so_id := [], so_signature := []\<rparr>"
proof -
  note a = assms(1) [unfolded event_payload_ok] and b = assms(2) [unfolded event_payload_ok]
  have "social_event_head e = social_event_head e'
    \<and> u32_be (word_of_nat (length (so_media e))) @ concat (map field_bytes (concat (map media_fields (so_media e))))
      = u32_be (word_of_nat (length (so_media e'))) @ concat (map field_bytes (concat (map media_fields (so_media e'))))"
    using a b by (intro fields_prefix_split head_shape) auto
  then have h: "social_event_head e = social_event_head e'"
    and n: "(word_of_nat (length (so_media e)) :: u32) = word_of_nat (length (so_media e'))"
    and m: "concat (map field_bytes (concat (map media_fields (so_media e))))
      = concat (map field_bytes (concat (map media_fields (so_media e'))))"
    by (simp_all add: append_eq_append_conv)
  have l: "length (so_media e) = length (so_media e')"
    using n a b word_of_nat_inj_below [where 'a = 32, of "length (so_media e)" "length (so_media e')"]
    by (simp add: MAX_FIELD_BYTES_def)
  have "concat (map media_fields (so_media e)) = concat (map media_fields (so_media e'))"
    using m a b by (intro fields_split media_shape l) auto
  then have "so_media e = so_media e'" using media_lists_inj l by blast
  then show ?thesis using h by (cases e; cases e') (simp add: social_event_head_def)
qed

lemma verified_event_id:
  "verify_social_event l n e = Inr () \<Longrightarrow> \<exists>p. social_event_payload e = Inr p
    \<and> sl_blake3 l (signing_preimage n SocialEvent p) = so_id e"
  by (cases "social_event_payload e")
    (auto simp: verify_social_event_def and_then_ok split: if_splits)

text \<open>
  An event id names one event: two events that verify under the same id have the same
  author, device, sequence, payload and media, unless the hash collides on what the two commit to.
\<close>
theorem event_id_identifies_event:
  assumes "verify_social_event l n e = Inr ()" "verify_social_event l n e' = Inr ()" "so_id e = so_id e'"
    and "inj_on (sl_blake3 l) {signing_preimage n SocialEvent p | p.
           social_event_payload e = Inr p \<or> social_event_payload e' = Inr p}"
  shows "e\<lparr>so_signature := []\<rparr> = e'\<lparr>so_signature := []\<rparr>"
proof -
  obtain p q where p: "social_event_payload e = Inr p" "sl_blake3 l (signing_preimage n SocialEvent p) = so_id e"
    and q: "social_event_payload e' = Inr q" "sl_blake3 l (signing_preimage n SocialEvent q) = so_id e'"
    using verified_event_id [OF assms(1)] verified_event_id [OF assms(2)] by blast
  have "signing_preimage n SocialEvent p = signing_preimage n SocialEvent q"
  proof (rule inj_onD [OF assms(4)])
    show "sl_blake3 l (signing_preimage n SocialEvent p) = sl_blake3 l (signing_preimage n SocialEvent q)"
      unfolding p(2) q(2) by (rule assms(3))
  qed (use p(1) q(1) in blast)+
  then have "p = q" by (simp add: signing_preimage_def Let_def)
  then have "social_event_payload e' = Inr p" using q(1) by (rule ssubst)
  then have "e\<lparr>so_id := [], so_signature := []\<rparr> = e'\<lparr>so_id := [], so_signature := []\<rparr>"
    by (rule social_event_commits [OF p(1)])
  then show ?thesis using assms(3) by (cases e; cases e') simp
qed

text \<open>
  A signature is good for one service only: no mailbox fetch the store accepts commits to the
  same bytes as a request for TURN credentials, so neither can be presented as the other.
\<close>
theorem fetch_is_no_turn_request:
  assumes "validate_mailbox_fetch f now = Inr page" "validate_turn_credential_fetch g now' = Inr ()"
    and "canonical_bytes (mailbox_fetch_fields f) = Inr p" "canonical_bytes (mailbox_fetch_fields g) = Inr q"
  shows "signing_preimage n MailboxFetch p \<noteq> signing_preimage n MailboxFetch q"
proof
  assume "signing_preimage n MailboxFetch p = signing_preimage n MailboxFetch q"
  then have "p = q" by (simp add: signing_preimage_def Let_def)
  moreover have "list_all2 same_shape (mailbox_fetch_fields f) (mailbox_fetch_fields g)"
    by (simp add: mailbox_fetch_fields_def)
  ultimately have "mailbox_fetch_fields f = mailbox_fetch_fields g"
    using canonical_bytes_inj assms(3,4) by blast
  then have "fe_limit f = fe_limit g" by (simp add: mailbox_fetch_fields_def)
  moreover have "fe_limit f \<noteq> TURN_SENTINEL_LIMIT"
    using assms(1) by (auto simp: validate_mailbox_fetch_def and_then_ok ok_simps simp del: first_err.simps)
  moreover have "fe_limit g = TURN_SENTINEL_LIMIT"
    using assms(2) by (auto simp: validate_turn_credential_fetch_def ok_simps simp del: first_err.simps)
  ultimately show False by simp
qed

section \<open>The properties at concrete inputs\<close>

definition wit_sig :: sig_lib where
  "wit_sig = \<lparr>sl_sha256 = (\<lambda>b. b), sl_blake3 = (\<lambda>b. b), sl_point = (\<lambda>_. True), sl_verify = (\<lambda>_ _ _. True),
     sl_public = (\<lambda>s. s), sl_sign = (\<lambda>_ _. replicate 64 1), sl_libp2p = (\<lambda>b. Some (1, drop 4 b))\<rparr>"

definition wit_net :: network_identity where "wit_net = devnet ''ab''"

definition wit_fetch :: "u32 \<Rightarrow> mailbox_fetch" where
  "wit_fetch k = \<lparr>fe_mailbox = replicate 32 7, fe_device_pubkey = replicate 32 7, fe_cursor = [],
     fe_limit = k, fe_timestamp = 1000, fe_signature = replicate 64 1\<rparr>"

definition wit_social :: social_event where
  "wit_social = \<lparr>so_network_id = network_id wit_net, so_version = 1, so_id = [], so_type = ''FOLLOW'',
     so_author = ''hash1q'', so_device_pubkey = [], so_timestamp = 5, so_sequence = 0,
     so_previous_event = [], so_payload = [1], so_media = [], so_signature = []\<rparr>"

lemma wit_sig_ok: "ed25519_correct wit_sig (replicate 32 7)"
  by (simp add: ed25519_correct_def wit_sig_def SIG_LEN_def)

lemma wit_fetch_bytes:
  "canonical_bytes (mailbox_fetch_fields (wit_fetch k)) = Inr (concat (map field_bytes (mailbox_fetch_fields (wit_fetch k))))"
  by (simp add: canonical_bytes_ok mailbox_fetch_fields_def wit_fetch_def MAX_FIELD_BYTES_def)


theorem event_id_identifies_event_witness:
  "\<exists>e. verify_social_event wit_sig wit_net e = Inr () \<and> so_signature e \<noteq> []
     \<and> (e\<lparr>so_signature := replicate 64 2\<rparr>)\<lparr>so_signature := []\<rparr> = e\<lparr>so_signature := []\<rparr>"
proof -
  have f: "\<forall>x \<in> set (social_event_head (wit_social\<lparr>so_device_pubkey := replicate 32 7, so_signature := []\<rparr>)). field_ok x"
    by (simp add: social_event_head_def wit_social_def MAX_FIELD_BYTES_def wit_net_def devnet_def)
  then obtain bs where "social_event_payload (wit_social\<lparr>so_device_pubkey := replicate 32 7, so_signature := []\<rparr>) = Inr bs"
    using event_payload_ok by (fastforce simp: wit_social_def)
  then obtain e where s: "sign_social_event wit_sig wit_net (replicate 32 7) wit_social = Inr e"
    by (simp add: sign_social_event_def public_key_def wit_sig_def Let_def)
  have v: "verify_social_event wit_sig wit_net e = Inr ()"
    by (rule signed_event_verifies [OF wit_sig_ok _ s]) (simp add: wit_social_def)
  have n: "length (so_signature e) = 64"
    using s by (auto simp: sign_social_event_def and_then_ok Let_def sign_digest_def wit_sig_def)
  have p: "social_event_payload (e\<lparr>so_signature := x\<rparr>) = social_event_payload e" for x
    using fields_unsigned(9) [where ev = e and i = "so_id e" and x = x] by simp
  have v': "verify_social_event wit_sig wit_net (e\<lparr>so_signature := replicate 64 2\<rparr>) = Inr ()"
    using v by (auto simp: verify_social_event_def and_then_ok map_sum_ok p verify_ed25519_def wit_sig_def
        SIG_LEN_def split: if_splits)
  have "inj_on (sl_blake3 wit_sig) A" for A by (simp add: wit_sig_def)
  then have "(e\<lparr>so_signature := replicate 64 2\<rparr>)\<lparr>so_signature := []\<rparr> = e\<lparr>so_signature := []\<rparr>"
    using event_id_identifies_event [OF v' v] by simp
  then show ?thesis using v n by (auto intro!: exI [of _ e])
qed

theorem fetch_is_no_turn_request_witness:
  "signing_preimage wit_net MailboxFetch (concat (map field_bytes (mailbox_fetch_fields (wit_fetch 5))))
    \<noteq> signing_preimage wit_net MailboxFetch (concat (map field_bytes (mailbox_fetch_fields (wit_fetch TURN_SENTINEL_LIMIT))))"
proof (rule fetch_is_no_turn_request [OF _ _ wit_fetch_bytes wit_fetch_bytes])
  have t: "fresh 1000 1000 = Inr ()" by (simp add: fresh_iff)
  show "validate_mailbox_fetch (wit_fetch 5) 1000 = Inr 5"
    by (simp add: validate_mailbox_fetch_def wit_fetch_def v_hash_def v_exact_def v_bound_def HASH_LEN_def
        SIG_LEN_def TURN_SENTINEL_LIMIT_def MAX_MAILBOX_PAGE_def t require_def)
  show "validate_turn_credential_fetch (wit_fetch TURN_SENTINEL_LIMIT) 1000 = Inr ()"
    by (simp add: validate_turn_credential_fetch_def wit_fetch_def v_hash_def v_exact_def HASH_LEN_def
        SIG_LEN_def t require_def)
qed

end
