(* ===== verification/Topics.thy ===== *)
theory Topics
  imports Proto_Signing
begin

text \<open>
  The names under which nodes find one another's services: the gossip topics of
  \<open>hashgram-p2p/src/lib.rs\<close> and the provider keys of \<open>hashgram-proto/src/dht.rs\<close>. BLAKE3,
  hexadecimal and the Unicode lower-casing of a tag are arguments.
\<close>

section \<open>Gossip topics\<close>

text \<open>The decimal form of an unsigned integer.\<close>

fun dec_nat :: "nat \<Rightarrow> string" where
  "dec_nat n = (if n < 10 then [char_of (48 + n)] else dec_nat (n div 10) @ [char_of (48 + n mod 10)])"

declare dec_nat.simps [simp del]

definition SOCIAL_SHARDS :: nat where "SOCIAL_SHARDS = 64"

definition topic_prefix :: "string \<Rightarrow> string" where
  "topic_prefix nid = ''hashgram/'' @ nid"

definition social_shard :: "sig_lib \<Rightarrow> string \<Rightarrow> string \<Rightarrow> string" where
  "social_shard l nid author =
     topic_prefix nid @ ''/social/shard/''
       @ dec_nat (nat_of_be (take 4 (sl_blake3 l (str_bytes author))) mod SOCIAL_SHARDS)"

definition all_social_shards :: "string \<Rightarrow> string list" where
  "all_social_shards nid =
     map (\<lambda>n. topic_prefix nid @ ''/social/shard/'' @ dec_nat n) [0..<SOCIAL_SHARDS]"

definition topic_channel :: "string \<Rightarrow> string \<Rightarrow> string" where
  "topic_channel nid channel_id_hex = topic_prefix nid @ ''/channel/'' @ channel_id_hex"

definition topic_tag :: "sig_lib \<Rightarrow> (bytes \<Rightarrow> string) \<Rightarrow> (string \<Rightarrow> string) \<Rightarrow> string \<Rightarrow> string \<Rightarrow> string" where
  "topic_tag l hex lower nid tag =
     topic_prefix nid @ ''/tag/'' @ hex (take 8 (sl_blake3 l (str_bytes (lower tag))))"

definition mailbox_shard :: "string \<Rightarrow> bytes \<Rightarrow> string" where
  "mailbox_shard nid mailbox =
     topic_prefix nid @ ''/mailbox/''
       @ dec_nat (unat (case mailbox of [] \<Rightarrow> 0 | b # _ \<Rightarrow> b) mod 16)"

definition topic_announce :: "string \<Rightarrow> string" where
  "topic_announce nid = topic_prefix nid @ ''/announce''"

definition topic_safety :: "string \<Rightarrow> string" where
  "topic_safety nid = topic_prefix nid @ ''/safety''"

text \<open>A node that follows all shards hears every author.\<close>

lemma social_shard_listed: "social_shard l n author \<in> set (all_social_shards n)"
  by (auto simp: social_shard_def all_social_shards_def SOCIAL_SHARDS_def)

section \<open>Provider keys\<close>

definition dht_blob :: "bytes \<Rightarrow> bytes" where
  "dht_blob c = str_bytes ''hashgram/blob/'' @ c"

definition dht_mailbox :: "bytes \<Rightarrow> bytes" where
  "dht_mailbox mailbox_id = str_bytes ''hashgram/mailbox/'' @ mailbox_id"

definition dht_mailbox_for_device :: "sig_lib \<Rightarrow> bytes \<Rightarrow> bytes" where
  "dht_mailbox_for_device l device_pubkey = dht_mailbox (sl_blake3 l device_pubkey)"

text \<open>No blob shares its key with a mailbox.\<close>

lemma dht_keys_disjoint: "dht_blob c \<noteq> dht_mailbox m"
  by (simp add: dht_blob_def dht_mailbox_def str_bytes_def)

end
