(* ===== verification/Mailbox_Store.thy ===== *)
theory Mailbox_Store
  imports Topics Peer_Score
begin

text \<open>
  Store-and-forward mailboxes and key packages, the \<open>store\<close> role of a node:
  \<open>hashgram-node/src/mailbox.rs\<close>. A table of the database is an ordered map (the tuples that
  are its keys compare component by component, byte strings lexicographically) and a
  transaction is one update of the tables; errors of the storage engine are not modelled. The
  protobuf codec of envelopes and key packages is an argument. Texts of errors are the error
  values. A write transaction that returns early is dropped, so an error leaves the tables alone.
\<close>

section \<open>State\<close>

definition MAX_ENVELOPES_PER_MAILBOX :: u64 where "MAX_ENVELOPES_PER_MAILBOX = 2000"
definition MAX_BYTES_PER_MAILBOX :: u64 where "MAX_BYTES_PER_MAILBOX = push_bit 20 64"
definition REPLAY_CACHE_CAP :: nat where "REPLAY_CACHE_CAP = 100000"
definition MAX_KEY_PACKAGES_PER_DEVICE :: u64 where "MAX_KEY_PACKAGES_PER_DEVICE = 64"

record replay_cache =
  rc_seen :: "(bytes \<times> u64) list"
  rc_order :: "bytes list"

text \<open>Envelopes by \<open>(mailbox, created_at, id)\<close>, expiries by \<open>(expires_at, id)\<close>, usage as count and
  bytes, one-time key packages by \<open>(device, sequence)\<close>.\<close>

record mailbox_db =
  db_envelopes :: "((bytes \<times> u64 \<times> bytes) \<times> bytes) list"
  db_by_id :: "(bytes \<times> bytes \<times> u64) list"
  db_expiry :: "((u64 \<times> bytes) \<times> unit) list"
  db_usage :: "(bytes \<times> u64 \<times> u64) list"
  db_once :: "((bytes \<times> u64) \<times> bytes) list"
  db_last_resort :: "(bytes \<times> bytes) list"

record mailbox_stats =
  mst_envelopes :: u64
  mst_mailboxes :: u64
  mst_key_packages :: u64
  mst_bytes :: u64

record mailbox_service =
  ms_db :: mailbox_db
  ms_network_id :: string
  ms_notified :: "(bytes \<times> unit) list"
  ms_replays :: replay_cache
  ms_refused :: u64

record store_codec =
  sc_env :: "p2p_envelope \<Rightarrow> bytes"
  sc_env_dec :: "bytes \<Rightarrow> string + p2p_envelope"
  sc_kp :: "key_package_publish \<Rightarrow> bytes"
  sc_kp_dec :: "bytes \<Rightarrow> string + key_package_publish"

datatype put_error =
    PutDuplicate
  | PutInvalid validation_error
  | PutQuota string
  | PutWrongNetwork

definition mailbox_open :: "mailbox_db \<Rightarrow> string \<Rightarrow> mailbox_service" where
  "mailbox_open db nid =
     \<lparr>ms_db = db, ms_network_id = nid, ms_notified = [],
      ms_replays = \<lparr>rc_seen = [], rc_order = []\<rparr>, ms_refused = 0\<rparr>"

section \<open>The replay cache\<close>

text \<open>The loop that makes room: forget the oldest key while the cache is full.\<close>

fun rc_evict :: "(bytes \<times> u64) list \<Rightarrow> bytes list \<Rightarrow> replay_cache" where
  "rc_evict seen [] = \<lparr>rc_seen = seen, rc_order = []\<rparr>"
| "rc_evict seen (old # order) =
     (if length seen \<ge> REPLAY_CACHE_CAP then rc_evict (bt_delete old seen) order
      else \<lparr>rc_seen = seen, rc_order = old # order\<rparr>)"

definition rc_record :: "bytes \<Rightarrow> u64 \<Rightarrow> replay_cache \<Rightarrow> bool \<times> replay_cache" where
  "rc_record key ts c =
     (if map_of (rc_seen c) key \<noteq> None then (False, c)
      else (let c' = rc_evict (rc_seen c) (rc_order c)
            in (True, \<lparr>rc_seen = bt_insert key ts (rc_seen c'), rc_order = rc_order c' @ [key]\<rparr>)))"

definition rc_prune :: "u64 \<Rightarrow> replay_cache \<Rightarrow> replay_cache" where
  "rc_prune now c =
     (let seen = filter (\<lambda>(k, ts). sat_add ts MAX_REQUEST_AGE_SECS \<ge> now) (rc_seen c)
      in if length seen \<noteq> length (rc_seen c)
         then \<lparr>rc_seen = seen, rc_order = filter (\<lambda>k. map_of seen k \<noteq> None) (rc_order c)\<rparr>
         else c\<lparr>rc_seen := seen\<rparr>)"

definition fetch_replay_key :: "sig_lib \<Rightarrow> mailbox_fetch \<Rightarrow> bytes" where
  "fetch_replay_key l f = sl_blake3 l
     (str_bytes ''F'' @ fe_mailbox f @ u64_be (fe_timestamp f) @ sl_blake3 l (fe_cursor f))"

definition ack_replay_key :: "sig_lib \<Rightarrow> mailbox_ack \<Rightarrow> bytes" where
  "ack_replay_key l a = sl_blake3 l
     (str_bytes ''A'' @ ak_mailbox a @ u64_be (ak_timestamp a) @ sl_blake3 l (concat (ak_envelope_ids a)))"

definition first_sight :: "bytes \<Rightarrow> u64 \<Rightarrow> mailbox_service \<Rightarrow> bool \<times> mailbox_service" where
  "first_sight key ts s =
     (let (fresh, c) = rc_record key ts (ms_replays s); s = s\<lparr>ms_replays := c\<rparr>
      in (fresh, if fresh then s else s\<lparr>ms_refused := ms_refused s + 1\<rparr>))"

section \<open>Hints\<close>

definition mailbox_topics :: "mailbox_service \<Rightarrow> string list" where
  "mailbox_topics s = map (\<lambda>n. mailbox_shard (ms_network_id s) [word_of_nat n]) [0..<16]"

datatype acceptance = Accept | Reject

definition on_notify :: "bytes \<Rightarrow> mailbox_service \<Rightarrow> acceptance \<times> mailbox_service" where
  "on_notify mailbox s =
     (if length mailbox \<noteq> 32 then (Reject, s)
      else (Accept, if length (ms_notified s) < 100000
              then s\<lparr>ms_notified := bt_insert mailbox () (ms_notified s)\<rparr> else s))"

definition take_notified :: "bytes \<Rightarrow> mailbox_service \<Rightarrow> bool \<times> mailbox_service" where
  "take_notified mailbox s =
     (map_of (ms_notified s) mailbox \<noteq> None, s\<lparr>ms_notified := bt_delete mailbox (ms_notified s)\<rparr>)"

section \<open>Envelopes\<close>

definition usage_of :: "mailbox_db \<Rightarrow> bytes \<Rightarrow> u64 \<times> u64" where
  "usage_of db mailbox = (case map_of (db_usage db) mailbox of None \<Rightarrow> (0, 0) | Some u \<Rightarrow> u)"

definition store_envelope :: "p2p_envelope \<Rightarrow> bytes \<Rightarrow> u64 \<Rightarrow> mailbox_db \<Rightarrow> mailbox_db" where
  "store_envelope env bs expires_at db =
     (let (count, used) = usage_of db (en_mailbox env)
      in db\<lparr>db_envelopes := bt_insert (en_mailbox env, en_created_at env, en_id env) bs (db_envelopes db),
            db_by_id := bt_insert (en_id env) (en_mailbox env, en_created_at env) (db_by_id db),
            db_expiry := bt_insert (expires_at, en_id env) () (db_expiry db),
            db_usage := bt_insert (en_mailbox env) (count + 1, used + word_of_nat (length bs)) (db_usage db)\<rparr>)"

definition mailbox_put :: "sig_lib \<Rightarrow> store_codec \<Rightarrow> string \<Rightarrow> p2p_envelope \<Rightarrow> u64 \<Rightarrow> mailbox_db \<Rightarrow>
    put_error + u64 \<times> mailbox_db" where
  "mailbox_put l sc nid env t db =
     and_then (map_sum PutInvalid id (validate_envelope env t)) (\<lambda>expires_at.
       if en_network_id env \<noteq> nid then Inl PutWrongNetwork
       else if envelope_id l env \<noteq> en_id env
       then Inl (PutInvalid (VRule ''envelope id does not match content''))
       else
         (let bs = sc_env sc (env\<lparr>en_expires_at := expires_at\<rparr>); size = word_of_nat (length bs);
              (count, used) = usage_of db (en_mailbox env)
          in if map_of (db_by_id db) (en_id env) \<noteq> None then Inl PutDuplicate
             else if count \<ge> MAX_ENVELOPES_PER_MAILBOX
             then Inl (PutQuota (''mailbox holds '' @ dec_nat (unat count) @ '' envelopes, the maximum''))
             else if used + size > MAX_BYTES_PER_MAILBOX
             then Inl (PutQuota (''mailbox holds '' @ dec_nat (unat used) @ '' bytes; ''
                    @ dec_nat (unat size) @ '' more exceeds the maximum''))
             else Inr (expires_at, store_envelope env bs expires_at db)))"

text \<open>The loop of \<open>fetch\<close> over the range of the mailbox from the cursor on.\<close>

definition fetch_step :: "store_codec \<Rightarrow> u64 \<Rightarrow> bytes \<Rightarrow> nat \<Rightarrow> p2p_envelope list \<times> bytes \<times> u64 \<Rightarrow>
    (bytes \<times> u64 \<times> bytes) \<times> bytes \<Rightarrow> p2p_envelope list \<times> bytes \<times> u64" where
  "fetch_step sc from_ts from_id limit acc item =
     (case (acc, item) of ((out, next_cursor, remaining), ((_, ts, i), v)) \<Rightarrow>
        if ts = from_ts \<and> i = from_id then acc
        else if length out \<ge> limit then (out, next_cursor, remaining + 1)
        else (case sc_env_dec sc v of
                Inr env \<Rightarrow> (out @ [env], u64_be ts @ i, remaining)
              | Inl _ \<Rightarrow> acc))"

definition parse_cursor :: "bytes \<Rightarrow> u64 \<times> bytes" where
  "parse_cursor cursor =
     (if length cursor = 40 then (word_of_nat (nat_of_be (take 8 cursor)), drop 8 cursor) else (0, []))"

definition mailbox_range :: "bytes \<Rightarrow> u64 \<Rightarrow> bytes \<Rightarrow> mailbox_db \<Rightarrow>
    ((bytes \<times> u64 \<times> bytes) \<times> bytes) list" where
  "mailbox_range mailbox from_ts from_id db =
     filter (\<lambda>(k, v). (mailbox, from_ts, from_id) \<le> k \<and> k \<le> (mailbox, - 1, replicate 32 (- 1)))
       (db_envelopes db)"

definition mailbox_fetch_page :: "store_codec \<Rightarrow> bytes \<Rightarrow> bytes \<Rightarrow> nat \<Rightarrow> mailbox_db \<Rightarrow>
    p2p_envelope list \<times> bytes \<times> u64" where
  "mailbox_fetch_page sc mailbox cursor limit db =
     (let (from_ts, from_id) = parse_cursor cursor;
          (out, next_cursor, remaining) =
            foldl (fetch_step sc from_ts from_id limit) ([], [], 0) (mailbox_range mailbox from_ts from_id db)
      in (out, if remaining = 0 then [] else next_cursor, remaining))"

text \<open>Removing an envelope takes it out of the three tables; its expiry entry stays until the sweep.\<close>

definition remove_envelope :: "bytes \<Rightarrow> u64 \<Rightarrow> bytes \<Rightarrow> mailbox_db \<Rightarrow> mailbox_db" where
  "remove_envelope mailbox ts i db =
     (let size = (case map_of (db_envelopes db) (mailbox, ts, i) of
                    None \<Rightarrow> 0 | Some v \<Rightarrow> word_of_nat (length v))
      in db\<lparr>db_envelopes := bt_delete (mailbox, ts, i) (db_envelopes db),
            db_by_id := bt_delete i (db_by_id db),
            db_usage := (case map_of (db_usage db) mailbox of
               None \<Rightarrow> db_usage db
             | Some (count, used) \<Rightarrow>
                 if sat_sub count 1 = 0 then bt_delete mailbox (db_usage db)
                 else bt_insert mailbox (sat_sub count 1, sat_sub used size) (db_usage db))\<rparr>)"

definition ack_one :: "bytes \<Rightarrow> u32 \<times> mailbox_db \<Rightarrow> bytes \<Rightarrow> u32 \<times> mailbox_db" where
  "ack_one mailbox acc i =
     (case acc of (deleted, db) \<Rightarrow>
        (case map_of (db_by_id db) i of
           None \<Rightarrow> acc
         | Some (mb, ts) \<Rightarrow>
             if mb \<noteq> mailbox then acc else (deleted + 1, remove_envelope mailbox ts i db)))"

definition mailbox_ack_ids :: "bytes \<Rightarrow> bytes list \<Rightarrow> mailbox_db \<Rightarrow> u32 \<times> mailbox_db" where
  "mailbox_ack_ids mailbox ids db = foldl (ack_one mailbox) (0, db) ids"

definition sweep_one :: "u64 \<times> mailbox_db \<Rightarrow> u64 \<times> bytes \<Rightarrow> u64 \<times> mailbox_db" where
  "sweep_one acc due =
     (case (acc, due) of ((removed, db), (e, i)) \<Rightarrow>
        (let db = db\<lparr>db_expiry := bt_delete (e, i) (db_expiry db)\<rparr>
         in case map_of (db_by_id db) i of
              None \<Rightarrow> (removed, db)
            | Some (mb, ts) \<Rightarrow> (removed + 1, remove_envelope mb ts i db)))"

definition expiry_due :: "u64 \<Rightarrow> mailbox_db \<Rightarrow> (u64 \<times> bytes) list" where
  "expiry_due t db =
     map fst (filter (\<lambda>(k, _). (0, []) \<le> k \<and> k \<le> (t, replicate 32 (- 1))) (db_expiry db))"

definition kp_live :: "store_codec \<Rightarrow> u64 \<Rightarrow> bytes \<Rightarrow> bool" where
  "kp_live sc t v = (case sc_kp_dec sc v of Inr k \<Rightarrow> kp_expires_at k > t | Inl _ \<Rightarrow> False)"

definition sweep_db :: "store_codec \<Rightarrow> u64 \<Rightarrow> mailbox_db \<Rightarrow> u64 \<times> mailbox_db" where
  "sweep_db sc t db =
     (let (removed, db) = foldl sweep_one (0, db) (expiry_due t db)
      in (removed, db\<lparr>db_once := filter (\<lambda>(k, v). kp_live sc t v) (db_once db)\<rparr>))"

definition mailbox_sweep :: "store_codec \<Rightarrow> u64 \<Rightarrow> mailbox_service \<Rightarrow> u64 \<times> mailbox_service" where
  "mailbox_sweep sc t s =
     (let (removed, db) = sweep_db sc t (ms_db s)
      in (removed, s\<lparr>ms_db := db, ms_replays := rc_prune t (ms_replays s)\<rparr>))"

section \<open>Key packages\<close>

definition once_of :: "bytes \<Rightarrow> mailbox_db \<Rightarrow> (u64 \<times> bytes) list" where
  "once_of device db =
     map (\<lambda>((_, n), v). (n, v)) (filter (\<lambda>(k, v). (device, 0) \<le> k \<and> k \<le> (device, - 1)) (db_once db))"

definition put_key_package :: "store_codec \<Rightarrow> key_package_publish \<Rightarrow> mailbox_db \<Rightarrow> u32 \<times> mailbox_db" where
  "put_key_package sc k db =
     (let dev = kp_device_pubkey k;
          keep_old = (case map_of (db_last_resort db) dev of
             None \<Rightarrow> False
           | Some v \<Rightarrow> (case sc_kp_dec sc v of
               Inr old \<Rightarrow> kp_created_at old > kp_created_at k | Inl _ \<Rightarrow> False));
          db = (if kp_last_resort k \<and> \<not> keep_old
                then db\<lparr>db_last_resort := bt_insert dev (sc_kp sc k) (db_last_resort db)\<rparr> else db);
          existing = map fst (once_of dev db);
          n = word_of_nat (length existing) :: u32
      in if kp_last_resort k then (n, db)
         else if (word_of_nat (length existing) :: u64) \<ge> MAX_KEY_PACKAGES_PER_DEVICE then (n, db)
         else (let next = (if existing = [] then 0 else last existing + 1)
               in (n + 1, db\<lparr>db_once := bt_insert (dev, next) (sc_kp sc k) (db_once db)\<rparr>)))"

definition take_key_package :: "store_codec \<Rightarrow> bytes \<Rightarrow> u64 \<Rightarrow> mailbox_db \<Rightarrow>
    key_package_publish option \<times> mailbox_db" where
  "take_key_package sc device t db =
     (let (out, db) = (case find (\<lambda>(n, v). kp_live sc t v) (once_of device db) of
             None \<Rightarrow> (None, db)
           | Some (n, raw) \<Rightarrow>
               (case sc_kp_dec sc raw of Inr k \<Rightarrow> Some k | Inl _ \<Rightarrow> None,
                db\<lparr>db_once := bt_delete (device, n) (db_once db)\<rparr>));
          out = (if out = None
                 then (case map_of (db_last_resort db) device of
                         None \<Rightarrow> None
                       | Some v \<Rightarrow> (case sc_kp_dec sc v of
                           Inr k \<Rightarrow> if kp_expires_at k > t then Some k else None | Inl _ \<Rightarrow> None))
                 else out)
      in (out, db))"

definition mailbox_statistics :: "mailbox_db \<Rightarrow> mailbox_stats" where
  "mailbox_statistics db = foldl (\<lambda>st (_, c, b).
       st\<lparr>mst_envelopes := mst_envelopes st + c, mst_mailboxes := mst_mailboxes st + 1,
          mst_bytes := mst_bytes st + b\<rparr>)
     \<lparr>mst_envelopes = 0, mst_mailboxes = 0,
      mst_key_packages = word_of_nat (length (db_once db)) + word_of_nat (length (db_last_resort db)),
      mst_bytes = 0\<rparr> (db_usage db)"

section \<open>Requests\<close>

datatype mailbox_request =
    RqPut "p2p_envelope option"
  | RqFetch mailbox_fetch
  | RqAck mailbox_ack
  | RqPublish key_package_publish
  | RqTake bytes
  | RqOther

datatype response_error = EText string | EValidation validation_error | EVerify verify_error

datatype mailbox_response =
    RsError string response_error
  | RsPut bool string u64
  | RsFetch "p2p_envelope list" bytes u64
  | RsAck u32
  | RsPublish bool string u32
  | RsTake bool "key_package_publish option"

text \<open>What a request does to the swarm: publish a notify hint, score the peer, advertise.\<close>

datatype swarm_effect = Publish string bytes | Score score_event | Provide bytes

definition handle_put :: "sig_lib \<Rightarrow> store_codec \<Rightarrow> p2p_envelope option \<Rightarrow> u64 \<Rightarrow> mailbox_service \<Rightarrow>
    mailbox_response \<times> swarm_effect list \<times> mailbox_service" where
  "handle_put l sc p t s =
     (case p of
        None \<Rightarrow> (RsError ''invalid'' (EText ''no envelope''), [], s)
      | Some env \<Rightarrow>
          (case mailbox_put l sc (ms_network_id s) env t (ms_db s) of
             Inr (expires_at, db) \<Rightarrow>
               (RsPut True [] expires_at,
                [Publish (mailbox_shard (ms_network_id s) (en_mailbox env)) (en_mailbox env)],
                s\<lparr>ms_db := db\<rparr>)
           | Inl PutDuplicate \<Rightarrow> (RsPut True ''duplicate'' 0, [], s)
           | Inl (PutInvalid e) \<Rightarrow> (RsError ''invalid'' (EValidation e), [Score MalformedFrame], s)
           | Inl (PutQuota why) \<Rightarrow> (RsError ''quota'' (EText why), [], s)
           | Inl PutWrongNetwork \<Rightarrow>
               (RsError ''invalid'' (EText ''envelope is for another network''), [], s)))"

definition handle_fetch :: "sig_lib \<Rightarrow> store_codec \<Rightarrow> network_identity \<Rightarrow> mailbox_fetch \<Rightarrow> u64 \<Rightarrow>
    mailbox_service \<Rightarrow> mailbox_response \<times> swarm_effect list \<times> mailbox_service" where
  "handle_fetch l sc net f t s =
     (case validate_mailbox_fetch f t of
        Inl e \<Rightarrow> (RsError ''invalid'' (EValidation e), [], s)
      | Inr limit \<Rightarrow>
          (case verify_mailbox_fetch l net f of
             Inl e \<Rightarrow> (RsError ''invalid'' (EVerify e), [Score InvalidSignature], s)
           | Inr _ \<Rightarrow>
               (let (fresh, s) = first_sight (fetch_replay_key l f) (fe_timestamp f) s
                in if \<not> fresh then (RsError ''invalid'' (EText ''replayed request''), [], s)
                   else (case mailbox_fetch_page sc (fe_mailbox f) (fe_cursor f) (unat limit) (ms_db s) of
                           (envelopes, cursor, remaining) \<Rightarrow> (RsFetch envelopes cursor remaining, [], s)))))"

definition handle_ack :: "sig_lib \<Rightarrow> network_identity \<Rightarrow> mailbox_ack \<Rightarrow> u64 \<Rightarrow> mailbox_service \<Rightarrow>
    mailbox_response \<times> swarm_effect list \<times> mailbox_service" where
  "handle_ack l net a t s =
     (case validate_mailbox_ack a t of
        Inl e \<Rightarrow> (RsError ''invalid'' (EValidation e), [], s)
      | Inr _ \<Rightarrow>
          (case verify_mailbox_ack l net a of
             Inl e \<Rightarrow> (RsError ''invalid'' (EVerify e), [Score InvalidSignature], s)
           | Inr _ \<Rightarrow>
               (let (fresh, s) = first_sight (ack_replay_key l a) (ak_timestamp a) s
                in if \<not> fresh then (RsError ''invalid'' (EText ''replayed request''), [], s)
                   else (case mailbox_ack_ids (ak_mailbox a) (ak_envelope_ids a) (ms_db s) of
                           (deleted, db) \<Rightarrow> (RsAck deleted, [], s\<lparr>ms_db := db\<rparr>)))))"

definition handle_publish :: "sig_lib \<Rightarrow> store_codec \<Rightarrow> network_identity \<Rightarrow> key_package_publish \<Rightarrow> u64 \<Rightarrow>
    mailbox_service \<Rightarrow> mailbox_response \<times> swarm_effect list \<times> mailbox_service" where
  "handle_publish l sc net k t s =
     (case validate_key_package k t of
        Inl e \<Rightarrow> (RsError ''invalid'' (EValidation e), [], s)
      | Inr _ \<Rightarrow>
          (case verify_key_package l net k of
             Inl e \<Rightarrow> (RsError ''invalid'' (EVerify e), [Score InvalidSignature], s)
           | Inr _ \<Rightarrow>
               (case put_key_package sc k (ms_db s) of (remaining, db) \<Rightarrow>
                  (RsPublish True [] remaining, [Provide (dht_mailbox_for_device l (kp_device_pubkey k))],
                   s\<lparr>ms_db := db\<rparr>))))"

text \<open>\<open>t\<close> is the clock at the start of a request and \<open>t'\<close> its second reading, for a key package.\<close>

definition mailbox_handle :: "sig_lib \<Rightarrow> store_codec \<Rightarrow> network_identity \<Rightarrow> mailbox_request \<Rightarrow> u64 \<Rightarrow> u64 \<Rightarrow>
    mailbox_service \<Rightarrow> mailbox_response \<times> swarm_effect list \<times> mailbox_service" where
  "mailbox_handle l sc net rq t t' s =
     (case rq of
        RqPut p \<Rightarrow> handle_put l sc p t s
      | RqFetch f \<Rightarrow> handle_fetch l sc net f t s
      | RqAck a \<Rightarrow> handle_ack l net a t s
      | RqPublish k \<Rightarrow> handle_publish l sc net k t s
      | RqTake device \<Rightarrow>
          (case take_key_package sc device t' (ms_db s) of
             (Some k, db) \<Rightarrow> (RsTake True (Some k), [], s\<lparr>ms_db := db\<rparr>)
           | (None, db) \<Rightarrow> (RsTake False None, [], s\<lparr>ms_db := db\<rparr>))
      | RqOther \<Rightarrow> (RsError ''invalid'' (EText ''not a mailbox request''), [], s))"

section \<open>The loop of a client\<close>

text \<open>
  The paging loop of \<open>sync\<close> in the SDK against one store: fetch a page from the cursor, process
  it, acknowledge what \<open>decide\<close> names, go on with the cursor of the page. Signing and transport are
  left out, and what the client does with a page is the argument \<open>decide\<close>. The loop takes as many
  steps as there are pages; \<open>None\<close> is running out of the fuel.
\<close>

definition SYNC_PAGE :: nat where "SYNC_PAGE = 50"

fun sync_pages :: "store_codec \<Rightarrow> bytes \<Rightarrow> (p2p_envelope list \<Rightarrow> bytes list) \<Rightarrow> nat \<Rightarrow> bytes \<Rightarrow> mailbox_db \<Rightarrow>
    (p2p_envelope list \<times> bytes \<times> mailbox_db) option" where
  "sync_pages sc m decide 0 cursor db = None"
| "sync_pages sc m decide (Suc fuel) cursor db =
     (case mailbox_fetch_page sc m cursor SYNC_PAGE db of (envelopes, next_cursor, _) \<Rightarrow>
        if envelopes = [] then Some ([], cursor, db)
        else
          (let db' = snd (mailbox_ack_ids m (decide envelopes) db)
           in if next_cursor = [] then Some (envelopes, [], db')
              else (case sync_pages sc m decide fuel next_cursor db' of
                      None \<Rightarrow> None
                    | Some (rest, c, db'') \<Rightarrow> Some (envelopes @ rest, c, db''))))"

end
