(* ===== verification/Mailbox_Inv.thy ===== *)
theory Mailbox_Inv
  imports Mailbox_Store
begin

text \<open>
  What every operation of the mailbox store keeps: the tables agree with one another, the usage
  table is exact and within the quotas, and the replay cache remembers the order of its keys.
\<close>

section \<open>Ordered tables\<close>

lemma sum_bt_insert:
  fixes f :: "_ \<Rightarrow> nat"
  shows "map_of m k = None \<Longrightarrow> sum_list (map f (filter P (bt_insert k v m)))
      = (if P (k, v) then f (k, v) else 0) + sum_list (map f (filter P m))"
  by (induction k v m rule: bt_insert.induct) (auto split: if_splits)

lemma sum_bt_delete:
  fixes f :: "_ \<Rightarrow> nat"
  shows "distinct (map fst m) \<Longrightarrow> map_of m k = Some v \<Longrightarrow> sum_list (map f (filter P m))
      = (if P (k, v) then f (k, v) else 0) + sum_list (map f (filter P (bt_delete k m)))"
proof (induction m)
  case Nil
  then show ?case by simp
next
  case (Cons p m)
  show ?case
  proof (cases "fst p = k")
    case True
    then have "filter (\<lambda>p. fst p \<noteq> k) m = m"
      using Cons.prems(1) by (auto simp: filter_id_conv image_iff)
    then show ?thesis using True Cons.prems(2) by (cases p) (auto simp: bt_delete_def)
  next
    case False
    then show ?thesis using Cons by (cases p) (auto simp: bt_delete_def)
  qed
qed

lemma length_as_sum: "length xs = sum_list (map (\<lambda>_. 1) xs)"
  by (induction xs) auto

lemma map_of_set: "bt_wf m \<Longrightarrow> (k, v) \<in> set m \<longleftrightarrow> map_of m k = Some v"
  by (metis bt_wf_distinct map_of_eq_Some_iff)

text \<open>No byte string of at most \<open>n\<close> bytes exceeds \<open>n\<close> bytes \<open>0xff\<close>.\<close>

lemma le_ff: "length i \<le> n \<Longrightarrow> i \<le> replicate n (- 1 :: byte)"
proof (induction n arbitrary: i)
  case 0
  then show ?case by simp
next
  case (Suc n)
  show ?case
  proof (cases i)
    case Nil
    then show ?thesis by simp
  next
    case (Cons b bs)
    then have "bs \<le> replicate n (- 1)" using Suc by simp
    then show ?thesis using Cons by (cases "b = - 1") (auto simp: word_order.not_eq_extremum)
  qed
qed

section \<open>The invariant of the tables\<close>

text \<open>An envelope as the store accepts it for its network, and the codec on those.\<close>

definition storable :: "string \<Rightarrow> p2p_envelope \<Rightarrow> bool" where
  "storable nid e \<longleftrightarrow> en_network_id e = nid \<and> en_version e = WIRE_VERSION \<and> en_kind e \<in> {1, 2, 3}
     \<and> length (en_id e) = 32 \<and> length (en_mailbox e) = 32
     \<and> length (en_ciphertext e) \<le> MAX_ENVELOPE_CIPHERTEXT"

definition codec_ok :: "store_codec \<Rightarrow> string \<Rightarrow> bool" where
  "codec_ok sc nid \<longleftrightarrow> (\<forall>e. storable nid e \<longrightarrow>
     sc_env_dec sc (sc_env sc e) = Inr e \<and> length (sc_env sc e) < 2 ^ 63)"

definition in_mailbox :: "bytes \<Rightarrow> (bytes \<times> u64 \<times> bytes) \<times> bytes \<Rightarrow> bool" where
  "in_mailbox m p \<longleftrightarrow> fst (fst p) = m"

definition mail_count :: "mailbox_db \<Rightarrow> bytes \<Rightarrow> nat" where
  "mail_count db m = length (filter (in_mailbox m) (db_envelopes db))"

definition mail_bytes :: "mailbox_db \<Rightarrow> bytes \<Rightarrow> nat" where
  "mail_bytes db m = sum_list (map (\<lambda>p. length (snd p)) (filter (in_mailbox m) (db_envelopes db)))"

definition tables_wf :: "mailbox_db \<Rightarrow> bool" where
  "tables_wf db \<longleftrightarrow> bt_wf (db_envelopes db) \<and> bt_wf (db_by_id db) \<and> bt_wf (db_expiry db)
     \<and> bt_wf (db_usage db) \<and> bt_wf (db_once db) \<and> bt_wf (db_last_resort db)"

definition record_ok :: "store_codec \<Rightarrow> string \<Rightarrow> mailbox_db \<Rightarrow> bytes \<times> u64 \<times> bytes \<Rightarrow> bytes \<Rightarrow> bool" where
  "record_ok sc nid db k v \<longleftrightarrow> (\<exists>e. v = sc_env sc e \<and> storable nid e
     \<and> k = (en_mailbox e, en_created_at e, en_id e)
     \<and> map_of (db_by_id db) (en_id e) = Some (en_mailbox e, en_created_at e)
     \<and> map_of (db_expiry db) (en_expires_at e, en_id e) = Some ())"

definition usage_exact :: "mailbox_db \<Rightarrow> bytes \<Rightarrow> bool" where
  "usage_exact db m \<longleftrightarrow> mail_count db m \<le> 2000 \<and> mail_bytes db m \<le> 64 * 2 ^ 20
     \<and> map_of (db_usage db) m = (if mail_count db m = 0 then None
          else Some (word_of_nat (mail_count db m), word_of_nat (mail_bytes db m)))"

definition mailbox_ok :: "store_codec \<Rightarrow> string \<Rightarrow> mailbox_db \<Rightarrow> bool" where
  "mailbox_ok sc nid db \<longleftrightarrow> tables_wf db
     \<and> (\<forall>k v. map_of (db_envelopes db) k = Some v \<longrightarrow> record_ok sc nid db k v)
     \<and> (\<forall>i m c. map_of (db_by_id db) i = Some (m, c) \<longrightarrow> map_of (db_envelopes db) (m, c, i) \<noteq> None)
     \<and> (\<forall>m. usage_exact db m) \<and> (\<forall>d. length (once_of d db) \<le> 64)"

lemma mailbox_okD:
  assumes "mailbox_ok sc nid db"
  shows "tables_wf db" "map_of (db_envelopes db) k = Some v \<Longrightarrow> record_ok sc nid db k v"
    "map_of (db_by_id db) i = Some (m, c) \<Longrightarrow> map_of (db_envelopes db) (m, c, i) \<noteq> None"
    "usage_exact db m" "length (once_of d db) \<le> 64"
  using assms unfolding mailbox_ok_def by blast+

lemma stored_envelope:
  assumes "mailbox_ok sc nid db" "map_of (db_envelopes db) (m, c, i) = Some v"
  obtains e where "v = sc_env sc e" "storable nid e" "m = en_mailbox e" "c = en_created_at e" "i = en_id e"
    "map_of (db_by_id db) i = Some (m, c)" "map_of (db_expiry db) (en_expires_at e, i) = Some ()"
  using mailbox_okD(2) [OF assms] by (auto simp: record_ok_def)

section \<open>Storing an envelope\<close>

lemma put_ok:
  assumes "mailbox_put l sc nid env t db = Inr (e, db')"
  shows "validate_envelope env t = Inr e" "storable nid env" "envelope_id l env = en_id env"
    "map_of (db_by_id db) (en_id env) = None"
    "fst (usage_of db (en_mailbox env)) < 2000"
    "snd (usage_of db (en_mailbox env)) + word_of_nat (length (sc_env sc (env\<lparr>en_expires_at := e\<rparr>)))
       \<le> MAX_BYTES_PER_MAILBOX"
    "db' = store_envelope env (sc_env sc (env\<lparr>en_expires_at := e\<rparr>)) e db"
proof -
  obtain e' where v: "validate_envelope env t = Inr e'"
    using assms by (auto simp: mailbox_put_def and_then_ok ok_simps)
  have r: "e' = e \<and> en_network_id env = nid \<and> envelope_id l env = en_id env
      \<and> map_of (db_by_id db) (en_id env) = None \<and> fst (usage_of db (en_mailbox env)) < 2000
      \<and> snd (usage_of db (en_mailbox env)) + word_of_nat (length (sc_env sc (env\<lparr>en_expires_at := e'\<rparr>)))
          \<le> MAX_BYTES_PER_MAILBOX
      \<and> db' = store_envelope env (sc_env sc (env\<lparr>en_expires_at := e'\<rparr>)) e' db"
    using assms by (auto simp: mailbox_put_def v Let_def MAX_ENVELOPES_PER_MAILBOX_def not_le not_less
        simp del: not_None_eq split: prod.splits if_splits)
  then show "validate_envelope env t = Inr e" "envelope_id l env = en_id env"
    "map_of (db_by_id db) (en_id env) = None" "fst (usage_of db (en_mailbox env)) < 2000"
    "snd (usage_of db (en_mailbox env)) + word_of_nat (length (sc_env sc (env\<lparr>en_expires_at := e\<rparr>)))
       \<le> MAX_BYTES_PER_MAILBOX"
    "db' = store_envelope env (sc_env sc (env\<lparr>en_expires_at := e\<rparr>)) e db"
    using v by auto
  have "en_network_id env = nid" using r by blast
  then show "storable nid env"
    using v by (auto simp: validate_envelope_def storable_def HASH_LEN_def and_then_ok ok_simps
        simp del: first_err.simps)
qed

lemma usage_of_exact:
  assumes "usage_exact db m"
  shows "usage_of db m = (word_of_nat (mail_count db m), word_of_nat (mail_bytes db m))"
proof (cases "mail_count db m = 0")
  case True
  then have "filter (in_mailbox m) (db_envelopes db) = []" by (simp add: mail_count_def)
  then have "mail_bytes db m = 0" by (simp add: mail_bytes_def)
  then show ?thesis using True assms by (simp add: usage_exact_def usage_of_def)
next
  case False
  then show ?thesis using assms by (simp add: usage_exact_def usage_of_def)
qed

text \<open>The sums of the quota check do not wrap: what is used is within the quota.\<close>

lemma quota_sum:
  fixes n :: nat
  assumes "u \<le> 64 * 2 ^ 20" "n < 2 ^ 63" "word_of_nat u + word_of_nat n \<le> MAX_BYTES_PER_MAILBOX"
  shows "u + n \<le> 64 * 2 ^ 20"
proof -
  have "unat (word_of_nat u + word_of_nat n :: u64) = (u + n) mod 2 ^ 64"
    by (simp add: unat_of_nat flip: of_nat_add)
  then have "unat (word_of_nat u + word_of_nat n :: u64) = u + n" using assms(1,2) by simp
  then show ?thesis using assms(3)
    by (simp add: word_le_nat_alt MAX_BYTES_PER_MAILBOX_def push_bit_eq_mult)
qed

lemma store_envelope_ok:
  assumes inv: "mailbox_ok sc nid db" and c: "codec_ok sc nid"
    and p: "mailbox_put l sc nid env t db = Inr (e, db')"
  shows "mailbox_ok sc nid db'"
proof -
  note pr = put_ok [OF p]
  let ?m = "en_mailbox env" let ?i = "en_id env" let ?k = "(en_mailbox env, en_created_at env, en_id env)"
  let ?env = "env\<lparr>en_expires_at := e\<rparr>" let ?bs = "sc_env sc ?env"
  have st: "storable nid ?env" using pr(2) by (simp add: storable_def)
  have len: "length ?bs < 2 ^ 63" using c st by (simp add: codec_ok_def)
  have new: "map_of (db_envelopes db) ?k = None"
    using mailbox_okD(2) [OF inv, of ?k] pr(4) by (cases "map_of (db_envelopes db) ?k") (auto simp: record_ok_def)
  have ue: "usage_exact db ?m" by (rule mailbox_okD(4) [OF inv])
  have u: "usage_of db ?m = (word_of_nat (mail_count db ?m), word_of_nat (mail_bytes db ?m))"
    by (rule usage_of_exact [OF ue])
  have db': "db_envelopes db' = bt_insert ?k ?bs (db_envelopes db)"
    "db_by_id db' = bt_insert ?i (?m, en_created_at env) (db_by_id db)"
    "db_expiry db' = bt_insert (e, ?i) () (db_expiry db)"
    "db_usage db' = bt_insert ?m (word_of_nat (mail_count db ?m) + 1,
       word_of_nat (mail_bytes db ?m) + word_of_nat (length ?bs)) (db_usage db)"
    "db_once db' = db_once db" "db_last_resort db' = db_last_resort db"
    by (simp_all add: pr(7) store_envelope_def u)
  have cnt: "mail_count db' m = (if m = ?m then 1 else 0) + mail_count db m" for m
    using sum_bt_insert [OF new, of "\<lambda>_. 1" "in_mailbox m" ?bs]
    by (simp add: mail_count_def db'(1) length_as_sum in_mailbox_def)
  have byt: "mail_bytes db' m = (if m = ?m then length ?bs else 0) + mail_bytes db m" for m
    using sum_bt_insert [OF new, of "\<lambda>p. length (snd p)" "in_mailbox m" ?bs]
    by (simp add: mail_bytes_def db'(1) in_mailbox_def)
  have c2: "mail_count db ?m < 2000"
    using pr(5) ue by (simp add: u usage_exact_def word_less_nat_alt unat_of_nat)
  have b2: "length ?bs + mail_bytes db ?m \<le> 64 * 2 ^ 20"
    using quota_sum [OF _ len, of "mail_bytes db ?m"] pr(6) ue by (simp add: u usage_exact_def add.commute)
  have us: "usage_exact db' m" for m
  proof (cases "m = ?m")
    case True
    then show ?thesis using c2 b2 by (simp add: usage_exact_def cnt byt db'(4) add.commute)
  next
    case False
    then show ?thesis using mailbox_okD(4) [OF inv, of m] by (simp add: usage_exact_def cnt byt db'(4))
  qed
  have rec: "record_ok sc nid db' k v" if "map_of (db_envelopes db') k = Some v" for k v
  proof (cases "k = ?k")
    case True
    then have "v = ?bs" using that by (simp add: db'(1))
    then show ?thesis using True st
      by (auto simp: record_ok_def db'(2,3) intro!: exI [of _ ?env])
  next
    case False
    then have "record_ok sc nid db k v" using that mailbox_okD(2) [OF inv] by (simp add: db'(1))
    then obtain e' where e': "v = sc_env sc e'" "storable nid e'" "k = (en_mailbox e', en_created_at e', en_id e')"
      "map_of (db_by_id db) (en_id e') = Some (en_mailbox e', en_created_at e')"
      "map_of (db_expiry db) (en_expires_at e', en_id e') = Some ()"
      by (auto simp: record_ok_def)
    then have "en_id e' \<noteq> ?i" using pr(4) by auto
    then show ?thesis using e' unfolding record_ok_def db'(2,3) by (intro exI [of _ e']) simp
  qed
  have idx: "map_of (db_envelopes db') (m, c, i) \<noteq> None" if "map_of (db_by_id db') i = Some (m, c)" for i m c
    using that mailbox_okD(3) [OF inv, of i m c] by (auto simp: db'(1,2) split: if_splits)
  have wf: "tables_wf db'"
    using mailbox_okD(1) [OF inv] by (simp add: tables_wf_def db' bt_wf_insert)
  have "length (once_of d db') \<le> 64" for d
    using mailbox_okD(5) [OF inv, of d] by (simp add: once_of_def db'(5))
  then show ?thesis using wf rec idx us unfolding mailbox_ok_def by blast
qed

section \<open>Removing an envelope\<close>

lemma sat_sub_of_nat:
  "a < 2 ^ 64 \<Longrightarrow> b < 2 ^ 64 \<Longrightarrow> sat_sub (word_of_nat a) (word_of_nat b) = (word_of_nat (a - b) :: u64)"
  by (simp add: word_unat_eq_iff unat_sat_sub unat_of_nat)

text \<open>\<open>x\<close> is the expiry table after the entries of some identifier \<open>i\<close> were dropped.\<close>

lemma forget_expiry_ok:
  assumes inv: "mailbox_ok sc nid db" and i: "map_of (db_by_id db) i = None"
    and x: "bt_wf x" "\<And>k. snd k \<noteq> i \<Longrightarrow> map_of x k = map_of (db_expiry db) k"
  shows "mailbox_ok sc nid (db\<lparr>db_expiry := x\<rparr>)"
proof -
  let ?db = "db\<lparr>db_expiry := x\<rparr>"
  have "record_ok sc nid ?db k v" if r: "record_ok sc nid db k v" for k v
  proof -
    obtain e where e: "v = sc_env sc e" "storable nid e" "k = (en_mailbox e, en_created_at e, en_id e)"
      "map_of (db_by_id db) (en_id e) = Some (en_mailbox e, en_created_at e)"
      "map_of (db_expiry db) (en_expires_at e, en_id e) = Some ()"
      using r by (auto simp: record_ok_def)
    have "en_id e \<noteq> i" using e(4) i by auto
    then have "map_of x (en_expires_at e, en_id e) = Some ()" using x(2) e(5) by simp
    then show ?thesis using e unfolding record_ok_def by (intro exI [of _ e]) simp
  qed
  then show ?thesis using inv x(1)
    unfolding mailbox_ok_def tables_wf_def usage_exact_def mail_count_def mail_bytes_def once_of_def
    by (simp del: split_paired_All)
qed

lemma remove_envelope_ok:
  assumes inv: "mailbox_ok sc nid db" and c: "codec_ok sc nid" and i: "map_of (db_by_id db) i = Some (m, c)"
    and x: "bt_wf x" "\<And>k. snd k \<noteq> i \<Longrightarrow> map_of x k = map_of (db_expiry db) k"
  shows "mailbox_ok sc nid (remove_envelope m c i (db\<lparr>db_expiry := x\<rparr>))" (is "mailbox_ok sc nid ?db")
proof -
  obtain v where v: "map_of (db_envelopes db) (m, c, i) = Some v" using mailbox_okD(3) [OF inv i] by blast
  have wf: "tables_wf db" by (rule mailbox_okD(1) [OF inv])
  then have d: "distinct (map fst (db_envelopes db))" by (simp add: tables_wf_def bt_wf_distinct)
  note ex = mailbox_okD(4) [OF inv, of m]
  have cnt: "mail_count db n = (if n = m then 1 else 0) + mail_count ?db n" for n
    using sum_bt_delete [OF d v, of "\<lambda>_. 1" "in_mailbox n"]
    by (simp add: mail_count_def remove_envelope_def length_as_sum in_mailbox_def)
  have byt: "mail_bytes db n = (if n = m then length v else 0) + mail_bytes ?db n" for n
    using sum_bt_delete [OF d v, of "\<lambda>p. length (snd p)" "in_mailbox n"]
    by (simp add: mail_bytes_def remove_envelope_def in_mailbox_def)
  have um: "map_of (db_usage db) m = Some (word_of_nat (mail_count db m), word_of_nat (mail_bytes db m))"
    using ex cnt [of m] by (simp add: usage_exact_def)
  have bound: "mail_count db m \<le> 2000" "mail_bytes db m \<le> 64 * 2 ^ 20"
    using ex by (simp_all add: usage_exact_def)
  have c1: "sat_sub (word_of_nat (mail_count db m)) 1 = (word_of_nat (mail_count ?db m) :: u64)"
    using sat_sub_of_nat [of "mail_count db m" 1] bound cnt [of m] by simp
  have b1: "sat_sub (word_of_nat (mail_bytes db m)) (word_of_nat (length v)) = (word_of_nat (mail_bytes ?db m) :: u64)"
    using sat_sub_of_nat [of "mail_bytes db m" "length v"] bound byt [of m] by simp
  have z: "(word_of_nat (mail_count ?db m) :: u64) = 0 \<longleftrightarrow> mail_count ?db m = 0"
    using word_of_nat_inj_below [of "mail_count ?db m" 0, where 'a = 64] bound cnt [of m] by simp
  have ul: "map_of (db_usage ?db) n = (if n = m then
      if (word_of_nat (mail_count ?db m) :: u64) = 0 then None
      else Some (word_of_nat (mail_count ?db m), word_of_nat (mail_bytes ?db m)) else map_of (db_usage db) n)" for n
    unfolding c1 [symmetric] b1 [symmetric] by (simp add: remove_envelope_def um v)
  have us: "usage_exact ?db n" for n
    using bound cnt [of n] byt [of n] mailbox_okD(4) [OF inv, of n] unfolding usage_exact_def ul z
    by (cases "n = m") simp_all
  have rec: "record_ok sc nid ?db k w" if "map_of (db_envelopes ?db) k = Some w" for k w
  proof -
    obtain n ts j where k: "k = (n, ts, j)" by (cases k)
    have w: "map_of (db_envelopes db) (n, ts, j) = Some w" and ne: "(n, ts, j) \<noteq> (m, c, i)"
      using that by (auto simp: remove_envelope_def k split: if_splits)
    obtain e where e: "w = sc_env sc e" "storable nid e" "n = en_mailbox e" "ts = en_created_at e" "j = en_id e"
      "map_of (db_by_id db) j = Some (n, ts)" "map_of (db_expiry db) (en_expires_at e, j) = Some ()"
      by (rule stored_envelope [OF inv w])
    have "j \<noteq> i" using ne e(6) i by auto
    then have "map_of (db_by_id ?db) j = Some (n, ts)" "map_of (db_expiry ?db) (en_expires_at e, j) = Some ()"
      using e(6,7) x(2) [of "(en_expires_at e, j)"] by (simp_all add: remove_envelope_def)
    then show ?thesis using e(1-5) unfolding record_ok_def k by blast
  qed
  have idx: "map_of (db_envelopes ?db) (n, ts, j) \<noteq> None" if "map_of (db_by_id ?db) j = Some (n, ts)" for j n ts
    using that mailbox_okD(3) [OF inv, of j n ts] by (auto simp: remove_envelope_def split: if_splits)
  have "tables_wf ?db"
    using wf x(1) by (simp add: tables_wf_def remove_envelope_def bt_wf_delete bt_wf_insert split: option.split)
  moreover have "length (once_of d ?db) \<le> 64" for d
    using mailbox_okD(5) [OF inv, of d] by (simp add: once_of_def remove_envelope_def)
  ultimately show ?thesis using rec idx us unfolding mailbox_ok_def by blast
qed

lemma ack_one_ok:
  assumes "codec_ok sc nid" "mailbox_ok sc nid (snd acc)"
  shows "mailbox_ok sc nid (snd (ack_one m acc i))"
proof -
  have "mailbox_ok sc nid (remove_envelope m ts i (snd acc))"
    if "map_of (db_by_id (snd acc)) i = Some (m, ts)" for ts
    using remove_envelope_ok [OF assms(2,1) that, of "db_expiry (snd acc)"] mailbox_okD(1) [OF assms(2)]
    by (simp add: tables_wf_def)
  then show ?thesis using assms(2) by (cases acc) (auto simp: ack_one_def split: option.splits)
qed

lemma mailbox_ack_ids_ok:
  assumes "mailbox_ok sc nid db" "codec_ok sc nid"
  shows "mailbox_ok sc nid (snd (mailbox_ack_ids m ids db))"
proof -
  have "mailbox_ok sc nid (snd (foldl (ack_one m) acc ids))" if "mailbox_ok sc nid (snd acc)" for acc
    using that by (induction ids arbitrary: acc) (simp_all add: ack_one_ok assms(2))
  then show ?thesis using assms(1) by (simp add: mailbox_ack_ids_def)
qed

lemma sweep_one_ok:
  assumes "codec_ok sc nid" "mailbox_ok sc nid (snd acc)"
  shows "mailbox_ok sc nid (snd (sweep_one acc (e, i)))"
proof (cases "map_of (db_by_id (snd acc)) i")
  case None
  then show ?thesis
    using forget_expiry_ok [OF assms(2) None, of "bt_delete (e, i) (db_expiry (snd acc))"]
      mailbox_okD(1) [OF assms(2)]
    by (cases acc) (auto simp: sweep_one_def Let_def tables_wf_def bt_wf_delete)
next
  case (Some p)
  then show ?thesis
    using remove_envelope_ok [OF assms(2,1), of i "fst p" "snd p" "bt_delete (e, i) (db_expiry (snd acc))"]
      mailbox_okD(1) [OF assms(2)]
    by (cases acc; cases p) (auto simp: sweep_one_def Let_def tables_wf_def bt_wf_delete)
qed

section \<open>Key packages\<close>

lemma length_once: "length (once_of d db) = length (filter (\<lambda>p. fst (fst p) = d) (db_once db))"
proof -
  have "(\<lambda>p. (d, 0) \<le> fst p \<and> fst p \<le> (d, - 1)) = (\<lambda>p :: (bytes \<times> u64) \<times> bytes. fst (fst p) = d)"
    by (auto simp: fun_eq_iff)
  then show ?thesis by (simp add: once_of_def case_prod_unfold)
qed

lemma length_filter_insert:
  "bt_wf m \<Longrightarrow> length (filter P (bt_insert k v m)) \<le> length (filter P m) + (if P (k, v) then 1 else 0)"
  by (induction k v m rule: bt_insert.induct) (auto simp: bt_wf_def)

lemma key_tables_ok:
  assumes "mailbox_ok sc nid db" "bt_wf once" "bt_wf lr"
    and "\<And>d. length (filter (\<lambda>p. fst (fst p) = d) once) \<le> 64"
  shows "mailbox_ok sc nid (db\<lparr>db_once := once, db_last_resort := lr\<rparr>)"
  using assms
  unfolding mailbox_ok_def tables_wf_def usage_exact_def mail_count_def mail_bytes_def length_once record_ok_def
  by (simp del: split_paired_All)

lemma once_wf:
  assumes "mailbox_ok sc nid db"
  shows "bt_wf (db_once db)" "bt_wf (db_last_resort db)"
    "length (filter (\<lambda>p. fst (fst p) = d) (db_once db)) \<le> 64"
  using mailbox_okD(1,5) [OF assms] by (simp_all add: tables_wf_def length_once)

lemma length_filter_bt_delete: "length (filter P (bt_delete k m)) \<le> length (filter P m)"
  by (induction m) (auto simp: bt_delete_def)

lemma length_filter_filter: "length (filter P (filter Q xs)) \<le> length (filter P xs)"
  by (induction xs) auto

lemma put_key_package_ok:
  assumes "mailbox_ok sc nid db"
  shows "mailbox_ok sc nid (snd (put_key_package sc k db))"
proof -
  note w = once_wf [OF assms]
  let ?d = "kp_device_pubkey k"
  have lr: "mailbox_ok sc nid (db\<lparr>db_last_resort := bt_insert ?d v (db_last_resort db)\<rparr>)" for v
    using key_tables_ok [OF assms w(1) bt_wf_insert [OF w(2)] w(3)] by simp
  have ins: "mailbox_ok sc nid (db\<lparr>db_once := bt_insert (?d, n) v (db_once db)\<rparr>)"
    if "\<not> MAX_KEY_PACKAGES_PER_DEVICE \<le> word_of_nat (length (once_of ?d db))" for n v
  proof -
    have "length (once_of ?d db) < 64"
      using that mailbox_okD(5) [OF assms, of ?d]
      by (simp add: MAX_KEY_PACKAGES_PER_DEVICE_def word_le_nat_alt unat_of_nat)
    then have "length (filter (\<lambda>p. fst (fst p) = d) (bt_insert (?d, n) v (db_once db))) \<le> 64" for d
      using length_filter_insert [OF w(1), of "\<lambda>p. fst (fst p) = d" "(?d, n)" v] w(3) [of d]
      by (auto simp: length_once split: if_splits)
    then show ?thesis
      using key_tables_ok [OF assms bt_wf_insert [OF w(1)] w(2)] by simp
  qed
  have "once_of ?d (db\<lparr>db_last_resort := x\<rparr>) = once_of ?d db" for x by (simp add: once_of_def)
  then show ?thesis using assms lr ins by (auto simp: put_key_package_def Let_def split: option.splits sum.splits)
qed

lemma take_key_package_ok:
  assumes "mailbox_ok sc nid db"
  shows "mailbox_ok sc nid (snd (take_key_package sc d t db))"
proof -
  note w = once_wf [OF assms]
  have "mailbox_ok sc nid (db\<lparr>db_once := bt_delete k (db_once db)\<rparr>)" for k
  proof -
    have "length (filter (\<lambda>p. fst (fst p) = d) (bt_delete k (db_once db))) \<le> 64" for d
      by (rule le_trans [OF length_filter_bt_delete w(3)])
    then show ?thesis using key_tables_ok [OF assms bt_wf_delete [OF w(1)] w(2)] by simp
  qed
  then show ?thesis using assms
    by (simp add: take_key_package_def split: option.split prod.split)
qed

section \<open>The sweep\<close>

lemma sweep_fold_ok:
  assumes "codec_ok sc nid"
  shows "mailbox_ok sc nid (snd acc) \<Longrightarrow> mailbox_ok sc nid (snd (foldl sweep_one acc due))"
proof (induction due arbitrary: acc)
  case Nil
  then show ?case by simp
next
  case (Cons d due)
  then show ?case using sweep_one_ok [OF assms Cons.prems] by (cases d) simp
qed

lemma sweep_db_ok:
  assumes "mailbox_ok sc nid db" "codec_ok sc nid"
  shows "mailbox_ok sc nid (snd (sweep_db sc t db))"
proof -
  obtain n db1 where f: "foldl sweep_one (0, db) (expiry_due t db) = (n, db1)" by fastforce
  have ok: "mailbox_ok sc nid db1" using sweep_fold_ok [OF assms(2), of "(0, db)"] assms(1) f by (metis snd_conv)
  note w = once_wf [OF ok]
  let ?o = "filter (\<lambda>(k, v). kp_live sc t v) (db_once db1)"
  have "length (filter (\<lambda>p. fst (fst p) = d) ?o) \<le> 64" for d
  proof -
    have "length (filter (\<lambda>p. fst (fst p) = d) ?o) \<le> length (filter (\<lambda>p. fst (fst p) = d) (db_once db1))"
      by (rule length_filter_filter)
    then show ?thesis using w(3) [of d] by simp
  qed
  then have "mailbox_ok sc nid (db1\<lparr>db_once := ?o\<rparr>)"
    using key_tables_ok [OF ok bt_wf_filter [OF w(1)] w(2)] by simp
  then show ?thesis by (simp add: sweep_db_def f)
qed

section \<open>The replay cache\<close>

definition replay_ok :: "replay_cache \<Rightarrow> bool" where
  "replay_ok c \<longleftrightarrow> bt_wf (rc_seen c) \<and> distinct (rc_order c) \<and> set (rc_order c) = fst ` set (rc_seen c)"

lemma replay_ok_length: "replay_ok c \<Longrightarrow> length (rc_order c) = length (rc_seen c)"
  unfolding replay_ok_def by (metis bt_wf_distinct distinct_card length_map set_map)

lemma fst_bt_delete: "fst ` set (bt_delete k m) = fst ` set m - {k}"
  by (auto simp: bt_delete_def)

lemma rc_evict_ok:
  "replay_ok \<lparr>rc_seen = seen, rc_order = order\<rparr> \<Longrightarrow> replay_ok (rc_evict seen order)"
  by (induction seen order rule: rc_evict.induct)
    (auto simp: replay_ok_def bt_wf_delete fst_bt_delete)

lemma rc_evict_seen: "map_of (rc_seen (rc_evict seen order)) k \<in> {None, map_of seen k}"
  by (induction seen order rule: rc_evict.induct) auto

lemma rc_record_ok: "replay_ok c \<Longrightarrow> replay_ok (snd (rc_record k ts c))"
proof -
  assume ok: "replay_ok c"
  let ?c = "rc_evict (rc_seen c) (rc_order c)"
  have e: "replay_ok ?c" using rc_evict_ok ok by (simp add: replay_ok_def)
  have "k \<notin> set (rc_order ?c)" if "map_of (rc_seen c) k = None"
  proof -
    have "map_of (rc_seen ?c) k = None" using rc_evict_seen [of "rc_seen c" "rc_order c" k] that by simp
    then show ?thesis using e by (simp add: replay_ok_def map_of_eq_None_iff)
  qed
  then show ?thesis
    using ok e by (auto simp: rc_record_def Let_def replay_ok_def bt_wf_insert set_bt_insert_fst)
qed

lemma rc_prune_ok:
  assumes "replay_ok c"
  shows "replay_ok (rc_prune t c)"
proof -
  let ?s = "filter (\<lambda>(k, ts). sat_add ts MAX_REQUEST_AGE_SECS \<ge> t) (rc_seen c)"
  have wf: "bt_wf ?s" using assms by (simp add: replay_ok_def bt_wf_filter)
  show ?thesis
  proof (cases "length ?s = length (rc_seen c)")
    case True
    then have "?s = rc_seen c" by (metis (no_types, lifting) filter_id_conv length_filter_less less_irrefl_nat)
    then have "rc_prune t c = c" by (simp add: rc_prune_def Let_def)
    then show ?thesis using assms by simp
  next
    case False
    have "{k \<in> set (rc_order c). map_of ?s k \<noteq> None} = fst ` set ?s"
      using assms by (auto simp: replay_ok_def map_of_eq_None_iff)
    then show ?thesis
      using assms wf False by (simp add: rc_prune_def Let_def replay_ok_def distinct_filter)
  qed
qed

section \<open>Runs of the service\<close>

text \<open>What reaches the service: requests (with the two readings of the clock), sweeps, hints and
  questions about hints.\<close>

datatype mailbox_event =
    MRequest mailbox_request u64 u64
  | MSweep u64
  | MNotify bytes
  | MTakeNotified bytes

fun mailbox_step :: "sig_lib \<Rightarrow> store_codec \<Rightarrow> network_identity \<Rightarrow> mailbox_service \<Rightarrow> mailbox_event \<Rightarrow>
    mailbox_service" where
  "mailbox_step l sc n s (MRequest rq t t') = snd (snd (mailbox_handle l sc n rq t t' s))"
| "mailbox_step l sc n s (MSweep t) = snd (mailbox_sweep sc t s)"
| "mailbox_step l sc n s (MNotify m) = snd (on_notify m s)"
| "mailbox_step l sc n s (MTakeNotified m) = snd (take_notified m s)"

definition mailbox_run :: "sig_lib \<Rightarrow> store_codec \<Rightarrow> network_identity \<Rightarrow> mailbox_service \<Rightarrow>
    mailbox_event list \<Rightarrow> mailbox_service" where
  "mailbox_run l sc n s evs = foldl (mailbox_step l sc n) s evs"

definition service_ok :: "store_codec \<Rightarrow> string \<Rightarrow> mailbox_service \<Rightarrow> bool" where
  "service_ok sc nid s \<longleftrightarrow> codec_ok sc nid \<and> ms_network_id s = nid \<and> mailbox_ok sc nid (ms_db s)
     \<and> replay_ok (ms_replays s)"

lemma first_sight_ok: "service_ok sc nid s \<Longrightarrow> service_ok sc nid (snd (first_sight k ts s))"
  using rc_record_ok [of "ms_replays s" k ts]
  by (auto simp: first_sight_def service_ok_def Let_def split: prod.splits)

lemma first_sight_db [simp]: "ms_db (snd (first_sight k ts s)) = ms_db s"
  by (simp add: first_sight_def Let_def split: prod.split)

lemma service_db: "service_ok sc nid s \<Longrightarrow> mailbox_ok sc nid db \<Longrightarrow> service_ok sc nid (s\<lparr>ms_db := db\<rparr>)"
  by (simp add: service_ok_def)

lemma handle_put_ok: "service_ok sc nid s \<Longrightarrow> service_ok sc nid (snd (snd (handle_put l sc p t s)))"
  using store_envelope_ok
  by (auto simp: handle_put_def service_ok_def split: option.split sum.split put_error.split)

lemma handle_fetch_ok: "service_ok sc nid s \<Longrightarrow> service_ok sc nid (snd (snd (handle_fetch l sc n f t s)))"
  using first_sight_ok [of sc nid s "fetch_replay_key l f" "fe_timestamp f"]
  by (auto simp: handle_fetch_def Let_def split: sum.split prod.split)

lemma handle_ack_ok:
  assumes "service_ok sc nid s"
  shows "service_ok sc nid (snd (snd (handle_ack l n a t s)))"
proof -
  obtain b s1 where f: "first_sight (ack_replay_key l a) (ak_timestamp a) s = (b, s1)" by fastforce
  have s1: "service_ok sc nid s1"
    using first_sight_ok [OF assms, of "ack_replay_key l a" "ak_timestamp a"] by (simp add: f)
  then have "service_ok sc nid (s1\<lparr>ms_db := snd (mailbox_ack_ids m ids (ms_db s1))\<rparr>)" for m ids
    by (intro service_db [OF s1] mailbox_ack_ids_ok) (simp_all add: service_ok_def)
  then show ?thesis using assms s1
    by (auto simp: handle_ack_def f split: sum.split prod.splits) (metis snd_conv)
qed

lemma handle_publish_ok:
  "service_ok sc nid s \<Longrightarrow> service_ok sc nid (snd (snd (handle_publish l sc n k t s)))"
  using put_key_package_ok [of sc nid "ms_db s" k]
  by (auto simp: handle_publish_def service_ok_def split: sum.split prod.splits)

lemma mailbox_handle_ok:
  assumes "service_ok sc nid s"
  shows "service_ok sc nid (snd (snd (mailbox_handle l sc n rq t t' s)))"
proof (cases rq)
  case (RqTake d)
  then show ?thesis
    using assms take_key_package_ok [of sc nid "ms_db s" d t']
    by (auto simp: mailbox_handle_def service_ok_def split: prod.splits option.splits)
qed (use assms in \<open>simp_all add: mailbox_handle_def handle_put_ok handle_fetch_ok handle_ack_ok handle_publish_ok\<close>)

lemma mailbox_step_ok:
  assumes "service_ok sc nid s"
  shows "service_ok sc nid (mailbox_step l sc n s ev)"
proof (cases ev)
  case (MSweep t)
  then show ?thesis
    using assms sweep_db_ok [of sc nid "ms_db s" t] rc_prune_ok
    by (auto simp: mailbox_sweep_def service_ok_def split: prod.splits)
next
  case (MRequest rq t t')
  then show ?thesis using mailbox_handle_ok [OF assms] by simp
qed (use assms in \<open>simp_all add: on_notify_def take_notified_def service_ok_def\<close>)

interpretation mailbox: invariant_machine "mailbox_step l sc n" "service_ok sc nid" for l sc n nid
  by unfold_locales (rule mailbox_step_ok)

definition mailbox_empty :: mailbox_db where
  "mailbox_empty = \<lparr>db_envelopes = [], db_by_id = [], db_expiry = [], db_usage = [], db_once = [],
     db_last_resort = []\<rparr>"

lemma service_open: "codec_ok sc nid \<Longrightarrow> service_ok sc nid (mailbox_open mailbox_empty nid)"
  by (simp add: service_ok_def mailbox_open_def mailbox_empty_def mailbox_ok_def tables_wf_def
      usage_exact_def mail_count_def mail_bytes_def once_of_def replay_ok_def)

lemma service_run: "codec_ok sc nid \<Longrightarrow> service_ok sc nid (mailbox_run l sc n (mailbox_open mailbox_empty nid) evs)"
  unfolding mailbox_run_def by (rule mailbox.run_inv [OF service_open])

end
