(* ===== verification/Mailbox_Example.thy ===== *)
theory Mailbox_Example
  imports Mailbox_Inv
begin

text \<open>A concrete store with one envelope, on which the properties of the mailbox are evaluated.\<close>

definition wit_lib :: sig_lib where
  "wit_lib = wit_sig\<lparr>sl_blake3 := \<lambda>b. take 32 (b @ replicate 32 0)\<rparr>"

definition wit_codec :: "string \<Rightarrow> store_codec" where
  "wit_codec nid = \<lparr>
     sc_env = (\<lambda>e. word_of_int (en_kind e) # en_id e @ en_mailbox e @ u64_be (en_created_at e)
       @ u64_be (en_expires_at e) @ en_ciphertext e),
     sc_env_dec = (\<lambda>b. Inr \<lparr>en_network_id = nid, en_version = WIRE_VERSION, en_id = take 32 (drop 1 b),
       en_mailbox = take 32 (drop 33 b), en_kind = uint (hd b), en_ciphertext = drop 81 b,
       en_created_at = word_of_nat (nat_of_be (take 8 (drop 65 b))),
       en_expires_at = word_of_nat (nat_of_be (take 8 (drop 73 b)))\<rparr>),
     sc_kp = (\<lambda>_. []), sc_kp_dec = (\<lambda>_. Inl [])\<rparr>"

lemma wit_codec_ok: "codec_ok (wit_codec nid) nid"
proof -
  have "sc_env_dec (wit_codec nid) (sc_env (wit_codec nid) e) = Inr e
      \<and> length (sc_env (wit_codec nid) e) < 2 ^ 63" if "storable nid e" for e
    using that by (cases e) (auto simp: wit_codec_def storable_def u64_of_be MAX_ENVELOPE_CIPHERTEXT_def)
  then show ?thesis by (simp add: codec_ok_def)
qed

definition wit_mail0 :: p2p_envelope where
  "wit_mail0 = \<lparr>en_network_id = network_id wit_net, en_version = 1, en_id = [], en_mailbox = replicate 32 7,
     en_kind = 1, en_ciphertext = [1], en_created_at = 1000, en_expires_at = 2000\<rparr>"

definition wit_mail :: p2p_envelope where
  "wit_mail = wit_mail0\<lparr>en_id := envelope_id wit_lib wit_mail0\<rparr>"

definition wit_key :: "bytes \<times> u64 \<times> bytes" where
  "wit_key = (replicate 32 7, 1000, en_id wit_mail)"

definition wit_sc :: store_codec where "wit_sc = wit_codec (network_id wit_net)"

lemma wit_sc_ok: "codec_ok wit_sc (network_id wit_net)"
  by (simp add: wit_sc_def wit_codec_ok)

definition wit_put :: "mailbox_event list" where
  "wit_put = [MRequest (RqPut (Some wit_mail)) 1000 1000]"

definition wit_store :: mailbox_service where
  "wit_store = mailbox_run wit_lib wit_sc wit_net (mailbox_open mailbox_empty (network_id wit_net)) wit_put"

lemma wit_mail_valid: "validate_envelope wit_mail 1000 = Inr 2000"
proof -
  have "length (en_id wit_mail) = 32"
    by (simp add: wit_mail_def envelope_id_def wit_lib_def)
  moreover have "sat_add (1000 :: u64) MAX_FUTURE_SKEW_SECS = 1300" "sat_add (1000 :: u64) MAX_ENVELOPE_RETENTION_SECS = 2593000"
    by (simp_all add: sat_add_def MAX_FUTURE_SKEW_SECS_def MAX_ENVELOPE_RETENTION_SECS_def)
  ultimately show ?thesis
    by (simp add: validate_envelope_def wit_mail_def wit_mail0_def v_hash_def v_exact_def v_bound_def HASH_LEN_def
        WIRE_VERSION_def MAX_ENVELOPE_CIPHERTEXT_def not_future_def require_def wit_net_def devnet_def)
qed

lemma wit_mail_put:
  "mailbox_put wit_lib wit_sc (network_id wit_net) wit_mail 1000 mailbox_empty
   = Inr (2000, store_envelope wit_mail (sc_env wit_sc wit_mail) 2000 mailbox_empty)"
proof -
  have e: "wit_mail\<lparr>en_expires_at := 2000\<rparr> = wit_mail" by (simp add: wit_mail_def wit_mail0_def)
  have i: "envelope_id wit_lib wit_mail = en_id wit_mail" by (simp add: wit_mail_def envelope_id_def)
  have n: "en_network_id wit_mail = network_id wit_net" by (simp add: wit_mail_def wit_mail0_def)
  have l: "length (en_id wit_mail) = 32" by (simp add: wit_mail_def envelope_id_def wit_lib_def)
  then have "length (sc_env wit_sc wit_mail) = 82"
    by (simp add: wit_sc_def wit_codec_def wit_mail_def wit_mail0_def)
  then show ?thesis
    by (simp add: mailbox_put_def wit_mail_valid e i n usage_of_def mailbox_empty_def Let_def
        MAX_ENVELOPES_PER_MAILBOX_def MAX_BYTES_PER_MAILBOX_def)
qed

lemma wit_store_db: "ms_db wit_store = store_envelope wit_mail (sc_env wit_sc wit_mail) 2000 mailbox_empty"
  by (simp add: wit_store_def wit_put_def mailbox_run_def mailbox_handle_def handle_put_def mailbox_open_def
      wit_mail_put)

lemma wit_store_tables:
  "db_envelopes (ms_db wit_store) = [(wit_key, sc_env wit_sc wit_mail)]"
  "db_by_id (ms_db wit_store) = [(en_id wit_mail, replicate 32 7, 1000)]"
  "db_expiry (ms_db wit_store) = [((2000, en_id wit_mail), ())]"
proof -
  have m: "en_mailbox wit_mail = replicate 32 7" "en_created_at wit_mail = 1000"
    by (simp_all add: wit_mail_def wit_mail0_def)
  show "db_envelopes (ms_db wit_store) = [(wit_key, sc_env wit_sc wit_mail)]"
    "db_by_id (ms_db wit_store) = [(en_id wit_mail, replicate 32 7, 1000)]"
    "db_expiry (ms_db wit_store) = [((2000, en_id wit_mail), ())]"
    by (simp_all add: wit_store_db store_envelope_def usage_of_def mailbox_empty_def wit_key_def m)
qed

lemma wit_store_count: "mail_count (ms_db wit_store) (replicate 32 7) = 1"
  by (simp add: mail_count_def wit_store_tables in_mailbox_def wit_key_def)

text \<open>The owner fetches.\<close>

lemma wit_fetch_served:
  "\<exists>es cur r eff s'. mailbox_handle wit_lib wit_sc wit_net (RqFetch (wit_fetch 5)) 1000 1000 wit_store
     = (RsFetch es cur r, eff, s')"
proof -
  have t: "fresh 1000 1000 = Inr ()" by (simp add: fresh_iff)
  have v: "validate_mailbox_fetch (wit_fetch 5) 1000 = Inr 5"
    by (simp add: validate_mailbox_fetch_def wit_fetch_def v_hash_def v_exact_def v_bound_def HASH_LEN_def
        SIG_LEN_def TURN_SENTINEL_LIMIT_def MAX_MAILBOX_PAGE_def t require_def)
  have k: "verify_mailbox_fetch wit_lib wit_net (wit_fetch 5) = Inr ()"
    using wit_fetch_bytes [of 5]
    by (simp add: verify_mailbox_fetch_def verify_payload_def mailbox_for_def wit_lib_def wit_sig_def
        verify_ed25519_def wit_fetch_def SIG_LEN_def)
  have f: "fst (first_sight (fetch_replay_key wit_lib (wit_fetch 5)) 1000 wit_store)"
    by (simp add: first_sight_def rc_record_def Let_def wit_store_def wit_put_def mailbox_run_def mailbox_handle_def
        handle_put_def mailbox_open_def wit_mail_put split: prod.split)
  show ?thesis
    using v k f by (auto simp: mailbox_handle_def handle_fetch_def wit_fetch_def split: prod.splits)
qed

end
