(* ===== verification/Mailbox_Paging.thy ===== *)
theory Mailbox_Paging
  imports Mailbox_Example
begin

text \<open>
  Paging: a page is the next envelopes of the mailbox after the cursor, and the loop of a client
  over the pages, with acknowledgements between them, delivers the mailbox once and in order.
\<close>

section \<open>The mail after a cursor\<close>

fun cursor_bytes :: "(u64 \<times> bytes) option \<Rightarrow> bytes" where
  "cursor_bytes None = []"
| "cursor_bytes (Some (ts, i)) = u64_be ts @ i"

definition mail_after :: "bytes \<Rightarrow> (u64 \<times> bytes) option \<Rightarrow> mailbox_db \<Rightarrow>
    ((bytes \<times> u64 \<times> bytes) \<times> bytes) list" where
  "mail_after m pos db = filter (\<lambda>p. in_mailbox m p
     \<and> (case pos of None \<Rightarrow> True | Some k \<Rightarrow> (m, k) < fst p)) (db_envelopes db)"

definition cursor_ok :: "(u64 \<times> bytes) option \<Rightarrow> bool" where
  "cursor_ok pos \<longleftrightarrow> (case pos of None \<Rightarrow> True | Some (_, i) \<Rightarrow> length i = 32)"

lemma parse_cursor_bytes:
  "cursor_ok pos \<Longrightarrow> parse_cursor (cursor_bytes pos) = (case pos of None \<Rightarrow> (0, []) | Some k \<Rightarrow> k)"
  by (cases pos) (auto simp: cursor_ok_def parse_cursor_def u64_of_be)

lemma stored_in_table:
  assumes "mailbox_ok sc nid db" "p \<in> set (db_envelopes db)"
  obtains e where "p = ((en_mailbox e, en_created_at e, en_id e), sc_env sc e)" "storable nid e"
proof -
  obtain m c i v where p: "p = ((m, c, i), v)" by (cases p) auto
  have "map_of (db_envelopes db) (m, c, i) = Some v"
    using assms mailbox_okD(1) [OF assms(1)] by (simp add: p tables_wf_def map_of_set)
  then show ?thesis using that by (auto simp: p elim: stored_envelope [OF assms(1)])
qed

text \<open>The items of the range that are not the one the cursor names.\<close>

lemma range_after:
  assumes ok: "mailbox_ok sc nid db" and c: "cursor_ok pos"
    and f: "(case pos of None \<Rightarrow> (0, []) | Some k \<Rightarrow> k) = (ts, i)"
  shows "filter (\<lambda>p. \<not> (fst (snd (fst p)) = ts \<and> snd (snd (fst p)) = i)) (mailbox_range m ts i db) = mail_after m pos db"
proof -
  have iff: "((m, ts, i) \<le> fst p \<and> fst p \<le> (m, - 1, replicate 32 (- 1)))
      \<and> \<not> (fst (snd (fst p)) = ts \<and> snd (snd (fst p)) = i)
      \<longleftrightarrow> in_mailbox m p \<and> (case pos of None \<Rightarrow> True | Some k \<Rightarrow> (m, k) < fst p)"
    if p: "p \<in> set (db_envelopes db)" for p
  proof -
    obtain e where e: "p = ((en_mailbox e, en_created_at e, en_id e), sc_env sc e)" "storable nid e"
      by (rule stored_in_table [OF ok p])
    then have len: "length (en_id e) = 32" by (simp add: storable_def)
    then have "en_id e \<le> replicate 32 (- 1)" "en_id e \<noteq> []" by (auto intro: le_ff)
    then show ?thesis using f
      by (cases pos) (auto simp: e(1) in_mailbox_def less_le split: if_splits)
  qed
  show ?thesis
    unfolding mailbox_range_def mail_after_def case_prod_unfold filter_filter
    by (rule filter_cong [OF refl iff])
qed

section \<open>One page\<close>

lemma fetch_fold_skip:
  "foldl (fetch_step sc ts i lim) acc items
   = foldl (fetch_step sc ts i lim) acc (filter (\<lambda>p. \<not> (fst (snd (fst p)) = ts \<and> snd (snd (fst p)) = i)) items)"
proof (induction items arbitrary: acc)
  case Nil
  then show ?case by simp
next
  case (Cons p items)
  have "fetch_step sc ts i lim acc p = acc" if "fst (snd (fst p)) = ts \<and> snd (snd (fst p)) = i"
    using that by (cases acc; cases p) (auto simp: fetch_step_def)
  then show ?case using Cons.IH by auto
qed

definition item_cursor :: "(bytes \<times> u64 \<times> bytes) \<times> bytes \<Rightarrow> bytes" where
  "item_cursor p = cursor_bytes (Some (snd (fst p)))"

lemma fetch_fold_page:
  assumes "\<forall>p \<in> set items. (fst (snd (fst p)) \<noteq> ts \<or> snd (snd (fst p)) \<noteq> i) \<and> sc_env_dec sc (snd p) = Inr (dec p)"
    and "length out \<le> lim"
  shows "foldl (fetch_step sc ts i lim) (out, c, r) items
    = (out @ map dec (take (lim - length out) items),
       (if take (lim - length out) items = [] then c else item_cursor (last (take (lim - length out) items))),
       r + word_of_nat (length items - (lim - length out)))"
  using assms
proof (induction items arbitrary: out c r)
  case Nil
  then show ?case by simp
next
  case (Cons p items)
  obtain m t j v where p: "p = ((m, t, j), v)" by (cases p) auto
  have step: "fetch_step sc ts i lim (out, c, r) p
      = (if length out < lim then (out @ [dec p], item_cursor p, r) else (out, c, r + 1))"
    using Cons.prems(1) by (auto simp: fetch_step_def p item_cursor_def)
  show ?case
  proof (cases "length out < lim")
    case True
    then obtain k where k: "lim - length out = Suc k" by (metis Suc_diff_Suc)
    then have "lim - length (out @ [dec p]) = k" by simp
    then show ?thesis
      using Cons.IH [of "out @ [dec p]" "item_cursor p" r] Cons.prems(1) True step k by (simp add: last_ConsR)
  next
    case False
    then show ?thesis using Cons.IH [of out c "r + 1"] Cons.prems step by (simp add: algebra_simps)
  qed
qed

lemma length_filter_conj: "length (filter (\<lambda>p. P p \<and> Q p) xs) \<le> length (filter P xs)"
  by (induction xs) auto

lemma page_of_mailbox:
  fixes m :: bytes
  assumes ok: "mailbox_ok sc nid db" and co: "codec_ok sc nid" and c: "cursor_ok pos" and lim: "0 < lim"
  defines "R \<equiv> mail_after m pos db"
  obtains es where "map (sc_env sc) es = map snd (take lim R)" "map en_id es = map (\<lambda>p. snd (snd (fst p))) (take lim R)"
    "mailbox_fetch_page sc m (cursor_bytes pos) lim db
     = (es, if length R \<le> lim then [] else item_cursor (last (take lim R)), word_of_nat (length R - lim))"
proof -
  obtain ts i where f: "(case pos of None \<Rightarrow> (0, []) | Some k \<Rightarrow> k) = (ts, i)" by fastforce
  note ra = range_after [OF ok c f, of m, folded R_def]
  define dec where "dec p = projr (sc_env_dec sc (snd p))" for p :: "(bytes \<times> u64 \<times> bytes) \<times> bytes"
  have el: "(fst (snd (fst p)) \<noteq> ts \<or> snd (snd (fst p)) \<noteq> i) \<and> sc_env_dec sc (snd p) = Inr (dec p)
      \<and> sc_env sc (dec p) = snd p \<and> en_id (dec p) = snd (snd (fst p))" if p: "p \<in> set R" for p
  proof -
    have "p \<in> set (db_envelopes db)" using p by (simp add: R_def mail_after_def)
    then obtain e where e: "p = ((en_mailbox e, en_created_at e, en_id e), sc_env sc e)" "storable nid e"
      by (rule stored_in_table [OF ok])
    have d: "sc_env_dec sc (sc_env sc e) = Inr e" using co e(2) by (simp add: codec_ok_def)
    have "\<not> (fst (snd (fst p)) = ts \<and> snd (snd (fst p)) = i)" using p unfolding ra [symmetric] by auto
    then show ?thesis using d by (simp add: e(1) dec_def)
  qed
  have fold: "foldl (fetch_step sc ts i lim) ([], [], 0) R
      = (map dec (take lim R), if take lim R = [] then [] else item_cursor (last (take lim R)), word_of_nat (length R - lim))"
    using fetch_fold_page [of R ts i sc dec "[]" lim "[]" 0] el by simp
  have whole: "foldl (fetch_step sc ts i lim) ([], [], 0) (mailbox_range m ts i db)
      = (map dec (take lim R), if take lim R = [] then [] else item_cursor (last (take lim R)), word_of_nat (length R - lim))"
    by (subst fetch_fold_skip) (simp only: ra fold)
  have "length R \<le> mail_count db m"
    unfolding R_def mail_after_def mail_count_def by (rule length_filter_conj)
  then have "length R \<le> 2000" using mailbox_okD(4) [OF ok, of m] by (simp add: usage_exact_def)
  then have z: "(word_of_nat (length R - lim) :: u64) = 0 \<longleftrightarrow> length R \<le> lim"
    using word_of_nat_inj_below [of "length R - lim" 0, where 'a = 64] by simp
  have ne: "take lim R = [] \<Longrightarrow> length R \<le> lim" using lim by (cases R) auto
  have "mailbox_fetch_page sc m (cursor_bytes pos) lim db
     = (map dec (take lim R), if length R \<le> lim then [] else item_cursor (last (take lim R)), word_of_nat (length R - lim))"
    using z ne by (simp add: mailbox_fetch_page_def parse_cursor_bytes [OF c] f whole)
  moreover have "map (sc_env sc) (map dec (take lim R)) = map snd (take lim R)"
    by (auto dest!: in_set_takeD simp: el)
  moreover have "map en_id (map dec (take lim R)) = map (\<lambda>p. snd (snd (fst p))) (take lim R)"
    by (auto dest!: in_set_takeD simp: el)
  ultimately show ?thesis using that by blast
qed

section \<open>Acknowledging a page\<close>

lemma ack_one_envelopes:
  assumes ok: "mailbox_ok sc nid (snd acc)"
  shows "db_envelopes (snd (ack_one m acc i))
    = filter (\<lambda>p. \<not> (in_mailbox m p \<and> snd (snd (fst p)) = i)) (db_envelopes (snd acc))"
proof -
  have by_id: "map_of (db_by_id (snd acc)) (snd (snd (fst p))) = Some (fst (fst p), fst (snd (fst p)))"
    if p: "p \<in> set (db_envelopes (snd acc))" for p
  proof -
    obtain k c j v where k: "p = ((k, c, j), v)" by (cases p) auto
    have "map_of (db_envelopes (snd acc)) (k, c, j) = Some v"
      using p mailbox_okD(1) [OF ok] by (simp add: k tables_wf_def map_of_set)
    then show ?thesis by (rule stored_envelope [OF ok]) (simp add: k)
  qed
  show ?thesis
  proof (cases "\<exists>ts. map_of (db_by_id (snd acc)) i = Some (m, ts)")
    case True
    then obtain ts where ts: "map_of (db_by_id (snd acc)) i = Some (m, ts)" by blast
    have "fst p \<noteq> (m, ts, i) \<longleftrightarrow> \<not> (in_mailbox m p \<and> snd (snd (fst p)) = i)"
      if "p \<in> set (db_envelopes (snd acc))" for p
      using by_id [OF that] ts by (cases p) (auto simp: in_mailbox_def)
    then show ?thesis
      using ts by (cases acc) (auto simp: ack_one_def remove_envelope_def bt_delete_def intro!: filter_cong)
  next
    case False
    then have "filter (\<lambda>p. \<not> (in_mailbox m p \<and> snd (snd (fst p)) = i)) (db_envelopes (snd acc)) = db_envelopes (snd acc)"
      using by_id by (fastforce simp: filter_id_conv in_mailbox_def)
    moreover have "snd (ack_one m acc i) = snd acc"
      using False by (cases acc) (auto simp: ack_one_def split: option.split)
    ultimately show ?thesis by simp
  qed
qed

lemma ack_envelopes:
  assumes "mailbox_ok sc nid db" "codec_ok sc nid"
  shows "db_envelopes (snd (mailbox_ack_ids m ids db))
    = filter (\<lambda>p. \<not> (in_mailbox m p \<and> snd (snd (fst p)) \<in> set ids)) (db_envelopes db)"
proof -
  have "db_envelopes (snd (foldl (ack_one m) acc ids))
      = filter (\<lambda>p. \<not> (in_mailbox m p \<and> snd (snd (fst p)) \<in> set ids)) (db_envelopes (snd acc))"
    if "mailbox_ok sc nid (snd acc)" for acc
    using that
  proof (induction ids arbitrary: acc)
    case Nil
    then show ?case by simp
  next
    case (Cons i ids)
    have "mailbox_ok sc nid (snd (ack_one m acc i))" by (rule ack_one_ok [OF assms(2) Cons.prems])
    then show ?case
      using Cons.IH [of "ack_one m acc i"] ack_one_envelopes [OF Cons.prems, of m i]
      by (simp add: conj_disj_distribL cong: conj_cong)
  qed
  from this [of "(0, db)"] show ?thesis using assms(1) by (simp add: mailbox_ack_ids_def)
qed

lemma sorted_filter_drop:
  fixes xs :: "('a::linorder \<times> 'b) list"
  assumes "sorted_wrt (<) (map fst xs)" "n < length xs"
  shows "filter (\<lambda>p. fst (xs ! n) < fst p) xs = drop (Suc n) xs"
  using assms
proof (induction xs arbitrary: n)
  case Nil
  then show ?case by simp
next
  case (Cons x xs)
  show ?case
  proof (cases n)
    case 0
    then show ?thesis using Cons.prems by (auto simp: filter_id_conv)
  next
    case (Suc k)
    then have "fst x < fst (xs ! k)" using Cons.prems by simp
    then have "\<not> fst (xs ! k) < fst x" by simp
    then show ?thesis using Cons Suc by simp
  qed
qed

text \<open>After a page was delivered and some of it acknowledged, what is left after the new cursor is
  what was left after the page.\<close>

lemma after_page:
  fixes m :: bytes and pos :: "(u64 \<times> bytes) option"
  assumes ok: "mailbox_ok sc nid db" and co: "codec_ok sc nid"
  defines "R \<equiv> mail_after m pos db"
  assumes n: "n < length R" and ids: "set ids \<subseteq> (\<lambda>p. snd (snd (fst p))) ` set (take (Suc n) R)"
  shows "mail_after m (Some (snd (fst (R ! n)))) (snd (mailbox_ack_ids m ids db)) = drop (Suc n) R"
proof -
  have wf: "bt_wf (db_envelopes db)" using mailbox_okD(1) [OF ok] by (simp add: tables_wf_def)
  then have sR: "sorted_wrt (<) (map fst R)"
    using bt_wf_filter [of "db_envelopes db"] by (simp add: R_def mail_after_def bt_wf_def)
  have Rn: "R ! n \<in> set R" using n by simp
  have mem: "p \<in> set (db_envelopes db)" "fst (fst p) = m" if "p \<in> set R" for p
    using that by (auto simp: R_def mail_after_def in_mailbox_def)
  have key: "(m, snd (fst (R ! n))) = fst (R ! n)" using mem(2) [OF Rn] by (cases "fst (R ! n)") simp
  have uniq: "p = q" if "p \<in> set R" "q \<in> set R" "snd (snd (fst p)) = snd (snd (fst q))" for p q
  proof -
    have lk: "map_of (db_by_id db) (snd (snd (fst p))) = Some (fst (fst p), fst (snd (fst p)))
        \<and> map_of (db_envelopes db) (fst p) = Some (snd p)" if p: "p \<in> set R" for p
    proof -
      obtain k c j v where k: "p = ((k, c, j), v)" by (cases p) auto
      have e: "map_of (db_envelopes db) (k, c, j) = Some v" using mem(1) [OF p] wf by (simp add: k map_of_set)
      then have "map_of (db_by_id db) j = Some (k, c)" by (rule stored_envelope [OF ok])
      then show ?thesis using e by (simp add: k)
    qed
    have eq: "fst p = fst q" using lk [OF that(1)] lk [OF that(2)] that(3) by (simp add: prod_eq_iff)
    have "snd p = snd q" using lk [OF that(1)] lk [OF that(2)] unfolding eq by simp
    then show ?thesis using eq by (rule prod_eqI [rotated])
  qed
  have after: "in_mailbox m p \<and> (m, snd (fst (R ! n))) < fst p \<longleftrightarrow> p \<in> set R \<and> fst (R ! n) < fst p"
    if "p \<in> set (db_envelopes db)" for p
  proof -
    have "fst (R ! n) < fst p \<Longrightarrow> (case pos of None \<Rightarrow> True | Some k \<Rightarrow> (m, k) < fst p)"
      using Rn by (auto simp: R_def mail_after_def split: option.splits)
    then show ?thesis using that unfolding key by (auto simp: R_def mail_after_def)
  qed
  have keep: "snd (snd (fst p)) \<notin> set ids" if p: "p \<in> set (drop (Suc n) R)" for p
  proof
    assume "snd (snd (fst p)) \<in> set ids"
    then obtain q where q: "q \<in> set (take (Suc n) R)" "snd (snd (fst p)) = snd (snd (fst q))" using ids by auto
    then have "p = q" using uniq p in_set_takeD in_set_dropD by metis
    moreover have "distinct R" using sR by (metis distinct_map strict_sorted_iff)
    ultimately show False using p q(1) by (metis set_take_disj_set_drop_if_distinct disjoint_iff order_refl)
  qed
  have fR: "filter Q R = filter (\<lambda>p. p \<in> set R \<and> Q p) (db_envelopes db)" for Q
    unfolding R_def mail_after_def filter_filter by (rule filter_cong) auto
  have "mail_after m (Some (snd (fst (R ! n)))) (snd (mailbox_ack_ids m ids db))
      = filter (\<lambda>p. snd (snd (fst p)) \<notin> set ids) (filter (\<lambda>p. in_mailbox m p \<and> (m, snd (fst (R ! n))) < fst p) (db_envelopes db))"
    by (auto simp: mail_after_def ack_envelopes [OF ok co] intro!: filter_cong)
  also have "filter (\<lambda>p. in_mailbox m p \<and> (m, snd (fst (R ! n))) < fst p) (db_envelopes db)
      = filter (\<lambda>p. fst (R ! n) < fst p) R"
    unfolding fR by (rule filter_cong [OF refl after])
  also have "\<dots> = drop (Suc n) R" by (rule sorted_filter_drop [OF sR n])
  also have "filter (\<lambda>p. snd (snd (fst p)) \<notin> set ids) (drop (Suc n) R) = drop (Suc n) R"
    using keep by (simp add: filter_id_conv)
  finally show ?thesis .
qed

section \<open>The loop\<close>

lemma u64_be_nonempty: "u64_be w \<noteq> []"
  using length_u64_be [of w] by (metis list.size(3) zero_neq_numeral)

lemma sync_pages_after:
  assumes "codec_ok sc nid" "\<And>es. set (decide es) \<subseteq> en_id ` set es"
  shows "mailbox_ok sc nid db \<Longrightarrow> cursor_ok pos \<Longrightarrow> length (mail_after m pos db) < fuel
    \<Longrightarrow> pos = None \<or> mail_after m pos db \<noteq> []
    \<Longrightarrow> \<exists>es db'. sync_pages sc m decide fuel (cursor_bytes pos) db = Some (es, [], db')
          \<and> map (sc_env sc) es = map snd (mail_after m pos db)"
proof (induction fuel arbitrary: pos db)
  case 0
  then show ?case by simp
next
  case (Suc fuel)
  define R where "R = mail_after m pos db"
  obtain es where es: "map (sc_env sc) es = map snd (take SYNC_PAGE R)"
    "map en_id es = map (\<lambda>p. snd (snd (fst p))) (take SYNC_PAGE R)"
    "mailbox_fetch_page sc m (cursor_bytes pos) SYNC_PAGE db
      = (es, if length R \<le> SYNC_PAGE then [] else item_cursor (last (take SYNC_PAGE R)), word_of_nat (length R - SYNC_PAGE))"
    by (rule page_of_mailbox [OF Suc.prems(1) assms(1) Suc.prems(2), of SYNC_PAGE m, folded R_def])
      (simp add: SYNC_PAGE_def)
  have len: "length es = length (take SYNC_PAGE R)" using es(1) by (metis length_map)
  show ?case
  proof (cases "R = []")
    case True
    then have "es = []" "pos = None" using len Suc.prems(4) by (simp_all add: R_def)
    then show ?thesis using es(3) True by (simp add: R_def)
  next
    case False
    then have ne: "es \<noteq> []" using len by (auto simp: SYNC_PAGE_def min_def split: if_splits)
    show ?thesis
    proof (cases "length R \<le> SYNC_PAGE")
      case True
      then show ?thesis using es ne by (simp add: R_def)
    next
      case long: False
      define n where "n = SYNC_PAGE - 1"
      have n: "n < length R" "Suc n = SYNC_PAGE" using long by (simp_all add: n_def SYNC_PAGE_def)
      define db' where "db' = snd (mailbox_ack_ids m (decide es) db)"
      let ?pos = "Some (snd (fst (R ! n)))"
      have ok': "mailbox_ok sc nid db'" unfolding db'_def by (rule mailbox_ack_ids_ok [OF Suc.prems(1) assms(1)])
      have "set (decide es) \<subseteq> (\<lambda>p. snd (snd (fst p))) ` set (take (Suc n) R)"
        using assms(2) [of es] es(2) by (metis n(2) set_map)
      then have after: "mail_after m ?pos db' = drop (Suc n) R"
        unfolding db'_def R_def by (rule after_page [OF Suc.prems(1) assms(1) n(1) [unfolded R_def]])
      have cur: "item_cursor (last (take SYNC_PAGE R)) = cursor_bytes ?pos"
        using n(1) unfolding n(2) [symmetric] item_cursor_def by (simp add: take_Suc_conv_app_nth)
      have "R ! n \<in> set (db_envelopes db)" using nth_mem [OF n(1)] by (simp add: R_def mail_after_def)
      then have "cursor_ok ?pos"
        by (rule stored_in_table [OF Suc.prems(1)]) (simp add: cursor_ok_def storable_def)
      moreover have "length (mail_after m ?pos db') < fuel" "mail_after m ?pos db' \<noteq> []"
        using Suc.prems(3) long n unfolding after R_def [symmetric] by simp_all
      ultimately obtain rest db'' where rest: "sync_pages sc m decide fuel (cursor_bytes ?pos) db' = Some (rest, [], db'')"
        "map (sc_env sc) rest = map snd (drop (Suc n) R)"
        using Suc.IH [OF ok', of ?pos] unfolding after by blast
      have "cursor_bytes ?pos \<noteq> []" by (cases "snd (fst (R ! n))") (simp add: u64_be_nonempty)
      then have "sync_pages sc m decide (Suc fuel) (cursor_bytes pos) db = Some (es @ rest, [], db'')"
        using es(3) long ne rest(1) by (simp add: cur flip: db'_def)
      moreover have "map (sc_env sc) (es @ rest) = map snd R"
        using es(1) rest(2) n(2) by (metis append_take_drop_id map_append)
      ultimately show ?thesis by (simp add: R_def)
    qed
  qed
qed

text \<open>
  C6. A client that pages through its mailbox, acknowledging between the pages whatever of them it
  managed to process, receives every envelope of the mailbox exactly once, in the order of their
  creation, and its loop ends with the cursor cleared.
\<close>
theorem paging_delivers_everything:
  assumes "codec_ok sc nid" "\<forall>es. set (decide es) \<subseteq> en_id ` set es"
    and "db = ms_db (mailbox_run l sc n (mailbox_open mailbox_empty nid) evs)" "mail_count db m < fuel"
  shows "\<exists>es db'. sync_pages sc m decide fuel [] db = Some (es, [], db')
    \<and> map (sc_env sc) es = map snd (filter (in_mailbox m) (db_envelopes db))"
proof -
  have ok: "mailbox_ok sc nid db"
    unfolding assms(3) using service_run [OF assms(1)] by (simp add: service_ok_def)
  have m: "mail_after m None db = filter (in_mailbox m) (db_envelopes db)" by (simp add: mail_after_def)
  have "cursor_ok None" by (simp add: cursor_ok_def)
  then show ?thesis
    using sync_pages_after [OF assms(1) spec [OF assms(2)] ok, of None m fuel] assms(4)
    by (simp add: m mail_count_def)
qed

theorem paging_delivers_everything_witness:
  "\<exists>es db'. sync_pages wit_sc (replicate 32 7) (map en_id) 2 [] (ms_db wit_store) = Some (es, [], db')
    \<and> map (sc_env wit_sc) es = [sc_env wit_sc wit_mail]"
proof -
  have "\<forall>es. set (map en_id es) \<subseteq> en_id ` set es" by simp
  from paging_delivers_everything [OF wit_sc_ok this, of "ms_db wit_store" wit_lib wit_net wit_put "replicate 32 7" 2]
  show ?thesis
    unfolding wit_store_def [symmetric] wit_store_count
    by (simp add: wit_store_tables in_mailbox_def wit_key_def)
qed

end
