(* ===== verification/Rust_Text.thy ===== *)
theory Rust_Text
  imports Rust_Str
begin

text \<open>
  More of the standard library's text functions: the check of UTF-8, characters of a string as their
  byte sequences, control characters, ASCII case, and decimal numbers.
\<close>

section \<open>UTF-8\<close>

definition byte_char :: "byte \<Rightarrow> char" where
  "byte_char b = char_of (unat b)"

definition byte_text :: "bytes \<Rightarrow> string" where
  "byte_text bs = map byte_char bs"

definition text_bytes :: "string \<Rightarrow> bytes" where
  "text_bytes s = map (\<lambda>c. word_of_nat (char_nat c)) s"

definition cont_byte :: "byte \<Rightarrow> bool" where
  "cont_byte b \<longleftrightarrow> 0x80 \<le> b \<and> b \<le> 0xBF"

text \<open>\<open>str::from_utf8\<close> succeeds: every character is a shortest form, no surrogate, at most U+10FFFF.\<close>

fun utf8_ok :: "bytes \<Rightarrow> bool" where
  "utf8_ok [] = True"
| "utf8_ok (a # s) =
     (if a < 0x80 then utf8_ok s
      else (case s of [] \<Rightarrow> False | b # s2 \<Rightarrow>
        if 0xC2 \<le> a \<and> a \<le> 0xDF then cont_byte b \<and> utf8_ok s2
        else (case s2 of [] \<Rightarrow> False | c # s3 \<Rightarrow>
          if 0xE0 \<le> a \<and> a \<le> 0xEF
          then cont_byte b \<and> cont_byte c \<and> (a = 0xE0 \<longrightarrow> 0xA0 \<le> b) \<and> (a = 0xED \<longrightarrow> b \<le> 0x9F) \<and> utf8_ok s3
          else (case s3 of [] \<Rightarrow> False | d # s4 \<Rightarrow>
            0xF0 \<le> a \<and> a \<le> 0xF4 \<and> cont_byte b \<and> cont_byte c \<and> cont_byte d
              \<and> (a = 0xF0 \<longrightarrow> 0x90 \<le> b) \<and> (a = 0xF4 \<longrightarrow> b \<le> 0x8F) \<and> utf8_ok s4))))"

text \<open>\<open>chars\<close>: a character is a byte and the continuation bytes after it.\<close>

definition cont_char :: "char \<Rightarrow> bool" where
  "cont_char c \<longleftrightarrow> 0x80 \<le> char_nat c \<and> char_nat c \<le> 0xBF"

function str_chars :: "string \<Rightarrow> string list" where
  "str_chars [] = []"
| "str_chars (c # s) = (c # takeWhile cont_char s) # str_chars (dropWhile cont_char s)"
  by pat_completeness auto
termination
  by (relation "measure length") (auto simp: less_Suc_eq_le length_dropWhile_le)

declare str_chars.simps [simp del]

definition take_chars :: "nat \<Rightarrow> string \<Rightarrow> string" where
  "take_chars n s = concat (take n (str_chars s))"

text \<open>The longest prefix of whole characters within a number of bytes.\<close>

fun bound_chars :: "nat \<Rightarrow> string list \<Rightarrow> string" where
  "bound_chars room [] = []"
| "bound_chars room (c # cs) = (if length c > room then [] else c @ bound_chars (room - length c) cs)"

definition bound_str :: "string \<Rightarrow> nat \<Rightarrow> string" where
  "bound_str s n = bound_chars n (str_chars s)"

text \<open>\<open>char::is_control\<close>: U+0000 to U+001F and U+007F to U+009F.\<close>

definition is_control :: "string \<Rightarrow> bool" where
  "is_control c = (case c of
      [a] \<Rightarrow> char_nat a < 0x20 \<or> char_nat a = 0x7F
    | [a, b] \<Rightarrow> char_nat a = 0xC2 \<and> char_nat b \<le> 0x9F
    | _ \<Rightarrow> False)"

definition has_white_space :: "string \<Rightarrow> bool" where
  "has_white_space s \<longleftrightarrow> (\<exists>c \<in> set (str_chars s). c \<in> set white_space)"

section \<open>ASCII case\<close>

definition ascii_upper :: "char \<Rightarrow> char" where
  "ascii_upper c = (if is_ascii_lower c then char_of (char_nat c - 32) else c)"

definition ascii_uppercase :: "string \<Rightarrow> string" where
  "ascii_uppercase s = map ascii_upper s"

definition is_ascii_graphic :: "char \<Rightarrow> bool" where
  "is_ascii_graphic c \<longleftrightarrow> 33 \<le> char_nat c \<and> char_nat c \<le> 126"

section \<open>Decimal numbers\<close>

fun dec_val :: "nat \<Rightarrow> string \<Rightarrow> nat option" where
  "dec_val a [] = Some a"
| "dec_val a (c # s) = (if is_ascii_digit c then dec_val (a * 10 + (char_nat c - 48)) s else None)"

text \<open>\<open>parse\<close> to a \<open>w\<close>-bit number: an optional plus sign, then digits that stay below the bound.\<close>

definition parse_dec :: "nat \<Rightarrow> string \<Rightarrow> nat option" where
  "parse_dec w s = (let t = (if take 1 s = ''+'' then drop 1 s else s) in
     if t = [] then None
     else case dec_val 0 t of None \<Rightarrow> None | Some v \<Rightarrow> if v < 2 ^ w then Some v else None)"

lemma char_nat_of [simp]: "n < 256 \<Longrightarrow> char_nat (char_of n) = n"
  by (simp add: char_nat_def)

lemma dec_val_append:
  "dec_val a (s @ t) = (case dec_val a s of None \<Rightarrow> None | Some v \<Rightarrow> dec_val v t)"
  by (induction s arbitrary: a) auto

lemma dec_val_dec_string: "dec_val 0 (dec_string n) = Some n"
proof (induction n rule: dec_string.induct)
  case (1 n)
  show ?case
  proof (cases "n < 10")
    case True
    then show ?thesis by (simp add: dec_string.simps [of n] is_ascii_digit_def)
  next
    case False
    then show ?thesis
      using 1 by (simp add: dec_string.simps [of n] dec_val_append is_ascii_digit_def)
  qed
qed

lemma parse_dec_string: "n < 2 ^ w \<Longrightarrow> parse_dec w (dec_string n) = Some n"
proof -
  assume n: "n < 2 ^ w"
  have "take 1 (dec_string n) \<noteq> ''+''"
    using dec_string_digits [of "hd (dec_string n)" n] dec_string_nonempty [of n]
    by (cases "dec_string n") (auto simp: is_ascii_digit_def char_nat_def)
  then show ?thesis using n by (simp add: parse_dec_def dec_val_dec_string Let_def dec_string_nonempty)
qed

section \<open>Characters\<close>

lemma concat_str_chars [simp]: "concat (str_chars s) = s"
  by (induction s rule: str_chars.induct) (simp_all add: str_chars.simps)

lemma byte_char_ascii: "b < 0x80 \<Longrightarrow> char_nat (byte_char b) = unat b"
  using unat_bound [of b] by (simp add: byte_char_def)

section \<open>Hexadecimal encodings of byte strings\<close>

text \<open>What is relied on of a hexadecimal encoding.\<close>

definition hex_ok :: "(bytes \<Rightarrow> string) \<Rightarrow> (string \<Rightarrow> bytes option) \<Rightarrow> bool" where
  "hex_ok hexs unhex \<longleftrightarrow> (\<forall>b. unhex (hexs b) = Some b \<and> length (hexs b) = 2 * length b
     \<and> list_all is_ascii_alnum (hexs b))"

text \<open>The usual one.\<close>

definition plain_hex :: "bytes \<Rightarrow> string" where
  "plain_hex bs = concat (map (\<lambda>b. [hex_char (unat b div 16), hex_char (unat b mod 16)]) bs)"

fun plain_unhex :: "string \<Rightarrow> bytes option" where
  "plain_unhex (c # d # s) = (case (hex_val c, hex_val d, plain_unhex s) of
     (Some x, Some y, Some bs) \<Rightarrow> Some (word_of_nat (x * 16 + y) # bs) | _ \<Rightarrow> None)"
| "plain_unhex s = (if s = [] then Some [] else None)"

lemma hex_char_alnum: "d < 16 \<Longrightarrow> is_ascii_alnum (hex_char d)"
  by (auto simp: hex_char_def is_ascii_alnum_def is_ascii_digit_def is_ascii_lower_def char_nat_def)

lemma plain_hex_ok: "hex_ok plain_hex plain_unhex"
proof -
  have "plain_unhex (plain_hex b) = Some b \<and> length (plain_hex b) = 2 * length b \<and> list_all is_ascii_alnum (plain_hex b)" for b
  proof (induction b)
    case Nil
    then show ?case by (simp add: plain_hex_def)
  next
    case (Cons a b)
    have a: "unat a div 16 < 16" "unat a mod 16 < 16" using unat_bound [of a] by auto
    have "plain_hex (a # b) = hex_char (unat a div 16) # hex_char (unat a mod 16) # plain_hex b"
      by (simp add: plain_hex_def)
    then show ?case using Cons a by (simp add: hex_val_char hex_char_alnum)
  qed
  then show ?thesis by (simp add: hex_ok_def)
qed

end
