(* ===== verification/Smtp.thy ===== *)
theory Smtp
  imports Rust_Text
begin

text \<open>
  SMTP in the mail gateway: replies, lines and dot-stuffing (\<open>mail-gateway/src/smtp/mod.rs\<close>), and
  the inbound server (\<open>smtp/server.rs\<close>): the session, a state machine over lines, and the loop of a
  connection that feeds it from the bytes as they arrive. The application behind the listener is
  an argument with a state of its own.
\<close>

section \<open>Replies\<close>

type_synonym u16 = "16 word"

definition MAX_COMMAND_LINE :: nat where "MAX_COMMAND_LINE = 1000"

record reply =
  rp_code :: u16
  rp_lines :: "string list"

definition reply_new :: "u16 \<Rightarrow> string \<Rightarrow> reply" where
  "reply_new code text = \<lparr>rp_code = code, rp_lines = [text]\<rparr>"

definition reply_multi :: "u16 \<Rightarrow> string list \<Rightarrow> reply" where
  "reply_multi code ls = \<lparr>rp_code = code, rp_lines = (if ls = [] then [[]] else ls)\<rparr>"

definition is_positive :: "reply \<Rightarrow> bool" where
  "is_positive r \<longleftrightarrow> 200 \<le> rp_code r \<and> rp_code r < 400"

definition is_transient :: "reply \<Rightarrow> bool" where
  "is_transient r \<longleftrightarrow> 400 \<le> rp_code r \<and> rp_code r < 500"

definition is_permanent :: "reply \<Rightarrow> bool" where
  "is_permanent r \<longleftrightarrow> rp_code r \<ge> 500"

definition sanitise_reply_text :: "string \<Rightarrow> string" where
  "sanitise_reply_text s = concat (map (\<lambda>c. if is_control c then '' '' else c) (str_chars s))"

definition crlf :: string where "crlf = [CHR 0x0D, CHR 0x0A]"

fun wire_lines :: "string \<Rightarrow> string list \<Rightarrow> string" where
  "wire_lines code [] = []"
| "wire_lines code [l] = code @ '' '' @ sanitise_reply_text l @ crlf"
| "wire_lines code (l # m # ls) = code @ ''-'' @ sanitise_reply_text l @ crlf @ wire_lines code (m # ls)"

definition to_wire :: "reply \<Rightarrow> string" where
  "to_wire r = wire_lines (dec_string (unat (rp_code r))) (rp_lines r)"

text \<open>\<open>strip_suffix\<close> of a carriage return.\<close>

definition strip_cr :: "bytes \<Rightarrow> bytes" where
  "strip_cr line = (if line \<noteq> [] \<and> last line = 0x0D then butlast line else line)"

definition split_line :: "bytes \<Rightarrow> (bytes \<times> nat) option" where
  "split_line buf = (if 0x0A \<in> set buf
     then (let line = takeWhile (\<lambda>b. b \<noteq> 0x0A) buf in Some (strip_cr line, length line + 1))
     else None)"

lemma split_line_used: "split_line buf = Some (l, n) \<Longrightarrow> 0 < n \<and> n \<le> length buf"
proof -
  assume s: "split_line buf = Some (l, n)"
  then have "0x0A \<in> set buf" "n = length (takeWhile (\<lambda>b. b \<noteq> 0x0A) buf) + 1"
    by (auto simp: split_line_def Let_def split: if_splits)
  moreover have "length (takeWhile (\<lambda>b. b \<noteq> 0x0A) xs) < length xs" if "0x0A \<in> set xs" for xs :: bytes
    using that by (induction xs) auto
  ultimately show ?thesis by (simp add: Suc_leI)
qed

text \<open>The loop of \<open>dot_stuff\<close>: one line per round, until a part without a terminator.\<close>

definition stuffed :: "bytes \<Rightarrow> bytes" where
  "stuffed line = (if take 1 line = [0x2E] then 0x2E # line else line) @ [0x0D, 0x0A]"

function stuff_lines :: "bytes \<Rightarrow> bytes" where
  "stuff_lines rest =
     (if 0x0A \<in> set rest
      then (let line = takeWhile (\<lambda>b. b \<noteq> 0x0A) rest
            in stuffed (strip_cr line) @ stuff_lines (drop (length line + 1) rest))
      else if rest = [] then [] else stuffed rest)"
  by pat_completeness auto
termination
  by (relation "measure length") (auto intro!: diff_less dest: length_pos_if_in_set)

declare stuff_lines.simps [simp del]

definition dot_stuff :: "bytes \<Rightarrow> bytes" where
  "dot_stuff body = stuff_lines body @ [0x2E, 0x0D, 0x0A]"

text \<open>\<open>get(..n)\<close> of a string: none when it is shorter or a character would be cut.\<close>

definition str_get_to :: "nat \<Rightarrow> string \<Rightarrow> string option" where
  "str_get_to n s = (if n < length s \<and> cont_char (s ! n) \<or> length s < n then None else Some (take n s))"

definition parse_reply_line :: "string \<Rightarrow> (u16 \<times> bool \<times> string) option" where
  "parse_reply_line line =
     (case str_get_to 3 line of
        None \<Rightarrow> None
      | Some code_str \<Rightarrow>
          if \<not> (\<forall>c \<in> set code_str. is_ascii_digit c) then None
          else (case parse_dec 16 code_str of
            None \<Rightarrow> None
          | Some code \<Rightarrow>
              (case drop 3 line of
                 [] \<Rightarrow> Some (word_of_nat code, True, [])
               | c # text \<Rightarrow> if c = CHR '' '' then Some (word_of_nat code, True, text)
                   else if c = CHR ''-'' then Some (word_of_nat code, False, text) else None)))"

section \<open>The session\<close>

record smtp_envelope =
  se_helo :: string
  se_mail_from :: string
  se_rcpt_to :: "string list"
  se_peer :: string

datatype verdict = SvAccept | SvReject u16 string | SvTempFail u16 string

record smtp_limits =
  lm_max_message_bytes :: u64
  lm_max_recipients :: nat

datatype smtp_action =
    AReply reply
  | AClose reply
  | ACheckRecipient string
  | AMessage smtp_envelope bytes
  | AContinue

datatype smtp_phase = PConnected | PReady | PMail | PRcpt | PData

record smtp_session =
  sm_hostname :: string
  sm_limits :: smtp_limits
  sm_phase :: smtp_phase
  sm_envelope :: smtp_envelope
  sm_data :: bytes
  sm_oversize :: bool
  sm_errors :: u32

definition SMTP_MAX_ERRORS :: u32 where "SMTP_MAX_ERRORS = 10"

definition session_new :: "string \<Rightarrow> smtp_limits \<Rightarrow> string \<Rightarrow> smtp_session" where
  "session_new hostname limits peer =
     \<lparr>sm_hostname = hostname, sm_limits = limits, sm_phase = PConnected,
      sm_envelope = \<lparr>se_helo = [], se_mail_from = [], se_rcpt_to = [], se_peer = peer\<rparr>,
      sm_data = [], sm_oversize = False, sm_errors = 0\<rparr>"

definition banner :: "smtp_session \<Rightarrow> reply" where
  "banner s = reply_new 220 (sm_hostname s @ '' ESMTP hashgram-mail-gateway'')"

definition in_data :: "smtp_session \<Rightarrow> bool" where
  "in_data s \<longleftrightarrow> sm_phase s = PData"

definition mark_oversize :: "smtp_session \<Rightarrow> smtp_session" where
  "mark_oversize s = (if sm_phase s = PData then s\<lparr>sm_data := [], sm_oversize := True\<rparr> else s)"

definition reset_transaction :: "smtp_session \<Rightarrow> smtp_session" where
  "reset_transaction s = s\<lparr>sm_phase := (if sm_phase s \<noteq> PConnected then PReady else PConnected),
     sm_envelope := (sm_envelope s)\<lparr>se_mail_from := [], se_rcpt_to := []\<rparr>,
     sm_data := [], sm_oversize := False\<rparr>"

definition sm_error :: "reply \<Rightarrow> smtp_session \<Rightarrow> smtp_action \<times> smtp_session" where
  "sm_error r s =
     (let s = s\<lparr>sm_errors := sm_errors s + 1\<rparr>
      in (if sm_errors s \<ge> SMTP_MAX_ERRORS
          then AClose (reply_new 421 (sm_hostname s @ '' too many errors, closing'')) else AReply r, s))"

definition sm_fail :: "u16 \<Rightarrow> string \<Rightarrow> smtp_session \<Rightarrow> smtp_action \<times> smtp_session" where
  "sm_fail code text s = sm_error (reply_new code text) s"

text \<open>The path and the parameters of MAIL and RCPT.\<close>

definition parse_path_arg :: "string \<Rightarrow> string \<Rightarrow> (string \<times> string list) option" where
  "parse_path_arg arg keyword =
     (case str_get_to (length keyword) arg of
        None \<Rightarrow> None
      | Some head \<Rightarrow>
          if \<not> eq_ignore_ascii_case head keyword then None
          else
            (let rest = trim_start (drop (length keyword) arg);
                 parts = (case strip_prefix ''<'' rest of
                     Some after \<Rightarrow> split_once (CHR ''>'') after
                   | None \<Rightarrow> Some (takeWhile (\<lambda>c. c \<noteq> CHR '' '') rest, dropWhile (\<lambda>c. c \<noteq> CHR '' '') rest))
             in case parts of
                  None \<Rightarrow> None
                | Some (path_part, params) \<Rightarrow>
                    (let path = (case rsplit_once (CHR '':'') path_part of
                         Some (route, mailbox) \<Rightarrow> if starts_with ''@'' route then mailbox else path_part
                       | None \<Rightarrow> path_part)
                     in if list_ex (\<lambda>c. is_control c \<or> c = '' '') (str_chars path) then None
                        else Some (path, split_whitespace params))))"

definition sm_helo :: "string \<Rightarrow> bool \<Rightarrow> smtp_session \<Rightarrow> smtp_action \<times> smtp_session" where
  "sm_helo arg extended s =
     (if arg = [] \<or> has_white_space arg then sm_fail 501 ''syntax: EHLO hostname'' s
      else
        (let s = reset_transaction s;
             helo = take_chars 253 arg;
             s = s\<lparr>sm_phase := PReady, sm_envelope := (sm_envelope s)\<lparr>se_helo := helo\<rparr>\<rparr>;
             greet = sm_hostname s @ '' greets '' @ helo
         in (AReply (if extended
               then reply_multi 250 [greet, ''SIZE '' @ dec_string (unat (lm_max_message_bytes (sm_limits s))),
                      ''8BITMIME'', ''PIPELINING'', ''ENHANCEDSTATUSCODES'']
               else reply_new 250 greet), s)))"

text \<open>The loop over the parameters of MAIL, up to the first that is refused.\<close>

fun mail_params :: "smtp_limits \<Rightarrow> string list \<Rightarrow> (u16 \<times> string) option" where
  "mail_params lim [] = None"
| "mail_params lim (p # ps) =
     (let (k, v) = (case split_once (CHR ''='') p of Some kv \<Rightarrow> kv | None \<Rightarrow> (p, []));
          k = ascii_uppercase k
      in if k = ''SIZE'' then
           (case parse_dec 64 v of
              None \<Rightarrow> Some (501, ''5.5.4 bad SIZE parameter'')
            | Some n \<Rightarrow> if (word_of_nat n :: u64) > lm_max_message_bytes lim
                then Some (552, ''5.3.4 message exceeds fixed maximum message size'')
                else mail_params lim ps)
         else if k = ''BODY'' then
           (if \<not> eq_ignore_ascii_case v ''7BIT'' \<and> \<not> eq_ignore_ascii_case v ''8BITMIME''
            then Some (501, ''5.5.4 unsupported BODY value'') else mail_params lim ps)
         else Some (555, ''5.5.4 unsupported MAIL parameter''))"

definition sm_mail :: "string \<Rightarrow> smtp_session \<Rightarrow> smtp_action \<times> smtp_session" where
  "sm_mail arg s =
     (case sm_phase s of
        PConnected \<Rightarrow> sm_fail 503 ''5.5.1 send HELO/EHLO first'' s
      | PMail \<Rightarrow> sm_fail 503 ''5.5.1 nested MAIL command'' s
      | PRcpt \<Rightarrow> sm_fail 503 ''5.5.1 nested MAIL command'' s
      | PData \<Rightarrow> sm_fail 503 ''5.5.1 bad sequence'' s
      | PReady \<Rightarrow>
          (case parse_path_arg arg ''FROM:'' of
             None \<Rightarrow> sm_fail 501 ''5.5.4 syntax: MAIL FROM:<address> [SIZE=n]'' s
           | Some (path, params) \<Rightarrow>
               (case mail_params (sm_limits s) params of
                  Some (code, text) \<Rightarrow> sm_fail code text s
                | None \<Rightarrow>
                    if path \<noteq> [] \<and> (length path > 254 \<or> CHR ''@'' \<notin> set path)
                    then sm_fail 501 ''5.1.7 bad sender address syntax'' s
                    else (AReply (reply_new 250 ''2.1.0 OK''),
                      s\<lparr>sm_phase := PMail,
                        sm_envelope := (sm_envelope s)\<lparr>se_mail_from := path, se_rcpt_to := []\<rparr>\<rparr>))))"

definition sm_rcpt :: "string \<Rightarrow> smtp_session \<Rightarrow> smtp_action \<times> smtp_session" where
  "sm_rcpt arg s =
     (if sm_phase s \<noteq> PMail \<and> sm_phase s \<noteq> PRcpt then sm_fail 503 ''5.5.1 need MAIL command first'' s
      else (case parse_path_arg arg ''TO:'' of
        None \<Rightarrow> sm_fail 501 ''5.5.4 syntax: RCPT TO:<address>'' s
      | Some (path, params) \<Rightarrow>
          if params \<noteq> [] then sm_fail 555 ''5.5.4 unsupported RCPT parameter'' s
          else if path = [] \<or> length path > 254 \<or> CHR ''@'' \<notin> set path
          then sm_fail 501 ''5.1.3 bad recipient address syntax'' s
          else if length (se_rcpt_to (sm_envelope s)) \<ge> lm_max_recipients (sm_limits s)
          then sm_fail 452 ''4.5.3 too many recipients'' s
          else (ACheckRecipient path, s)))"

definition refusal :: "verdict \<Rightarrow> reply" where
  "refusal v = (case v of
      SvReject code text \<Rightarrow> reply_new (max code 500) text
    | SvTempFail code text \<Rightarrow> reply_new (min (max code 400) 499) text
    | SvAccept \<Rightarrow> reply_new 250 [])"

definition recipient_verdict :: "string \<Rightarrow> verdict \<Rightarrow> smtp_session \<Rightarrow> reply \<times> smtp_session" where
  "recipient_verdict rcpt v s =
     (case v of
        SvAccept \<Rightarrow> (reply_new 250 ''2.1.5 OK'',
          s\<lparr>sm_phase := PRcpt,
            sm_envelope := (sm_envelope s)\<lparr>se_rcpt_to := se_rcpt_to (sm_envelope s) @ [rcpt]\<rparr>\<rparr>)
      | _ \<Rightarrow> (refusal v, s))"

definition sm_data_cmd :: "string \<Rightarrow> smtp_session \<Rightarrow> smtp_action \<times> smtp_session" where
  "sm_data_cmd arg s =
     (if arg \<noteq> [] then sm_fail 501 ''5.5.4 DATA takes no parameters'' s
      else (case sm_phase s of
        PRcpt \<Rightarrow> (AReply (reply_new 354 ''End data with <CR><LF>.<CR><LF>''),
          s\<lparr>sm_phase := PData, sm_data := [], sm_oversize := False\<rparr>)
      | PMail \<Rightarrow> sm_fail 503 ''5.5.1 need RCPT command first'' s
      | _ \<Rightarrow> sm_fail 503 ''5.5.1 need MAIL and RCPT first'' s))"

definition sm_verb :: "string \<Rightarrow> string \<Rightarrow> smtp_session \<Rightarrow> smtp_action \<times> smtp_session" where
  "sm_verb verb arg s =
     (if verb = ''EHLO'' then sm_helo arg True s
      else if verb = ''HELO'' then sm_helo arg False s
      else if verb = ''MAIL'' then sm_mail arg s
      else if verb = ''RCPT'' then sm_rcpt arg s
      else if verb = ''DATA'' then sm_data_cmd arg s
      else if verb = ''RSET'' then (AReply (reply_new 250 ''OK''), reset_transaction s)
      else if verb = ''NOOP'' then (AReply (reply_new 250 ''OK''), s)
      else if verb = ''QUIT'' then (AClose (reply_new 221 (sm_hostname s @ '' closing connection'')), s)
      else if verb = ''VRFY'' \<or> verb = ''EXPN''
      then (AReply (reply_new 252 ''Cannot VRFY user, but will accept message and attempt delivery''), s)
      else if verb = ''HELP''
      then (AReply (reply_new 214 ''https://github.com/hashgram/hashgram docs/MAIL_GATEWAY.md''), s)
      else if verb = ''STARTTLS'' then sm_fail 502 ''STARTTLS not offered; TLS is terminated upstream'' s
      else if verb = ''AUTH''
      then sm_fail 502 ''AUTH not offered; this gateway does not relay for authenticated users'' s
      else if verb = [] then sm_fail 500 ''empty command'' s
      else sm_fail 500 ''command not recognized'' s)"

definition recovered :: "smtp_action \<Rightarrow> bool" where
  "recovered a \<longleftrightarrow> (case a of AReply r \<Rightarrow> rp_code r < 400 | ACheckRecipient _ \<Rightarrow> True | _ \<Rightarrow> False)"

definition sm_command :: "bytes \<Rightarrow> smtp_session \<Rightarrow> smtp_action \<times> smtp_session" where
  "sm_command line s =
     (if length line > MAX_COMMAND_LINE then sm_fail 500 ''line too long'' s
      else if \<not> utf8_ok line then sm_fail 500 ''command is not valid UTF-8'' s
      else
        (let text = trim_end (byte_text line);
             (verb, arg) = (case split_once (CHR '' '') text of
                Some (v, a) \<Rightarrow> (v, trim a) | None \<Rightarrow> (text, []));
             (action, s) = sm_verb (ascii_uppercase verb) arg s
         in (action, if recovered action then s\<lparr>sm_errors := 0\<rparr> else s)))"

text \<open>Lengths of vectors are below \<open>2 ^ 63\<close>: their sum does not wrap as \<open>u64\<close>, and is a \<open>nat\<close> here.\<close>

definition sm_data_line :: "bytes \<Rightarrow> smtp_session \<Rightarrow> smtp_action \<times> smtp_session" where
  "sm_data_line line s =
     (if sm_phase s \<noteq> PData then sm_fail 503 ''5.5.1 not in DATA'' s
      else if line = [0x2E] then
        (let s = s\<lparr>sm_phase := PRcpt\<rparr>
         in if sm_oversize s
            then sm_fail 552 ''5.3.4 message exceeds fixed maximum message size'' (reset_transaction s)
            else (AMessage (sm_envelope s) (sm_data s), s\<lparr>sm_data := []\<rparr>))
      else if sm_oversize s then (AContinue, s)
      else
        (let body = (if take 1 line = [0x2E] then tl line else line);
             projected = length (sm_data s) + length body + 2
         in if projected > unat (lm_max_message_bytes (sm_limits s))
            then (AContinue, s\<lparr>sm_data := [], sm_oversize := True\<rparr>)
            else (AContinue, s\<lparr>sm_data := sm_data s @ body @ [0x0D, 0x0A]\<rparr>)))"

definition message_verdict :: "verdict \<Rightarrow> smtp_session \<Rightarrow> reply \<times> smtp_session" where
  "message_verdict v s =
     (case v of SvAccept \<Rightarrow> reply_new 250 ''2.0.0 OK: queued'' | _ \<Rightarrow> refusal v, reset_transaction s)"

section \<open>The loop of a connection\<close>

text \<open>The application: what it says of a recipient and of a message, and how its state changes.\<close>

record 'h inbound_handler =
  ih_check :: "'h \<Rightarrow> string \<Rightarrow> smtp_envelope \<Rightarrow> verdict \<times> 'h"
  ih_accept :: "'h \<Rightarrow> smtp_envelope \<Rightarrow> bytes \<Rightarrow> verdict \<times> 'h"

text \<open>One line: the reply written, whether the connection is closed, session and handler after.\<close>

definition serve_line :: "'h inbound_handler \<Rightarrow> bytes \<Rightarrow> smtp_session \<Rightarrow> 'h \<Rightarrow>
    reply list \<times> bool \<times> smtp_session \<times> 'h" where
  "serve_line ih line s h =
     (case (if in_data s then sm_data_line line s else sm_command line s) of (action, s) \<Rightarrow>
       (case action of
          AContinue \<Rightarrow> ([], False, s, h)
        | AReply r \<Rightarrow> ([r], False, s, h)
        | AClose r \<Rightarrow> ([r], True, s, h)
        | ACheckRecipient rcpt \<Rightarrow>
            (case ih_check ih h rcpt (sm_envelope s) of (v, h) \<Rightarrow>
              (case recipient_verdict rcpt v s of (r, s) \<Rightarrow> ([r], False, s, h)))
        | AMessage envelope raw \<Rightarrow>
            (case ih_accept ih h envelope raw of (v, h) \<Rightarrow>
              (case message_verdict v s of (r, s) \<Rightarrow> ([r], False, s, h)))))"

text \<open>The inner loop consumes the complete lines of the buffer.\<close>

function serve_buffered :: "'h inbound_handler \<Rightarrow> bytes \<Rightarrow> smtp_session \<Rightarrow> 'h \<Rightarrow>
    reply list \<times> bool \<times> bytes \<times> smtp_session \<times> 'h" where
  "serve_buffered ih buf s h =
     (case split_line buf of
        None \<Rightarrow> ([], False, buf, s, h)
      | Some (line, used) \<Rightarrow>
          (case serve_line ih line s h of (out, closed, s, h) \<Rightarrow>
             if closed then (out, True, drop used buf, s, h)
             else (case serve_buffered ih (drop used buf) s h of (out', c, b, s, h) \<Rightarrow>
                     (out @ out', c, b, s, h))))"
  by pat_completeness auto
termination
  by (relation "measure (\<lambda>(ih, buf, s, h). length buf)") (auto dest: split_line_used)

declare serve_buffered.simps [simp del]

text \<open>The two guards on a buffer without a terminator.\<close>

definition guard_buffer :: "bytes \<Rightarrow> smtp_session \<Rightarrow> reply list \<times> bytes \<times> smtp_session" where
  "guard_buffer buf s =
     (let (out, buf) = (if length buf > MAX_COMMAND_LINE \<and> \<not> in_data s
            then ([reply_new 500 ''line too long''], []) else ([], buf))
      in if in_data s \<and> length buf > unat (lm_max_message_bytes (sm_limits s) + 1024)
         then (out, [], mark_oversize s) else (out, buf, s))"

datatype read_event = RdBytes bytes | RdError | RdTimeout

text \<open>The outer loop over what the reads of the stream return; \<open>RdBytes []\<close> is the end of the stream.\<close>

fun serve_reads :: "'h inbound_handler \<Rightarrow> read_event list \<Rightarrow> bytes \<Rightarrow> smtp_session \<Rightarrow> 'h \<Rightarrow>
    reply list \<times> smtp_session \<times> 'h" where
  "serve_reads ih evs buf s h =
     (case serve_buffered ih buf s h of (out, closed, buf, s, h) \<Rightarrow>
        if closed then (out, s, h)
        else (case guard_buffer buf s of (out2, buf, s) \<Rightarrow>
          (case evs of
             [] \<Rightarrow> (out @ out2, s, h)
           | RdBytes bs # evs \<Rightarrow>
               if bs = [] then (out @ out2, s, h)
               else (case serve_reads ih evs (buf @ bs) s h of (out3, s, h) \<Rightarrow> (out @ out2 @ out3, s, h))
           | RdError # evs \<Rightarrow> (out @ out2, s, h)
           | RdTimeout # evs \<Rightarrow> (out @ out2 @ [reply_new 421 ''4.4.2 idle timeout, closing''], s, h))))"

declare serve_reads.simps [simp del]

definition serve_connection :: "'h inbound_handler \<Rightarrow> string \<Rightarrow> string \<Rightarrow> smtp_limits \<Rightarrow> read_event list \<Rightarrow> 'h \<Rightarrow>
    reply list \<times> smtp_session \<times> 'h" where
  "serve_connection ih peer hostname limits evs h =
     (let s = session_new hostname limits peer
      in case serve_reads ih evs [] s h of (out, s, h) \<Rightarrow> (banner s # out, s, h))"

end
