(* ===== verification/Smtp_Client.thy ===== *)
theory Smtp_Client
  imports Smtp
begin

text \<open>
  The outbound SMTP client (\<open>mail-gateway/src/smtp/client.rs\<close>): one message to one mail exchanger.
  A connection is what its stream will deliver to reads, what becomes of writes, the bytes buffered
  and the bytes written; a transport below (TCP, TLS) is an argument of \<open>deliver\<close>. The timeouts are
  events of the stream.
\<close>

section \<open>Errors and extensions\<close>

datatype delivery_error =
    DeIo string
  | DeTransient reply
  | DePermanent reply
  | DeTls string
  | DeProtocol string

definition de_is_permanent :: "delivery_error \<Rightarrow> bool" where
  "de_is_permanent e = (case e of DePermanent _ \<Rightarrow> True | _ \<Rightarrow> False)"

definition reply_text :: "reply \<Rightarrow> string" where
  "reply_text r = dec_string (unat (rp_code r)) @ '' '' @ join_with '' / '' (rp_lines r)"

definition de_text :: "delivery_error \<Rightarrow> string" where
  "de_text e = (case e of
      DeIo t \<Rightarrow> ''connection: '' @ t
    | DeTransient r \<Rightarrow> ''transient: '' @ reply_text r
    | DePermanent r \<Rightarrow> ''permanent: '' @ reply_text r
    | DeTls t \<Rightarrow> ''tls: '' @ t
    | DeProtocol t \<Rightarrow> ''protocol: '' @ t)"

record delivered =
  dl_reply :: reply
  dl_tls :: bool
  dl_rejected :: "(string \<times> reply) list"

record client_config =
  cc_helo :: string
  cc_require_tls :: bool

record extensions =
  ex_starttls :: bool
  ex_size_supported :: bool
  ex_size :: "u64 option"
  ex_8bitmime :: bool

definition extensions_default :: extensions where
  "extensions_default = \<lparr>ex_starttls = False, ex_size_supported = False, ex_size = None, ex_8bitmime = False\<rparr>"

definition extension_line :: "string \<Rightarrow> extensions \<Rightarrow> extensions" where
  "extension_line line ext =
     (case split_whitespace line of
        [] \<Rightarrow> ext
      | k # rest \<Rightarrow>
          (let k = ascii_uppercase k in
           if k = ''STARTTLS'' then ext\<lparr>ex_starttls := True\<rparr>
           else if k = ''8BITMIME'' then ext\<lparr>ex_8bitmime := True\<rparr>
           else if k = ''SIZE'' then
             (let ext = ext\<lparr>ex_size_supported := True\<rparr>
              in case rest of
                   v # _ \<Rightarrow> (case parse_dec 64 v of
                       Some n \<Rightarrow> if n > 0 then ext\<lparr>ex_size := Some (word_of_nat n)\<rparr> else ext
                     | None \<Rightarrow> ext)
                 | [] \<Rightarrow> ext)
           else ext))"

definition parse_extensions :: "reply \<Rightarrow> extensions" where
  "parse_extensions r = fold extension_line (drop 1 (rp_lines r)) extensions_default"

section \<open>The connection\<close>

datatype write_event = WrOk | WrError string | WrTimeout

text \<open>Writes beyond the end of the list succeed; a read beyond the end finds the stream closed.\<close>

record conn =
  cn_reads :: "read_event list"
  cn_writes :: "write_event list"
  cn_buf :: bytes
  cn_sent :: "bytes list"

type_synonym 'a io = "conn \<Rightarrow> (delivery_error + 'a) \<times> conn"

definition io_bind :: "'a io \<Rightarrow> ('a \<Rightarrow> 'b io) \<Rightarrow> 'b io" where
  "io_bind m k c = (case m c of (Inl e, c) \<Rightarrow> (Inl e, c) | (Inr x, c) \<Rightarrow> k x c)"

definition io_return :: "'a \<Rightarrow> 'a io" where "io_return x c = (Inr x, c)"

definition io_fail :: "delivery_error \<Rightarrow> 'a io" where "io_fail e c = (Inl e, c)"

definition conn_new :: "read_event list \<Rightarrow> write_event list \<Rightarrow> conn" where
  "conn_new rs ws = \<lparr>cn_reads = rs, cn_writes = ws, cn_buf = [], cn_sent = []\<rparr>"

definition send_raw :: "bytes \<Rightarrow> unit io" where
  "send_raw bs c =
     (case cn_writes c of
        [] \<Rightarrow> (Inr (), c\<lparr>cn_sent := cn_sent c @ [bs]\<rparr>)
      | WrOk # ws \<Rightarrow> (Inr (), c\<lparr>cn_writes := ws, cn_sent := cn_sent c @ [bs]\<rparr>)
      | WrError t # ws \<Rightarrow> (Inl (DeIo t), c\<lparr>cn_writes := ws\<rparr>)
      | WrTimeout # ws \<Rightarrow> (Inl (DeIo ''write timeout''), c\<lparr>cn_writes := ws\<rparr>))"

definition conn_send :: "string \<Rightarrow> unit io" where
  "conn_send line = send_raw (text_bytes line @ [0x0D, 0x0A])"

definition line_text :: "bytes \<Rightarrow> delivery_error + string" where
  "line_text line = (if utf8_ok line then Inr (byte_text line) else Inl (DeProtocol ''non-UTF-8 reply''))"

fun fill_line :: "read_event list \<Rightarrow> bytes \<Rightarrow> (delivery_error + string) \<times> read_event list \<times> bytes" where
  "fill_line rs buf =
     (case split_line buf of
        Some (line, used) \<Rightarrow> (line_text line, rs, drop used buf)
      | None \<Rightarrow>
          if length buf > 64 * 1024 then (Inl (DeProtocol ''reply line too long''), rs, buf)
          else (case rs of
              [] \<Rightarrow> (Inl (DeIo ''connection closed by remote''), [], buf)
            | RdTimeout # rs \<Rightarrow> (Inl (DeIo ''read timeout''), rs, buf)
            | RdError # rs \<Rightarrow> (Inl (DeIo ''read error''), rs, buf)
            | RdBytes bs # rs \<Rightarrow>
                if bs = [] then (Inl (DeIo ''connection closed by remote''), rs, buf)
                else fill_line rs (buf @ bs)))"

declare fill_line.simps [simp del]

definition read_line :: "string io" where
  "read_line c = (case fill_line (cn_reads c) (cn_buf c) of
     (r, rs, buf) \<Rightarrow> (r, c\<lparr>cn_reads := rs, cn_buf := buf\<rparr>))"

text \<open>The loop over the lines of a reply: those read so far, and the code of the last one.\<close>

function read_reply_from :: "string list \<Rightarrow> u16 \<Rightarrow> reply io" where
  "read_reply_from lines code c =
     (case read_line c of
        (Inl e, c) \<Rightarrow> (Inl e, c)
      | (Inr line, c) \<Rightarrow>
          (case parse_reply_line line of
             None \<Rightarrow> (Inl (DeProtocol ''bad reply line''), c)
           | Some (n, fin, t) \<Rightarrow>
               if code \<noteq> 0 \<and> n \<noteq> code then (Inl (DeProtocol ''inconsistent multi-line reply codes''), c)
               else if fin then (Inr \<lparr>rp_code = n, rp_lines = lines @ [t]\<rparr>, c)
               else if length (lines @ [t]) > 100 then (Inl (DeProtocol ''multi-line reply too long''), c)
               else read_reply_from (lines @ [t]) n c))"
  by pat_completeness auto
termination
  by (relation "measure (\<lambda>(lines, code, c). 101 - length lines)") auto

declare read_reply_from.simps [simp del]

definition read_reply :: "reply io" where
  "read_reply = read_reply_from [] 0"

definition classify_reply :: "u16 \<Rightarrow> reply \<Rightarrow> delivery_error + reply" where
  "classify_reply expect r =
     (if rp_code r = expect \<or> (expect = 250 \<and> rp_code r = 251) then Inr r
      else if is_transient r then Inl (DeTransient r)
      else if is_permanent r then Inl (DePermanent r)
      else Inl (DeProtocol (''unexpected reply '' @ reply_text r)))"

definition io_lift :: "delivery_error + 'a \<Rightarrow> 'a io" where "io_lift r c = (r, c)"

definition cmd :: "string \<Rightarrow> u16 \<Rightarrow> reply io" where
  "cmd line expect = io_bind (conn_send line) (\<lambda>_. io_bind read_reply (\<lambda>r. io_lift (classify_reply expect r)))"

section \<open>Greeting and transaction\<close>

definition greet :: "string \<Rightarrow> extensions io" where
  "greet helo =
     io_bind read_reply (\<lambda>banner.
     io_bind (io_lift (classify_reply 220 banner)) (\<lambda>_.
     io_bind (\<lambda>c. case cmd (''EHLO '' @ helo) 250 c of
         (Inl (DePermanent _), c) \<Rightarrow> cmd (''HELO '' @ helo) 250 c
       | rc \<Rightarrow> rc) (\<lambda>ehlo.
     io_return (parse_extensions ehlo))))"

definition greet_after_tls :: "string \<Rightarrow> extensions io" where
  "greet_after_tls helo = io_bind (cmd (''EHLO '' @ helo) 250) (\<lambda>ehlo. io_return (parse_extensions ehlo))"

text \<open>The loop over the recipients: those refused, how many were taken, the last deferral.\<close>

fun rcpt_loop :: "string list \<Rightarrow> (string \<times> reply) list \<Rightarrow> nat \<Rightarrow> reply option \<Rightarrow>
    ((string \<times> reply) list \<times> nat \<times> reply option) io" where
  "rcpt_loop [] rejected accepted deferred c = (Inr (rejected, accepted, deferred), c)"
| "rcpt_loop (r # rs) rejected accepted deferred c =
     (case cmd (''RCPT TO:<'' @ r @ ''>'') 250 c of
        (Inr _, c) \<Rightarrow> rcpt_loop rs rejected (accepted + 1) deferred c
      | (Inl (DePermanent p), c) \<Rightarrow> rcpt_loop rs (rejected @ [(r, p)]) accepted deferred c
      | (Inl (DeTransient t), c) \<Rightarrow> rcpt_loop rs rejected accepted (Some t) c
      | (Inl e, c) \<Rightarrow> (Inl e, c))"

definition mail_line :: "extensions \<Rightarrow> string \<Rightarrow> bytes \<Rightarrow> string" where
  "mail_line ext mail_from raw = ''MAIL FROM:<'' @ mail_from @ ''>''
     @ (if ex_size_supported ext then '' SIZE='' @ dec_string (length raw) else [])
     @ (if ex_8bitmime ext then '' BODY=8BITMIME'' else [])"

definition quit_quietly :: "unit io" where
  "quit_quietly c = (Inr (), snd (conn_send ''QUIT'' c))"

text \<open>The end of a transaction nobody accepted, and of one with recipients.\<close>

definition nobody :: "(string \<times> reply) list \<Rightarrow> reply option \<Rightarrow> (reply \<times> (string \<times> reply) list) io" where
  "nobody rejected deferred =
     io_bind quit_quietly (\<lambda>_.
       io_fail (case deferred of
           Some t \<Rightarrow> DeTransient t
         | None \<Rightarrow> if rejected = [] then DeProtocol ''no recipients'' else DePermanent (snd (last rejected))))"

definition hand_over :: "bytes \<Rightarrow> (string \<times> reply) list \<Rightarrow> (reply \<times> (string \<times> reply) list) io" where
  "hand_over raw rejected =
     io_bind (cmd ''DATA'' 354) (\<lambda>_.
     io_bind (send_raw (dot_stuff raw)) (\<lambda>_.
     io_bind read_reply (\<lambda>final.
     io_bind (io_lift (classify_reply 250 final)) (\<lambda>final.
     io_bind quit_quietly (\<lambda>_.
     io_bind (\<lambda>c. (Inr (), snd (read_reply c))) (\<lambda>_.
       io_return (final, rejected)))))))"

definition transaction :: "extensions \<Rightarrow> string \<Rightarrow> string list \<Rightarrow> bytes \<Rightarrow> (reply \<times> (string \<times> reply) list) io" where
  "transaction ext mail_from to raw =
     (if (case ex_size ext of Some limit \<Rightarrow> length raw > unat limit | None \<Rightarrow> False)
      then io_fail (DePermanent (reply_new 552 (''message of '' @ dec_string (length raw)
             @ '' bytes exceeds remote SIZE '' @ dec_string (unat (the (ex_size ext))))))
      else
        io_bind (cmd (mail_line ext mail_from raw) 250) (\<lambda>_.
        io_bind (rcpt_loop to [] 0 None) (\<lambda>(rejected, accepted, deferred).
          if accepted = 0 then nobody rejected deferred else hand_over raw rejected)))"

definition deliver_on :: "client_config \<Rightarrow> string \<Rightarrow> string list \<Rightarrow> bytes \<Rightarrow> delivered io" where
  "deliver_on cfg mail_from to raw =
     io_bind (greet (cc_helo cfg)) (\<lambda>ext.
     if cc_require_tls cfg then io_fail (DeTls ''TLS required but this transport cannot upgrade'')
     else io_bind (transaction ext mail_from to raw) (\<lambda>(reply, rejected).
       io_return \<lparr>dl_reply = reply, dl_tls = False, dl_rejected = rejected\<rparr>))"

section \<open>Delivery with an upgrade to TLS\<close>

text \<open>
  The transport: what connecting to the host yields, the first and the second time, and the
  handshake on an open stream. What was buffered before the handshake is dropped with the connection.
\<close>

record transport =
  tp_connect :: "nat \<Rightarrow> delivery_error + read_event list \<times> write_event list"
  tp_upgrade :: "read_event list \<times> write_event list \<Rightarrow> delivery_error + read_event list \<times> write_event list"

definition into_inner :: "conn \<Rightarrow> read_event list \<times> write_event list" where
  "into_inner c = (cn_reads c, cn_writes c)"

definition connect_new :: "transport \<Rightarrow> nat \<Rightarrow> delivery_error + conn" where
  "connect_new tp n = map_sum id (\<lambda>(rs, ws). conn_new rs ws) (tp_connect tp n)"

definition upgrade :: "transport \<Rightarrow> conn \<Rightarrow> delivery_error + conn" where
  "upgrade tp c = map_sum id (\<lambda>(rs, ws). conn_new rs ws) (tp_upgrade tp (into_inner c))"

definition finish :: "bool \<Rightarrow> (delivery_error + reply \<times> (string \<times> reply) list) \<Rightarrow> delivery_error + delivered" where
  "finish tls r = and_then r (\<lambda>(reply, rejected). Inr \<lparr>dl_reply = reply, dl_tls = tls, dl_rejected = rejected\<rparr>)"

definition send_plain :: "client_config \<Rightarrow> string \<Rightarrow> string list \<Rightarrow> bytes \<Rightarrow> conn \<Rightarrow>
    delivery_error + delivered" where
  "send_plain cfg mail_from to raw c =
     (case greet (cc_helo cfg) c of
        (Inl e, _) \<Rightarrow> Inl e
      | (Inr ext, c) \<Rightarrow> finish False (fst (transaction ext mail_from to raw c)))"

definition send_tls :: "client_config \<Rightarrow> string \<Rightarrow> string list \<Rightarrow> bytes \<Rightarrow> conn \<Rightarrow>
    delivery_error + delivered" where
  "send_tls cfg mail_from to raw c =
     (case greet_after_tls (cc_helo cfg) c of
        (Inl e, _) \<Rightarrow> Inl e
      | (Inr ext, c) \<Rightarrow> finish True (fst (transaction ext mail_from to raw c)))"

definition fall_back :: "client_config \<Rightarrow> transport \<Rightarrow> string \<Rightarrow> string list \<Rightarrow> bytes \<Rightarrow> string \<Rightarrow>
    delivery_error + delivered" where
  "fall_back cfg tp mail_from to raw tls_failure =
     (if cc_require_tls cfg then Inl (DeTls tls_failure)
      else and_then (connect_new tp 1) (send_plain cfg mail_from to raw))"

definition deliver :: "client_config \<Rightarrow> transport \<Rightarrow> string \<Rightarrow> string \<Rightarrow> string list \<Rightarrow> bytes \<Rightarrow>
    delivery_error + delivered" where
  "deliver cfg tp host mail_from to raw =
     and_then (connect_new tp 0) (\<lambda>c.
       case greet (cc_helo cfg) c of
         (Inl e, _) \<Rightarrow> Inl e
       | (Inr ext, c) \<Rightarrow>
           if \<not> ex_starttls ext then
             (if cc_require_tls cfg then Inl (DeTls (host @ '' does not offer STARTTLS''))
              else finish False (fst (transaction ext mail_from to raw c)))
           else (case cmd ''STARTTLS'' 220 c of
               (Inr _, c) \<Rightarrow>
                 (case upgrade tp c of
                    Inr c \<Rightarrow> send_tls cfg mail_from to raw c
                  | Inl e \<Rightarrow> fall_back cfg tp mail_from to raw (de_text e))
             | (Inl (DeTransient r), _) \<Rightarrow> fall_back cfg tp mail_from to raw (''STARTTLS refused: '' @ reply_text r)
             | (Inl (DePermanent r), _) \<Rightarrow> fall_back cfg tp mail_from to raw (''STARTTLS refused: '' @ reply_text r)
             | (Inl e, _) \<Rightarrow> Inl e))"

end
