(* ===== verification/Smtp_Props.thy ===== *)
theory Smtp_Props
  imports Smtp
begin

text \<open>
  What the SMTP server guarantees: the invariant of a session; the contract between the listener and
  the application behind it (locale \<open>smtp_application\<close>); the independence of how the stream is cut
  into reads; and that a message survives dot-stuffing by a client and its undoing by the server.
\<close>

section \<open>The invariant of a session\<close>

abbreviation rcpts :: "smtp_session \<Rightarrow> string list" where
  "rcpts s \<equiv> se_rcpt_to (sm_envelope s)"

definition path_ok :: "string \<Rightarrow> bool" where
  "path_ok p \<longleftrightarrow> p \<noteq> [] \<and> length p \<le> 254 \<and> CHR ''@'' \<in> set p"

definition envelope_ok :: "smtp_limits \<Rightarrow> smtp_envelope \<Rightarrow> bool" where
  "envelope_ok lim e \<longleftrightarrow> length (se_rcpt_to e) \<le> lm_max_recipients lim \<and> (\<forall>r \<in> set (se_rcpt_to e). path_ok r)"

definition smtp_ok :: "smtp_limits \<Rightarrow> smtp_session \<Rightarrow> bool" where
  "smtp_ok lim s \<longleftrightarrow> sm_limits s = lim \<and> envelope_ok lim (sm_envelope s)
     \<and> (sm_phase s \<in> {PRcpt, PData} \<longleftrightarrow> rcpts s \<noteq> [])
     \<and> length (sm_data s) \<le> unat (lm_max_message_bytes lim)
     \<and> (sm_phase s \<noteq> PData \<longrightarrow> sm_data s = [] \<and> \<not> sm_oversize s)
     \<and> (sm_oversize s \<longrightarrow> sm_data s = [])"

definition handover_ok :: "smtp_limits \<Rightarrow> smtp_envelope \<Rightarrow> bytes \<Rightarrow> bool" where
  "handover_ok lim e raw \<longleftrightarrow> envelope_ok lim e \<and> se_rcpt_to e \<noteq> []
     \<and> length raw \<le> unat (lm_max_message_bytes lim)"

definition action_ok :: "smtp_limits \<Rightarrow> smtp_action \<Rightarrow> smtp_session \<Rightarrow> bool" where
  "action_ok lim a s \<longleftrightarrow> (case a of
      ACheckRecipient p \<Rightarrow> path_ok p \<and> length (rcpts s) < lm_max_recipients lim \<and> sm_phase s \<in> {PMail, PRcpt}
    | AMessage e raw \<Rightarrow> e = sm_envelope s \<and> handover_ok lim e raw
    | _ \<Rightarrow> True)"

lemmas smtp_defs = smtp_ok_def envelope_ok_def action_ok_def path_ok_def handover_ok_def

lemma smtp_ok_new: "smtp_ok lim (session_new hostname lim peer)"
  by (simp add: session_new_def smtp_defs)

lemma smtp_ok_reset: "smtp_ok lim s \<Longrightarrow> smtp_ok lim (reset_transaction s)"
  by (auto simp: reset_transaction_def smtp_defs)

lemma rcpts_reset [simp]: "rcpts (reset_transaction s) = []"
  by (simp add: reset_transaction_def)

lemma smtp_ok_oversize: "smtp_ok lim s \<Longrightarrow> smtp_ok lim (mark_oversize s)" "rcpts (mark_oversize s) = rcpts s"
  by (auto simp: mark_oversize_def smtp_defs)

text \<open>What every command keeps: the invariant, and it adds no recipient of its own.\<close>

definition keeps :: "smtp_limits \<Rightarrow> smtp_session \<Rightarrow> smtp_action \<times> smtp_session \<Rightarrow> bool" where
  "keeps lim s r \<longleftrightarrow> smtp_ok lim (snd r) \<and> set (rcpts (snd r)) \<subseteq> set (rcpts s) \<and> action_ok lim (fst r) (snd r)"

lemma keeps_reply: "smtp_ok lim s \<Longrightarrow> keeps lim s (AReply r, s)" "smtp_ok lim s \<Longrightarrow> keeps lim s (AClose r, s)"
  by (simp_all add: keeps_def action_ok_def)

lemma smtp_ok_errors [simp]: "smtp_ok lim (s\<lparr>sm_errors := n\<rparr>) = smtp_ok lim s"
  by (simp add: smtp_ok_def)

lemma keeps_error: "smtp_ok lim s \<Longrightarrow> keeps lim s (sm_error r s)"
  by (simp add: keeps_def sm_error_def Let_def action_ok_def)

lemma keeps_fail: "smtp_ok lim s \<Longrightarrow> keeps lim s (sm_fail c t s)"
  by (simp add: sm_fail_def keeps_error)

lemma keeps_helo: "smtp_ok lim s \<Longrightarrow> keeps lim s (sm_helo arg ext s)"
proof (cases "arg = [] \<or> has_white_space arg")
  case False
  assume "smtp_ok lim s"
  then have "smtp_ok lim (reset_transaction s)" by (rule smtp_ok_reset)
  then have "smtp_ok lim (reset_transaction s\<lparr>sm_phase := PReady,
      sm_envelope := (sm_envelope (reset_transaction s))\<lparr>se_helo := h\<rparr>\<rparr>)" for h
    by (simp add: smtp_ok_def envelope_ok_def reset_transaction_def)
  then show ?thesis using False by (simp add: sm_helo_def Let_def keeps_def action_ok_def)
qed (auto simp: sm_helo_def keeps_fail)

lemma keeps_mail: "smtp_ok lim s \<Longrightarrow> keeps lim s (sm_mail arg s)"
  by (auto simp: sm_mail_def keeps_fail split: smtp_phase.split option.split)
    (auto simp: keeps_def smtp_defs)

lemma keeps_rcpt: "smtp_ok lim s \<Longrightarrow> keeps lim s (sm_rcpt arg s)"
  by (auto simp: sm_rcpt_def keeps_fail split: option.split)
    (auto simp: keeps_def smtp_defs)

lemma keeps_data_cmd: "smtp_ok lim s \<Longrightarrow> keeps lim s (sm_data_cmd arg s)"
  by (auto simp: sm_data_cmd_def keeps_fail split: smtp_phase.split)
    (auto simp: keeps_def smtp_defs)

lemma keeps_reset: "smtp_ok lim s \<Longrightarrow> keeps lim s (AReply r, reset_transaction s)"
  by (simp add: keeps_def smtp_ok_reset action_ok_def)

lemmas keeps_rules = keeps_reply keeps_fail keeps_helo keeps_mail keeps_rcpt keeps_data_cmd keeps_reset

lemma keeps_verb: "smtp_ok lim s \<Longrightarrow> keeps lim s (sm_verb verb arg s)"
  by (simp add: sm_verb_def keeps_rules)

lemma keeps_recovered: "keeps lim s (a, s') \<Longrightarrow> keeps lim s (a, s'\<lparr>sm_errors := n\<rparr>)"
  by (cases a) (simp_all add: keeps_def action_ok_def)

lemma keeps_verb_pair: "smtp_ok lim s \<Longrightarrow> sm_verb verb arg s = (a, s') \<Longrightarrow> keeps lim s (a, s')"
  using keeps_verb [of lim s verb arg] by simp

lemma keeps_command: "smtp_ok lim s \<Longrightarrow> keeps lim s (sm_command line s)"
  by (auto simp: sm_command_def keeps_fail Let_def keeps_recovered keeps_verb_pair
      split: prod.splits option.splits)

lemma keeps_data_line: "smtp_ok lim s \<Longrightarrow> sm_phase s = PData \<Longrightarrow> keeps lim s (sm_data_line line s)
    \<or> (\<exists>s'. sm_data_line line s = (AMessage (sm_envelope s) (sm_data s), s') \<and> s' = s\<lparr>sm_phase := PRcpt, sm_data := []\<rparr>
        \<and> handover_ok lim (sm_envelope s) (sm_data s) \<and> \<not> sm_oversize s)"
  by (auto simp: sm_data_line_def Let_def keeps_error sm_fail_def sm_error_def) 
    (auto simp: keeps_def smtp_defs reset_transaction_def)

lemma serve_reads_eq:
  assumes "serve_buffered ih buf s h = (out, closed, rest, s1, h1)" "guard_buffer rest s1 = (out2, rest2, s2)"
  shows "serve_reads ih evs buf s h =
    (if closed then (out, s1, h1)
     else (case evs of
             [] \<Rightarrow> (out @ out2, s2, h1)
           | RdBytes bs # evs \<Rightarrow>
               if bs = [] then (out @ out2, s2, h1)
               else (case serve_reads ih evs (rest2 @ bs) s2 h1 of (out3, s, h) \<Rightarrow> (out @ out2 @ out3, s, h))
           | RdError # evs \<Rightarrow> (out @ out2, s2, h1)
           | RdTimeout # evs \<Rightarrow> (out @ out2 @ [reply_new 421 ''4.4.2 idle timeout, closing''], s2, h1)))"
  by (subst serve_reads.simps) (simp add: assms)

section \<open>The application behind the listener\<close>

text \<open>
  The contract: \<open>good\<close> is an invariant of the application, \<open>approved\<close> the recipients it has accepted.
  The application keeps its invariant as long as the listener hands over only envelopes within the
  limits whose recipients were all approved.
\<close>

locale smtp_application =
  fixes ih :: "'h inbound_handler"
    and lim :: smtp_limits
    and good :: "'h \<Rightarrow> bool"
    and approved :: "'h \<Rightarrow> string set"
  assumes check_ok: "good h \<Longrightarrow> path_ok r \<Longrightarrow> ih_check ih h r e = (v, h') \<Longrightarrow>
      good h' \<and> approved h \<subseteq> approved h' \<and> (v = SvAccept \<longrightarrow> r \<in> approved h')"
    and accept_ok: "good h \<Longrightarrow> handover_ok lim e raw \<Longrightarrow> set (se_rcpt_to e) \<subseteq> approved h \<Longrightarrow>
      ih_accept ih h e raw = (v, h') \<Longrightarrow> good h' \<and> approved h \<subseteq> approved h'"
begin

definition served :: "smtp_session \<Rightarrow> 'h \<Rightarrow> bool" where
  "served s h \<longleftrightarrow> smtp_ok lim s \<and> good h \<and> set (rcpts s) \<subseteq> approved h"

lemma served_check:
  assumes "served s h" "action_ok lim (ACheckRecipient r) s" "ih_check ih h r (sm_envelope s) = (v, h')"
  shows "served (snd (recipient_verdict r v s)) h'"
proof -
  have h: "good h'" "approved h \<subseteq> approved h'" "v = SvAccept \<longrightarrow> r \<in> approved h'"
    using check_ok [OF _ _ assms(3)] assms(1,2) by (auto simp: served_def action_ok_def)
  have "smtp_ok lim (snd (recipient_verdict r v s))"
    using assms(1,2) by (cases v) (auto simp: served_def recipient_verdict_def smtp_defs)
  moreover have "set (rcpts (snd (recipient_verdict r v s))) \<subseteq> approved h'"
    using h assms(1) by (cases v) (auto simp: served_def recipient_verdict_def)
  ultimately show ?thesis using h(1) by (simp add: served_def)
qed

lemma served_line:
  assumes "served s h" "serve_line ih line s h = (out, closed, s', h')"
  shows "served s' h'"
proof -
  obtain a t where a: "(if in_data s then sm_data_line line s else sm_command line s) = (a, t)"
    by (metis surj_pair)
  have s: "smtp_ok lim s" "good h" "set (rcpts s) \<subseteq> approved h" using assms(1) by (auto simp: served_def)
  have "keeps lim s (a, t) \<or> (in_data s \<and> a = AMessage (sm_envelope s) (sm_data s)
      \<and> t = s\<lparr>sm_phase := PRcpt, sm_data := []\<rparr> \<and> handover_ok lim (sm_envelope s) (sm_data s) \<and> \<not> sm_oversize s)"
    using a keeps_data_line [OF s(1), of line] keeps_command [OF s(1), of line]
    by (auto simp: in_data_def split: if_splits)
  then show ?thesis
  proof
    assume k: "keeps lim s (a, t)"
    then have t: "served t h" using s by (auto simp: keeps_def served_def)
    show ?thesis
    proof (cases a)
      case (ACheckRecipient r)
      obtain v g where v: "ih_check ih h r (sm_envelope t) = (v, g)" by fastforce
      have "served (snd (recipient_verdict r v t)) g"
        using served_check [OF t _ v] k ACheckRecipient by (simp add: keeps_def)
      then show ?thesis using assms(2) a ACheckRecipient v
        by (auto simp: serve_line_def split: prod.splits)
    next
      case (AMessage e raw)
      have e: "e = sm_envelope t" "handover_ok lim e raw"
        using k by (auto simp: AMessage keeps_def action_ok_def)
      obtain v g where v: "ih_accept ih h e raw = (v, g)" by fastforce
      have "good g" using accept_ok [OF _ e(2) _ v] t e(1) by (simp add: served_def)
      then show ?thesis using assms(2) a AMessage v t
        by (auto simp: serve_line_def served_def message_verdict_def smtp_ok_reset)
    qed (use assms(2) a t in \<open>auto simp: serve_line_def\<close>)
  next
    assume m: "in_data s \<and> a = AMessage (sm_envelope s) (sm_data s)
      \<and> t = s\<lparr>sm_phase := PRcpt, sm_data := []\<rparr> \<and> handover_ok lim (sm_envelope s) (sm_data s) \<and> \<not> sm_oversize s"
    obtain v g where v: "ih_accept ih h (sm_envelope s) (sm_data s) = (v, g)" by fastforce
    have "good g" using accept_ok [OF s(2) _ s(3) v] m by blast
    moreover have "smtp_ok lim t" using m s(1) by (auto simp: smtp_defs)
    ultimately show ?thesis using assms(2) a v m
      by (auto simp: serve_line_def served_def message_verdict_def smtp_ok_reset)
  qed
qed

lemma served_buffered:
  "served s h \<Longrightarrow> serve_buffered ih buf s h = (out, closed, rest, s', h') \<Longrightarrow> served s' h'"
proof (induction buf arbitrary: s h out rule: length_induct)
  case (1 buf)
  show ?case
  proof (cases "split_line buf")
    case None
    then show ?thesis using 1(2,3) by (simp add: serve_buffered.simps)
  next
    case (Some lu)
    obtain line used where lu: "lu = (line, used)" by fastforce
    obtain out1 c s1 h1 where l: "serve_line ih line s h = (out1, c, s1, h1)" by (metis surj_pair)
    have s1: "served s1 h1" by (rule served_line [OF 1(2) l])
    show ?thesis
    proof (cases c)
      case True
      then show ?thesis using 1(3) s1 l Some lu by (simp add: serve_buffered.simps [of ih buf])
    next
      case False
      have "length (drop used buf) < length buf" using split_line_used Some lu by fastforce
      then show ?thesis using 1(1,3) s1 False l Some lu
        by (fastforce simp: serve_buffered.simps [of ih buf] split: prod.splits)
    qed
  qed
qed

lemma served_guard: "served s h \<Longrightarrow> guard_buffer buf s = (out, buf', s') \<Longrightarrow> served s' h"
  by (auto simp: guard_buffer_def Let_def served_def smtp_ok_oversize split: if_splits)

lemma served_reads:
  "served s h \<Longrightarrow> serve_reads ih evs buf s h = (out, s', h') \<Longrightarrow> served s' h'"
proof (induction evs arbitrary: buf s h out)
  case Nil
  obtain o1 c b1 s1 h1 where b: "serve_buffered ih buf s h = (o1, c, b1, s1, h1)" by (metis surj_pair)
  obtain o2 b2 s2 where g: "guard_buffer b1 s1 = (o2, b2, s2)" by (metis surj_pair)
  have s1: "served s1 h1" using served_buffered [OF Nil.prems(1) b] .
  then show ?case using Nil.prems(2) served_guard [OF s1 g] by (auto simp: serve_reads_eq [OF b g] split: if_splits)
next
  case (Cons e evs)
  obtain o1 c b1 s1 h1 where b: "serve_buffered ih buf s h = (o1, c, b1, s1, h1)" by (metis surj_pair)
  obtain o2 b2 s2 where g: "guard_buffer b1 s1 = (o2, b2, s2)" by (metis surj_pair)
  have s1: "served s1 h1" using served_buffered [OF Cons.prems(1) b] .
  have s2: "served s2 h1" using served_guard [OF s1 g] .
  have r: "served s' h'" if "serve_reads ih evs (b2 @ bs) s2 h1 = (out3, s', h')" for bs out3
    by (rule Cons.IH [OF s2 that])
  show ?case
    using Cons.prems(2) s1 s2 r
    by (cases c; cases e) (auto simp: serve_reads_eq [OF b g] simp del: serve_reads.simps split: prod.splits if_splits)
qed

lemma connection_keeps_good:
  assumes "good h" "serve_connection ih peer hostname lim evs h = (out, s', h')"
  shows "served s' h'"
proof -
  have "served (session_new hostname lim peer) h"
    using assms(1) by (simp add: served_def smtp_ok_new) (simp add: session_new_def)
  then show ?thesis using assms(2) served_reads
    by (auto simp: serve_connection_def Let_def split: prod.splits)
qed

end

section \<open>The log of an application\<close>

text \<open>
  A handler of any kind, with a log of the recipients it was asked about and the messages it was
  given. Wrapping does not change what the handler sees or says.
\<close>

datatype handler_event = Asked string verdict | Given smtp_envelope bytes verdict

definition logged :: "'h inbound_handler \<Rightarrow> ('h \<times> handler_event list) inbound_handler" where
  "logged ih =
     \<lparr>ih_check = (\<lambda>(h, l) r e. case ih_check ih h r e of (v, h) \<Rightarrow> (v, h, l @ [Asked r v])),
      ih_accept = (\<lambda>(h, l) e raw. case ih_accept ih h e raw of (v, h) \<Rightarrow> (v, h, l @ [Given e raw v]))\<rparr>"

text \<open>Every message in the log was within the limits and only for recipients that had been accepted.\<close>

fun log_ok :: "smtp_limits \<Rightarrow> string set \<Rightarrow> handler_event list \<Rightarrow> bool" where
  "log_ok lim ok [] = True"
| "log_ok lim ok (Asked r v # l) = log_ok lim (if v = SvAccept then insert r ok else ok) l"
| "log_ok lim ok (Given e raw v # l) =
     (handover_ok lim e raw \<and> set (se_rcpt_to e) \<subseteq> ok \<and> log_ok lim ok l)"

fun granted :: "handler_event list \<Rightarrow> string set" where
  "granted [] = {}"
| "granted (Asked r v # l) = (if v = SvAccept then {r} else {}) \<union> granted l"
| "granted (Given e raw v # l) = granted l"

lemma granted_append [simp]: "granted (l @ l') = granted l \<union> granted l'"
  by (induction l rule: granted.induct) auto

lemma log_ok_append: "log_ok lim ok (l @ l') \<longleftrightarrow> log_ok lim ok l \<and> log_ok lim (ok \<union> granted l) l'"
  by (induction l arbitrary: ok rule: granted.induct) simp_all

interpretation logged: smtp_application "logged ih" lim
    "\<lambda>(h, l). log_ok lim {} l" "\<lambda>(h, l). granted l"
  for ih :: "'h inbound_handler" and lim
  by unfold_locales (auto simp: logged_def log_ok_append split: prod.splits)

section \<open>Reading in pieces\<close>

lemma split_line_append:
  "split_line buf = Some (l, n) \<Longrightarrow> split_line (buf @ suf) = Some (l, n)"
  by (auto simp: split_line_def Let_def takeWhile_append1 split: if_splits)

lemma serve_buffered_append:
  "serve_buffered ih buf s h = (out, closed, rest, s1, h1) \<Longrightarrow>
   serve_buffered ih (buf @ suf) s h =
     (if closed then (out, True, rest @ suf, s1, h1)
      else (case serve_buffered ih (rest @ suf) s1 h1 of (out2, c, r, s2, h2) \<Rightarrow> (out @ out2, c, r, s2, h2)))"
proof (induction buf arbitrary: s h out closed rest s1 h1 rule: length_induct)
  case (1 buf)
  show ?case
  proof (cases "split_line buf")
    case None
    then show ?thesis using 1(2) by (auto simp: serve_buffered.simps [of ih buf] split: prod.splits)
  next
    case (Some lu)
    obtain line used where lu: "lu = (line, used)" by fastforce
    then have used: "0 < used" "used \<le> length buf" using split_line_used Some by blast+
    obtain o1 c t g where l: "serve_line ih line s h = (o1, c, t, g)" by (metis surj_pair)
    have sp: "split_line (buf @ suf) = Some (line, used)"
      using split_line_append Some lu by blast
    show ?thesis
    proof (cases c)
      case True
      then show ?thesis using 1(2) l Some lu sp used by (auto simp: serve_buffered.simps [of ih buf] serve_buffered.simps [of ih "buf @ suf"])
    next
      case False
      obtain o2 c2 r2 t2 g2 where b: "serve_buffered ih (drop used buf) t g = (o2, c2, r2, t2, g2)"
        by (metis surj_pair)
      have out: "out = o1 @ o2" "closed = c2" "rest = r2" "s1 = t2" "h1 = g2"
        using 1(2) l Some lu False b by (auto simp: serve_buffered.simps [of ih buf])
      have "length (drop used buf) < length buf" using used by simp
      note ih = 1(1) [rule_format, OF this b]
      show ?thesis using ih l sp False used out
        by (auto simp: serve_buffered.simps [of ih "buf @ suf"] split: prod.splits)
    qed
  qed
qed

text \<open>What is left in the buffer has no terminator, and is the end of the bytes served.\<close>

lemma serve_buffered_rest:
  "serve_buffered ih buf s h = (out, False, rest, s1, h1) \<Longrightarrow>
   0x0A \<notin> set rest \<and> (\<exists>done. buf = done @ rest)"
proof (induction buf arbitrary: s h out rest s1 h1 rule: length_induct)
  case (1 buf)
  show ?case
  proof (cases "split_line buf")
    case None
    then show ?thesis using 1(2) by (auto simp: serve_buffered.simps [of ih buf] split_line_def Let_def split: if_splits)
  next
    case (Some lu)
    obtain line used where lu: "lu = (line, used)" by fastforce
    then have used: "length (drop used buf) < length buf" using split_line_used Some by fastforce
    obtain o1 c t g where l: "serve_line ih line s h = (o1, c, t, g)" by (metis surj_pair)
    obtain o2 c2 r2 t2 g2 where b: "serve_buffered ih (drop used buf) t g = (o2, c2, r2, t2, g2)"
      by (metis surj_pair)
    have "\<not> c" "\<not> c2" "r2 = rest" using 1(2) l Some lu b by (auto simp: serve_buffered.simps [of ih buf] split: if_splits)
    then have "serve_buffered ih (drop used buf) t g = (o2, False, rest, t2, g2)" using b by simp
    then have "0x0A \<notin> set rest \<and> (\<exists>d. drop used buf = d @ rest)" using 1(1) used by blast
    then show ?thesis by (metis append.assoc append_take_drop_id)
  qed
qed

text \<open>Lines of at most \<open>n\<close> bytes up to the terminator, \<open>k\<close> of them left in the current one.\<close>

fun line_room :: "nat \<Rightarrow> nat \<Rightarrow> bytes \<Rightarrow> bool" where
  "line_room n k [] = True"
| "line_room n k (b # bs) = (if b = 0x0A then line_room n n bs else 0 < k \<and> line_room n (k - 1) bs)"

definition short_lines :: "nat \<Rightarrow> bytes \<Rightarrow> bool" where
  "short_lines n bs \<longleftrightarrow> line_room n n bs"

lemma line_room_prefix: "line_room n k (a @ b) \<Longrightarrow> line_room n k a"
  by (induction n k a rule: line_room.induct) auto

lemma line_room_suffix: "line_room n k (a @ b) \<Longrightarrow> k \<le> n \<Longrightarrow> \<exists>j \<le> n. line_room n j b"
  by (induction n k a rule: line_room.induct) (auto split: if_splits)

lemma line_room_run: "line_room n k m \<Longrightarrow> 0x0A \<notin> set m \<Longrightarrow> length m \<le> k"
  by (induction n k m rule: line_room.induct) (auto split: if_splits)

lemma short_run: "short_lines n (a @ m @ b) \<Longrightarrow> 0x0A \<notin> set m \<Longrightarrow> length m \<le> n"
  unfolding short_lines_def by (meson le_trans line_room_prefix line_room_run line_room_suffix order_refl)

interpretation any_application: smtp_application ih lim "\<lambda>_. True" "\<lambda>_. UNIV"
  for ih :: "'h inbound_handler" and lim
  by unfold_locales auto

lemma guard_short:
  assumes "length rest \<le> MAX_COMMAND_LINE" "unat (lm_max_message_bytes (sm_limits s)) + 1024 < 2 ^ 64"
  shows "guard_buffer rest s = ([], rest, s)"
proof -
  have "unat (lm_max_message_bytes (sm_limits s) + 1024) = unat (lm_max_message_bytes (sm_limits s)) + 1024"
    using assms(2) by (subst unat_add_lem [THEN iffD1]) auto
  then show ?thesis using assms(1) by (auto simp: guard_buffer_def MAX_COMMAND_LINE_def)
qed

lemma serve_reads_pieces:
  assumes "\<forall>c \<in> set cs. c \<noteq> []" "short_lines MAX_COMMAND_LINE (pre @ buf @ concat cs)"
    and "unat (lm_max_message_bytes lim) + 1024 < 2 ^ 64" "smtp_ok lim s"
  shows "serve_reads ih (map RdBytes cs) buf s h =
    (case serve_buffered ih (buf @ concat cs) s h of (out, c, r, s1, h1) \<Rightarrow> (out, s1, h1))"
  using assms
proof (induction cs arbitrary: pre buf s h)
  case Nil
  obtain out c r s1 h1 where b: "serve_buffered ih buf s h = (out, c, r, s1, h1)" by (metis surj_pair)
  have lim: "smtp_ok lim s1"
    using any_application.served_buffered [OF _ b, of lim] Nil(4) by (simp add: any_application.served_def)
  have "guard_buffer r s1 = ([], r, s1)" if "\<not> c"
  proof (rule guard_short)
    have "0x0A \<notin> set r \<and> (\<exists>done. buf = done @ r)" using serve_buffered_rest b that by simp
    then show "length r \<le> MAX_COMMAND_LINE" using Nil(2) short_run [of _ "pre @ _" r "[]"] by auto
  qed (use lim Nil(3) in \<open>simp add: smtp_ok_def\<close>)
  then show ?case using b by (cases c) (auto simp: serve_reads.simps)
next
  case (Cons a cs)
  obtain out c r s1 h1 where b: "serve_buffered ih buf s h = (out, c, r, s1, h1)" by (metis surj_pair)
  have lim: "smtp_ok lim s1"
    using any_application.served_buffered [OF _ b, of lim] Cons.prems(4) by (simp add: any_application.served_def)
  show ?case
  proof (cases c)
    case True
    obtain o2 b2 s2 where g: "guard_buffer r s1 = (o2, b2, s2)" by (metis surj_pair)
    show ?thesis using serve_buffered_append [OF b] True by (simp add: serve_reads_eq [OF b g])
  next
    case False
    obtain d where d: "buf = d @ r" "0x0A \<notin> set r" using serve_buffered_rest b False by fastforce
    have "length r \<le> MAX_COMMAND_LINE"
      using Cons.prems(2) short_run [of _ "pre @ d" r "concat (a # cs)"] d by simp
    then have g: "guard_buffer r s1 = ([], r, s1)"
      using guard_short lim Cons.prems(3) by (simp add: smtp_ok_def)
    have "serve_reads ih (map RdBytes cs) (r @ a) s1 h1 =
      (case serve_buffered ih ((r @ a) @ concat cs) s1 h1 of (out, c, r, s1, h1) \<Rightarrow> (out, s1, h1))"
      using Cons.IH [of "pre @ d" "r @ a"] Cons.prems d lim by simp
    then show ?thesis using serve_buffered_append [OF b, of "concat (a # cs)"] False Cons.prems(1)
      by (simp add: serve_reads_eq [OF b g] split: prod.split)
  qed
qed

section \<open>Dot-stuffing\<close>

definition crlf_lines :: "bytes list \<Rightarrow> bytes" where
  "crlf_lines ls = concat (map (\<lambda>l. l @ [0x0D, 0x0A]) ls)"

lemma crlf_lines_simps [simp]:
  "crlf_lines [] = []" "crlf_lines (l # ls) = l @ 0x0D # 0x0A # crlf_lines ls"
  by (simp_all add: crlf_lines_def)

lemma take_line: "0x0A \<notin> set l \<Longrightarrow> takeWhile (\<lambda>b. b \<noteq> 0x0A) (l @ 0x0D # 0x0A # rest) = l @ [0x0D::byte]"
  by (induction l) auto

lemma strip_cr_append [simp]: "strip_cr (l @ [0x0D]) = l"
  by (simp add: strip_cr_def)

lemma split_line_crlf: "0x0A \<notin> set l \<Longrightarrow> split_line (l @ 0x0D # 0x0A # rest) = Some (l, length l + 2)"
  by (simp add: split_line_def take_line)

lemma stuff_crlf_lines:
  "\<forall>l \<in> set ls. 0x0A \<notin> set l \<Longrightarrow> stuff_lines (crlf_lines ls) = concat (map stuffed ls)"
proof (induction ls)
  case Nil
  then show ?case by (simp add: stuff_lines.simps)
next
  case (Cons l ls)
  then show ?case by (simp add: stuff_lines.simps [of "l @ 0x0D # 0x0A # crlf_lines ls"] take_line)
qed

definition stuffed_line :: "bytes \<Rightarrow> bytes" where
  "stuffed_line l = (if take 1 l = [0x2E] then 0x2E # l else l)"

lemma stuffed_line_facts:
  "stuffed l = stuffed_line l @ [0x0D, 0x0A]" "stuffed_line l \<noteq> [0x2E]"
  "0x0A \<notin> set l \<Longrightarrow> 0x0A \<notin> set (stuffed_line l)"
  "(if take 1 (stuffed_line l) = [0x2E] then tl (stuffed_line l) else stuffed_line l) = l"
  by (auto simp: stuffed_def stuffed_line_def)

lemma serve_stuffed_line:
  assumes "0x0A \<notin> set l" "sm_phase s = PData" "\<not> sm_oversize s"
    and "length (sm_data s) + length l + 2 \<le> unat (lm_max_message_bytes (sm_limits s))"
  shows "serve_buffered ih (stuffed l @ rest) s h =
    serve_buffered ih rest (s\<lparr>sm_data := sm_data s @ l @ [0x0D, 0x0A]\<rparr>) h"
proof -
  have "split_line (stuffed l @ rest) = Some (stuffed_line l, length (stuffed_line l) + 2)"
    using split_line_crlf stuffed_line_facts assms(1) by simp
  moreover have "sm_data_line (stuffed_line l) s = (AContinue, s\<lparr>sm_data := sm_data s @ l @ [0x0D, 0x0A]\<rparr>)"
    using assms stuffed_line_facts(2,4) by (simp add: sm_data_line_def Let_def del: One_nat_def)
  ultimately show ?thesis using assms(2)
    by (subst serve_buffered.simps) (simp add: serve_line_def in_data_def stuffed_line_facts(1)
        split: prod.split)
qed

lemma serve_stuffed_lines:
  assumes "\<forall>l \<in> set ls. 0x0A \<notin> set l" "sm_phase s = PData" "\<not> sm_oversize s"
    and "length (sm_data s) + length (crlf_lines ls) \<le> unat (lm_max_message_bytes (sm_limits s))"
  shows "serve_buffered ih (concat (map stuffed ls) @ rest) s h =
    serve_buffered ih rest (s\<lparr>sm_data := sm_data s @ crlf_lines ls\<rparr>) h"
  using assms by (induction ls arbitrary: s) (simp_all add: serve_stuffed_line)

section \<open>Properties\<close>

definition wit_accept :: "unit inbound_handler" where
  "wit_accept = \<lparr>ih_check = (\<lambda>h r e. (SvAccept, h)), ih_accept = (\<lambda>h e raw. (SvAccept, h))\<rparr>"

definition wit_limits :: smtp_limits where
  "wit_limits = \<lparr>lm_max_message_bytes = 2048, lm_max_recipients = 2\<rparr>"

definition wit_session :: smtp_session where
  "wit_session = (session_new ''mx'' wit_limits ''1.2.3.4:5'')\<lparr>sm_phase := PData,
     sm_envelope := \<lparr>se_helo = ''c'', se_mail_from = [], se_rcpt_to = [''a@b''], se_peer = ''1.2.3.4:5''\<rparr>\<rparr>"

definition wit_dialogue :: bytes where
  "wit_dialogue = map (\<lambda>c. word_of_nat (of_char c)) (concat (map (\<lambda>l. l @ [CHR 0x0A])
     [''HELO c'', ''MAIL FROM:<>'', ''RCPT TO:<a@b>'', ''DATA'', ''hi'', ''.'']))"

definition wit_given :: smtp_envelope where
  "wit_given = \<lparr>se_helo = ''c'', se_mail_from = [], se_rcpt_to = [''a@b''], se_peer = ''p''\<rparr>"

lemma wit_dialogue_log:
  "snd (snd (snd (serve_connection (logged wit_accept) ''p'' ''mx'' wit_limits [RdBytes wit_dialogue] ((), []))))
    = [Asked ''a@b'' SvAccept, Given wit_given [0x68, 0x69, 0x0D, 0x0A] SvAccept]"
  by code_simp

text \<open>
  C21. Whatever bytes a client sends, in whatever pieces, the server gives its application only
  messages within the size limit, for at least one and at most the limit of recipients, each of
  which the application had accepted before on that connection; and the session ends well formed.
\<close>

theorem only_approved_mail_is_handed_over:
  assumes "serve_connection (logged ih) peer hostname lim evs (h, []) = (out, s, h', log)"
  shows "log_ok lim {} log \<and> smtp_ok lim s \<and> set (rcpts s) \<subseteq> granted log"
  using logged.connection_keeps_good [OF _ assms] by (simp add: logged.served_def)

theorem only_approved_mail_is_handed_over_witness:
  "log_ok wit_limits {} [Asked ''a@b'' SvAccept, Given wit_given [0x68, 0x69, 0x0D, 0x0A] SvAccept]"
proof -
  obtain out s h' log where r: "serve_connection (logged wit_accept) ''p'' ''mx'' wit_limits
      [RdBytes wit_dialogue] ((), []) = (out, s, h', log)" by (metis surj_pair)
  then have "log = [Asked ''a@b'' SvAccept, Given wit_given [0x68, 0x69, 0x0D, 0x0A] SvAccept]"
    using wit_dialogue_log by simp
  then show ?thesis using only_approved_mail_is_handed_over [OF r] by simp
qed



text \<open>
  A message of lines that a client sends dot-stuffed arrives as it was: the server gives the
  application exactly these bytes, whatever dots the lines begin with, answers with its verdict, and
  goes on with what the client sent after it as commands of a fresh transaction.
\<close>

theorem dot_stuffing_is_transparent:
  assumes "\<forall>l \<in> set ls. 0x0A \<notin> set l" "sm_phase s = PData" "\<not> sm_oversize s" "sm_data s = []"
    and "length (crlf_lines ls) \<le> unat (lm_max_message_bytes (sm_limits s))"
    and "ih_accept ih h (sm_envelope s) (crlf_lines ls) = (v, h')"
  shows "serve_buffered ih (dot_stuff (crlf_lines ls) @ rest) s h =
    (case serve_buffered ih rest (reset_transaction s) h' of (out, c, r, s2, h2) \<Rightarrow>
       (fst (message_verdict v s) # out, c, r, s2, h2))"
proof -
  let ?s = "s\<lparr>sm_data := crlf_lines ls\<rparr>"
  have "serve_buffered ih (dot_stuff (crlf_lines ls) @ rest) s h
      = serve_buffered ih ([0x2E, 0x0D, 0x0A] @ rest) ?s h"
    using serve_stuffed_lines [of ls s ih "[0x2E, 0x0D, 0x0A] @ rest" h] assms(1-5)
    by (simp add: dot_stuff_def stuff_crlf_lines)
  moreover have "split_line ([0x2E, 0x0D, 0x0A] @ rest) = Some ([0x2E], 3)"
    using split_line_crlf [of "[0x2E]" rest] by simp
  moreover have "reset_transaction (s\<lparr>sm_phase := PRcpt, sm_data := []\<rparr>) = reset_transaction s"
    using assms(2) by (simp add: reset_transaction_def)
  ultimately show ?thesis using assms(2,3,6)
    by (subst (asm) serve_buffered.simps [of ih "[0x2E, 0x0D, 0x0A] @ rest"])
      (simp add: serve_line_def in_data_def sm_data_line_def Let_def message_verdict_def split: prod.split)
qed

theorem dot_stuffing_is_transparent_witness:
  "fst (serve_buffered wit_accept (dot_stuff (crlf_lines [[0x2E], [0x41]])) wit_session ())
    = [reply_new 250 ''2.0.0 OK: queued'']"
  using dot_stuffing_is_transparent [of "[[0x2E], [0x41]]" wit_session wit_accept "()" SvAccept "()" "[]"]
  by (simp add: wit_session_def session_new_def wit_limits_def wit_accept_def message_verdict_def
      serve_buffered.simps [of _ "[]"] split_line_def)

end
