(* ===== verification/Smtp_Client_Props.thy ===== *)
theory Smtp_Client_Props
  imports Smtp_Client Smtp_Props
begin

text \<open>
  What the SMTP client guarantees: it reads the replies a server writes; a delivery is reported only
  after the server took the message, with every refusal permanent; TLS is used when it is required;
  and what it writes is understood by the server of this gateway.
\<close>

lemmas io_defs = io_bind_def io_return_def io_fail_def io_lift_def

lemma io_bind_ok: "io_bind m k c = (Inr y, c') \<longleftrightarrow> (\<exists>x d. m c = (Inr x, d) \<and> k x d = (Inr y, c'))"
  by (auto simp: io_bind_def split: prod.splits sum.splits)

lemma io_simple_ok [simp]:
  "io_return x c = (Inr y, c') \<longleftrightarrow> y = x \<and> c' = c" "io_fail e c = (Inr y, c') \<longleftrightarrow> False"
  "io_lift r c = (Inr y, c') \<longleftrightarrow> r = Inr y \<and> c' = c"
  by (auto simp: io_defs)

section \<open>What is written\<close>

definition wire_line :: "string \<Rightarrow> bytes" where
  "wire_line l = text_bytes l @ [0x0D, 0x0A]"

lemma conn_send_ok: "conn_send l c = (Inr u, c') \<Longrightarrow> cn_sent c' = cn_sent c @ [wire_line l]"
  by (auto simp: conn_send_def send_raw_def wire_line_def split: list.splits write_event.splits)

lemma send_raw_ok: "send_raw b c = (Inr u, c') \<Longrightarrow> cn_sent c' = cn_sent c @ [b]"
  by (auto simp: send_raw_def split: list.splits write_event.splits)

lemma read_line_sent: "read_line c = (r, c') \<Longrightarrow> cn_sent c' = cn_sent c"
  by (auto simp: read_line_def split: prod.splits)

lemma read_reply_from_sent: "read_reply_from ls code c = (r, c') \<Longrightarrow> cn_sent c' = cn_sent c"
proof (induction ls code c rule: read_reply_from.induct)
  case (1 ls code c)
  obtain l d where l: "read_line c = (l, d)" by fastforce
  show ?case
    using 1 l read_line_sent [OF l]
    by (subst (asm) (2) read_reply_from.simps) (auto split: sum.splits option.splits if_splits)
qed

lemma read_reply_sent: "read_reply c = (r, c') \<Longrightarrow> cn_sent c' = cn_sent c"
  by (simp add: read_reply_def read_reply_from_sent)

lemma classify_ok: "classify_reply expect r = Inr r' \<Longrightarrow> r' = r \<and> (rp_code r = expect \<or> expect = 250 \<and> rp_code r = 251)"
  by (auto simp: classify_reply_def split: if_splits)

lemma classify_permanent: "classify_reply expect r = Inl (DePermanent p) \<Longrightarrow> p = r \<and> is_permanent p"
  by (auto simp: classify_reply_def split: if_splits)

lemma classify_transient: "classify_reply expect r = Inl (DeTransient p) \<Longrightarrow> p = r \<and> is_transient p"
  by (auto simp: classify_reply_def split: if_splits)

lemma cmd_sent: "cmd l n c = (r, c') \<Longrightarrow> (\<forall>t. r \<noteq> Inl (DeIo t)) \<Longrightarrow> cn_sent c' = cn_sent c @ [wire_line l]"
  unfolding cmd_def io_bind_def io_lift_def
  by (auto split: prod.splits sum.splits dest!: conn_send_ok read_reply_sent
      simp: conn_send_def send_raw_def wire_line_def split: list.splits write_event.splits if_splits)

lemma cmd_ok: "cmd l n c = (Inr r, c') \<Longrightarrow>
    cn_sent c' = cn_sent c @ [wire_line l] \<and> (rp_code r = n \<or> n = 250 \<and> rp_code r = 251)"
  using cmd_sent [of l n c "Inr r" c'] classify_ok
  by (fastforce simp: cmd_def io_bind_ok)

text \<open>Errors below the replies are never a verdict of the server.\<close>

definition link_error :: "delivery_error \<Rightarrow> bool" where
  "link_error e \<longleftrightarrow> (case e of DeIo _ \<Rightarrow> True | DeProtocol _ \<Rightarrow> True | _ \<Rightarrow> False)"

lemma fill_line_error: "fill_line rs buf = (Inl e, rs', buf') \<Longrightarrow> link_error e"
proof (induction rs buf rule: fill_line.induct)
  case (1 rs buf)
  show ?case
    using 1(2) 1(1)
    by (subst (asm) (1) fill_line.simps)
      (auto simp: link_error_def line_text_def split: option.splits if_splits list.splits read_event.splits)
qed

lemma read_reply_error: "read_reply_from ls code c = (Inl e, c') \<Longrightarrow> link_error e"
proof (induction ls code c rule: read_reply_from.induct)
  case (1 ls code c)
  obtain l d where l: "read_line c = (l, d)" by fastforce
  have e: "l = Inl x \<Longrightarrow> link_error x" for x
    using l fill_line_error by (fastforce simp: read_line_def split: prod.splits)
  show ?case
    using 1 l e
    by (subst (asm) (2) read_reply_from.simps)
      (auto simp: link_error_def split: sum.splits option.splits if_splits)
qed

lemma cmd_verdict:
  "cmd l n c = (Inl (DePermanent p), c') \<Longrightarrow> is_permanent p"
  "cmd l n c = (Inl (DeTransient p), c') \<Longrightarrow> is_transient p"
  unfolding cmd_def io_bind_def io_lift_def read_reply_def
  by (auto split: prod.splits sum.splits list.splits write_event.splits
      dest!: classify_permanent classify_transient read_reply_error
      simp: conn_send_def send_raw_def link_error_def)

section \<open>The recipients\<close>

definition rcpt_line :: "string \<Rightarrow> string" where
  "rcpt_line r = ''RCPT TO:<'' @ r @ ''>''"

lemma rcpt_loop_ok:
  "rcpt_loop rs rej n d c = (Inr (rej', n', d'), c') \<Longrightarrow>
   cn_sent c' = cn_sent c @ map (wire_line \<circ> rcpt_line) rs
   \<and> (\<exists>new. rej' = rej @ new \<and> n' + length new \<le> n + length rs \<and> n \<le> n'
        \<and> (\<forall>(r, p) \<in> set new. r \<in> set rs \<and> is_permanent p))"
proof (induction rs arbitrary: rej n d c)
  case Nil
  then show ?case by auto
next
  case (Cons r rs)
  obtain x c1 where x: "cmd (rcpt_line r) 250 c = (x, c1)" by fastforce
  show ?case
  proof (cases x)
    case (Inr y)
    then have "rcpt_loop rs rej (n + 1) d c1 = (Inr (rej', n', d'), c')"
      using Cons.prems x by (simp add: rcpt_line_def)
    note ih = Cons.IH [OF this]
    have "cn_sent c1 = cn_sent c @ [wire_line (rcpt_line r)]" using cmd_ok x Inr by blast
    then show ?thesis using ih by fastforce
  next
    case (Inl e)
    show ?thesis
    proof (cases e)
      case (DePermanent p)
      then have "rcpt_loop rs (rej @ [(r, p)]) n d c1 = (Inr (rej', n', d'), c')"
        using Cons.prems x Inl by (simp add: rcpt_line_def)
      note ih = Cons.IH [OF this]
      have "cn_sent c1 = cn_sent c @ [wire_line (rcpt_line r)]" using cmd_sent [OF x] Inl DePermanent by simp
      moreover have "is_permanent p" using cmd_verdict x Inl DePermanent by blast
      ultimately show ?thesis using ih by fastforce
    next
      case (DeTransient t)
      then have "rcpt_loop rs rej n (Some t) c1 = (Inr (rej', n', d'), c')"
        using Cons.prems x Inl by (simp add: rcpt_line_def)
      note ih = Cons.IH [OF this]
      have "cn_sent c1 = cn_sent c @ [wire_line (rcpt_line r)]" using cmd_sent [OF x] Inl DeTransient by simp
      then show ?thesis using ih by fastforce
    qed (use Cons.prems x Inl in \<open>simp_all add: rcpt_line_def\<close>)
  qed
qed

text \<open>What a transaction writes when it succeeds, up to the farewell.\<close>

definition script :: "extensions \<Rightarrow> string \<Rightarrow> string list \<Rightarrow> bytes \<Rightarrow> bytes list" where
  "script ext mail_from to raw = wire_line (mail_line ext mail_from raw) # map (wire_line \<circ> rcpt_line) to
     @ [wire_line ''DATA'', dot_stuff raw]"

lemma quit_quietly_sent: "quit_quietly c = (Inr u, c') \<Longrightarrow> \<exists>q. cn_sent c' = cn_sent c @ q"
  by (auto simp: quit_quietly_def conn_send_def send_raw_def split: list.splits write_event.splits)

lemma transaction_ok:
  assumes "transaction ext mail_from to raw c = (Inr (final, rejected), c')"
  shows "(\<exists>q. cn_sent c' = cn_sent c @ script ext mail_from to raw @ q)
    \<and> (rp_code final = 250 \<or> rp_code final = 251) \<and> length rejected < length to
    \<and> (\<forall>(r, p) \<in> set rejected. r \<in> set to \<and> is_permanent p)
    \<and> (case ex_size ext of Some limit \<Rightarrow> length raw \<le> unat limit | None \<Rightarrow> True)"
proof -
  let ?small = "case ex_size ext of Some limit \<Rightarrow> length raw > unat limit | None \<Rightarrow> False"
  have small: "\<not> ?small" using assms by (cases "?small") (auto simp: transaction_def)
  obtain m c1 rej n d c2 where m: "cmd (mail_line ext mail_from raw) 250 c = (Inr m, c1)"
    and l: "rcpt_loop to [] 0 None c1 = (Inr (rej, n, d), c2)"
    and r: "(if n = 0 then nobody rej d else hand_over raw rej) c2 = (Inr (final, rejected), c')"
    using assms small unfolding transaction_def by (auto simp: io_bind_ok)
  have n: "n \<noteq> 0" using r by (cases n) (auto simp: nobody_def io_bind_ok)
  then have h: "hand_over raw rej c2 = (Inr (final, rejected), c')" using r by simp
  obtain x c3 u c4 f c5 v c6 where w: "cmd ''DATA'' 354 c2 = (Inr x, c3)" "send_raw (dot_stuff raw) c3 = (Inr u, c4)"
    "read_reply c4 = (Inr f, c5)" "classify_reply 250 f = Inr final" "quit_quietly c5 = (Inr v, c6)"
    "c' = snd (read_reply c6)" "rejected = rej"
    using h by (auto simp: hand_over_def io_bind_ok)
  have "cn_sent c' = cn_sent c6" using w(6) read_reply_sent by (metis prod.collapse)
  moreover obtain q where "cn_sent c6 = cn_sent c5 @ q" using quit_quietly_sent [OF w(5)] by blast
  moreover have "cn_sent c5 = cn_sent c @ script ext mail_from to raw"
    using cmd_ok [OF m] rcpt_loop_ok [OF l] cmd_ok [OF w(1)] send_raw_ok [OF w(2)] read_reply_sent [OF w(3)]
    by (simp add: script_def)
  ultimately have "\<exists>q. cn_sent c' = cn_sent c @ script ext mail_from to raw @ q" by simp
  moreover have "length rejected < length to \<and> (\<forall>(r, p) \<in> set rejected. r \<in> set to \<and> is_permanent p)"
    using rcpt_loop_ok [OF l] n w(7) by auto
  moreover have "rp_code final = 250 \<or> rp_code final = 251" using classify_ok [OF w(4)] by auto
  ultimately show ?thesis using small by (auto split: option.splits)
qed

section \<open>TLS\<close>

lemma finish_ok: "finish tls r = Inr d \<Longrightarrow> dl_tls d = tls"
  by (cases r) (auto simp: finish_def)

lemma fall_back_required: "cc_require_tls cfg \<Longrightarrow> fall_back cfg tp mail_from to raw t \<noteq> Inr d"
  by (simp add: fall_back_def)

lemma send_tls_ok: "send_tls cfg mail_from to raw c = Inr d \<Longrightarrow> dl_tls d"
  by (auto simp: send_tls_def finish_ok split: prod.splits sum.splits)

lemma tls_required:
  assumes r: "cc_require_tls cfg" and d: "deliver cfg tp host mail_from to raw = Inr d"
  shows "dl_tls d"
proof -
  obtain c0 where c0: "connect_new tp 0 = Inr c0" using d by (auto simp: deliver_def and_then_ok)
  obtain g c where g: "greet (cc_helo cfg) c0 = (g, c)" by fastforce
  obtain ext where ext: "g = Inr ext" "ex_starttls ext"
    using d c0 g r by (cases g) (auto simp: deliver_def split: if_splits)
  obtain x c1 where x: "cmd ''STARTTLS'' 220 c = (x, c1)" by fastforce
  show ?thesis
  proof (cases x)
    case (Inl e)
    then show ?thesis using d c0 g ext x fall_back_required [OF r]
      by (cases e) (simp_all add: deliver_def)
  next
    case (Inr y)
    then show ?thesis using d c0 g ext x fall_back_required [OF r] send_tls_ok
      by (cases "upgrade tp c1") (auto simp: deliver_def)
  qed
qed

section \<open>Reading what a server writes\<close>

lemma byte_text_bytes [simp]: "byte_text (text_bytes s) = s"
  by (simp add: byte_text_def text_bytes_def byte_char_def char_nat_def comp_def unat_of_nat)

lemma text_byte_text [simp]: "text_bytes (byte_text bs) = bs"
proof -
  have "unat b < 256" for b :: byte using unat_bound [of b] by simp
  then show ?thesis by (simp add: byte_text_def text_bytes_def byte_char_def comp_def)
qed

lemma text_bytes_append [simp]: "text_bytes (s @ t) = text_bytes s @ text_bytes t"
  "text_bytes (c # s) = word_of_nat (char_nat c) # text_bytes s" "text_bytes [] = []"
  by (simp_all add: text_bytes_def)

definition valid_text :: "string \<Rightarrow> bool" where
  "valid_text s \<longleftrightarrow> utf8_ok (text_bytes s)"

lemma cont_byte_char [simp]: "cont_char (byte_char b) = cont_byte b"
proof -
  have "unat b < 256" using unat_bound [of b] by simp
  then have "char_nat (byte_char b) = unat b" by (simp add: byte_char_def)
  then show ?thesis by (simp add: cont_char_def cont_byte_def word_le_nat_alt)
qed

lemma utf8_head: "utf8_ok (b # bs) \<Longrightarrow> \<not> cont_byte b"
proof
  assume u: "utf8_ok (b # bs)" and c: "cont_byte b"
  have "\<not> b < 0x80" "\<not> 0xC2 \<le> b" "\<not> 0xE0 \<le> b" "\<not> 0xF0 \<le> b"
    using c by (auto simp: cont_byte_def word_le_nat_alt word_less_nat_alt)
  then show False using u by (simp split: list.splits)
qed

lemma utf8_no_cont: "utf8_ok bs \<Longrightarrow> takeWhile cont_char (byte_text bs) = []"
    "utf8_ok bs \<Longrightarrow> dropWhile cont_char (byte_text bs) = byte_text bs"
  using utf8_head by (cases bs; auto simp: byte_text_def)+

lemma utf8_four:
  assumes "utf8_ok (a # s)" "\<not> a < 0x80" "\<not> (0xC2 \<le> a \<and> a \<le> 0xDF)" "\<not> (0xE0 \<le> a \<and> a \<le> 0xEF)"
  obtains b c d s4 where "s = b # c # d # s4" "0xF0 \<le> a" "cont_byte b" "cont_byte c" "cont_byte d" "utf8_ok s4"
    "\<forall>t. utf8_ok t \<longrightarrow> utf8_ok (a # b # c # d # t)"
proof -
  obtain b c d s4 where "s = b # c # d # s4" using assms by (auto split: list.splits)
  then show thesis using that [of b c d s4] assms by (simp only: utf8_ok.simps(2) list.case if_False simp_thms; blast)
qed

lemma utf8_three:
  assumes "utf8_ok (a # s)" "\<not> a < 0x80" "\<not> (0xC2 \<le> a \<and> a \<le> 0xDF)" "0xE0 \<le> a \<and> a \<le> 0xEF"
  obtains b c s3 where "s = b # c # s3" "cont_byte b" "cont_byte c" "utf8_ok s3"
    "\<forall>t. utf8_ok t \<longrightarrow> utf8_ok (a # b # c # t)"
proof -
  obtain b c s3 where "s = b # c # s3" using assms by (auto split: list.splits)
  then show thesis using that [of b c s3] assms by (simp only: utf8_ok.simps(2) list.case if_False if_True simp_thms; blast)
qed

lemma utf8_two:
  assumes "utf8_ok (a # s)" "\<not> a < 0x80" "0xC2 \<le> a \<and> a \<le> 0xDF"
  obtains b s2 where "s = b # s2" "cont_byte b" "utf8_ok s2" "\<forall>t. utf8_ok t \<longrightarrow> utf8_ok (a # b # t)"
proof -
  obtain b s2 where "s = b # s2" using assms by (auto split: list.splits)
  then show thesis using that [of b s2] assms by (simp only: utf8_ok.simps(2) list.case if_False if_True simp_thms; blast)
qed

lemma byte_text_Cons: "byte_text (b # bs) = byte_char b # byte_text bs"
  by (simp add: byte_text_def)

lemma sanitise_char:
  "takeWhile cont_char s = k \<Longrightarrow> sanitise_reply_text (c # s)
    = (if is_control (c # k) then '' '' else c # k) @ sanitise_reply_text (dropWhile cont_char s)"
  by (simp add: sanitise_reply_text_def str_chars.simps)

lemma char_nat_byte [simp]: "char_nat (byte_char b) = unat b"
  using unat_bound [of b] by (simp add: byte_char_def)

lemma text_byte_char [simp]: "word_of_nat (char_nat (byte_char b)) = b"
  by simp

lemma while_cont:
  assumes "utf8_ok t" "\<forall>b \<in> set k. cont_byte b"
  shows "takeWhile cont_char (byte_text (k @ t)) = byte_text k" "dropWhile cont_char (byte_text (k @ t)) = byte_text t"
  using assms(2) utf8_no_cont [OF assms(1)] by (induction k) (auto simp: byte_text_Cons, simp_all add: byte_text_def)

lemma sanitise_step:
  assumes "utf8_ok t" "\<forall>b \<in> set k. cont_byte b"
  shows "sanitise_reply_text (byte_text (a # k @ t))
    = (if is_control (byte_text (a # k)) then '' '' else byte_text (a # k)) @ sanitise_reply_text (byte_text t)"
  using while_cont [OF assms] sanitise_char by (simp add: byte_text_Cons)

text \<open>The text of a reply stays valid, and holds neither a line feed nor a carriage return.\<close>

definition one_line :: "string \<Rightarrow> bool" where
  "one_line s \<longleftrightarrow> valid_text s \<and> 0x0A \<notin> set (text_bytes s) \<and> 0x0D \<notin> set (text_bytes s)"

lemma one_line_step:
  assumes "utf8_ok t" "\<forall>b \<in> set k. cont_byte b" "one_line (sanitise_reply_text (byte_text t))"
    and "\<forall>u. utf8_ok u \<longrightarrow> utf8_ok (a # k @ u)" "a \<in> {0x0A, 0x0D} \<Longrightarrow> k = []"
  shows "one_line (sanitise_reply_text (byte_text (a # k @ t)))"
proof -
  have k: "0x0A \<notin> set k" "0x0D \<notin> set k" using assms(2) by (auto simp: cont_byte_def word_le_nat_alt)
  show ?thesis
  proof (cases "is_control (byte_text (a # k))")
    case True
    then show ?thesis using assms sanitise_step [OF assms(1,2)]
      by (simp add: one_line_def valid_text_def char_nat_def)
  next
    case False
    then have a: "a \<noteq> 0x0A" "a \<noteq> 0x0D"
      using assms(5) by (auto simp: is_control_def byte_text_def)
    then show ?thesis using assms sanitise_step [OF assms(1,2)] False k
      by (simp add: one_line_def valid_text_def byte_text_Cons)
  qed
qed

lemma sanitised_one_line: "utf8_ok bs \<Longrightarrow> one_line (sanitise_reply_text (byte_text bs))"
proof (induction bs rule: length_induct)
  case (1 bs)
  show ?case
  proof (cases bs)
    case Nil
    then show ?thesis
      by (simp add: byte_text_def sanitise_reply_text_def str_chars.simps one_line_def valid_text_def)
  next
    case (Cons a s)
    then have u: "utf8_ok (a # s)" using 1(2) by simp
    have ih: "one_line (sanitise_reply_text (byte_text t))" if "length t \<le> length s" "utf8_ok t" for t
      using 1(1) that Cons by simp
    consider "a < 0x80" | "\<not> a < 0x80" "0xC2 \<le> a \<and> a \<le> 0xDF"
      | "\<not> a < 0x80" "\<not> (0xC2 \<le> a \<and> a \<le> 0xDF)" "0xE0 \<le> a \<and> a \<le> 0xEF"
      | "\<not> a < 0x80" "\<not> (0xC2 \<le> a \<and> a \<le> 0xDF)" "\<not> (0xE0 \<le> a \<and> a \<le> 0xEF)" by blast
    moreover have a: "a \<notin> {0x0A, 0x0D}" if "\<not> a < 0x80" using that by auto
    ultimately show ?thesis
    proof cases
      case 1
      then show ?thesis using u one_line_step [of s "[]" a] ih [of s] Cons by simp
    next
      case 2
      from utf8_two [OF u 2] obtain b s2 where s: "s = b # s2" "cont_byte b" "utf8_ok s2"
        "\<forall>t. utf8_ok t \<longrightarrow> utf8_ok (a # b # t)" by metis
      then show ?thesis using one_line_step [of s2 "[b]" a] ih [of s2] Cons a [OF 2(1)]
        by (simp del: utf8_ok.simps(2))
    next
      case 3
      from utf8_three [OF u 3] obtain b c s3 where s: "s = b # c # s3" "cont_byte b" "cont_byte c" "utf8_ok s3"
        "\<forall>t. utf8_ok t \<longrightarrow> utf8_ok (a # b # c # t)" by metis
      then show ?thesis using one_line_step [of s3 "[b, c]" a] ih [of s3] Cons a [OF 3(1)]
        by (simp del: utf8_ok.simps(2))
    next
      case 4
      from utf8_four [OF u 4] obtain b c d s4 where s: "s = b # c # d # s4" "cont_byte b" "cont_byte c"
        "cont_byte d" "utf8_ok s4" "\<forall>t. utf8_ok t \<longrightarrow> utf8_ok (a # b # c # d # t)" by metis
      then show ?thesis using one_line_step [of s4 "[b, c, d]" a] ih [of s4] Cons a [OF 4(1)]
        by (simp del: utf8_ok.simps(2))
    qed
  qed
qed

lemma sanitise_one_line: "valid_text s \<Longrightarrow> one_line (sanitise_reply_text s)"
  using sanitised_one_line [of "text_bytes s"] by (simp add: valid_text_def)

lemma dec_string_three:
  assumes "100 \<le> n" "n < 1000"
  shows "length (dec_string n) = 3" "\<forall>c \<in> set (dec_string n). is_ascii_digit c"
proof -
  have "n div 10 div 10 < 10" "\<not> n < 10" "\<not> n div 10 < 10" using assms by auto
  then show "length (dec_string n) = 3" by (simp add: dec_string.simps)
qed (simp add: dec_string_digits)

lemma digit_ascii: "is_ascii_digit c \<Longrightarrow> char_nat c < 128 \<and> char_nat c \<noteq> 10 \<and> char_nat c \<noteq> 13"
  by (simp add: is_ascii_digit_def)

lemma ascii_prefix:
  "\<forall>c \<in> set s. char_nat c < 128 \<and> char_nat c \<noteq> 10 \<and> char_nat c \<noteq> 13 \<Longrightarrow> one_line t \<Longrightarrow> one_line (s @ t)"
proof (induction s)
  case (Cons c s)
  then have c: "char_nat c < 128" "char_nat c \<noteq> 10" "char_nat c \<noteq> 13" and i: "one_line (s @ t)" by auto
  have "(word_of_nat (char_nat c) :: byte) < 0x80" "(word_of_nat (char_nat c) :: byte) \<noteq> 0x0A"
    "(word_of_nat (char_nat c) :: byte) \<noteq> 0x0D"
    using c by (simp_all add: word_less_nat_alt unat_of_nat word_unat_eq_iff)
  then show ?case using i by (auto simp: one_line_def valid_text_def)
qed simp

lemma parse_reply_wire:
  assumes "100 \<le> n" "n < 1000" "sep = CHR '' '' \<or> sep = CHR ''-''"
  shows "parse_reply_line (dec_string n @ sep # t) = Some (word_of_nat n, sep = CHR '' '', t)"
proof -
  have l: "length (dec_string n) = 3" "\<forall>c \<in> set (dec_string n). is_ascii_digit c"
    using dec_string_three [OF assms(1,2)] by auto
  have "\<not> cont_char sep" using assms(3) by (auto simp: cont_char_def char_nat_def)
  then have "str_get_to 3 (dec_string n @ sep # t) = Some (dec_string n)"
    using l(1) by (simp add: str_get_to_def nth_append)
  moreover have "parse_dec 16 (dec_string n) = Some n" using assms(2) by (intro parse_dec_string) simp
  ultimately show ?thesis using l assms(3) by (auto simp: parse_reply_line_def)
qed

lemma read_one_line:
  assumes "one_line l" "cn_buf c = text_bytes l @ 0x0D # 0x0A # rest"
  shows "read_line c = (Inr l, c\<lparr>cn_buf := rest\<rparr>)"
proof -
  have "split_line (cn_buf c) = Some (text_bytes l, length (text_bytes l) + 2)"
    using assms split_line_crlf by (simp add: one_line_def)
  then show ?thesis using assms
    by (simp add: read_line_def fill_line.simps line_text_def one_line_def valid_text_def)
qed

lemma read_reply_line:
  assumes "100 \<le> n" "n < 1000" "valid_text l" "sep = CHR '' '' \<or> sep = CHR ''-''"
    and "cn_buf c = text_bytes (dec_string n @ sep # sanitise_reply_text l @ crlf) @ rest"
    and "code = 0 \<or> code = word_of_nat n" "length acc < 100"
  shows "read_reply_from acc code c =
    (if sep = CHR '' '' then (Inr \<lparr>rp_code = word_of_nat n, rp_lines = acc @ [sanitise_reply_text l]\<rparr>, c\<lparr>cn_buf := rest\<rparr>)
     else read_reply_from (acc @ [sanitise_reply_text l]) (word_of_nat n) (c\<lparr>cn_buf := rest\<rparr>))"
proof -
  let ?l = "dec_string n @ sep # sanitise_reply_text l"
  have "one_line ((dec_string n @ [sep]) @ sanitise_reply_text l)"
    using assms(3,4) dec_string_three(2) [OF assms(1,2)] digit_ascii
    by (intro ascii_prefix sanitise_one_line) (auto simp: char_nat_def)
  then have "read_line c = (Inr ?l, c\<lparr>cn_buf := rest\<rparr>)"
    using assms(5) by (intro read_one_line) (simp_all add: crlf_def char_nat_def)
  then show ?thesis using assms(4,6,7) parse_reply_wire [OF assms(1,2,4)]
    by (subst read_reply_from.simps) auto
qed

lemma read_reply_lines:
  assumes "100 \<le> n" "n < 1000" "\<forall>l \<in> set ls. valid_text l" "ls \<noteq> []"
    and "cn_buf c = text_bytes (wire_lines (dec_string n) ls) @ rest"
    and "code = 0 \<or> code = word_of_nat n" "length acc + length ls \<le> 100"
  shows "read_reply_from acc code c =
    (Inr \<lparr>rp_code = word_of_nat n, rp_lines = acc @ map sanitise_reply_text ls\<rparr>, c\<lparr>cn_buf := rest\<rparr>)"
  using assms(3-7)
proof (induction ls arbitrary: acc code c)
  case Nil
  then show ?case by simp
next
  case (Cons l ls)
  show ?case
  proof (cases ls)
    case Nil
    then show ?thesis using Cons.prems assms(1,2)
      by (subst read_reply_line [where l = l and n = n and sep = "CHR '' ''" and rest = rest]) auto
  next
    case more: (Cons m ms)
    let ?rest = "text_bytes (wire_lines (dec_string n) ls) @ rest"
    have "read_reply_from acc code c
        = read_reply_from (acc @ [sanitise_reply_text l]) (word_of_nat n) (c\<lparr>cn_buf := ?rest\<rparr>)"
      using Cons.prems assms(1,2) more
      by (subst read_reply_line [where l = l and n = n and sep = "CHR ''-''" and rest = ?rest]) auto
    also have "\<dots> = (Inr \<lparr>rp_code = word_of_nat n,
        rp_lines = (acc @ [sanitise_reply_text l]) @ map sanitise_reply_text ls\<rparr>, c\<lparr>cn_buf := ?rest\<rparr>\<lparr>cn_buf := rest\<rparr>)"
      using Cons.prems more by (intro Cons.IH) auto
    finally show ?thesis by simp
  qed
qed

lemma reply_read_back:
  assumes "100 \<le> unat (rp_code r)" "unat (rp_code r) < 1000" "\<forall>l \<in> set (rp_lines r). valid_text l"
    and "rp_lines r \<noteq> []" "length (rp_lines r) \<le> 100" "cn_buf c = text_bytes (to_wire r) @ rest"
  shows "read_reply c = (Inr (r\<lparr>rp_lines := map sanitise_reply_text (rp_lines r)\<rparr>), c\<lparr>cn_buf := rest\<rparr>)"
  using read_reply_lines [of "unat (rp_code r)" "rp_lines r" c rest 0 "[]"] assms
  by (simp add: read_reply_def to_wire_def)

section \<open>What a client writes, as the server reads it\<close>

text \<open>Addresses of printable characters, without an angle bracket or a route.\<close>

definition plain :: "string \<Rightarrow> bool" where
  "plain s \<longleftrightarrow> (\<forall>c \<in> set s. 32 < char_nat c \<and> char_nat c < 127)"

definition plain_address :: "string \<Rightarrow> bool" where
  "plain_address a \<longleftrightarrow> path_ok a \<and> plain a \<and> CHR ''>'' \<notin> set a \<and> CHR '':'' \<notin> set a"

lemma plain_simps [simp]: "plain []" "plain (c # s) \<longleftrightarrow> 32 < char_nat c \<and> char_nat c < 127 \<and> plain s"
    "plain (s @ t) \<longleftrightarrow> plain s \<and> plain t"
  by (auto simp: plain_def)

lemma plain_solid: "plain s \<Longrightarrow> c \<in> set s \<Longrightarrow> solid c"
  by (rule solid_ascii) (auto simp: plain_def)

lemma plain_dec [simp]: "plain (dec_string n)"
  using dec_string_digits by (fastforce simp: plain_def is_ascii_digit_def)

lemma ascii_chars: "\<forall>c \<in> set s. char_nat c < 128 \<Longrightarrow> str_chars s = map (\<lambda>c. [c]) s"
proof (induction s)
  case (Cons c s)
  then have "takeWhile cont_char s = []" "dropWhile cont_char s = s"
    by (cases s; auto simp: cont_char_def)+
  then show ?case using Cons by (simp add: str_chars.simps)
qed (simp add: str_chars.simps)

lemma plain_chars: "plain s \<Longrightarrow> \<not> list_ex (\<lambda>c. is_control c \<or> c = '' '') (str_chars s)"
  by (subst ascii_chars) (auto simp: plain_def list_ex_iff is_control_def char_nat_def)

lemma split_white_nil: "split_white acc [] = (if acc = [] then [] else [rev acc])"
proof -
  have "strip_any white_space [] = None" by (simp add: strip_any_None starts_with_def)
  then show ?thesis by (subst split_white.simps) simp
qed

lemma strip_any_solid: "solid c \<Longrightarrow> strip_any white_space (c # s) = None"
proof -
  assume c: "solid c"
  have "\<not> starts_with p (c # s)" if p: "p \<in> set white_space" for p
    using c p white_space_nonempty [OF p] by (cases p) (auto simp: solid_def starts_with_def)
  then show ?thesis by (simp add: strip_any_None)
qed

lemma split_white_word:
  "\<forall>c \<in> set w. solid c \<Longrightarrow> split_white acc (w @ s) = split_white (rev w @ acc) s"
proof (induction w arbitrary: acc)
  case (Cons c w)
  then show ?case by (subst split_white.simps) (simp add: strip_any_solid)
qed simp

lemma split_white_space:
  "split_white acc (CHR '' '' # s) = (if acc = [] then split_white [] s else rev acc # split_white [] s)"
proof -
  have "strip_any white_space (CHR '' '' # s) = Some s"
    by (simp add: strip_any_def white_space_def char_nat_def)
  then show ?thesis by (subst split_white.simps) simp
qed

lemma length_dec_string_wire: "n < 10 ^ k \<Longrightarrow> 0 < k \<Longrightarrow> length (dec_string n) \<le> k"
proof (induction k arbitrary: n)
  case (Suc k)
  show ?case
  proof (cases "n < 10")
    case True
    then show ?thesis by (simp add: dec_string.simps)
  next
    case False
    then have "k \<noteq> 0" using Suc.prems by (cases k) auto
    then have "length (dec_string (n div 10)) \<le> k" using Suc by (intro Suc.IH) (auto simp: less_mult_imp_div_less)
    then show ?thesis using False by (subst dec_string.simps) simp
  qed
qed simp

lemma trim_end_solid: "s \<noteq> [] \<Longrightarrow> solid (last s) \<Longrightarrow> trim_end s = s"
  using solid_last by (metis append_butlast_last_id)

lemma trim_ends: "s \<noteq> [] \<Longrightarrow> solid (hd s) \<Longrightarrow> solid (last s) \<Longrightarrow> trim s = s"
  by (cases s) (simp_all add: trim_def solid_head trim_end_solid)

lemma ascii_utf8: "\<forall>c \<in> set s. char_nat c < 128 \<Longrightarrow> utf8_ok (text_bytes s)"
  by (induction s) (auto simp: text_bytes_def word_less_nat_alt unat_of_nat)

text \<open>A command line whose verb and argument are as the client wrote them.\<close>

lemma sm_command_line:
  assumes "plain verb" "verb \<noteq> []" "\<forall>c \<in> set arg. 31 < char_nat c \<and> char_nat c < 127"
    and "arg \<noteq> []" "solid (hd arg)" "solid (last arg)" "length verb + length arg < 1000"
  shows "sm_command (text_bytes (verb @ CHR '' '' # arg)) s =
    (case sm_verb (ascii_uppercase verb) arg s of (a, s) \<Rightarrow> (a, if recovered a then s\<lparr>sm_errors := 0\<rparr> else s))"
proof -
  let ?l = "verb @ CHR '' '' # arg"
  have "\<forall>c \<in> set ?l. char_nat c < 128" using assms(1,3) by (auto simp: plain_def char_nat_def)
  then have u: "utf8_ok (text_bytes ?l)" by (rule ascii_utf8)
  have "solid (last ?l)" using assms(4,6) by simp
  then have t: "trim_end ?l = ?l" by (intro trim_end_solid) simp
  have "CHR '' '' \<notin> set verb" using assms(1) by (auto simp: plain_def char_nat_def)
  then have sp: "split_once (CHR '' '') ?l = Some (verb, arg)" by (simp add: split_once_Some)
  have "length (text_bytes ?l) \<le> MAX_COMMAND_LINE"
    using assms(7) by (simp add: text_bytes_def MAX_COMMAND_LINE_def)
  then show ?thesis using u t sp trim_ends [OF assms(4-6)] unfolding sm_command_def
    by (simp del: text_bytes_append split: prod.split)
qed

lemma parse_path_plain:
  assumes "kw \<noteq> []" "plain kw" "plain a" "CHR ''>'' \<notin> set a" "CHR '':'' \<notin> set a"
  shows "parse_path_arg (kw @ CHR ''<'' # a @ CHR ''>'' # params) kw = Some (a, split_whitespace params)"
proof -
  have "\<not> cont_char (CHR ''<'')" by (simp add: cont_char_def char_nat_def)
  then have "str_get_to (length kw) (kw @ CHR ''<'' # a @ CHR ''>'' # params) = Some kw"
    by (simp add: str_get_to_def nth_append)
  moreover have "trim_start (CHR ''<'' # a @ CHR ''>'' # params) = CHR ''<'' # a @ CHR ''>'' # params"
    by (intro solid_head solid_ascii) (simp_all add: char_nat_def)
  moreover have "split_once (CHR ''>'') (a @ CHR ''>'' # params) = Some (a, params)"
    using assms(4) by (simp add: split_once_Some)
  moreover have "rsplit_once (CHR '':'') a = None" using assms(5) by (simp add: rsplit_once_None)
  ultimately show ?thesis using plain_chars [OF assms(3)]
    by (simp add: parse_path_arg_def eq_ignore_ascii_case_def strip_prefix_def starts_with_def Let_def)
qed

definition param_text :: "extensions \<Rightarrow> nat \<Rightarrow> string" where
  "param_text ext n = (if ex_size_supported ext then '' SIZE='' @ dec_string n else [])
     @ (if ex_8bitmime ext then '' BODY=8BITMIME'' else [])"

lemma param_text_words:
  "split_whitespace (param_text ext n) =
    (if ex_size_supported ext then [''SIZE='' @ dec_string n] else [])
    @ (if ex_8bitmime ext then [''BODY=8BITMIME''] else [])"
proof -
  have d: "\<forall>c \<in> set (''SIZE='' @ dec_string n). solid c"
    using plain_solid [of "''SIZE='' @ dec_string n"] by (simp add: char_nat_def)
  have b: "\<forall>c \<in> set ''BODY=8BITMIME''. solid c"
    using plain_solid [of "''BODY=8BITMIME''"] by (simp add: char_nat_def)
  have bd: "split_white [] ''BODY=8BITMIME'' = [''BODY=8BITMIME'']"
    using split_white_word [OF b, of "[]" "[]"] by (simp add: split_white_nil)
  have sz: "split_white [] (''SIZE='' @ dec_string n @ t) = split_white (rev (''SIZE='' @ dec_string n)) t" for t
    using split_white_word [OF d, of "[]" t] by simp
  show ?thesis
    using sz [of "[]"] sz [of "'' BODY=8BITMIME''"] bd
    by (simp add: param_text_def split_whitespace_def split_white_space split_white_nil)
qed

lemma mail_params_ok:
  assumes "n \<le> unat (lm_max_message_bytes lim)"
  shows "mail_params lim (split_whitespace (param_text ext n)) = None"
proof -
  have n: "n < 2 ^ 64" using assms unat_bound [of "lm_max_message_bytes lim"] by simp
  have "split_once (CHR ''='') (''SIZE='' @ dec_string n) = Some (''SIZE'', dec_string n)"
    by (simp add: split_once_Some)
  moreover have "split_once (CHR ''='') ''BODY=8BITMIME'' = Some (''BODY'', ''8BITMIME'')"
    by (simp add: split_once_Some)
  moreover have "ascii_uppercase ''SIZE'' = ''SIZE''" "ascii_uppercase ''BODY'' = ''BODY''" by code_simp+
  moreover have "\<not> (word_of_nat n :: u64) > lm_max_message_bytes lim"
    using assms n by (simp add: word_less_nat_alt unat_of_nat not_less)
  ultimately show ?thesis using parse_dec_string [OF n]
    by (simp add: param_text_words eq_ignore_ascii_case_def)
qed

lemma mail_line_split: "mail_line ext from' raw =
    ''MAIL'' @ CHR '' '' # ''FROM:'' @ CHR ''<'' # from' @ CHR ''>'' # param_text ext (length raw)"
  by (simp add: mail_line_def param_text_def)

definition sender_ok :: "string \<Rightarrow> bool" where
  "sender_ok a \<longleftrightarrow> a = [] \<or> plain_address a"

lemma last_param: "last (a @ CHR ''>'' # param_text ext n) \<in> {CHR ''>'', CHR ''E''} \<union> set (dec_string n)"
  by (auto simp: param_text_def dec_string_nonempty)

lemma plain_param: "c \<in> set (param_text ext n) \<Longrightarrow> 31 < char_nat c \<and> char_nat c < 127"
proof -
  have "31 < char_nat c \<and> char_nat c < 127" if "c \<in> set (dec_string n)"
    using plain_dec [of n] that by (fastforce simp: plain_def)
  moreover assume "c \<in> set (param_text ext n)"
  ultimately show ?thesis by (auto simp: param_text_def char_nat_def split: if_splits)
qed

lemma server_mail:
  assumes "sender_ok a" "length raw \<le> unat (lm_max_message_bytes (sm_limits s))" "sm_phase s = PReady"
  shows "sm_command (text_bytes (mail_line ext a raw)) s =
    (AReply (reply_new 250 ''2.1.0 OK''), s\<lparr>sm_phase := PMail,
       sm_envelope := (sm_envelope s)\<lparr>se_mail_from := a, se_rcpt_to := []\<rparr>, sm_errors := 0\<rparr>)"
proof -
  let ?p = "param_text ext (length raw)"
  let ?arg = "''FROM:'' @ CHR ''<'' # a @ CHR ''>'' # ?p"
  have a: "plain a" "CHR ''>'' \<notin> set a" "CHR '':'' \<notin> set a" "length a \<le> 254" "a = [] \<or> CHR ''@'' \<in> set a"
    using assms(1) by (auto simp: sender_ok_def plain_address_def path_ok_def)
  have "length raw < 2 ^ 64" using assms(2) unat_bound [of "lm_max_message_bytes (sm_limits s)"] by simp
  then have "length (dec_string (length raw)) \<le> 20" by (intro length_dec_string_wire) simp_all
  then have len: "length ''MAIL'' + length ?arg < 1000" using a(4) by (simp add: param_text_def)
  have ch: "\<forall>c \<in> set ?arg. 31 < char_nat c \<and> char_nat c < 127"
    using a(1) plain_param by (fastforce simp: plain_def char_nat_def)
  have "last ?arg \<in> {CHR ''>'', CHR ''E''} \<union> set (dec_string (length raw))"
    using last_param [of a ext "length raw"] by simp
  moreover have "solid (CHR ''>'')" "solid (CHR ''E'')" by (simp_all add: solid_ascii char_nat_def)
  ultimately have l: "solid (last ?arg)" using plain_solid [OF plain_dec] by (elim UnE insertE) auto
  have h: "solid (hd ?arg)" by (intro solid_ascii) (simp_all add: char_nat_def)
  have up: "ascii_uppercase ''MAIL'' = ''MAIL''" by code_simp
  have p: "parse_path_arg ?arg ''FROM:'' = Some (a, split_whitespace ?p)"
    by (rule parse_path_plain) (use a in \<open>simp_all add: char_nat_def\<close>)
  have "sm_mail ?arg s = (AReply (reply_new 250 ''2.1.0 OK''), s\<lparr>sm_phase := PMail,
       sm_envelope := (sm_envelope s)\<lparr>se_mail_from := a, se_rcpt_to := []\<rparr>\<rparr>)"
    using a p assms(3) mail_params_ok [OF assms(2)] by (auto simp: sm_mail_def)
  then show ?thesis unfolding mail_line_split
    by (subst sm_command_line [OF _ _ ch _ h l len]) (simp_all add: up sm_verb_def recovered_def reply_new_def char_nat_def)
qed

lemma server_rcpt:
  assumes "plain_address a" "sm_phase s \<in> {PMail, PRcpt}" "length (rcpts s) < lm_max_recipients (sm_limits s)"
  shows "sm_command (text_bytes (rcpt_line a)) s = (ACheckRecipient a, s\<lparr>sm_errors := 0\<rparr>)"
proof -
  let ?arg = "''TO:'' @ CHR ''<'' # a @ CHR ''>'' # []"
  have a: "plain a" "CHR ''>'' \<notin> set a" "CHR '':'' \<notin> set a" "path_ok a"
    using assms(1) by (auto simp: plain_address_def)
  have len: "length ''RCPT'' + length ?arg < 1000" using a(4) by (simp add: path_ok_def)
  have ch: "\<forall>c \<in> set ?arg. 31 < char_nat c \<and> char_nat c < 127"
    using a(1) by (fastforce simp: plain_def char_nat_def)
  have l: "solid (last ?arg)" by (auto intro!: solid_ascii simp: char_nat_def)
  have h: "solid (hd ?arg)" by (intro solid_ascii) (simp_all add: char_nat_def)
  have up: "ascii_uppercase ''RCPT'' = ''RCPT''" by code_simp
  have p: "parse_path_arg ?arg ''TO:'' = Some (a, split_whitespace [])"
    by (rule parse_path_plain) (use a in \<open>simp_all add: char_nat_def\<close>)
  have "sm_rcpt ?arg s = (ACheckRecipient a, s)"
    using a(4) p assms(2,3) by (auto simp: sm_rcpt_def path_ok_def split_whitespace_def split_white_nil)
  moreover have "rcpt_line a = ''RCPT'' @ CHR '' '' # ?arg" by (simp add: rcpt_line_def)
  ultimately show ?thesis
    by (simp only: ) (subst sm_command_line [OF _ _ ch _ h l len], simp_all add: up sm_verb_def recovered_def char_nat_def)
qed

lemma server_data:
  assumes "sm_phase s = PRcpt"
  shows "sm_command (text_bytes ''DATA'') s = (AReply (reply_new 354 ''End data with <CR><LF>.<CR><LF>''),
    s\<lparr>sm_phase := PData, sm_data := [], sm_oversize := False, sm_errors := 0\<rparr>)"
proof -
  have u: "utf8_ok (text_bytes ''DATA'')" by (intro ascii_utf8) (simp add: char_nat_def)
  have t: "trim_end ''DATA'' = ''DATA''" by (rule trim_end_solid) (auto intro!: solid_ascii simp: char_nat_def)
  have up: "ascii_uppercase ''DATA'' = ''DATA''" by code_simp
  have "split_once (CHR '' '') ''DATA'' = None" by (simp add: split_once_None)
  then show ?thesis using u t up assms unfolding sm_command_def
    by (simp add: MAX_COMMAND_LINE_def sm_verb_def sm_data_cmd_def recovered_def reply_new_def del: text_bytes_append)
      (simp add: text_bytes_def)
qed

lemma serve_command_line:
  assumes "0x0A \<notin> set (text_bytes l)" "\<not> in_data s"
  shows "serve_buffered ih (wire_line l @ rest) s h =
    (case serve_line ih (text_bytes l) s h of (out, closed, s, h) \<Rightarrow>
       if closed then (out, True, rest, s, h)
       else (case serve_buffered ih rest s h of (out', c, b, s, h) \<Rightarrow> (out @ out', c, b, s, h)))"
proof -
  have "split_line (wire_line l @ rest) = Some (text_bytes l, length (text_bytes l) + 2)"
    using split_line_crlf [OF assms(1)] by (simp add: wire_line_def)
  moreover have "drop (length (text_bytes l) + 2) (wire_line l @ rest) = rest" by (simp add: wire_line_def)
  ultimately show ?thesis by (subst serve_buffered.simps) (simp split: prod.split)
qed

lemma ascii_no_lf: "\<forall>c \<in> set s. 31 < char_nat c \<and> char_nat c < 127 \<Longrightarrow> 0x0A \<notin> set (text_bytes s)"
  by (auto simp: text_bytes_def word_unat_eq_iff unat_of_nat)

lemma errors_zero [simp]: "sm_errors s = 0 \<Longrightarrow> s\<lparr>sm_errors := 0\<rparr> = s"
  by (cases s) simp

lemma serve_rcpts:
  assumes "\<forall>r \<in> set to. plain_address r" "\<forall>h e. \<forall>r \<in> set to. ih_check ih h r e = (SvAccept, h)"
    and "sm_phase s \<in> {PMail, PRcpt}" "sm_errors s = 0"
    and "length (rcpts s) + length to \<le> lm_max_recipients (sm_limits s)" "to \<noteq> []"
  shows "serve_buffered ih (concat (map (wire_line \<circ> rcpt_line) to) @ rest) s h =
    (case serve_buffered ih rest (s\<lparr>sm_phase := PRcpt,
         sm_envelope := (sm_envelope s)\<lparr>se_rcpt_to := rcpts s @ to\<rparr>\<rparr>) h of
       (out, c, b, s, h) \<Rightarrow> (map (\<lambda>_. reply_new 250 ''2.1.5 OK'') to @ out, c, b, s, h))"
  using assms
proof (induction to arbitrary: s)
  case Nil
  then show ?case by simp
next
  case (Cons r to)
  let ?s = "s\<lparr>sm_phase := PRcpt, sm_envelope := (sm_envelope s)\<lparr>se_rcpt_to := rcpts s @ [r]\<rparr>\<rparr>"
  have r: "plain_address r" using Cons.prems(1) by simp
  then have "\<forall>c \<in> set (rcpt_line r). 31 < char_nat c \<and> char_nat c < 127"
    by (fastforce simp: rcpt_line_def plain_address_def plain_def char_nat_def)
  then have lf: "0x0A \<notin> set (text_bytes (rcpt_line r))" by (rule ascii_no_lf)
  have nd: "\<not> in_data s" using Cons.prems(3) by (auto simp: in_data_def)
  have "sm_command (text_bytes (rcpt_line r)) s = (ACheckRecipient r, s)"
    using server_rcpt [OF r, of s] Cons.prems(3,4,5) by simp
  then have "serve_line ih (text_bytes (rcpt_line r)) s h = ([reply_new 250 ''2.1.5 OK''], False, ?s, h)"
    using Cons.prems(2) nd by (simp add: serve_line_def recipient_verdict_def)
  then have e: "serve_buffered ih (concat (map (wire_line \<circ> rcpt_line) (r # to)) @ rest) s h =
    (case serve_buffered ih (concat (map (wire_line \<circ> rcpt_line) to) @ rest) ?s h of
      (out', c, b, s, h) \<Rightarrow> (reply_new 250 ''2.1.5 OK'' # out', c, b, s, h))"
    by (simp add: serve_command_line [OF lf nd] split: prod.split)
  show ?case
  proof (cases "to = []")
    case True
    then show ?thesis using e by (simp split: prod.split)
  next
    case False
    have "serve_buffered ih (concat (map (wire_line \<circ> rcpt_line) to) @ rest) ?s h =
      (case serve_buffered ih rest (?s\<lparr>sm_phase := PRcpt,
         sm_envelope := (sm_envelope ?s)\<lparr>se_rcpt_to := rcpts ?s @ to\<rparr>\<rparr>) h of
       (out, c, b, s, h) \<Rightarrow> (map (\<lambda>_. reply_new 250 ''2.1.5 OK'') to @ out, c, b, s, h))"
      using Cons.prems False by (intro Cons.IH) simp_all
    then show ?thesis using e by (simp add: comp_def split: prod.splits)
  qed
qed

lemma serve_script:
  assumes "\<forall>l \<in> set ls. 0x0A \<notin> set l" "length (crlf_lines ls) \<le> unat (lm_max_message_bytes (sm_limits s))"
    and "sender_ok mail_from" "\<forall>r \<in> set to. plain_address r" "to \<noteq> []"
    and "length to \<le> lm_max_recipients (sm_limits s)" "sm_phase s = PReady"
    and "\<forall>h e. \<forall>r \<in> set to. ih_check ih h r e = (SvAccept, h)"
    and "ih_accept ih h ((sm_envelope s)\<lparr>se_mail_from := mail_from, se_rcpt_to := to\<rparr>) (crlf_lines ls) = (v, h')"
  shows "serve_buffered ih (concat (script ext mail_from to (crlf_lines ls))) s h =
    (reply_new 250 ''2.1.0 OK'' # map (\<lambda>_. reply_new 250 ''2.1.5 OK'') to
       @ [reply_new 354 ''End data with <CR><LF>.<CR><LF>'', fst (message_verdict v s)],
     False, [], (reset_transaction s)\<lparr>sm_errors := 0\<rparr>, h')"
proof -
  let ?raw = "crlf_lines ls"
  let ?s1 = "s\<lparr>sm_phase := PMail, sm_envelope := (sm_envelope s)\<lparr>se_mail_from := mail_from, se_rcpt_to := []\<rparr>,
    sm_errors := 0\<rparr>"
  let ?s2 = "?s1\<lparr>sm_phase := PRcpt, sm_envelope := (sm_envelope ?s1)\<lparr>se_rcpt_to := rcpts ?s1 @ to\<rparr>\<rparr>"
  let ?s3 = "?s2\<lparr>sm_phase := PData, sm_data := [], sm_oversize := False, sm_errors := 0\<rparr>"
  let ?rs = "concat (map (wire_line \<circ> rcpt_line) to)"
  have nd: "\<not> in_data s" "\<not> in_data ?s2" using assms(7) by (auto simp: in_data_def)
  have "\<forall>c \<in> set (mail_line ext mail_from ?raw). 31 < char_nat c \<and> char_nat c < 127"
    using assms(3) plain_param unfolding mail_line_split
    by (fastforce simp: sender_ok_def plain_address_def plain_def char_nat_def)
  then have lf: "0x0A \<notin> set (text_bytes (mail_line ext mail_from ?raw))" by (rule ascii_no_lf)
  have lf2: "0x0A \<notin> set (text_bytes ''DATA'')" by (rule ascii_no_lf) (simp add: char_nat_def)
  have m: "serve_line ih (text_bytes (mail_line ext mail_from ?raw)) s h = ([reply_new 250 ''2.1.0 OK''], False, ?s1, h)"
    using server_mail [OF assms(3,2,7)] nd by (simp add: serve_line_def)
  have d: "serve_line ih (text_bytes ''DATA'') ?s2 h = ([reply_new 354 ''End data with <CR><LF>.<CR><LF>''], False, ?s3, h)"
    using server_data [of ?s2] nd by (simp add: serve_line_def)
  have b: "serve_buffered ih (dot_stuff ?raw @ []) ?s3 h =
    (case serve_buffered ih [] (reset_transaction ?s3) h' of (out, c, r, s2, h2) \<Rightarrow>
       (fst (message_verdict v ?s3) # out, c, r, s2, h2))"
    using assms(1,2,9) by (intro dot_stuffing_is_transparent) simp_all
  have e: "serve_buffered ih [] t g = ([], False, [], t, g)" for t and g
    by (simp add: serve_buffered.simps split_line_def)
  have r: "reset_transaction ?s3 = (reset_transaction s)\<lparr>sm_errors := 0\<rparr>"
    using assms(7) by (simp add: reset_transaction_def)
  have "serve_buffered ih (wire_line ''DATA'' @ dot_stuff ?raw) ?s2 h =
    ([reply_new 354 ''End data with <CR><LF>.<CR><LF>'', fst (message_verdict v s)], False, [],
      (reset_transaction s)\<lparr>sm_errors := 0\<rparr>, h')"
    using b d e r serve_command_line [OF lf2 nd(2), of ih "dot_stuff ?raw" h]
    by (simp add: message_verdict_def)
  moreover have "serve_buffered ih (?rs @ wire_line ''DATA'' @ dot_stuff ?raw) ?s1 h =
    (case serve_buffered ih (wire_line ''DATA'' @ dot_stuff ?raw) ?s2 h of
       (out, c, b, s, h) \<Rightarrow> (map (\<lambda>_. reply_new 250 ''2.1.5 OK'') to @ out, c, b, s, h))"
    using assms(4,5,6,8) by (intro serve_rcpts) simp_all
  ultimately show ?thesis
    using m serve_command_line [OF lf nd(1), of ih "?rs @ wire_line ''DATA'' @ dot_stuff ?raw" h]
    by (simp add: script_def)
qed

section \<open>Properties\<close>

text \<open>A server whose replies are at hand, for concrete runs.\<close>

definition ok_reply :: "u16 \<Rightarrow> reply" where
  "ok_reply n = reply_new n ''ok''"

definition ok_wire :: "u16 \<Rightarrow> bytes" where
  "ok_wire n = text_bytes (to_wire (ok_reply n))"

abbreviation conn_at :: "read_event list \<Rightarrow> bytes \<Rightarrow> bytes list \<Rightarrow> conn" where
  "conn_at rs buf sent \<equiv> \<lparr>cn_reads = rs, cn_writes = [], cn_buf = buf, cn_sent = sent\<rparr>"

lemma sanitise_ok: "sanitise_reply_text ''ok'' = ''ok''" "valid_text ''ok''"
  by code_simp+

lemma classify_ok_reply: "classify_reply e (ok_reply e) = Inr (ok_reply e)"
  by (simp add: classify_reply_def ok_reply_def reply_new_def)

lemma cmd_at:
  "cmd l e (conn_at rs buf sent) = (case read_reply (conn_at rs buf (sent @ [wire_line l])) of
     (Inl x, c) \<Rightarrow> (Inl x, c) | (Inr r, c) \<Rightarrow> (classify_reply e r, c))"
  by (simp add: cmd_def io_bind_def conn_send_def send_raw_def wire_line_def io_lift_def split: prod.split sum.split)

lemma read_ok:
  assumes "100 \<le> unat n" "unat n < 1000"
  shows "read_reply (conn_at rs (ok_wire n @ rest) sent) = (Inr (ok_reply n), conn_at rs rest sent)"
  using reply_read_back [of "ok_reply n" "conn_at rs (ok_wire n @ rest) sent" rest] assms
  by (simp add: ok_reply_def reply_new_def ok_wire_def sanitise_ok)

lemmas read_ok_end = read_ok [where rest = "[]", simplified]

lemma read_refill:
  "bs \<noteq> [] \<Longrightarrow> read_reply (conn_at (RdBytes bs # rs) [] sent) = read_reply (conn_at rs bs sent)"
proof -
  assume "bs \<noteq> []"
  then have "read_line (conn_at (RdBytes bs # rs) [] sent) = read_line (conn_at rs bs sent)"
    by (simp add: read_line_def fill_line.simps [of "RdBytes bs # rs"] split_line_def split: prod.split)
  then show ?thesis
    unfolding read_reply_def
    by (subst read_reply_from.simps, subst (2) read_reply_from.simps) simp
qed

lemmas run_simps = cmd_at read_ok read_ok_end read_refill classify_ok_reply io_bind_def io_lift_def io_return_def

lemma transaction_runs:
  assumes "ex_size ext = None"
  shows "fst (transaction ext mail_from [r] raw
    (conn_at rs (ok_wire 250 @ ok_wire 250 @ ok_wire 354 @ ok_wire 250) sent)) = Inr (ok_reply 250, [])"
  using assms
  by (simp add: transaction_def run_simps hand_over_def send_raw_def quit_quietly_def)

definition wit_conn :: conn where
  "wit_conn = conn_at [] (ok_wire 250 @ ok_wire 250 @ ok_wire 354 @ ok_wire 250) []"

definition wit_ready :: smtp_session where
  "wit_ready = (session_new ''mx'' wit_limits ''1.2.3.4:5'')\<lparr>sm_phase := PReady\<rparr>"

lemma wit_transaction:
  "fst (transaction extensions_default [] [''a@b''] (crlf_lines [[0x2E]]) wit_conn) = Inr (ok_reply 250, [])"
  unfolding wit_conn_def by (rule transaction_runs) (simp add: extensions_default_def)



text \<open>
  A delivery is reported only after the server took the message, from at least one recipient;
  each recipient reported as refused was refused for good; and a size the server announced is kept.
\<close>

theorem deliveries_are_reported_honestly:
  assumes "transaction ext mail_from to raw c = (Inr (final, rejected), c')"
  shows "(rp_code final = 250 \<or> rp_code final = 251) \<and> length rejected < length to
    \<and> (\<forall>(r, p) \<in> set rejected. r \<in> set to \<and> is_permanent p)
    \<and> (case ex_size ext of Some limit \<Rightarrow> length raw \<le> unat limit | None \<Rightarrow> True)"
  using transaction_ok [OF assms] by blast

theorem deliveries_are_reported_honestly_witness:
  "rp_code (ok_reply 250) = 250 \<or> rp_code (ok_reply 250) = 251"
  using deliveries_are_reported_honestly wit_transaction by (metis prod.collapse)

text \<open>
  The client reads back the replies a server writes, whatever texts an application put in them:
  no text can forge another reply. The lines arrive with control characters replaced by spaces.
\<close>

theorem replies_cannot_be_forged:
  assumes "100 \<le> unat (rp_code r)" "unat (rp_code r) < 1000" "\<forall>l \<in> set (rp_lines r). valid_text l"
    and "rp_lines r \<noteq> []" "length (rp_lines r) \<le> 100" "cn_buf c = text_bytes (to_wire r) @ rest"
  shows "read_reply c = (Inr (r\<lparr>rp_lines := map sanitise_reply_text (rp_lines r)\<rparr>), c\<lparr>cn_buf := rest\<rparr>)"
  using assms by (rule reply_read_back)

theorem replies_cannot_be_forged_witness:
  "let r = reply_multi 250 [''a'', ''b'' @ crlf @ ''550 c''] in
   fst (read_reply ((conn_new [] [])\<lparr>cn_buf := text_bytes (to_wire r) @ [0x32]\<rparr>)) =
     Inr (r\<lparr>rp_lines := map sanitise_reply_text (rp_lines r)\<rparr>)"
proof -
  let ?r = "reply_multi 250 [''a'', ''b'' @ crlf @ ''550 c'']"
  have "\<forall>l \<in> set (rp_lines ?r). valid_text l" by code_simp
  then show ?thesis
    using replies_cannot_be_forged [of ?r "(conn_new [] [])\<lparr>cn_buf := text_bytes (to_wire ?r) @ [0x32]\<rparr>" "[0x32]"]
    by (simp add: reply_multi_def Let_def del: text_bytes_append)
qed

text \<open>
  C24. Where TLS is required, a message is delivered under TLS or not at all, whatever the server
  offers, refuses or breaks off.
\<close>

theorem required_tls_is_used:
  assumes "cc_require_tls cfg" "deliver cfg tp host mail_from to raw = Inr d"
  shows "dl_tls d"
  using assms by (rule tls_required)

definition wit_starttls :: reply where
  "wit_starttls = reply_multi 250 [''ok'', ''STARTTLS'']"

definition wit_transport :: transport where
  "wit_transport = \<lparr>tp_connect = (\<lambda>n. Inr ([RdBytes (ok_wire 220 @ text_bytes (to_wire wit_starttls) @ ok_wire 220)], [])),
     tp_upgrade = (\<lambda>_. Inr ([RdBytes (ok_wire 250 @ ok_wire 250 @ ok_wire 250 @ ok_wire 354 @ ok_wire 250)], []))\<rparr>"

lemma wit_deliver:
  "deliver \<lparr>cc_helo = ''c'', cc_require_tls = True\<rparr> wit_transport ''mx'' [] [''a@b''] [0x41]
    = Inr \<lparr>dl_reply = ok_reply 250, dl_tls = True, dl_rejected = []\<rparr>"
proof -
  have ne: "ok_wire n \<noteq> []" for n
    by (simp add: ok_wire_def to_wire_def ok_reply_def reply_new_def crlf_def)
  have v: "\<forall>l \<in> set (rp_lines wit_starttls). valid_text l" "map sanitise_reply_text (rp_lines wit_starttls) = rp_lines wit_starttls"
    "ex_starttls (parse_extensions wit_starttls)" "ex_size (parse_extensions (ok_reply 250)) = None"
    by code_simp+
  have rr: "read_reply (conn_at rs (text_bytes (to_wire wit_starttls) @ rest) sent) = (Inr wit_starttls, conn_at rs rest sent)"
    for rs rest sent
    using reply_read_back [of wit_starttls "conn_at rs (text_bytes (to_wire wit_starttls) @ rest) sent" rest] v(1,2)
    by (simp add: wit_starttls_def reply_multi_def)
  have cl: "classify_reply 250 wit_starttls = Inr wit_starttls"
    by (simp add: classify_reply_def wit_starttls_def reply_multi_def)
  have g: "fst (greet ''c'' (conn_at [RdBytes (ok_wire 220 @ text_bytes (to_wire wit_starttls) @ ok_wire 220)] [] []))
      = Inr (parse_extensions wit_starttls)"
    "snd (greet ''c'' (conn_at [RdBytes (ok_wire 220 @ text_bytes (to_wire wit_starttls) @ ok_wire 220)] [] []))
      = conn_at [] (ok_wire 220) [wire_line ''EHLO c'']"
    using ne by (simp_all add: greet_def run_simps rr cl)
  let ?bs = "ok_wire 250 @ ok_wire 250 @ ok_wire 250 @ ok_wire 354 @ ok_wire 250"
  have "send_tls \<lparr>cc_helo = ''c'', cc_require_tls = True\<rparr> [] [''a@b''] [0x41] (conn_at [RdBytes ?bs] [] [])
      = finish True (fst (transaction (parse_extensions (ok_reply 250)) [] [''a@b''] [0x41]
          (conn_at [] (ok_wire 250 @ ok_wire 250 @ ok_wire 354 @ ok_wire 250) [wire_line ''EHLO c''])))"
    using ne by (simp add: send_tls_def greet_after_tls_def run_simps)
  then have "send_tls \<lparr>cc_helo = ''c'', cc_require_tls = True\<rparr> [] [''a@b''] [0x41] (conn_at [RdBytes ?bs] [] [])
      = Inr \<lparr>dl_reply = ok_reply 250, dl_tls = True, dl_rejected = []\<rparr>"
    by (simp add: transaction_runs [OF v(4)] finish_def)
  moreover have "greet ''c'' (conn_at [RdBytes (ok_wire 220 @ text_bytes (to_wire wit_starttls) @ ok_wire 220)] [] [])
      = (Inr (parse_extensions wit_starttls), conn_at [] (ok_wire 220) [wire_line ''EHLO c''])"
    using g by (metis prod.collapse)
  ultimately show ?thesis using v(3)
    by (simp add: deliver_def connect_new_def wit_transport_def conn_new_def run_simps upgrade_def into_inner_def)
qed

theorem required_tls_is_used_witness:
  "dl_tls \<lparr>dl_reply = ok_reply 250, dl_tls = True, dl_rejected = []\<rparr>"
  by (rule required_tls_is_used [OF _ wit_deliver]) simp

end
