(* ===== verification/Gateway_Rules.thy ===== *)
theory Gateway_Rules
  imports Rust_Text Mail "HOL-Library.AList"
begin

text \<open>
  The small rules of the mail gateway (\<open>mail-gateway/src\<close>): the limit per address of a peer
  (\<open>ratelimit.rs\<close>), the acceptance policy (\<open>policy.rs\<close>), the mapping of mailboxes (\<open>address.rs\<close>)
  and of message ids (\<open>thread.rs\<close>). BLAKE3, hexadecimal and Unicode lower-casing are arguments.
\<close>

section \<open>Errors of the gateway\<close>

datatype gateway_error =
    GwConfig string
  | GwAddress string
  | GwStore string
  | GwMime string
  | GwDkim string
  | GwDns string
  | GwSdk string
  | GwApp app_error
  | GwIo string

section \<open>The limit per peer address\<close>

text \<open>Instants and durations are numbers of ticks; an earlier instant is at distance zero.\<close>

record 'ip ip_limiter =
  il_window :: nat
  il_limit :: u32
  il_hits :: "('ip \<times> nat list) list"

definition ip_limiter_new :: "nat \<Rightarrow> u32 \<Rightarrow> 'ip ip_limiter" where
  "ip_limiter_new window limit = \<lparr>il_window = window, il_limit = limit, il_hits = []\<rparr>"

definition il_recent :: "'ip ip_limiter \<Rightarrow> nat \<Rightarrow> nat \<Rightarrow> bool" where
  "il_recent l now t \<longleftrightarrow> now - t < il_window l"

text \<open>The bound on the table: forget the addresses without a recent hit, or all of them.\<close>

definition il_shrink :: "'ip ip_limiter \<Rightarrow> nat \<Rightarrow> ('ip \<times> nat list) list" where
  "il_shrink l now =
     (if length (il_hits l) > 10000
      then (let kept = filter (\<lambda>(ip, v). v \<noteq> [] \<and> il_recent l now (last v)) (il_hits l)
            in if length kept > 10000 then [] else kept)
      else il_hits l)"

definition hits_of :: "'ip \<Rightarrow> ('ip \<times> nat list) list \<Rightarrow> nat list" where
  "hits_of ip m = (case map_of m ip of Some v \<Rightarrow> v | None \<Rightarrow> [])"

definition allow_at :: "'ip \<Rightarrow> nat \<Rightarrow> 'ip ip_limiter \<Rightarrow> bool \<times> 'ip ip_limiter" where
  "allow_at ip now l =
     (if il_limit l = 0 then (True, l)
      else
        (let m = il_shrink l now;
             v = filter (il_recent l now) (hits_of ip m)
         in if (word_of_nat (length v) :: u32) \<ge> il_limit l
            then (False, l\<lparr>il_hits := AList.update ip v m\<rparr>)
            else (True, l\<lparr>il_hits := AList.update ip (v @ [now]) m\<rparr>)))"

section \<open>The acceptance policy\<close>

record auth_verdicts =
  av_spf :: string
  av_dkim :: string
  av_dmarc :: string

definition av_none :: auth_verdicts where
  "av_none = \<lparr>av_spf = ''none'', av_dkim = ''none'', av_dmarc = ''none''\<rparr>"

definition av_strings :: "auth_verdicts \<Rightarrow> string list" where
  "av_strings a = [''spf='' @ av_spf a, ''dkim='' @ av_dkim a, ''dmarc='' @ av_dmarc a]"

definition authenticated :: "auth_verdicts \<Rightarrow> bool" where
  "authenticated a \<longleftrightarrow> av_spf a = ''pass'' \<or> av_dkim a = ''pass''"

record gateway_policy =
  gp_require_spf_or_dkim :: bool
  gp_reject_spam_score_over :: u32
  gp_contacts_only :: bool

definition decide_inbound :: "gateway_policy \<Rightarrow> auth_verdicts \<Rightarrow> u32 \<Rightarrow> string option" where
  "decide_inbound p auth spam_score =
     (if gp_require_spf_or_dkim p \<and> \<not> authenticated auth
      then Some ''5.7.1 message not authenticated (SPF or DKIM pass required)''
      else if gp_reject_spam_score_over p > 0 \<and> spam_score > gp_reject_spam_score_over p
      then Some (''5.7.1 spam score '' @ dec_string (unat spam_score) @ '' exceeds this gateway's threshold'')
      else None)"

definition gw_allow_outbound :: "gateway_policy \<Rightarrow> bool \<Rightarrow> bool" where
  "gw_allow_outbound p sender_is_contact \<longleftrightarrow> \<not> gp_contacts_only p \<or> sender_is_contact"

section \<open>Mailboxes\<close>

datatype mailbox = MbLocal string | MbRemote string string

text \<open>The part of a local part before a plus sign, under the rules of usernames.\<close>

definition local_part_to_username :: "(string \<Rightarrow> string) \<Rightarrow> string \<Rightarrow> gateway_error + string" where
  "local_part_to_username lower local =
     (case parse_address lower (CHR ''@'' # takeWhile (\<lambda>c. c \<noteq> CHR ''+'') local) of
        Inr (Username u) \<Rightarrow> Inr u
      | _ \<Rightarrow> Inl (GwAddress (local @ '' is not a valid username'')))"

definition strip_suffix :: "string \<Rightarrow> string \<Rightarrow> string option" where
  "strip_suffix p s = (if ends_with p s then Some (take (length s - length p) s) else None)"

definition unbracket :: "string \<Rightarrow> string" where
  "unbracket s = (case strip_prefix ''<'' s of
      Some t \<Rightarrow> (case strip_suffix ''>'' t of Some u \<Rightarrow> u | None \<Rightarrow> s)
    | None \<Rightarrow> s)"

definition drop_route :: "string \<Rightarrow> string" where
  "drop_route s = (case rsplit_once (CHR '':'') s of
      Some (l, r) \<Rightarrow> if starts_with ''@'' l then r else s
    | None \<Rightarrow> s)"

definition hostname_char :: "char \<Rightarrow> bool" where
  "hostname_char c \<longleftrightarrow> is_ascii_alnum c \<or> c = CHR ''-'' \<or> c = CHR ''.''"

definition classify_mailbox :: "(string \<Rightarrow> string) \<Rightarrow> string \<Rightarrow> string \<Rightarrow> gateway_error + mailbox" where
  "classify_mailbox lower addr our_domain =
     (let raw = drop_route (unbracket (trim addr)) in
      if raw = [] \<or> length raw > 254 then Inl (GwAddress ''bad address length'')
      else (case rsplit_once (CHR ''@'') raw of
        None \<Rightarrow> Inl (GwAddress ''no domain'')
      | Some (local, domain) \<Rightarrow>
          if local = [] \<or> domain = [] then Inl (GwAddress ''empty local part or domain'')
          else if length local > 64 then Inl (GwAddress ''local part longer than 64 bytes'')
          else if CHR ''.'' \<notin> set domain \<or> \<not> list_all hostname_char domain
          then Inl (GwAddress ''not a hostname'')
          else if ascii_lowercase domain = ascii_lowercase our_domain
          then and_then (local_part_to_username lower local) (\<lambda>name. Inr (MbLocal name))
          else if \<not> list_all is_ascii_graphic local
          then Inl (GwAddress ''local part contains control or non-ASCII characters'')
          else Inr (MbRemote local (ascii_lowercase domain))))"

definition gw_mail_address :: "string \<Rightarrow> string \<Rightarrow> string" where
  "gw_mail_address username domain = username @ ''@'' @ domain"

section \<open>Message ids\<close>

definition normalise_message_id :: "string \<Rightarrow> string" where
  "normalise_message_id raw =
     (let s = unbracket (trim raw) in
      case rsplit_once (CHR ''@'') s of
        Some (l, d) \<Rightarrow> l @ ''@'' @ ascii_lowercase d
      | None \<Rightarrow> s)"

definition derive_id :: "(bytes \<Rightarrow> bytes) \<Rightarrow> string \<Rightarrow> bytes option" where
  "derive_id blake3 header =
     (let n = normalise_message_id header in
      if n = [] then None else Some (take ID_LEN (blake3 (text_bytes n))))"

function split_refs :: "string \<Rightarrow> string list" where
  "split_refs rest =
     (case split_once (CHR ''<'') rest of
        None \<Rightarrow> []
      | Some (_, after) \<Rightarrow>
          (case split_once (CHR ''>'') after of
             None \<Rightarrow> []
           | Some (inner, rest) \<Rightarrow>
               (if trim inner = [] then [] else [normalise_message_id (trim inner)]) @ split_refs rest))"
  by auto
termination
  by (relation "measure length") (auto simp: split_once_Some)

declare split_refs.simps [simp del]

definition outbound_message_id :: "(bytes \<Rightarrow> string) \<Rightarrow> bytes \<Rightarrow> string \<Rightarrow> string" where
  "outbound_message_id hexs i domain = ''<'' @ hexs i @ ''@'' @ domain @ ''>''"

definition parse_outbound_message_id :: "(string \<Rightarrow> bytes option) \<Rightarrow> string \<Rightarrow> string \<Rightarrow> bytes option" where
  "parse_outbound_message_id unhex header domain =
     (case rsplit_once (CHR ''@'') (normalise_message_id header) of
        None \<Rightarrow> None
      | Some (l, d) \<Rightarrow>
          if \<not> eq_ignore_ascii_case d domain \<or> length l \<noteq> ID_LEN * 2 then None else unhex l)"

end
