(* ===== verification/Gateway_Store.thy ===== *)
theory Gateway_Store
  imports Gateway_Rules Smtp_Client
begin

text \<open>
  The database of the mail gateway (\<open>mail-gateway/src/store.rs\<close>): a table is the list of its rows in
  the order of insertion, a statement of SQL is the change it makes to the table. An \<open>INTEGER PRIMARY
  KEY\<close> is one more than the largest in the table; \<open>INSERT OR IGNORE\<close> does nothing when a key is
  taken. The payload of a queue row is kept as a value: it is written and read by the same type, so
  that the rows dropped by \<open>due\<close> as undecodable do not occur. The schema has one version.
\<close>

section \<open>Tables\<close>

definition QUEUED :: string where "QUEUED = ''queued''"
definition DELIVERED :: string where "DELIVERED = ''delivered''"
definition FAILED :: string where "FAILED = ''failed''"
definition REJECTED :: string where "REJECTED = ''rejected''"

record inbound_job =
  ij_envelope :: smtp_envelope
  ij_raw :: bytes
  ij_received_at_ms :: u64
  ij_hid :: string

record outbound_job =
  oj_hid :: string
  oj_sender :: string
  oj_mail_from :: string
  oj_domain :: string
  oj_rcpts :: "string list"
  oj_message :: bytes
  oj_subject :: string

datatype gw_job = JInbound inbound_job | JOutbound outbound_job

record inbound_row =
  ir_received_at :: int
  ir_from :: string
  ir_rcpt :: string
  ir_header :: string
  ir_hid :: string
  ir_status :: string

record outbound_row =
  ow_created_at :: int
  ow_hid :: string
  ow_sender :: string
  ow_rcpt :: string
  ow_header :: string
  ow_status :: string
  ow_attempts :: int
  ow_last_error :: string

record queue_row =
  qr_id :: int
  qr_job :: gw_job
  qr_attempts :: int
  qr_next :: int
  qr_last_error :: string
  qr_created :: int

record thread_row =
  th_hid :: string
  th_header :: string
  th_thread :: string

record gw_store =
  gs_inbound :: "inbound_row list"
  gs_outbound :: "outbound_row list"
  gs_queue :: "queue_row list"
  gs_threads :: "thread_row list"
  gs_cursors :: "(string \<times> int) list"
  gs_rates :: "(string \<times> int) list"

definition gw_store_empty :: gw_store where
  "gw_store_empty = \<lparr>gs_inbound = [], gs_outbound = [], gs_queue = [], gs_threads = [], gs_cursors = [], gs_rates = []\<rparr>"

text \<open>\<open>as i64\<close>.\<close>

definition as_i64 :: "u64 \<Rightarrow> int" where "as_i64 w = sint w"

section \<open>The logs\<close>

definition log_inbound :: "u64 \<Rightarrow> string \<Rightarrow> string \<Rightarrow> string \<Rightarrow> string \<Rightarrow> string \<Rightarrow> gw_store \<Rightarrow> gw_store" where
  "log_inbound received_at from_header rcpt header hid status s = s\<lparr>gs_inbound := gs_inbound s @
     [\<lparr>ir_received_at = as_i64 received_at, ir_from = from_header, ir_rcpt = rcpt, ir_header = header,
       ir_hid = hid, ir_status = status\<rparr>]\<rparr>"

definition set_inbound_status :: "string \<Rightarrow> string \<Rightarrow> gw_store \<Rightarrow> gw_store" where
  "set_inbound_status hid status s = s\<lparr>gs_inbound :=
     map (\<lambda>r. if ir_hid r = hid then r\<lparr>ir_status := status\<rparr> else r) (gs_inbound s)\<rparr>"

definition inbound_seen :: "string \<Rightarrow> gw_store \<Rightarrow> bool" where
  "inbound_seen hid s \<longleftrightarrow> length (filter (\<lambda>r. ir_hid r = hid \<and> ir_status r \<noteq> REJECTED) (gs_inbound s)) > 0"

definition log_outbound :: "u64 \<Rightarrow> string \<Rightarrow> string \<Rightarrow> string \<Rightarrow> string \<Rightarrow> string \<Rightarrow> gw_store \<Rightarrow> bool \<times> gw_store" where
  "log_outbound created_at hid sender rcpt header status s =
     (if hid \<in> ow_hid ` set (gs_outbound s) then (False, s)
      else (True, s\<lparr>gs_outbound := gs_outbound s @
        [\<lparr>ow_created_at = as_i64 created_at, ow_hid = hid, ow_sender = sender, ow_rcpt = rcpt,
          ow_header = header, ow_status = status, ow_attempts = 0, ow_last_error = []\<rparr>]\<rparr>))"

definition set_outbound_status :: "string \<Rightarrow> string \<Rightarrow> string \<Rightarrow> gw_store \<Rightarrow> gw_store" where
  "set_outbound_status hid status err s = s\<lparr>gs_outbound :=
     map (\<lambda>r. if ow_hid r = hid then r\<lparr>ow_status := status, ow_attempts := ow_attempts r + 1,
                ow_last_error := err\<rparr> else r) (gs_outbound s)\<rparr>"

definition outbound_seen :: "string \<Rightarrow> gw_store \<Rightarrow> bool" where
  "outbound_seen hid s \<longleftrightarrow> length (filter (\<lambda>r. ow_hid r = hid) (gs_outbound s)) > 0"

section \<open>The retry queue\<close>

definition next_rowid :: "int list \<Rightarrow> int" where
  "next_rowid ids = foldr max ids 0 + 1"

definition enqueue :: "gw_job \<Rightarrow> u64 \<Rightarrow> u64 \<Rightarrow> gw_store \<Rightarrow> gw_store" where
  "enqueue job now next s = s\<lparr>gs_queue := gs_queue s @
     [\<lparr>qr_id = next_rowid (map qr_id (gs_queue s)), qr_job = job, qr_attempts = 0, qr_next = as_i64 next,
       qr_last_error = [], qr_created = as_i64 now\<rparr>]\<rparr>"

definition is_inbound :: "gw_job \<Rightarrow> bool" where
  "is_inbound j = (case j of JInbound _ \<Rightarrow> True | JOutbound _ \<Rightarrow> False)"

definition due_rows :: "bool \<Rightarrow> u64 \<Rightarrow> nat \<Rightarrow> gw_store \<Rightarrow> queue_row list" where
  "due_rows inbound now limit s = take limit (sort_key qr_next (sort_key qr_id
     (filter (\<lambda>r. is_inbound (qr_job r) = inbound \<and> qr_next r \<le> as_i64 now) (gs_queue s))))"

definition dequeue :: "int \<Rightarrow> gw_store \<Rightarrow> gw_store" where
  "dequeue i s = s\<lparr>gs_queue := filter (\<lambda>r. qr_id r \<noteq> i) (gs_queue s)\<rparr>"

definition reschedule :: "int \<Rightarrow> u64 \<Rightarrow> string \<Rightarrow> gw_store \<Rightarrow> gw_store" where
  "reschedule i next err s = s\<lparr>gs_queue := map (\<lambda>r. if qr_id r = i
     then r\<lparr>qr_attempts := qr_attempts r + 1, qr_next := as_i64 next, qr_last_error := take_chars 512 err\<rparr>
     else r) (gs_queue s)\<rparr>"

definition queue_depth :: "bool \<Rightarrow> gw_store \<Rightarrow> nat" where
  "queue_depth inbound s = length (filter (\<lambda>r. is_inbound (qr_job r) = inbound) (gs_queue s))"

section \<open>The map of threads\<close>

definition map_thread :: "thread_row \<Rightarrow> gw_store \<Rightarrow> gw_store" where
  "map_thread row s =
     (if th_hid row \<in> th_hid ` set (gs_threads s) \<or> th_header row \<in> th_header ` set (gs_threads s) then s
      else s\<lparr>gs_threads := gs_threads s @ [row]\<rparr>)"

definition thread_by_hid :: "string \<Rightarrow> gw_store \<Rightarrow> thread_row option" where
  "thread_by_hid hid s = find (\<lambda>r. th_hid r = hid) (gs_threads s)"

definition thread_by_header :: "string \<Rightarrow> gw_store \<Rightarrow> thread_row option" where
  "thread_by_header header s = find (\<lambda>r. th_header r = header) (gs_threads s)"

section \<open>Cursors and rates\<close>

definition gs_cursor :: "string \<Rightarrow> gw_store \<Rightarrow> u64" where
  "gs_cursor name s = (case map_of (gs_cursors s) name of None \<Rightarrow> 0 | Some v \<Rightarrow> word_of_int (max v 0))"

definition set_cursor :: "string \<Rightarrow> u64 \<Rightarrow> gw_store \<Rightarrow> gw_store" where
  "set_cursor name v s = s\<lparr>gs_cursors := AList.update name (as_i64 v) (gs_cursors s)\<rparr>"

definition rate_hit :: "string \<Rightarrow> u64 \<Rightarrow> u64 \<Rightarrow> gw_store \<Rightarrow> u32 \<times> gw_store" where
  "rate_hit key now window s =
     (let floor = as_i64 (if now < window then 0 else now - window);
          kept = filter (\<lambda>(k, t). \<not> (k = key \<and> t < floor)) (gs_rates s);
          rates = kept @ [(key, as_i64 now)]
      in (word_of_nat (length (filter (\<lambda>(k, t). k = key \<and> t \<ge> floor) rates)), s\<lparr>gs_rates := rates\<rparr>))"

section \<open>Facts about the tables\<close>

lemma next_rowid_fresh: "i \<in> set ids \<Longrightarrow> i < next_rowid ids"
  unfolding next_rowid_def by (induction ids) auto

lemma inbound_seen_iff: "inbound_seen hid s \<longleftrightarrow> (\<exists>r \<in> set (gs_inbound s). ir_hid r = hid \<and> ir_status r \<noteq> REJECTED)"
  by (auto simp: inbound_seen_def filter_empty_conv)

lemma outbound_seen_iff: "outbound_seen hid s \<longleftrightarrow> hid \<in> ow_hid ` set (gs_outbound s)"
  by (auto simp: outbound_seen_def filter_empty_conv)

lemma set_due_rows: "r \<in> set (due_rows inbound now limit s) \<Longrightarrow>
    r \<in> set (gs_queue s) \<and> is_inbound (qr_job r) = inbound \<and> qr_next r \<le> as_i64 now"
  unfolding due_rows_def by (drule in_set_takeD) simp

lemma distinct_due_rows: "distinct (map qr_id (gs_queue s)) \<Longrightarrow> distinct (map qr_id (due_rows inbound now limit s))"
proof -
  assume d: "distinct (map qr_id (gs_queue s))"
  let ?f = "filter (\<lambda>r. is_inbound (qr_job r) = inbound \<and> qr_next r \<le> as_i64 now) (gs_queue s)"
  have "distinct (map qr_id ?f)" by (rule distinct_map_filter [OF d])
  then have "distinct ?f" "inj_on qr_id (set ?f)" by (simp_all add: distinct_map)
  then have "distinct (map qr_id (sort_key qr_next (sort_key qr_id ?f)))"
    by (simp add: distinct_map)
  then show ?thesis by (simp add: due_rows_def flip: take_map)
qed

end
