(* ===== verification/Gateway_In.thy ===== *)
theory Gateway_In
  imports Gateway_Store
begin

text \<open>
  The inbound half of the bridge (\<open>mail-gateway/src/bridge.rs\<close>): an Internet message becomes a
  HashMail message. The network below (directory, attachments, sending), the clocks, randomness, the
  MIME parser and the hash are fields of \<open>gw_env\<close>, over a world of any type. Counters and log lines
  are left out.
\<close>

section \<open>The parsed message\<close>

record in_mailbox =
  ib_name :: string
  ib_addr :: string

record in_attachment =
  ia_name :: string
  ia_mime :: string
  ia_content_id :: string
  ia_data :: bytes

record inbound_mail =
  im_from :: "in_mailbox option"
  im_from_header :: string
  im_reply_to :: "in_mailbox list"
  im_to :: "in_mailbox list"
  im_cc :: "in_mailbox list"
  im_subject :: string
  im_message_id :: "string option"
  im_in_reply_to :: "string option"
  im_references :: "string list"
  im_date_ms :: "u64 option"
  im_body_text :: string
  im_body_html :: string
  im_attachments :: "in_attachment list"
  im_auth :: auth_verdicts
  im_spam_score :: u32
  im_importance :: int
  im_notes :: "string list"

section \<open>The world below\<close>

datatype resolve_answer = RaIdentity mail_address | RaNoIdentity | RaNotFound | RaError string

datatype send_outcome = SendOk | SendInvalid string | SendError string

record 'w gw_env =
  ge_instant :: "'w \<Rightarrow> nat \<times> 'w"
  ge_now_ms :: "'w \<Rightarrow> u64 \<times> 'w"
  ge_random :: "'w \<Rightarrow> (nat \<Rightarrow> byte) option \<times> 'w"
  ge_resolve :: "string \<Rightarrow> 'w \<Rightarrow> resolve_answer \<times> 'w"
  ge_make_attachment :: "string \<Rightarrow> string \<Rightarrow> bytes \<Rightarrow> 'w \<Rightarrow> (string + mail_attachment) \<times> 'w"
  ge_send :: "mail_message \<Rightarrow> 'w \<Rightarrow> send_outcome \<times> 'w"
  ge_parse_ip :: "string \<Rightarrow> string option"
  ge_parse_mail :: "bytes \<Rightarrow> gateway_error + inbound_mail"
  ge_hex :: "bytes \<Rightarrow> string"
  ge_unhex :: "string \<Rightarrow> bytes option"
  ge_blake3 :: "bytes \<Rightarrow> bytes"
  ge_lower :: "string \<Rightarrow> string"

record gw_cfg =
  gc_domain :: string
  gc_policy :: gateway_policy
  gc_max_attempts :: u32
  gc_per_user_per_hour :: u32
  gc_max_message_bytes :: u64

section \<open>Ids of a thread\<close>

record thread_ids =
  ti_message_id :: bytes
  ti_thread_id :: bytes
  ti_in_reply_to :: bytes
  ti_references :: "bytes list"
  ti_header :: string

definition id_for_header :: "'w gw_env \<Rightarrow> gw_store \<Rightarrow> string \<Rightarrow> string \<Rightarrow> bytes option" where
  "id_for_header env s header domain =
     (let n = normalise_message_id header in
      if n = [] then None
      else case thread_by_header n s of
        Some row \<Rightarrow> ge_unhex env (th_hid row)
      | None \<Rightarrow> (case parse_outbound_message_id (ge_unhex env) n domain of
          Some i \<Rightarrow> Some i
        | None \<Rightarrow> derive_id (ge_blake3 env) n))"

definition message_id_of :: "'w gw_env \<Rightarrow> gw_store \<Rightarrow> inbound_mail \<Rightarrow> string \<Rightarrow> (nat \<Rightarrow> byte) option \<Rightarrow>
    gateway_error + bytes \<times> string" where
  "message_id_of env s parsed domain rnd =
     (case im_message_id parsed of
        Some h \<Rightarrow> (case id_for_header env s h domain of
            Some i \<Rightarrow> Inr (i, h)
          | None \<Rightarrow> Inl (GwMime ''empty Message-ID''))
      | None \<Rightarrow> (case random_id rnd of
            Inl e \<Rightarrow> Inl (GwApp e)
          | Inr i \<Rightarrow> Inr (i, normalise_message_id (outbound_message_id (ge_hex env) i domain))))"

definition gather_references :: "'w gw_env \<Rightarrow> gw_store \<Rightarrow> string list \<Rightarrow> string \<Rightarrow> bytes list" where
  "gather_references env s refs domain = fold (\<lambda>r acc. case id_for_header env s r domain of
       Some i \<Rightarrow> if i \<in> set acc then acc else acc @ [i]
     | None \<Rightarrow> acc) (take MAX_REFERENCES refs) []"

definition thread_of_id :: "'w gw_env \<Rightarrow> gw_store \<Rightarrow> bytes \<Rightarrow> bytes option" where
  "thread_of_id env s i = (case thread_by_hid (ge_hex env i) s of
     Some row \<Rightarrow> ge_unhex env (th_thread row) | None \<Rightarrow> None)"

definition choose_thread :: "'w gw_env \<Rightarrow> gw_store \<Rightarrow> bytes \<Rightarrow> bytes list \<Rightarrow> bytes option" where
  "choose_thread env s parent refs =
     (case (if parent \<noteq> [] then thread_of_id env s parent else None) of
        Some t \<Rightarrow> Some t
      | None \<Rightarrow> (case refs of
            [] \<Rightarrow> None
          | root # _ \<Rightarrow> (case thread_by_hid (ge_hex env root) s of
                Some row \<Rightarrow> ge_unhex env (th_thread row)
              | None \<Rightarrow> Some root)))"

definition resolve_thread_ids :: "'w gw_env \<Rightarrow> gw_store \<Rightarrow> inbound_mail \<Rightarrow> string \<Rightarrow> (nat \<Rightarrow> byte) option \<Rightarrow>
    gateway_error + thread_ids \<times> gw_store" where
  "resolve_thread_ids env s parsed domain rnd =
     and_then (message_id_of env s parsed domain rnd) (\<lambda>(message_id, header).
       let parent = (case im_in_reply_to parsed of
             Some h \<Rightarrow> (case id_for_header env s h domain of Some i \<Rightarrow> i | None \<Rightarrow> [])
           | None \<Rightarrow> []);
           refs = gather_references env s (im_references parsed) domain;
           refs = (if parent \<noteq> [] \<and> parent \<notin> set refs then trim_references (refs @ [parent]) else refs);
           thread_id = (case choose_thread env s parent refs of Some t \<Rightarrow> t | None \<Rightarrow> message_id)
       in Inr (\<lparr>ti_message_id = message_id, ti_thread_id = thread_id, ti_in_reply_to = parent,
                ti_references = refs, ti_header = header\<rparr>,
               map_thread \<lparr>th_hid = ge_hex env message_id, th_header = header, th_thread = ge_hex env thread_id\<rparr> s))"

section \<open>Building the message\<close>

record inbound_recipients =
  rc_to :: "mail_address list"
  rc_cc :: "mail_address list"

definition listed_in :: "in_mailbox list \<Rightarrow> string \<Rightarrow> bool" where
  "listed_in ms rcpt \<longleftrightarrow> list_ex (\<lambda>m. eq_ignore_ascii_case (ib_addr m) rcpt) ms"

definition only_cc :: "inbound_mail \<Rightarrow> string \<Rightarrow> bool" where
  "only_cc parsed rcpt \<longleftrightarrow> listed_in (im_cc parsed) rcpt \<and> \<not> listed_in (im_to parsed) rcpt"

definition place_recipients :: "inbound_mail \<Rightarrow> (string \<times> mail_address) list \<Rightarrow> inbound_recipients" where
  "place_recipients parsed resolved =
     (let to = map snd (filter (\<lambda>(r, a). \<not> only_cc parsed r) resolved);
          cc = map snd (filter (\<lambda>(r, a). only_cc parsed r) resolved)
      in if to = [] \<and> cc \<noteq> [] then \<lparr>rc_to = cc, rc_cc = []\<rparr> else \<lparr>rc_to = to, rc_cc = cc\<rparr>)"

definition LABEL_EXTERNAL :: string where "LABEL_EXTERNAL = ''external''"

definition sender_text :: "inbound_mail \<Rightarrow> string" where
  "sender_text parsed = (case im_from parsed of
      Some mb \<Rightarrow> if ib_name mb \<noteq> [] then ib_name mb @ '' <'' @ ib_addr mb @ ''>'' else ib_addr mb
    | None \<Rightarrow> im_from_header parsed)"

definition inbound_draft :: "inbound_mail \<Rightarrow> mail_address \<Rightarrow> inbound_recipients \<Rightarrow> mail_attachment list \<Rightarrow> draft" where
  "inbound_draft parsed me rc attachments = draft_default
     \<lparr>dr_from := me\<lparr>ma_display_name := bound_str (sender_text parsed) MAIL_MAX_NAME\<rparr>,
      dr_to := rc_to rc, dr_cc := rc_cc rc, dr_subject := im_subject parsed,
      dr_body_text := im_body_text parsed, dr_body_html := im_body_html parsed,
      dr_attachments := attachments, dr_importance := im_importance parsed,
      dr_labels := [LABEL_EXTERNAL]\<rparr>"

definition build_inbound_message :: "(nat \<Rightarrow> byte) option \<Rightarrow> clock \<Rightarrow> inbound_mail \<Rightarrow> mail_address \<Rightarrow>
    inbound_recipients \<Rightarrow> mail_attachment list \<Rightarrow> thread_ids \<Rightarrow> u64 \<Rightarrow> gateway_error + mail_message" where
  "build_inbound_message rnd clk parsed me rc attachments ids received_at_ms =
     (case build_all rnd clk (inbound_draft parsed me rc attachments) of
        Inl e \<Rightarrow> Inl (GwApp e)
      | Inr built \<Rightarrow> (case og_main built of
          None \<Rightarrow> Inl (GwMime ''no recipients after resolution'')
        | Some msg \<Rightarrow>
            (let msg = msg\<lparr>mm_message_id := ti_message_id ids, mm_thread_id := ti_thread_id ids,
                   mm_in_reply_to := ti_in_reply_to ids, mm_references := ti_references ids,
                   mm_created_at_ms := (case im_date_ms parsed of
                       Some d \<Rightarrow> if d \<le> received_at_ms + 300000 then d else received_at_ms
                     | None \<Rightarrow> received_at_ms),
                   mm_origin := ORIGIN_EXTERNAL_GATEWAY,
                   mm_external := Some \<lparr>ex_gateway = ma_address me, ex_from_header = im_from_header parsed,
                     ex_message_id_header = bound_str (ti_header ids) MAX_HEADER,
                     ex_auth_results = av_strings (im_auth parsed),
                     ex_spam_score = min (im_spam_score parsed) 1000\<rparr>\<rparr>
             in (case validate_mail msg of Inl e \<Rightarrow> Inl (GwApp e) | Inr _ \<Rightarrow> Inr msg))))"

text \<open>The delay before the next attempt.\<close>

definition sat_mul :: "u64 \<Rightarrow> u64 \<Rightarrow> u64" where
  "sat_mul a b = (if unat a * unat b < 2 ^ 64 then a * b else - 1)"

definition backoff_secs :: "u32 \<Rightarrow> u64" where
  "backoff_secs attempts = min (sat_mul 30 (push_bit (unat (min attempts 12)) 1)) (6 * 3600)"

section \<open>Shared state and the directory\<close>

record cached_resolve =
  cr_result :: "mail_address option"
  cr_at :: nat

record 'w gateway =
  gw_store :: gw_store
  gw_cache :: "(string \<times> cached_resolve) list"
  gw_ips :: "string ip_limiter"
  gw_world :: 'w

text \<open>Instants are in milliseconds.\<close>

definition RESOLVE_TTL_OK :: nat where "RESOLVE_TTL_OK = 600000"
definition RESOLVE_TTL_MISS :: nat where "RESOLVE_TTL_MISS = 60000"

definition cache_hit :: "nat \<Rightarrow> cached_resolve \<Rightarrow> bool" where
  "cache_hit now hit \<longleftrightarrow> now - cr_at hit < (if cr_result hit \<noteq> None then RESOLVE_TTL_OK else RESOLVE_TTL_MISS)"

definition ask_directory :: "'w gw_env \<Rightarrow> string \<Rightarrow> 'w gateway \<Rightarrow> (string + mail_address option) \<times> 'w gateway" where
  "ask_directory env username g =
     (case ge_resolve env username (gw_world g) of (answer, w) \<Rightarrow>
        (case answer of
           RaError e \<Rightarrow> (Inl e, g\<lparr>gw_world := w\<rparr>)
         | _ \<Rightarrow>
             (let result = (case answer of RaIdentity a \<Rightarrow> Some a | _ \<Rightarrow> None);
                  cache = (if length (gw_cache g) > 50000 then [] else gw_cache g)
              in case ge_instant env w of (now, w) \<Rightarrow>
                (Inr result, g\<lparr>gw_cache := AList.update username \<lparr>cr_result = result, cr_at = now\<rparr> cache,
                   gw_world := w\<rparr>))))"

definition resolve_username :: "'w gw_env \<Rightarrow> string \<Rightarrow> 'w gateway \<Rightarrow> (string + mail_address option) \<times> 'w gateway" where
  "resolve_username env username g =
     (case map_of (gw_cache g) username of
        Some hit \<Rightarrow>
          (case ge_instant env (gw_world g) of (now, w) \<Rightarrow>
             if cache_hit now hit then (Inr (cr_result hit), g\<lparr>gw_world := w\<rparr>)
             else ask_directory env username (g\<lparr>gw_world := w\<rparr>))
      | None \<Rightarrow> ask_directory env username g)"

section \<open>The application of the SMTP server\<close>

definition check_recipient :: "'w gw_env \<Rightarrow> gw_cfg \<Rightarrow> 'w gateway \<Rightarrow> string \<Rightarrow> smtp_envelope \<Rightarrow> verdict \<times> 'w gateway" where
  "check_recipient env cfg g rcpt envelope =
     (case classify_mailbox (ge_lower env) rcpt (gc_domain cfg) of
        Inr (MbLocal username) \<Rightarrow>
          (case resolve_username env username g of
             (Inr (Some _), g) \<Rightarrow> (SvAccept, g)
           | (Inr None, g) \<Rightarrow> (SvReject 550 ''5.1.1 no such user'', g)
           | (Inl _, g) \<Rightarrow> (SvTempFail 451 ''4.4.3 directory lookup failed, try again later'', g))
      | Inr (MbRemote _ _) \<Rightarrow> (SvReject 550 ''5.7.1 relaying denied'', g)
      | Inl _ \<Rightarrow> (SvReject 550 ''5.1.3 bad recipient address'', g))"

definition trim_brackets :: "string \<Rightarrow> string" where
  "trim_brackets s = rev (dropWhile (\<lambda>c. c \<in> set ''[]'') (rev (dropWhile (\<lambda>c. c \<in> set ''[]'') s)))"

definition peer_host :: "string \<Rightarrow> string" where
  "peer_host peer = trim_brackets (case rsplit_once (CHR '':'') peer of Some (h, _) \<Rightarrow> h | None \<Rightarrow> peer)"

text \<open>The limit of messages per address; a peer that is no address passes.\<close>

definition ip_allows :: "'w gw_env \<Rightarrow> string \<Rightarrow> 'w gateway \<Rightarrow> bool \<times> 'w gateway" where
  "ip_allows env peer g =
     (case ge_parse_ip env (peer_host peer) of
        None \<Rightarrow> (True, g)
      | Some ip \<Rightarrow> (case ge_instant env (gw_world g) of (now, w) \<Rightarrow>
          (case allow_at ip now (gw_ips g) of (ok, l) \<Rightarrow> (ok, g\<lparr>gw_ips := l, gw_world := w\<rparr>))))"

text \<open>The queue entry and one row of the log per recipient.\<close>

definition queue_inbound :: "smtp_envelope \<Rightarrow> bytes \<Rightarrow> u64 \<Rightarrow> u64 \<Rightarrow> string \<Rightarrow> string \<Rightarrow> string \<Rightarrow> gw_store \<Rightarrow> gw_store" where
  "queue_inbound envelope raw now_ms now_secs from_header header hid s =
     fold (\<lambda>r. log_inbound now_secs from_header r header hid QUEUED) (se_rcpt_to envelope)
       (enqueue (JInbound \<lparr>ij_envelope = envelope, ij_raw = raw, ij_received_at_ms = now_ms, ij_hid = hid\<rparr>)
          now_secs now_secs s)"

definition accept_parsed :: "'w gw_env \<Rightarrow> gw_cfg \<Rightarrow> smtp_envelope \<Rightarrow> bytes \<Rightarrow> inbound_mail \<Rightarrow> 'w gateway \<Rightarrow>
    verdict \<times> 'w gateway" where
  "accept_parsed env cfg envelope raw parsed g =
     (case ge_now_ms env (gw_world g) of (now_ms, w) \<Rightarrow>
       (let now_secs = now_ms div 1000; g = g\<lparr>gw_world := w\<rparr> in
        case decide_inbound (gc_policy cfg) (im_auth parsed) (im_spam_score parsed) of
          Some text \<Rightarrow>
            (SvReject 550 text, g\<lparr>gw_store := log_inbound now_secs (im_from_header parsed)
               (join_with '','' (se_rcpt_to envelope))
               (case im_message_id parsed of Some h \<Rightarrow> h | None \<Rightarrow> []) [] REJECTED (gw_store g)\<rparr>)
        | None \<Rightarrow>
            (case ge_random env w of (rnd, w) \<Rightarrow>
              (let g = g\<lparr>gw_world := w\<rparr> in
               case resolve_thread_ids env (gw_store g) parsed (gc_domain cfg) rnd of
                 Inl _ \<Rightarrow> (SvTempFail 451 ''4.3.0 temporary internal error'', g)
               | Inr (ids, s) \<Rightarrow>
                   (let hid = ge_hex env (ti_message_id ids) in
                    if inbound_seen hid s then (SvAccept, g\<lparr>gw_store := s\<rparr>)
                    else (SvAccept, g\<lparr>gw_store := queue_inbound envelope raw now_ms now_secs
                           (im_from_header parsed) (ti_header ids) hid s\<rparr>))))))"

definition accept_message :: "'w gw_env \<Rightarrow> gw_cfg \<Rightarrow> 'w gateway \<Rightarrow> smtp_envelope \<Rightarrow> bytes \<Rightarrow> verdict \<times> 'w gateway" where
  "accept_message env cfg g envelope raw =
     (case ip_allows env (se_peer envelope) g of (ok, g) \<Rightarrow>
        if \<not> ok then (SvTempFail 451 ''4.7.1 too many messages from your address, try later'', g)
        else (case ge_parse_mail env raw of
            Inl _ \<Rightarrow> (SvReject 550 ''5.6.0 message could not be parsed'', g)
          | Inr parsed \<Rightarrow> accept_parsed env cfg envelope raw parsed g))"

definition gateway_handler :: "'w gw_env \<Rightarrow> gw_cfg \<Rightarrow> 'w gateway inbound_handler" where
  "gateway_handler env cfg = \<lparr>ih_check = check_recipient env cfg, ih_accept = accept_message env cfg\<rparr>"

section \<open>Delivery into HashMail\<close>

datatype inbound_failure = IfPermanent string | IfTransient string

text \<open>The recipients that still resolve, up to the first failure of the directory.\<close>

fun resolve_rcpts :: "'w gw_env \<Rightarrow> gw_cfg \<Rightarrow> string list \<Rightarrow> 'w gateway \<Rightarrow>
    (inbound_failure + (string \<times> mail_address) list) \<times> 'w gateway" where
  "resolve_rcpts env cfg [] g = (Inr [], g)"
| "resolve_rcpts env cfg (r # rs) g =
     (case classify_mailbox (ge_lower env) r (gc_domain cfg) of
        Inr (MbLocal username) \<Rightarrow>
          (case resolve_username env username g of
             (Inl e, g) \<Rightarrow> (Inl (IfTransient (''resolve: '' @ e)), g)
           | (Inr None, g) \<Rightarrow> resolve_rcpts env cfg rs g
           | (Inr (Some a), g) \<Rightarrow>
               (case resolve_rcpts env cfg rs g of
                  (Inl e, g) \<Rightarrow> (Inl e, g)
                | (Inr as, g) \<Rightarrow> (Inr ((r, a) # as), g)))
      | _ \<Rightarrow> resolve_rcpts env cfg rs g)"

fun upload_attachments :: "'w gw_env \<Rightarrow> in_attachment list \<Rightarrow> 'w \<Rightarrow> (inbound_failure + mail_attachment list) \<times> 'w" where
  "upload_attachments env [] w = (Inr [], w)"
| "upload_attachments env (a # as) w =
     (case ge_make_attachment env (ia_name a) (ia_mime a) (ia_data a) w of
        (Inl e, w) \<Rightarrow> (Inl (IfTransient (''attachment upload: '' @ e)), w)
      | (Inr att, w) \<Rightarrow>
          (case upload_attachments env as w of
             (Inl e, w) \<Rightarrow> (Inl e, w)
           | (Inr atts, w) \<Rightarrow> (Inr (att\<lparr>at_content_id := ia_content_id a\<rparr> # atts), w)))"

definition send_resolved :: "'w gw_env \<Rightarrow> gw_cfg \<Rightarrow> mail_address \<Rightarrow> inbound_job \<Rightarrow> inbound_mail \<Rightarrow>
    (string \<times> mail_address) list \<Rightarrow> 'w gateway \<Rightarrow> (inbound_failure + unit) \<times> 'w gateway" where
  "send_resolved env cfg me job parsed resolved g =
     (case ge_random env (gw_world g) of (rnd, w) \<Rightarrow>
      (case resolve_thread_ids env (gw_store g) parsed (gc_domain cfg) rnd of
         Inl _ \<Rightarrow> (Inl (IfPermanent ''thread ids''), g\<lparr>gw_world := w\<rparr>)
       | Inr (ids, s) \<Rightarrow>
          (let g = g\<lparr>gw_store := s\<rparr> in
           case upload_attachments env (im_attachments parsed) w of
             (Inl e, w) \<Rightarrow> (Inl e, g\<lparr>gw_world := w\<rparr>)
           | (Inr atts, w) \<Rightarrow>
              (case ge_random env w of (rnd, w) \<Rightarrow>
              (case ge_now_ms env w of (now, w) \<Rightarrow>
              (case build_inbound_message rnd (\<lambda>_. now) parsed me (place_recipients parsed resolved) atts ids
                      (ij_received_at_ms job) of
                 Inl _ \<Rightarrow> (Inl (IfPermanent ''message''), g\<lparr>gw_world := w\<rparr>)
               | Inr msg \<Rightarrow>
                  (case ge_send env msg w of (r, w) \<Rightarrow>
                     (case r of SendOk \<Rightarrow> Inr () | SendInvalid e \<Rightarrow> Inl (IfPermanent e)
                       | SendError e \<Rightarrow> Inl (IfTransient e), g\<lparr>gw_world := w\<rparr>))))))))"

definition try_deliver_inbound :: "'w gw_env \<Rightarrow> gw_cfg \<Rightarrow> mail_address \<Rightarrow> inbound_job \<Rightarrow> 'w gateway \<Rightarrow>
    (inbound_failure + unit) \<times> 'w gateway" where
  "try_deliver_inbound env cfg me job g =
     (case ge_parse_mail env (ij_raw job) of
        Inl _ \<Rightarrow> (Inl (IfPermanent ''mime''), g)
      | Inr parsed \<Rightarrow>
          (case resolve_rcpts env cfg (se_rcpt_to (ij_envelope job)) g of
             (Inl e, g) \<Rightarrow> (Inl e, g)
           | (Inr resolved, g) \<Rightarrow>
               if resolved = [] then (Inl (IfPermanent ''no deliverable recipients''), g)
               else send_resolved env cfg me job parsed resolved g))"

definition settle_inbound :: "gw_cfg \<Rightarrow> queue_row \<Rightarrow> inbound_job \<Rightarrow> u64 \<Rightarrow> inbound_failure + unit \<Rightarrow> gw_store \<Rightarrow> gw_store" where
  "settle_inbound cfg item job now_secs result s =
     (case result of
        Inr _ \<Rightarrow> set_inbound_status (ij_hid job) DELIVERED (dequeue (qr_id item) s)
      | Inl (IfPermanent reason) \<Rightarrow> set_inbound_status (ij_hid job) FAILED (dequeue (qr_id item) s)
      | Inl (IfTransient reason) \<Rightarrow>
          (let attempts = (word_of_int (qr_attempts item) :: u32) + 1
           in if attempts \<ge> gc_max_attempts cfg
              then set_inbound_status (ij_hid job) FAILED (dequeue (qr_id item) s)
              else reschedule (qr_id item) (now_secs + backoff_secs attempts) reason s))"

definition deliver_inbound :: "'w gw_env \<Rightarrow> gw_cfg \<Rightarrow> mail_address \<Rightarrow> queue_row \<Rightarrow> inbound_job \<Rightarrow> u64 \<Rightarrow> 'w gateway \<Rightarrow>
    (inbound_failure + unit) \<times> 'w gateway" where
  "deliver_inbound env cfg me item job now_secs g =
     (case try_deliver_inbound env cfg me job g of (result, g) \<Rightarrow>
        (result, g\<lparr>gw_store := settle_inbound cfg item job now_secs result (gw_store g)\<rparr>))"

text \<open>The inbound part of a round: the due items of the queue, read once.\<close>

fun deliver_items :: "'w gw_env \<Rightarrow> gw_cfg \<Rightarrow> mail_address \<Rightarrow> queue_row list \<Rightarrow> u64 \<Rightarrow> 'w gateway \<Rightarrow>
    (string \<times> (inbound_failure + unit)) list \<times> 'w gateway" where
  "deliver_items env cfg me [] now_secs g = ([], g)"
| "deliver_items env cfg me (item # items) now_secs g =
     (case qr_job item of
        JInbound job \<Rightarrow>
          (case deliver_inbound env cfg me item job now_secs g of (r, g) \<Rightarrow>
             (case deliver_items env cfg me items now_secs g of (rs, g) \<Rightarrow> ((ij_hid job, r) # rs, g)))
      | JOutbound _ \<Rightarrow> deliver_items env cfg me items now_secs g)"

definition inbound_round :: "'w gw_env \<Rightarrow> gw_cfg \<Rightarrow> mail_address \<Rightarrow> u64 \<Rightarrow> 'w gateway \<Rightarrow>
    (string \<times> (inbound_failure + unit)) list \<times> 'w gateway" where
  "inbound_round env cfg me now_secs g = deliver_items env cfg me (due_rows True now_secs 20 (gw_store g)) now_secs g"

end
