(* ===== verification/Gateway_Props.thy ===== *)
theory Gateway_Props
  imports Gateway_In Smtp_Props Mail_Props "HOL-Library.Multiset"
begin

text \<open>
  What the gateway does with the mail it accepts: the invariant of its database, kept by the
  application behind the SMTP server (an instance of \<open>smtp_application\<close>) and by every round of
  delivery.
\<close>

section \<open>The invariant of the database\<close>

fun inbound_of :: "gw_job \<Rightarrow> inbound_job list" where
  "inbound_of (JInbound j) = [j]"
| "inbound_of (JOutbound j) = []"

definition pending_jobs :: "gw_store \<Rightarrow> inbound_job list" where
  "pending_jobs s = concat (map (inbound_of \<circ> qr_job) (gs_queue s))"

definition local_rcpt :: "(string \<Rightarrow> string) \<Rightarrow> string \<Rightarrow> string \<Rightarrow> bool" where
  "local_rcpt lower domain r \<longleftrightarrow> (case classify_mailbox lower r domain of Inr (MbLocal _) \<Rightarrow> True | _ \<Rightarrow> False)"

definition job_ok :: "(string \<Rightarrow> string) \<Rightarrow> string \<Rightarrow> inbound_job \<Rightarrow> bool" where
  "job_ok lower domain j \<longleftrightarrow> se_rcpt_to (ij_envelope j) \<noteq> []
     \<and> (\<forall>r \<in> set (se_rcpt_to (ij_envelope j)). local_rcpt lower domain r)"

text \<open>The rows of a message are queued exactly while its job is in the queue.\<close>

definition rows_of :: "string \<Rightarrow> gw_store \<Rightarrow> inbound_row set" where
  "rows_of hid s = {r \<in> set (gs_inbound s). ir_hid r = hid \<and> ir_status r \<noteq> REJECTED}"

definition gw_ok :: "(string \<Rightarrow> string) \<Rightarrow> string \<Rightarrow> gw_store \<Rightarrow> bool" where
  "gw_ok lower domain s \<longleftrightarrow>
     distinct (map qr_id (gs_queue s)) \<and> distinct (map ij_hid (pending_jobs s))
     \<and> (\<forall>j \<in> set (pending_jobs s). job_ok lower domain j \<and> rows_of (ij_hid j) s \<noteq> {})
     \<and> (\<forall>r \<in> set (gs_inbound s). ir_status r = QUEUED \<longleftrightarrow>
          ir_status r \<noteq> REJECTED \<and> ir_hid r \<in> ij_hid ` set (pending_jobs s))
     \<and> ir_status ` set (gs_inbound s) \<subseteq> {QUEUED, DELIVERED, FAILED, REJECTED}"

lemma status_distinct [simp]: "QUEUED \<noteq> REJECTED" "DELIVERED \<noteq> REJECTED" "FAILED \<noteq> REJECTED"
    "DELIVERED \<noteq> QUEUED" "FAILED \<noteq> QUEUED" "DELIVERED \<noteq> FAILED"
  by (simp_all add: QUEUED_def REJECTED_def DELIVERED_def FAILED_def)

lemmas status_distinct' [simp] = status_distinct [symmetric]

lemma gw_ok_empty: "gw_ok lower domain gw_store_empty"
  by (simp add: gw_ok_def gw_store_empty_def pending_jobs_def)

lemma gw_ok_cong:
  "gs_queue s' = gs_queue s \<Longrightarrow> gs_inbound s' = gs_inbound s \<Longrightarrow> gw_ok lower domain s' = gw_ok lower domain s"
  by (simp add: gw_ok_def pending_jobs_def rows_of_def)

lemma map_thread_tables [simp]:
  "gs_queue (map_thread row s) = gs_queue s" "gs_inbound (map_thread row s) = gs_inbound s"
  "gs_outbound (map_thread row s) = gs_outbound s"
  by (simp_all add: map_thread_def)

lemma gw_ok_map_thread [simp]: "gw_ok lower domain (map_thread row s) = gw_ok lower domain s"
  by (rule gw_ok_cong) simp_all

lemma inbound_seen_rows: "inbound_seen hid s \<longleftrightarrow> rows_of hid s \<noteq> {}"
  by (auto simp: inbound_seen_iff rows_of_def)

section \<open>Accepting\<close>

lemma gw_ok_rejected:
  assumes "gw_ok lower domain s"
  shows "gw_ok lower domain (log_inbound t f r h hid REJECTED s)"
proof -
  have "rows_of k (log_inbound t f r h hid REJECTED s) = rows_of k s" for k
    by (auto simp: rows_of_def log_inbound_def)
  moreover have "pending_jobs (log_inbound t f r h hid REJECTED s) = pending_jobs s"
    by (simp add: pending_jobs_def log_inbound_def)
  moreover have "gs_inbound (log_inbound t f r h hid REJECTED s) = gs_inbound s @
      [\<lparr>ir_received_at = as_i64 t, ir_from = f, ir_rcpt = r, ir_header = h, ir_hid = hid, ir_status = REJECTED\<rparr>]"
    "gs_queue (log_inbound t f r h hid REJECTED s) = gs_queue s"
    by (simp_all add: log_inbound_def)
  ultimately show ?thesis using assms unfolding gw_ok_def by auto
qed

lemma fold_log_inbound:
  "fold (\<lambda>r. log_inbound t f r h hid st) rs s = s\<lparr>gs_inbound := gs_inbound s @
     map (\<lambda>r. \<lparr>ir_received_at = as_i64 t, ir_from = f, ir_rcpt = r, ir_header = h, ir_hid = hid, ir_status = st\<rparr>) rs\<rparr>"
  by (induction rs arbitrary: s) (simp_all add: log_inbound_def)

lemma gw_ok_queue_inbound:
  assumes "gw_ok lower domain s" "\<not> inbound_seen hid s" "se_rcpt_to e \<noteq> []"
    and "\<forall>r \<in> set (se_rcpt_to e). local_rcpt lower domain r"
  shows "gw_ok lower domain (queue_inbound e raw t t' f h hid s)"
proof -
  let ?j = "\<lparr>ij_envelope = e, ij_raw = raw, ij_received_at_ms = t, ij_hid = hid\<rparr>"
  let ?s = "queue_inbound e raw t t' f h hid s"
  have q: "gs_queue ?s = gs_queue s @ [\<lparr>qr_id = next_rowid (map qr_id (gs_queue s)), qr_job = JInbound ?j,
      qr_attempts = 0, qr_next = as_i64 t', qr_last_error = [], qr_created = as_i64 t'\<rparr>]"
    by (simp add: queue_inbound_def fold_log_inbound enqueue_def)
  have i: "gs_inbound ?s = gs_inbound s @ map (\<lambda>r. \<lparr>ir_received_at = as_i64 t', ir_from = f, ir_rcpt = r,
      ir_header = h, ir_hid = hid, ir_status = QUEUED\<rparr>) (se_rcpt_to e)"
    by (simp add: queue_inbound_def fold_log_inbound enqueue_def)
  have p: "pending_jobs ?s = pending_jobs s @ [?j]" using q by (simp add: pending_jobs_def)
  have none: "rows_of hid s = {}" using assms(2) by (simp add: inbound_seen_rows)
  then have new: "hid \<notin> ij_hid ` set (pending_jobs s)" using assms(1) by (auto simp: gw_ok_def)
  have "next_rowid (map qr_id (gs_queue s)) \<notin> set (map qr_id (gs_queue s))"
    using next_rowid_fresh [of _ "map qr_id (gs_queue s)"] by blast
  then have 1: "distinct (map qr_id (gs_queue ?s))" using assms(1) q by (simp add: gw_ok_def)
  have 2: "distinct (map ij_hid (pending_jobs ?s))" using assms(1) p new by (simp add: gw_ok_def)
  have r: "rows_of k s \<subseteq> rows_of k ?s" for k by (auto simp: rows_of_def i)
  obtain a where "a \<in> set (se_rcpt_to e)" using assms(3) by (cases "se_rcpt_to e") auto
  then have "\<lparr>ir_received_at = as_i64 t', ir_from = f, ir_rcpt = a, ir_header = h, ir_hid = hid, ir_status = QUEUED\<rparr>
      \<in> rows_of hid ?s" by (simp add: rows_of_def i)
  then have "rows_of hid ?s \<noteq> {}" by blast
  then have 3: "\<forall>j \<in> set (pending_jobs ?s). job_ok lower domain j \<and> rows_of (ij_hid j) ?s \<noteq> {}"
    using assms(1,3,4) p r by (fastforce simp: gw_ok_def job_ok_def)
  have 4: "ir_status w = QUEUED \<longleftrightarrow> ir_status w \<noteq> REJECTED \<and> ir_hid w \<in> ij_hid ` set (pending_jobs ?s)"
    if w: "w \<in> set (gs_inbound ?s)" for w
  proof (cases "w \<in> set (gs_inbound s)")
    case True
    have "ir_status w \<noteq> REJECTED \<Longrightarrow> ir_hid w \<noteq> hid" using none True by (auto simp: rows_of_def)
    moreover have "ir_status w = QUEUED \<longleftrightarrow> ir_status w \<noteq> REJECTED \<and> ir_hid w \<in> ij_hid ` set (pending_jobs s)"
      using assms(1) True unfolding gw_ok_def by blast
    ultimately show ?thesis using p by auto
  next
    case False
    then show ?thesis using w i p by auto
  qed
  have 5: "ir_status ` set (gs_inbound ?s) \<subseteq> {QUEUED, DELIVERED, FAILED, REJECTED}"
    using assms(1) i by (auto simp: gw_ok_def)
  show ?thesis unfolding gw_ok_def using 1 2 3 4 5 by blast
qed

lemma resolve_username_store [simp]:
  "resolve_username env u g = (r, g') \<Longrightarrow> gw_store g' = gw_store g"
  by (auto simp: resolve_username_def ask_directory_def Let_def
      split: prod.splits option.splits if_splits resolve_answer.splits)

lemma ip_allows_store: "ip_allows env peer g = (ok, g') \<Longrightarrow> gw_store g' = gw_store g"
  by (auto simp: ip_allows_def split: option.splits prod.splits)

lemma check_recipient_facts:
  assumes "check_recipient env cfg g r e = (v, g')"
  shows "gw_store g' = gw_store g" "v = SvAccept \<Longrightarrow> local_rcpt (ge_lower env) (gc_domain cfg) r"
proof -
  show "gw_store g' = gw_store g"
    using assms by (auto simp: check_recipient_def split: sum.splits mailbox.splits prod.splits option.splits
        dest: resolve_username_store)
  show "local_rcpt (ge_lower env) (gc_domain cfg) r" if "v = SvAccept"
    using assms that by (auto simp: check_recipient_def local_rcpt_def split: sum.splits mailbox.splits)
qed

lemma resolve_thread_store:
  "resolve_thread_ids env s parsed domain rnd = Inr (ids, s') \<Longrightarrow> \<exists>row. s' = map_thread row s"
  by (auto simp: resolve_thread_ids_def and_then_ok Let_def split: prod.splits)

section \<open>Delivering\<close>

definition with_status :: "string \<Rightarrow> gw_store \<Rightarrow> string set" where
  "with_status st s = {h. \<exists>r \<in> set (gs_inbound s). ir_hid r = h \<and> ir_status r = st}"

definition accounted :: "gw_store \<Rightarrow> string set" where
  "accounted s = {h. \<exists>r \<in> set (gs_inbound s). ir_hid r = h \<and> ir_status r \<noteq> REJECTED}"

lemma settled_not_pending:
  "gw_ok lower domain s \<Longrightarrow> st \<noteq> QUEUED \<Longrightarrow> st \<noteq> REJECTED \<Longrightarrow> h \<in> with_status st s \<Longrightarrow>
   h \<notin> ij_hid ` set (pending_jobs s)"
proof
  assume ok: "gw_ok lower domain s" and st: "st \<noteq> QUEUED" "st \<noteq> REJECTED" "h \<in> with_status st s"
    and h: "h \<in> ij_hid ` set (pending_jobs s)"
  obtain r where r: "r \<in> set (gs_inbound s)" "ir_status r = st" "ir_hid r = h"
    using st(3) by (auto simp: with_status_def)
  have "ir_status r = QUEUED \<longleftrightarrow> ir_status r \<noteq> REJECTED \<and> ir_hid r \<in> ij_hid ` set (pending_jobs s)"
    using ok r(1) by (simp add: gw_ok_def)
  then show False using r st h by simp
qed

lemma pending_dequeue:
  assumes "distinct (map qr_id q)" "item \<in> set q" "qr_job item = JInbound j"
  shows "\<exists>a b. concat (map (inbound_of \<circ> qr_job) q) = a @ j # b
    \<and> concat (map (inbound_of \<circ> qr_job) (filter (\<lambda>r. qr_id r \<noteq> qr_id item) q)) = a @ b"
proof -
  obtain u v where q: "q = u @ item # v" using assms(2) by (meson split_list)
  then have "qr_id item \<notin> qr_id ` (set u \<union> set v)" using assms(1) by auto
  then have "\<forall>r \<in> set u \<union> set v. qr_id r \<noteq> qr_id item" by (metis image_eqI)
  then have "filter (\<lambda>r. qr_id r \<noteq> qr_id item) q = u @ v" using q by simp
  then show ?thesis using q assms(3) by auto
qed

lemma rows_of_set_status:
  "st \<noteq> REJECTED \<Longrightarrow> k \<noteq> h \<Longrightarrow> rows_of k (set_inbound_status h st s) = rows_of k s"
  by (force simp: rows_of_def set_inbound_status_def)

lemma gw_ok_settle:
  assumes ok: "gw_ok lower domain s" and item: "item \<in> set (gs_queue s)" "qr_job item = JInbound j"
    and settled: "st \<in> {DELIVERED, FAILED}"
  shows "gw_ok lower domain (set_inbound_status (ij_hid j) st (dequeue (qr_id item) s))"
    (is "gw_ok lower domain ?s")
proof -
  have st: "st \<noteq> QUEUED" "st \<noteq> REJECTED" using settled by auto
  have d: "distinct (map qr_id (gs_queue s))" using ok by (simp add: gw_ok_def)
  obtain a b where p: "pending_jobs s = a @ j # b" "pending_jobs ?s = a @ b"
    using pending_dequeue [OF d item]
    by (auto simp: pending_jobs_def set_inbound_status_def dequeue_def)
  have dj: "distinct (map ij_hid (a @ j # b))" using ok p by (simp add: gw_ok_def)
  have hid: "ij_hid j \<notin> ij_hid ` set (a @ b)" using dj by auto
  have q: "gs_queue ?s = filter (\<lambda>r. qr_id r \<noteq> qr_id item) (gs_queue s)"
    by (simp add: set_inbound_status_def dequeue_def)
  have i: "gs_inbound ?s = map (\<lambda>r. if ir_hid r = ij_hid j then r\<lparr>ir_status := st\<rparr> else r) (gs_inbound s)"
    by (simp add: set_inbound_status_def dequeue_def)
  have 1: "distinct (map qr_id (gs_queue ?s))" unfolding q by (rule distinct_map_filter [OF d])
  have 2: "distinct (map ij_hid (pending_jobs ?s))" using dj p by auto
  have r: "rows_of k ?s = rows_of k s" if "k \<noteq> ij_hid j" for k
    using rows_of_set_status [OF st(2) that] by (simp add: rows_of_def dequeue_def)
  have 3: "\<forall>k \<in> set (pending_jobs ?s). job_ok lower domain k \<and> rows_of (ij_hid k) ?s \<noteq> {}"
  proof
    fix k assume k: "k \<in> set (pending_jobs ?s)"
    then have k': "k \<in> set (a @ b)" "k \<in> set (pending_jobs s)" using p by auto
    then have "ij_hid k \<noteq> ij_hid j" using hid by (metis image_eqI)
    then show "job_ok lower domain k \<and> rows_of (ij_hid k) ?s \<noteq> {}" using ok r k'(2) by (auto simp: gw_ok_def)
  qed
  have 4: "ir_status w = QUEUED \<longleftrightarrow> ir_status w \<noteq> REJECTED \<and> ir_hid w \<in> ij_hid ` set (pending_jobs ?s)"
    if w: "w \<in> set (gs_inbound ?s)" for w
  proof -
    obtain v where v: "v \<in> set (gs_inbound s)" "w = (if ir_hid v = ij_hid j then v\<lparr>ir_status := st\<rparr> else v)"
      using w i by auto
    have "ir_status v = QUEUED \<longleftrightarrow> ir_status v \<noteq> REJECTED \<and> ir_hid v \<in> ij_hid ` set (a @ j # b)"
      using ok v(1) p unfolding gw_ok_def by metis
    then show ?thesis using v(2) st hid p by auto
  qed
  have 5: "ir_status ` set (gs_inbound ?s) \<subseteq> {QUEUED, DELIVERED, FAILED, REJECTED}"
    using ok i settled by (auto simp: gw_ok_def)
  show ?thesis unfolding gw_ok_def using 1 2 3 4 5 by blast
qed

lemma gw_ok_reschedule: "gw_ok lower domain s \<Longrightarrow> gw_ok lower domain (reschedule i next err s)"
proof -
  assume ok: "gw_ok lower domain s"
  have "map qr_id (gs_queue (reschedule i next err s)) = map qr_id (gs_queue s)"
    by (simp add: reschedule_def)
  moreover have "pending_jobs (reschedule i next err s) = pending_jobs s"
    by (simp add: pending_jobs_def reschedule_def comp_def if_distrib [of qr_job] cong: if_cong)
  moreover have "gs_inbound (reschedule i next err s) = gs_inbound s" by (simp add: reschedule_def)
  ultimately show ?thesis using ok by (simp add: gw_ok_def rows_of_def)
qed

lemma gw_ok_settle_inbound:
  assumes "gw_ok lower domain s" "item \<in> set (gs_queue s)" "qr_job item = JInbound j"
  shows "gw_ok lower domain (settle_inbound cfg item j now r s)"
  using gw_ok_settle [OF assms] gw_ok_reschedule [OF assms(1)]
  by (auto simp: settle_inbound_def Let_def split: sum.split inbound_failure.split)

text \<open>What settling does to the rows, and to the other items of the queue.\<close>

lemma settle_cases:
  obtains (settled) st where "settle_inbound cfg item j now r s = set_inbound_status (ij_hid j) st (dequeue (qr_id item) s)"
      "st = DELIVERED \<and> r = Inr () \<or> st = FAILED \<and> r \<noteq> Inr ()"
  | (later) next' err where "settle_inbound cfg item j now r s = reschedule (qr_id item) next' err s" "r \<noteq> Inr ()"
proof (cases r)
  case (Inl f)
  then show thesis
  proof (cases f)
    case (IfTransient e)
    then show thesis using Inl that
      by (cases "(word_of_int (qr_attempts item) :: u32) + 1 \<ge> gc_max_attempts cfg")
        (simp_all add: settle_inbound_def Let_def)
  qed (use Inl that in \<open>simp add: settle_inbound_def\<close>)
qed (use that in \<open>simp add: settle_inbound_def\<close>)

lemma updated_rows:
  "(\<exists>r \<in> set (map (\<lambda>r. if ir_hid r = k then r\<lparr>ir_status := u\<rparr> else r) rs). ir_hid r = h \<and> ir_status r = t)
    \<longleftrightarrow> (\<exists>r \<in> set rs. (if ir_hid r = k then u else ir_status r) = t \<and> ir_hid r = h)"
  by (induction rs) (auto simp del: set_map)

lemma with_status_set:
  "h \<in> with_status t (set_inbound_status k u s) \<longleftrightarrow>
    (if h = k then u = t \<and> (\<exists>r \<in> set (gs_inbound s). ir_hid r = k) else h \<in> with_status t s)"
proof -
  have e: "h \<in> with_status t (set_inbound_status k u s) \<longleftrightarrow>
      (\<exists>r \<in> set (gs_inbound s). (if ir_hid r = k then u else ir_status r) = t \<and> ir_hid r = h)"
    unfolding with_status_def set_inbound_status_def by (simp add: updated_rows del: set_map)
  show ?thesis unfolding e by (cases "h = k") (auto simp: with_status_def)
qed

lemma with_status_dequeue [simp]: "with_status t (dequeue i s) = with_status t s"
    "gs_inbound (dequeue i s) = gs_inbound s"
  by (simp_all add: with_status_def dequeue_def)

lemma with_status_reschedule [simp]: "with_status t (reschedule i n e s) = with_status t s"
  by (simp add: with_status_def reschedule_def)

lemma settle_with_status:
  assumes "gw_ok lower domain s" "item \<in> set (gs_queue s)" "qr_job item = JInbound j"
  shows "with_status DELIVERED (settle_inbound cfg item j now r s)
      = with_status DELIVERED s \<union> (if r = Inr () then {ij_hid j} else {})" (is ?delivered)
    and "with_status FAILED s \<subseteq> with_status FAILED (settle_inbound cfg item j now r s)" (is ?failed)
    and "ij_hid j \<notin> with_status DELIVERED s"
proof -
  have j: "j \<in> set (pending_jobs s)" using assms(2,3) by (force simp: pending_jobs_def)
  then have h: "ij_hid j \<in> ij_hid ` set (pending_jobs s)" by simp
  show n: "ij_hid j \<notin> with_status DELIVERED s"
    using settled_not_pending [OF assms(1), of DELIVERED] h by auto
  have n': "ij_hid j \<notin> with_status FAILED s"
    using settled_not_pending [OF assms(1), of FAILED] h by auto
  have "rows_of (ij_hid j) s \<noteq> {}" using assms(1) j by (auto simp: gw_ok_def)
  then have rows: "\<exists>r \<in> set (gs_inbound s). ir_hid r = ij_hid j" by (auto simp: rows_of_def)
  have "?delivered \<and> ?failed"
  proof (cases rule: settle_cases [of cfg item j now r s])
    case (settled st)
    have "k \<in> with_status DELIVERED (set_inbound_status (ij_hid j) st (dequeue (qr_id item) s)) \<longleftrightarrow>
        k \<in> with_status DELIVERED s \<union> (if r = Inr () then {ij_hid j} else {})" for k
      unfolding with_status_set with_status_dequeue using settled(2) rows n by auto
    moreover have "k \<in> with_status FAILED s \<longrightarrow>
        k \<in> with_status FAILED (set_inbound_status (ij_hid j) st (dequeue (qr_id item) s))" for k
      unfolding with_status_set with_status_dequeue using n' by auto
    ultimately show ?thesis unfolding settled(1) by blast
  next
    case (later n e)
    then show ?thesis by simp
  qed
  then show ?delivered ?failed by blast+
qed

lemma accounted_set: "st \<noteq> REJECTED \<Longrightarrow> accounted s \<subseteq> accounted (set_inbound_status h st s)"
proof
  fix k assume st: "st \<noteq> REJECTED" and "k \<in> accounted s"
  then obtain r where r: "r \<in> set (gs_inbound s)" "ir_status r \<noteq> REJECTED" "k = ir_hid r"
    by (auto simp: accounted_def)
  let ?r = "if ir_hid r = h then r\<lparr>ir_status := st\<rparr> else r"
  have "?r \<in> set (gs_inbound (set_inbound_status h st s))"
    using r(1) by (simp add: set_inbound_status_def)
  moreover have "ir_status ?r \<noteq> REJECTED" "ir_hid ?r = k" using r st by auto
  ultimately show "k \<in> accounted (set_inbound_status h st s)"
    unfolding accounted_def by blast
qed

lemma settle_accounted: "accounted s \<subseteq> accounted (settle_inbound cfg item j now r s)"
proof (cases rule: settle_cases [of cfg item j now r s])
  case (settled st)
  then have "st \<noteq> REJECTED" by auto
  then show ?thesis using accounted_set [of st "dequeue (qr_id item) s" "ij_hid j"] settled(1)
    by (simp add: accounted_def)
next
  case (later n e)
  then show ?thesis by (simp add: accounted_def reschedule_def)
qed

lemma settle_other_items:
  assumes "it \<in> set (gs_queue s)" "qr_id it \<noteq> qr_id item"
  shows "it \<in> set (gs_queue (settle_inbound cfg item j now r s))"
proof (cases rule: settle_cases [of cfg item j now r s])
  case (settled st)
  then show ?thesis using assms by (simp add: set_inbound_status_def dequeue_def)
next
  case (later n e)
  have "it = (if qr_id it = qr_id item then it\<lparr>qr_attempts := qr_attempts it + 1, qr_next := as_i64 n,
      qr_last_error := take_chars 512 e\<rparr> else it)" using assms(2) by simp
  then show ?thesis using assms(1) later(1) unfolding reschedule_def by (auto simp: image_iff)
qed

text \<open>Delivering changes the tables only by settling, apart from the map of threads.\<close>

definition same_tables :: "gw_store \<Rightarrow> gw_store \<Rightarrow> bool" where
  "same_tables s s' \<longleftrightarrow> gs_queue s' = gs_queue s \<and> gs_inbound s' = gs_inbound s \<and> gs_outbound s' = gs_outbound s"

lemma same_tables_simps [simp]: "same_tables s s" "same_tables s (map_thread row s)"
  by (simp_all add: same_tables_def)

lemma resolve_rcpts_store: "resolve_rcpts env cfg rs g = (r, g') \<Longrightarrow> gw_store g' = gw_store g"
proof (induction rs arbitrary: g r g')
  case (Cons x rs)
  then show ?case
    by (fastforce dest: resolve_username_store split: sum.splits mailbox.splits prod.splits option.splits)
qed simp

lemma send_resolved_tables:
  "send_resolved env cfg me job parsed resolved g = (r, g') \<Longrightarrow> same_tables (gw_store g) (gw_store g')"
  by (auto simp: send_resolved_def Let_def dest!: resolve_thread_store split: prod.splits sum.splits)

lemma try_deliver_tables:
  assumes "try_deliver_inbound env cfg me job g = (r, g')"
  shows "same_tables (gw_store g) (gw_store g')"
proof (cases "ge_parse_mail env (ij_raw job)")
  case (Inl e)
  then show ?thesis using assms by (simp add: try_deliver_inbound_def)
next
  case (Inr parsed)
  obtain x g1 where x: "resolve_rcpts env cfg (se_rcpt_to (ij_envelope job)) g = (x, g1)" by fastforce
  have "gw_store g1 = gw_store g" by (rule resolve_rcpts_store [OF x])
  then show ?thesis using assms Inr x send_resolved_tables [of env cfg me job parsed _ g1 r g']
    by (auto simp: try_deliver_inbound_def split: sum.splits if_splits)
qed

lemma same_tables_facts:
  assumes "same_tables s s'"
  shows "gw_ok lower domain s' = gw_ok lower domain s" "with_status st s' = with_status st s"
    "accounted s' = accounted s" "gs_queue s' = gs_queue s" "gs_outbound s' = gs_outbound s"
  using assms gw_ok_cong [of s' s] by (simp_all add: same_tables_def with_status_def accounted_def)

text \<open>A round: what was delivered, and that it was pending before.\<close>

definition delivered_in :: "(string \<times> (inbound_failure + unit)) list \<Rightarrow> string list" where
  "delivered_in log = map fst (filter (\<lambda>x. snd x = Inr ()) log)"

definition round_ok :: "(string \<Rightarrow> string) \<Rightarrow> string \<Rightarrow> gw_store \<Rightarrow> (string \<times> (inbound_failure + unit)) list \<Rightarrow> gw_store \<Rightarrow> bool" where
  "round_ok lower domain s log s' \<longleftrightarrow> gw_ok lower domain s' \<and> distinct (delivered_in log)
     \<and> set (delivered_in log) \<inter> with_status DELIVERED s = {}
     \<and> with_status DELIVERED s' = with_status DELIVERED s \<union> set (delivered_in log)
     \<and> with_status FAILED s \<subseteq> with_status FAILED s' \<and> accounted s \<subseteq> accounted s'"

lemma deliver_inbound_ok:
  assumes ok: "gw_ok lower domain (gw_store g)" and item: "item \<in> set (gs_queue (gw_store g))" "qr_job item = JInbound j"
    and d: "deliver_inbound env cfg me item j now g = (r, g')"
  shows "round_ok lower domain (gw_store g) [(ij_hid j, r)] (gw_store g')"
    and "it \<in> set (gs_queue (gw_store g)) \<Longrightarrow> qr_id it \<noteq> qr_id item \<Longrightarrow> it \<in> set (gs_queue (gw_store g'))"
proof -
  obtain r' g1 where t: "try_deliver_inbound env cfg me j g = (r', g1)" by fastforce
  then have g': "gw_store g' = settle_inbound cfg item j now r (gw_store g1)" "r = r'"
    using d by (auto simp: deliver_inbound_def)
  note same = same_tables_facts [OF try_deliver_tables [OF t]]
  have ok1: "gw_ok lower domain (gw_store g1)" "item \<in> set (gs_queue (gw_store g1))" using ok item same by auto
  show "round_ok lower domain (gw_store g) [(ij_hid j, r)] (gw_store g')"
    using gw_ok_settle_inbound [OF ok1 item(2), of cfg now r] settle_with_status(1) [OF ok1 item(2), of cfg now r] settle_with_status(2) [OF ok1 item(2), of cfg now r]
      settle_with_status(3) [OF ok1 item(2)]
      settle_accounted [of "gw_store g1" cfg item j now r] same
    unfolding round_ok_def g'(1) by (cases "r = Inr ()") (auto simp: delivered_in_def)
  show "it \<in> set (gs_queue (gw_store g))  \<Longrightarrow> qr_id it \<noteq> qr_id item \<Longrightarrow> it \<in> set (gs_queue (gw_store g'))"
    using settle_other_items [of it "gw_store g1" item] same g' by simp
qed

lemma round_ok_append:
  assumes "round_ok lower domain s l s1" "round_ok lower domain s1 l' s2"
  shows "round_ok lower domain s (l @ l') s2"
  using assms by (auto simp: round_ok_def delivered_in_def)

lemma deliver_items_ok:
  assumes "gw_ok lower domain (gw_store g)" "set items \<subseteq> set (gs_queue (gw_store g))" "distinct (map qr_id items)"
    and "deliver_items env cfg me items now g = (log, g')"
  shows "round_ok lower domain (gw_store g) log (gw_store g')"
  using assms
proof (induction items arbitrary: g log g')
  case Nil
  then show ?case by (simp add: round_ok_def delivered_in_def)
next
  case (Cons item items)
  show ?case
  proof (cases "qr_job item")
    case (JOutbound o')
    then show ?thesis using Cons by simp
  next
    case (JInbound j)
    obtain r g1 where d: "deliver_inbound env cfg me item j now g = (r, g1)" by fastforce
    obtain rs g2 where i: "deliver_items env cfg me items now g1 = (rs, g2)" by fastforce
    have item: "item \<in> set (gs_queue (gw_store g))" using Cons.prems(2) by simp
    note one = deliver_inbound_ok [OF Cons.prems(1) item JInbound d]
    have "qr_id it \<noteq> qr_id item" if "it \<in> set items" for it
      using Cons.prems(3) that by (auto simp: image_iff)
    then have "set items \<subseteq> set (gs_queue (gw_store g1))" using Cons.prems(2) one(2) by auto
    moreover have "gw_ok lower domain (gw_store g1)" using one(1) by (simp add: round_ok_def)
    ultimately have "round_ok lower domain (gw_store g1) rs (gw_store g2)"
      using Cons.IH i Cons.prems(3) by simp
    then have "round_ok lower domain (gw_store g) ([(ij_hid j, r)] @ rs) (gw_store g2)"
      by (rule round_ok_append [OF one(1)])
    then show ?thesis using Cons.prems(4) JInbound d i by auto
  qed
qed

lemma inbound_round_ok:
  assumes "gw_ok lower domain (gw_store g)" "inbound_round env cfg me now g = (log, g')"
  shows "round_ok lower domain (gw_store g) log (gw_store g')"
proof -
  have "distinct (map qr_id (due_rows True now 20 (gw_store g)))"
    using assms(1) by (intro distinct_due_rows) (simp add: gw_ok_def)
  moreover have "set (due_rows True now 20 (gw_store g)) \<subseteq> set (gs_queue (gw_store g))"
    using set_due_rows by blast
  ultimately show ?thesis using deliver_items_ok [OF assms(1)] assms(2) by (simp add: inbound_round_def)
qed

section \<open>The application of the SMTP server\<close>

lemma round_ok_refl: "gw_ok lower domain s \<Longrightarrow> round_ok lower domain s [] s"
  by (simp add: round_ok_def delivered_in_def)

lemma round_ok_same: "gw_ok lower domain s \<Longrightarrow> same_tables s s' \<Longrightarrow> round_ok lower domain s [] s'"
  using same_tables_facts(1) [of s s' lower domain] same_tables_facts(2-4) [of s s'] by (simp add: round_ok_def delivered_in_def)

lemma round_ok_rejected: "gw_ok lower domain s \<Longrightarrow> round_ok lower domain s [] (log_inbound t f r h k REJECTED s)"
  using gw_ok_rejected [of lower domain s t f r h k]
  by (auto simp: round_ok_def delivered_in_def log_inbound_def with_status_def accounted_def)

lemma round_ok_queue_inbound:
  assumes "gw_ok lower domain s" "\<not> inbound_seen hid s" "se_rcpt_to e \<noteq> []"
    and "\<forall>r \<in> set (se_rcpt_to e). local_rcpt lower domain r"
  shows "round_ok lower domain s [] (queue_inbound e raw t t' f h hid s)"
  using gw_ok_queue_inbound [OF assms, of raw t t' f h]
  by (auto simp: round_ok_def delivered_in_def queue_inbound_def fold_log_inbound enqueue_def
      with_status_def accounted_def)

lemma accept_parsed_ok:
  assumes "gw_ok (ge_lower env) (gc_domain cfg) (gw_store g)" "se_rcpt_to e \<noteq> []"
    and "\<forall>r \<in> set (se_rcpt_to e). local_rcpt (ge_lower env) (gc_domain cfg) r"
    and "accept_parsed env cfg e raw parsed g = (v, g')"
  shows "round_ok (ge_lower env) (gc_domain cfg) (gw_store g) [] (gw_store g')"
proof -
  have q: "round_ok (ge_lower env) (gc_domain cfg) (gw_store g) []
      (queue_inbound e raw t t' f h hid (map_thread row (gw_store g)))"
    if "\<not> inbound_seen hid (map_thread row (gw_store g))" for hid t t' f h row
    using round_ok_append [OF round_ok_same [OF assms(1)] round_ok_queue_inbound [OF _ that assms(2,3)]] assms(1)
    by simp
  show ?thesis
    using assms q round_ok_refl [OF assms(1)] round_ok_same [OF assms(1)] round_ok_rejected [OF assms(1)]
    by (auto simp: accept_parsed_def Let_def dest!: resolve_thread_store
        split: prod.splits option.splits sum.splits if_splits)
qed

lemma accept_message_ok:
  assumes "gw_ok (ge_lower env) (gc_domain cfg) (gw_store g)" "se_rcpt_to e \<noteq> []"
    and "\<forall>r \<in> set (se_rcpt_to e). local_rcpt (ge_lower env) (gc_domain cfg) r"
    and "accept_message env cfg g e raw = (v, g')"
  shows "round_ok (ge_lower env) (gc_domain cfg) (gw_store g) [] (gw_store g')"
proof -
  obtain ok g1 where i: "ip_allows env (se_peer e) g = (ok, g1)" by fastforce
  have g1: "gw_store g1 = gw_store g" by (rule ip_allows_store [OF i])
  then have ok1: "gw_ok (ge_lower env) (gc_domain cfg) (gw_store g1)" using assms(1) by simp
  show ?thesis using assms(4) i g1 accept_parsed_ok [OF ok1 assms(2,3)] round_ok_refl [OF assms(1)]
    by (auto simp: accept_message_def split: if_splits sum.splits)
qed

text \<open>From any state: the database stays well formed and no mail in it is lost or delivered.\<close>

interpretation gateway: smtp_application "gateway_handler env cfg" lim
    "\<lambda>g. round_ok (ge_lower env) (gc_domain cfg) s0 [] (gw_store g)"
    "\<lambda>g. {r. local_rcpt (ge_lower env) (gc_domain cfg) r}"
  for env :: "'w gw_env" and cfg and lim and s0
proof unfold_locales
  fix g :: "'w gateway" and r e v g'
  assume "round_ok (ge_lower env) (gc_domain cfg) s0 [] (gw_store g)"
    "ih_check (gateway_handler env cfg) g r e = (v, g')"
  then show "round_ok (ge_lower env) (gc_domain cfg) s0 [] (gw_store g') \<and>
      {r. local_rcpt (ge_lower env) (gc_domain cfg) r} \<subseteq> {r. local_rcpt (ge_lower env) (gc_domain cfg) r} \<and>
      (v = SvAccept \<longrightarrow> r \<in> {r. local_rcpt (ge_lower env) (gc_domain cfg) r})"
    using check_recipient_facts [of env cfg g r e v g'] by (auto simp: gateway_handler_def)
next
  fix g :: "'w gateway" and e raw v g'
  assume r: "round_ok (ge_lower env) (gc_domain cfg) s0 [] (gw_store g)"
    and h: "handover_ok lim e raw" "set (se_rcpt_to e) \<subseteq> {r. local_rcpt (ge_lower env) (gc_domain cfg) r}"
    "ih_accept (gateway_handler env cfg) g e raw = (v, g')"
  have "gw_ok (ge_lower env) (gc_domain cfg) (gw_store g)" using r by (simp add: round_ok_def)
  then have "round_ok (ge_lower env) (gc_domain cfg) (gw_store g) [] (gw_store g')"
    using accept_message_ok [of env cfg g e raw v g'] h by (auto simp: gateway_handler_def handover_ok_def)
  then show "round_ok (ge_lower env) (gc_domain cfg) s0 [] (gw_store g') \<and>
      {r. local_rcpt (ge_lower env) (gc_domain cfg) r} \<subseteq> {r. local_rcpt (ge_lower env) (gc_domain cfg) r}"
    using round_ok_append [OF r] by simp
qed

section \<open>The gateway at work\<close>

text \<open>What happens to a gateway: connections, with what each client sends, and rounds of delivery.\<close>

datatype gw_event = GeConnection string "read_event list" | GeRound u64

definition gw_step :: "'w gw_env \<Rightarrow> gw_cfg \<Rightarrow> string \<Rightarrow> smtp_limits \<Rightarrow> mail_address \<Rightarrow> 'w gateway \<Rightarrow> gw_event \<Rightarrow>
    (string \<times> (inbound_failure + unit)) list \<times> 'w gateway" where
  "gw_step env cfg hostname lim me g ev = (case ev of
      GeConnection peer evs \<Rightarrow> (case serve_connection (gateway_handler env cfg) peer hostname lim evs g of
          (out, s, g) \<Rightarrow> ([], g))
    | GeRound now \<Rightarrow> inbound_round env cfg me now g)"

fun gw_run :: "'w gw_env \<Rightarrow> gw_cfg \<Rightarrow> string \<Rightarrow> smtp_limits \<Rightarrow> mail_address \<Rightarrow> 'w gateway \<Rightarrow> gw_event list \<Rightarrow>
    (string \<times> (inbound_failure + unit)) list \<times> 'w gateway" where
  "gw_run env cfg hostname lim me g [] = ([], g)"
| "gw_run env cfg hostname lim me g (ev # evs) =
     (case gw_step env cfg hostname lim me g ev of (log, g) \<Rightarrow>
       (case gw_run env cfg hostname lim me g evs of (log', g) \<Rightarrow> (log @ log', g)))"

lemma gw_step_ok:
  assumes ok: "gw_ok (ge_lower env) (gc_domain cfg) (gw_store g)" and s: "gw_step env cfg hostname lim me g ev = (log, g')"
  shows "round_ok (ge_lower env) (gc_domain cfg) (gw_store g) log (gw_store g')"
proof (cases ev)
  case (GeConnection peer evs)
  obtain out ss g1 where c: "serve_connection (gateway_handler env cfg) peer hostname lim evs g = (out, ss, g1)"
    by (metis surj_pair)
  have "gateway.served lim env cfg (gw_store g) ss g1"
    by (rule gateway.connection_keeps_good [OF round_ok_refl [OF ok] c])
  then show ?thesis using s c GeConnection by (auto simp: gw_step_def gateway.served_def)
next
  case (GeRound now)
  then show ?thesis using s inbound_round_ok [OF ok] by (simp add: gw_step_def)
qed

lemma gw_run_ok:
  "gw_ok (ge_lower env) (gc_domain cfg) (gw_store g) \<Longrightarrow> gw_run env cfg hostname lim me g evs = (log, g') \<Longrightarrow>
   round_ok (ge_lower env) (gc_domain cfg) (gw_store g) log (gw_store g')"
proof (induction evs arbitrary: g log g')
  case Nil
  then show ?case by (simp add: round_ok_refl)
next
  case (Cons ev evs)
  obtain l g1 where s: "gw_step env cfg hostname lim me g ev = (l, g1)" by fastforce
  obtain l' g2 where r: "gw_run env cfg hostname lim me g1 evs = (l', g2)" by fastforce
  have 1: "round_ok (ge_lower env) (gc_domain cfg) (gw_store g) l (gw_store g1)"
    by (rule gw_step_ok [OF Cons.prems(1) s])
  then have "gw_ok (ge_lower env) (gc_domain cfg) (gw_store g1)" by (simp add: round_ok_def)
  from round_ok_append [OF 1 Cons.IH [OF this r]] show ?case using Cons.prems(2) s r by simp
qed

lemma accounted_states:
  assumes "gw_ok lower domain s" "h \<in> accounted s"
  shows "h \<in> ij_hid ` set (pending_jobs s) \<union> with_status DELIVERED s \<union> with_status FAILED s"
proof -
  obtain r where r: "r \<in> set (gs_inbound s)" "ir_hid r = h" "ir_status r \<noteq> REJECTED"
    using assms(2) by (auto simp: accounted_def)
  then have "ir_status r \<in> {QUEUED, DELIVERED, FAILED}" using assms(1) by (auto simp: gw_ok_def)
  then show ?thesis using assms(1) r unfolding gw_ok_def with_status_def by blast
qed

text \<open>The id under which an accepted message is filed.\<close>

definition filed_under :: "'w gw_env \<Rightarrow> gw_cfg \<Rightarrow> gw_store \<Rightarrow> bytes \<Rightarrow> string \<Rightarrow> bool" where
  "filed_under env cfg s raw h \<longleftrightarrow> (\<exists>parsed rnd ids s'. ge_parse_mail env raw = Inr parsed \<and>
     resolve_thread_ids env s parsed (gc_domain cfg) rnd = Inr (ids, s') \<and> h = ge_hex env (ti_message_id ids))"

lemma queue_inbound_accounted:
  "se_rcpt_to e \<noteq> [] \<Longrightarrow> hid \<in> accounted (queue_inbound e raw t t' f h hid s)"
  by (cases "se_rcpt_to e") (auto simp: queue_inbound_def fold_log_inbound accounted_def enqueue_def log_inbound_def)

lemma accepted_accounted:
  assumes "accept_message env cfg g e raw = (SvAccept, g')" "se_rcpt_to e \<noteq> []"
  shows "\<exists>h. filed_under env cfg (gw_store g) raw h \<and> h \<in> accounted (gw_store g')"
proof -
  obtain ok g1 where i: "ip_allows env (se_peer e) g = (ok, g1)" by fastforce
  have st: "gw_store g1 = gw_store g" by (rule ip_allows_store [OF i])
  obtain parsed where parsed: "ge_parse_mail env raw = Inr parsed" "accept_parsed env cfg e raw parsed g1 = (SvAccept, g')"
    using assms(1) i by (auto simp: accept_message_def split: if_splits sum.splits)
  obtain now w rnd w' where w: "ge_now_ms env (gw_world g1) = (now, w)" "ge_random env w = (rnd, w')" by fastforce
  obtain ids s where r: "resolve_thread_ids env (gw_store g) parsed (gc_domain cfg) rnd = Inr (ids, s)"
    and g': "gw_store g' = (if inbound_seen (ge_hex env (ti_message_id ids)) s then s
      else queue_inbound e raw now (now div 1000) (im_from_header parsed) (ti_header ids) (ge_hex env (ti_message_id ids)) s)"
    using parsed(2) w st by (auto simp: accept_parsed_def Let_def split: option.splits sum.splits if_splits)
  have "ge_hex env (ti_message_id ids) \<in> accounted (gw_store g')"
    using g' queue_inbound_accounted [OF assms(2)] by (auto simp: inbound_seen_iff accounted_def)
  then show ?thesis using parsed(1) r unfolding filed_under_def by blast
qed

section \<open>Reply and thread\<close>

definition host_name :: "string \<Rightarrow> bool" where
  "host_name d \<longleftrightarrow> d \<noteq> [] \<and> list_all hostname_char d"

lemma hostname_char_facts:
  "hostname_char c \<Longrightarrow> 32 < char_nat c \<and> char_nat c < 127 \<and> c \<noteq> CHR ''@'' \<and> c \<noteq> CHR ''<'' \<and> c \<noteq> CHR ''>''"
  by (auto simp: hostname_char_def is_ascii_alnum_def is_ascii_digit_def is_ascii_upper_def is_ascii_lower_def char_nat_def)

lemma alnum_hostname: "is_ascii_alnum c \<Longrightarrow> hostname_char c"
  by (simp add: hostname_char_def)

lemma hostname_lower: "hostname_char c \<Longrightarrow> hostname_char (lower_char c)"
  by (auto simp: hostname_char_def lower_char_def is_ascii_alnum_def is_ascii_upper_def is_ascii_lower_def
      is_ascii_digit_def char_nat_def)

lemma trim_hosts: "s \<noteq> [] \<Longrightarrow> list_all (\<lambda>c. 32 < char_nat c \<and> char_nat c < 127) s \<Longrightarrow> trim s = s"
  by (rule trim_solid) (auto simp: list_all_iff intro!: solid_ascii)

lemma normalise_plain:
  assumes "list_all hostname_char h" "h \<noteq> []" "host_name d"
  shows "normalise_message_id (h @ CHR ''@'' # d) = h @ CHR ''@'' # ascii_lowercase d"
    and "normalise_message_id (CHR ''<'' # h @ CHR ''@'' # d @ ''>'') = h @ CHR ''@'' # ascii_lowercase d"
proof -
  let ?s = "h @ CHR ''@'' # d"
  have c: "\<forall>c \<in> set h \<union> set d. 32 < char_nat c \<and> char_nat c < 127 \<and> c \<noteq> CHR ''@'' \<and> c \<noteq> CHR ''<'' \<and> c \<noteq> CHR ''>''"
    using assms hostname_char_facts by (auto simp: list_all_iff host_name_def)
  have at: "32 < char_nat (CHR ''@'')" "char_nat (CHR ''@'') < 127" "32 < char_nat (CHR ''<'')"
    "char_nat (CHR ''<'') < 127" "32 < char_nat (CHR ''>'')" "char_nat (CHR ''>'') < 127"
    by (simp_all add: char_nat_def)
  have all: "list_all (\<lambda>c. 32 < char_nat c \<and> char_nat c < 127) ?s" using c at by (simp add: list_all_iff)
  then have t: "trim ?s = ?s" by (intro trim_hosts) simp_all
  have t2: "trim (CHR ''<'' # ?s @ ''>'') = CHR ''<'' # ?s @ ''>''"
    using all at by (intro trim_hosts) simp_all
  have r: "rsplit_once (CHR ''@'') ?s = Some (h, d)" using c by (auto simp: rsplit_once_Some)
  have "strip_prefix ''<'' ?s = None" using c assms(2)
    by (cases h) (auto simp: strip_prefix_def starts_with_def)
  then have u: "unbracket ?s = ?s" by (simp add: unbracket_def)
  have "strip_prefix ''<'' (CHR ''<'' # ?s @ ''>'') = Some (?s @ ''>'')" by (simp add: strip_prefix_def starts_with_def)
  moreover have "strip_suffix ''>'' (?s @ ''>'') = Some ?s" by (simp add: strip_suffix_def ends_with_def starts_with_def)
  ultimately have u2: "unbracket (CHR ''<'' # ?s @ ''>'') = ?s" by (simp add: unbracket_def)
  show "normalise_message_id ?s = h @ CHR ''@'' # ascii_lowercase d"
    using t r u by (simp add: normalise_message_id_def)
  show "normalise_message_id (CHR ''<'' # h @ CHR ''@'' # d @ ''>'') = h @ CHR ''@'' # ascii_lowercase d"
    using t2 r u2 by (simp add: normalise_message_id_def)
qed

lemma own_id_parses_back:
  assumes hex: "hex_ok hexs unhex" and i: "length i = ID_LEN" and d: "host_name d"
  shows "normalise_message_id (outbound_message_id hexs i d) = hexs i @ CHR ''@'' # ascii_lowercase d"
    and "parse_outbound_message_id unhex (hexs i @ CHR ''@'' # ascii_lowercase d) d = Some i"
    and "normalise_message_id (hexs i @ CHR ''@'' # ascii_lowercase d) = hexs i @ CHR ''@'' # ascii_lowercase d"
proof -
  have h: "list_all hostname_char (hexs i)" "length (hexs i) = ID_LEN * 2" "unhex (hexs i) = Some i"
    using hex i alnum_hostname by (auto simp: hex_ok_def list_all_iff)
  then have ne: "hexs i \<noteq> []" by (auto simp: ID_LEN_def)
  have dl: "host_name (ascii_lowercase d)"
    using d hostname_lower by (auto simp: host_name_def list_all_iff ascii_lowercase_def)
  show "normalise_message_id (outbound_message_id hexs i d) = hexs i @ CHR ''@'' # ascii_lowercase d"
    using normalise_plain(2) [OF h(1) ne d] by (simp add: outbound_message_id_def)
  show n: "normalise_message_id (hexs i @ CHR ''@'' # ascii_lowercase d) = hexs i @ CHR ''@'' # ascii_lowercase d"
    using normalise_plain(1) [OF h(1) ne dl] by simp
  have "CHR ''@'' \<notin> set (ascii_lowercase d)"
    using dl hostname_char_facts by (auto simp: host_name_def list_all_iff)
  then have "rsplit_once (CHR ''@'') (hexs i @ CHR ''@'' # ascii_lowercase d) = Some (hexs i, ascii_lowercase d)"
    by (simp add: rsplit_once_Some)
  then show "parse_outbound_message_id unhex (hexs i @ CHR ''@'' # ascii_lowercase d) d = Some i"
    using n h(2,3) by (simp add: parse_outbound_message_id_def eq_ignore_ascii_case_def)
qed

section \<open>Mail from outside is labelled\<close>

lemma place_recipients_all:
  "mset (rc_to (place_recipients parsed resolved) @ rc_cc (place_recipients parsed resolved)) = mset (map snd resolved)"
proof -
  define to where "to = map snd (filter (\<lambda>(r, a). \<not> only_cc parsed r) resolved)"
  define cc where "cc = map snd (filter (\<lambda>(r, a). only_cc parsed r) resolved)"
  have m: "mset (to @ cc) = mset (map snd resolved)"
    unfolding to_def cc_def by (induction resolved) auto
  have "place_recipients parsed resolved =
      (if to = [] \<and> cc \<noteq> [] then \<lparr>rc_to = cc, rc_cc = []\<rparr> else \<lparr>rc_to = to, rc_cc = cc\<rparr>)"
    by (simp add: place_recipients_def to_def cc_def Let_def)
  then show ?thesis using m by (cases "to = []") auto
qed

lemma build_inbound_ok:
  assumes "build_inbound_message rnd clk parsed me rc atts ids received = Inr msg"
  shows "validate_mail msg = Inr () \<and> mm_origin msg = ORIGIN_EXTERNAL_GATEWAY
    \<and> mm_from msg = Some (me\<lparr>ma_display_name := bound_str (sender_text parsed) MAIL_MAX_NAME\<rparr>)
    \<and> mm_to msg = rc_to rc \<and> mm_cc msg = rc_cc rc \<and> mm_labels msg = [LABEL_EXTERNAL]
    \<and> mm_message_id msg = ti_message_id ids \<and> mm_thread_id msg = ti_thread_id ids
    \<and> (\<exists>x. mm_external msg = Some x \<and> ex_gateway x = ma_address me \<and> ex_from_header x = im_from_header parsed
        \<and> ex_auth_results x = av_strings (im_auth parsed))"
proof -
  obtain built base where b: "build_all rnd clk (inbound_draft parsed me rc atts) = Inr built" "og_main built = Some base"
    using assms by (auto simp: build_inbound_message_def split: sum.splits option.splits)
  obtain mid th where base: "base = base_message clk mid th (inbound_draft parsed me rc atts)"
    using b by (auto simp: build_all_def and_then_ok Let_def split: if_splits)
  show ?thesis using assms b
    by (auto simp: build_inbound_message_def Let_def base base_message_def inbound_draft_def split: sum.splits)
qed

section \<open>A concrete gateway\<close>

definition wit_parsed :: inbound_mail where
  "wit_parsed = \<lparr>im_from = None, im_from_header = ''m'', im_reply_to = [], im_to = [], im_cc = [],
     im_subject = ''s'', im_message_id = Some ''m@x.y'', im_in_reply_to = None, im_references = [],
     im_date_ms = None, im_body_text = ''b'', im_body_html = [], im_attachments = [], im_auth = av_none,
     im_spam_score = 0, im_importance = 0, im_notes = []\<rparr>"

definition wit_env :: "unit gw_env" where
  "wit_env = \<lparr>ge_instant = (\<lambda>w. (0, w)), ge_now_ms = (\<lambda>w. (5000, w)), ge_random = (\<lambda>w. (Some (\<lambda>_. 7), w)),
     ge_resolve = (\<lambda>u w. (RaIdentity (wit_mailbox (CHR ''p'')), w)),
     ge_make_attachment = (\<lambda>n m d w. (Inl ''none'', w)), ge_send = (\<lambda>m w. (SendOk, w)),
     ge_parse_ip = (\<lambda>s. None), ge_parse_mail = (\<lambda>b. Inr wit_parsed), ge_hex = plain_hex, ge_unhex = plain_unhex,
     ge_blake3 = (\<lambda>b. replicate 32 7), ge_lower = id\<rparr>"

lemma wit_env_simps [simp]:
  "ge_now_ms wit_env w = (5000, w)" "ge_random wit_env w = (Some (\<lambda>_. 7), w)" "ge_parse_ip wit_env s = None"
  "ge_parse_mail wit_env b = Inr wit_parsed" "ge_hex wit_env = plain_hex" "ge_unhex wit_env = plain_unhex"
  "ge_blake3 wit_env b = replicate 32 7" "ge_lower wit_env = id"
  by (simp_all add: wit_env_def)

definition wit_cfg :: gw_cfg where
  "wit_cfg = \<lparr>gc_domain = ''h.io'', gc_policy = \<lparr>gp_require_spf_or_dkim = False, gp_reject_spam_score_over = 0,
     gp_contacts_only = False\<rparr>, gc_max_attempts = 3, gc_per_user_per_hour = 10, gc_max_message_bytes = 2048\<rparr>"

definition wit_gateway :: "unit gateway" where
  "wit_gateway = \<lparr>gw_store = gw_store_empty, gw_cache = [], gw_ips = ip_limiter_new 60000 5, gw_world = ()\<rparr>"

definition wit_mail_envelope :: smtp_envelope where
  "wit_mail_envelope = \<lparr>se_helo = ''c'', se_mail_from = [], se_rcpt_to = [''bob@h.io''], se_peer = ''p''\<rparr>"

lemma wit_local: "local_rcpt id ''h.io'' ''bob@h.io''"
  by code_simp

lemma wit_gw_id: "id_for_header wit_env gw_store_empty ''m@x.y'' ''h.io'' = Some (replicate 16 7)"
proof -
  have n: "normalise_message_id ''m@x.y'' = ''m@x.y''" by code_simp
  have "rsplit_once (CHR ''@'') ''m@x.y'' = Some (''m'', ''x.y'')" by (simp add: rsplit_once_Some)
  then have "parse_outbound_message_id (ge_unhex wit_env) ''m@x.y'' ''h.io'' = None"
    by (simp add: parse_outbound_message_id_def n ID_LEN_def)
  then show ?thesis
    by (simp add: id_for_header_def n thread_by_header_def gw_store_empty_def derive_id_def ID_LEN_def)
qed

lemma wit_accepts: "fst (accept_message wit_env wit_cfg wit_gateway wit_mail_envelope [0x41]) = SvAccept"
proof -
  have "\<exists>ids s. resolve_thread_ids wit_env gw_store_empty wit_parsed ''h.io'' rnd = Inr (ids, s)" for rnd
    using wit_gw_id by (simp add: resolve_thread_ids_def message_id_of_def wit_parsed_def Let_def)
  then obtain ids s where "resolve_thread_ids wit_env gw_store_empty wit_parsed ''h.io'' (Some (\<lambda>_. 7)) = Inr (ids, s)"
    by blast
  then show ?thesis
    by (simp add: accept_message_def accept_parsed_def ip_allows_def Let_def decide_inbound_def wit_gateway_def wit_cfg_def)
qed

section \<open>Properties\<close>

text \<open>
  C14. Whatever clients send and whatever the network answers, no message is delivered twice: over
  any run of connections and rounds from an empty database the delivered ids are distinct, and are
  exactly those the database records; every job still pending is another one, and all its recipients
  are mailboxes of the gateway's own domain.
\<close>

theorem no_mail_is_delivered_twice:
  assumes "gw_run env cfg hostname lim me g evs = (log, g')" "gw_store g = gw_store_empty"
  shows "distinct (delivered_in log) \<and> set (delivered_in log) = with_status DELIVERED (gw_store g')
    \<and> (\<forall>j \<in> set (pending_jobs (gw_store g')). job_ok (ge_lower env) (gc_domain cfg) j
          \<and> ij_hid j \<notin> set (delivered_in log))"
proof -
  have "gw_ok (ge_lower env) (gc_domain cfg) (gw_store g)" using assms(2) gw_ok_empty by simp
  then have r: "round_ok (ge_lower env) (gc_domain cfg) (gw_store g) log (gw_store g')"
    using assms(1) by (rule gw_run_ok)
  then have ok: "gw_ok (ge_lower env) (gc_domain cfg) (gw_store g')" by (simp add: round_ok_def)
  have d: "set (delivered_in log) = with_status DELIVERED (gw_store g')"
    using r assms(2) by (auto simp: round_ok_def with_status_def gw_store_empty_def)
  have "ij_hid j \<notin> set (delivered_in log)" if "j \<in> set (pending_jobs (gw_store g'))" for j
    using settled_not_pending [OF ok, of DELIVERED "ij_hid j"] that d by auto
  moreover have "job_ok (ge_lower env) (gc_domain cfg) j" if "j \<in> set (pending_jobs (gw_store g'))" for j
    using ok that by (simp add: gw_ok_def)
  ultimately show ?thesis using r d by (simp add: round_ok_def)
qed

theorem no_mail_is_delivered_twice_witness:
  "distinct (delivered_in (fst (gw_run wit_env wit_cfg ''mx'' wit_limits (wit_mailbox (CHR ''q'')) wit_gateway
     [GeConnection ''p'' [RdBytes wit_dialogue], GeRound 5, GeRound 6])))"
proof -
  obtain log g' where r: "gw_run wit_env wit_cfg ''mx'' wit_limits (wit_mailbox (CHR ''q'')) wit_gateway
     [GeConnection ''p'' [RdBytes wit_dialogue], GeRound 5, GeRound 6] = (log, g')" by fastforce
  have "gw_store wit_gateway = gw_store_empty" by (simp add: wit_gateway_def)
  from no_mail_is_delivered_twice [OF r this] show ?thesis using r by simp
qed





text \<open>
  C16. Mail from outside cannot pass for native mail: a message the gateway builds is valid, is from
  the gateway's own identity, says that it came from outside and what the sender claimed and what was
  verified, and goes to exactly the recipients that resolved.
\<close>

theorem outside_mail_is_labelled:
  assumes "build_inbound_message rnd clk parsed me (place_recipients parsed resolved) atts ids received = Inr msg"
  shows "validate_mail msg = Inr () \<and> mm_origin msg = ORIGIN_EXTERNAL_GATEWAY
    \<and> map_option ma_address (mm_from msg) = Some (ma_address me) \<and> mm_labels msg = [LABEL_EXTERNAL]
    \<and> mset (mm_to msg @ mm_cc msg) = mset (map snd resolved)
    \<and> (\<exists>x. mm_external msg = Some x \<and> ex_gateway x = ma_address me \<and> ex_from_header x = im_from_header parsed
        \<and> ex_auth_results x = av_strings (im_auth parsed))"
  using build_inbound_ok [OF assms] place_recipients_all [of parsed resolved] by auto

definition wit_ids :: thread_ids where
  "wit_ids = \<lparr>ti_message_id = replicate 16 7, ti_thread_id = replicate 16 7, ti_in_reply_to = [], ti_references = [],
     ti_header = ''m@x.y''\<rparr>"

definition wit_inbound :: draft where
  "wit_inbound = inbound_draft wit_parsed (wit_mailbox (CHR ''q'')) \<lparr>rc_to = [wit_mailbox (CHR ''p'')], rc_cc = []\<rparr> []"

definition wit_base :: mail_message where
  "wit_base = base_message (\<lambda>_. 0) (replicate 16 7) (replicate 16 7, [], []) wit_inbound"

lemma wit_inbound_simps:
  "dr_from wit_inbound = (wit_mailbox (CHR ''q''))\<lparr>ma_display_name := ''m''\<rparr>" "dr_to wit_inbound = [wit_mailbox (CHR ''p'')]"
  "dr_cc wit_inbound = []" "dr_bcc wit_inbound = []" "dr_subject wit_inbound = ''s''" "dr_body_text wit_inbound = ''b''"
  "dr_body_html wit_inbound = []" "dr_attachments wit_inbound = []" "dr_in_reply_to wit_inbound = None"
  "dr_labels wit_inbound = [LABEL_EXTERNAL]"
  by code_simp+

lemma wit_inbound_addresses:
  "address_ok ((wit_mailbox (CHR ''q''))\<lparr>ma_display_name := ''m''\<rparr>)" "address_ok (wit_mailbox (CHR ''p''))"
  "require_str ''label'' LABEL_EXTERNAL 64 = Inr ()"
  unfolding address_ok_def by code_simp+

lemmas wit_inbound_valid = wit_base_def base_message_def wit_inbound_simps wit_inbound_addresses ID_LEN_def
  MAX_RECIPIENTS_def MAX_REFERENCES_def MAX_BODY_TEXT_def MAX_BODY_HTML_def MAX_ATTACHMENTS_def MAX_LABELS_def
  MAX_SUBJECT_def ORIGIN_NATIVE_def ORIGIN_EXTERNAL_GATEWAY_def body_ok_def origin_ok_def subject_ok_def

lemma wit_base_ok: "validate_mail wit_base = Inr ()"
  unfolding validate_mail_iff by (simp add: wit_inbound_valid)

lemma wit_inbound_built:
  "build_all (Some (\<lambda>_. 7)) (\<lambda>_. 0) wit_inbound = Inr \<lparr>og_main = Some wit_base, og_bcc_copies = []\<rparr>"
proof -
  have "map (\<lambda>_. 7) [0..<16] = replicate 16 (7 :: byte)" by (simp add: map_replicate_const)
  then have "draft_base (Some (\<lambda>_. 7)) (\<lambda>_. 0) wit_inbound wit_base"
    unfolding draft_base_def wit_base_def
    by (simp add: random_id_def ID_LEN_def thread_fields_def wit_inbound_simps)
  then show ?thesis
    unfolding build_all_ok using wit_base_ok
    by (auto simp: copies_of_def opt_list_def wit_inbound_simps MAX_RECIPIENTS_def)
qed

theorem outside_mail_is_labelled_witness:
  "\<exists>msg. build_inbound_message (Some (\<lambda>_. 7)) (\<lambda>_. 0) wit_parsed (wit_mailbox (CHR ''q''))
     (place_recipients wit_parsed [(''bob@h.io'', wit_mailbox (CHR ''p''))]) [] wit_ids 5000 = Inr msg
     \<and> mm_labels msg = [LABEL_EXTERNAL]"
proof -
  have p: "place_recipients wit_parsed [(''bob@h.io'', wit_mailbox (CHR ''p''))]
      = \<lparr>rc_to = [wit_mailbox (CHR ''p'')], rc_cc = []\<rparr>"
    by (simp add: place_recipients_def only_cc_def listed_in_def wit_parsed_def)
  let ?x = "\<lparr>ex_gateway = ma_address (wit_mailbox (CHR ''q'')), ex_from_header = im_from_header wit_parsed,
     ex_message_id_header = bound_str (ti_header wit_ids) MAX_HEADER, ex_auth_results = av_strings (im_auth wit_parsed),
     ex_spam_score = min (im_spam_score wit_parsed) 1000\<rparr>"
  let ?m = "wit_base\<lparr>mm_message_id := replicate 16 7, mm_thread_id := replicate 16 7, mm_in_reply_to := [],
     mm_references := [], mm_created_at_ms := 5000, mm_origin := ORIGIN_EXTERNAL_GATEWAY, mm_external := Some ?x\<rparr>"
  have "validate_external ?x = Inr ()" by code_simp
  then have v: "validate_mail ?m = Inr ()" unfolding validate_mail_iff by (simp add: wit_inbound_valid)
  have m: "build_inbound_message (Some (\<lambda>_. 7)) (\<lambda>_. 0) wit_parsed (wit_mailbox (CHR ''q''))
     (place_recipients wit_parsed [(''bob@h.io'', wit_mailbox (CHR ''p''))]) [] wit_ids 5000 = Inr ?m"
    using v wit_inbound_built unfolding build_inbound_message_def p wit_inbound_def [symmetric]
    by (simp add: Let_def wit_ids_def wit_parsed_def)
  then show ?thesis using outside_mail_is_labelled [OF m] by blast
qed

end
