(* ===== verification/Mime.thy ===== *)
theory Mime
  imports Smtp Mail
begin

text \<open>
  The encoders of the gateway (\<open>mail-gateway/src/mime/mod.rs\<close>): header values, display names,
  quoted-printable, folded base64, dates and file names. The base64 engine is an argument.
\<close>

definition SOFT_LINE :: nat where "SOFT_LINE = 76"

section \<open>Header values\<close>

definition header_char :: "char \<Rightarrow> bool" where
  "header_char c \<longleftrightarrow> 0x20 \<le> char_nat c \<and> char_nat c < 0x7F \<or> char_nat c = 0x09"

definition is_ascii_header_safe :: "string \<Rightarrow> bool" where
  "is_ascii_header_safe s \<longleftrightarrow> list_all header_char s"

definition WORD_CHUNK :: nat where "WORD_CHUNK = 45"

text \<open>The characters in words of at most \<open>WORD_CHUNK\<close> bytes; \<open>cur\<close> is the word being filled.\<close>

fun header_words :: "string list \<Rightarrow> string \<Rightarrow> string list" where
  "header_words [] cur = (if cur = [] then [] else [cur])"
| "header_words (ch # chs) cur =
     (if length cur + length ch > WORD_CHUNK then cur # header_words chs ch
      else header_words chs (cur @ ch))"

definition encoded_word :: "(bytes \<Rightarrow> string) \<Rightarrow> string \<Rightarrow> string" where
  "encoded_word b64 w = ''=?UTF-8?B?'' @ b64 (text_bytes w) @ ''?=''"

definition encode_header_value :: "(bytes \<Rightarrow> string) \<Rightarrow> string \<Rightarrow> string" where
  "encode_header_value b64 s =
     (if is_ascii_header_safe s then s
      else join_with (crlf @ '' '') (map (encoded_word b64) (header_words (str_chars s) [])))"

definition escape_quoted :: "string \<Rightarrow> string" where
  "escape_quoted s = concat (map (\<lambda>c. if c = CHR 0x22 \<or> c = CHR 0x5C then [CHR 0x5C, c] else [c]) s)"

definition encode_display_name :: "(bytes \<Rightarrow> string) \<Rightarrow> string \<Rightarrow> string" where
  "encode_display_name b64 name =
     (let name = trim name in
      if name = [] then []
      else if is_ascii_header_safe name then CHR 0x22 # escape_quoted name @ [CHR 0x22]
      else encode_header_value b64 name)"

definition format_mailbox :: "(bytes \<Rightarrow> string) \<Rightarrow> string \<Rightarrow> string \<Rightarrow> string" where
  "format_mailbox b64 name addr =
     (let n = encode_display_name b64 name
      in if n = [] then ''<'' @ addr @ ''>'' else n @ '' <'' @ addr @ ''>'')"

section \<open>Quoted-printable\<close>

definition hex_upper :: "nat \<Rightarrow> char" where
  "hex_upper d = char_of (if d < 10 then 48 + d else 55 + d)"

definition qp_escape :: "byte \<Rightarrow> string" where
  "qp_escape b = [CHR ''='', hex_upper (unat b div 16), hex_upper (unat b mod 16)]"

text \<open>One byte; white space at the end of a line is escaped.\<close>

definition qp_piece :: "bool \<Rightarrow> byte \<Rightarrow> string" where
  "qp_piece at_end b =
     (if ((b = 0x20 \<or> b = 0x09) \<and> \<not> at_end) \<or> (0x21 \<le> b \<and> b \<le> 0x7E \<and> b \<noteq> 0x3D)
      then [byte_char b] else qp_escape b)"

text \<open>A line, from column \<open>col\<close>, with soft breaks.\<close>

fun qp_line :: "nat \<Rightarrow> bytes \<Rightarrow> string" where
  "qp_line col [] = []"
| "qp_line col (b # bs) =
     (let piece = qp_piece (bs = []) b in
      if col + length piece > SOFT_LINE - 1
      then ''='' @ crlf @ piece @ qp_line (length piece) bs
      else piece @ qp_line (col + length piece) bs)"

text \<open>\<open>split\<close> at a byte: always at least one part.\<close>

function split_byte :: "byte \<Rightarrow> bytes \<Rightarrow> bytes list" where
  "split_byte d s =
     (if d \<in> set s then takeWhile (\<lambda>b. b \<noteq> d) s # split_byte d (tl (dropWhile (\<lambda>b. b \<noteq> d) s)) else [s])"
  by pat_completeness auto
termination
proof (relation "measure (\<lambda>(d, s). length s)")
  fix d :: byte and s :: bytes
  assume d: "d \<in> set s"
  then have "length (tl (dropWhile (\<lambda>b. b \<noteq> d) s)) < length (dropWhile (\<lambda>b. b \<noteq> d) s)"
    by (simp add: dropWhile_eq_Nil_conv)
  then have "length (tl (dropWhile (\<lambda>b. b \<noteq> d) s)) < length s"
    by (rule less_le_trans) (rule length_dropWhile_le)
  then show "((d, tl (dropWhile (\<lambda>b. b \<noteq> d) s)), d, s) \<in> measure (\<lambda>(d, s). length s)" by simp
qed simp

declare split_byte.simps [simp del]

fun qp_lines :: "bool \<Rightarrow> bytes list \<Rightarrow> string" where
  "qp_lines ended [] = []"
| "qp_lines ended [l] = qp_line 0 (strip_cr l) @ (if ended then crlf else [])"
| "qp_lines ended (l # m # ls) = qp_line 0 (strip_cr l) @ crlf @ qp_lines ended (m # ls)"

definition ends_lf :: "bytes \<Rightarrow> bool" where
  "ends_lf s \<longleftrightarrow> s \<noteq> [] \<and> last s = 0x0A"

definition quoted_printable :: "bytes \<Rightarrow> string" where
  "quoted_printable input =
     qp_lines (ends_lf input) (split_byte 0x0A (if ends_lf input then butlast input else input))"

section \<open>Base64 in lines\<close>

function fold_lines :: "string \<Rightarrow> string" where
  "fold_lines s = (if s = [] then [] else take SOFT_LINE s @ crlf @ fold_lines (drop SOFT_LINE s))"
  by pat_completeness auto
termination
  by (relation "measure length") (auto simp: SOFT_LINE_def)

declare fold_lines.simps [simp del]

definition base64_folded :: "(bytes \<Rightarrow> string) \<Rightarrow> bytes \<Rightarrow> string" where
  "base64_folded b64 data = fold_lines (b64 data)"

section \<open>Dates\<close>

text \<open>Division of signed integers by a positive one rounds towards zero.\<close>

definition trunc_div :: "int \<Rightarrow> int \<Rightarrow> int" where
  "trunc_div a b = (if a \<ge> 0 then a div b else - ((- a) div b))"

definition civil_from_days :: "int \<Rightarrow> int \<times> int \<times> int" where
  "civil_from_days z =
     (let z = z + 719468;
          era = trunc_div (if z \<ge> 0 then z else z - 146096) 146097;
          doe = z - era * 146097;
          yoe = trunc_div (doe - trunc_div doe 1460 + trunc_div doe 36524 - trunc_div doe 146096) 365;
          y = yoe + era * 400;
          doy = doe - (365 * yoe + trunc_div yoe 4 - trunc_div yoe 100);
          mp = trunc_div (5 * doy + 2) 153;
          d = doy - trunc_div (153 * mp + 2) 5 + 1;
          m = (if mp < 10 then mp + 3 else mp - 9)
      in (if m \<le> 2 then y + 1 else y, m, d))"

definition WEEK_DAYS :: "string list" where
  "WEEK_DAYS = [''Thu'', ''Fri'', ''Sat'', ''Sun'', ''Mon'', ''Tue'', ''Wed'']"

definition MONTH_NAMES :: "string list" where
  "MONTH_NAMES = [''Jan'', ''Feb'', ''Mar'', ''Apr'', ''May'', ''Jun'', ''Jul'', ''Aug'', ''Sep'', ''Oct'', ''Nov'', ''Dec'']"

definition two_digits :: "int \<Rightarrow> string" where
  "two_digits n = (if n < 10 then ''0'' else []) @ dec_string (nat n)"

definition get_or_else :: "'a \<Rightarrow> 'a list \<Rightarrow> nat \<Rightarrow> 'a" where
  "get_or_else x xs n = (if n < length xs then xs ! n else x)"

text \<open>The seconds of a \<open>u64\<close> of milliseconds are below \<open>2 ^ 63\<close>, and years are not negative.\<close>

definition rfc5322_date :: "u64 \<Rightarrow> string" where
  "rfc5322_date unix_ms =
     (let secs = uint (unix_ms div 1000);
          days = secs div 86400;
          sod = secs mod 86400;
          (y, m, d) = civil_from_days days;
          dow = get_or_else ''Thu'' WEEK_DAYS (nat (days mod 7));
          mon = get_or_else ''Jan'' MONTH_NAMES (nat m - 1)
      in dow @ '', '' @ two_digits d @ '' '' @ mon @ '' '' @ dec_string (nat y) @ '' ''
         @ two_digits (sod div 3600) @ '':'' @ two_digits (sod mod 3600 div 60) @ '':''
         @ two_digits (sod mod 60) @ '' +0000'')"

section \<open>File names\<close>

definition clean_filename :: "string \<Rightarrow> string" where
  "clean_filename name = concat (map (\<lambda>c. if c = ''/'' \<or> c = [CHR 0x5C] then ''_'' else c)
     (filter (\<lambda>c. \<not> is_control c) (str_chars name)))"

definition safe_filename :: "string \<Rightarrow> string \<Rightarrow> string" where
  "safe_filename name fallback =
     (let cleaned = trim (clean_filename name);
          cleaned = (if cleaned = [] \<or> cleaned = ''.'' \<or> cleaned = ''..'' then fallback else cleaned)
      in bound_str cleaned MAX_FILENAME)"

end
