(* ===== verification/Mime_Out.thy ===== *)
theory Mime_Out
  imports Mime Gateway_Rules
begin

text \<open>
  A native message as an Internet message (\<open>mail-gateway/src/mime/outbound.rs\<close>): the header block in its
  fixed order, the text parts, the attachments and the multipart structure. The output is built as
  strings that are appended; \<open>render\<close> gives the bytes and the names of the headers written.
\<close>

definition IMPORTANCE_HIGH :: int where "IMPORTANCE_HIGH = 2"
definition IMPORTANCE_LOW :: int where "IMPORTANCE_LOW = 1"

record out_mailbox =
  ob_name :: string
  ob_addr :: string

record out_attachment =
  oa_name :: string
  oa_mime :: string
  oa_content_id :: string
  oa_data :: bytes

record outbound_mail =
  om_from :: out_mailbox
  om_to :: "out_mailbox list"
  om_cc :: "out_mailbox list"
  om_reply_to :: "out_mailbox option"
  om_subject :: string
  om_date_ms :: u64
  om_message_id :: string
  om_in_reply_to :: "string option"
  om_references :: "string list"
  om_body_text :: string
  om_body_html :: string
  om_attachments :: "out_attachment list"
  om_importance :: int
  om_extra_headers :: "(string \<times> string) list"

text \<open>The codecs of other packages: base64, hexadecimal, BLAKE3.\<close>

record mime_env =
  me_b64 :: "bytes \<Rightarrow> string"
  me_hex :: "bytes \<Rightarrow> string"
  me_blake3 :: "bytes \<Rightarrow> bytes"

definition boundary :: "mime_env \<Rightarrow> bytes \<Rightarrow> string \<Rightarrow> string" where
  "boundary me seed tag = ''=_hg_'' @ tag @ ''_'' @ me_hex me (take 12 (me_blake3 me (seed @ text_bytes tag)))"

definition mailbox_list :: "mime_env \<Rightarrow> out_mailbox list \<Rightarrow> string" where
  "mailbox_list me l = join_with ('','' @ crlf @ '' '') (map (\<lambda>m. format_mailbox (me_b64 me) (ob_name m) (ob_addr m)) l)"

definition fold_ids :: "string list \<Rightarrow> string" where
  "fold_ids ids = join_with (crlf @ '' '') ids"

text \<open>A header that is left out when its value is empty.\<close>

definition header_line :: "string \<times> string \<Rightarrow> string" where
  "header_line h = fst h @ '': '' @ snd h @ crlf"

definition some_headers :: "(string \<times> string) list \<Rightarrow> (string \<times> string) list" where
  "some_headers hs = filter (\<lambda>h. snd h \<noteq> []) hs"

definition text_part :: "string \<Rightarrow> string \<Rightarrow> string" where
  "text_part mime body =
     (let qp = quoted_printable (text_bytes body) in
      ''Content-Type: '' @ mime @ ''; charset=utf-8'' @ crlf
      @ ''Content-Transfer-Encoding: quoted-printable'' @ crlf @ crlf
      @ qp @ (if ends_with crlf qp then [] else crlf))"

definition attr_char :: "byte \<Rightarrow> bool" where
  "attr_char b \<longleftrightarrow> is_ascii_alnum (byte_char b) \<or> byte_char b \<in> set ''!#$&+-.^_`|~''"

definition percent :: "byte \<Rightarrow> string" where
  "percent b = (if attr_char b then [byte_char b]
     else [CHR ''%'', hex_upper (unat b div 16), hex_upper (unat b mod 16)])"

definition mime_param :: "string \<Rightarrow> string \<Rightarrow> string" where
  "mime_param name value =
     (if list_all (\<lambda>c. 0x20 \<le> char_nat c \<and> char_nat c < 0x7F) value
      then name @ ''='' @ [CHR 0x22] @ escape_quoted value @ [CHR 0x22]
      else name @ ''*=UTF-8'' @ [CHR 0x27, CHR 0x27] @ concat (map percent (text_bytes value)))"

definition attachment_part :: "mime_env \<Rightarrow> out_attachment \<Rightarrow> string" where
  "attachment_part me a =
     ''Content-Type: '' @ (if oa_mime a = [] then ''application/octet-stream'' else oa_mime a) @ ''; ''
     @ mime_param ''name'' (oa_name a) @ crlf
     @ ''Content-Disposition: '' @ (if oa_content_id a = [] then ''attachment'' else ''inline'') @ ''; ''
     @ mime_param ''filename'' (oa_name a) @ crlf
     @ (if oa_content_id a = [] then [] else ''Content-ID: <'' @ oa_content_id a @ ''>'' @ crlf)
     @ ''Content-Transfer-Encoding: base64'' @ crlf @ crlf
     @ base64_folded (me_b64 me) (oa_data a)"

definition header_token :: "string \<Rightarrow> bool" where
  "header_token k \<longleftrightarrow> k \<noteq> [] \<and> list_all (\<lambda>c. is_ascii_alnum c \<or> c = CHR ''-'') k"

definition importance_headers :: "int \<Rightarrow> (string \<times> string) list" where
  "importance_headers i =
     (if i = IMPORTANCE_HIGH then [(''Importance'', ''high''), (''X-Priority'', ''1 (Highest)'')]
      else if i = IMPORTANCE_LOW then [(''Importance'', ''low''), (''X-Priority'', ''5 (Lowest)'')]
      else [])"

text \<open>The headers before the content type, in order.\<close>

definition top_headers :: "mime_env \<Rightarrow> outbound_mail \<Rightarrow> (string \<times> string) list" where
  "top_headers me m = some_headers (
     map (\<lambda>(k, v). (k, encode_header_value (me_b64 me) v)) (filter (\<lambda>(k, v). header_token k) (om_extra_headers m))
     @ [(''From'', format_mailbox (me_b64 me) (ob_name (om_from m)) (ob_addr (om_from m))),
        (''To'', mailbox_list me (om_to m)), (''Cc'', mailbox_list me (om_cc m))]
     @ (case om_reply_to m of None \<Rightarrow> [] | Some r \<Rightarrow>
          [(''Reply-To'', format_mailbox (me_b64 me) (ob_name r) (ob_addr r))])
     @ [(''Subject'', encode_header_value (me_b64 me) (om_subject m)), (''Date'', rfc5322_date (om_date_ms m)),
        (''Message-ID'', om_message_id m)]
     @ (case om_in_reply_to m of None \<Rightarrow> [] | Some i \<Rightarrow> [(''In-Reply-To'', i)])
     @ (if om_references m = [] then [] else [(''References'', fold_ids (om_references m))])
     @ importance_headers (om_importance m)
     @ [(''MIME-Version'', ''1.0'')])"

definition alternative_body :: "outbound_mail \<Rightarrow> string \<Rightarrow> string" where
  "alternative_body m b =
     ''--'' @ b @ crlf @ text_part ''text/plain'' (om_body_text m)
     @ ''--'' @ b @ crlf @ text_part ''text/html'' (om_body_html m)"

definition multipart_value :: "string \<Rightarrow> string \<Rightarrow> string" where
  "multipart_value kind b = kind @ ''; boundary='' @ [CHR 0x22] @ b @ [CHR 0x22]"

definition alternative_part :: "mime_env \<Rightarrow> bytes \<Rightarrow> outbound_mail \<Rightarrow> string" where
  "alternative_part me seed m =
     (let b = boundary me seed ''alt''
      in ''Content-Type: '' @ multipart_value ''multipart/alternative'' b @ crlf @ crlf
         @ alternative_body m b @ ''--'' @ b @ ''--'' @ crlf)"

definition mixed_part :: "mime_env \<Rightarrow> bytes \<Rightarrow> outbound_mail \<Rightarrow> string" where
  "mixed_part me seed m =
     (let b = boundary me seed ''mix''
      in ''Content-Type: '' @ multipart_value ''multipart/mixed'' b @ crlf @ crlf
         @ ''--'' @ b @ crlf
         @ (if om_body_html m \<noteq> [] then alternative_part me seed m else text_part ''text/plain'' (om_body_text m))
         @ concat (map (\<lambda>a. ''--'' @ b @ crlf @ attachment_part me a) (om_attachments m))
         @ ''--'' @ b @ ''--'' @ crlf)"

definition content_part :: "mime_env \<Rightarrow> bytes \<Rightarrow> outbound_mail \<Rightarrow> string" where
  "content_part me seed m =
     (if om_attachments m \<noteq> [] then mixed_part me seed m
      else if om_body_html m \<noteq> [] then alternative_part me seed m
      else text_part ''text/plain'' (om_body_text m))"

record rendered =
  rd_bytes :: bytes
  rd_header_names :: "string list"

definition mail_render :: "mime_env \<Rightarrow> bytes \<Rightarrow> outbound_mail \<Rightarrow> rendered" where
  "mail_render me seed m =
     \<lparr>rd_bytes = text_bytes (concat (map header_line (top_headers me m)) @ content_part me seed m),
      rd_header_names = map fst (top_headers me m) @ [''Content-Type'']\<rparr>"

text \<open>Every line ends in CRLF and is not too long.\<close>

fun well_formed_loop :: "nat \<Rightarrow> bytes \<Rightarrow> bool" where
  "well_formed_loop 0 s = (s = [])"
| "well_formed_loop (Suc n) s =
     (if s = [] then True
      else if 0x0A \<notin> set s then False
      else (let l = takeWhile (\<lambda>b. b \<noteq> 0x0A) s
            in l \<noteq> [] \<and> last l = 0x0D \<and> length l \<le> 999 \<and> well_formed_loop n (drop (Suc (length l)) s)))"

definition well_formed :: "bytes \<Rightarrow> bool" where
  "well_formed s = well_formed_loop (length s) s"

end
