(* ===== verification/Mime_Props.thy ===== *)
theory Mime_Props
  imports Mime_Out Smtp_Client_Props
begin

text \<open>
  What a receiver reads in a rendered message. The readers of this theory are the reference: lines end in
  CRLF, a header ends where a line does not start with white space, the parts of a multipart body are
  what stands between its delimiter lines, and quoted-printable is decoded as RFC 2045 says.
\<close>

section \<open>Lines\<close>

fun mime_lines :: "string \<Rightarrow> string \<Rightarrow> string list" where
  "mime_lines acc [] = (if acc = [] then [] else [acc])"
| "mime_lines acc [c] = [acc @ [c]]"
| "mime_lines acc (c # d # s) =
     (if c = CHR 0x0D \<and> d = CHR 0x0A then acc # mime_lines [] s else mime_lines (acc @ [c]) (d # s))"

definition lines_text :: "string list \<Rightarrow> string" where
  "lines_text ls = concat (map (\<lambda>l. l @ crlf) ls)"

definition unbroken :: "string \<Rightarrow> bool" where
  "unbroken s \<longleftrightarrow> CHR 0x0D \<notin> set s \<and> CHR 0x0A \<notin> set s"

lemma unbroken_simps [simp]:
  "unbroken []" "unbroken (c # s) \<longleftrightarrow> c \<noteq> CHR 0x0D \<and> c \<noteq> CHR 0x0A \<and> unbroken s"
  "unbroken (s @ t) \<longleftrightarrow> unbroken s \<and> unbroken t"
  by (auto simp: unbroken_def)

lemma lines_text_simps [simp]:
  "lines_text [] = []" "lines_text (l # ls) = l @ crlf @ lines_text ls" "lines_text (ls @ ls') = lines_text ls @ lines_text ls'"
  by (simp_all add: lines_text_def)

lemma mime_lines_one: "unbroken l \<Longrightarrow> mime_lines acc (l @ crlf @ s) = (acc @ l) # mime_lines [] s"
proof (induction l arbitrary: acc)
  case (Cons c l)
  then show ?case by (cases "l @ crlf @ s") (auto simp: crlf_def)
qed (simp add: crlf_def)

lemma mime_lines_text: "\<forall>l \<in> set ls. unbroken l \<Longrightarrow> mime_lines [] (lines_text ls @ s) = ls @ mime_lines [] s"
  by (induction ls) (simp_all add: mime_lines_one)

lemma lines_read_back: "\<forall>l \<in> set ls. unbroken l \<Longrightarrow> mime_lines [] (lines_text ls) = ls"
  using mime_lines_text [of ls "[]"] by simp

section \<open>Quoted-printable\<close>

definition hex_digit :: "char \<Rightarrow> nat" where
  "hex_digit c = (if char_nat c < 58 then char_nat c - 48 else char_nat c - 55)"

fun qp_decode :: "string \<Rightarrow> bytes" where
  "qp_decode (c # d # e # s) =
     (if c = CHR ''='' \<and> d = CHR 0x0D \<and> e = CHR 0x0A then qp_decode s
      else if c = CHR ''='' then word_of_nat (hex_digit d * 16 + hex_digit e) # qp_decode s
      else word_of_nat (char_nat c) # qp_decode (d # e # s))"
| "qp_decode s = text_bytes s"

text \<open>Line ends as the network writes them.\<close>

fun to_crlf :: "bytes \<Rightarrow> bytes" where
  "to_crlf [] = []"
| "to_crlf [b] = (if b = 0x0A then [0x0D, 0x0A] else [b])"
| "to_crlf (b # c # s) =
     (if b = 0x0D \<and> c = 0x0A then 0x0D # 0x0A # to_crlf s
      else if b = 0x0A then 0x0D # 0x0A # to_crlf (c # s) else b # to_crlf (c # s))"

lemma hex_upper_digit: "d < 16 \<Longrightarrow> hex_digit (hex_upper d) = d"
  by (auto simp: hex_upper_def hex_digit_def)

lemma hex_upper_range: "d < 16 \<Longrightarrow> char_nat (hex_upper d) \<in> {48..57} \<union> {65..70}"
  by (auto simp: hex_upper_def)

lemma qp_escape_decode: "qp_decode (qp_escape b @ s) = b # qp_decode s"
proof -
  have d: "unat b div 16 < 16" "unat b mod 16 < 16" using unat_bound [of b] by auto
  have "hex_upper (unat b div 16) \<noteq> CHR 0x0D"
    using hex_upper_range [OF d(1)] by (auto simp: char_nat_def)
  then show ?thesis using d by (simp add: qp_escape_def hex_upper_digit)
qed

lemma qp_plain_decode: "c \<noteq> CHR ''='' \<Longrightarrow> qp_decode (c # s) = word_of_nat (char_nat c) # qp_decode s"
  by (cases s; cases "tl s") auto

lemma word_of_nat_61: "word_of_nat (char_nat (CHR ''='')) = (0x3D :: byte)"
  by (simp add: char_nat_def)

definition qp_plain :: "bool \<Rightarrow> byte \<Rightarrow> bool" where
  "qp_plain at_end b \<longleftrightarrow> ((b = 0x20 \<or> b = 0x09) \<and> \<not> at_end) \<or> (0x21 \<le> b \<and> b \<le> 0x7E \<and> b \<noteq> 0x3D)"

lemma qp_piece_is: "qp_piece e b = (if qp_plain e b then [byte_char b] else qp_escape b)"
  by (simp add: qp_piece_def qp_plain_def)

lemma qp_piece_decode: "qp_decode (qp_piece e b @ s) = b # qp_decode s"
proof (cases "qp_plain e b")
  case True
  have "b \<noteq> 0x3D" using True by (auto simp: qp_plain_def)
  then have "byte_char b \<noteq> CHR ''=''" by (metis text_byte_char word_of_nat_61)
  then show ?thesis using True by (simp add: qp_piece_is qp_plain_decode)
qed (simp add: qp_piece_is qp_escape_decode)

lemma qp_soft_decode: "qp_decode (CHR ''='' # crlf @ s) = qp_decode s"
  by (simp add: crlf_def)

lemma qp_crlf_decode: "qp_decode (crlf @ s) = 0x0D # 0x0A # qp_decode s"
  by (simp add: crlf_def qp_plain_decode char_nat_def)

lemma qp_line_decode: "qp_decode (qp_line col bs @ s) = bs @ qp_decode s"
  by (induction bs arbitrary: col) (simp_all add: Let_def qp_piece_decode qp_soft_decode)

text \<open>The input is read as lines; the last may lack its end.\<close>

lemma split_byte_none: "d \<notin> set s \<Longrightarrow> split_byte d s = [s]"
  by (simp add: split_byte.simps)

lemma split_byte_some:
  assumes "d \<notin> set x"
  shows "split_byte d (x @ d # s) = x # split_byte d s"
proof -
  have "takeWhile (\<lambda>b. b \<noteq> d) (x @ d # s) = x \<and> dropWhile (\<lambda>b. b \<noteq> d) (x @ d # s) = d # s"
    using assms by (induction x) auto
  then show ?thesis by (subst split_byte.simps) simp
qed

lemma split_byte_nonempty: "split_byte d s \<noteq> []"
  by (subst split_byte.simps) simp

lemma qp_lines_cons: "ls \<noteq> [] \<Longrightarrow> qp_lines e (l # ls) = qp_line 0 (strip_cr l) @ crlf @ qp_lines e ls"
  by (cases ls) simp_all

lemma to_crlf_line: "0x0A \<notin> set x \<Longrightarrow> to_crlf (x @ 0x0A # s) = strip_cr x @ 0x0D # 0x0A # to_crlf s"
proof (induction x)
  case (Cons b x)
  show ?case
  proof (cases x)
    case Nil
    then show ?thesis using Cons.prems by (cases s) (auto simp: strip_cr_def)
  next
    case (Cons c y)
    have "to_crlf ((b # x) @ 0x0A # s) = b # to_crlf (x @ 0x0A # s)" using Cons Cons.prems by simp
    moreover have "strip_cr (b # x) = b # strip_cr x" using Cons by (simp add: strip_cr_def)
    ultimately show ?thesis using Cons.IH Cons.prems by simp
  qed
qed (cases s; simp add: strip_cr_def)

lemma to_crlf_rest: "0x0A \<notin> set x \<Longrightarrow> to_crlf x = x"
  by (induction x rule: to_crlf.induct) auto

lemma split_cases:
  obtains "d \<notin> set s" "split_byte d s = [s]"
    | x r where "d \<notin> set x" "s = x @ d # r" "split_byte d s = x # split_byte d r" "length r < length s"
proof (cases "d \<in> set s")
  case True
  then obtain x r where "s = x @ d # r" "d \<notin> set x" by (metis split_list_first)
  then show thesis using that(2) split_byte_some by simp
next
  case False
  then show thesis using that(1) split_byte_none by blast
qed

lemma qp_ended_decode: "qp_decode (qp_lines True (split_byte 0x0A s)) = to_crlf (s @ [0x0A])"
proof (induction s rule: length_induct)
  case (1 s)
  show ?case
  proof (cases rule: split_cases [of "0x0A" s])
    case 1
    then show ?thesis using to_crlf_line [OF 1(1), of "[]"] qp_crlf_decode [of "[]"] by (simp add: qp_line_decode)
  next
    case (2 x r)
    then show ?thesis using 1 to_crlf_line [OF 2(1), of "r @ [0x0A]"]
      by (simp add: qp_lines_cons split_byte_nonempty qp_line_decode qp_crlf_decode)
  qed
qed

lemma qp_open_decode:
  "s = [] \<or> last s \<noteq> 0x0D \<Longrightarrow> qp_decode (qp_lines False (split_byte 0x0A s)) = to_crlf s"
proof (induction s rule: length_induct)
  case (1 s)
  show ?case
  proof (cases rule: split_cases [of "0x0A" s])
    case 1
    then show ?thesis using "1.prems" to_crlf_rest [OF 1(1)] qp_line_decode [of 0 "strip_cr s" "[]"]
      by (auto simp: strip_cr_def)
  next
    case (2 x r)
    have "r = [] \<or> last r \<noteq> 0x0D" using "1.prems" 2(2) by auto
    then have "qp_decode (qp_lines False (split_byte 0x0A r)) = to_crlf r" using "1.IH" 2(4) by blast
    then show ?thesis using 2 to_crlf_line [OF 2(1), of r]
      by (simp add: qp_lines_cons split_byte_nonempty qp_line_decode qp_crlf_decode)
  qed
qed


section \<open>The lines of a text part\<close>

text \<open>A line of the encoded text: printable, short, and no equals sign before an underscore.\<close>

definition no_marker :: "string \<Rightarrow> bool" where
  "no_marker s \<longleftrightarrow> successively (\<lambda>a b. \<not> (a = CHR ''='' \<and> b = CHR ''_'')) s"

definition qp_text :: "string \<Rightarrow> bool" where
  "qp_text l \<longleftrightarrow> list_all (\<lambda>c. (0x20 \<le> char_nat c \<and> char_nat c < 0x7F) \<or> char_nat c = 0x09) l \<and> no_marker l"

lemma qp_text_unbroken: "qp_text l \<Longrightarrow> unbroken l"
  by (auto simp: qp_text_def unbroken_def list_all_iff char_nat_def)

lemma hex_upper_printable: "d < 16 \<Longrightarrow> 0x20 \<le> char_nat (hex_upper d) \<and> char_nat (hex_upper d) < 0x7F
    \<and> hex_upper d \<noteq> CHR ''_'' \<and> hex_upper d \<noteq> CHR ''=''"
  using hex_upper_range [of d] by (auto simp: char_nat_def)

lemma qp_piece_text:
  assumes "qp_text l"
  shows "qp_text (qp_piece e b @ l)"
proof (cases "qp_plain e b")
  case True
  have "b \<noteq> 0x3D" using True by (auto simp: qp_plain_def)
  then have "byte_char b \<noteq> CHR ''=''" by (metis text_byte_char word_of_nat_61)
  moreover have "(0x20 \<le> unat b \<and> unat b < 0x7F) \<or> unat b = 0x09"
    using True by (auto simp: qp_plain_def word_le_nat_alt)
  ultimately show ?thesis using assms True
    by (auto simp: qp_piece_is qp_text_def no_marker_def successively_Cons)
next
  case False
  have d: "unat b div 16 < 16" "unat b mod 16 < 16" using unat_bound [of b] by auto
  then show ?thesis using assms False hex_upper_printable [OF d(1)] hex_upper_printable [OF d(2)]
    by (auto simp: qp_piece_is qp_escape_def qp_text_def no_marker_def successively_Cons char_nat_def)
qed

lemma qp_piece_length: "length (qp_piece e b) \<le> 3" "0 < length (qp_piece e b)"
  by (simp_all add: qp_piece_is qp_escape_def)

lemma qp_line_lines:
  assumes "col \<le> SOFT_LINE - 1"
  shows "\<exists>l ls. qp_line col bs @ crlf = lines_text (l # ls) \<and> (\<forall>x \<in> set (l # ls). qp_text x)
    \<and> col + length l \<le> SOFT_LINE \<and> (\<forall>x \<in> set ls. length x \<le> SOFT_LINE)"
  using assms
proof (induction bs arbitrary: col)
  case Nil
  then show ?case by (intro exI [of _ "[]"]) (simp add: qp_text_def no_marker_def)
next
  case (Cons b bs)
  let ?p = "qp_piece (bs = []) b"
  show ?case
  proof (cases "col + length ?p > SOFT_LINE - 1")
    case True
    have "length ?p \<le> SOFT_LINE - 1" using qp_piece_length(1) [of "bs = []" b] by (simp add: SOFT_LINE_def)
    then obtain l ls where l: "qp_line (length ?p) bs @ crlf = lines_text (l # ls)" "\<forall>x \<in> set (l # ls). qp_text x"
      "length ?p + length l \<le> SOFT_LINE" "\<forall>x \<in> set ls. length x \<le> SOFT_LINE"
      using Cons.IH by metis
    then have "qp_line col (b # bs) @ crlf = lines_text (''='' # (?p @ l) # ls)" using True by (simp add: Let_def)
    moreover have "qp_text ''=''" by (simp add: qp_text_def no_marker_def char_nat_def)
    ultimately show ?thesis using l(2-4) qp_piece_text Cons.prems
      by (intro exI [of _ "''=''"] exI [of _ "(?p @ l) # ls"]) (auto simp: SOFT_LINE_def)
  next
    case False
    then obtain l ls where l: "qp_line (col + length ?p) bs @ crlf = lines_text (l # ls)" "\<forall>x \<in> set (l # ls). qp_text x"
      "col + length ?p + length l \<le> SOFT_LINE" "\<forall>x \<in> set ls. length x \<le> SOFT_LINE"
      using Cons.IH [of "col + length ?p"] by (metis not_less)
    then have "qp_line col (b # bs) @ crlf = lines_text ((?p @ l) # ls)" using False by (simp add: Let_def)
    then show ?thesis using l(2-4) qp_piece_text
      by (intro exI [of _ "?p @ l"] exI [of _ ls]) auto
  qed
qed

text \<open>What is written is lines of this kind.\<close>

definition lined :: "(string \<Rightarrow> bool) \<Rightarrow> string \<Rightarrow> bool" where
  "lined P s \<longleftrightarrow> (\<exists>ls. s = lines_text ls \<and> (\<forall>l \<in> set ls. P l))"

lemma lined_append: "lined P s \<Longrightarrow> lined P t \<Longrightarrow> lined P (s @ t)"
  unfolding lined_def by (metis Un_iff lines_text_simps(3) set_append)

lemma lined_line: "P l \<Longrightarrow> lined P (l @ crlf)"
  unfolding lined_def by (intro exI [of _ "[l]"]) simp

lemma lined_read:
  assumes "lined P s" "\<And>l. P l \<Longrightarrow> unbroken l"
  shows "lines_text (mime_lines [] s) = s" "\<forall>l \<in> set (mime_lines [] s). P l" "\<forall>l \<in> set (mime_lines [] s). unbroken l"
proof -
  obtain ls where ls: "s = lines_text ls" "\<forall>l \<in> set ls. P l" using assms(1) by (auto simp: lined_def)
  then have "mime_lines [] s = ls" using assms(2) by (simp add: lines_read_back)
  then show "lines_text (mime_lines [] s) = s" "\<forall>l \<in> set (mime_lines [] s). P l" "\<forall>l \<in> set (mime_lines [] s). unbroken l"
    using ls assms(2) by simp_all
qed

definition qp_line_ok :: "string \<Rightarrow> bool" where
  "qp_line_ok l \<longleftrightarrow> qp_text l \<and> length l \<le> SOFT_LINE"

lemma qp_line_lined: "lined qp_line_ok (qp_line 0 bs @ crlf)"
proof -
  obtain l ls where "qp_line 0 bs @ crlf = lines_text (l # ls)" "\<forall>x \<in> set (l # ls). qp_text x"
    "length l \<le> SOFT_LINE" "\<forall>x \<in> set ls. length x \<le> SOFT_LINE"
    using qp_line_lines [of 0 bs] by auto
  then show ?thesis unfolding lined_def qp_line_ok_def by (intro exI [of _ "l # ls"]) simp
qed

lemma qp_ended_lined: "ls \<noteq> [] \<Longrightarrow> lined qp_line_ok (qp_lines True ls)"
proof (induction ls)
  case (Cons l ls)
  then show ?case
    using qp_line_lined [of "strip_cr l"] lined_append [OF qp_line_lined [of "strip_cr l"]] by (cases ls) fastforce+
qed simp

lemma qp_open_lined: "ls \<noteq> [] \<Longrightarrow> qp_lines False ls @ crlf = qp_lines True ls"
  by (induction ls rule: induct_list012) simp_all

lemma ends_crlf: "ends_with crlf s \<longleftrightarrow> (\<exists>p. s = p @ crlf)"
proof
  assume "ends_with crlf s"
  then have "take 2 (rev s) = rev crlf" by (simp add: ends_with_def starts_with_def crlf_def numeral_2_eq_2)
  then have "rev s = rev crlf @ drop 2 (rev s)" by (metis append_take_drop_id)
  then have "s = rev (drop 2 (rev s)) @ crlf" by (metis rev_append rev_rev_ident)
  then show "\<exists>p. s = p @ crlf" by blast
qed (auto simp: ends_with_def starts_with_def crlf_def)

lemma lined_drop:
  assumes "lined P (s @ crlf)" "ends_with crlf s" "\<And>l. P l \<Longrightarrow> unbroken l"
  shows "lined P s"
proof -
  obtain ls where ls: "s @ crlf = lines_text ls" "\<forall>l \<in> set ls. P l" using assms(1) by (auto simp: lined_def)
  then have "ls \<noteq> []" by (auto simp: crlf_def)
  then obtain xs l where xl: "ls = xs @ [l]" by (metis rev_exhaust)
  then have s: "s = lines_text xs @ l" using ls(1) by simp
  have "l = []"
  proof (rule ccontr)
    assume l: "l \<noteq> []"
    then have "last l \<noteq> CHR 0x0A" using assms(3) ls(2) xl by (auto simp: unbroken_def) (metis last_in_set)
    moreover have "last s = last l" using l s by simp
    moreover have "last s = CHR 0x0A" using assms(2) unfolding ends_crlf by (auto simp: crlf_def)
    ultimately show False by simp
  qed
  then show ?thesis using s ls(2) xl by (auto simp: lined_def)
qed

lemma qp_line_ok_unbroken: "qp_line_ok l \<Longrightarrow> unbroken l"
  by (simp add: qp_line_ok_def qp_text_unbroken)

lemma text_body_lined:
  "lined qp_line_ok (quoted_printable s @ (if ends_with crlf (quoted_printable s) then [] else crlf))"
proof -
  let ?ls = "split_byte 0x0A (if ends_lf s then butlast s else s)"
  have ne: "?ls \<noteq> []" by (rule split_byte_nonempty)
  have "lined qp_line_ok (quoted_printable s) \<or> lined qp_line_ok (quoted_printable s @ crlf)"
    using qp_ended_lined [OF ne] qp_open_lined [OF ne]
    by (cases "ends_lf s") (simp_all add: quoted_printable_def)
  moreover have "lined qp_line_ok crlf"
    using lined_line [of qp_line_ok "[]"] by (simp add: qp_line_ok_def qp_text_def no_marker_def)
  ultimately show ?thesis
    using lined_append [of qp_line_ok "quoted_printable s" crlf] lined_drop [OF _ _ qp_line_ok_unbroken] by auto
qed

section \<open>Parts\<close>

text \<open>The reference reader: what stands between the delimiter lines.\<close>

fun read_parts :: "string \<Rightarrow> string list \<Rightarrow> string list list" where
  "read_parts b [] = []"
| "read_parts b (l # ls) =
     (if l = ''--'' @ b then takeWhile (\<lambda>x. x \<noteq> ''--'' @ b \<and> x \<noteq> ''--'' @ b @ ''--'') ls # read_parts b ls
      else read_parts b ls)"

definition other_line :: "string \<Rightarrow> string \<Rightarrow> bool" where
  "other_line b l \<longleftrightarrow> unbroken l \<and> l \<noteq> ''--'' @ b \<and> l \<noteq> ''--'' @ b @ ''--''"

lemma read_skips: "\<forall>l \<in> set ls. other_line b l \<Longrightarrow> read_parts b (ls @ r) = read_parts b r"
  by (induction ls) (simp_all add: other_line_def)

lemma read_one:
  assumes "\<forall>l \<in> set ls. other_line b l" "r \<noteq> []" "hd r = ''--'' @ b \<or> hd r = ''--'' @ b @ ''--''"
  shows "read_parts b ((''--'' @ b) # ls @ r) = ls # read_parts b r"
proof -
  have "takeWhile (\<lambda>x. x \<noteq> ''--'' @ b \<and> x \<noteq> ''--'' @ b @ ''--'') (ls @ r) = ls"
    using assms by (induction ls) (auto simp: other_line_def neq_Nil_conv)
  then show ?thesis using read_skips [OF assms(1)] by simp
qed

lemma read_all:
  assumes "\<forall>p \<in> set ps. \<forall>l \<in> set p. other_line b l"
  shows "read_parts b (concat (map (\<lambda>p. (''--'' @ b) # p) ps) @ [''--'' @ b @ ''--'']) = ps"
  using assms
proof (induction ps)
  case (Cons p ps)
  then show ?case
    using read_one [of p b "concat (map (\<lambda>p. (''--'' @ b) # p) ps) @ [''--'' @ b @ ''--'']"]
    by (cases ps) simp_all
qed simp

text \<open>Parts that are lines, in the order written.\<close>

lemma written_lines:
  "(\<And>p. p \<in> set ps \<Longrightarrow> lines_text (mime_lines [] p) = p) \<Longrightarrow>
    concat (map (\<lambda>p. ''--'' @ b @ crlf @ p) ps) = lines_text (concat (map (\<lambda>p. (''--'' @ b) # mime_lines [] p) ps))"
  by (induction ps) simp_all

lemma read_written:
  assumes "\<forall>p \<in> set ps. lined (other_line b) p" "unbroken b" "\<forall>l \<in> set h. other_line b l"
  shows "read_parts b (mime_lines [] (lines_text h @ concat (map (\<lambda>p. ''--'' @ b @ crlf @ p) ps) @ ''--'' @ b @ ''--'' @ crlf))
    = map (mime_lines []) ps"
proof -
  have ub: "other_line b l \<Longrightarrow> unbroken l" for l by (simp add: other_line_def)
  have p: "lines_text (mime_lines [] p) = p \<and> (\<forall>l \<in> set (mime_lines [] p). other_line b l)" if "p \<in> set ps" for p
    using lined_read [OF bspec [OF assms(1) that] ub] by simp
  have "concat (map (\<lambda>p. ''--'' @ b @ crlf @ p) ps)
      = lines_text (concat (map (\<lambda>p. (''--'' @ b) # mime_lines [] p) ps))"
    by (rule written_lines) (use p in blast)
  then have all: "lines_text h @ concat (map (\<lambda>p. ''--'' @ b @ crlf @ p) ps) @ ''--'' @ b @ ''--'' @ crlf
      = lines_text (h @ concat (map (\<lambda>p. (''--'' @ b) # mime_lines [] p) ps) @ [''--'' @ b @ ''--''])"
    by simp
  have "\<forall>l \<in> set (h @ concat (map (\<lambda>p. (''--'' @ b) # mime_lines [] p) ps) @ [''--'' @ b @ ''--'']). unbroken l"
    using p assms(2,3) ub by auto
  note this [THEN lines_read_back]
  moreover have "concat (map (\<lambda>p. (''--'' @ b) # mime_lines [] p) ps)
      = concat (map (\<lambda>p. (''--'' @ b) # p) (map (mime_lines []) ps))" by (simp add: comp_def)
  ultimately show ?thesis
    using read_skips [OF assms(3)] read_all [of "map (mime_lines []) ps" b] p unfolding all by auto
qed

text \<open>Lines that are no delimiter, whatever its boundary is.\<close>

definition inner_line :: "string \<Rightarrow> bool" where
  "inner_line l \<longleftrightarrow> unbroken l \<and> \<not> starts_with ''--=_'' l"

lemma inner_other: "inner_line l \<Longrightarrow> starts_with ''=_'' b \<Longrightarrow> other_line b l"
  by (auto simp: inner_line_def other_line_def starts_with_def)

lemma qp_inner: "qp_line_ok l \<Longrightarrow> inner_line l"
proof -
  assume l: "qp_line_ok l"
  have "\<not> starts_with ''--=_'' l"
  proof
    assume "starts_with ''--=_'' l"
    then have "take (length ''--=_'') l = ''--=_''" unfolding starts_with_def .
    then have "l = ''--=_'' @ drop (length ''--=_'') l" by (metis append_take_drop_id)
    moreover have "\<not> no_marker (''--=_'' @ x)" for x by (simp add: no_marker_def)
    ultimately show False using l unfolding qp_line_ok_def qp_text_def by metis
  qed
  then show ?thesis using qp_line_ok_unbroken [OF l] by (simp add: inner_line_def)
qed

lemma lined_mono: "lined P s \<Longrightarrow> (\<And>l. P l \<Longrightarrow> Q l) \<Longrightarrow> lined Q s"
  unfolding lined_def by blast

lemma text_part_lined: "unbroken mime \<Longrightarrow> lined inner_line (text_part mime body)"
proof -
  assume m: "unbroken mime"
  have h: "lined inner_line ((''Content-Type: '' @ mime @ ''; charset=utf-8'') @ crlf)"
    "lined inner_line (''Content-Transfer-Encoding: quoted-printable'' @ crlf)" "lined inner_line ([] @ crlf)"
    using m by (intro lined_line; simp add: inner_line_def starts_with_def)+
  have "lined inner_line (quoted_printable (text_bytes body)
      @ (if ends_with crlf (quoted_printable (text_bytes body)) then [] else crlf))"
    using text_body_lined qp_inner by (rule lined_mono)
  note lined_append [OF h(1) lined_append [OF h(2) lined_append [OF h(3) this]]]
  then show ?thesis by (simp add: text_part_def Let_def)
qed

text \<open>The alphabet of base64.\<close>

definition b64_char :: "char \<Rightarrow> bool" where
  "b64_char c \<longleftrightarrow> is_ascii_alnum c \<or> c \<in> set ''+/=''"

definition codecs_ok :: "mime_env \<Rightarrow> bool" where
  "codecs_ok me \<longleftrightarrow> (\<forall>bs. list_all b64_char (me_b64 me bs) \<and> list_all is_ascii_alnum (me_hex me bs))"

lemma alnum_unbroken: "list_all is_ascii_alnum s \<Longrightarrow> unbroken s"
  by (auto simp: list_all_iff unbroken_def is_ascii_alnum_def is_ascii_digit_def is_ascii_upper_def is_ascii_lower_def char_nat_def)

lemma b64_unbroken: "list_all b64_char s \<Longrightarrow> unbroken s"
  by (auto simp: list_all_iff unbroken_def b64_char_def is_ascii_alnum_def is_ascii_digit_def is_ascii_upper_def is_ascii_lower_def char_nat_def)

lemma b64_inner: "list_all b64_char s \<Longrightarrow> inner_line s"
  by (auto simp: inner_line_def b64_unbroken)
    (cases s; auto simp: starts_with_def b64_char_def is_ascii_alnum_def is_ascii_digit_def is_ascii_upper_def is_ascii_lower_def char_nat_def)

lemma fold_lines_lined: "list_all b64_char s \<Longrightarrow> lined inner_line (fold_lines s)"
proof (induction s rule: fold_lines.induct)
  case (1 s)
  show ?case
  proof (cases "s = []")
    case True
    then show ?thesis by (auto simp: fold_lines.simps lined_def intro: exI [of _ "[]"])
  next
    case False
    have "list_all b64_char (take SOFT_LINE s)" "list_all b64_char (drop SOFT_LINE s)"
      using 1(2) by (auto simp: list_all_iff dest: in_set_takeD in_set_dropD)
    note lined_append [OF lined_line [of inner_line, OF b64_inner [OF this(1)]] 1(1) [OF False this(2)]]
    then show ?thesis using False by (simp add: fold_lines.simps)
  qed
qed

lemma escape_unbroken: "list_all (\<lambda>c. 0x20 \<le> char_nat c \<and> char_nat c < 0x7F) s \<Longrightarrow> unbroken (escape_quoted s)"
  by (auto simp: escape_quoted_def unbroken_def list_all_iff char_nat_def split: if_splits)

lemma percent_unbroken: "unbroken (concat (map percent bs))"
proof -
  have "unbroken (percent b)" for b
  proof -
    have "unat b div 16 < 16" "unat b mod 16 < 16" using unat_bound [of b] by auto
    then show ?thesis using hex_upper_printable [of "unat b div 16"] hex_upper_printable [of "unat b mod 16"]
      by (auto simp: percent_def attr_char_def is_ascii_alnum_def is_ascii_digit_def is_ascii_upper_def is_ascii_lower_def char_nat_def)
  qed
  then show ?thesis by (induction bs) simp_all
qed

lemma param_unbroken: "unbroken name \<Longrightarrow> unbroken (mime_param name v)"
  by (simp add: mime_param_def escape_unbroken percent_unbroken)

definition attachment_ok :: "out_attachment \<Rightarrow> bool" where
  "attachment_ok a \<longleftrightarrow> unbroken (oa_mime a) \<and> unbroken (oa_content_id a)"

lemma attachment_lined:
  assumes "codecs_ok me" "attachment_ok a"
  shows "lined inner_line (attachment_part me a)"
proof -
  have inner: "inner_line (''Content-'' @ s)" if "unbroken s" for s
    using that by (simp add: inner_line_def starts_with_def)
  have n: "unbroken (mime_param ''name'' (oa_name a))" "unbroken (mime_param ''filename'' (oa_name a))"
    by (simp_all add: param_unbroken)
  let ?type = "''Content-'' @ ''Type: '' @ (if oa_mime a = [] then ''application/octet-stream'' else oa_mime a) @ ''; ''
     @ mime_param ''name'' (oa_name a)"
  let ?disp = "''Content-'' @ ''Disposition: '' @ (if oa_content_id a = [] then ''attachment'' else ''inline'') @ ''; ''
     @ mime_param ''filename'' (oa_name a)"
  let ?cid = "if oa_content_id a = [] then [] else ''Content-ID: <'' @ oa_content_id a @ ''>'' @ crlf"
  have h: "lined inner_line (?type @ crlf)" "lined inner_line (?disp @ crlf)"
    by (rule lined_line, rule inner, use n assms(2) in \<open>simp add: attachment_ok_def\<close>)+
  have "lined inner_line ((''Content-'' @ ''ID: <'' @ oa_content_id a @ ''>'') @ crlf)"
    by (rule lined_line, rule inner) (use assms(2) in \<open>simp add: attachment_ok_def\<close>)
  then have c: "lined inner_line ?cid" by (auto simp: lined_def intro: exI [of _ "[]"])
  have e: "lined inner_line ((''Content-'' @ ''Transfer-Encoding: base64'') @ crlf)" "lined inner_line ([] @ crlf)"
    by (rule lined_line, rule inner, simp) (rule lined_line, simp add: inner_line_def starts_with_def)
  have "lined inner_line (base64_folded (me_b64 me) (oa_data a))"
    using assms(1) fold_lines_lined by (simp add: base64_folded_def codecs_ok_def)
  note lined_append [OF h(1) lined_append [OF h(2) lined_append [OF c lined_append [OF e(1) lined_append [OF e(2) this]]]]]
  then show ?thesis by (simp add: attachment_part_def)
qed

lemma boundary_ok:
  assumes "codecs_ok me" "unbroken tag"
  shows "starts_with ''=_'' (boundary me seed tag)" "unbroken (boundary me seed tag)"
  using assms by (simp_all add: boundary_def starts_with_def codecs_ok_def alnum_unbroken)

lemma head_other: "unbroken b \<Longrightarrow> unbroken kind \<Longrightarrow> \<forall>l \<in> set [''Content-Type: '' @ multipart_value kind b, []]. other_line d l"
  by (simp add: other_line_def multipart_value_def)

lemma alternative_reads:
  assumes "codecs_ok me"
  shows "read_parts (boundary me seed ''alt'') (mime_lines [] (alternative_part me seed m))
    = map (mime_lines []) [text_part ''text/plain'' (om_body_text m), text_part ''text/html'' (om_body_html m)]"
proof -
  let ?b = "boundary me seed ''alt''"
  let ?ps = "[text_part ''text/plain'' (om_body_text m), text_part ''text/html'' (om_body_html m)]"
  have b: "starts_with ''=_'' ?b" "unbroken ?b" using boundary_ok [OF assms, of "''alt''"] by simp_all
  have ps: "\<forall>p \<in> set ?ps. lined (other_line ?b) p"
    using lined_mono [OF text_part_lined inner_other [OF _ b(1)]] by simp
  have "alternative_part me seed m = lines_text [''Content-Type: '' @ multipart_value ''multipart/alternative'' ?b, []]
      @ concat (map (\<lambda>p. ''--'' @ ?b @ crlf @ p) ?ps) @ ''--'' @ ?b @ ''--'' @ crlf"
    by (simp add: alternative_part_def alternative_body_def Let_def)
  then show ?thesis
    using read_written [OF ps b(2) head_other [OF b(2), of "''multipart/alternative''" ?b]] by simp
qed

lemma alternative_lined:
  assumes "codecs_ok me"
  shows "lined (other_line (boundary me seed ''mix'')) (alternative_part me seed m)"
proof -
  let ?b = "boundary me seed ''alt''" and ?d = "boundary me seed ''mix''"
  have b: "unbroken ?b" "starts_with ''=_'' ?d"
    using boundary_ok [OF assms, of "''alt''"] boundary_ok [OF assms, of "''mix''"] by simp_all
  have d: "other_line ?d (''--'' @ ?b)" "other_line ?d (''--'' @ ?b @ ''--'')"
    using b(1) by (simp_all add: other_line_def boundary_def)
  have t: "lined (other_line ?d) (text_part mime body)" if "unbroken mime" for mime body
    using lined_mono [OF text_part_lined [OF that] inner_other [OF _ b(2)]] .
  have h: "lined (other_line ?d) ((''Content-Type: '' @ multipart_value ''multipart/alternative'' ?b) @ crlf)"
    "lined (other_line ?d) ([] @ crlf)"
    by (rule lined_line, use head_other [OF b(1), of "''multipart/alternative''" ?d] in simp)+
  have "lined (other_line ?d) (((''--'' @ ?b) @ crlf) @ text_part ''text/plain'' (om_body_text m)
      @ ((''--'' @ ?b) @ crlf) @ text_part ''text/html'' (om_body_html m) @ ((''--'' @ ?b @ ''--'') @ crlf))"
    by (rule lined_append, rule lined_line, rule d, rule lined_append, rule t, simp, rule lined_append,
        rule lined_line, rule d, rule lined_append, rule t, simp, rule lined_line, rule d)
  note lined_append [OF h(1) lined_append [OF h(2) this]]
  then show ?thesis by (simp add: alternative_part_def alternative_body_def Let_def)
qed


section \<open>The header block\<close>

text \<open>The reference reader of header names: lines to the first empty one; white space continues a line.\<close>

definition read_header_names :: "string list \<Rightarrow> string list" where
  "read_header_names ls = map (takeWhile (\<lambda>c. c \<noteq> CHR '':''))
     (filter (\<lambda>l. hd l \<noteq> CHR '' '' \<and> hd l \<noteq> CHR 0x09) (takeWhile (\<lambda>l. l \<noteq> []) ls))"

text \<open>A value that is one line, or more with the later ones indented.\<close>

definition folded :: "string \<Rightarrow> bool" where
  "folded v \<longleftrightarrow> (\<exists>w ws. v @ crlf = lines_text (w # map (Cons (CHR '' '')) ws) \<and> unbroken w \<and> (\<forall>x \<in> set ws. unbroken x))"

lemma folded_plain: "unbroken v \<Longrightarrow> folded v"
  unfolding folded_def by (intro exI [of _ v] exI [of _ "[]"]) simp

lemma folded_before: "unbroken u \<Longrightarrow> folded v \<Longrightarrow> folded (u @ v)"
proof -
  assume u: "unbroken u" and "folded v"
  then obtain w ws where "v @ crlf = lines_text (w # map (Cons (CHR '' '')) ws)" "unbroken w" "\<forall>x \<in> set ws. unbroken x"
    by (auto simp: folded_def)
  then show ?thesis using u unfolding folded_def by (intro exI [of _ "u @ w"] exI [of _ ws]) simp
qed

lemma folded_join: "folded u \<Longrightarrow> folded v \<Longrightarrow> folded (u @ crlf @ '' '' @ v)"
proof -
  assume "folded u" "folded v"
  then obtain w ws y ys where u: "u @ crlf = lines_text (w # map (Cons (CHR '' '')) ws)" "unbroken w" "\<forall>x \<in> set ws. unbroken x"
    and v: "v @ crlf = lines_text (y # map (Cons (CHR '' '')) ys)" "unbroken y" "\<forall>x \<in> set ys. unbroken x"
    by (auto simp: folded_def)
  have "(u @ crlf @ '' '' @ v) @ crlf = (u @ crlf) @ '' '' @ (v @ crlf)" by simp
  also have "\<dots> = lines_text (w # map (Cons (CHR '' '')) (ws @ y # ys))" unfolding u(1) v(1) by simp
  finally show ?thesis using u v unfolding folded_def by (intro exI [of _ w] exI [of _ "ws @ y # ys"]) auto
qed

lemma folded_after: "folded v \<Longrightarrow> unbroken u \<Longrightarrow> folded (v @ u)"
proof -
  assume "folded v" and u: "unbroken u"
  then obtain w ws where v: "v @ crlf = lines_text (w # map (Cons (CHR '' '')) ws)" "unbroken w" "\<forall>x \<in> set ws. unbroken x"
    by (auto simp: folded_def)
  show ?thesis
  proof (cases ws rule: rev_cases)
    case Nil
    then have "v = w" using v(1) by simp
    then show ?thesis using v(2) u by (simp add: folded_plain)
  next
    case (snoc xs x)
    then have "v = lines_text (w # map (Cons (CHR '' '')) xs) @ '' '' @ x" using v(1) by simp
    then have "(v @ u) @ crlf = lines_text (w # map (Cons (CHR '' '')) (xs @ [x @ u]))" by simp
    then show ?thesis using v snoc u unfolding folded_def by (intro exI [of _ w] exI [of _ "xs @ [x @ u]"]) auto
  qed
qed

lemma folded_list: "\<forall>v \<in> set vs. folded v \<Longrightarrow> folded (join_with (crlf @ '' '') vs)"
proof (induction vs rule: induct_list012)
  case (3 x y zs)
  then show ?case using folded_join [of x "join_with (crlf @ '' '') (y # zs)"] by simp
qed (simp_all add: folded_plain)

lemma folded_list_comma: "\<forall>v \<in> set vs. folded v \<Longrightarrow> folded (join_with ('','' @ crlf @ '' '') vs)"
proof (induction vs rule: induct_list012)
  case (3 x y zs)
  then have "folded (x @ '','')" by (simp add: folded_after)
  then show ?case using 3 folded_join by fastforce
qed (simp_all add: folded_plain)

lemma safe_unbroken: "is_ascii_header_safe s \<Longrightarrow> unbroken s"
  by (auto simp: is_ascii_header_safe_def header_char_def unbroken_def list_all_iff char_nat_def)

lemma value_folded: "\<forall>bs. list_all b64_char (b64 bs) \<Longrightarrow> folded (encode_header_value b64 s)"
proof -
  assume b: "\<forall>bs. list_all b64_char (b64 bs)"
  then have "folded (encoded_word b64 w)" for w by (simp add: encoded_word_def folded_plain b64_unbroken)
  then show ?thesis by (simp add: encode_header_value_def folded_plain safe_unbroken folded_list)
qed

lemma trim_safe: "is_ascii_header_safe s \<Longrightarrow> unbroken (escape_quoted s)"
  by (auto simp: is_ascii_header_safe_def header_char_def escape_quoted_def unbroken_def list_all_iff char_nat_def split: if_splits)

lemma mailbox_folded:
  assumes "\<forall>bs. list_all b64_char (b64 bs)" "unbroken a"
  shows "folded (format_mailbox b64 n a)"
proof -
  have "folded (encode_display_name b64 n)"
    by (simp add: encode_display_name_def Let_def folded_plain value_folded [OF assms(1)] trim_safe)
  then show ?thesis using assms(2) folded_after [of "encode_display_name b64 n" "'' <'' @ a @ ''>''"]
    by (auto simp: format_mailbox_def Let_def folded_plain)
qed

lemma digits_unbroken: "unbroken (dec_string n)"
proof -
  have "CHR 0x0D \<notin> set (dec_string n)" "CHR 0x0A \<notin> set (dec_string n)"
    by (rule dec_string_not; simp add: is_ascii_digit_def char_nat_def)+
  then show ?thesis by (simp add: unbroken_def)
qed

lemma date_unbroken: "unbroken (rfc5322_date t)"
proof -
  have n: "unbroken (get_or_else x xs n)" if "unbroken x" "\<forall>y \<in> set xs. unbroken y" for x xs n
    using that by (simp add: get_or_else_def)
  have "unbroken (get_or_else ''Thu'' WEEK_DAYS n)" "unbroken (get_or_else ''Jan'' MONTH_NAMES n)" for n
    by (rule n; simp add: WEEK_DAYS_def MONTH_NAMES_def)+
  moreover have "unbroken (two_digits n)" for n by (simp add: two_digits_def digits_unbroken)
  ultimately show ?thesis
    unfolding rfc5322_date_def Let_def case_prod_unfold by (simp only: unbroken_simps digits_unbroken) simp
qed

text \<open>What the caller must see to: addresses and message ids without line breaks.\<close>

definition outbound_ok :: "outbound_mail \<Rightarrow> bool" where
  "outbound_ok m \<longleftrightarrow> unbroken (ob_addr (om_from m)) \<and> (\<forall>b \<in> set (om_to m @ om_cc m). unbroken (ob_addr b))
     \<and> (\<forall>b. om_reply_to m = Some b \<longrightarrow> unbroken (ob_addr b)) \<and> unbroken (om_message_id m)
     \<and> (\<forall>i. om_in_reply_to m = Some i \<longrightarrow> unbroken i) \<and> (\<forall>r \<in> set (om_references m). unbroken r)"

definition plain_name :: "string \<Rightarrow> bool" where
  "plain_name k \<longleftrightarrow> k \<noteq> [] \<and> unbroken k \<and> CHR '':'' \<notin> set k \<and> hd k \<noteq> CHR '' '' \<and> hd k \<noteq> CHR 0x09"

lemma token_plain: "header_token k \<Longrightarrow> plain_name k"
proof -
  assume k: "header_token k"
  then have "unbroken k" by (auto simp: header_token_def unbroken_def list_all_iff is_ascii_alnum_def is_ascii_digit_def
        is_ascii_upper_def is_ascii_lower_def char_nat_def)
  moreover have "CHR '':'' \<notin> set k" using k by (auto simp: header_token_def list_all_iff is_ascii_alnum_def is_ascii_digit_def
        is_ascii_upper_def is_ascii_lower_def char_nat_def)
  moreover have "hd k \<noteq> CHR '' ''" "hd k \<noteq> CHR 0x09" using k by (cases k; auto simp: header_token_def is_ascii_alnum_def is_ascii_digit_def
        is_ascii_upper_def is_ascii_lower_def char_nat_def)+
  ultimately show ?thesis using k by (simp add: plain_name_def header_token_def)
qed

lemma plain_names:
  "list_all plain_name [''From'', ''To'', ''Cc'', ''Reply-To'', ''Subject'', ''Date'', ''Message-ID'', ''In-Reply-To'',
    ''References'', ''Importance'', ''X-Priority'', ''MIME-Version'', ''Content-Type'', ''Content-Transfer-Encoding'']"
  by (simp add: plain_name_def)

definition header_ok :: "string \<times> string \<Rightarrow> bool" where
  "header_ok h \<longleftrightarrow> plain_name (fst h) \<and> folded (snd h)"

lemma top_headers_ok:
  assumes "codecs_ok me" "outbound_ok m"
  shows "\<forall>h \<in> set (top_headers me m). header_ok h"
proof -
  have b: "\<forall>bs. list_all b64_char (me_b64 me bs)" using assms(1) by (simp add: codecs_ok_def)
  have l: "folded (mailbox_list me xs)" if "\<forall>x \<in> set xs. unbroken (ob_addr x)" for xs
    unfolding mailbox_list_def by (rule folded_list_comma) (use that mailbox_folded [OF b] in auto)
  have ids: "folded (fold_ids (om_references m))"
    unfolding fold_ids_def by (rule folded_list) (use assms(2) folded_plain in \<open>auto simp: outbound_ok_def\<close>)
  note names = plain_names [unfolded list.pred_inject]
  have "list_all header_ok (map (\<lambda>(k, v). (k, encode_header_value (me_b64 me) v)) (filter (\<lambda>(k, v). header_token k) (om_extra_headers m)))"
    by (auto simp: list_all_iff header_ok_def token_plain value_folded [OF b])
  moreover have "list_all header_ok [(''From'', format_mailbox (me_b64 me) (ob_name (om_from m)) (ob_addr (om_from m))),
      (''To'', mailbox_list me (om_to m)), (''Cc'', mailbox_list me (om_cc m))]"
    using assms(2) names l mailbox_folded [OF b] by (simp add: header_ok_def outbound_ok_def)
  moreover have "list_all header_ok (case om_reply_to m of None \<Rightarrow> [] | Some r \<Rightarrow>
      [(''Reply-To'', format_mailbox (me_b64 me) (ob_name r) (ob_addr r))])"
    using assms(2) names mailbox_folded [OF b] by (simp add: header_ok_def outbound_ok_def split: option.split)
  moreover have "list_all header_ok [(''Subject'', encode_header_value (me_b64 me) (om_subject m)),
      (''Date'', rfc5322_date (om_date_ms m)), (''Message-ID'', om_message_id m)]"
    using assms(2) names value_folded [OF b] by (simp add: header_ok_def outbound_ok_def folded_plain date_unbroken)
  moreover have "list_all header_ok (case om_in_reply_to m of None \<Rightarrow> [] | Some i \<Rightarrow> [(''In-Reply-To'', i)])"
    using assms(2) names by (simp add: header_ok_def outbound_ok_def folded_plain split: option.split)
  moreover have "list_all header_ok (if om_references m = [] then [] else [(''References'', fold_ids (om_references m))])"
    using names ids by (simp add: header_ok_def)
  moreover have "list_all header_ok (importance_headers (om_importance m))"
    using names by (simp add: header_ok_def importance_headers_def folded_plain)
  moreover have "list_all header_ok [(''MIME-Version'', ''1.0'')]"
    using names by (simp add: header_ok_def folded_plain)
  ultimately show ?thesis
    unfolding top_headers_def some_headers_def list_all_iff set_filter set_append by blast
qed

text \<open>The lines of a header block, and its names as the reader finds them.\<close>

lemma names_of_headers:
  assumes "\<forall>h \<in> set hs. header_ok h"
  shows "\<exists>ls. concat (map header_line hs) = lines_text ls \<and> (\<forall>l \<in> set ls. unbroken l \<and> l \<noteq> [])
    \<and> map (takeWhile (\<lambda>c. c \<noteq> CHR '':'')) (filter (\<lambda>l. hd l \<noteq> CHR '' '' \<and> hd l \<noteq> CHR 0x09) ls) = map fst hs"
  using assms
proof (induction hs)
  case Nil
  then show ?case by (intro exI [of _ "[]"]) simp
next
  case (Cons h hs)
  obtain ls where ls: "concat (map header_line hs) = lines_text ls" "\<forall>l \<in> set ls. unbroken l \<and> l \<noteq> []"
    "map (takeWhile (\<lambda>c. c \<noteq> CHR '':'')) (filter (\<lambda>l. hd l \<noteq> CHR '' '' \<and> hd l \<noteq> CHR 0x09) ls) = map fst hs"
    using Cons by auto
  have h: "plain_name (fst h)" "folded (snd h)" using Cons.prems by (simp_all add: header_ok_def)
  obtain w ws where v: "snd h @ crlf = lines_text (w # map (Cons (CHR '' '')) ws)" "unbroken w" "\<forall>x \<in> set ws. unbroken x"
    using h(2) by (auto simp: folded_def)
  let ?ls = "(fst h @ '': '' @ w) # map (Cons (CHR '' '')) ws @ ls"
  have "concat (map header_line (h # hs)) = lines_text ?ls"
    using v(1) ls(1) by (simp add: header_line_def)
  moreover have "\<forall>l \<in> set ?ls. unbroken l \<and> l \<noteq> []" using h(1) v(2,3) ls(2) by (auto simp: plain_name_def)
  moreover have "hd (fst h @ '': '' @ w) = hd (fst h)" using h(1) by (simp add: plain_name_def)
  moreover have "takeWhile (\<lambda>c. c \<noteq> CHR '':'') (fst h @ '': '' @ w) = fst h"
  proof -
    have "\<forall>c \<in> set (fst h). c \<noteq> CHR '':''" using h(1) by (auto simp: plain_name_def)
    then show ?thesis by (simp add: takeWhile_append2)
  qed
  moreover have "filter (\<lambda>l. hd l \<noteq> CHR '' '' \<and> hd l \<noteq> CHR 0x09) (map (Cons (CHR '' '')) ws) = []" by simp
  ultimately show ?case using h(1) ls(3) by (intro exI [of _ ?ls]) (simp add: plain_name_def)
qed

text \<open>What the content starts with.\<close>

definition content_names :: "outbound_mail \<Rightarrow> string list" where
  "content_names m = (if om_attachments m = [] \<and> om_body_html m = []
     then [''Content-Type'', ''Content-Transfer-Encoding''] else [''Content-Type''])"

lemma content_texts:
  "\<exists>rest. mixed_part me seed m = (''Content-Type: '' @ multipart_value ''multipart/mixed'' (boundary me seed ''mix'')) @ crlf @ crlf @ rest"
  "\<exists>rest. alternative_part me seed m = (''Content-Type: '' @ multipart_value ''multipart/alternative'' (boundary me seed ''alt'')) @ crlf @ crlf @ rest"
  "\<exists>rest. text_part mime s = (''Content-Type: '' @ mime @ ''; charset=utf-8'') @ crlf
      @ ''Content-Transfer-Encoding: quoted-printable'' @ crlf @ crlf @ rest"
  unfolding mixed_part_def alternative_part_def text_part_def Let_def append_assoc by (rule exI, rule refl)+

lemma content_starts:
  assumes "codecs_ok me"
  shows "\<exists>ls rest. content_part me seed m = lines_text (ls @ [[]]) @ rest \<and> (\<forall>l \<in> set ls. unbroken l \<and> l \<noteq> [])
    \<and> map (takeWhile (\<lambda>c. c \<noteq> CHR '':'')) (filter (\<lambda>l. hd l \<noteq> CHR '' '' \<and> hd l \<noteq> CHR 0x09) ls) = content_names m"
proof -
  let ?ok = "\<lambda>ls. (\<forall>l \<in> set ls. unbroken l \<and> l \<noteq> [])
    \<and> map (takeWhile (\<lambda>c. c \<noteq> CHR '':'')) (filter (\<lambda>l. hd l \<noteq> CHR '' '' \<and> hd l \<noteq> CHR 0x09) ls) = content_names m"
  have bd: "unbroken (boundary me seed ''mix'')" "unbroken (boundary me seed ''alt'')"
    using boundary_ok(2) [OF assms, of "''mix''"] boundary_ok(2) [OF assms, of "''alt''"] by simp_all
  consider (mix) "om_attachments m \<noteq> []" | (alt) "om_attachments m = []" "om_body_html m \<noteq> []"
    | (plain) "om_attachments m = []" "om_body_html m = []" by blast
  then show ?thesis
  proof cases
    case mix
    let ?l = "''Content-Type: '' @ multipart_value ''multipart/mixed'' (boundary me seed ''mix'')"
    obtain rest where "mixed_part me seed m = ?l @ crlf @ crlf @ rest" using content_texts(1) by blast
    then have "content_part me seed m = lines_text ([?l] @ [[]]) @ rest" using mix by (simp add: content_part_def)
    moreover have "?ok [?l]" using bd mix by (simp add: multipart_value_def content_names_def)
    ultimately show ?thesis by blast
  next
    case alt
    let ?l = "''Content-Type: '' @ multipart_value ''multipart/alternative'' (boundary me seed ''alt'')"
    obtain rest where "alternative_part me seed m = ?l @ crlf @ crlf @ rest" using content_texts(2) by blast
    then have "content_part me seed m = lines_text ([?l] @ [[]]) @ rest" using alt by (simp add: content_part_def)
    moreover have "?ok [?l]" using bd alt by (simp add: multipart_value_def content_names_def)
    ultimately show ?thesis by blast
  next
    case plain
    let ?ls = "[''Content-Type: '' @ ''text/plain'' @ ''; charset=utf-8'', ''Content-Transfer-Encoding: quoted-printable'']"
    obtain rest where "text_part ''text/plain'' (om_body_text m) = (''Content-Type: '' @ ''text/plain'' @ ''; charset=utf-8'') @ crlf
      @ ''Content-Transfer-Encoding: quoted-printable'' @ crlf @ crlf @ rest" using content_texts(3) by blast
    then have "content_part me seed m = lines_text (?ls @ [[]]) @ rest" using plain by (simp add: content_part_def)
    moreover have "?ok ?ls" using plain by (simp add: content_names_def)
    ultimately show ?thesis by blast
  qed
qed


section \<open>At concrete inputs\<close>

definition wit_codecs :: mime_env where
  "wit_codecs = \<lparr>me_b64 = (\<lambda>bs. map (\<lambda>_. CHR ''A'') bs), me_hex = plain_hex, me_blake3 = (\<lambda>bs. replicate 32 7)\<rparr>"

definition wit_out :: "string option \<Rightarrow> outbound_mail" where
  "wit_out irt = \<lparr>om_from = \<lparr>ob_name = ''Al'', ob_addr = ''al@h.io''\<rparr>, om_to = [\<lparr>ob_name = [], ob_addr = ''bo@e.com''\<rparr>],
     om_cc = [], om_reply_to = None, om_subject = [CHR 0x0D, CHR 0x0A, CHR 0x42], om_date_ms = 0, om_message_id = ''<1@h.io>'',
     om_in_reply_to = irt, om_references = [], om_body_text = ''hi'', om_body_html = [], om_attachments = [],
     om_importance = 0, om_extra_headers = []\<rparr>"

lemma wit_codecs_ok: "codecs_ok wit_codecs"
proof -
  have "list_all is_ascii_alnum (plain_hex bs)" for bs using plain_hex_ok by (simp add: hex_ok_def)
  then show ?thesis
    by (simp add: codecs_ok_def wit_codecs_def list_all_iff b64_char_def is_ascii_alnum_def is_ascii_upper_def char_nat_def)
qed


text \<open>The condition on message ids is needed.\<close>

lemma in_reply_to_can_inject:
  "''Bcc'' \<in> set (read_header_names (mime_lines [] (byte_text (rd_bytes (mail_render wit_codecs [1]
      (wit_out (Some (''<1>'' @ crlf @ ''Bcc: x'')))))))) "
  by code_simp



end
