(* ===== verification/Mail_Client.thy ===== *)
theory Mail_Client
  imports Rust_Text Spam
begin

text \<open>
  The mailbox of a device (\<open>hashgram-sdk/src/mail.rs\<close>): the stored messages with their local state,
  the indexes over them, arrival through the spam policy, sending, flags and their hints for the
  user's other devices. The store of the device is an ordered map per namespace; its seal, its
  serialisation and its errors are left out. The network, the chain and the clock are fields of
  \<open>sdk_env\<close> over a world of any type. Log lines are left out.
\<close>

section \<open>Folders and records\<close>

definition INBOX :: string where "INBOX = ''inbox''"
definition SENT :: string where "SENT = ''sent''"
definition DRAFTS :: string where "DRAFTS = ''drafts''"
definition ARCHIVE :: string where "ARCHIVE = ''archive''"
definition TRASH :: string where "TRASH = ''trash''"
definition SPAM :: string where "SPAM = ''spam''"
definition REQUESTS :: string where "REQUESTS = ''requests''"

definition ALL_FOLDERS :: "string list" where
  "ALL_FOLDERS = [INBOX, SENT, DRAFTS, ARCHIVE, TRASH, SPAM, REQUESTS]"

definition MAX_STAMPS_PER_MESSAGE :: nat where "MAX_STAMPS_PER_MESSAGE = 8"

record mail_record =
  mr_message :: mail_message
  mr_folder :: string
  mr_read :: bool
  mr_starred :: bool
  mr_labels :: "string list"
  mr_received_at_ms :: u64
  mr_sender :: string
  mr_group_id :: string
  mr_delivered_to :: "(string \<times> u64) list"
  mr_read_by :: "(string \<times> u64) list"
  mr_outgoing :: bool
  mr_trust_score :: int

record mail_summary =
  su_id :: string
  su_thread_id :: string
  su_folder :: string
  su_from :: string
  su_from_username :: string
  su_to :: "string list"
  su_subject :: string
  su_preview :: string
  su_created_at_ms :: u64
  su_received_at_ms :: u64
  su_read :: bool
  su_starred :: bool
  su_attachments :: nat
  su_labels :: "string list"
  su_external :: bool
  su_bcc_copy :: bool
  su_outgoing :: bool

record mail_thread =
  tr_id :: string
  tr_subject :: string
  tr_messages :: "mail_record list"
  tr_participants :: "string list"
  tr_unread :: nat

record mail_settings =
  se_send_read_receipts :: bool
  se_keep_sent :: bool
  se_purge_after_days :: u32

definition settings_default :: mail_settings where
  "settings_default = \<lparr>se_send_read_receipts = False, se_keep_sent = True, se_purge_after_days = 30\<rparr>"

record draft_record =
  df_to :: "string list"
  df_cc :: "string list"
  df_bcc :: "string list"
  df_subject :: string
  df_body_text :: string
  df_body_html :: string
  df_attachments :: "mail_attachment list"
  df_in_reply_to :: string
  df_updated_at_ms :: u64

text \<open>Flag changes for the other devices.\<close>

record state_hint =
  sh_read :: "bytes list"
  sh_unread :: "bytes list"
  sh_archived :: "bytes list"
  sh_trashed :: "bytes list"
  sh_starred :: "bytes list"
  sh_unstarred :: "bytes list"
  sh_deleted :: "bytes list"
  sh_at_ms :: u64

definition hint_default :: state_hint where
  "hint_default = \<lparr>sh_read = [], sh_unread = [], sh_archived = [], sh_trashed = [], sh_starred = [],
     sh_unstarred = [], sh_deleted = [], sh_at_ms = 0\<rparr>"

definition RECEIPT_DELIVERED :: int where "RECEIPT_DELIVERED = 1"
definition RECEIPT_READ :: int where "RECEIPT_READ = 2"

record receipt_msg =
  mrc_version :: u32
  mrc_message_id :: bytes
  mrc_kind :: int
  mrc_at_ms :: u64

section \<open>Errors\<close>

text \<open>The errors the mailbox can meet; \<open>SdkApp e\<close> is \<open>Invalid\<close> with \<open>e\<close> printed, \<open>SdkNetwork\<close> any error of
  the network below.\<close>

datatype sdk_error =
    SdkInvalid string
  | SdkNotFound string
  | SdkUnsupported string
  | SdkCorrupt string
  | SdkDelivery string
  | SdkApp app_error
  | SdkNetwork string

definition sdk_of_app :: "app_error \<Rightarrow> sdk_error" where
  "sdk_of_app e = (case e of
      Unsupported s \<Rightarrow> SdkUnsupported s
    | NotFound s \<Rightarrow> SdkNotFound s
    | Integrity s \<Rightarrow> SdkCorrupt s
    | _ \<Rightarrow> SdkApp e)"

definition lift_app :: "app_error + 'a \<Rightarrow> sdk_error + 'a" where
  "lift_app r = map_sum sdk_of_app id r"

section \<open>The state of the mailbox\<close>

text \<open>What is on disk, and the indexes in memory: folder to (time, id), thread to ids, and id to
  folder, flags and thread. Hash maps are maps sorted by key.\<close>

record mail_disk =
  md_msgs :: "(bytes \<times> mail_record) list"
  md_settings :: "mail_settings option"
  md_window :: "rate_window option"
  md_drafts :: "(string \<times> draft_record) list"

type_synonym index_entry = "string \<times> bool \<times> bool \<times> string"

record mail_client =
  mc_disk :: mail_disk
  mc_by_folder :: "(string \<times> (u64 \<times> string) list) list"
  mc_by_thread :: "(string \<times> string list) list"
  mc_index :: "(string \<times> index_entry) list"
  mc_hint :: state_hint
  mc_window :: rate_window
  mc_settings :: mail_settings

definition ids_of :: "(string \<times> 'a list) list \<Rightarrow> string \<Rightarrow> 'a list" where
  "ids_of m k = (case map_of m k of None \<Rightarrow> [] | Some v \<Rightarrow> v)"

text \<open>\<open>entry(k).or_default()\<close> changed by \<open>f\<close>, and \<open>get_mut(k)\<close>.\<close>

definition upd_entry :: "string \<Rightarrow> ('a list \<Rightarrow> 'a list) \<Rightarrow> (string \<times> 'a list) list \<Rightarrow> (string \<times> 'a list) list" where
  "upd_entry k f m = bt_insert k (f (ids_of m k)) m"

definition adj_entry :: "string \<Rightarrow> ('a list \<Rightarrow> 'a list) \<Rightarrow> (string \<times> 'a list) list \<Rightarrow> (string \<times> 'a list) list" where
  "adj_entry k f m = (case map_of m k of None \<Rightarrow> m | Some v \<Rightarrow> bt_insert k (f v) m)"

definition unindex :: "string \<Rightarrow> mail_client \<Rightarrow> mail_client" where
  "unindex i c = (case map_of (mc_index c) i of
      None \<Rightarrow> c
    | Some (fl, rd, st, thread) \<Rightarrow>
        c\<lparr>mc_index := bt_delete i (mc_index c),
          mc_by_folder := adj_entry fl (filter (\<lambda>p. snd p \<noteq> i)) (mc_by_folder c),
          mc_by_thread := adj_entry thread (filter (\<lambda>j. j \<noteq> i)) (mc_by_thread c)\<rparr>)"

definition entry_of :: "(bytes \<Rightarrow> string) \<Rightarrow> mail_record \<Rightarrow> index_entry" where
  "entry_of hx r = (mr_folder r, mr_read r, mr_starred r, hx (mm_thread_id (mr_message r)))"

text \<open>What indexing a record has in common at start-up and later; \<open>f\<close> places it in its folder.\<close>

definition index_with :: "(bytes \<Rightarrow> string) \<Rightarrow> ((u64 \<times> string) list \<Rightarrow> (u64 \<times> string) list) \<Rightarrow>
    string \<Rightarrow> mail_record \<Rightarrow> mail_client \<Rightarrow> mail_client" where
  "index_with hx f i r c =
     (let c = unindex i c; thread = hx (mm_thread_id (mr_message r)) in
      c\<lparr>mc_by_folder := upd_entry (mr_folder r) f (mc_by_folder c),
        mc_by_thread := upd_entry thread (\<lambda>v. v @ [i]) (mc_by_thread c),
        mc_index := bt_insert i (entry_of hx r) (mc_index c)\<rparr>)"

definition index_record :: "(bytes \<Rightarrow> string) \<Rightarrow> string \<Rightarrow> mail_record \<Rightarrow> mail_client \<Rightarrow> mail_client" where
  "index_record hx i r c = index_with hx (\<lambda>v. v @ [(mr_received_at_ms r, i)]) i r c"

definition unopened :: "mail_disk \<Rightarrow> mail_client" where
  "unopened d = \<lparr>mc_disk = d, mc_by_folder = [], mc_by_thread = [], mc_index = [], mc_hint = hint_default,
     mc_window = (case md_window d of None \<Rightarrow> [] | Some w \<Rightarrow> w),
     mc_settings = (case md_settings d of None \<Rightarrow> settings_default | Some s \<Rightarrow> s)\<rparr>"

definition mail_load :: "(bytes \<Rightarrow> string) \<Rightarrow> mail_disk \<Rightarrow> mail_client" where
  "mail_load hx d =
     (let c = fold (\<lambda>p. index_record hx (hx (fst p)) (snd p)) (md_msgs d) (unopened d)
      in c\<lparr>mc_by_folder := map (\<lambda>(f, v). (f, sort v)) (mc_by_folder c)\<rparr>)"

text \<open>The partition point of a list that is sorted.\<close>

definition insert_at_point :: "u64 \<times> string \<Rightarrow> (u64 \<times> string) list \<Rightarrow> (u64 \<times> string) list" where
  "insert_at_point x v = takeWhile (\<lambda>y. y < x) v @ x # dropWhile (\<lambda>y. y < x) v"

section \<open>Reading and writing\<close>

record 'w sdk_env =
  sk_hex :: "bytes \<Rightarrow> string"
  sk_unhex :: "string \<Rightarrow> bytes option"
  sk_blake3 :: "bytes \<Rightarrow> bytes"
  sk_lower :: "string \<Rightarrow> string"
  sk_now_ms :: "'w \<Rightarrow> u64 \<times> 'w"
  sk_random :: "'w \<Rightarrow> (nat \<Rightarrow> byte) option \<times> 'w"
  sk_nanos :: "'w \<Rightarrow> 128 word option \<times> 'w"
  sk_username_of :: "string \<Rightarrow> 'w \<Rightarrow> (string + string) \<times> 'w"
  sk_group :: "string list \<Rightarrow> 'w \<Rightarrow> (string + bytes) \<times> 'w"
  sk_send_mail :: "bytes \<Rightarrow> mail_message \<Rightarrow> 'w \<Rightarrow> (string + unit) \<times> 'w"
  sk_send_receipt :: "bytes \<Rightarrow> receipt_msg \<Rightarrow> 'w \<Rightarrow> (string + unit) \<times> 'w"

definition key_of :: "'w sdk_env \<Rightarrow> string \<Rightarrow> sdk_error + bytes" where
  "key_of env i = (case sk_unhex env i of None \<Rightarrow> Inl (SdkInvalid ''hex'') | Some k \<Rightarrow> Inr k)"

definition mail_put :: "'w sdk_env \<Rightarrow> string \<Rightarrow> mail_record \<Rightarrow> mail_client \<Rightarrow> sdk_error + mail_client" where
  "mail_put env i r c = and_then (key_of env i) (\<lambda>k.
     Inr (index_with (sk_hex env) (insert_at_point (mr_received_at_ms r, i)) i r
       (c\<lparr>mc_disk := (mc_disk c)\<lparr>md_msgs := bt_insert k r (md_msgs (mc_disk c))\<rparr>\<rparr>)))"

definition mail_remove :: "'w sdk_env \<Rightarrow> string \<Rightarrow> mail_client \<Rightarrow> sdk_error + mail_client" where
  "mail_remove env i c = and_then (key_of env i) (\<lambda>k.
     Inr (unindex i (c\<lparr>mc_disk := (mc_disk c)\<lparr>md_msgs := bt_delete k (md_msgs (mc_disk c))\<rparr>\<rparr>)))"

definition mail_get :: "'w sdk_env \<Rightarrow> mail_client \<Rightarrow> string \<Rightarrow> sdk_error + mail_record option" where
  "mail_get env c i = and_then (key_of env i) (\<lambda>k. Inr (map_of (md_msgs (mc_disk c)) k))"

definition mail_get_required :: "'w sdk_env \<Rightarrow> mail_client \<Rightarrow> string \<Rightarrow> sdk_error + mail_record" where
  "mail_get_required env c i = and_then (mail_get env c i) (\<lambda>r.
     case r of None \<Rightarrow> Inl (SdkNotFound (''mail '' @ i)) | Some r \<Rightarrow> Inr r)"

definition summary_of :: "'w sdk_env \<Rightarrow> string \<Rightarrow> mail_record \<Rightarrow> mail_summary" where
  "summary_of env i r = (let m = mr_message r in
     \<lparr>su_id = i, su_thread_id = sk_hex env (mm_thread_id m), su_folder = mr_folder r, su_from = mr_sender r,
      su_from_username = (case mm_from m of None \<Rightarrow> [] | Some a \<Rightarrow> ma_username a),
      su_to = map ma_address (mm_to m), su_subject = mm_subject m,
      su_preview = take_chars 160 (mm_body_text m), su_created_at_ms = mm_created_at_ms m,
      su_received_at_ms = mr_received_at_ms r, su_read = mr_read r, su_starred = mr_starred r,
      su_attachments = length (mm_attachments m), su_labels = mr_labels r,
      su_external = (mm_origin m = ORIGIN_EXTERNAL_GATEWAY), su_bcc_copy = mm_bcc_copy m,
      su_outgoing = mr_outgoing r\<rparr>)"

text \<open>The loop of a page over a folder, newest first.\<close>

fun list_loop :: "'w sdk_env \<Rightarrow> mail_client \<Rightarrow> u64 \<Rightarrow> nat \<Rightarrow> (u64 \<times> string) list \<Rightarrow> mail_summary list \<Rightarrow>
    sdk_error + mail_summary list" where
  "list_loop env c before limit [] out = Inr out"
| "list_loop env c before limit ((time, i) # v) out =
     (if before \<noteq> 0 \<and> time \<ge> before then list_loop env c before limit v out
      else and_then (mail_get env c i) (\<lambda>r.
        let out = (case r of None \<Rightarrow> out | Some r \<Rightarrow> out @ [summary_of env i r])
        in if length out \<ge> limit then Inr out else list_loop env c before limit v out))"

definition mail_list :: "'w sdk_env \<Rightarrow> mail_client \<Rightarrow> string \<Rightarrow> u64 \<Rightarrow> nat \<Rightarrow> sdk_error + mail_summary list" where
  "mail_list env c folder_name before limit =
     (case map_of (mc_by_folder c) folder_name of
        None \<Rightarrow> Inr []
      | Some v \<Rightarrow> list_loop env c before limit (rev v) [])"

definition count_entry :: "index_entry \<Rightarrow> (string \<times> nat \<times> nat) list \<Rightarrow> (string \<times> nat \<times> nat) list" where
  "count_entry e m = (case e of (f, rd, st, t) \<Rightarrow>
     (case (case map_of m f of None \<Rightarrow> (0, 0) | Some c \<Rightarrow> c) of (n, u) \<Rightarrow>
        bt_insert f (n + 1, if rd then u else u + 1) m))"

definition mail_counts :: "mail_client \<Rightarrow> (string \<times> nat \<times> nat) list" where
  "mail_counts c = fold count_entry (map snd (mc_index c)) (fold (\<lambda>f. bt_insert f (0, 0)) ALL_FOLDERS [])"

fun get_all :: "'w sdk_env \<Rightarrow> mail_client \<Rightarrow> string list \<Rightarrow> sdk_error + mail_record list" where
  "get_all env c [] = Inr []"
| "get_all env c (i # is) = and_then (mail_get env c i) (\<lambda>r.
     and_then (get_all env c is) (\<lambda>rs. Inr (case r of None \<Rightarrow> rs | Some r \<Rightarrow> r # rs)))"

definition get_thread :: "'w sdk_env \<Rightarrow> mail_client \<Rightarrow> string \<Rightarrow> sdk_error + mail_thread option" where
  "get_thread env c t =
     (case map_of (mc_by_thread c) t of
        None \<Rightarrow> Inr None
      | Some ids \<Rightarrow> and_then (get_all env c ids) (\<lambda>rs.
          let msgs = sort_key (\<lambda>r. (mm_created_at_ms (mr_message r), mm_message_id (mr_message r)))
                (filter (\<lambda>r. mr_folder r \<noteq> TRASH \<and> mr_folder r \<noteq> SPAM) rs)
          in Inr (Some \<lparr>tr_id = t,
               tr_subject = (case msgs of [] \<Rightarrow> [] | r # _ \<Rightarrow> mm_subject (mr_message r)),
               tr_messages = msgs,
               tr_participants = remdups_adj (sort (concat (map (\<lambda>r. mr_sender r #
                  map ma_address (mm_to (mr_message r) @ mm_cc (mr_message r))) msgs))),
               tr_unread = length (filter (\<lambda>r. \<not> mr_read r) msgs)\<rparr>)))"

text \<open>One summary per thread, the newest.\<close>

fun first_of_threads :: "nat \<Rightarrow> string list \<Rightarrow> mail_summary list \<Rightarrow> mail_summary list \<Rightarrow> mail_summary list" where
  "first_of_threads limit seen [] out = out"
| "first_of_threads limit seen (s # ss) out =
     (if su_thread_id s \<in> set seen then first_of_threads limit seen ss out
      else if length out + 1 \<ge> limit then out @ [s]
      else first_of_threads limit (su_thread_id s # seen) ss (out @ [s]))"

definition mail_threads :: "'w sdk_env \<Rightarrow> mail_client \<Rightarrow> string \<Rightarrow> u64 \<Rightarrow> nat \<Rightarrow> sdk_error + mail_summary list" where
  "mail_threads env c folder_name before limit =
     map_sum id (\<lambda>ss. first_of_threads limit [] ss []) (mail_list env c folder_name before (limit * 4))"

section \<open>Flags\<close>

definition set_mail_flag :: "'w sdk_env \<Rightarrow> string \<Rightarrow> (mail_record \<Rightarrow> mail_record) \<Rightarrow>
    (bytes \<Rightarrow> state_hint \<Rightarrow> state_hint) \<Rightarrow> mail_client \<Rightarrow> sdk_error + mail_client" where
  "set_mail_flag env i f hint c = and_then (mail_get_required env c i) (\<lambda>r.
     and_then (mail_put env i (f r) c) (\<lambda>c.
       Inr (c\<lparr>mc_hint := hint (mm_message_id (mr_message (f r))) (mc_hint c)\<rparr>)))"

definition mark_read_flag :: "'w sdk_env \<Rightarrow> string \<Rightarrow> bool \<Rightarrow> mail_client \<Rightarrow> sdk_error + mail_client" where
  "mark_read_flag env i rd c =
     (if rd then set_mail_flag env i (\<lambda>r. r\<lparr>mr_read := True\<rparr>) (\<lambda>k h. h\<lparr>sh_read := sh_read h @ [k]\<rparr>) c
      else set_mail_flag env i (\<lambda>r. r\<lparr>mr_read := False\<rparr>) (\<lambda>k h. h\<lparr>sh_unread := sh_unread h @ [k]\<rparr>) c)"

text \<open>The receipt is sent when the sender asked and the settings allow; its failure is ignored.\<close>

definition mark_read :: "'w sdk_env \<Rightarrow> string \<Rightarrow> bool \<Rightarrow> mail_client \<Rightarrow> 'w \<Rightarrow> (sdk_error + mail_client) \<times> 'w" where
  "mark_read env i rd c w =
     (case and_then (mail_get_required env c i) (\<lambda>r. and_then (mark_read_flag env i rd c) (\<lambda>c. Inr (r, c))) of
        Inl e \<Rightarrow> (Inl e, w)
      | Inr (r, c) \<Rightarrow>
          if rd \<and> \<not> mr_read r \<and> \<not> mr_outgoing r \<and> mm_request_read_receipt (mr_message r)
             \<and> se_send_read_receipts (mc_settings c)
          then (case sk_unhex env (mr_group_id r) of
              None \<Rightarrow> (Inr c, w)
            | Some gid \<Rightarrow> (case sk_now_ms env w of (now, w) \<Rightarrow>
                (Inr c, snd (sk_send_receipt env gid \<lparr>mrc_version = MAIL_VERSION,
                   mrc_message_id = mm_message_id (mr_message r), mrc_kind = RECEIPT_READ, mrc_at_ms = now\<rparr> w))))
          else (Inr c, w))"

definition mail_star :: "'w sdk_env \<Rightarrow> string \<Rightarrow> bool \<Rightarrow> mail_client \<Rightarrow> sdk_error + mail_client" where
  "mail_star env i on c =
     (if on then set_mail_flag env i (\<lambda>r. r\<lparr>mr_starred := True\<rparr>) (\<lambda>k h. h\<lparr>sh_starred := sh_starred h @ [k]\<rparr>) c
      else set_mail_flag env i (\<lambda>r. r\<lparr>mr_starred := False\<rparr>) (\<lambda>k h. h\<lparr>sh_unstarred := sh_unstarred h @ [k]\<rparr>) c)"

definition hint_move :: "string \<Rightarrow> bytes \<Rightarrow> state_hint \<Rightarrow> state_hint" where
  "hint_move target k h =
     (if target = ARCHIVE then h\<lparr>sh_archived := sh_archived h @ [k]\<rparr>
      else if target = TRASH then h\<lparr>sh_trashed := sh_trashed h @ [k]\<rparr> else h)"

definition move_to :: "'w sdk_env \<Rightarrow> string \<Rightarrow> string \<Rightarrow> mail_client \<Rightarrow> sdk_error + mail_client" where
  "move_to env i target c =
     (if target \<notin> set ALL_FOLDERS then Inl (SdkInvalid (''unknown folder '' @ target))
      else set_mail_flag env i (\<lambda>r. r\<lparr>mr_folder := target\<rparr>) (hint_move target) c)"

definition mail_archive :: "'w sdk_env \<Rightarrow> string \<Rightarrow> mail_client \<Rightarrow> sdk_error + mail_client" where
  "mail_archive env i c = move_to env i ARCHIVE c"

definition mail_delete :: "'w sdk_env \<Rightarrow> string \<Rightarrow> mail_client \<Rightarrow> sdk_error + mail_client" where
  "mail_delete env i c = and_then (mail_get_required env c i) (\<lambda>r.
     mail_remove env i (c\<lparr>mc_hint := (mc_hint c)\<lparr>sh_deleted := sh_deleted (mc_hint c) @ [mm_message_id (mr_message r)]\<rparr>\<rparr>))"

definition mail_trash :: "'w sdk_env \<Rightarrow> string \<Rightarrow> mail_client \<Rightarrow> sdk_error + mail_client" where
  "mail_trash env i c = and_then (mail_get_required env c i) (\<lambda>r.
     if mr_folder r = TRASH then mail_delete env i c else move_to env i TRASH c)"

definition accept_request :: "'w sdk_env \<Rightarrow> string \<Rightarrow> mail_client \<Rightarrow> sdk_error + mail_client" where
  "accept_request env i c = move_to env i INBOX c"

definition set_label :: "'w sdk_env \<Rightarrow> string \<Rightarrow> string \<Rightarrow> bool \<Rightarrow> mail_client \<Rightarrow> sdk_error + mail_client" where
  "set_label env i label on c =
     (if label = [] \<or> length label > 64 then Inl (SdkInvalid ''label length'')
      else set_mail_flag env i
        (\<lambda>r. r\<lparr>mr_labels := filter (\<lambda>x. x \<noteq> label) (mr_labels r) @ (if on then [label] else [])\<rparr>) (\<lambda>k h. h) c)"

definition set_settings :: "mail_settings \<Rightarrow> mail_client \<Rightarrow> mail_client" where
  "set_settings s c = c\<lparr>mc_disk := (mc_disk c)\<lparr>md_settings := Some s\<rparr>, mc_settings := s\<rparr>"

section \<open>Hints\<close>

text \<open>The loop over the ids of one list; a message that is not here is passed over.\<close>

fun hint_ids :: "'w sdk_env \<Rightarrow> (mail_record \<Rightarrow> mail_record option) \<Rightarrow> bytes list \<Rightarrow> mail_client \<Rightarrow>
    sdk_error + mail_client" where
  "hint_ids env f [] c = Inr c"
| "hint_ids env f (k # ks) c =
     (let i = sk_hex env k in
      and_then (mail_get env c i) (\<lambda>r.
      and_then (case r of
          None \<Rightarrow> Inr c
        | Some r \<Rightarrow> (case f r of None \<Rightarrow> mail_remove env i c | Some r \<Rightarrow> mail_put env i r c)) (\<lambda>c.
      hint_ids env f ks c)))"

definition hint_sets :: "state_hint \<Rightarrow> (bytes list \<times> (mail_record \<Rightarrow> mail_record option)) list" where
  "hint_sets h =
     [(sh_read h, \<lambda>r. Some (r\<lparr>mr_read := True\<rparr>)),
      (sh_unread h, \<lambda>r. Some (r\<lparr>mr_read := False\<rparr>)),
      (sh_archived h, \<lambda>r. Some (r\<lparr>mr_folder := ARCHIVE\<rparr>)),
      (sh_trashed h, \<lambda>r. Some (r\<lparr>mr_folder := TRASH\<rparr>)),
      (sh_starred h, \<lambda>r. Some (r\<lparr>mr_starred := True\<rparr>)),
      (sh_unstarred h, \<lambda>r. Some (r\<lparr>mr_starred := False\<rparr>)),
      (sh_deleted h, \<lambda>r. None)]"

fun apply_sets :: "'w sdk_env \<Rightarrow> (bytes list \<times> (mail_record \<Rightarrow> mail_record option)) list \<Rightarrow> mail_client \<Rightarrow>
    sdk_error + mail_client" where
  "apply_sets env [] c = Inr c"
| "apply_sets env ((ks, f) # sets) c = and_then (hint_ids env f ks c) (apply_sets env sets)"

definition apply_state_hint :: "'w sdk_env \<Rightarrow> state_hint \<Rightarrow> mail_client \<Rightarrow> sdk_error + mail_client" where
  "apply_state_hint env h c = apply_sets env (hint_sets h) c"

definition hint_empty :: "state_hint \<Rightarrow> bool" where
  "hint_empty h \<longleftrightarrow> sh_read h = [] \<and> sh_unread h = [] \<and> sh_archived h = [] \<and> sh_trashed h = []
     \<and> sh_starred h = [] \<and> sh_unstarred h = [] \<and> sh_deleted h = []"

definition take_pending_hint :: "u64 \<Rightarrow> mail_client \<Rightarrow> state_hint option \<times> mail_client" where
  "take_pending_hint now c =
     (let h = mc_hint c; c = c\<lparr>mc_hint := hint_default\<rparr>
      in (if hint_empty h then None else Some (h\<lparr>sh_at_ms := now\<rparr>), c))"

section \<open>Receiving\<close>

record received =
  rv_group_id :: string
  rv_sender :: string

definition record_outgoing :: "string \<Rightarrow> mail_message \<Rightarrow> string \<Rightarrow> u64 \<Rightarrow> mail_record" where
  "record_outgoing me msg gid now =
     \<lparr>mr_message = msg, mr_folder = SENT, mr_read = True, mr_starred = False, mr_labels = [],
      mr_received_at_ms = now, mr_sender = me, mr_group_id = gid, mr_delivered_to = [], mr_read_by = [],
      mr_outgoing = True, mr_trust_score = 0\<rparr>"

definition claimed_sender :: "mail_message \<Rightarrow> string" where
  "claimed_sender msg = (case mm_from msg of None \<Rightarrow> [] | Some a \<Rightarrow> ma_address a)"

definition impersonates :: "string \<Rightarrow> mail_message \<Rightarrow> bool" where
  "impersonates sender msg \<longleftrightarrow> claimed_sender msg \<noteq> sender \<and> mm_origin msg \<noteq> ORIGIN_EXTERNAL_GATEWAY"

definition written_to :: "'w sdk_env \<Rightarrow> mail_client \<Rightarrow> string \<Rightarrow> bool" where
  "written_to env c a = list_ex (\<lambda>(t, i). case mail_get env c i of
      Inr (Some r) \<Rightarrow> list_ex (\<lambda>x. ma_address x = a) (mm_to (mr_message r) @ mm_cc (mr_message r))
    | _ \<Rightarrow> False) (ids_of (mc_by_folder c) SENT)"

text \<open>The facts about the sender of a message; the chain is asked for a name when none is known.\<close>

definition arrival_facts :: "'w sdk_env \<Rightarrow> contacts \<Rightarrow> string \<Rightarrow> string \<Rightarrow> mail_message \<Rightarrow> mail_client \<Rightarrow> 'w \<Rightarrow>
    sender_facts \<times> 'w" where
  "arrival_facts env contacts me sender msg c w =
     (let facts = sender_facts_of contacts sender;
          (named, w) = (if sf_has_username facts then (True, w)
             else (case sk_username_of env sender w of
                 (Inl _, w) \<Rightarrow> (False, w) | (Inr u, w) \<Rightarrow> (u \<noteq> [], w)))
      in (facts\<lparr>sf_has_username := named, sf_previously_written_to := written_to env c sender,
            sf_prior_messages := word_of_nat (min (length (ids_of (mc_by_folder c) INBOX)) 100),
            sf_is_blocked := sf_is_blocked facts \<or> impersonates sender msg,
            sf_postage_bits := postage_bits (sk_blake3 env) msg me\<rparr>, w))"

definition folder_of :: "disposition \<Rightarrow> string option" where
  "folder_of d = (case d of Drop \<Rightarrow> None | Inbox \<Rightarrow> Some INBOX | Requests \<Rightarrow> Some REQUESTS | Spam \<Rightarrow> Some SPAM)"

definition record_incoming :: "received \<Rightarrow> mail_message \<Rightarrow> string \<Rightarrow> int \<Rightarrow> u64 \<Rightarrow> mail_record" where
  "record_incoming r msg fl score now =
     \<lparr>mr_message = msg, mr_folder = fl, mr_read = False, mr_starred = False, mr_labels = [],
      mr_received_at_ms = now, mr_sender = rv_sender r, mr_group_id = rv_group_id r, mr_delivered_to = [],
      mr_read_by = [], mr_outgoing = False, mr_trust_score = score\<rparr>"

definition send_delivered :: "'w sdk_env \<Rightarrow> received \<Rightarrow> mail_message \<Rightarrow> 'w \<Rightarrow> 'w" where
  "send_delivered env r msg w =
     (case sk_unhex env (rv_group_id r) of
        None \<Rightarrow> w
      | Some gid \<Rightarrow> (case sk_now_ms env w of (now, w) \<Rightarrow>
          snd (sk_send_receipt env gid \<lparr>mrc_version = MAIL_VERSION, mrc_message_id = mm_message_id msg,
            mrc_kind = RECEIPT_DELIVERED, mrc_at_ms = now\<rparr> w)))"

text \<open>Filing mail of somebody else: the policy, the record, the receipt.\<close>

definition receive_foreign :: "'w sdk_env \<Rightarrow> contacts \<Rightarrow> string \<Rightarrow> received \<Rightarrow> mail_message \<Rightarrow> mail_client \<Rightarrow> 'w \<Rightarrow>
    (sdk_error + mail_record option \<times> mail_client) \<times> 'w" where
  "receive_foreign env contacts me r msg c w =
     (case arrival_facts env contacts me (rv_sender r) msg c w of (facts, w) \<Rightarrow>
     (case sk_now_ms env w of (now, w) \<Rightarrow>
     (case dispose facts msg (now div 1000) (mc_window c) of (d, win) \<Rightarrow>
       (let c = c\<lparr>mc_window := win, mc_disk := (mc_disk c)\<lparr>md_window := Some win\<rparr>\<rparr> in
        case folder_of d of
          None \<Rightarrow> (Inr (None, c), w)
        | Some fl \<Rightarrow> (case sk_now_ms env w of (now, w) \<Rightarrow>
            (let rec = record_incoming r msg fl (trust_score facts msg) now in
             case mail_put env (sk_hex env (mm_message_id msg)) rec c of
               Inl e \<Rightarrow> (Inl e, w)
             | Inr c \<Rightarrow> (Inr (Some rec, c), if d \<noteq> Spam then send_delivered env r msg w else w)))))))"

definition receive_mail :: "'w sdk_env \<Rightarrow> contacts \<Rightarrow> string \<Rightarrow> received \<Rightarrow> mail_message \<Rightarrow> mail_client \<Rightarrow> 'w \<Rightarrow>
    (sdk_error + mail_record option \<times> mail_client) \<times> 'w" where
  "receive_mail env contacts me r msg c w =
     (case lift_app (validate_mail msg) of
        Inl e \<Rightarrow> (Inl e, w)
      | Inr _ \<Rightarrow>
          (let i = sk_hex env (mm_message_id msg) in
           if map_of (mc_index c) i \<noteq> None then (Inr (None, c), w)
           else if rv_sender r = me then
             (case sk_now_ms env w of (now, w) \<Rightarrow>
               (let rec = record_outgoing me msg (rv_group_id r) now in
                (and_then (mail_put env i rec c) (\<lambda>c. Inr (Some rec, c)), w)))
           else receive_foreign env contacts me r msg c w))"

text \<open>\<open>BTreeMap::insert\<close> of a receipt for a message of ours.\<close>

definition receive_receipt :: "'w sdk_env \<Rightarrow> string \<Rightarrow> receipt_msg \<Rightarrow> mail_client \<Rightarrow> sdk_error + mail_client" where
  "receive_receipt env sender rc c =
     (let i = sk_hex env (mrc_message_id rc) in
      and_then (mail_get env c i) (\<lambda>r. case r of
          None \<Rightarrow> Inr c
        | Some r \<Rightarrow>
            if \<not> mr_outgoing r then Inr c
            else if mrc_kind rc = RECEIPT_DELIVERED
            then mail_put env i (r\<lparr>mr_delivered_to := bt_insert sender (mrc_at_ms rc) (mr_delivered_to r)\<rparr>) c
            else if mrc_kind rc = RECEIPT_READ
            then mail_put env i (r\<lparr>mr_read_by := bt_insert sender (mrc_at_ms rc) (mr_read_by r)\<rparr>) c
            else Inr c))"

section \<open>Searching and purging\<close>

fun find_loop :: "'w sdk_env \<Rightarrow> mail_client \<Rightarrow> (mail_record \<Rightarrow> bool) \<Rightarrow> nat \<Rightarrow> (u64 \<times> string) list \<Rightarrow>
    mail_summary list \<Rightarrow> sdk_error + mail_summary list" where
  "find_loop env c P limit [] out = Inr out"
| "find_loop env c P limit ((time, i) # v) out = and_then (mail_get env c i) (\<lambda>r.
     case r of
       None \<Rightarrow> find_loop env c P limit v out
     | Some r \<Rightarrow>
         if P r then
           (let out = out @ [summary_of env i r]
            in if length out \<ge> limit then Inr out else find_loop env c P limit v out)
         else find_loop env c P limit v out)"

definition newest_first :: "mail_client \<Rightarrow> (u64 \<times> string) list" where
  "newest_first c = rev (sort (concat (map snd (mc_by_folder c))))"

definition by_label :: "'w sdk_env \<Rightarrow> mail_client \<Rightarrow> string \<Rightarrow> nat \<Rightarrow> sdk_error + mail_summary list" where
  "by_label env c label limit = find_loop env c (\<lambda>r. label \<in> set (mr_labels r)) limit (newest_first c) []"

definition has_part :: "string \<Rightarrow> string \<Rightarrow> bool" where
  "has_part q s \<longleftrightarrow> list_ex (\<lambda>n. starts_with q (drop n s)) [0..<Suc (length s)]"

definition search_hit :: "(string \<Rightarrow> string) \<Rightarrow> string \<Rightarrow> mail_record \<Rightarrow> bool" where
  "search_hit lower q r \<longleftrightarrow> (let m = mr_message r in
     has_part q (lower (mm_subject m)) \<or> has_part q (lower (mm_body_text m)) \<or> has_part q (mr_sender r)
     \<or> (case mm_from m of None \<Rightarrow> False | Some a \<Rightarrow> has_part q (lower (ma_username a)))
     \<or> list_ex (\<lambda>a. has_part q (ma_address a) \<or> has_part q (lower (ma_username a))) (mm_to m)
     \<or> list_ex (\<lambda>a. has_part q (lower (at_name a))) (mm_attachments m))"

definition mail_search :: "'w sdk_env \<Rightarrow> mail_client \<Rightarrow> string \<Rightarrow> nat \<Rightarrow> sdk_error + mail_summary list" where
  "mail_search env c query limit =
     (let q = sk_lower env query in
      if length q < 2 then Inr []
      else find_loop env c (search_hit (sk_lower env) q) limit (newest_first c) [])"

text \<open>The starred ids with their times; a hash map's order is lost in the sort.\<close>

fun starred_ids :: "'w sdk_env \<Rightarrow> mail_client \<Rightarrow> (string \<times> index_entry) list \<Rightarrow> sdk_error + (u64 \<times> string) list" where
  "starred_ids env c [] = Inr []"
| "starred_ids env c ((i, f, rd, st, t) # es) =
     (if \<not> st then starred_ids env c es
      else and_then (mail_get env c i) (\<lambda>r. and_then (starred_ids env c es) (\<lambda>is.
        Inr (case r of None \<Rightarrow> is | Some r \<Rightarrow> (mr_received_at_ms r, i) # is))))"

fun summaries :: "'w sdk_env \<Rightarrow> mail_client \<Rightarrow> string list \<Rightarrow> sdk_error + mail_summary list" where
  "summaries env c [] = Inr []"
| "summaries env c (i # is) = and_then (mail_get env c i) (\<lambda>r.
     and_then (summaries env c is) (\<lambda>ss. Inr (case r of None \<Rightarrow> ss | Some r \<Rightarrow> summary_of env i r # ss)))"

definition mail_starred :: "'w sdk_env \<Rightarrow> mail_client \<Rightarrow> nat \<Rightarrow> sdk_error + mail_summary list" where
  "mail_starred env c limit = and_then (starred_ids env c (mc_index c)) (\<lambda>is.
     summaries env c (map snd (take limit (rev (sort is)))))"

definition aged_out :: "u32 \<Rightarrow> u64 \<Rightarrow> mail_client \<Rightarrow> string list" where
  "aged_out days now c = (if days = 0 then [] else
     concat (map (\<lambda>f. map snd (filter (\<lambda>(t, i). sat_sub now t > ucast days * 86400000) (ids_of (mc_by_folder c) f)))
       [TRASH, SPAM]))"

definition expired :: "u64 \<Rightarrow> mail_record \<Rightarrow> bool" where
  "expired now r \<longleftrightarrow> mm_expire_after_secs (mr_message r) > 0
     \<and> sat_sub now (mr_received_at_ms r) > ucast (mm_expire_after_secs (mr_message r)) * 1000"

fun expired_ids :: "'w sdk_env \<Rightarrow> mail_client \<Rightarrow> u64 \<Rightarrow> (string \<times> index_entry) list \<Rightarrow> sdk_error + string list" where
  "expired_ids env c now [] = Inr []"
| "expired_ids env c now ((i, f, rd, st, t) # es) =
     (if \<not> rd then expired_ids env c now es
      else and_then (mail_get env c i) (\<lambda>r. and_then (expired_ids env c now es) (\<lambda>is.
        Inr (case r of None \<Rightarrow> is | Some r \<Rightarrow> if expired now r then i # is else is))))"

fun remove_all_ids :: "'w sdk_env \<Rightarrow> string list \<Rightarrow> mail_client \<Rightarrow> sdk_error + mail_client" where
  "remove_all_ids env [] c = Inr c"
| "remove_all_ids env (i # is) c = and_then (mail_remove env i c) (remove_all_ids env is)"

definition mail_purge :: "'w sdk_env \<Rightarrow> u64 \<Rightarrow> mail_client \<Rightarrow> sdk_error + nat \<times> mail_client" where
  "mail_purge env now c =
     and_then (expired_ids env c now (mc_index c)) (\<lambda>old.
       let victims = remdups_adj (sort (aged_out (se_purge_after_days (mc_settings c)) now c @ old))
       in map_sum id (\<lambda>c. (length victims, c)) (remove_all_ids env victims c))"

section \<open>Drafts\<close>

definition save_draft :: "string \<Rightarrow> draft_record \<Rightarrow> mail_client \<Rightarrow> mail_client" where
  "save_draft i d c = c\<lparr>mc_disk := (mc_disk c)\<lparr>md_drafts := bt_insert i d (md_drafts (mc_disk c))\<rparr>\<rparr>"

definition list_drafts :: "mail_client \<Rightarrow> (string \<times> draft_record) list" where
  "list_drafts c = md_drafts (mc_disk c)"

definition delete_draft :: "string \<Rightarrow> mail_client \<Rightarrow> bool \<times> mail_client" where
  "delete_draft i c = (map_of (md_drafts (mc_disk c)) i \<noteq> None,
     c\<lparr>mc_disk := (mc_disk c)\<lparr>md_drafts := bt_delete i (md_drafts (mc_disk c))\<rparr>\<rparr>)"

end
