(* ===== verification/Mail_Client_Inv.thy ===== *)
theory Mail_Client_Inv
  imports Mail_Client
begin

text \<open>
  The indexes of the mailbox are a function of the stored messages. What holds of the indexes is
  stated relative to a map \<open>M\<close> from message ids to records, so that the same lemmas serve opening the
  store, filing, moving and removing.
\<close>

section \<open>Exact indexes\<close>

definition in_folder :: "(bytes \<Rightarrow> string) \<Rightarrow> (bytes \<Rightarrow> mail_record option) \<Rightarrow> string \<Rightarrow> (u64 \<times> string) set" where
  "in_folder hx M f = {(t, i). \<exists>k r. i = hx k \<and> M k = Some r \<and> mr_folder r = f \<and> mr_received_at_ms r = t}"

definition in_thread :: "(bytes \<Rightarrow> string) \<Rightarrow> (bytes \<Rightarrow> mail_record option) \<Rightarrow> string \<Rightarrow> string set" where
  "in_thread hx M t = {i. \<exists>k r. i = hx k \<and> M k = Some r \<and> hx (mm_thread_id (mr_message r)) = t}"

definition indexed :: "(bytes \<Rightarrow> string) \<Rightarrow> (bytes \<Rightarrow> mail_record option) \<Rightarrow> mail_client \<Rightarrow> bool" where
  "indexed hx M c \<longleftrightarrow> bt_wf (mc_index c) \<and> bt_wf (mc_by_folder c) \<and> bt_wf (mc_by_thread c)
     \<and> (\<forall>k. map_of (mc_index c) (hx k) = map_option (entry_of hx) (M k))
     \<and> (\<forall>i. map_of (mc_index c) i \<noteq> None \<longrightarrow> i \<in> range hx)
     \<and> (\<forall>f. distinct (ids_of (mc_by_folder c) f) \<and> set (ids_of (mc_by_folder c) f) = in_folder hx M f)
     \<and> (\<forall>t. distinct (ids_of (mc_by_thread c) t) \<and> set (ids_of (mc_by_thread c) t) = in_thread hx M t)"

lemma indexedI:
  assumes "bt_wf (mc_index c)" "bt_wf (mc_by_folder c)" "bt_wf (mc_by_thread c)"
    and "\<And>k. map_of (mc_index c) (hx k) = map_option (entry_of hx) (M k)"
    and "\<And>i. map_of (mc_index c) i \<noteq> None \<Longrightarrow> i \<in> range hx"
    and "\<And>f. distinct (ids_of (mc_by_folder c) f)" "\<And>f. set (ids_of (mc_by_folder c) f) = in_folder hx M f"
    and "\<And>t. distinct (ids_of (mc_by_thread c) t)" "\<And>t. set (ids_of (mc_by_thread c) t) = in_thread hx M t"
  shows "indexed hx M c"
  unfolding indexed_def using assms by blast

definition folders_sorted :: "mail_client \<Rightarrow> bool" where
  "folders_sorted c \<longleftrightarrow> (\<forall>f. sorted (ids_of (mc_by_folder c) f))"

lemma ids_of_upd [map_simps, simp]:
  "ids_of (upd_entry k f m) j = (if j = k then f (ids_of m k) else ids_of m j)"
  by (simp add: ids_of_def upd_entry_def)

lemma ids_of_adj [map_simps, simp]:
  "f [] = [] \<Longrightarrow> ids_of (adj_entry k f m) j = (if j = k then f (ids_of m k) else ids_of m j)"
  by (simp add: ids_of_def adj_entry_def split: option.split)

lemma bt_wf_upd [inv_rules]: "bt_wf m \<Longrightarrow> bt_wf (upd_entry k f m)"
  by (simp add: upd_entry_def bt_wf_insert)

lemma bt_wf_adj [inv_rules]: "bt_wf m \<Longrightarrow> bt_wf (adj_entry k f m)"
  by (simp add: adj_entry_def bt_wf_insert split: option.split)

lemma in_folder_drop:
  "inj hx \<Longrightarrow> in_folder hx (M(k := None)) f = {p \<in> in_folder hx M f. snd p \<noteq> hx k}"
  by (auto simp: in_folder_def dest: injD)

lemma in_thread_drop: "inj hx \<Longrightarrow> in_thread hx (M(k := None)) t = {i \<in> in_thread hx M t. i \<noteq> hx k}"
  by (auto simp: in_thread_def dest: injD)

lemma unindex_indexed:
  assumes "indexed hx M c" "inj hx"
  shows "indexed hx (M(k := None)) (unindex (hx k) c)"
proof (cases "map_of (mc_index c) (hx k)")
  case None
  then have "M k = None" using assms(1) by (auto simp: indexed_def)
  then have "M(k := None) = M" by auto
  then show ?thesis using assms None by (simp add: unindex_def)
next
  case (Some e)
  obtain fl rd st t where e: "e = (fl, rd, st, t)" by (metis surj_pair)
  obtain r where r: "M k = Some r" "entry_of hx r = e" using Some assms(1) by (auto simp: indexed_def)
  then have ft: "mr_folder r = fl" "hx (mm_thread_id (mr_message r)) = t" using e by (auto simp: entry_of_def)
  let ?c = "unindex (hx k) c"
  have c: "mc_index ?c = bt_delete (hx k) (mc_index c)"
    "mc_by_folder ?c = adj_entry fl (filter (\<lambda>p. snd p \<noteq> hx k)) (mc_by_folder c)"
    "mc_by_thread ?c = adj_entry t (filter (\<lambda>j. j \<noteq> hx k)) (mc_by_thread c)"
    using Some e by (simp_all add: unindex_def)
  have fo: "ids_of (mc_by_folder ?c) f = filter (\<lambda>p. snd p \<noteq> hx k) (ids_of (mc_by_folder c) f)" for f
  proof (cases "f = fl")
    case False
    have "snd p \<noteq> hx k" if "p \<in> set (ids_of (mc_by_folder c) f)" for p
      using that r ft assms(1) False by (auto simp: indexed_def in_folder_def inj_eq [OF assms(2)])
    then show ?thesis using False by (simp add: c)
  qed (simp add: c)
  have th: "ids_of (mc_by_thread ?c) u = filter (\<lambda>j. j \<noteq> hx k) (ids_of (mc_by_thread c) u)" for u
  proof (cases "u = t")
    case False
    have "i \<noteq> hx k" if "i \<in> set (ids_of (mc_by_thread c) u)" for i
      using that r ft assms(1) False by (auto simp: indexed_def in_thread_def inj_eq [OF assms(2)])
    then show ?thesis using False by (simp add: c)
  qed (simp add: c)
  have ix: "map_of (mc_index ?c) (hx j) = map_option (entry_of hx) ((M(k := None)) j)" for j
    using assms(1) by (simp add: c indexed_def inj_eq [OF assms(2)])
  have rg: "map_of (mc_index ?c) i \<noteq> None \<Longrightarrow> i \<in> range hx" for i
    using assms(1) by (simp add: c indexed_def split: if_splits)
  show ?thesis
  proof (rule indexedI)
    show "bt_wf (mc_index ?c)" "bt_wf (mc_by_folder ?c)" "bt_wf (mc_by_thread ?c)"
      using assms(1) by (simp_all add: c indexed_def bt_wf_delete bt_wf_adj)
    show "distinct (ids_of (mc_by_folder ?c) f)" for f
      using assms(1) by (simp add: fo indexed_def)
    show "set (ids_of (mc_by_folder ?c) f) = in_folder hx (M(k := None)) f" for f
      using assms(1) by (auto simp: fo indexed_def in_folder_drop [OF assms(2)])
    show "distinct (ids_of (mc_by_thread ?c) u)" for u
      using assms(1) by (simp add: th indexed_def)
    show "set (ids_of (mc_by_thread ?c) u) = in_thread hx (M(k := None)) u" for u
      using assms(1) by (auto simp: th indexed_def in_thread_drop [OF assms(2)])
  qed (use ix rg in blast)+
qed

lemma unindex_sorted: "folders_sorted c \<Longrightarrow> folders_sorted (unindex i c)"
  by (auto simp: folders_sorted_def unindex_def sorted_filter intro!: sorted_wrt_filter split: option.split)

lemma unindex_fields [simp]:
  "mc_disk (unindex i c) = mc_disk c" "mc_hint (unindex i c) = mc_hint c"
  "mc_window (unindex i c) = mc_window c" "mc_settings (unindex i c) = mc_settings c"
  by (auto simp: unindex_def split: option.split)

lemma index_with_fields [simp]:
  "mc_disk (index_with hx f i r c) = mc_disk c" "mc_hint (index_with hx f i r c) = mc_hint c"
  "mc_window (index_with hx f i r c) = mc_window c" "mc_settings (index_with hx f i r c) = mc_settings c"
  by (auto simp: index_with_def Let_def)

lemma index_with_indexed:
  assumes "indexed hx M c" "inj hx"
    and "\<And>v. set (f v) = insert (mr_received_at_ms r, hx k) (set v)"
    and "\<And>v. distinct v \<Longrightarrow> (mr_received_at_ms r, hx k) \<notin> set v \<Longrightarrow> distinct (f v)"
  shows "indexed hx (M(k := Some r)) (index_with hx f (hx k) r c)"
proof -
  let ?c = "unindex (hx k) c" and ?N = "M(k := None)"
  have u: "indexed hx ?N ?c" using assms(1,2) by (rule unindex_indexed)
  have fo: "in_folder hx (M(k := Some r)) g
      = (if g = mr_folder r then insert (mr_received_at_ms r, hx k) (in_folder hx ?N g) else in_folder hx ?N g)" for g
    using injD [OF assms(2)] by (auto simp: in_folder_def)
  have th: "in_thread hx (M(k := Some r)) t = (if t = hx (mm_thread_id (mr_message r))
      then insert (hx k) (in_thread hx ?N t) else in_thread hx ?N t)" for t
    using injD [OF assms(2)] by (auto simp: in_thread_def)
  have new: "(mr_received_at_ms r, hx k) \<notin> in_folder hx ?N g" "hx k \<notin> in_thread hx ?N t" for g t
    using injD [OF assms(2)] by (auto simp: in_folder_def in_thread_def)
  have ix: "map_of (mc_index (index_with hx f (hx k) r c)) (hx j) = map_option (entry_of hx) ((M(k := Some r)) j)" for j
    using u injD [OF assms(2)] by (auto simp: index_with_def Let_def indexed_def)
  have "\<forall>i. map_of (mc_index (index_with hx f (hx k) r c)) i \<noteq> None \<longrightarrow> i \<in> range hx"
    using u by (simp add: index_with_def Let_def indexed_def)
  then show ?thesis
    using u ix new assms(3,4)
    by (simp add: indexed_def index_with_def Let_def fo th bt_wf_insert bt_wf_upd)
qed

lemma insert_at_point_set: "set (insert_at_point x v) = insert x (set v)"
proof -
  have "set v = set (takeWhile (\<lambda>y. y < x) v) \<union> set (dropWhile (\<lambda>y. y < x) v)"
    by (metis set_append takeWhile_dropWhile_id)
  then show ?thesis by (auto simp: insert_at_point_def)
qed

lemma insert_at_point_distinct: "distinct v \<Longrightarrow> x \<notin> set v \<Longrightarrow> distinct (insert_at_point x v)"
proof -
  assume d: "distinct v" "x \<notin> set v"
  have "distinct (takeWhile (\<lambda>y. y < x) v @ dropWhile (\<lambda>y. y < x) v)" using d by simp
  then show ?thesis using d(2)
    by (simp add: insert_at_point_def del: takeWhile_dropWhile_id) (meson set_dropWhileD set_takeWhileD)
qed

lemma insert_at_point_sorted: "sorted v \<Longrightarrow> sorted (insert_at_point x v)"
proof -
  assume v: "sorted v"
  then have "sorted (takeWhile (\<lambda>y. y < x) v @ dropWhile (\<lambda>y. y < x) v)" by simp
  moreover have "\<forall>y \<in> set (takeWhile (\<lambda>y. y < x) v). y \<le> x" by (auto dest: set_takeWhileD)
  moreover have "\<forall>y \<in> set (dropWhile (\<lambda>y. y < x) v). x \<le> y"
    using v by (induction v) (auto intro: order_trans simp: not_less)
  moreover from calculation have "\<forall>y \<in> set (takeWhile (\<lambda>y. y < x) v). \<forall>z \<in> set (dropWhile (\<lambda>y. y < x) v). y \<le> z"
    by (meson order_trans)
  moreover have "sorted (takeWhile (\<lambda>y. y < x) v)" "sorted (dropWhile (\<lambda>y. y < x) v)"
    using v by (simp_all add: sorted_dropWhile sorted_takeWhile)
  ultimately show ?thesis unfolding insert_at_point_def sorted_append sorted_simps set_simps by blast
qed

lemma index_with_sorted:
  assumes "folders_sorted c" "\<And>v. sorted v \<Longrightarrow> sorted (f v)"
  shows "folders_sorted (index_with hx f i r c)"
  using unindex_sorted [OF assms(1), of i] assms(2) by (simp add: folders_sorted_def index_with_def Let_def)

section \<open>The invariant\<close>

text \<open>Stored records: under their id, valid, and in a known folder.\<close>

definition stored_ok :: "bytes \<Rightarrow> mail_record \<Rightarrow> bool" where
  "stored_ok k r \<longleftrightarrow> mm_message_id (mr_message r) = k \<and> validate_mail (mr_message r) = Inr ()
     \<and> mr_folder r \<in> set ALL_FOLDERS"

definition msgs_of :: "mail_client \<Rightarrow> bytes \<Rightarrow> mail_record option" where
  "msgs_of c = map_of (md_msgs (mc_disk c))"

definition disk_ok :: "mail_disk \<Rightarrow> bool" where
  "disk_ok d \<longleftrightarrow> bt_wf (md_msgs d) \<and> (\<forall>k r. map_of (md_msgs d) k = Some r \<longrightarrow> stored_ok k r)"

definition mc_ok :: "'w sdk_env \<Rightarrow> mail_client \<Rightarrow> bool" where
  "mc_ok env c \<longleftrightarrow> disk_ok (mc_disk c) \<and> indexed (sk_hex env) (msgs_of c) c \<and> folders_sorted c
     \<and> mc_settings c = (case md_settings (mc_disk c) of None \<Rightarrow> settings_default | Some s \<Rightarrow> s)
     \<and> mc_window c = (case md_window (mc_disk c) of None \<Rightarrow> [] | Some w \<Rightarrow> w)"

lemma hex_ok_inj: "hex_ok hx unhx \<Longrightarrow> inj hx"
  by (metis hex_ok_def injI option.inject)

lemma indexed_cong:
  assumes "indexed hx M c" "mc_index c' = mc_index c" "mc_by_folder c' = mc_by_folder c" "mc_by_thread c' = mc_by_thread c"
  shows "indexed hx M c'"
  using assms by (simp add: indexed_def)

lemma folders_sorted_cong: "mc_by_folder c' = mc_by_folder c \<Longrightarrow> folders_sorted c' = folders_sorted c"
  by (simp add: folders_sorted_def)

text \<open>A change of the state that leaves the disk, the indexes and the saved values alone.\<close>

lemma mc_ok_cong:
  assumes "mc_ok env c" "mc_disk c' = mc_disk c" "mc_index c' = mc_index c" "mc_by_folder c' = mc_by_folder c"
    and "mc_by_thread c' = mc_by_thread c" "mc_window c' = mc_window c" "mc_settings c' = mc_settings c"
  shows "mc_ok env c'"
  using assms indexed_cong [of "sk_hex env" "msgs_of c" c c'] folders_sorted_cong [of c' c]
  by (simp add: mc_ok_def msgs_of_def)

section \<open>Reading, writing and removing a record\<close>

lemma get_hex:
  assumes "hex_ok (sk_hex env) (sk_unhex env)"
  shows "key_of env (sk_hex env k) = Inr k" "mail_get env c (sk_hex env k) = Inr (msgs_of c k)"
    "mail_get_required env c (sk_hex env k)
       = (case msgs_of c k of None \<Rightarrow> Inl (SdkNotFound (''mail '' @ sk_hex env k)) | Some r \<Rightarrow> Inr r)"
  using assms by (simp_all add: key_of_def hex_ok_def mail_get_def mail_get_required_def msgs_of_def)

lemma mail_put_ok:
  assumes "mc_ok env c" "hex_ok (sk_hex env) (sk_unhex env)" "stored_ok k r"
  obtains c' where "mail_put env (sk_hex env k) r c = Inr c'" "mc_ok env c'" "msgs_of c' = (msgs_of c)(k := Some r)"
    "mc_hint c' = mc_hint c" "mc_window c' = mc_window c" "mc_settings c' = mc_settings c"
proof -
  let ?hx = "sk_hex env" and ?d = "(mc_disk c)\<lparr>md_msgs := bt_insert k r (md_msgs (mc_disk c))\<rparr>"
  let ?c = "index_with ?hx (insert_at_point (mr_received_at_ms r, ?hx k)) (?hx k) r (c\<lparr>mc_disk := ?d\<rparr>)"
  have i: "inj ?hx" using assms(2) by (rule hex_ok_inj)
  have b: "indexed ?hx (msgs_of c) (c\<lparr>mc_disk := ?d\<rparr>)" "folders_sorted (c\<lparr>mc_disk := ?d\<rparr>)"
    using assms(1) indexed_cong [of ?hx "msgs_of c" c] folders_sorted_cong [of "c\<lparr>mc_disk := ?d\<rparr>" c]
    by (simp_all add: mc_ok_def)
  have "indexed ?hx ((msgs_of c)(k := Some r)) ?c"
    using b(1) i insert_at_point_set insert_at_point_distinct by (intro index_with_indexed) auto
  moreover have m: "msgs_of ?c = (msgs_of c)(k := Some r)" by (simp add: msgs_of_def)
  moreover have "folders_sorted ?c" using b(2) insert_at_point_sorted by (rule index_with_sorted)
  moreover have "disk_ok ?d" using assms(1,3) by (simp add: mc_ok_def disk_ok_def bt_wf_insert)
  ultimately have "mc_ok env ?c" using assms(1) by (simp add: mc_ok_def)
  moreover have "mail_put env (?hx k) r c = Inr ?c" by (simp add: mail_put_def get_hex [OF assms(2)])
  ultimately show thesis using m that by simp
qed

lemma remove_ok:
  assumes "mc_ok env c" "hex_ok (sk_hex env) (sk_unhex env)"
  obtains c' where "mail_remove env (sk_hex env k) c = Inr c'" "mc_ok env c'" "msgs_of c' = (msgs_of c)(k := None)"
    "mc_hint c' = mc_hint c" "mc_window c' = mc_window c" "mc_settings c' = mc_settings c"
proof -
  let ?hx = "sk_hex env" and ?d = "(mc_disk c)\<lparr>md_msgs := bt_delete k (md_msgs (mc_disk c))\<rparr>"
  let ?c = "unindex (?hx k) (c\<lparr>mc_disk := ?d\<rparr>)"
  have i: "inj ?hx" using assms(2) by (rule hex_ok_inj)
  have b: "indexed ?hx (msgs_of c) (c\<lparr>mc_disk := ?d\<rparr>)" "folders_sorted (c\<lparr>mc_disk := ?d\<rparr>)"
    using assms(1) indexed_cong [of ?hx "msgs_of c" c] folders_sorted_cong [of "c\<lparr>mc_disk := ?d\<rparr>" c]
    by (simp_all add: mc_ok_def)
  have "indexed ?hx ((msgs_of c)(k := None)) ?c" using b(1) i by (rule unindex_indexed)
  moreover have m: "msgs_of ?c = (msgs_of c)(k := None)" by (simp add: msgs_of_def)
  moreover have "folders_sorted ?c" using b(2) by (rule unindex_sorted)
  moreover have "disk_ok ?d" using assms(1) by (simp add: mc_ok_def disk_ok_def bt_wf_delete)
  ultimately have "mc_ok env ?c" using assms(1) by (simp add: mc_ok_def)
  moreover have "mail_remove env (?hx k) c = Inr ?c" by (simp add: mail_remove_def get_hex [OF assms(2)])
  ultimately show thesis using m that by simp
qed

lemma stored_get: "mc_ok env c \<Longrightarrow> msgs_of c k = Some r \<Longrightarrow> stored_ok k r"
  by (simp add: mc_ok_def disk_ok_def msgs_of_def)

text \<open>A change of a record that keeps its message, to a known folder.\<close>

definition keeps_message :: "(mail_record \<Rightarrow> mail_record) \<Rightarrow> bool" where
  "keeps_message f \<longleftrightarrow> (\<forall>r. mr_message (f r) = mr_message r
     \<and> (mr_folder r \<in> set ALL_FOLDERS \<longrightarrow> mr_folder (f r) \<in> set ALL_FOLDERS))"

lemma set_mail_flag_ok:
  assumes "mc_ok env c" "hex_ok (sk_hex env) (sk_unhex env)" "keeps_message f" "msgs_of c k = Some r"
  obtains c' where "set_mail_flag env (sk_hex env k) f h c = Inr c'" "mc_ok env c'"
    "msgs_of c' = (msgs_of c)(k := Some (f r))" "mc_hint c' = h k (mc_hint c)"
proof -
  have s: "stored_ok k r" using assms(1,4) by (rule stored_get)
  then have "stored_ok k (f r)" using assms(3) by (simp add: stored_ok_def keeps_message_def)
  then obtain c1 where c1: "mail_put env (sk_hex env k) (f r) c = Inr c1" "mc_ok env c1"
    "msgs_of c1 = (msgs_of c)(k := Some (f r))" "mc_hint c1 = mc_hint c"
    using mail_put_ok [OF assms(1,2)] by metis
  let ?c = "c1\<lparr>mc_hint := h k (mc_hint c1)\<rparr>"
  have k: "mm_message_id (mr_message (f r)) = k" using s assms(3) by (simp add: stored_ok_def keeps_message_def)
  have "mc_ok env ?c" using c1(2) by (rule mc_ok_cong) simp_all
  moreover have "set_mail_flag env (sk_hex env k) f h c = Inr ?c"
    by (simp add: set_mail_flag_def get_hex [OF assms(2)] assms(4) c1(1) k)
  moreover have "msgs_of ?c = msgs_of c1" by (simp add: msgs_of_def)
  ultimately show thesis using c1(3,4) that by simp
qed

lemma set_flag_missing:
  "hex_ok (sk_hex env) (sk_unhex env) \<Longrightarrow> msgs_of c k = None \<Longrightarrow>
    set_mail_flag env (sk_hex env k) f h c = Inl (SdkNotFound (''mail '' @ sk_hex env k))"
  by (simp add: set_mail_flag_def get_hex)

lemma set_flag_keeps:
  assumes "mc_ok env c" "hex_ok (sk_hex env) (sk_unhex env)" "keeps_message f"
    and "i \<in> range (sk_hex env)" "set_mail_flag env i f h c = Inr c'"
  shows "mc_ok env c'"
proof -
  obtain k where k: "i = sk_hex env k" using assms(4) by auto
  show ?thesis
  proof (cases "msgs_of c k")
    case None
    then show ?thesis using assms(2,5) k by (simp add: set_flag_missing)
  next
    case (Some r)
    obtain c1 where "set_mail_flag env (sk_hex env k) f h c = Inr c1" "mc_ok env c1"
      using set_mail_flag_ok [OF assms(1-3) Some] by metis
    then show ?thesis using assms(5) k by simp
  qed
qed

lemma folder_names [simp]:
  "INBOX \<in> set ALL_FOLDERS" "SENT \<in> set ALL_FOLDERS" "ARCHIVE \<in> set ALL_FOLDERS" "TRASH \<in> set ALL_FOLDERS"
  "SPAM \<in> set ALL_FOLDERS" "REQUESTS \<in> set ALL_FOLDERS" "DRAFTS \<in> set ALL_FOLDERS"
  by (simp_all add: ALL_FOLDERS_def)

lemma keeps_message_flags [simp]:
  "keeps_message (\<lambda>r. r\<lparr>mr_read := b\<rparr>)" "keeps_message (\<lambda>r. r\<lparr>mr_starred := b\<rparr>)"
  "keeps_message (\<lambda>r. r\<lparr>mr_labels := g r\<rparr>)" "f \<in> set ALL_FOLDERS \<Longrightarrow> keeps_message (\<lambda>r. r\<lparr>mr_folder := f\<rparr>)"
  by (simp_all add: keeps_message_def)

section \<open>Opening the store\<close>

definition add_record :: "bytes \<times> mail_record \<Rightarrow> (bytes \<Rightarrow> mail_record option) \<Rightarrow> bytes \<Rightarrow> mail_record option" where
  "add_record p M = M(fst p := Some (snd p))"

lemma index_records_indexed:
  assumes "inj hx" "indexed hx M c"
  shows "indexed hx (fold add_record ms M) (fold (\<lambda>p. index_record hx (hx (fst p)) (snd p)) ms c)"
  using assms(2)
proof (induction ms arbitrary: M c)
  case (Cons p ms)
  have "indexed hx (add_record p M) (index_record hx (hx (fst p)) (snd p) c)"
    unfolding index_record_def add_record_def using Cons.prems assms(1) by (intro index_with_indexed) auto
  then show ?case using Cons.IH by simp
qed simp

lemma fold_upd_map_of: "distinct (map fst ms) \<Longrightarrow> fold add_record ms M = M ++ map_of ms"
proof (induction ms arbitrary: M)
  case (Cons p ms)
  then have "map_of ms (fst p) = None" by (auto simp: map_of_eq_None_iff)
  then have "add_record p M ++ map_of ms = M ++ map_of (p # ms)"
    by (cases p) (auto simp: add_record_def map_add_def fun_eq_iff split: option.split)
  moreover have "fold add_record (p # ms) M = add_record p M ++ map_of ms" using Cons by simp
  ultimately show ?case by (rule trans [rotated])
qed simp

lemma index_records_fields [simp]:
  "mc_disk (fold (\<lambda>p. index_record hx (hx (fst p)) (snd p)) ms c) = mc_disk c"
  "mc_hint (fold (\<lambda>p. index_record hx (hx (fst p)) (snd p)) ms c) = mc_hint c"
  "mc_window (fold (\<lambda>p. index_record hx (hx (fst p)) (snd p)) ms c) = mc_window c"
  "mc_settings (fold (\<lambda>p. index_record hx (hx (fst p)) (snd p)) ms c) = mc_settings c"
  by (induction ms arbitrary: c) (auto simp: index_record_def)

lemma map_of_sorted_lists: "map_of (map (\<lambda>(f, v). (f, sort v)) m) k = map_option sort (map_of m k)"
  by (induction m) auto

lemma load_ok:
  assumes "hex_ok (sk_hex env) (sk_unhex env)" "disk_ok d"
  shows "mc_ok env (mail_load (sk_hex env) d)"
    and "mc_disk (mail_load (sk_hex env) d) = d" "mc_hint (mail_load (sk_hex env) d) = hint_default"
proof -
  let ?hx = "sk_hex env"
  let ?c = "fold (\<lambda>p. index_record ?hx (?hx (fst p)) (snd p)) (md_msgs d) (unopened d)"
  let ?l = "mail_load ?hx d"
  have i: "inj ?hx" using assms(1) by (rule hex_ok_inj)
  have "indexed ?hx Map.empty (unopened d)"
    by (simp add: indexed_def unopened_def ids_of_def in_folder_def in_thread_def)
  then have "indexed ?hx (Map.empty ++ map_of (md_msgs d)) ?c"
    using index_records_indexed [OF i, of Map.empty "unopened d" "md_msgs d"]
      fold_upd_map_of [OF bt_wf_distinct, of "md_msgs d" Map.empty] assms(2)
    by (simp add: disk_ok_def)
  then have c: "indexed ?hx (map_of (md_msgs d)) ?c" by simp
  have f: "ids_of (mc_by_folder ?l) f = sort (ids_of (mc_by_folder ?c) f)" for f
    by (simp add: mail_load_def Let_def ids_of_def map_of_sorted_lists split: option.split)
  have w: "bt_wf (mc_by_folder ?l)"
  proof -
    have "map fst (mc_by_folder ?l) = map fst (mc_by_folder ?c)"
      by (simp add: mail_load_def Let_def case_prod_unfold)
    then show ?thesis using c by (simp add: bt_wf_def indexed_def)
  qed
  have same: "mc_index ?l = mc_index ?c" "mc_by_thread ?l = mc_by_thread ?c"
    by (simp_all add: mail_load_def Let_def)
  have "indexed ?hx (map_of (md_msgs d)) ?l"
    using c w by (simp add: indexed_def f same)
  moreover have "folders_sorted ?l" by (simp add: folders_sorted_def f)
  moreover show d: "mc_disk ?l = d" "mc_hint ?l = hint_default" by (simp_all add: mail_load_def Let_def unopened_def)
  ultimately show "mc_ok env ?l"
    using assms(2) by (simp add: mc_ok_def msgs_of_def) (simp add: mail_load_def Let_def unopened_def)
qed

text \<open>The folders and the index are determined by the records.\<close>

lemma folders_determined:
  assumes "indexed hx M c" "indexed hx M d" "folders_sorted c" "folders_sorted d"
  shows "ids_of (mc_by_folder c) f = ids_of (mc_by_folder d) f"
  using assms by (intro sorted_distinct_set_unique) (simp_all add: indexed_def folders_sorted_def)

lemma index_determined:
  assumes "indexed hx M c" "indexed hx M d"
  shows "mc_index c = mc_index d"
proof (rule bt_wf_ext)
  show "map_of (mc_index c) = map_of (mc_index d)"
  proof
    fix i
    show "map_of (mc_index c) i = map_of (mc_index d) i"
    proof (cases "i \<in> range hx")
      case True
      then show ?thesis using assms by (auto simp: indexed_def)
    next
      case False
      then show ?thesis using assms unfolding indexed_def by metis
    qed
  qed
qed (use assms in \<open>simp_all add: indexed_def\<close>)

end
