(* ===== verification/Mail_Outbox.thy ===== *)
theory Mail_Outbox
  imports Mail_Client
begin

text \<open>
  Sending from a device (\<open>hashgram-sdk/src/mail.rs\<close>): postage for strangers, the copies of a message
  through the groups of its recipients, the record in the Sent folder, replies to stored messages, and
  attachments.
\<close>

section \<open>Postage for first contacts\<close>

definition push_labels :: "mail_message \<Rightarrow> string list \<Rightarrow> mail_message" where
  "push_labels m ls = m\<lparr>mm_labels := mm_labels m @ take (MAX_LABELS - length (mm_labels m)) ls\<rparr>"

definition needs_stamp :: "contacts \<Rightarrow> string \<Rightarrow> string \<Rightarrow> bool" where
  "needs_stamp contacts me a \<longleftrightarrow>
     a \<noteq> me \<and> starts_with ''hash1'' a \<and> \<not> sf_is_contact (sender_facts_of contacts a)"

definition main_strangers :: "contacts \<Rightarrow> string \<Rightarrow> mail_message \<Rightarrow> string list" where
  "main_strangers contacts me m =
     take MAX_STAMPS_PER_MESSAGE (filter (needs_stamp contacts me) (map ma_address (mm_to m @ mm_cc m)))"

text \<open>The stamps of one job, one reading of the clock for each.\<close>

fun mint_stamps :: "'w sdk_env \<Rightarrow> bytes \<Rightarrow> string list \<Rightarrow> 'w \<Rightarrow> string list \<times> 'w" where
  "mint_stamps env message_id [] w = ([], w)"
| "mint_stamps env message_id (r # rs) w =
     (case sk_nanos env w of (nanos, w) \<Rightarrow>
       (case mint_stamps env message_id rs w of (ls, w) \<Rightarrow>
         ((case mint_postage (sk_blake3 env) nanos r message_id POSTAGE_BITS POSTAGE_MAX_ITERS of
             None \<Rightarrow> ls | Some l \<Rightarrow> l # ls), w)))"

fun stamp_copies :: "'w sdk_env \<Rightarrow> contacts \<Rightarrow> string \<Rightarrow> (mail_address \<times> mail_message) list \<Rightarrow> 'w \<Rightarrow>
    (mail_address \<times> mail_message) list \<times> 'w" where
  "stamp_copies env contacts me [] w = ([], w)"
| "stamp_copies env contacts me ((a, m) # cs) w =
     (case mint_stamps env (mm_message_id m) (if needs_stamp contacts me (ma_address a) then [ma_address a] else []) w of
        (ls, w) \<Rightarrow> (case stamp_copies env contacts me cs w of (cs, w) \<Rightarrow> ((a, push_labels m ls) # cs, w)))"

text \<open>Without strangers nothing is minted, and adding no labels changes nothing.\<close>

definition stamp_first_contacts :: "'w sdk_env \<Rightarrow> contacts \<Rightarrow> string \<Rightarrow> outgoing \<Rightarrow> 'w \<Rightarrow> outgoing \<times> 'w" where
  "stamp_first_contacts env contacts me out w =
     (case (case og_main out of
         None \<Rightarrow> (None, w)
       | Some m \<Rightarrow> (case mint_stamps env (mm_message_id m) (main_strangers contacts me m) w of
           (ls, w) \<Rightarrow> (Some (push_labels m ls), w))) of (main, w) \<Rightarrow>
       (case stamp_copies env contacts me (og_bcc_copies out) w of (cs, w) \<Rightarrow>
         (\<lparr>og_main = main, og_bcc_copies = cs\<rparr>, w)))"

section \<open>Handing the copies over\<close>

text \<open>One copy to the group of its participants: the group, or why it was not delivered.\<close>

definition deliver_copy :: "'w sdk_env \<Rightarrow> string list \<Rightarrow> mail_message \<Rightarrow> 'w \<Rightarrow> (string + bytes) \<times> 'w" where
  "deliver_copy env participants m w =
     (case sk_group env participants w of
        (Inl e, w) \<Rightarrow> (Inl e, w)
      | (Inr gid, w) \<Rightarrow> (case sk_send_mail env gid m w of
          (Inl e, w) \<Rightarrow> (Inl e, w) | (Inr _, w) \<Rightarrow> (Inr gid, w)))"

type_synonym sent_state = "mail_record option \<times> string list"

definition send_main :: "'w sdk_env \<Rightarrow> string \<Rightarrow> mail_message option \<Rightarrow> 'w \<Rightarrow> sent_state \<times> 'w" where
  "send_main env me main w =
     (case main of
        None \<Rightarrow> ((None, []), w)
      | Some m \<Rightarrow>
          (case deliver_copy env (filter (\<lambda>a. a \<noteq> me) (participant_set m)) m w of
             (Inl e, w) \<Rightarrow> ((None, [''main copy: '' @ e]), w)
           | (Inr gid, w) \<Rightarrow> (case sk_now_ms env w of (now, w) \<Rightarrow>
               ((Some (record_outgoing me m (sk_hex env gid) now), []), w))))"

fun send_copies :: "'w sdk_env \<Rightarrow> string \<Rightarrow> (mail_address \<times> mail_message) list \<Rightarrow> sent_state \<Rightarrow> 'w \<Rightarrow>
    sent_state \<times> 'w" where
  "send_copies env me [] st w = (st, w)"
| "send_copies env me ((a, m) # cs) (sent, errors) w =
     (case deliver_copy env [ma_address a] m w of
        (Inl e, w) \<Rightarrow> send_copies env me cs (sent, errors @ [''bcc '' @ ma_address a @ '': '' @ e]) w
      | (Inr gid, w) \<Rightarrow>
          if sent \<noteq> None then send_copies env me cs (sent, errors) w
          else (case sk_now_ms env w of (now, w) \<Rightarrow>
            (let rec = record_outgoing me m (sk_hex env gid) now
             in send_copies env me cs
                  (Some (rec\<lparr>mr_message := (mr_message rec)\<lparr>mm_bcc_copy := False\<rparr>\<rparr>), errors) w)))"

definition validate_outgoing :: "outgoing \<Rightarrow> sdk_error + unit" where
  "validate_outgoing out = lift_app (first_err (map validate_mail (opt_list (og_main out) @ map snd (og_bcc_copies out))))"

definition send_built :: "'w sdk_env \<Rightarrow> string \<Rightarrow> outgoing \<Rightarrow> mail_client \<Rightarrow> 'w \<Rightarrow>
    (sdk_error + string \<times> mail_client) \<times> 'w" where
  "send_built env me out c w =
     (case validate_outgoing out of
        Inl e \<Rightarrow> (Inl e, w)
      | Inr _ \<Rightarrow>
          (case send_main env me (og_main out) w of (st, w) \<Rightarrow>
          (case send_copies env me (og_bcc_copies out) st w of ((sent, errors), w) \<Rightarrow>
            (case sent of
               None \<Rightarrow> (Inl (SdkDelivery (join_with ''; '' errors)), w)
             | Some rec \<Rightarrow>
                 (let rec = (if errors = [] then rec else rec\<lparr>mr_labels := mr_labels rec @ [''partial-delivery'']\<rparr>);
                      i = sk_hex env (mm_message_id (mr_message rec))
                  in (map_sum id (\<lambda>c. (i, c))
                        (if se_keep_sent (mc_settings c) then mail_put env i rec c else Inr c), w))))))"

definition my_address :: "'w sdk_env \<Rightarrow> string \<Rightarrow> string \<Rightarrow> 'w \<Rightarrow> mail_address \<times> 'w" where
  "my_address env me display w =
     (case sk_username_of env me w of (r, w) \<Rightarrow>
       (\<lparr>ma_address = me, ma_username = (case r of Inl _ \<Rightarrow> [] | Inr u \<Rightarrow> u), ma_display_name = display\<rparr>, w))"

definition mail_send :: "'w sdk_env \<Rightarrow> contacts \<Rightarrow> string \<Rightarrow> string \<Rightarrow> draft \<Rightarrow> mail_client \<Rightarrow> 'w \<Rightarrow>
    (sdk_error + string \<times> mail_client) \<times> 'w" where
  "mail_send env contacts me display d c w =
     (case my_address env me display w of (a, w) \<Rightarrow>
     (case sk_random env w of (rnd, w) \<Rightarrow>
     (case sk_now_ms env w of (now, w) \<Rightarrow>
     (case lift_app (build_all rnd (\<lambda>_. now) (d\<lparr>dr_from := a\<rparr>)) of
        Inl e \<Rightarrow> (Inl e, w)
      | Inr out \<Rightarrow> (case stamp_first_contacts env contacts me out w of (out, w) \<Rightarrow> send_built env me out c w)))))"

section \<open>Replies to stored messages\<close>

definition stored_reply_draft :: "'w sdk_env \<Rightarrow> mail_client \<Rightarrow> string \<Rightarrow> string \<Rightarrow> bool \<Rightarrow> sdk_error + draft" where
  "stored_reply_draft env c me i all = and_then (mail_get_required env c i) (\<lambda>r.
     Inr (reply_draft (sk_lower env) me all (mr_message r)))"

definition stored_forward_draft :: "'w sdk_env \<Rightarrow> mail_client \<Rightarrow> string \<Rightarrow> sdk_error + draft" where
  "stored_forward_draft env c i = and_then (mail_get_required env c i) (\<lambda>r.
     Inr (forward_draft (sk_lower env) \<lparr>ma_address = [], ma_username = [], ma_display_name = []\<rparr> (mr_message r)))"

section \<open>Attachments\<close>

text \<open>Blobs and the Drive are below: downloads that may fail, the opening of a private blob, uploads.\<close>

record 'w blob_env =
  be_download :: "bytes \<Rightarrow> 'w \<Rightarrow> (sdk_error + bytes) \<times> 'w"
  be_decrypt :: "bytes \<Rightarrow> bytes \<Rightarrow> bytes \<Rightarrow> sdk_error + bytes"
  be_drive :: "drive_capability \<Rightarrow> 'w \<Rightarrow> (sdk_error + bytes) \<times> 'w"
  be_upload :: "bytes \<Rightarrow> string \<Rightarrow> 'w \<Rightarrow> (sdk_error + blob_ref) \<times> 'w"

definition open_blob :: "'w sdk_env \<Rightarrow> 'w blob_env \<Rightarrow> blob_ref \<Rightarrow> bytes \<Rightarrow> sdk_error + bytes" where
  "open_blob env be b ct =
     (if length (br_key b) \<noteq> 32 \<or> length (br_nonce b) \<noteq> 24 then Inl (SdkInvalid ''attachment key'')
      else and_then (be_decrypt be (br_key b) (br_nonce b) ct) (\<lambda>pt.
        if br_plaintext_hash b \<noteq> [] \<and> sk_blake3 env pt \<noteq> br_plaintext_hash b
        then Inl (SdkCorrupt ''attachment plaintext hash mismatch'') else Inr pt))"

definition attachment_bytes :: "'w sdk_env \<Rightarrow> 'w blob_env \<Rightarrow> mail_attachment \<Rightarrow> 'w \<Rightarrow> (sdk_error + bytes) \<times> 'w" where
  "attachment_bytes env be a w =
     (case at_source a of
        None \<Rightarrow> (Inl (SdkInvalid ''attachment has no source''), w)
      | Some (InlineData d) \<Rightarrow> (Inr d, w)
      | Some (BlobSource b) \<Rightarrow> (case be_download be (br_cid b) w of
            (Inl e, w) \<Rightarrow> (Inl e, w) | (Inr ct, w) \<Rightarrow> (open_blob env be b ct, w))
      | Some (DriveSource cap) \<Rightarrow> be_drive be cap w)"

definition make_attachment :: "'w sdk_env \<Rightarrow> 'w blob_env \<Rightarrow> string \<Rightarrow> string \<Rightarrow> bytes \<Rightarrow> 'w \<Rightarrow>
    (sdk_error + mail_attachment) \<times> 'w" where
  "make_attachment env be name mime data w =
     (let att = (\<lambda>src. \<lparr>at_name = name, at_mime = mime, at_size = word_of_nat (length data),
            at_plaintext_hash = sk_blake3 env data, at_content_id = [], at_source = Some src\<rparr>)
      in if length data \<le> MAX_INLINE_ATTACHMENT then (Inr (att (InlineData data)), w)
         else (case be_upload be data mime w of
             (Inl e, w) \<Rightarrow> (Inl e, w) | (Inr b, w) \<Rightarrow> (Inr (att (BlobSource b)), w)))"

end
