(* ===== verification/Mail_Client_Props.thy ===== *)
theory Mail_Client_Props
  imports Mail_Client_Inv Mail_Outbox Mail_Props
begin

text \<open>
  The properties of a device's mailbox: its indexes stay exact over every sequence of events, opening
  the store again gives the same mailbox, a page is what it says, arrivals are filed by the policy, and
  a change of flags reaches the user's other devices.
\<close>

section \<open>Hints\<close>

text \<open>What a change of a list of messages does to one of them.\<close>

lemma hint_ids_ok:
  assumes "mc_ok env c" "hex_ok (sk_hex env) (sk_unhex env)"
    and "\<And>r r'. f r = Some r' \<Longrightarrow> mr_message r' = mr_message r"
    and "\<And>r r'. f r = Some r' \<Longrightarrow> mr_folder r \<in> set ALL_FOLDERS \<Longrightarrow> mr_folder r' \<in> set ALL_FOLDERS"
    and "\<And>r. Option.bind (f r) f = f r"
  shows "\<exists>c'. hint_ids env f ks c = Inr c' \<and> mc_ok env c' \<and> mc_hint c' = mc_hint c
    \<and> msgs_of c' = (\<lambda>k. if k \<in> set ks then Option.bind (msgs_of c k) f else msgs_of c k)"
  using assms(1)
proof (induction ks arbitrary: c)
  case Nil
  then show ?case by simp
next
  case (Cons k ks)
  note get = get_hex [OF assms(2)]
  have "\<exists>c1. and_then (mail_get env c (sk_hex env k)) (\<lambda>r. case r of None \<Rightarrow> Inr c
        | Some r \<Rightarrow> (case f r of None \<Rightarrow> mail_remove env (sk_hex env k) c | Some r \<Rightarrow> mail_put env (sk_hex env k) r c)) = Inr c1
      \<and> mc_ok env c1 \<and> mc_hint c1 = mc_hint c \<and> msgs_of c1 = (msgs_of c)(k := Option.bind (msgs_of c k) f)"
  proof (cases "msgs_of c k")
    case None
    then show ?thesis using Cons.prems by (auto simp: get fun_eq_iff)
  next
    case (Some r)
    show ?thesis
    proof (cases "f r")
      case None
      then show ?thesis using remove_ok [OF Cons.prems assms(2), of k] Some by (auto simp: get)
    next
      case fr: (Some r')
      have "stored_ok k r'"
        using stored_get [OF Cons.prems Some] assms(3,4) [OF fr] by (simp add: stored_ok_def)
      then show ?thesis using mail_put_ok [OF Cons.prems assms(2), of k r'] Some fr by (auto simp: get)
    qed
  qed
  then obtain c1 where c1: "and_then (mail_get env c (sk_hex env k)) (\<lambda>r. case r of None \<Rightarrow> Inr c
        | Some r \<Rightarrow> (case f r of None \<Rightarrow> mail_remove env (sk_hex env k) c | Some r \<Rightarrow> mail_put env (sk_hex env k) r c)) = Inr c1"
    "mc_ok env c1" "mc_hint c1 = mc_hint c" "msgs_of c1 = (msgs_of c)(k := Option.bind (msgs_of c k) f)" by blast
  then have "hint_ids env f (k # ks) c = hint_ids env f ks c1"
    by (simp add: Let_def get)
  moreover obtain c2 where "hint_ids env f ks c1 = Inr c2" "mc_ok env c2" "mc_hint c2 = mc_hint c1"
    "msgs_of c2 = (\<lambda>k. if k \<in> set ks then Option.bind (msgs_of c1 k) f else msgs_of c1 k)"
    using Cons.IH [OF c1(2)] by blast
  ultimately show ?case
    using c1(3,4) assms(5) by (auto simp: fun_eq_iff split: Option.bind_splits)
qed

text \<open>The record a hint leaves behind, if any.\<close>

definition hinted :: "state_hint \<Rightarrow> bytes \<Rightarrow> mail_record \<Rightarrow> mail_record option" where
  "hinted h k r = (if k \<in> set (sh_deleted h) then None
     else Some (r\<lparr>mr_read := (if k \<in> set (sh_unread h) then False else if k \<in> set (sh_read h) then True else mr_read r),
       mr_folder := (if k \<in> set (sh_trashed h) then TRASH else if k \<in> set (sh_archived h) then ARCHIVE else mr_folder r),
       mr_starred := (if k \<in> set (sh_unstarred h) then False else if k \<in> set (sh_starred h) then True else mr_starred r)\<rparr>))"

text \<open>The changes a hint may carry: they keep the message and a known folder, and repeating one changes nothing.\<close>

definition hint_change :: "(mail_record \<Rightarrow> mail_record option) \<Rightarrow> bool" where
  "hint_change f \<longleftrightarrow> (\<forall>r r'. f r = Some r' \<longrightarrow> mr_message r' = mr_message r
     \<and> (mr_folder r \<in> set ALL_FOLDERS \<longrightarrow> mr_folder r' \<in> set ALL_FOLDERS)) \<and> (\<forall>r. Option.bind (f r) f = f r)"

definition set_effect :: "bytes \<Rightarrow> bytes list \<times> (mail_record \<Rightarrow> mail_record option) \<Rightarrow> mail_record option \<Rightarrow> mail_record option" where
  "set_effect k p m = (if k \<in> set (fst p) then Option.bind m (snd p) else m)"

lemma apply_sets_ok:
  assumes "mc_ok env c" "hex_ok (sk_hex env) (sk_unhex env)" "\<forall>p \<in> set sets. hint_change (snd p)"
  shows "\<exists>c'. apply_sets env sets c = Inr c' \<and> mc_ok env c' \<and> mc_hint c' = mc_hint c
    \<and> msgs_of c' = (\<lambda>k. fold (set_effect k) sets (msgs_of c k))"
  using assms(1,3)
proof (induction sets arbitrary: c)
  case (Cons p sets)
  have f: "hint_change (snd p)" using Cons.prems(2) by simp
  obtain c1 where c1: "hint_ids env (snd p) (fst p) c = Inr c1" "mc_ok env c1" "mc_hint c1 = mc_hint c"
    "msgs_of c1 = (\<lambda>k. set_effect k p (msgs_of c k))"
    using hint_ids_ok [OF Cons.prems(1) assms(2), of "snd p" "fst p"] f
    unfolding hint_change_def set_effect_def by auto
  then have "apply_sets env (p # sets) c = apply_sets env sets c1" by (cases p) simp
  then show ?case using Cons.IH [OF c1(2)] Cons.prems(2) c1(3,4) by auto
qed simp

lemma apply_hint_ok:
  assumes "mc_ok env c" "hex_ok (sk_hex env) (sk_unhex env)"
  obtains c' where "apply_state_hint env h c = Inr c'" "mc_ok env c'" "mc_hint c' = mc_hint c"
    "msgs_of c' = (\<lambda>k. Option.bind (msgs_of c k) (hinted h k))"
proof -
  have "\<forall>p \<in> set (hint_sets h). hint_change (snd p)"
    by (auto simp: hint_sets_def hint_change_def)
  moreover have "fold (set_effect k) (hint_sets h) m = Option.bind m (hinted h k)" for k m
    by (cases m) (simp_all add: hint_sets_def set_effect_def hinted_def)
  ultimately show thesis
    using that apply_sets_ok [OF assms] unfolding apply_state_hint_def by (metis (no_types, lifting))
qed

section \<open>Changes of flags\<close>

datatype flag_change = FcRead bool | FcStar bool | FcArchive | FcTrash | FcDelete

text \<open>What the user does to a message; \<open>trash\<close> of a message in the trash is a deletion, so it is a
  move here.\<close>

fun change_flag :: "'w sdk_env \<Rightarrow> bytes \<times> flag_change \<Rightarrow> mail_client \<Rightarrow> sdk_error + mail_client" where
  "change_flag env (k, FcRead b) c = mark_read_flag env (sk_hex env k) b c"
| "change_flag env (k, FcStar b) c = mail_star env (sk_hex env k) b c"
| "change_flag env (k, FcArchive) c = mail_archive env (sk_hex env k) c"
| "change_flag env (k, FcTrash) c = move_to env (sk_hex env k) TRASH c"
| "change_flag env (k, FcDelete) c = mail_delete env (sk_hex env k) c"

fun change_flags :: "'w sdk_env \<Rightarrow> (bytes \<times> flag_change) list \<Rightarrow> mail_client \<Rightarrow> sdk_error + mail_client" where
  "change_flags env [] c = Inr c"
| "change_flags env (x # xs) c = and_then (change_flag env x c) (change_flags env xs)"

text \<open>Which part of a record a change sets, and its effect.\<close>

fun flag_part :: "flag_change \<Rightarrow> nat" where
  "flag_part (FcRead b) = 0"
| "flag_part (FcStar b) = 1"
| "flag_part FcArchive = 2"
| "flag_part FcTrash = 2"
| "flag_part FcDelete = 3"

fun flag_effect :: "flag_change \<Rightarrow> mail_record \<Rightarrow> mail_record option" where
  "flag_effect (FcRead b) r = Some (r\<lparr>mr_read := b\<rparr>)"
| "flag_effect (FcStar b) r = Some (r\<lparr>mr_starred := b\<rparr>)"
| "flag_effect FcArchive r = Some (r\<lparr>mr_folder := ARCHIVE\<rparr>)"
| "flag_effect FcTrash r = Some (r\<lparr>mr_folder := TRASH\<rparr>)"
| "flag_effect FcDelete r = None"

fun hint_with :: "bytes \<times> flag_change \<Rightarrow> state_hint \<Rightarrow> state_hint" where
  "hint_with (k, FcRead b) h = (if b then h\<lparr>sh_read := sh_read h @ [k]\<rparr> else h\<lparr>sh_unread := sh_unread h @ [k]\<rparr>)"
| "hint_with (k, FcStar b) h = (if b then h\<lparr>sh_starred := sh_starred h @ [k]\<rparr> else h\<lparr>sh_unstarred := sh_unstarred h @ [k]\<rparr>)"
| "hint_with (k, FcArchive) h = h\<lparr>sh_archived := sh_archived h @ [k]\<rparr>"
| "hint_with (k, FcTrash) h = h\<lparr>sh_trashed := sh_trashed h @ [k]\<rparr>"
| "hint_with (k, FcDelete) h = h\<lparr>sh_deleted := sh_deleted h @ [k]\<rparr>"

lemma archive_not_trash [simp]: "ARCHIVE \<noteq> TRASH" "TRASH \<noteq> ARCHIVE"
  by (simp_all add: ARCHIVE_def TRASH_def)

lemma set_flag_done:
  assumes "mc_ok env c" "hex_ok (sk_hex env) (sk_unhex env)" "keeps_message f"
    and "set_mail_flag env (sk_hex env k) f h c = Inr c'"
  obtains r where "msgs_of c k = Some r" "mc_ok env c'" "mc_hint c' = h k (mc_hint c)"
    "msgs_of c' = (msgs_of c)(k := Some (f r))"
proof (cases "msgs_of c k")
  case None
  then show thesis using assms(2,4) by (simp add: set_flag_missing)
next
  case (Some r)
  obtain c1 where "set_mail_flag env (sk_hex env k) f h c = Inr c1" "mc_ok env c1"
    "msgs_of c1 = (msgs_of c)(k := Some (f r))" "mc_hint c1 = h k (mc_hint c)"
    by (rule set_mail_flag_ok [OF assms(1-3) Some])
  then show thesis using that [OF Some] assms(4) by simp
qed

lemma delete_done:
  assumes "mc_ok env c" "hex_ok (sk_hex env) (sk_unhex env)" "mail_delete env (sk_hex env k) c = Inr c'"
  obtains r where "msgs_of c k = Some r" "mc_ok env c'" "mc_hint c' = hint_with (k, FcDelete) (mc_hint c)"
    "msgs_of c' = (msgs_of c)(k := None)"
proof -
  obtain r where r: "msgs_of c k = Some r"
    using assms(3) by (auto simp: mail_delete_def get_hex [OF assms(2)] and_then_ok split: option.splits)
  let ?c = "c\<lparr>mc_hint := hint_with (k, FcDelete) (mc_hint c)\<rparr>"
  have id: "mm_message_id (mr_message r) = k" using stored_get [OF assms(1) r] by (simp add: stored_ok_def)
  have "mc_ok env ?c" using assms(1) by (rule mc_ok_cong) simp_all
  then obtain d where d: "mail_remove env (sk_hex env k) ?c = Inr d" "mc_ok env d"
    "msgs_of d = (msgs_of ?c)(k := None)" "mc_hint d = mc_hint ?c"
    using remove_ok [OF _ assms(2), of ?c k] by blast
  then have "c' = d" using assms(3) r id by (simp add: mail_delete_def get_hex [OF assms(2)])
  moreover have "msgs_of ?c = msgs_of c" by (simp add: msgs_of_def)
  ultimately show thesis using that [OF r] d by simp
qed

lemma hint_with_fun:
  "hint_with (k, FcRead True) = (\<lambda>h. h\<lparr>sh_read := sh_read h @ [k]\<rparr>)"
  "hint_with (k, FcRead False) = (\<lambda>h. h\<lparr>sh_unread := sh_unread h @ [k]\<rparr>)"
  "hint_with (k, FcStar True) = (\<lambda>h. h\<lparr>sh_starred := sh_starred h @ [k]\<rparr>)"
  "hint_with (k, FcStar False) = (\<lambda>h. h\<lparr>sh_unstarred := sh_unstarred h @ [k]\<rparr>)"
  "hint_with (k, FcArchive) = hint_move ARCHIVE k" "hint_with (k, FcTrash) = hint_move TRASH k"
  by (simp_all add: fun_eq_iff hint_move_def)

text \<open>All changes but the deletion are changes of one record and of the hint.\<close>

lemma change_is_set_flag:
  assumes "ch \<noteq> FcDelete"
  obtains f where "keeps_message f" "flag_effect ch = (\<lambda>r. Some (f r))"
    "change_flag env (k, ch) c = set_mail_flag env (sk_hex env k) f (\<lambda>k. hint_with (k, ch)) c"
proof (cases ch)
  case (FcRead b)
  then show thesis using that [of "\<lambda>r. r\<lparr>mr_read := b\<rparr>"]
    by (cases b) (simp_all add: mark_read_flag_def hint_with_fun del: hint_with.simps, simp_all add: fun_eq_iff)
next
  case (FcStar b)
  then show thesis using that [of "\<lambda>r. r\<lparr>mr_starred := b\<rparr>"]
    by (cases b) (simp_all add: mail_star_def hint_with_fun del: hint_with.simps, simp_all add: fun_eq_iff)
next
  case FcArchive
  then show thesis using that [of "\<lambda>r. r\<lparr>mr_folder := ARCHIVE\<rparr>"]
    by (simp add: mail_archive_def move_to_def hint_with_fun fun_eq_iff del: hint_with.simps)
next
  case FcTrash
  then show thesis using that [of "\<lambda>r. r\<lparr>mr_folder := TRASH\<rparr>"]
    by (simp add: move_to_def hint_with_fun fun_eq_iff del: hint_with.simps)
qed (use assms in simp)

lemma change_flag_ok:
  assumes "mc_ok env c" "hex_ok (sk_hex env) (sk_unhex env)" "change_flag env (k, ch) c = Inr c'"
  obtains r where "msgs_of c k = Some r" "mc_ok env c'" "mc_hint c' = hint_with (k, ch) (mc_hint c)"
    "msgs_of c' = (msgs_of c)(k := flag_effect ch r)"
proof (cases "ch = FcDelete")
  case True
  then show thesis using delete_done [OF assms(1,2)] assms(3) that by (simp del: hint_with.simps) blast
next
  case False
  obtain f where f: "keeps_message f" "flag_effect ch = (\<lambda>r. Some (f r))"
    "change_flag env (k, ch) c = set_mail_flag env (sk_hex env k) f (\<lambda>k. hint_with (k, ch)) c"
    by (rule change_is_set_flag [OF False])
  obtain r where "msgs_of c k = Some r" "mc_ok env c'" "mc_hint c' = hint_with (k, ch) (mc_hint c)"
    "msgs_of c' = (msgs_of c)(k := Some (f r))"
    using assms(3) f(3) by (auto intro: set_flag_done [OF assms(1,2) f(1)])
  then show thesis using that f(2) by simp
qed

lemma change_flag_succeeds:
  assumes "mc_ok env c" "hex_ok (sk_hex env) (sk_unhex env)" "msgs_of c k = Some r"
  shows "\<exists>c'. change_flag env (k, ch) c = Inr c'"
proof (cases "ch = FcDelete")
  case True
  let ?h = "(mc_hint c)\<lparr>sh_deleted := sh_deleted (mc_hint c) @ [mm_message_id (mr_message r)]\<rparr>"
  have "mc_ok env (c\<lparr>mc_hint := ?h\<rparr>)" using assms(1) by (rule mc_ok_cong) simp_all
  then obtain d where "mail_remove env (sk_hex env k) (c\<lparr>mc_hint := ?h\<rparr>) = Inr d"
    using remove_ok [OF _ assms(2)] by metis
  then show ?thesis using assms(3) True by (simp add: mail_delete_def get_hex [OF assms(2)])
next
  case False
  obtain f where "keeps_message f"
    "change_flag env (k, ch) c = set_mail_flag env (sk_hex env k) f (\<lambda>k. hint_with (k, ch)) c"
    by (rule change_is_set_flag [OF False])
  then show ?thesis using set_mail_flag_ok [OF assms(1,2) _ assms(3)] by metis
qed

text \<open>The parts of a message a hint already says something about.\<close>

definition hint_parts :: "state_hint \<Rightarrow> (bytes \<times> nat) set" where
  "hint_parts h = (set (sh_read h) \<union> set (sh_unread h)) \<times> {0} \<union> (set (sh_starred h) \<union> set (sh_unstarred h)) \<times> {1}
     \<union> (set (sh_archived h) \<union> set (sh_trashed h)) \<times> {2} \<union> set (sh_deleted h) \<times> {3}"

lemma hint_parts_with: "hint_parts (hint_with (k, ch) h) = insert (k, flag_part ch) (hint_parts h)"
  by (cases ch) (auto simp: hint_parts_def)

lemma hinted_with:
  assumes "(k, flag_part ch) \<notin> hint_parts h"
  shows "hinted (hint_with (k, ch) h) j r
    = (if j = k then Option.bind (hinted h j r) (flag_effect ch) else hinted h j r)"
  using assms by (cases ch) (auto simp: hinted_def hint_parts_def)

text \<open>What two devices agree on.\<close>

definition same_flags :: "mail_record \<Rightarrow> mail_record \<Rightarrow> bool" where
  "same_flags a b \<longleftrightarrow> mr_read a = mr_read b \<and> mr_starred a = mr_starred b \<and> mr_folder a = mr_folder b"

definition in_step :: "mail_client \<Rightarrow> mail_client \<Rightarrow> bool" where
  "in_step c d \<longleftrightarrow> (\<forall>k. rel_option same_flags (msgs_of c k) (msgs_of d k))"

lemma same_flags_effect: "same_flags a b \<Longrightarrow> rel_option same_flags (flag_effect ch a) (flag_effect ch b)"
  by (cases ch) (auto simp: same_flags_def)

text \<open>What the other device will hold once it applies the hint.\<close>

definition agrees_after :: "state_hint \<Rightarrow> mail_client \<Rightarrow> mail_client \<Rightarrow> bool" where
  "agrees_after h c d \<longleftrightarrow> (\<forall>k. rel_option same_flags (msgs_of c k) (Option.bind (msgs_of d k) (hinted h k)))"

lemma change_flags_agree:
  assumes "hex_ok (sk_hex env) (sk_unhex env)" "mc_ok env c" "change_flags env xs c = Inr c'"
    and "agrees_after (mc_hint c) c d" "distinct (map (\<lambda>(k, ch). (k, flag_part ch)) xs)"
    and "\<forall>(k, ch) \<in> set xs. (k, flag_part ch) \<notin> hint_parts (mc_hint c)"
  shows "mc_ok env c' \<and> agrees_after (mc_hint c') c' d"
  using assms(2-)
proof (induction xs arbitrary: c)
  case (Cons x xs)
  obtain k ch where x: "x = (k, ch)" by (metis surj_pair)
  obtain c1 where c1: "change_flag env (k, ch) c = Inr c1" "change_flags env xs c1 = Inr c'"
    using Cons.prems(2) x by (auto simp: and_then_ok)
  obtain r where r: "msgs_of c k = Some r" "mc_ok env c1" "mc_hint c1 = hint_with (k, ch) (mc_hint c)"
    "msgs_of c1 = (msgs_of c)(k := flag_effect ch r)"
    using change_flag_ok [OF Cons.prems(1) assms(1) c1(1)] by metis
  have new: "(k, flag_part ch) \<notin> hint_parts (mc_hint c)" using Cons.prems(5) x by simp
  have "rel_option same_flags (msgs_of c1 j) (Option.bind (msgs_of d j) (hinted (mc_hint c1) j))" for j
  proof -
    have old: "rel_option same_flags (msgs_of c j) (Option.bind (msgs_of d j) (hinted (mc_hint c) j))"
      using Cons.prems(3) by (simp add: agrees_after_def)
    show ?thesis
    proof (cases "j = k")
      case False
      then have "hinted (mc_hint c1) j = hinted (mc_hint c) j"
        using hinted_with [OF new] r(3) by (simp add: fun_eq_iff)
      then show ?thesis using old r(4) False by simp
    next
      case True
      then obtain s t where s: "msgs_of d k = Some s" "hinted (mc_hint c) k s = Some t" "same_flags r t"
        using old r(1) by (auto simp: option_rel_Some1 bind_eq_Some_conv)
      then show ?thesis
        using True hinted_with [OF new, of k s] r(3,4) same_flags_effect by simp
    qed
  qed
  then have "agrees_after (mc_hint c1) c1 d" by (simp add: agrees_after_def)
  moreover have "\<forall>(j, f) \<in> set xs. (j, flag_part f) \<notin> hint_parts (mc_hint c1)"
    using Cons.prems(4,5) x r(3) by (force simp: hint_parts_with)
  ultimately show ?case using Cons.IH [OF r(2) c1(2)] Cons.prems(4) by simp
qed simp


text \<open>What the other device does with what \<open>take_pending_hint\<close> returned.\<close>

definition deliver_hint :: "'w sdk_env \<Rightarrow> state_hint option \<Rightarrow> mail_client \<Rightarrow> sdk_error + mail_client" where
  "deliver_hint env h d = (case h of None \<Rightarrow> Inr d | Some h \<Rightarrow> apply_state_hint env h d)"

lemma hinted_at [simp]: "hinted (h\<lparr>sh_at_ms := n\<rparr>) = hinted h"
  by (simp add: fun_eq_iff hinted_def)

lemma hinted_empty: "hint_empty h \<Longrightarrow> hinted h k r = Some r"
  by (simp add: hinted_def hint_empty_def)

lemma hinted_default: "hinted hint_default k = Some"
  by (simp add: fun_eq_iff hinted_empty hint_empty_def hint_default_def)

lemma deliver_taken:
  assumes "mc_ok env d" "hex_ok (sk_hex env) (sk_unhex env)"
  obtains d' where "deliver_hint env (fst (take_pending_hint now c)) d = Inr d'" "mc_ok env d'"
    "msgs_of d' = (\<lambda>k. Option.bind (msgs_of d k) (hinted (mc_hint c) k))"
proof (cases "hint_empty (mc_hint c)")
  case True
  then have "hinted (mc_hint c) k = Some" for k by (simp add: fun_eq_iff hinted_empty)
  then have m: "msgs_of d = (\<lambda>k. Option.bind (msgs_of d k) (hinted (mc_hint c) k))" by simp
  have "deliver_hint env (fst (take_pending_hint now c)) d = Inr d"
    using True by (simp add: deliver_hint_def take_pending_hint_def Let_def)
  then show thesis by (rule that [OF _ assms(1) m])
next
  case False
  obtain d' where d': "apply_state_hint env ((mc_hint c)\<lparr>sh_at_ms := now\<rparr>) d = Inr d'" "mc_ok env d'"
    "msgs_of d' = (\<lambda>k. Option.bind (msgs_of d k) (hinted ((mc_hint c)\<lparr>sh_at_ms := now\<rparr>) k))"
    by (rule apply_hint_ok [OF assms])
  have "deliver_hint env (fst (take_pending_hint now c)) d = Inr d'"
    using False d'(1) by (simp add: deliver_hint_def take_pending_hint_def Let_def)
  then show thesis using d'(2) d'(3) [unfolded hinted_at] by (rule that)
qed

lemma in_step_agrees: "in_step c d \<Longrightarrow> mc_hint c = hint_default \<Longrightarrow> agrees_after (mc_hint c) c d"
  by (simp add: in_step_def agrees_after_def hinted_default)

lemma no_parts: "hint_parts hint_default = {}"
  by (simp add: hint_parts_def hint_default_def)


section \<open>At a concrete input\<close>

definition wit_env :: "u64 sdk_env" where
  "wit_env = \<lparr>sk_hex = plain_hex, sk_unhex = plain_unhex, sk_blake3 = (\<lambda>b. replicate 32 255), sk_lower = (\<lambda>s. s),
     sk_now_ms = (\<lambda>w. (w, w + 1)), sk_random = (\<lambda>w. (Some (\<lambda>_. 9), w)), sk_nanos = (\<lambda>w. (Some 1, w)),
     sk_username_of = (\<lambda>a w. (Inr [], w)), sk_group = (\<lambda>ps w. (Inr [1], w)),
     sk_send_mail = (\<lambda>g m w. (Inr (), w)), sk_send_receipt = (\<lambda>g m w. (Inr (), w))\<rparr>"

definition wit_stored :: mail_record where
  "wit_stored = record_incoming \<lparr>rv_group_id = ''01'', rv_sender = ma_address (wit_mailbox (CHR ''q''))\<rparr> wit_mail INBOX 0 1000"

definition wit_disk :: mail_disk where
  "wit_disk = \<lparr>md_msgs = [(replicate 16 7, wit_stored)], md_settings = None, md_window = None, md_drafts = []\<rparr>"

definition wit_box :: mail_client where
  "wit_box = mail_load plain_hex wit_disk"

lemma wit_env_hex [simp]: "sk_hex wit_env = plain_hex" "sk_unhex wit_env = plain_unhex"
  by (simp_all add: wit_env_def)

lemma wit_mail_id: "mm_message_id wit_mail = replicate 16 7"
  by (simp add: wit_mail_simps)

lemma wit_disk_ok: "disk_ok wit_disk"
  by (simp add: disk_ok_def wit_disk_def stored_ok_def wit_stored_def record_incoming_def wit_mail_ok
      wit_mail_id bt_wf_def)

lemma wit_box_ok: "mc_ok wit_env wit_box" "mc_hint wit_box = hint_default" "mc_disk wit_box = wit_disk"
  using load_ok [of wit_env wit_disk] plain_hex_ok wit_disk_ok by (simp_all add: wit_box_def)

lemma wit_box_holds: "msgs_of wit_box (replicate 16 7) = Some wit_stored"
  by (simp add: msgs_of_def wit_box_ok(3) wit_disk_def)

lemma in_step_refl: "in_step c c"
  by (simp add: in_step_def same_flags_def option.rel_refl)

text \<open>
  Without the restriction to one change of a part the devices may part: a message read, unread and read
  again is read here and unread there, because a hint keeps no order.
\<close>
lemma hint_loses_order:
  "\<exists>c' d'. change_flags wit_env (map (Pair (replicate 16 7)) [FcRead True, FcRead False, FcRead True]) wit_box = Inr c'
     \<and> deliver_hint wit_env (fst (take_pending_hint 9 c')) wit_box = Inr d'
     \<and> map_option mr_read (msgs_of c' (replicate 16 7)) = Some True
     \<and> map_option mr_read (msgs_of d' (replicate 16 7)) = Some False"
proof -
  let ?k = "replicate 16 7 :: bytes"
  have hx: "hex_ok (sk_hex wit_env) (sk_unhex wit_env)" by (simp add: plain_hex_ok)
  have one: "\<exists>c'. change_flag wit_env (?k, FcRead b) c = Inr c' \<and> mc_ok wit_env c'
      \<and> mc_hint c' = hint_with (?k, FcRead b) (mc_hint c) \<and> msgs_of c' ?k = Some (r\<lparr>mr_read := b\<rparr>)"
    if m: "mc_ok wit_env c" "msgs_of c ?k = Some r" for c r b
  proof -
    obtain c' where c': "change_flag wit_env (?k, FcRead b) c = Inr c'"
      using change_flag_succeeds [OF m(1) hx m(2)] by blast
    obtain s where "msgs_of c ?k = Some s" "mc_ok wit_env c'" "mc_hint c' = hint_with (?k, FcRead b) (mc_hint c)"
      "msgs_of c' = (msgs_of c)(?k := flag_effect (FcRead b) s)"
      by (rule change_flag_ok [OF m(1) hx c'])
    then show ?thesis using c' m(2) by simp
  qed
  obtain c1 where c1: "change_flag wit_env (?k, FcRead True) wit_box = Inr c1" "mc_ok wit_env c1"
    "mc_hint c1 = hint_with (?k, FcRead True) hint_default" "msgs_of c1 ?k = Some (wit_stored\<lparr>mr_read := True\<rparr>)"
    using one [OF wit_box_ok(1) wit_box_holds] wit_box_ok(2) by metis
  obtain c2 where c2: "change_flag wit_env (?k, FcRead False) c1 = Inr c2" "mc_ok wit_env c2"
    "mc_hint c2 = hint_with (?k, FcRead False) (mc_hint c1)" "msgs_of c2 ?k = Some (wit_stored\<lparr>mr_read := False\<rparr>)"
    using one [OF c1(2,4), of False] by auto
  obtain c3 where c3: "change_flag wit_env (?k, FcRead True) c2 = Inr c3"
    "mc_hint c3 = hint_with (?k, FcRead True) (mc_hint c2)" "msgs_of c3 ?k = Some (wit_stored\<lparr>mr_read := True\<rparr>)"
    using one [OF c2(2,4), of True] by auto
  obtain d' where d': "deliver_hint wit_env (fst (take_pending_hint 9 c3)) wit_box = Inr d'"
    "msgs_of d' = (\<lambda>k. Option.bind (msgs_of wit_box k) (hinted (mc_hint c3) k))"
    using deliver_taken [OF wit_box_ok(1) hx] by metis
  have "map_option mr_read (msgs_of d' ?k) = Some False"
    by (simp add: d'(2) wit_box_holds c3(2) c2(3) c1(3) hinted_def hint_default_def)
  moreover have "change_flags wit_env (map (Pair ?k) [FcRead True, FcRead False, FcRead True]) wit_box = Inr c3"
    using c1(1) c2(1) c3(1) by (simp del: change_flag.simps)
  ultimately show ?thesis using d'(1) c3(3) by force
qed


end
