(* ===== verification/Mail_Client_Files.thy ===== *)
theory Mail_Client_Files
  imports Mail_Client_Props
begin

text \<open>
  What an arrival leaves behind in a device's mailbox, what a purge removes, and what a page shows.
\<close>

section \<open>Arrivals\<close>

text \<open>The user wrote to an address before: some filed message of the Sent folder went to it.\<close>

definition written_before :: "mail_client \<Rightarrow> string \<Rightarrow> bool" where
  "written_before c a \<longleftrightarrow> (\<exists>r \<in> ran (msgs_of c). mr_folder r = SENT
     \<and> a \<in> ma_address ` set (mm_to (mr_message r) @ mm_cc (mr_message r)))"

lemma ids_exact: "mc_ok env c \<Longrightarrow> set (ids_of (mc_by_folder c) f) = in_folder (sk_hex env) (msgs_of c) f"
  by (simp add: mc_ok_def indexed_def)

lemma written_to_iff:
  assumes "mc_ok env c" "hex_ok (sk_hex env) (sk_unhex env)"
  shows "written_to env c a \<longleftrightarrow> written_before c a"
proof -
  let ?P = "\<lambda>r. list_ex (\<lambda>x. ma_address x = a) (mm_to (mr_message r) @ mm_cc (mr_message r))"
  have "written_to env c a \<longleftrightarrow> (\<exists>p \<in> in_folder (sk_hex env) (msgs_of c) SENT.
      case mail_get env c (snd p) of Inl _ \<Rightarrow> False | Inr None \<Rightarrow> False | Inr (Some r) \<Rightarrow> ?P r)"
    unfolding written_to_def list_ex_iff ids_exact [OF assms(1)] case_prod_unfold by (rule refl)
  also have "\<dots> \<longleftrightarrow> (\<exists>k r. msgs_of c k = Some r \<and> mr_folder r = SENT \<and> ?P r)"
  proof
    assume "\<exists>p \<in> in_folder (sk_hex env) (msgs_of c) SENT.
      case mail_get env c (snd p) of Inl _ \<Rightarrow> False | Inr None \<Rightarrow> False | Inr (Some r) \<Rightarrow> ?P r"
    then obtain k r where "msgs_of c k = Some r" "mr_folder r = SENT"
      "case mail_get env c (sk_hex env k) of Inl _ \<Rightarrow> False | Inr None \<Rightarrow> False | Inr (Some r) \<Rightarrow> ?P r"
      unfolding in_folder_def by auto
    then show "\<exists>k r. msgs_of c k = Some r \<and> mr_folder r = SENT \<and> ?P r"
      unfolding get_hex(2) [OF assms(2)] by auto
  next
    assume "\<exists>k r. msgs_of c k = Some r \<and> mr_folder r = SENT \<and> ?P r"
    then obtain k r where r: "msgs_of c k = Some r" "mr_folder r = SENT" "?P r" by blast
    then have "(mr_received_at_ms r, sk_hex env k) \<in> in_folder (sk_hex env) (msgs_of c) SENT"
      unfolding in_folder_def by blast
    moreover have "case mail_get env c (sk_hex env k) of Inl _ \<Rightarrow> False | Inr None \<Rightarrow> False | Inr (Some r) \<Rightarrow> ?P r"
      unfolding get_hex(2) [OF assms(2)] using r by simp
    ultimately show "\<exists>p \<in> in_folder (sk_hex env) (msgs_of c) SENT.
      case mail_get env c (snd p) of Inl _ \<Rightarrow> False | Inr None \<Rightarrow> False | Inr (Some r) \<Rightarrow> ?P r" by force
  qed
  also have "\<dots> \<longleftrightarrow> written_before c a" by (auto simp: written_before_def ran_def list_ex_iff)
  finally show ?thesis .
qed

definition inbox_is_open :: "contacts \<Rightarrow> mail_client \<Rightarrow> string \<Rightarrow> bool" where
  "inbox_is_open contacts c a \<longleftrightarrow> (let f = sender_facts_of contacts a in
     sf_is_trusted f \<or> sf_is_contact f \<or> (written_before c a \<and> \<not> sf_is_muted f))"

definition unwelcome :: "contacts \<Rightarrow> string \<Rightarrow> mail_message \<Rightarrow> bool" where
  "unwelcome contacts a msg \<longleftrightarrow> sf_is_blocked (sender_facts_of contacts a) \<or> impersonates a msg"

lemma arrival_facts_form:
  obtains n w' where "arrival_facts env contacts me a msg c w = ((sender_facts_of contacts a)
      \<lparr>sf_has_username := n, sf_previously_written_to := written_to env c a,
        sf_prior_messages := word_of_nat (min (length (ids_of (mc_by_folder c) INBOX)) 100),
        sf_is_blocked := unwelcome contacts a msg, sf_postage_bits := postage_bits (sk_blake3 env) msg me\<rparr>, w')"
proof (cases "sf_has_username (sender_facts_of contacts a)")
  case True
  then show thesis using that [of True w] by (simp add: arrival_facts_def Let_def unwelcome_def)
next
  case False
  obtain r w1 where "sk_username_of env a w = (r, w1)" by (metis surj_pair)
  then show thesis using that False
    by (cases r) (simp_all add: arrival_facts_def Let_def unwelcome_def)
qed

lemma dispose_decides:
  "(fst (dispose f m now w) = Drop \<longleftrightarrow> sf_is_blocked f)
   \<and> (fst (dispose f m now w) = Inbox \<longleftrightarrow> \<not> sf_is_blocked f \<and> known_sender f)"
proof (cases "sf_is_blocked f \<or> known_sender f")
  case True
  then show ?thesis by (cases "sf_is_blocked f") (simp_all add: dispose_blocked dispose_known)
next
  case False
  then have b: "\<not> sf_is_blocked f" "\<not> known_sender f" by simp_all
  have "(if a then Spam else if a' then Spam else if a'' then Requests else Spam) \<notin> {Drop, Inbox}" for a a' a''
    by simp
  then have "fst (dispose f m now w) \<notin> {Drop, Inbox}"
    unfolding dispose_unknown [OF b] fst_conv .
  then show ?thesis using False by blast
qed

lemma folder_of_drop: "folder_of d = None \<longleftrightarrow> d = Drop"
  by (cases d) (simp_all add: folder_of_def)

lemma folder_of_file: "folder_of d = Some f \<Longrightarrow> f \<in> {INBOX, REQUESTS, SPAM} \<and> (f = INBOX \<longleftrightarrow> d = Inbox)"
  by (cases d) (auto simp: folder_of_def INBOX_def REQUESTS_def SPAM_def)

lemma known_message:
  assumes "mc_ok env c"
  shows "map_of (mc_index c) (sk_hex env k) = None \<longleftrightarrow> msgs_of c k = None"
  using assms by (simp add: mc_ok_def indexed_def)

text \<open>What one arrival leaves behind.\<close>

definition filed :: "contacts \<Rightarrow> string \<Rightarrow> received \<Rightarrow> mail_message \<Rightarrow> mail_client \<Rightarrow> mail_record \<Rightarrow> bool" where
  "filed contacts me r msg c rec \<longleftrightarrow> mr_message rec = msg \<and> mr_sender rec = rv_sender r
     \<and> (if rv_sender r = me then mr_folder rec = SENT \<and> mr_outgoing rec
        else \<not> unwelcome contacts (rv_sender r) msg \<and> \<not> mr_outgoing rec \<and> mr_folder rec \<in> {INBOX, REQUESTS, SPAM}
          \<and> (mr_folder rec = INBOX \<longleftrightarrow> inbox_is_open contacts c (rv_sender r)))"

lemma receive_foreign_ok:
  assumes "mc_ok env c" "hex_ok (sk_hex env) (sk_unhex env)" "validate_mail msg = Inr ()" "rv_sender r \<noteq> me"
  shows "\<exists>x c' w'. receive_foreign env contacts me r msg c w = (Inr (x, c'), w') \<and> mc_ok env c'
    \<and> (case x of None \<Rightarrow> unwelcome contacts (rv_sender r) msg \<and> msgs_of c' = msgs_of c
        | Some rec \<Rightarrow> filed contacts me r msg c rec \<and> msgs_of c' = (msgs_of c)(mm_message_id msg \<mapsto> rec))"
proof -
  obtain facts w1 where f: "arrival_facts env contacts me (rv_sender r) msg c w = (facts, w1)"
    "known_sender facts \<longleftrightarrow> inbox_is_open contacts c (rv_sender r)"
    "sf_is_blocked facts \<longleftrightarrow> unwelcome contacts (rv_sender r) msg"
  proof (rule arrival_facts_form [of env contacts me "rv_sender r" msg c w], goal_cases)
    case (1 n w')
    show ?case
      by (rule 1(1) [OF 1(2)])
        (simp_all add: known_sender_def inbox_is_open_def Let_def written_to_iff [OF assms(1,2)])
  qed
  obtain now w2 where n: "sk_now_ms env w1 = (now, w2)" by (metis surj_pair)
  obtain d win where d: "dispose facts msg (now div 1000) (mc_window c) = (d, win)" by (metis surj_pair)
  let ?c = "c\<lparr>mc_window := win, mc_disk := (mc_disk c)\<lparr>md_window := Some win\<rparr>\<rparr>"
  have c: "mc_ok env ?c"
    using assms(1) indexed_cong [of "sk_hex env" "msgs_of c" c ?c] folders_sorted_cong [of ?c c]
    by (simp add: mc_ok_def disk_ok_def msgs_of_def)
  have m: "msgs_of ?c = msgs_of c" by (simp add: msgs_of_def)
  have pol: "d = Drop \<longleftrightarrow> unwelcome contacts (rv_sender r) msg"
    "d = Inbox \<longleftrightarrow> \<not> unwelcome contacts (rv_sender r) msg \<and> inbox_is_open contacts c (rv_sender r)"
    using dispose_decides [of facts msg "now div 1000" "mc_window c"] d f(2,3) by simp_all
  show ?thesis
  proof (cases "folder_of d")
    case None
    then show ?thesis
      using f(1) n d c m pol(1) folder_of_drop [of d] by (simp add: receive_foreign_def Let_def del: disposition.case)
  next
    case (Some fl)
    obtain now' w3 where n': "sk_now_ms env w2 = (now', w3)" by (metis surj_pair)
    let ?rec = "record_incoming r msg fl (trust_score facts msg) now'"
    have fl: "fl \<in> {INBOX, REQUESTS, SPAM}" "fl = INBOX \<longleftrightarrow> d = Inbox" "d \<noteq> Drop"
      using folder_of_file [OF Some] folder_of_drop [of d] Some by auto
    then have "stored_ok (mm_message_id msg) ?rec"
      using assms(3) by (auto simp: stored_ok_def record_incoming_def)
    then obtain c' where c': "mail_put env (sk_hex env (mm_message_id msg)) ?rec ?c = Inr c'" "mc_ok env c'"
      "msgs_of c' = (msgs_of ?c)(mm_message_id msg := Some ?rec)"
      using mail_put_ok [OF c assms(2)] by metis
    have "filed contacts me r msg c ?rec"
      using assms(4) fl pol by (auto simp: filed_def record_incoming_def)
    then show ?thesis using f(1) n d n' Some c' m by (simp add: receive_foreign_def Let_def)
  qed
qed

lemma received_ok:
  assumes "hex_ok (sk_hex env) (sk_unhex env)" "mc_ok env c" "validate_mail msg = Inr ()"
  shows "\<exists>x c' w'. receive_mail env contacts me r msg c w = (Inr (x, c'), w') \<and> mc_ok env c'
    \<and> (case x of
        None \<Rightarrow> msgs_of c' = msgs_of c
          \<and> (msgs_of c (mm_message_id msg) \<noteq> None \<or> rv_sender r \<noteq> me \<and> unwelcome contacts (rv_sender r) msg)
      | Some rec \<Rightarrow> filed contacts me r msg c rec \<and> msgs_of c (mm_message_id msg) = None
          \<and> msgs_of c' = (msgs_of c)(mm_message_id msg \<mapsto> rec))"
proof (cases "msgs_of c (mm_message_id msg)")
  case (Some old)
  then show ?thesis
    using assms known_message [OF assms(2), of "mm_message_id msg"]
    by (simp add: receive_mail_def lift_app_def Let_def)
next
  case None
  then have new: "map_of (mc_index c) (sk_hex env (mm_message_id msg)) = None"
    using known_message [OF assms(2)] by simp
  show ?thesis
  proof (cases "rv_sender r = me")
    case True
    obtain now w1 where n: "sk_now_ms env w = (now, w1)" by (metis surj_pair)
    let ?rec = "record_outgoing me msg (rv_group_id r) now"
    have "stored_ok (mm_message_id msg) ?rec" using assms(3) by (simp add: stored_ok_def record_outgoing_def)
    then obtain c' where c': "mail_put env (sk_hex env (mm_message_id msg)) ?rec c = Inr c'" "mc_ok env c'"
      "msgs_of c' = (msgs_of c)(mm_message_id msg := Some ?rec)"
      using mail_put_ok [OF assms(2,1)] by metis
    moreover have "filed contacts me r msg c ?rec" using True by (simp add: filed_def record_outgoing_def)
    ultimately show ?thesis using new None True n assms(3) by (simp add: receive_mail_def lift_app_def Let_def)
  next
    case False
    have "receive_mail env contacts me r msg c w = receive_foreign env contacts me r msg c w"
      using False new assms(3) by (simp add: receive_mail_def lift_app_def Let_def)
    moreover obtain x c' w' where "receive_foreign env contacts me r msg c w = (Inr (x, c'), w')" "mc_ok env c'"
      "case x of None \<Rightarrow> unwelcome contacts (rv_sender r) msg \<and> msgs_of c' = msgs_of c
        | Some rec \<Rightarrow> filed contacts me r msg c rec \<and> msgs_of c' = (msgs_of c)(mm_message_id msg \<mapsto> rec)"
      using receive_foreign_ok [OF assms(2,1,3) False, of contacts w] by blast
    ultimately show ?thesis using None False by (cases x) simp_all
  qed
qed


section \<open>Purging\<close>

definition outlived :: "mail_settings \<Rightarrow> u64 \<Rightarrow> mail_record \<Rightarrow> bool" where
  "outlived s now r \<longleftrightarrow> (se_purge_after_days s \<noteq> 0 \<and> mr_folder r \<in> {TRASH, SPAM}
       \<and> sat_sub now (mr_received_at_ms r) > ucast (se_purge_after_days s) * 86400000)
     \<or> (mr_read r \<and> expired now r)"

lemma remove_all_ok:
  assumes "hex_ok (sk_hex env) (sk_unhex env)" "mc_ok env c" "set js \<subseteq> range (sk_hex env)"
  shows "\<exists>c'. remove_all_ids env js c = Inr c' \<and> mc_ok env c'
    \<and> msgs_of c' = (\<lambda>k. if sk_hex env k \<in> set js then None else msgs_of c k)"
  using assms(2,3)
proof (induction js arbitrary: c)
  case (Cons j js)
  then obtain k where k: "j = sk_hex env k" by auto
  obtain c1 where c1: "mail_remove env (sk_hex env k) c = Inr c1" "mc_ok env c1" "msgs_of c1 = (msgs_of c)(k := None)"
    by (rule remove_ok [OF Cons.prems(1) assms(1)])
  obtain c2 where c2: "remove_all_ids env js c1 = Inr c2" "mc_ok env c2"
    "msgs_of c2 = (\<lambda>k. if sk_hex env k \<in> set js then None else msgs_of c1 k)"
    using Cons.IH [OF c1(2)] Cons.prems(2) by auto
  have "msgs_of c2 = (\<lambda>x. if sk_hex env x \<in> set (j # js) then None else msgs_of c x)"
    by (auto simp: fun_eq_iff c2(3) c1(3) k inj_eq [OF hex_ok_inj [OF assms(1)]])
  then show ?case using c1(1) c2(1,2) k by simp
qed simp

lemma expired_ids_ok:
  assumes "hex_ok (sk_hex env) (sk_unhex env)" "\<forall>e \<in> set es. fst e \<in> range (sk_hex env)"
  shows "\<exists>js. expired_ids env c now es = Inr js \<and> set js = {i. \<exists>k r f s t. i = sk_hex env k
    \<and> (i, f, True, s, t) \<in> set es \<and> msgs_of c k = Some r \<and> expired now r}"
  using assms(2)
proof (induction es)
  case (Cons e es)
  obtain i f rd s t where e: "e = (i, f, rd, s, t)" by (metis surj_pair)
  obtain k where k: "i = sk_hex env k" using Cons.prems e by auto
  obtain js where js: "expired_ids env c now es = Inr js"
    "set js = {i. \<exists>k r f s t. i = sk_hex env k \<and> (i, f, True, s, t) \<in> set es \<and> msgs_of c k = Some r \<and> expired now r}"
    using Cons.IH Cons.prems by auto
  have "expired_ids env c now (e # es)
    = Inr ((if rd \<and> (\<exists>r. msgs_of c k = Some r \<and> expired now r) then [i] else []) @ js)"
    using js(1) get_hex(2) [OF assms(1)] by (cases "msgs_of c k") (simp_all add: e k)
  moreover have "set ((if rd \<and> (\<exists>r. msgs_of c k = Some r \<and> expired now r) then [i] else []) @ js)
    = {i. \<exists>k r f s t. i = sk_hex env k \<and> (i, f, True, s, t) \<in> set (e # es) \<and> msgs_of c k = Some r \<and> expired now r}"
    using js(2) e k inj_eq [OF hex_ok_inj [OF assms(1)]] by auto
  ultimately show ?case by blast
qed simp

lemma index_entry_iff:
  assumes "mc_ok env c"
  shows "(sk_hex env k, f, rd, s, t) \<in> set (mc_index c) \<longleftrightarrow>
    (\<exists>r. msgs_of c k = Some r \<and> f = mr_folder r \<and> rd = mr_read r \<and> s = mr_starred r
      \<and> t = sk_hex env (mm_thread_id (mr_message r)))"
proof -
  have w: "bt_wf (mc_index c)" "map_of (mc_index c) (sk_hex env k) = map_option (entry_of (sk_hex env)) (msgs_of c k)"
    using assms by (simp_all add: mc_ok_def indexed_def)
  have "(sk_hex env k, f, rd, s, t) \<in> set (mc_index c) \<longleftrightarrow> map_of (mc_index c) (sk_hex env k) = Some (f, rd, s, t)"
    using bt_wf_distinct [OF w(1)] by simp
  then show ?thesis using w(2) by (auto simp: entry_of_def)
qed

lemma aged_out_ids:
  assumes "mc_ok env c"
  shows "set (aged_out (se_purge_after_days s) now c) = {i. \<exists>k r. i = sk_hex env k \<and> msgs_of c k = Some r
    \<and> se_purge_after_days s \<noteq> 0 \<and> mr_folder r \<in> {TRASH, SPAM}
    \<and> sat_sub now (mr_received_at_ms r) > ucast (se_purge_after_days s) * 86400000}"
proof -
  let ?late = "\<lambda>t. sat_sub now t > ucast (se_purge_after_days s) * 86400000"
  have "set (map snd (filter (\<lambda>(t, i). ?late t) (ids_of (mc_by_folder c) f)))
      = {i. \<exists>k r. i = sk_hex env k \<and> msgs_of c k = Some r \<and> mr_folder r = f \<and> ?late (mr_received_at_ms r)}" for f
  proof -
    have "snd ` {x \<in> in_folder (sk_hex env) (msgs_of c) f. ?late (fst x)}
      = {i. \<exists>k r. i = sk_hex env k \<and> msgs_of c k = Some r \<and> mr_folder r = f \<and> ?late (mr_received_at_ms r)}"
      by (force simp: in_folder_def)
    then show ?thesis by (simp add: ids_exact [OF assms] case_prod_unfold)
  qed
  then show ?thesis by (cases "se_purge_after_days s = 0") (auto simp: aged_out_def simp del: set_map set_filter)
qed

text \<open>
  A purge removes exactly what has outlived its time: the messages of Trash and Spam older than the
  configured number of days, none when that is zero, and read messages whose own lifetime is over. It
  never fails, reports how many it removed, and every other message stays as it was.
\<close>
lemma purge_ok:
  assumes "hex_ok (sk_hex env) (sk_unhex env)" "mc_ok env c"
  shows "\<exists>c'. mail_purge env now c
      = Inr (card {k. \<exists>r. msgs_of c k = Some r \<and> outlived (mc_settings c) now r}, c') \<and> mc_ok env c'
    \<and> msgs_of c' = (\<lambda>k. Option.bind (msgs_of c k) (\<lambda>r. if outlived (mc_settings c) now r then None else Some r))"
proof -
  let ?old = "{k. \<exists>r. msgs_of c k = Some r \<and> outlived (mc_settings c) now r}"
  let ?aged = "aged_out (se_purge_after_days (mc_settings c)) now c"
  have rng: "\<forall>e \<in> set (mc_index c). fst e \<in> range (sk_hex env)"
  proof
    fix e assume "e \<in> set (mc_index c)"
    then have "map_of (mc_index c) (fst e) \<noteq> None" by (auto simp: map_of_eq_None_iff)
    then show "fst e \<in> range (sk_hex env)" using assms(2) by (simp add: mc_ok_def indexed_def)
  qed
  obtain js where js: "expired_ids env c now (mc_index c) = Inr js"
    "set js = {i. \<exists>k r f s t. i = sk_hex env k \<and> (i, f, True, s, t) \<in> set (mc_index c) \<and> msgs_of c k = Some r \<and> expired now r}"
    using expired_ids_ok [OF assms(1) rng] by blast
  have "set js = {i. \<exists>k r. i = sk_hex env k \<and> msgs_of c k = Some r \<and> mr_read r \<and> expired now r}"
    using js(2) index_entry_iff [OF assms(2)] by auto
  then have old: "set (?aged @ js) = sk_hex env ` ?old"
    unfolding set_append aged_out_ids [OF assms(2)] outlived_def by blast
  let ?v = "remdups_adj (sort (?aged @ js))"
  have v: "set ?v = sk_hex env ` ?old" using old by simp
  have rv: "set ?v \<subseteq> range (sk_hex env)" unfolding v by (rule image_mono) simp
  have "length ?v = card (set ?v)" by (intro distinct_card [symmetric] distinct_remdups_adj_sorted) simp
  then have n: "length ?v = card ?old"
    using v card_image [OF inj_on_subset [OF hex_ok_inj [OF assms(1)]]] by simp
  obtain c' where c': "remove_all_ids env ?v c = Inr c'" "mc_ok env c'"
    "msgs_of c' = (\<lambda>k. if sk_hex env k \<in> set ?v then None else msgs_of c k)"
    using remove_all_ok [OF assms rv] by blast
  have "msgs_of c' = (\<lambda>k. Option.bind (msgs_of c k) (\<lambda>r. if outlived (mc_settings c) now r then None else Some r))"
    unfolding c'(3) v by (auto simp: fun_eq_iff inj_eq [OF hex_ok_inj [OF assms(1)]] split: Option.bind_splits)
  moreover have "mail_purge env now c = Inr (card ?old, c')"
    using js(1) c'(1) n by (simp add: mail_purge_def Let_def)
  ultimately show ?thesis using c'(2) by blast
qed

section \<open>Pages\<close>

text \<open>What is filed, with its time, as the folders hold it.\<close>

definition filed_in :: "'w sdk_env \<Rightarrow> mail_client \<Rightarrow> string \<Rightarrow> (u64 \<times> string) set" where
  "filed_in env c f = {(mr_received_at_ms r, sk_hex env k) | k r. msgs_of c k = Some r \<and> mr_folder r = f}"

lemma filed_in_folder: "filed_in env c f = in_folder (sk_hex env) (msgs_of c) f"
  by (auto simp: filed_in_def in_folder_def)

lemma folder_list:
  assumes "mc_ok env c"
  shows "ids_of (mc_by_folder c) f = sorted_list_of_set (filed_in env c f)"
proof -
  have "sorted (ids_of (mc_by_folder c) f)" "distinct (ids_of (mc_by_folder c) f)"
    "set (ids_of (mc_by_folder c) f) = filed_in env c f"
    using assms by (simp_all add: mc_ok_def indexed_def folders_sorted_def filed_in_folder)
  then show ?thesis by (metis sorted_list_of_set.idem_if_sorted_distinct)
qed

text \<open>The record behind an id as the code prints it.\<close>

definition record_at :: "'w sdk_env \<Rightarrow> mail_client \<Rightarrow> string \<Rightarrow> mail_record" where
  "record_at env c i = the (msgs_of c (the (sk_unhex env i)))"

lemma list_loop_is:
  assumes "hex_ok (sk_hex env) (sk_unhex env)"
    and "\<forall>p \<in> set v. \<exists>k r. snd p = sk_hex env k \<and> msgs_of c k = Some r" "length out < max 1 limit"
  shows "list_loop env c before limit v out = Inr (out @ map (\<lambda>p. summary_of env (snd p) (record_at env c (snd p)))
    (take (max 1 limit - length out) (filter (\<lambda>p. before = 0 \<or> fst p < before) v)))"
  using assms(2,3)
proof (induction v arbitrary: out)
  case (Cons p v)
  obtain t k r where p: "p = (t, sk_hex env k)" and r: "msgs_of c k = Some r"
    using Cons.prems(1) by (cases p) auto
  have at: "record_at env c (sk_hex env k) = r" using assms(1) r by (simp add: record_at_def hex_ok_def)
  note get = get_hex(2) [OF assms(1)]
  show ?case
  proof (cases "before \<noteq> 0 \<and> t \<ge> before")
    case True
    then have "\<not> t < before" by auto
    then show ?thesis using True Cons.IH [of out] Cons.prems p by simp
  next
    case False
    let ?out = "out @ [summary_of env (sk_hex env k) r]"
    have keep: "before = 0 \<or> t < before" "\<not> (before \<noteq> 0 \<and> t \<ge> before)" using False by auto
    show ?thesis
    proof (cases "length ?out \<ge> limit")
      case True
      then have "max 1 limit - length out = 1" using Cons.prems(2) by auto
      then show ?thesis using True keep p r at
        by (simp add: get Let_def del: de_Morgan_conj not_le)
    next
      case more: False
      then have "max 1 limit - length out = Suc (max 1 limit - length ?out)" "length ?out < max 1 limit"
        using Cons.prems(2) by auto
      then show ?thesis using Cons.IH [of ?out] Cons.prems(1) more keep p r at
        by (simp add: get Let_def del: de_Morgan_conj not_le)
    qed
  qed
qed simp

text \<open>
  A page of a folder is exactly the newest messages filed there: \<open>list\<close> returns the summaries of the
  messages of the folder that arrived before the given time, or all when it is zero, newest first and
  by id among equal times, cut to the limit, which counts as one when it is zero.
\<close>
theorem page_is_the_newest_of_a_folder:
  assumes "hex_ok (sk_hex env) (sk_unhex env)" "mc_ok env c"
  shows "mail_list env c f before limit = Inr (map (\<lambda>p. summary_of env (snd p) (record_at env c (snd p)))
    (take (max 1 limit) (filter (\<lambda>p. before = 0 \<or> fst p < before) (rev (sorted_list_of_set (filed_in env c f))))))"
proof -
  let ?v = "ids_of (mc_by_folder c) f"
  have "mail_list env c f before limit = list_loop env c before limit (rev ?v) []"
    by (simp add: mail_list_def ids_of_def split: option.split)
  moreover have "\<forall>p \<in> set (rev ?v). \<exists>k r. snd p = sk_hex env k \<and> msgs_of c k = Some r"
    by (auto simp: ids_exact [OF assms(2)] in_folder_def)
  ultimately show ?thesis using list_loop_is [OF assms(1), of "rev ?v" c "[]"]
    by (simp add: folder_list [OF assms(2)])
qed

section \<open>At concrete inputs\<close>

lemma wit_env_ok: "hex_ok (sk_hex wit_env) (sk_unhex wit_env)"
  by (simp add: plain_hex_ok)


theorem page_is_the_newest_of_a_folder_witness:
  "mail_list wit_env wit_box INBOX 0 10 = Inr [summary_of wit_env (plain_hex (replicate 16 7)) wit_stored]"
proof -
  have "filed_in wit_env wit_box INBOX = {(1000, plain_hex (replicate 16 7))}"
    by (auto simp: filed_in_def msgs_of_def wit_box_ok(3) wit_disk_def wit_stored_def record_incoming_def split: if_splits)
  moreover have "record_at wit_env wit_box (plain_hex (replicate 16 7)) = wit_stored"
    using wit_box_holds plain_hex_ok by (simp add: record_at_def hex_ok_def)
  ultimately show ?thesis
    using page_is_the_newest_of_a_folder [OF wit_env_ok wit_box_ok(1), of INBOX 0 10] by simp
qed

end
