(* ===== verification/Mail_Client_Run.thy ===== *)
theory Mail_Client_Run
  imports Mail_Client_Files
begin

text \<open>
  A device's mailbox over time: what holds after any sequence of events, restarts of the program
  included, and what a restart changes.
\<close>

section \<open>Events\<close>

datatype mail_event =
    EvArrive contacts received mail_message
  | EvReceipt string receipt_msg
  | EvSend contacts string draft
  | EvRead bytes bool
  | EvStar bytes bool
  | EvMove bytes string
  | EvTrash bytes
  | EvDelete bytes
  | EvLabel bytes string bool
  | EvHint state_hint
  | EvTakeHint u64
  | EvPurge u64
  | EvSettings mail_settings
  | EvDraft string draft_record
  | EvDropDraft string
  | EvRestart

text \<open>An operation that fails leaves the mailbox as it was.\<close>

definition or_same :: "mail_client \<Rightarrow> sdk_error + mail_client \<Rightarrow> mail_client" where
  "or_same c x = (case x of Inl _ \<Rightarrow> c | Inr c' \<Rightarrow> c')"

fun mail_step :: "'w sdk_env \<Rightarrow> string \<Rightarrow> mail_client \<times> 'w \<Rightarrow> mail_event \<Rightarrow> mail_client \<times> 'w" where
  "mail_step env me (c, w) (EvArrive contacts r msg) = (case receive_mail env contacts me r msg c w of
     (x, w) \<Rightarrow> (or_same c (map_sum id snd x), w))"
| "mail_step env me (c, w) (EvReceipt a rc) = (or_same c (receive_receipt env a rc c), w)"
| "mail_step env me (c, w) (EvSend contacts display d) = (case mail_send env contacts me display d c w of
     (x, w) \<Rightarrow> (or_same c (map_sum id snd x), w))"
| "mail_step env me (c, w) (EvRead k b) = (case mark_read env (sk_hex env k) b c w of (x, w) \<Rightarrow> (or_same c x, w))"
| "mail_step env me (c, w) (EvStar k b) = (or_same c (mail_star env (sk_hex env k) b c), w)"
| "mail_step env me (c, w) (EvMove k f) = (or_same c (move_to env (sk_hex env k) f c), w)"
| "mail_step env me (c, w) (EvTrash k) = (or_same c (mail_trash env (sk_hex env k) c), w)"
| "mail_step env me (c, w) (EvDelete k) = (or_same c (mail_delete env (sk_hex env k) c), w)"
| "mail_step env me (c, w) (EvLabel k l b) = (or_same c (set_label env (sk_hex env k) l b c), w)"
| "mail_step env me (c, w) (EvHint h) = (or_same c (apply_state_hint env h c), w)"
| "mail_step env me (c, w) (EvTakeHint now) = (snd (take_pending_hint now c), w)"
| "mail_step env me (c, w) (EvPurge now) = (or_same c (map_sum id snd (mail_purge env now c)), w)"
| "mail_step env me (c, w) (EvSettings s) = (set_settings s c, w)"
| "mail_step env me (c, w) (EvDraft i d) = (save_draft i d c, w)"
| "mail_step env me (c, w) (EvDropDraft i) = (snd (delete_draft i c), w)"
| "mail_step env me (c, w) EvRestart = (mail_load (sk_hex env) (mc_disk c), w)"

lemma or_same_ok: "mc_ok env c \<Longrightarrow> (\<And>c'. x = Inr c' \<Longrightarrow> mc_ok env c') \<Longrightarrow> mc_ok env (or_same c x)"
  by (auto simp: or_same_def split: sum.split)

lemma flag_kept:
  "set_mail_flag env (sk_hex env k) f h c = Inr c' \<Longrightarrow> mc_ok env c \<Longrightarrow> hex_ok (sk_hex env) (sk_unhex env) \<Longrightarrow>
    keeps_message f \<Longrightarrow> mc_ok env c'"
  using set_flag_keeps by blast

lemma move_ok:
  assumes "mc_ok env c" "hex_ok (sk_hex env) (sk_unhex env)" "move_to env (sk_hex env k) f c = Inr c'"
  shows "mc_ok env c'"
  using assms(3) unfolding move_to_def
  by (auto split: if_splits elim!: flag_kept [OF _ assms(1,2)])

lemma delete_ok:
  assumes "mc_ok env c" "hex_ok (sk_hex env) (sk_unhex env)" "mail_delete env (sk_hex env k) c = Inr c'"
  shows "mc_ok env c'"
  using delete_done [OF assms] by metis

lemma trash_ok:
  assumes "mc_ok env c" "hex_ok (sk_hex env) (sk_unhex env)" "mail_trash env (sk_hex env k) c = Inr c'"
  shows "mc_ok env c'"
  using assms(3) move_ok [OF assms(1,2), of k TRASH c'] delete_ok [OF assms(1,2), of k c']
  unfolding mail_trash_def and_then_ok by (auto split: if_splits)

lemma read_flag_ok:
  assumes "mc_ok env c" "hex_ok (sk_hex env) (sk_unhex env)" "mark_read_flag env (sk_hex env k) b c = Inr c'"
  shows "mc_ok env c'"
  using assms(3) unfolding mark_read_flag_def
  by (auto split: if_splits elim!: flag_kept [OF _ assms(1,2)])

lemma mark_read_ok:
  assumes "mc_ok env c" "hex_ok (sk_hex env) (sk_unhex env)" "mark_read env (sk_hex env k) b c w = (Inr c', w')"
  shows "mc_ok env c'"
proof (rule read_flag_ok [OF assms(1,2)])
  show "mark_read_flag env (sk_hex env k) b c = Inr c'"
    using assms(3) unfolding mark_read_def
    by (auto simp: and_then_ok split: sum.splits if_splits option.splits prod.splits)
qed

lemma receipt_ok:
  assumes "mc_ok env c" "hex_ok (sk_hex env) (sk_unhex env)" "receive_receipt env a rc c = Inr c'"
  shows "mc_ok env c'"
proof -
  let ?k = "mrc_message_id rc"
  have put: "mc_ok env c'" if "mail_put env (sk_hex env ?k) s c = Inr c'" "stored_ok ?k s" for s
    using mail_put_ok [OF assms(1,2) that(2)] that(1) by (metis sum.inject(2))
  show ?thesis
  proof (cases "msgs_of c ?k")
    case None
    then show ?thesis using assms by (simp add: receive_receipt_def Let_def get_hex [OF assms(2)])
  next
    case (Some r)
    then have "stored_ok ?k r" using assms(1) stored_get by blast
    then have "stored_ok ?k (r\<lparr>mr_delivered_to := x\<rparr>)" "stored_ok ?k (r\<lparr>mr_read_by := x\<rparr>)" for x
      by (simp_all add: stored_ok_def)
    then show ?thesis using assms Some put
      by (auto simp: receive_receipt_def Let_def get_hex [OF assms(2)] split: if_splits)
  qed
qed

text \<open>What a sending files is one of the validated copies.\<close>

lemma bcc_copy_ignored: "validate_mail (m\<lparr>mm_bcc_copy := b\<rparr>) = validate_mail m"
  by (simp add: validate_mail_def cong: if_cong option.case_cong del: first_err.simps)

definition sent_ok :: "mail_record option \<Rightarrow> bool" where
  "sent_ok sent \<longleftrightarrow> (\<forall>r. sent = Some r \<longrightarrow> validate_mail (mr_message r) = Inr () \<and> mr_folder r = SENT)"

lemma send_main_ok:
  assumes "\<forall>m. main = Some m \<longrightarrow> validate_mail m = Inr ()" "send_main env me main w = ((sent, errs), w')"
  shows "sent_ok sent"
  using assms by (auto simp: send_main_def sent_ok_def record_outgoing_def split: option.splits sum.splits prod.splits)

lemma send_copies_ok:
  assumes "\<forall>p \<in> set cs. validate_mail (snd p) = Inr ()" "sent_ok (fst st)"
    and "send_copies env me cs st w = ((sent, errs), w')"
  shows "sent_ok sent"
  using assms
proof (induction env me cs st w rule: send_copies.induct)
  case (2 env me a m cs st errs0 w)
  obtain x w1 where d: "deliver_copy env [ma_address a] m w = (x, w1)" by (metis surj_pair)
  show ?case
  proof (cases x)
    case (Inl e)
    then show ?thesis using 2(1) [OF d [symmetric] Inl] 2(4-) d by simp
  next
    case (Inr g)
    show ?thesis
    proof (cases "st = None")
      case False
      then show ?thesis using 2(2) [OF d [symmetric] Inr] 2(4-) d Inr by simp
    next
      case True
      obtain now w2 where n: "sk_now_ms env w1 = (now, w2)" by (metis surj_pair)
      let ?rec = "(record_outgoing me m (sk_hex env g) now)
        \<lparr>mr_message := (mr_message (record_outgoing me m (sk_hex env g) now))\<lparr>mm_bcc_copy := False\<rparr>\<rparr>"
      have "sent_ok (Some ?rec)" using 2(4) by (simp add: sent_ok_def record_outgoing_def bcc_copy_ignored)
      then show ?thesis
        using 2(3) [OF d [symmetric] Inr] 2(4-) d Inr True n by (simp add: Let_def)
    qed
  qed
qed simp

lemma send_built_ok:
  assumes "mc_ok env c" "hex_ok (sk_hex env) (sk_unhex env)" "send_built env me out c w = (Inr (i, c'), w')"
  shows "mc_ok env c'"
proof -
  have v: "validate_outgoing out = Inr ()"
    using assms(3) by (cases "validate_outgoing out") (simp_all add: send_built_def)
  obtain st w1 where m: "send_main env me (og_main out) w = (st, w1)" by (metis surj_pair)
  obtain sent errs w2 where s: "send_copies env me (og_bcc_copies out) st w1 = ((sent, errs), w2)" by (metis surj_pair)
  have copies: "\<forall>m. og_main out = Some m \<longrightarrow> validate_mail m = Inr ()" "\<forall>p \<in> set (og_bcc_copies out). validate_mail (snd p) = Inr ()"
    using v by (cases "first_err (map validate_mail (opt_list (og_main out) @ map snd (og_bcc_copies out)))";
      auto simp: validate_outgoing_def lift_app_def first_err_ok opt_list_def)+
  have ok: "sent_ok sent"
    using send_copies_ok [OF copies(2) _ s] send_main_ok [OF copies(1), of env me w "fst st" "snd st" w1] m by simp
  obtain r where r: "sent = Some r" using assms(3) v m s by (cases sent) (simp_all add: send_built_def)
  let ?r = "if errs = [] then r else r\<lparr>mr_labels := mr_labels r @ [''partial-delivery'']\<rparr>"
  have "stored_ok (mm_message_id (mr_message ?r)) ?r" using ok r by (simp add: stored_ok_def sent_ok_def)
  then obtain d where "mail_put env (sk_hex env (mm_message_id (mr_message ?r))) ?r c = Inr d" "mc_ok env d"
    using mail_put_ok [OF assms(1,2)] by metis
  then show ?thesis using assms v m s r by (auto simp: send_built_def Let_def split: if_splits)
qed

lemma mail_send_ok:
  assumes "mc_ok env c" "hex_ok (sk_hex env) (sk_unhex env)" "mail_send env contacts me display d c w = (Inr (i, c'), w')"
  shows "mc_ok env c'"
  using assms(3) send_built_ok [OF assms(1,2)]
  by (auto simp: mail_send_def split: prod.splits sum.splits)

text \<open>A change of what is on disk beside the messages, and of nothing in memory it determines.\<close>

lemma mc_ok_meta:
  assumes "mc_ok env c" "md_msgs (mc_disk c') = md_msgs (mc_disk c)" "mc_index c' = mc_index c"
    and "mc_by_folder c' = mc_by_folder c" "mc_by_thread c' = mc_by_thread c"
    and "mc_settings c' = (case md_settings (mc_disk c') of None \<Rightarrow> settings_default | Some s \<Rightarrow> s)"
    and "mc_window c' = (case md_window (mc_disk c') of None \<Rightarrow> [] | Some w \<Rightarrow> w)"
  shows "mc_ok env c'"
  using assms indexed_cong [of "sk_hex env" "msgs_of c" c c'] folders_sorted_cong [of c' c]
  by (simp add: mc_ok_def msgs_of_def disk_ok_def)

lemma label_ok:
  assumes "mc_ok env c" "hex_ok (sk_hex env) (sk_unhex env)" "set_label env (sk_hex env k) l b c = Inr c'"
  shows "mc_ok env c'"
  using assms(3) unfolding set_label_def
  by (auto split: if_splits elim!: flag_kept [OF _ assms(1,2)])

lemma star_ok:
  assumes "mc_ok env c" "hex_ok (sk_hex env) (sk_unhex env)" "mail_star env (sk_hex env k) b c = Inr c'"
  shows "mc_ok env c'"
  using assms(3) unfolding mail_star_def
  by (auto split: if_splits elim!: flag_kept [OF _ assms(1,2)])

lemma receive_ok:
  assumes "mc_ok env c" "hex_ok (sk_hex env) (sk_unhex env)" "receive_mail env contacts me r msg c w = (Inr (x, c'), w')"
  shows "mc_ok env c'"
proof -
  have "validate_mail msg = Inr ()"
    using assms(3) by (cases "validate_mail msg") (simp_all add: receive_mail_def lift_app_def)
  then show ?thesis using received_ok [OF assms(2,1)] assms(3) by (metis Pair_inject sum.inject(2))
qed

lemma mail_step_ok:
  assumes "hex_ok (sk_hex env) (sk_unhex env)" "mc_ok env (fst s)"
  shows "mc_ok env (fst (mail_step env me s e))"
proof -
  obtain c w where s: "s = (c, w)" by (metis surj_pair)
  have c: "mc_ok env c" using assms(2) s by simp
  note keep = or_same_ok [OF c]
  show ?thesis
  proof (cases e)
    case (EvArrive contacts r msg)
    obtain x w' where x: "receive_mail env contacts me r msg c w = (x, w')" by (metis surj_pair)
    have "mc_ok env (or_same c (map_sum id snd x))"
      by (rule keep) (use receive_ok [OF c assms(1), of contacts me r msg w _ _ w'] x in \<open>cases x; auto\<close>)
    then show ?thesis using EvArrive s x by simp
  next
    case (EvSend contacts display d)
    obtain x w' where x: "mail_send env contacts me display d c w = (x, w')" by (metis surj_pair)
    have "mc_ok env (or_same c (map_sum id snd x))"
      by (rule keep) (use mail_send_ok [OF c assms(1), of contacts me display d w _ _ w'] x in \<open>cases x; auto\<close>)
    then show ?thesis using EvSend s x by simp
  next
    case (EvRead k b)
    obtain x w' where x: "mark_read env (sk_hex env k) b c w = (x, w')" by (metis surj_pair)
    have "mc_ok env (or_same c x)"
      by (rule keep) (use mark_read_ok [OF c assms(1), of k b w _ w'] x in simp)
    then show ?thesis using EvRead s x by simp
  next
    case (EvPurge now)
    obtain n d where "mail_purge env now c = Inr (n, d)" "mc_ok env d"
      using purge_ok [OF assms(1) c, of now] by blast
    then show ?thesis using EvPurge s by (simp add: or_same_def)
  next
    case (EvHint h)
    obtain d where "apply_state_hint env h c = Inr d" "mc_ok env d" by (rule apply_hint_ok [OF c assms(1)])
    then show ?thesis using EvHint s by (simp add: or_same_def)
  next
    case EvRestart
    then show ?thesis using s c load_ok(1) [OF assms(1)] by (simp add: mc_ok_def)
  next
    case (EvReceipt a rc)
    then show ?thesis using s keep receipt_ok [OF c assms(1)] by simp
  next
    case (EvStar k b)
    then show ?thesis using s keep star_ok [OF c assms(1)] by simp
  next
    case (EvMove k f)
    then show ?thesis using s keep move_ok [OF c assms(1)] by simp
  next
    case (EvTrash k)
    then show ?thesis using s keep trash_ok [OF c assms(1)] by simp
  next
    case (EvDelete k)
    then show ?thesis using s keep delete_ok [OF c assms(1)] by simp
  next
    case (EvLabel k l b)
    then show ?thesis using s keep label_ok [OF c assms(1)] by simp
  next
    case (EvTakeHint now)
    have "mc_ok env (snd (take_pending_hint now c))"
      by (rule mc_ok_cong [OF c]) (simp_all add: take_pending_hint_def Let_def)
    then show ?thesis using EvTakeHint s by simp
  next
    case (EvSettings st)
    have "mc_ok env (set_settings st c)"
      by (rule mc_ok_meta [OF c]) (use c in \<open>simp_all add: set_settings_def mc_ok_def\<close>)
    then show ?thesis using EvSettings s by simp
  next
    case (EvDraft i d)
    have "mc_ok env (save_draft i d c)"
      by (rule mc_ok_meta [OF c]) (use c in \<open>simp_all add: save_draft_def mc_ok_def\<close>)
    then show ?thesis using EvDraft s by simp
  next
    case (EvDropDraft i)
    have "mc_ok env (snd (delete_draft i c))"
      by (rule mc_ok_meta [OF c]) (use c in \<open>simp_all add: delete_draft_def mc_ok_def\<close>)
    then show ?thesis using EvDropDraft s by simp
  qed
qed

text \<open>The mailbox is one of the machines of the prelude.\<close>

interpretation mailbox: invariant_machine "mail_step env me"
    "\<lambda>s. hex_ok (sk_hex env) (sk_unhex env) \<and> mc_ok env (fst s)" for env me
  by unfold_locales (simp add: mail_step_ok)


section \<open>Restarts\<close>

lemma distinct_concat_groups:
  assumes "distinct (map fst m)" "\<And>f v. (f, v) \<in> set m \<Longrightarrow> distinct v"
    and "\<And>f v g u. (f, v) \<in> set m \<Longrightarrow> (g, u) \<in> set m \<Longrightarrow> f \<noteq> g \<Longrightarrow> set v \<inter> set u = {}"
  shows "distinct (concat (map snd m))"
  using assms
proof (induction m)
  case (Cons p m)
  obtain f v where p: "p = (f, v)" by (metis surj_pair)
  have "set v \<inter> set u = {}" if "(g, u) \<in> set m" for g u
  proof -
    have "f \<noteq> g" using Cons.prems(1) that p by (auto simp: image_iff)
    then show ?thesis using Cons.prems(3) [of f v g u] that p by simp
  qed
  then have "set v \<inter> set (concat (map snd m)) = {}" by fastforce
  moreover have "distinct (concat (map snd m))"
  proof (rule Cons.IH)
    show "distinct (map fst m)" using Cons.prems(1) by simp
    show "distinct u" if "(g, u) \<in> set m" for g u using Cons.prems(2) [of g u] that by simp
    show "set u \<inter> set u' = {}" if "(g, u) \<in> set m" "(g', u') \<in> set m" "g \<noteq> g'" for g u g' u'
      using Cons.prems(3) [of g u g' u'] that by simp
  qed
  ultimately show ?case using Cons.prems(2) [of f v] p by simp
qed simp

lemma newest_first_is:
  assumes "hex_ok (sk_hex env) (sk_unhex env)" "mc_ok env c"
  shows "newest_first c = rev (sorted_list_of_set {(mr_received_at_ms r, sk_hex env k) | k r. msgs_of c k = Some r})"
proof -
  let ?m = "mc_by_folder c" and ?S = "{(mr_received_at_ms r, sk_hex env k) | k r. msgs_of c k = Some r}"
  have m: "bt_wf ?m" using assms(2) by (simp add: mc_ok_def indexed_def)
  have v: "v = ids_of ?m f" if "(f, v) \<in> set ?m" for f v
    using that bt_wf_distinct [OF m] by (simp add: ids_of_def)
  have "distinct (concat (map snd ?m))"
  proof (rule distinct_concat_groups [OF bt_wf_distinct [OF m]])
    show "distinct v" if "(f, v) \<in> set ?m" for f v
      using v [OF that] assms(2) by (simp add: mc_ok_def indexed_def)
    show "set v \<inter> set u = {}" if "(f, v) \<in> set ?m" "(g, u) \<in> set ?m" "f \<noteq> g" for f v g u
      using v [OF that(1)] v [OF that(2)] that(3) inj_eq [OF hex_ok_inj [OF assms(1)]]
      by (auto simp: ids_exact [OF assms(2)] in_folder_def)
  qed
  moreover have "set (concat (map snd ?m)) = ?S"
  proof
    show "set (concat (map snd ?m)) \<subseteq> ?S"
      using v ids_exact [OF assms(2)] by (fastforce simp: in_folder_def)
    show "?S \<subseteq> set (concat (map snd ?m))"
    proof
      fix p assume "p \<in> ?S"
      then obtain k r where r: "p = (mr_received_at_ms r, sk_hex env k)" "msgs_of c k = Some r" by blast
      then have "p \<in> set (ids_of ?m (mr_folder r))" using ids_exact [OF assms(2)] by (auto simp: in_folder_def)
      then obtain v where "(mr_folder r, v) \<in> set ?m" "p \<in> set v"
        by (cases "map_of ?m (mr_folder r)") (auto simp: ids_of_def dest: map_of_SomeD)
      moreover from this(1) have "v \<in> set (map snd ?m)" by (metis image_eqI list.set_map snd_conv)
      ultimately show "p \<in> set (concat (map snd ?m))" by auto
    qed
  qed
  ultimately have "sort (concat (map snd ?m)) = sorted_list_of_set ?S"
    using sorted_list_of_set.idem_if_sorted_distinct [of "sort (concat (map snd ?m))"]
    by (simp only: sorted_sort distinct_sort set_sort)
  then show ?thesis by (simp add: newest_first_def)
qed

text \<open>Reading depends on the disk only.\<close>

lemma get_same: "mc_disk c = mc_disk d \<Longrightarrow> mail_get env c i = mail_get env d i"
  by (simp add: mail_get_def)

lemma list_loop_same:
  assumes "mc_disk c = mc_disk d"
  shows "list_loop env c before limit v out = list_loop env d before limit v out"
proof (induction v arbitrary: out)
  case (Cons p v)
  then show ?case by (cases p; cases "mail_get env d (snd p)"; cases "before = 0") (simp_all add: get_same [OF assms] Let_def)
qed simp

lemma find_loop_same:
  assumes "mc_disk c = mc_disk d"
  shows "find_loop env c P limit v out = find_loop env d P limit v out"
proof (induction v arbitrary: out)
  case (Cons p v)
  then show ?case
    by (cases p; cases "mail_get env d (snd p)") (simp_all add: get_same [OF assms] Let_def split: option.split)
qed simp

lemma starred_ids_same: "mc_disk c = mc_disk d \<Longrightarrow> starred_ids env c es = starred_ids env d es"
  by (induction es) (auto simp: get_same [of c d])

lemma summaries_same: "mc_disk c = mc_disk d \<Longrightarrow> summaries env c js = summaries env d js"
  by (induction js) (simp_all add: get_same [of c d])

lemma list_by_ids: "mail_list env c f before limit = list_loop env c before limit (rev (ids_of (mc_by_folder c) f)) []"
  by (simp add: mail_list_def ids_of_def split: option.split)

lemma get_all_is:
  assumes "hex_ok (sk_hex env) (sk_unhex env)" "\<forall>i \<in> set js. \<exists>k r. i = sk_hex env k \<and> msgs_of c k = Some r"
  shows "get_all env c js = Inr (map (record_at env c) js)"
  using assms(2)
proof (induction js)
  case (Cons i js)
  then obtain k r where r: "i = sk_hex env k" "msgs_of c k = Some r" by auto
  then have "record_at env c i = r" using assms(1) by (simp add: record_at_def hex_ok_def)
  then show ?case using Cons r get_hex(2) [OF assms(1)] by simp
qed simp

text \<open>The messages of a thread have an order of their own, so the order of the index does not show.\<close>

lemma thread_order:
  assumes "hex_ok (sk_hex env) (sk_unhex env)" "mc_ok env c" "mset js = mset js'"
    and "\<forall>i \<in> set js. \<exists>k r. i = sk_hex env k \<and> msgs_of c k = Some r" "distinct js"
  shows "sort_key (\<lambda>r. (mm_created_at_ms (mr_message r), mm_message_id (mr_message r))) (filter P (map (record_at env c) js))
    = sort_key (\<lambda>r. (mm_created_at_ms (mr_message r), mm_message_id (mr_message r))) (filter P (map (record_at env c) js'))"
proof (rule sort_key_inj_key_eq)
  let ?key = "\<lambda>r. (mm_created_at_ms (mr_message r), mm_message_id (mr_message r))"
  show "mset (filter P (map (record_at env c) js)) = mset (sort_key ?key (filter P (map (record_at env c) js')))"
    using assms(3) by (simp add: mset_map)
  show "inj_on ?key (set (filter P (map (record_at env c) js)))"
  proof (rule inj_onI)
    fix a b assume *: "a \<in> set (filter P (map (record_at env c) js))" "b \<in> set (filter P (map (record_at env c) js))" "?key a = ?key b"
    have "\<exists>k. msgs_of c k = Some x" if x: "x \<in> set (map (record_at env c) js)" for x
    proof -
      obtain i where i: "i \<in> set js" "x = record_at env c i" using x by auto
      then obtain k r where "i = sk_hex env k" "msgs_of c k = Some r" using assms(4) by blast
      then show ?thesis using i assms(1) by (auto simp: record_at_def hex_ok_def)
    qed
    then obtain k l where "msgs_of c k = Some a" "msgs_of c l = Some b"
      using *(1,2) unfolding set_filter by blast
    then show "a = b" using stored_get [OF assms(2)] *(3) by (fastforce simp: stored_ok_def)
  qed
  show "sorted (map ?key (sort_key ?key (filter P (map (record_at env c) js'))))" by simp
qed

lemma thread_ids:
  assumes "mc_ok env c"
  shows "distinct (ids_of (mc_by_thread c) t)" "set (ids_of (mc_by_thread c) t) = in_thread (sk_hex env) (msgs_of c) t"
  using assms by (simp_all add: mc_ok_def indexed_def)

lemma get_thread_same:
  assumes "hex_ok (sk_hex env) (sk_unhex env)" "mc_ok env c" "mc_ok env d" "mc_disk c = mc_disk d"
    and "in_thread (sk_hex env) (msgs_of c) t \<noteq> {}"
  shows "get_thread env c t = get_thread env d t"
proof -
  have m: "msgs_of d = msgs_of c" using assms(4) by (simp add: msgs_of_def)
  have r: "record_at env d = record_at env c" by (simp add: record_at_def m fun_eq_iff)
  obtain js where js: "map_of (mc_by_thread c) t = Some js" "ids_of (mc_by_thread c) t = js"
    using thread_ids(2) [OF assms(2), of t] assms(5) by (cases "map_of (mc_by_thread c) t") (simp_all add: ids_of_def)
  obtain js' where js': "map_of (mc_by_thread d) t = Some js'" "ids_of (mc_by_thread d) t = js'"
    using thread_ids(2) [OF assms(3), of t] assms(5) m by (cases "map_of (mc_by_thread d) t") (simp_all add: ids_of_def)
  have s: "distinct js" "distinct js'" "set js = in_thread (sk_hex env) (msgs_of c) t" "set js' = set js"
    using thread_ids [OF assms(2), of t] thread_ids [OF assms(3), of t] js js' m by simp_all
  have there: "\<forall>i \<in> set js. \<exists>k r. i = sk_hex env k \<and> msgs_of c k = Some r" using s(3) by (auto simp: in_thread_def)
  then have *: "get_all env c js = Inr (map (record_at env c) js)" "get_all env d js' = Inr (map (record_at env c) js')"
    using get_all_is [OF assms(1), of js c] get_all_is [OF assms(1), of js' d] s(4) m r by simp_all
  have "mset js = mset js'" using s by (metis set_eq_iff_mset_eq_distinct)
  note thread_order [OF assms(1,2) this there s(1)]
  then show ?thesis using js(1) js'(1) * by (simp add: get_thread_def)
qed


section \<open>At concrete inputs\<close>



end
