(* ===== verification/Spec2Isabelle.thy ===== *)
theory Spec2Isabelle
  imports Canonical Wire_Ids Net_Identity Peer_Limits Peer_Score Blob Drive_Merge Space_Props Frame Merkle Circle_Props Mail_Props Spam App_Envelope Mailbox_Props Mailbox_Paging Smtp_Client_Props Gateway_Props Mime_Props Mail_Client_Run
begin

text \<open>
  \<^bold>\<open>Hashgram: the application objects, the protocol and the services of the network.\<close>

  Hashgram is a messenger, mail, drive and social network over a peer-to-peer network with a chain
  for identities. This development models its Rust core. Every theory follows the files it names,
  in their order, one definition per function; types of fixed width are words, \<open>usize\<close> is \<open>nat\<close>, a
  \<open>String\<close> is its bytes as characters, a \<open>Result\<close> is a sum, and an ordered map is a sorted
  association list (theory \<open>Prelude\<close>, which also holds the locales \<open>invariant_machine\<close>,
  \<open>dedup_machine\<close> and \<open>refinement\<close> that the components interpret).

  \<^bold>\<open>Identity and framing.\<close> \<open>Canonical\<close> (\<open>hashgram-net/src/canonical.rs\<close>) builds the byte strings
  that are signed and shows that they are injective; \<open>Net_Identity\<close> (\<open>identity.rs\<close>, \<open>purpose.rs\<close>,
  \<open>handshake.rs\<close>, and \<open>hashgram-app/src/signing.rs\<close>) puts the network and the purpose in front;
  \<open>Wire_Ids\<close> (\<open>ids.rs\<close>, \<open>version.rs\<close>) checks identifiers and addresses; \<open>Frame\<close> and \<open>Merkle\<close>
  (\<open>hashgram-proto\<close>) are the RPC framing and the storage challenges; \<open>Proto_Validate\<close> and
  \<open>Proto_Signing\<close> (\<open>validate.rs\<close>, \<open>keys.rs\<close>, \<open>signing.rs\<close>) are what every node checks of a wire
  object: a signed object verifies, an event id names one event, no signature serves two requests.

  \<^bold>\<open>Application objects.\<close> \<open>Drive_Object\<close>, \<open>Drive_Manifest\<close>, \<open>Drive_Ops\<close>, \<open>Drive_Inv\<close>,
  \<open>Drive_Props\<close>, \<open>Drive_Merge\<close> (\<open>drive.rs\<close>): sealed files, the folder tree and its operations, and
  the merge of two devices. \<open>Blob\<close> (\<open>hashgram-proto/src/blob.rs\<close>): chunking. \<open>Space\<close>,
  \<open>Space_Props\<close> (\<open>space.rs\<close>): replicated groups with roles. \<open>Circle\<close>, \<open>Circle_Props\<close> (\<open>circle.rs\<close>):
  timelines with reactions and polls. \<open>People\<close> (\<open>people.rs\<close>): the contact book, which refines one
  set of flags per address. \<open>Mail\<close>, \<open>Mail_Props\<close> (\<open>mail.rs\<close>): drafts, threads, replies. \<open>Spam\<close>
  (\<open>spam.rs\<close>): the policy for incoming mail. \<open>App_Envelope\<close> (\<open>envelope.rs\<close>): the wrapping of all of
  these in a chat message.

  \<^bold>\<open>Peers and services.\<close> \<open>Peer_Limits\<close> and \<open>Peer_Score\<close> (\<open>hashgram-p2p/src/limits.rs\<close>,
  \<open>score.rs\<close>, two handlers of \<open>swarm.rs\<close>): which connections a node keeps. \<open>Topics\<close>
  (\<open>lib.rs\<close>, \<open>dht.rs\<close>): names of topics and provider keys. \<open>Mailbox_Store\<close>
  (\<open>hashgram-node/src/mailbox.rs\<close>): store-and-forward mailboxes, with the invariants of its tables in
  \<open>Mailbox_Inv\<close>, its properties in \<open>Mailbox_Props\<close>, and paging composed with the loop of the SDK in
  \<open>Mailbox_Paging\<close>; \<open>Mailbox_Example\<close> is a small run for the witnesses.

  \<^bold>\<open>The mail gateway\<close> (\<open>services/mail-gateway\<close>) joins HashMail to Internet mail. \<open>Smtp\<close> is its server
  (\<open>smtp/mod.rs\<close>, \<open>smtp/server.rs\<close>) with the application as an argument; \<open>Smtp_Props\<close> states what any
  application may rely on (locale \<open>smtp_application\<close>). \<open>Smtp_Client\<close> (\<open>smtp/client.rs\<close>) is composed
  with that server in \<open>Smtp_Client_Props\<close>. \<open>Gateway_Rules\<close> (\<open>ratelimit.rs\<close>, \<open>policy.rs\<close>, \<open>address.rs\<close>,
  \<open>thread.rs\<close>), \<open>Gateway_Store\<close> (\<open>store.rs\<close>) and \<open>Gateway_In\<close> (\<open>bridge.rs\<close>) take a message from
  acceptance to delivery; \<open>Gateway_Props\<close> holds the invariant of the database, interprets
  \<open>smtp_application\<close> on the gateway and follows a message from the socket to its delivery. \<open>Mime\<close> and
  \<open>Mime_Out\<close> (\<open>mime/mod.rs\<close>, \<open>mime/outbound.rs\<close>) write a native message as an Internet message;
  \<open>Mime_Props\<close> shows with reference readers that its bodies, parts and headers read back. \<open>Rust_Str\<close>
  and \<open>Rust_Text\<close> are the functions of the standard library on texts.

  \<^bold>\<open>The mailbox of a device\<close> (\<open>hashgram-sdk/src/mail.rs\<close>). \<open>Mail_Client\<close> is what a device stores and
  indexes: arrival through the policy of \<open>Spam\<close> and the contact book of \<open>People\<close>, folders, threads, flags
  and their hints for the user's other devices, search, purging and drafts; \<open>Mail_Outbox\<close> sends what \<open>Mail\<close>
  builds, with the postage of \<open>Spam\<close>. \<open>Mail_Client_Inv\<close> shows that the indexes are exact and what each
  operation leaves; \<open>Mail_Client_Props\<close> that hints keep two devices in agreement; \<open>Mail_Client_Files\<close> what
  an arrival, a purge and a page are; \<open>Mail_Client_Run\<close> interprets \<open>invariant_machine\<close> on the events of a
  device and shows that a restart changes nothing that is seen. Ids are taken as the code prints them.

  \<^bold>\<open>Arguments.\<close> Hash functions, ed25519, AEAD, hexadecimal, the protobuf codec and Unicode
  lower-casing are code of other packages and arguments of the definitions; what is relied on is a
  named hypothesis (\<open>ed25519_correct\<close>, \<open>codec_ok\<close>, an injectivity on the strings that occur), and
  each property with such a hypothesis is applied to a concrete instance. Clocks and randomness are
  arguments as well. Texts of errors are abbreviated or are the error values.

  \<^bold>\<open>Bounds and fuel.\<close> Loops that are not structural recurse on a measure: eviction on the length of
  the log, retrying of pending events on their number, the levels of a Merkle tree on their length,
  the trimming of references and subjects on their length. The walk to the root of the drive is
  \<open>partial_function\<close> and shown to return; the subtree loop is bounded by the number of entries, the
  postage loop by its budget. The paging loop of a client has fuel; more than the number of
  envelopes of the mailbox is enough.

  \<^bold>\<open>Not modelled.\<close> The libp2p event loop, transport and metrics, OpenMLS groups, the vault and the
  chain client (wrappers of libraries and input/output), HTTP interfaces, the command-line and desktop
  programs (orchestration of the operations modelled here), and the Go and TypeScript parts.
  Errors of the storage engine, I/O errors and poisoned locks are left out.
\<close>

end
